(* ===== verification/Prelude.thy ===== *)
theory Prelude
  imports Main "HOL-Library.Word"
begin

text \<open>
  Shared vocabulary of the development: the C integer types as words, byte
  buffers with checked access, and the generic lemmas on lists and words that
  the component theories use.

  A buffer is the list of its bytes and a pointer into it is an offset.  C
  offsets are differences of unsigned and signed quantities and may be
  negative, so offsets and lengths are \<open>int\<close>.  An access outside the buffer is
  undefined behaviour in C; the accessors \<open>rd\<close>, \<open>rd_bytes\<close> and \<open>wr_bytes\<close>
  return \<open>None\<close> there, and so does every operation that performs such an
  access.
\<close>

unbundle bit_operations_syntax

type_synonym byte = "8 word"
type_synonym u16 = "16 word"
type_synonym u32 = "32 word"
type_synonym u64 = "64 word"

text \<open>The return codes \<open>_SUCCESS\<close> and \<open>_FAIL\<close>.\<close>

datatype status = SUCCESS | FAIL

named_theorems buf_simps \<open>reading and writing byte buffers\<close>
named_theorems len_simps \<open>lengths of the buffers and blocks the operations return\<close>

section \<open>Byte buffers\<close>

definition in_buf :: "'a list \<Rightarrow> int \<Rightarrow> int \<Rightarrow> bool" where
  "in_buf b off n \<longleftrightarrow> 0 \<le> off \<and> 0 \<le> n \<and> off + n \<le> int (length b)"

definition rd :: "'a list \<Rightarrow> int \<Rightarrow> 'a option" where
  "rd b i = (if 0 \<le> i \<and> i < int (length b) then Some (b ! nat i) else None)"

definition rd_bytes :: "'a list \<Rightarrow> int \<Rightarrow> int \<Rightarrow> 'a list option" where
  "rd_bytes b off n =
     (if in_buf b off n then Some (take (nat n) (drop (nat off) b)) else None)"

definition overlay :: "'a list \<Rightarrow> nat \<Rightarrow> 'a list \<Rightarrow> 'a list" where
  "overlay b off xs = take off b @ xs @ drop (off + length xs) b"

definition wr_bytes :: "'a list \<Rightarrow> int \<Rightarrow> 'a list \<Rightarrow> 'a list option" where
  "wr_bytes b off xs =
     (if in_buf b off (int (length xs)) then Some (overlay b (nat off) xs) else None)"

section \<open>Stores of machine integers as bytes\<close>

text \<open>
  \<open>le32_bytes\<close> is the byte image of \<open>*(uint32_t *)p = cpu_to_le32(v)\<close>: the
  build defines \<open>CONFIG_LITTLE_ENDIAN\<close> (src/Makefile), so both
  \<open>cpu_to_le32\<close> and \<open>le32_to_cpu\<close> are the identity and the least
  significant byte is stored first.
\<close>

definition le32_bytes :: "u32 \<Rightarrow> byte list" where
  "le32_bytes v = [ucast v, ucast (drop_bit 8 v), ucast (drop_bit 16 v), ucast (drop_bit 24 v)]"

definition le16_of :: "byte \<Rightarrow> byte \<Rightarrow> u16" where
  "le16_of lo hi = ucast lo OR push_bit 8 (ucast hi)"

definition le32_of :: "byte \<Rightarrow> byte \<Rightarrow> byte \<Rightarrow> byte \<Rightarrow> u32" where
  "le32_of b0 b1 b2 b3 =
     ucast b0 XOR push_bit 8 (ucast b1) XOR push_bit 16 (ucast b2) XOR push_bit 24 (ucast b3)"

section \<open>Lemmas on buffers\<close>

lemma length_overlay [len_simps]:
  "off + length xs \<le> length b \<Longrightarrow> length (overlay b off xs) = length b"
  by (simp add: overlay_def)

lemma length_wr_bytes [len_simps]: "wr_bytes b off xs = Some b' \<Longrightarrow> length b' = length b"
  by (auto simp: wr_bytes_def in_buf_def length_overlay nat_le_iff split: if_splits)

lemma rd_bytes_Some_iff:
  "rd_bytes b off n = Some xs \<longleftrightarrow> in_buf b off n \<and> xs = take (nat n) (drop (nat off) b)"
  by (auto simp: rd_bytes_def)

lemma length_rd_bytes [len_simps]: "rd_bytes b off n = Some xs \<Longrightarrow> int (length xs) = n"
  by (auto simp: rd_bytes_Some_iff in_buf_def min_def nat_le_iff)

lemma nth_overlay:
  assumes "off + length xs \<le> length b" and "i < length b"
  shows "overlay b off xs ! i =
    (if i < off then b ! i else if i < off + length xs then xs ! (i - off) else b ! i)"
  using assms by (auto simp: overlay_def nth_append min_def)

lemma take_overlay_le: "n \<le> off \<Longrightarrow> off \<le> length b \<Longrightarrow> take n (overlay b off xs) = take n b"
  by (simp add: overlay_def min_def)

lemma drop_overlay_ge:
  "off + length xs \<le> n \<Longrightarrow> off + length xs \<le> length b \<Longrightarrow> drop n (overlay b off xs) = drop n b"
  by (rule nth_equalityI) (auto simp: nth_overlay length_overlay)

lemma overlay_region:
  "off + length xs \<le> length b \<Longrightarrow> take (length xs) (drop off (overlay b off xs)) = xs"
  by (simp add: overlay_def min_def)

lemma overlay_overlay:
  "length xs = length ys \<Longrightarrow> off + length xs \<le> length b \<Longrightarrow>
   overlay (overlay b off xs) off ys = overlay b off ys"
  by (rule nth_equalityI) (auto simp: nth_overlay length_overlay)

lemma overlay_append:
  "off + length xs + length ys \<le> length b \<Longrightarrow>
   overlay (overlay b off xs) (off + length xs) ys = overlay b off (xs @ ys)"
  by (rule nth_equalityI) (auto simp: nth_overlay length_overlay nth_append)

lemma take_overlay_end:
  "off + length xs \<le> length b \<Longrightarrow> take (off + length xs) (overlay b off xs) = take off b @ xs"
  by (cases xs) (auto simp: overlay_def min_def)

lemma overlay_end: "length pre = off \<Longrightarrow> length xs = length ys \<Longrightarrow> overlay (pre @ xs) off ys = pre @ ys"
  by (simp add: overlay_def)

lemma rd_bytes_nat [buf_simps]:
  "b + l \<le> length m \<Longrightarrow> rd_bytes m (int b) (int l) = Some (take l (drop b m))"
  by (simp add: rd_bytes_def in_buf_def)

lemma wr_bytes_nat [buf_simps]:
  "b + length xs \<le> length m \<Longrightarrow> wr_bytes m (int b) xs = Some (overlay m b xs)"
  by (simp add: wr_bytes_def in_buf_def)

lemma rd_nat [buf_simps]: "i < length m \<Longrightarrow> rd m (int i) = Some (m ! i)"
  by (simp add: rd_def)

lemma overlay_id:
  "off + length xs \<le> length b \<Longrightarrow> take (length xs) (drop off b) = xs \<Longrightarrow> overlay b off xs = b"
  by (metis append_take_drop_id drop_drop overlay_def add.commute)

lemma rd_wr_same [buf_simps]:
  assumes "wr_bytes b off xs = Some b'"
  shows "rd_bytes b' off (int (length xs)) = Some xs"
  using assms
  by (auto simp: wr_bytes_def rd_bytes_def in_buf_def length_overlay overlay_region nat_le_iff
      split: if_splits)

lemma rd_wr_disjoint [buf_simps]:
  assumes "wr_bytes b off xs = Some b'"
    and "i + n \<le> off \<or> off + int (length xs) \<le> i"
  shows "rd_bytes b' i n = rd_bytes b i n"
proof -
  have b': "b' = overlay b (nat off) xs" and off: "0 \<le> off" "nat off + length xs \<le> length b"
    using assms(1) by (auto simp: wr_bytes_def in_buf_def split: if_splits)
  show ?thesis
  proof (cases "in_buf b i n")
    case True
    then have i: "0 \<le> i" "0 \<le> n" "nat i + nat n \<le> length b"
      by (auto simp: in_buf_def)
    have "take (nat n) (drop (nat i) b') = take (nat n) (drop (nat i) b)"
      using assms(2) off i
      by (intro nth_equalityI) (auto simp: b' length_overlay nth_overlay)
    with True off show ?thesis
      by (simp add: rd_bytes_def in_buf_def b' length_overlay)
  next
    case False
    with off show ?thesis by (auto simp: rd_bytes_def in_buf_def b' length_overlay)
  qed
qed

section \<open>Lemmas on words\<close>

lemma xor_cancel_right [simp]: "(a XOR b) XOR b = (a :: 'a::len word)"
  by (simp add: xor.assoc)

lemma xor_cancel_left [simp]: "b XOR (b XOR a) = (a :: 'a::len word)"
  by (simp add: xor.assoc [symmetric])

lemma xor_right_inject [simp]: "a XOR k = b XOR k \<longleftrightarrow> a = (b :: 'a::len word)"
  by (metis xor_cancel_right)

lemma xor_left_inject [simp]: "k XOR a = k XOR b \<longleftrightarrow> a = (b :: 'a::len word)"
  by (metis xor_cancel_left)

lemma unat_and_255_less: "unat ((w :: u32) AND 0xff) < 256"
proof -
  have "w AND 0xff \<le> 0xff" by (rule word_and_le1)
  then have "unat (w AND 0xff) \<le> unat (0xff :: u32)" by (simp only: word_le_nat_alt)
  then show ?thesis by simp
qed

lemma unat_ucast_up:
  assumes "LENGTH('a::len) \<le> LENGTH('b::len)"
  shows "unat (ucast (w :: 'a word) :: 'b word) = unat w"
proof -
  have "unat w < 2 ^ LENGTH('a)" by simp
  also have "\<dots> \<le> 2 ^ LENGTH('b)" using assms by (simp add: power_increasing)
  finally show ?thesis by (simp add: unsigned_ucast_eq take_bit_nat_eq_self)
qed

lemma unat_of_nat_u32: "n < 2 ^ 32 \<Longrightarrow> unat (of_nat n :: u32) = n"
  by (simp add: unat_of_nat take_bit_nat_eq_self)

lemma sint_nonneg_u32:
  assumes "unat (w :: u32) < 2 ^ 31"
  shows "sint w = int (unat w)"
proof -
  have "int (unat w) < int (2 ^ 31)" using assms by (simp only: of_nat_less_iff)
  then have "uint w < 2 ^ 31" by simp
  moreover have "- (2 ^ 31) \<le> uint w" by (rule order_trans [OF _ uint_ge_0]) simp
  ultimately have "signed_take_bit 31 (uint w) = uint w" by (intro signed_take_bit_int_eq_self)
  then show ?thesis by (simp add: sint_uint)
qed

lemma bit_255_int [simp]: "bit (255 :: int) n \<longleftrightarrow> n < 8"
proof -
  have "(255 :: int) = mask 8" by (simp add: mask_eq_exp_minus_1)
  then show ?thesis by (simp only: bit_mask_iff) simp
qed

lemma bit_255_nat [simp]: "bit (255 :: nat) n \<longleftrightarrow> n < 8"
proof -
  have "(255 :: nat) = mask 8" by (simp add: mask_eq_exp_minus_1)
  then show ?thesis by (simp only: bit_mask_iff) simp
qed

lemma bit_255_u32: "bit (255 :: u32) n \<longleftrightarrow> n < 8"
  by auto

lemma bit_byte_less: "bit (b :: byte) n \<Longrightarrow> n < 8"
  using bit_imp_le_length [of b n] by simp

lemma odd_xor_word: "odd (a XOR b :: 'a::len word) \<longleftrightarrow> odd a \<noteq> odd b"
  using bit_xor_iff [of a b 0] by (simp add: bit_0)

lemma le32_bytes_of: "le32_bytes (le32_of b0 b1 b2 b3) = [b0, b1, b2, b3]"
proof -
  have "ucast (le32_of b0 b1 b2 b3) = b0"
    by (rule bit_word_eqI) (auto simp: le32_of_def bit_simps)
  moreover have "ucast (drop_bit 8 (le32_of b0 b1 b2 b3)) = b1"
    by (rule bit_word_eqI) (auto simp: le32_of_def bit_simps dest: bit_byte_less)
  moreover have "ucast (drop_bit 16 (le32_of b0 b1 b2 b3)) = b2"
    by (rule bit_word_eqI) (auto simp: le32_of_def bit_simps dest: bit_byte_less)
  moreover have "ucast (drop_bit 24 (le32_of b0 b1 b2 b3)) = b3"
    by (rule bit_word_eqI) (auto simp: le32_of_def bit_simps dest: bit_byte_less)
  ultimately show ?thesis by (simp add: le32_bytes_def)
qed

lemma xor_eq_or_shift:
  assumes "\<And>i. bit x i \<Longrightarrow> i < k"
  shows "x XOR push_bit k y = x OR push_bit k (y :: u32)"
  by (rule bit_word_eqI) (auto simp: bit_simps dest: assms)

lemma le32_of_or:
  "le32_of a b c d =
     ((ucast a OR push_bit 8 (ucast b)) OR push_bit 16 (ucast c)) OR push_bit 24 (ucast d)"
proof -
  have a: "bit (ucast a :: u32) i \<Longrightarrow> i < 8" for i
    by (auto simp: bit_simps dest: bit_byte_less)
  have b: "bit (ucast a OR push_bit 8 (ucast b) :: u32) i \<Longrightarrow> i < 16" for i
    by (auto simp: bit_simps dest: bit_byte_less)
  have c: "bit ((ucast a OR push_bit 8 (ucast b)) OR push_bit 16 (ucast c) :: u32) i \<Longrightarrow> i < 24" for i
    by (auto simp: bit_simps dest: bit_byte_less)
  show ?thesis
    unfolding le32_of_def xor.assoc [symmetric] by (simp only: xor_eq_or_shift [OF a] xor_eq_or_shift [OF b] xor_eq_or_shift [OF c])
qed

lemma le32_of_bytes:
  "le32_of (le32_bytes v ! 0) (le32_bytes v ! 1) (le32_bytes v ! 2) (le32_bytes v ! 3) = v"
proof -
  have "bit (le32_of (ucast v) (ucast (drop_bit 8 v)) (ucast (drop_bit 16 v)) (ucast (drop_bit 24 v))) n
      = bit v n" if "n < 32" for n
    using that by (cases "n < 8"; cases "n < 16"; cases "n < 24") (auto simp: le32_of_or bit_simps)
  then show ?thesis by (intro bit_word_eqI) (simp add: le32_bytes_def)
qed

lemma le32_of_inj:
  "le32_of a0 a1 a2 a3 = le32_of b0 b1 b2 b3 \<Longrightarrow> [a0, a1, a2, a3] = [b0, b1, b2, b3]"
  by (metis le32_bytes_of)

lemma length_le32_bytes [len_simps, simp]: "length (le32_bytes v) = 4"
  by (simp add: le32_bytes_def)

end
