(* ===== verification/Aes.thy ===== *)
theory Aes
  imports Prelude
begin

text \<open>
  The byte-oriented AES-128 of src/core/rtw_security.c (\<open>sbox\<close>, \<open>next_key\<close>,
  \<open>byte_sub\<close>, \<open>shift_row\<close>, \<open>mix_column\<close>, \<open>aes128k128d\<close>), which CCMP uses.
  Blocks are lists of 16 bytes.

  Shown: the S-box is a permutation with the inverse table \<open>Td4s\<close> of the same
  file, \<open>mix_column\<close> is multiplication by the AES matrix and invertible, and
  hence encryption under a fixed key is injective on blocks.
\<close>

section \<open>Definitions\<close>

definition sbox_table :: "byte list" where
  "sbox_table =
     [0x63, 0x7c, 0x77, 0x7b, 0xf2, 0x6b, 0x6f, 0xc5, 0x30, 0x01, 0x67, 0x2b, 0xfe, 0xd7, 0xab, 0x76,
     0xca, 0x82, 0xc9, 0x7d, 0xfa, 0x59, 0x47, 0xf0, 0xad, 0xd4, 0xa2, 0xaf, 0x9c, 0xa4, 0x72, 0xc0,
     0xb7, 0xfd, 0x93, 0x26, 0x36, 0x3f, 0xf7, 0xcc, 0x34, 0xa5, 0xe5, 0xf1, 0x71, 0xd8, 0x31, 0x15,
     0x04, 0xc7, 0x23, 0xc3, 0x18, 0x96, 0x05, 0x9a, 0x07, 0x12, 0x80, 0xe2, 0xeb, 0x27, 0xb2, 0x75,
     0x09, 0x83, 0x2c, 0x1a, 0x1b, 0x6e, 0x5a, 0xa0, 0x52, 0x3b, 0xd6, 0xb3, 0x29, 0xe3, 0x2f, 0x84,
     0x53, 0xd1, 0x00, 0xed, 0x20, 0xfc, 0xb1, 0x5b, 0x6a, 0xcb, 0xbe, 0x39, 0x4a, 0x4c, 0x58, 0xcf,
     0xd0, 0xef, 0xaa, 0xfb, 0x43, 0x4d, 0x33, 0x85, 0x45, 0xf9, 0x02, 0x7f, 0x50, 0x3c, 0x9f, 0xa8,
     0x51, 0xa3, 0x40, 0x8f, 0x92, 0x9d, 0x38, 0xf5, 0xbc, 0xb6, 0xda, 0x21, 0x10, 0xff, 0xf3, 0xd2,
     0xcd, 0x0c, 0x13, 0xec, 0x5f, 0x97, 0x44, 0x17, 0xc4, 0xa7, 0x7e, 0x3d, 0x64, 0x5d, 0x19, 0x73,
     0x60, 0x81, 0x4f, 0xdc, 0x22, 0x2a, 0x90, 0x88, 0x46, 0xee, 0xb8, 0x14, 0xde, 0x5e, 0x0b, 0xdb,
     0xe0, 0x32, 0x3a, 0x0a, 0x49, 0x06, 0x24, 0x5c, 0xc2, 0xd3, 0xac, 0x62, 0x91, 0x95, 0xe4, 0x79,
     0xe7, 0xc8, 0x37, 0x6d, 0x8d, 0xd5, 0x4e, 0xa9, 0x6c, 0x56, 0xf4, 0xea, 0x65, 0x7a, 0xae, 0x08,
     0xba, 0x78, 0x25, 0x2e, 0x1c, 0xa6, 0xb4, 0xc6, 0xe8, 0xdd, 0x74, 0x1f, 0x4b, 0xbd, 0x8b, 0x8a,
     0x70, 0x3e, 0xb5, 0x66, 0x48, 0x03, 0xf6, 0x0e, 0x61, 0x35, 0x57, 0xb9, 0x86, 0xc1, 0x1d, 0x9e,
     0xe1, 0xf8, 0x98, 0x11, 0x69, 0xd9, 0x8e, 0x94, 0x9b, 0x1e, 0x87, 0xe9, 0xce, 0x55, 0x28, 0xdf,
     0x8c, 0xa1, 0x89, 0x0d, 0xbf, 0xe6, 0x42, 0x68, 0x41, 0x99, 0x2d, 0x0f, 0xb0, 0x54, 0xbb, 0x16]"

definition Td4s :: "byte list" where
  "Td4s =
     [0x52, 0x09, 0x6a, 0xd5, 0x30, 0x36, 0xa5, 0x38, 0xbf, 0x40, 0xa3, 0x9e, 0x81, 0xf3, 0xd7, 0xfb,
     0x7c, 0xe3, 0x39, 0x82, 0x9b, 0x2f, 0xff, 0x87, 0x34, 0x8e, 0x43, 0x44, 0xc4, 0xde, 0xe9, 0xcb,
     0x54, 0x7b, 0x94, 0x32, 0xa6, 0xc2, 0x23, 0x3d, 0xee, 0x4c, 0x95, 0x0b, 0x42, 0xfa, 0xc3, 0x4e,
     0x08, 0x2e, 0xa1, 0x66, 0x28, 0xd9, 0x24, 0xb2, 0x76, 0x5b, 0xa2, 0x49, 0x6d, 0x8b, 0xd1, 0x25,
     0x72, 0xf8, 0xf6, 0x64, 0x86, 0x68, 0x98, 0x16, 0xd4, 0xa4, 0x5c, 0xcc, 0x5d, 0x65, 0xb6, 0x92,
     0x6c, 0x70, 0x48, 0x50, 0xfd, 0xed, 0xb9, 0xda, 0x5e, 0x15, 0x46, 0x57, 0xa7, 0x8d, 0x9d, 0x84,
     0x90, 0xd8, 0xab, 0x00, 0x8c, 0xbc, 0xd3, 0x0a, 0xf7, 0xe4, 0x58, 0x05, 0xb8, 0xb3, 0x45, 0x06,
     0xd0, 0x2c, 0x1e, 0x8f, 0xca, 0x3f, 0x0f, 0x02, 0xc1, 0xaf, 0xbd, 0x03, 0x01, 0x13, 0x8a, 0x6b,
     0x3a, 0x91, 0x11, 0x41, 0x4f, 0x67, 0xdc, 0xea, 0x97, 0xf2, 0xcf, 0xce, 0xf0, 0xb4, 0xe6, 0x73,
     0x96, 0xac, 0x74, 0x22, 0xe7, 0xad, 0x35, 0x85, 0xe2, 0xf9, 0x37, 0xe8, 0x1c, 0x75, 0xdf, 0x6e,
     0x47, 0xf1, 0x1a, 0x71, 0x1d, 0x29, 0xc5, 0x89, 0x6f, 0xb7, 0x62, 0x0e, 0xaa, 0x18, 0xbe, 0x1b,
     0xfc, 0x56, 0x3e, 0x4b, 0xc6, 0xd2, 0x79, 0x20, 0x9a, 0xdb, 0xc0, 0xfe, 0x78, 0xcd, 0x5a, 0xf4,
     0x1f, 0xdd, 0xa8, 0x33, 0x88, 0x07, 0xc7, 0x31, 0xb1, 0x12, 0x10, 0x59, 0x27, 0x80, 0xec, 0x5f,
     0x60, 0x51, 0x7f, 0xa9, 0x19, 0xb5, 0x4a, 0x0d, 0x2d, 0xe5, 0x7a, 0x9f, 0x93, 0xc9, 0x9c, 0xef,
     0xa0, 0xe0, 0x3b, 0x4d, 0xae, 0x2a, 0xf5, 0xb0, 0xc8, 0xeb, 0xbb, 0x3c, 0x83, 0x53, 0x99, 0x61,
     0x17, 0x2b, 0x04, 0x7e, 0xba, 0x77, 0xd6, 0x26, 0xe1, 0x69, 0x14, 0x63, 0x55, 0x21, 0x0c, 0x7d]"

definition xor_128 :: "byte list \<Rightarrow> byte list \<Rightarrow> byte list" where
  "xor_128 a b = map (\<lambda>i. a ! i XOR b ! i) [0..<16]"

definition xor_32 :: "byte list \<Rightarrow> byte list \<Rightarrow> byte list" where
  "xor_32 a b = map (\<lambda>i. a ! i XOR b ! i) [0..<4]"

definition sbox :: "byte \<Rightarrow> byte" where
  "sbox a = sbox_table ! unat a"

definition rcon_table :: "byte list" where
  "rcon_table = [0x01, 0x02, 0x04, 0x08, 0x10, 0x20, 0x40, 0x80, 0x1b, 0x36, 0x36, 0x36]"

text \<open>The four words of the key are replaced one after the other.\<close>

definition next_key :: "byte list \<Rightarrow> nat \<Rightarrow> byte list" where
  "next_key key round =
     (let sbox_key = [sbox (key ! 13), sbox (key ! 14), sbox (key ! 15), sbox (key ! 12)];
          rcon = rcon_table ! round;
          w0 = xor_32 key sbox_key;
          w0 = w0[0 := w0 ! 0 XOR rcon];
          w1 = xor_32 (drop 4 key) w0;
          w2 = xor_32 (drop 8 key) w1;
          w3 = xor_32 (drop 12 key) w2
      in w0 @ w1 @ w2 @ w3)"

definition byte_sub :: "byte list \<Rightarrow> byte list" where
  "byte_sub a = map (\<lambda>i. sbox (a ! i)) [0..<16]"

definition shift_row :: "byte list \<Rightarrow> byte list" where
  "shift_row a =
     [a ! 0, a ! 5, a ! 10, a ! 15, a ! 4, a ! 9, a ! 14, a ! 3,
      a ! 8, a ! 13, a ! 2, a ! 7, a ! 12, a ! 1, a ! 6, a ! 11]"

text \<open>The loop of \<open>mix_column\<close> that shifts the four bytes left, from the last one down.\<close>

definition mix_shift :: "byte list \<Rightarrow> byte list" where
  "mix_shift andf7 =
     (let andf7 = fold (\<lambda>i w.
            let x = push_bit 1 (w ! i)
            in w[i := if w ! (i - 1) AND 0x80 = 0x80 then x OR 0x01 else x]) [3, 2, 1] andf7
      in andf7[0 := push_bit 1 (andf7 ! 0) AND 0xfe])"

definition mix_column :: "byte list \<Rightarrow> byte list" where
  "mix_column a =
     (let add1b = map (\<lambda>i. if a ! i AND 0x80 = 0x80 then 0x1b else 0) [0..<4];
          swap_halfs = [a ! 2, a ! 3, a ! 0, a ! 1];
          rotl = [a ! 3, a ! 0, a ! 1, a ! 2];
          andf7 = mix_shift (map (\<lambda>i. a ! i AND 0x7f) [0..<4]);
          add1bf7 = xor_32 add1b andf7;
          rotr = xor_32 a add1bf7;
          rotr = [rotr ! 1, rotr ! 2, rotr ! 3, rotr ! 0];
          temp = xor_32 add1bf7 rotr;
          tempb = xor_32 swap_halfs rotl
      in xor_32 temp tempb)"

definition mix_columns :: "byte list \<Rightarrow> byte list" where
  "mix_columns b =
     mix_column b @ mix_column (drop 4 b) @ mix_column (drop 8 b) @ mix_column (drop 12 b)"

text \<open>One turn of the loop of \<open>aes128k128d\<close>; the pair is \<open>(round_key, ciphertext)\<close>.\<close>

definition aes_round :: "byte list \<Rightarrow> nat \<Rightarrow> byte list \<times> byte list \<Rightarrow> byte list \<times> byte list" where
  "aes_round data round s =
     (let (round_key, ciphertext) = s in
      if round = 0 then (next_key round_key round, xor_128 round_key data)
      else if round = 10 then
        (round_key, xor_128 (shift_row (byte_sub ciphertext)) round_key)
      else
        (next_key round_key round,
         xor_128 (mix_columns (shift_row (byte_sub ciphertext))) round_key))"

definition aes128k128d :: "byte list \<Rightarrow> byte list \<Rightarrow> byte list" where
  "aes128k128d key data =
     snd (fold (aes_round data) [0..<11] (take 16 key, replicate 16 0))"

section \<open>Lengths\<close>

lemma length_xor_128 [len_simps, simp]: "length (xor_128 a b) = 16" by (simp add: xor_128_def)
lemma length_xor_32 [len_simps, simp]: "length (xor_32 a b) = 4" by (simp add: xor_32_def)
lemma length_byte_sub [len_simps, simp]: "length (byte_sub a) = 16" by (simp add: byte_sub_def)
lemma length_shift_row [len_simps, simp]: "length (shift_row a) = 16" by (simp add: shift_row_def)
lemma length_mix_column [len_simps, simp]: "length (mix_column a) = 4"
  by (simp add: mix_column_def Let_def)
lemma length_mix_columns [len_simps, simp]: "length (mix_columns a) = 16"
  by (simp add: mix_columns_def)
lemma length_next_key [len_simps, simp]: "length (next_key k r) = 16"
  by (simp add: next_key_def Let_def)

lemma length_aes_round [simp]: "length (snd (aes_round data r s)) = 16"
  by (cases s) (simp add: aes_round_def)

lemma length_aes128k128d [len_simps, simp]: "length (aes128k128d key data) = 16"
  by (simp add: aes128k128d_def upt_rec)

section \<open>The substitution is a permutation\<close>

lemma Td4s_sbox_table: "map (\<lambda>b. Td4s ! unat b) sbox_table = map of_nat [0..<256]"
  by code_simp

lemma length_sbox_table: "length sbox_table = 256"
  by (simp add: sbox_table_def)

lemma Td4s_sbox: "Td4s ! unat (sbox b) = b"
proof -
  have b: "unat b < 256" using unsigned_less [of b] by simp
  have "map (\<lambda>b. Td4s ! unat b) sbox_table ! unat b = map of_nat [0..<256] ! unat b"
    by (simp only: Td4s_sbox_table)
  with b show ?thesis by (simp add: sbox_def length_sbox_table)
qed

lemma sbox_inj: "sbox a = sbox b \<longleftrightarrow> a = b"
  by (metis Td4s_sbox)

lemma block_eqI: "length a = 16 \<Longrightarrow> length b = 16 \<Longrightarrow> (\<And>i. i < 16 \<Longrightarrow> a ! i = b ! i) \<Longrightarrow> a = b"
  by (rule nth_equalityI) auto

lemma byte_sub_inj: "length a = 16 \<Longrightarrow> length b = 16 \<Longrightarrow> byte_sub a = byte_sub b \<Longrightarrow> a = b"
  by (rule block_eqI) (auto simp: byte_sub_def sbox_inj)

lemma xor_128_inj: "length a = 16 \<Longrightarrow> length b = 16 \<Longrightarrow> xor_128 a k = xor_128 b k \<Longrightarrow> a = b"
  by (rule block_eqI) (auto simp: xor_128_def)

lemma xor_128_inj': "length a = 16 \<Longrightarrow> length b = 16 \<Longrightarrow> xor_128 k a = xor_128 k b \<Longrightarrow> a = b"
  by (rule block_eqI) (auto simp: xor_128_def)

lemma all_less_16:
  "(\<forall>i < 16. P i) \<longleftrightarrow> P 0 \<and> P 1 \<and> P 2 \<and> P 3 \<and> P 4 \<and> P 5 \<and> P 6 \<and> P 7 \<and>
     P 8 \<and> P 9 \<and> P 10 \<and> P 11 \<and> P 12 \<and> P 13 \<and> P 14 \<and> P (15 :: nat)"
proof -
  have "(\<forall>i < 16. P i) \<longleftrightarrow> (\<forall>i \<in> set [0..<16]. P i)" by (auto simp only: set_upt atLeastLessThan_iff)
  then show ?thesis by (simp add: upt_rec numeral_eq_Suc)
qed

lemma shift_row_inj: "length a = 16 \<Longrightarrow> length b = 16 \<Longrightarrow> shift_row a = shift_row b \<Longrightarrow> a = b"
  using all_less_16 [of "\<lambda>i. a ! i = b ! i"] by (intro block_eqI) (auto simp: shift_row_def)

section \<open>The column mixing is invertible\<close>

text \<open>Multiplication by \<open>x\<close> in the AES field.\<close>

definition xtime :: "byte \<Rightarrow> byte" where
  "xtime b = push_bit 1 b XOR (if b AND 0x80 = 0x80 then 0x1b else 0)"

lemma bit_80_byte: "bit (0x80 :: byte) n \<longleftrightarrow> n = 7"
proof -
  have "(0x80 :: byte) = push_bit 7 1" by simp
  then show ?thesis by (simp only: bit_push_bit_iff) (auto simp: bit_1_iff)
qed

lemma and_80_iff: "(b :: byte) AND 0x80 = 0x80 \<longleftrightarrow> bit b 7"
proof
  assume "b AND 0x80 = 0x80"
  then have "bit (b AND 0x80) 7" by (simp only: bit_80_byte)
  then show "bit b 7" by (simp only: bit_and_iff)
next
  assume "bit b 7"
  then show "b AND 0x80 = 0x80"
    by (intro bit_word_eqI) (simp only: bit_and_iff bit_80_byte, blast)
qed

lemma xtime_xor: "xtime (a XOR b) = xtime a XOR xtime b"
  by (auto simp: xtime_def and_80_iff bit_simps xor.assoc xor.left_commute)

lemma mix_shift_eq:
  "mix_shift (map (\<lambda>x. x AND 0x7f) [a, b, c, d]) = map (push_bit 1) [a, b, c, d]"
proof -
  have m: "(0x7f :: byte) = mask 7" by (simp add: mask_eq_exp_minus_1)
  have top: "(x AND 0x7f) AND 0x80 \<noteq> (0x80 :: byte)" for x
    unfolding and_80_iff m by (simp only: bit_and_iff bit_mask_iff) simp
  have sh: "push_bit 1 (x AND 0x7f) = push_bit 1 (x :: byte)" for x
    unfolding m by (rule bit_word_eqI) (simp only: bit_and_iff bit_push_bit_iff bit_mask_iff, auto)
  have ev: "push_bit 1 x AND 0xfe = push_bit 1 (x :: byte)" for x
  proof -
    have e: "(0xfe :: byte) = push_bit 1 (mask 7)" by (simp add: mask_eq_exp_minus_1)
    show ?thesis
      unfolding e by (rule bit_word_eqI) (simp only: bit_and_iff bit_push_bit_iff bit_mask_iff, auto)
  qed
  show ?thesis
    by (simp add: mix_shift_def Let_def top ev [simplified] sh [unfolded push_bit_eq_mult power_one_right]
        numeral_eq_Suc)
qed

lemma mix_column_eq:
  "mix_column (a # b # c # d # r) =
     [xtime a XOR xtime b XOR b XOR c XOR d, a XOR xtime b XOR xtime c XOR c XOR d,
      a XOR b XOR xtime c XOR xtime d XOR d, xtime a XOR a XOR b XOR c XOR xtime d]"
proof -
  have "mix_shift (map (\<lambda>i. (a # b # c # d # r) ! i AND 0x7f) [0..<4]) = map (push_bit 1) [a, b, c, d]"
    using mix_shift_eq [of a b c d] by (simp add: upt_rec)
  then show ?thesis
    by (simp add: mix_column_def xtime_def upt_rec xor_32_def ac_simps)
qed

lemma mix_column_twice:
  "mix_column (mix_column [a, b, c, d]) =
     [xtime (xtime a) XOR a XOR xtime (xtime c), xtime (xtime b) XOR b XOR xtime (xtime d),
      xtime (xtime c) XOR c XOR xtime (xtime a), xtime (xtime d) XOR d XOR xtime (xtime b)]"
  by (simp add: mix_column_eq xtime_xor ac_simps)

lemma mix_column_inverse:
  "mix_column (mix_column (mix_column (mix_column [a, b, c, d]))) = [a, b, c, d]"
  by (simp add: mix_column_twice xtime_xor ac_simps)

lemma mix_column_inj:
  assumes "length a = 4" and "length b = 4" and "mix_column a = mix_column b"
  shows "a = b"
proof -
  have "mix_column (mix_column (mix_column (mix_column x))) = x" if "length x = 4" for x
    using that by (auto simp: numeral_eq_Suc length_Suc_conv mix_column_inverse)
  then show ?thesis using assms by metis
qed

lemma mix_column_take: "4 \<le> length a \<Longrightarrow> mix_column (take 4 a) = mix_column a"
  by (auto simp: numeral_eq_Suc Suc_le_length_iff mix_column_eq)

lemma mix_columns_inj:
  assumes "length a = 16" and "length b = 16" and "mix_columns a = mix_columns b"
  shows "a = b"
proof -
  have col: "take 4 (drop k a) = take 4 (drop k b)"
    if "mix_column (drop k a) = mix_column (drop k b)" "k \<le> 12" for k
  proof (rule mix_column_inj)
    show "mix_column (take 4 (drop k a)) = mix_column (take 4 (drop k b))"
      using that assms(1,2) by (simp add: mix_column_take)
  qed (use that(2) assms(1,2) in simp_all)
  have "mix_column a = mix_column b" "mix_column (drop 4 a) = mix_column (drop 4 b)"
      "mix_column (drop 8 a) = mix_column (drop 8 b)" "mix_column (drop 12 a) = mix_column (drop 12 b)"
    using assms(3) by (auto simp: mix_columns_def)
  then have parts: "take 4 (drop 0 a) = take 4 (drop 0 b)" "take 4 (drop 4 a) = take 4 (drop 4 b)"
      "take 4 (drop 8 a) = take 4 (drop 8 b)" "take 4 (drop 12 a) = take 4 (drop 12 b)"
    by (intro col; simp)+
  have split: "x = take 4 (drop 0 x) @ take 4 (drop 4 x) @ take 4 (drop 8 x) @ take 4 (drop 12 x)"
    if "length x = 16" for x :: "byte list"
  proof -
    have "take 16 x = take (4 + (4 + (4 + 4))) x" by simp
    also have "\<dots> = take 4 (drop 0 x) @ take 4 (drop 4 x) @ take 4 (drop 8 x) @ take 4 (drop 12 x)"
      by (simp only: take_add drop_drop) simp
    finally show ?thesis using that by simp
  qed
  show ?thesis using split [OF assms(1)] split [OF assms(2)] parts by metis
qed

section \<open>Encryption is injective\<close>

lemma fst_aes_round: "fst (aes_round data r (k, c)) = fst (aes_round data' r (k, c'))"
  by (simp add: aes_round_def)

lemma aes_round_inj:
  assumes "length c = 16" and "length c' = 16" and "r \<noteq> 0"
    and "snd (aes_round data r (k, c)) = snd (aes_round data' r (k, c'))"
  shows "c = c'"
proof -
  have "shift_row (byte_sub c) = shift_row (byte_sub c')"
    using assms(3,4) by (auto simp: aes_round_def split: if_splits intro: mix_columns_inj dest!: xor_128_inj [rotated 2])
  then show ?thesis using assms(1,2) by (auto dest!: shift_row_inj [rotated 2] byte_sub_inj [rotated 2])
qed

lemma aes_rounds_inj:
  assumes "0 \<notin> set rs" and "length c = 16" and "length c' = 16"
    and "snd (fold (aes_round data) rs (k, c)) = snd (fold (aes_round data') rs (k, c'))"
  shows "c = c'"
  using assms
proof (induction rs arbitrary: k c c')
  case (Cons r rs)
  obtain k1 c1 where 1: "aes_round data r (k, c) = (k1, c1)" by force
  obtain c2 where 2: "aes_round data' r (k, c') = (k1, c2)"
    using fst_aes_round [of data r k c data' c'] 1 by (metis fst_conv prod.collapse)
  have "length c1 = 16" "length c2 = 16"
    using length_aes_round [of data r "(k, c)"] length_aes_round [of data' r "(k, c')"] 1 2 by simp_all
  with Cons.IH [of c1 c2 k1] Cons.prems 1 2 have "c1 = c2" by simp
  then show ?case using aes_round_inj [of c c' r data k data'] Cons.prems 1 2 by simp
qed simp

text \<open>
  AES is injective: For every key, \<open>aes128k128d\<close> maps different blocks to
  different blocks: the S-box, the row shift, the column mixing and the key
  additions can each be undone.
\<close>

theorem aes128k128d_inj:
  assumes "length a = 16" and "length b = 16" and "a \<noteq> b"
  shows "aes128k128d key a \<noteq> aes128k128d key b"
proof
  assume eq: "aes128k128d key a = aes128k128d key b"
  have upt: "[0..<11] = 0 # [1..<11]" by (simp add: upt_rec)
  let ?k = "take 16 key"
  have "snd (fold (aes_round a) [1..<11] (next_key ?k 0, xor_128 ?k a)) =
      snd (fold (aes_round b) [1..<11] (next_key ?k 0, xor_128 ?k b))"
    using eq by (simp only: aes128k128d_def upt fold_simps) (simp add: aes_round_def)
  then have "xor_128 ?k a = xor_128 ?k b" by (rule aes_rounds_inj [rotated 3]) simp_all
  then show False using assms by (auto dest: xor_128_inj')
qed

theorem aes128k128d_inj_witness:
  "aes128k128d (replicate 16 3) (replicate 16 0) \<noteq> aes128k128d (replicate 16 3) (replicate 16 1)"
  by (rule aes128k128d_inj) simp_all

end
