(* ===== verification/Rijndael.thy ===== *)
theory Rijndael
  imports Aes
begin

text \<open>
  The table-driven AES-128 of src/core/rtw_security.c (\<open>Te0\<close>, \<open>rcons\<close>,
  \<open>rijndaelKeySetupEnc\<close>, \<open>rijndaelEncrypt\<close>) with the macros of
  src/include/rtw_security.h, which the OMAC code uses.

  Shown: it computes the same function as the byte-oriented \<open>aes128k128d\<close>,
  so the driver's two implementations of AES agree on every key and block.
\<close>

section \<open>Definitions\<close>

definition Te0 :: "u32 list" where
  "Te0 =
     [0xc66363a5, 0xf87c7c84, 0xee777799, 0xf67b7b8d, 0xfff2f20d, 0xd66b6bbd, 0xde6f6fb1, 0x91c5c554,
     0x60303050, 0x02010103, 0xce6767a9, 0x562b2b7d, 0xe7fefe19, 0xb5d7d762, 0x4dababe6, 0xec76769a,
     0x8fcaca45, 0x1f82829d, 0x89c9c940, 0xfa7d7d87, 0xeffafa15, 0xb25959eb, 0x8e4747c9, 0xfbf0f00b,
     0x41adadec, 0xb3d4d467, 0x5fa2a2fd, 0x45afafea, 0x239c9cbf, 0x53a4a4f7, 0xe4727296, 0x9bc0c05b,
     0x75b7b7c2, 0xe1fdfd1c, 0x3d9393ae, 0x4c26266a, 0x6c36365a, 0x7e3f3f41, 0xf5f7f702, 0x83cccc4f,
     0x6834345c, 0x51a5a5f4, 0xd1e5e534, 0xf9f1f108, 0xe2717193, 0xabd8d873, 0x62313153, 0x2a15153f,
     0x0804040c, 0x95c7c752, 0x46232365, 0x9dc3c35e, 0x30181828, 0x379696a1, 0x0a05050f, 0x2f9a9ab5,
     0x0e070709, 0x24121236, 0x1b80809b, 0xdfe2e23d, 0xcdebeb26, 0x4e272769, 0x7fb2b2cd, 0xea75759f,
     0x1209091b, 0x1d83839e, 0x582c2c74, 0x341a1a2e, 0x361b1b2d, 0xdc6e6eb2, 0xb45a5aee, 0x5ba0a0fb,
     0xa45252f6, 0x763b3b4d, 0xb7d6d661, 0x7db3b3ce, 0x5229297b, 0xdde3e33e, 0x5e2f2f71, 0x13848497,
     0xa65353f5, 0xb9d1d168, 0x00000000, 0xc1eded2c, 0x40202060, 0xe3fcfc1f, 0x79b1b1c8, 0xb65b5bed,
     0xd46a6abe, 0x8dcbcb46, 0x67bebed9, 0x7239394b, 0x944a4ade, 0x984c4cd4, 0xb05858e8, 0x85cfcf4a,
     0xbbd0d06b, 0xc5efef2a, 0x4faaaae5, 0xedfbfb16, 0x864343c5, 0x9a4d4dd7, 0x66333355, 0x11858594,
     0x8a4545cf, 0xe9f9f910, 0x04020206, 0xfe7f7f81, 0xa05050f0, 0x783c3c44, 0x259f9fba, 0x4ba8a8e3,
     0xa25151f3, 0x5da3a3fe, 0x804040c0, 0x058f8f8a, 0x3f9292ad, 0x219d9dbc, 0x70383848, 0xf1f5f504,
     0x63bcbcdf, 0x77b6b6c1, 0xafdada75, 0x42212163, 0x20101030, 0xe5ffff1a, 0xfdf3f30e, 0xbfd2d26d,
     0x81cdcd4c, 0x180c0c14, 0x26131335, 0xc3ecec2f, 0xbe5f5fe1, 0x359797a2, 0x884444cc, 0x2e171739,
     0x93c4c457, 0x55a7a7f2, 0xfc7e7e82, 0x7a3d3d47, 0xc86464ac, 0xba5d5de7, 0x3219192b, 0xe6737395,
     0xc06060a0, 0x19818198, 0x9e4f4fd1, 0xa3dcdc7f, 0x44222266, 0x542a2a7e, 0x3b9090ab, 0x0b888883,
     0x8c4646ca, 0xc7eeee29, 0x6bb8b8d3, 0x2814143c, 0xa7dede79, 0xbc5e5ee2, 0x160b0b1d, 0xaddbdb76,
     0xdbe0e03b, 0x64323256, 0x743a3a4e, 0x140a0a1e, 0x924949db, 0x0c06060a, 0x4824246c, 0xb85c5ce4,
     0x9fc2c25d, 0xbdd3d36e, 0x43acacef, 0xc46262a6, 0x399191a8, 0x319595a4, 0xd3e4e437, 0xf279798b,
     0xd5e7e732, 0x8bc8c843, 0x6e373759, 0xda6d6db7, 0x018d8d8c, 0xb1d5d564, 0x9c4e4ed2, 0x49a9a9e0,
     0xd86c6cb4, 0xac5656fa, 0xf3f4f407, 0xcfeaea25, 0xca6565af, 0xf47a7a8e, 0x47aeaee9, 0x10080818,
     0x6fbabad5, 0xf0787888, 0x4a25256f, 0x5c2e2e72, 0x381c1c24, 0x57a6a6f1, 0x73b4b4c7, 0x97c6c651,
     0xcbe8e823, 0xa1dddd7c, 0xe874749c, 0x3e1f1f21, 0x964b4bdd, 0x61bdbddc, 0x0d8b8b86, 0x0f8a8a85,
     0xe0707090, 0x7c3e3e42, 0x71b5b5c4, 0xcc6666aa, 0x904848d8, 0x06030305, 0xf7f6f601, 0x1c0e0e12,
     0xc26161a3, 0x6a35355f, 0xae5757f9, 0x69b9b9d0, 0x17868691, 0x99c1c158, 0x3a1d1d27, 0x279e9eb9,
     0xd9e1e138, 0xebf8f813, 0x2b9898b3, 0x22111133, 0xd26969bb, 0xa9d9d970, 0x078e8e89, 0x339494a7,
     0x2d9b9bb6, 0x3c1e1e22, 0x15878792, 0xc9e9e920, 0x87cece49, 0xaa5555ff, 0x50282878, 0xa5dfdf7a,
     0x038c8c8f, 0x59a1a1f8, 0x09898980, 0x1a0d0d17, 0x65bfbfda, 0xd7e6e631, 0x844242c6, 0xd06868b8,
     0x824141c3, 0x299999b0, 0x5a2d2d77, 0x1e0f0f11, 0x7bb0b0cb, 0xa85454fc, 0x6dbbbbd6, 0x2c16163a]"

definition rcons :: "byte list" where
  "rcons = [0x01, 0x02, 0x04, 0x08, 0x10, 0x20, 0x40, 0x80, 0x1B, 0x36]"

definition RCON :: "nat \<Rightarrow> u32" where "RCON i = push_bit 24 (ucast (rcons ! i))"

definition rotr :: "u32 \<Rightarrow> nat \<Rightarrow> u32" where
  "rotr val bits = drop_bit bits val OR push_bit (32 - bits) val"

definition te_ix :: "u32 \<Rightarrow> nat \<Rightarrow> nat" where
  "te_ix i k = unat (drop_bit k i AND 0xff)"

definition TE0 :: "u32 \<Rightarrow> u32" where "TE0 i = Te0 ! te_ix i 24"
definition TE1 :: "u32 \<Rightarrow> u32" where "TE1 i = rotr (Te0 ! te_ix i 16) 8"
definition TE2 :: "u32 \<Rightarrow> u32" where "TE2 i = rotr (Te0 ! te_ix i 8) 16"
definition TE3 :: "u32 \<Rightarrow> u32" where "TE3 i = rotr (Te0 ! te_ix i 0) 24"
definition TE41 :: "u32 \<Rightarrow> u32" where "TE41 i = push_bit 8 (Te0 ! te_ix i 24) AND 0xff000000"
definition TE42 :: "u32 \<Rightarrow> u32" where "TE42 i = Te0 ! te_ix i 16 AND 0x00ff0000"
definition TE43 :: "u32 \<Rightarrow> u32" where "TE43 i = Te0 ! te_ix i 8 AND 0x0000ff00"
definition TE44 :: "u32 \<Rightarrow> u32" where "TE44 i = drop_bit 8 (Te0 ! te_ix i 0) AND 0x000000ff"
definition TE421 :: "u32 \<Rightarrow> u32" where "TE421 i = push_bit 8 (Te0 ! te_ix i 16) AND 0xff000000"
definition TE432 :: "u32 \<Rightarrow> u32" where "TE432 i = Te0 ! te_ix i 8 AND 0x00ff0000"
definition TE443 :: "u32 \<Rightarrow> u32" where "TE443 i = Te0 ! te_ix i 0 AND 0x0000ff00"
definition TE414 :: "u32 \<Rightarrow> u32" where "TE414 i = drop_bit 8 (Te0 ! te_ix i 24) AND 0x000000ff"

definition GETU32 :: "byte list \<Rightarrow> u32" where
  "GETU32 pt = push_bit 24 (ucast (pt ! 0)) XOR push_bit 16 (ucast (pt ! 1)) XOR
     push_bit 8 (ucast (pt ! 2)) XOR ucast (pt ! 3)"

definition PUTU32 :: "u32 \<Rightarrow> byte list" where
  "PUTU32 st = [ucast (drop_bit 24 st), ucast (drop_bit 16 st), ucast (drop_bit 8 st), ucast st]"

text \<open>
  The key schedule; the array \<open>rk\<close> is filled four words at a time, and one turn of
  the loop appends the next four.
\<close>

definition key_setup_step :: "nat \<Rightarrow> u32 list \<Rightarrow> u32 list" where
  "key_setup_step i rk =
     (let k = drop (4 * i) rk;
          temp = k ! 3;
          r4 = k ! 0 XOR TE421 temp XOR TE432 temp XOR TE443 temp XOR TE414 temp XOR RCON i;
          r5 = k ! 1 XOR r4;
          r6 = k ! 2 XOR r5;
          r7 = k ! 3 XOR r6
      in rk @ [r4, r5, r6, r7])"

definition rijndaelKeySetupEnc :: "byte list \<Rightarrow> u32 list" where
  "rijndaelKeySetupEnc cipherKey =
     fold key_setup_step [0..<10]
       [GETU32 cipherKey, GETU32 (drop 4 cipherKey), GETU32 (drop 8 cipherKey),
        GETU32 (drop 12 cipherKey)]"

type_synonym rij_state = "u32 \<times> u32 \<times> u32 \<times> u32"

text \<open>The macro \<open>ROUND(i,d,s)\<close>.\<close>

definition rij_ROUND :: "u32 list \<Rightarrow> nat \<Rightarrow> rij_state \<Rightarrow> rij_state" where
  "rij_ROUND rk i s =
     (let (s0, s1, s2, s3) = s in
      (TE0 s0 XOR TE1 s1 XOR TE2 s2 XOR TE3 s3 XOR rk ! (4 * i),
       TE0 s1 XOR TE1 s2 XOR TE2 s3 XOR TE3 s0 XOR rk ! (4 * i + 1),
       TE0 s2 XOR TE1 s3 XOR TE2 s0 XOR TE3 s1 XOR rk ! (4 * i + 2),
       TE0 s3 XOR TE1 s0 XOR TE2 s1 XOR TE3 s2 XOR rk ! (4 * i + 3)))"

text \<open>
  The loop \<open>for (;;)\<close> with the counter \<open>r\<close>, which starts at 5; it returns the
  state \<open>t\<close> and the advanced key pointer.
\<close>

fun rij_loop :: "nat \<Rightarrow> u32 list \<Rightarrow> rij_state \<Rightarrow> rij_state \<times> u32 list" where
  "rij_loop 0 rk s = (s, rk)"
| "rij_loop (Suc r) rk s =
     (let t = rij_ROUND rk 1 s; rk = drop 8 rk in
      if r = 0 then (t, rk) else rij_loop r rk (rij_ROUND rk 0 t))"

definition rij_last :: "u32 list \<Rightarrow> rij_state \<Rightarrow> byte list" where
  "rij_last rk t =
     (let (t0, t1, t2, t3) = t;
          s0 = TE41 t0 XOR TE42 t1 XOR TE43 t2 XOR TE44 t3 XOR rk ! 0;
          s1 = TE41 t1 XOR TE42 t2 XOR TE43 t3 XOR TE44 t0 XOR rk ! 1;
          s2 = TE41 t2 XOR TE42 t3 XOR TE43 t0 XOR TE44 t1 XOR rk ! 2;
          s3 = TE41 t3 XOR TE42 t0 XOR TE43 t1 XOR TE44 t2 XOR rk ! 3
      in PUTU32 s0 @ PUTU32 s1 @ PUTU32 s2 @ PUTU32 s3)"

definition rijndaelEncrypt :: "u32 list \<Rightarrow> byte list \<Rightarrow> byte list" where
  "rijndaelEncrypt rk pt =
     (let s = (GETU32 pt XOR rk ! 0, GETU32 (drop 4 pt) XOR rk ! 1,
               GETU32 (drop 8 pt) XOR rk ! 2, GETU32 (drop 12 pt) XOR rk ! 3);
          (t, rk) = rij_loop 5 rk s
      in rij_last rk t)"

section \<open>Words as four bytes\<close>

definition be32 :: "byte \<Rightarrow> byte \<Rightarrow> byte \<Rightarrow> byte \<Rightarrow> u32" where
  "be32 a b c d = le32_of d c b a"

lemma GETU32_be32: "GETU32 (a # b # c # d # r) = be32 a b c d"
  by (simp add: GETU32_def be32_def le32_of_def ac_simps)

lemma be32_xor: "be32 a b c d XOR be32 a' b' c' d' = be32 (a XOR a') (b XOR b') (c XOR c') (d XOR d')"
proof -
  have u: "ucast (x XOR y) = (ucast x XOR ucast y :: u32)" for x y :: byte
    by (rule bit_word_eqI) (auto simp: bit_simps)
  show ?thesis by (simp add: be32_def le32_of_def u push_bit_xor ac_simps)
qed

lemma PUTU32_be32: "PUTU32 (be32 a b c d) = [a, b, c, d]"
  using le32_bytes_of [of d c b a] by (simp add: PUTU32_def be32_def le32_bytes_def)

lemma te_ix_be32:
  "te_ix (be32 a b c d) 24 = unat a" "te_ix (be32 a b c d) 16 = unat b"
  "te_ix (be32 a b c d) 8 = unat c" "te_ix (be32 a b c d) 0 = unat d"
proof -
  have m: "unat (w AND 0xff) = unat (ucast w :: byte)" for w :: u32
  proof -
    have "w AND 0xff = ucast (ucast w :: byte)"
      by (rule bit_word_eqI) (auto simp: bit_simps)
    then show ?thesis by (simp add: unat_ucast_up)
  qed
  show "te_ix (be32 a b c d) 24 = unat a" "te_ix (be32 a b c d) 16 = unat b"
      "te_ix (be32 a b c d) 8 = unat c" "te_ix (be32 a b c d) 0 = unat d"
    using PUTU32_be32 [of a b c d] by (simp_all add: te_ix_def m PUTU32_def)
qed

text \<open>The table entry of a byte: the column of the mixing matrix scaled by the S-box value.\<close>

definition te_of :: "byte \<Rightarrow> u32" where
  "te_of s = be32 (xtime s) s s (xtime s XOR s)"

lemma Te0_sbox_table: "map te_of sbox_table = Te0"
  by (simp add: te_of_def be32_def le32_of_def xtime_def sbox_table_def Te0_def and_80_iff)

lemma Te0_nth: "Te0 ! unat b = te_of (sbox b)"
proof -
  have "unat b < 256" using unsigned_less [of b] by simp
  then show ?thesis by (simp add: Te0_sbox_table [symmetric] sbox_def length_sbox_table)
qed

lemma bit_be32:
  "bit (be32 a b c d) n \<longleftrightarrow>
     (if n < 8 then bit d n else if n < 16 then bit c (n - 8)
      else if n < 24 then bit b (n - 16) else if n < 32 then bit a (n - 24) else False)"
  unfolding be32_def le32_of_or by (auto simp: bit_simps dest: bit_byte_less)

lemma bit_rotr: "k < 32 \<Longrightarrow> bit (rotr w k) n \<longleftrightarrow> n < 32 \<and> bit w (if n < 32 - k then n + k else n - (32 - k))"
  unfolding rotr_def by (auto simp: bit_simps add.commute dest: bit_imp_le_length)

lemma rotr_be32:
  "rotr (be32 a b c d) 8 = be32 d a b c" "rotr (be32 a b c d) 16 = be32 c d a b"
  "rotr (be32 a b c d) 24 = be32 b c d a"
  by (rule bit_word_eqI, simp add: bit_rotr bit_be32; linarith?)+

lemma be32_and: "be32 a b c d AND be32 a' b' c' d' = be32 (a AND a') (b AND b') (c AND c') (d AND d')"
  by (rule bit_word_eqI) (simp add: bit_be32 bit_and_iff)

lemma be32_shift:
  "push_bit 8 (be32 a b c d) = be32 b c d 0" "drop_bit 8 (be32 a b c d) = be32 0 a b c"
  by (rule bit_word_eqI, auto simp: bit_be32 bit_push_bit_iff bit_drop_bit_eq; linarith?)+

lemma be32_masks:
  "be32 0xff 0 0 0 = 0xff000000" "be32 0 0xff 0 0 = 0x00ff0000"
  "be32 0 0 0xff 0 = 0x0000ff00" "be32 0 0 0 0xff = 0x000000ff"
  by (simp_all add: be32_def le32_of_def)

lemma and_ff [simp]: "x AND 0xff = (x :: byte)"
  by (rule bit_word_eqI) (auto simp: bit_simps)

lemmas te_simps =
  te_ix_be32 Te0_nth te_of_def rotr_be32 be32_shift be32_masks [symmetric] be32_and be32_xor

lemma TE_round:
  "TE0 (be32 a b c d) = be32 (xtime (sbox a)) (sbox a) (sbox a) (xtime (sbox a) XOR sbox a)"
  "TE1 (be32 a b c d) = be32 (xtime (sbox b) XOR sbox b) (xtime (sbox b)) (sbox b) (sbox b)"
  "TE2 (be32 a b c d) = be32 (sbox c) (xtime (sbox c) XOR sbox c) (xtime (sbox c)) (sbox c)"
  "TE3 (be32 a b c d) = be32 (sbox d) (sbox d) (xtime (sbox d) XOR sbox d) (xtime (sbox d))"
  by (simp_all add: TE0_def TE1_def TE2_def TE3_def te_simps)

lemma TE4_round:
  "TE41 (be32 a b c d) = be32 (sbox a) 0 0 0" "TE42 (be32 a b c d) = be32 0 (sbox b) 0 0"
  "TE43 (be32 a b c d) = be32 0 0 (sbox c) 0" "TE44 (be32 a b c d) = be32 0 0 0 (sbox d)"
  "TE421 (be32 a b c d) = be32 (sbox b) 0 0 0" "TE432 (be32 a b c d) = be32 0 (sbox c) 0 0"
  "TE443 (be32 a b c d) = be32 0 0 (sbox d) 0" "TE414 (be32 a b c d) = be32 0 0 0 (sbox a)"
  by (simp_all add: TE41_def TE42_def TE43_def TE44_def TE421_def TE432_def TE443_def TE414_def te_simps)

section \<open>Rounds on words are rounds on bytes\<close>

definition block_words :: "byte list \<Rightarrow> rij_state" where
  "block_words b = (GETU32 b, GETU32 (drop 4 b), GETU32 (drop 8 b), GETU32 (drop 12 b))"

definition words_of :: "byte list \<Rightarrow> u32 list" where
  "words_of b = [GETU32 b, GETU32 (drop 4 b), GETU32 (drop 8 b), GETU32 (drop 12 b)]"

lemma block16E:
  assumes "length (b :: byte list) = 16"
  obtains b0 b1 b2 b3 b4 b5 b6 b7 b8 b9 b10 b11 b12 b13 b14 b15 where
    "b = [b0, b1, b2, b3, b4, b5, b6, b7, b8, b9, b10, b11, b12, b13, b14, b15]"
  using assms by (auto simp: numeral_eq_Suc length_Suc_conv)

lemmas block_simps =
  block_words_def words_of_def GETU32_be32 xor_128_def shift_row_def byte_sub_def upt_rec

lemma rij_ROUND_eq:
  assumes "length c = 16" and "length k = 16" and "\<And>j. j < 4 \<Longrightarrow> rk ! (4 * i + j) = words_of k ! j"
  shows "rij_ROUND rk i (block_words c) =
    block_words (xor_128 (mix_columns (shift_row (byte_sub c))) k)"
proof -
  have rk: "rk ! (4 * i) = words_of k ! 0" "rk ! (4 * i + 1) = words_of k ! 1"
      "rk ! (4 * i + 2) = words_of k ! 2" "rk ! (4 * i + 3) = words_of k ! 3"
    using assms(3) [of 0] assms(3) [of 1] assms(3) [of 2] assms(3) [of 3] by simp_all
  obtain c0 c1 c2 c3 c4 c5 c6 c7 c8 c9 c10 c11 c12 c13 c14 c15 where
    c: "c = [c0, c1, c2, c3, c4, c5, c6, c7, c8, c9, c10, c11, c12, c13, c14, c15]"
    using assms(1) by (rule block16E)
  obtain k0 k1 k2 k3 k4 k5 k6 k7 k8 k9 k10 k11 k12 k13 k14 k15 where
    k: "k = [k0, k1, k2, k3, k4, k5, k6, k7, k8, k9, k10, k11, k12, k13, k14, k15]"
    using assms(2) by (rule block16E)
  show ?thesis
    unfolding rij_ROUND_def rk
    by (simp add: block_simps c k TE_round be32_xor mix_columns_def mix_column_eq ac_simps)
qed

lemma rij_last_eq:
  assumes "length c = 16" and "length k = 16" and "\<And>j. j < 4 \<Longrightarrow> rk ! j = words_of k ! j"
  shows "rij_last rk (block_words c) = xor_128 (shift_row (byte_sub c)) k"
proof -
  have rk: "rk ! 0 = words_of k ! 0" "rk ! 1 = words_of k ! 1"
      "rk ! 2 = words_of k ! 2" "rk ! 3 = words_of k ! 3"
    using assms(3) by simp_all
  obtain c0 c1 c2 c3 c4 c5 c6 c7 c8 c9 c10 c11 c12 c13 c14 c15 where
    c: "c = [c0, c1, c2, c3, c4, c5, c6, c7, c8, c9, c10, c11, c12, c13, c14, c15]"
    using assms(1) by (rule block16E)
  obtain k0 k1 k2 k3 k4 k5 k6 k7 k8 k9 k10 k11 k12 k13 k14 k15 where
    k: "k = [k0, k1, k2, k3, k4, k5, k6, k7, k8, k9, k10, k11, k12, k13, k14, k15]"
    using assms(2) by (rule block16E)
  show ?thesis
    unfolding rij_last_def rk
    by (simp add: block_simps c k TE4_round be32_xor PUTU32_be32)
qed

lemma block_words_xor:
  assumes "length a = 16" and "length k = 16"
  shows "(GETU32 a XOR words_of k ! 0, GETU32 (drop 4 a) XOR words_of k ! 1,
      GETU32 (drop 8 a) XOR words_of k ! 2, GETU32 (drop 12 a) XOR words_of k ! 3) =
    block_words (xor_128 k a)"
proof -
  obtain c0 c1 c2 c3 c4 c5 c6 c7 c8 c9 c10 c11 c12 c13 c14 c15 where
    c: "a = [c0, c1, c2, c3, c4, c5, c6, c7, c8, c9, c10, c11, c12, c13, c14, c15]"
    using assms(1) by (rule block16E)
  obtain k0 k1 k2 k3 k4 k5 k6 k7 k8 k9 k10 k11 k12 k13 k14 k15 where
    k: "k = [k0, k1, k2, k3, k4, k5, k6, k7, k8, k9, k10, k11, k12, k13, k14, k15]"
    using assms(2) by (rule block16E)
  show ?thesis by (simp add: block_simps c k be32_xor ac_simps)
qed

section \<open>The key schedules agree\<close>

fun rkey :: "byte list \<Rightarrow> nat \<Rightarrow> byte list" where
  "rkey key 0 = key"
| "rkey key (Suc i) = next_key (rkey key i) i"

lemma length_rkey: "length key = 16 \<Longrightarrow> length (rkey key i) = 16"
  by (cases i) simp_all

lemma rcons_rcon_table: "i < 10 \<Longrightarrow> rcons ! i = rcon_table ! i"
  by (auto simp: rcons_def rcon_table_def less_Suc_eq numeral_eq_Suc)

lemma key_setup_step_eq:
  assumes "length k = 16" and "i < 10" and "drop (4 * i) rk = words_of k"
  shows "key_setup_step i rk = rk @ words_of (next_key k i)"
proof -
  obtain k0 k1 k2 k3 k4 k5 k6 k7 k8 k9 k10 k11 k12 k13 k14 k15 where
    k: "k = [k0, k1, k2, k3, k4, k5, k6, k7, k8, k9, k10, k11, k12, k13, k14, k15]"
    using assms(1) by (rule block16E)
  have rcon: "RCON i = be32 (rcon_table ! i) 0 0 0"
    using rcons_rcon_table [OF assms(2)] by (simp add: RCON_def be32_def le32_of_def)
  show ?thesis
    unfolding key_setup_step_def assms(3)
    by (simp add: block_simps k TE4_round be32_xor rcon next_key_def xor_32_def xor.assoc Let_def)
qed

lemma length_words_of [simp]: "length (words_of b) = 4" by (simp add: words_of_def)

lemma length_concat_words: "length (concat (map (\<lambda>i. words_of (f i)) xs)) = 4 * length xs"
  by (induction xs) simp_all

lemma rijndaelKeySetupEnc_eq:
  assumes "length key = 16"
  shows "rijndaelKeySetupEnc key = concat (map (\<lambda>i. words_of (rkey key i)) [0..<11])"
proof -
  have main: "n \<le> 10 \<Longrightarrow> fold key_setup_step [0..<n] (words_of key) =
      concat (map (\<lambda>i. words_of (rkey key i)) [0..<Suc n])" for n
  proof (induction n)
    case (Suc n)
    let ?rk = "concat (map (\<lambda>i. words_of (rkey key i)) [0..<n])"
    have "drop (4 * n) (?rk @ words_of (rkey key n)) = words_of (rkey key n)"
      using length_concat_words [of "rkey key" "[0..<n]"] by simp
    from key_setup_step_eq [OF length_rkey [OF assms] _ this] Suc show ?case by simp
  qed simp
  have "Suc 10 = 11" by simp
  with main [OF order_refl] have "fold key_setup_step [0..<10] (words_of key) =
      concat (map (\<lambda>i. words_of (rkey key i)) [0..<11])"
    by (simp only:)
  then show ?thesis unfolding rijndaelKeySetupEnc_def by (simp only: words_of_def)
qed

lemma concat_words_nth:
  "i < n \<Longrightarrow> j < 4 \<Longrightarrow>
   concat (map (\<lambda>i. words_of (f i)) [0..<n]) ! (4 * i + j) = words_of (f i) ! j"
proof (induction n)
  case (Suc n)
  have len: "length (concat (map (\<lambda>i. words_of (f i)) [0..<n])) = 4 * n"
    by (simp add: length_concat_words)
  show ?case
  proof (cases "i = n")
    case True
    with Suc.prems len show ?thesis by (simp add: nth_append)
  next
    case False
    with Suc.prems have "4 * i + j < 4 * n" by simp
    with Suc False len show ?thesis by (simp add: nth_append)
  qed
qed simp

section \<open>Properties\<close>

text \<open>A full round on a block, under the round key \<open>k\<close>.\<close>

definition aes_full :: "byte list \<Rightarrow> byte list \<Rightarrow> byte list" where
  "aes_full k c = xor_128 (mix_columns (shift_row (byte_sub c))) k"

lemma length_aes_full [simp]: "length (aes_full k c) = 16"
  by (simp add: aes_full_def)

lemma aes_rounds_unrolled:
  assumes "length key = 16"
  shows "m \<le> 9 \<Longrightarrow> fold (aes_round data) [0..<Suc m] (key, junk) =
    (rkey key (Suc m), fold (\<lambda>i. aes_full (rkey key i)) [1..<Suc m] (xor_128 key data))"
proof (induction m)
  case 0
  then show ?case by (simp add: aes_round_def)
next
  case (Suc m)
  then show ?case by (simp add: aes_round_def aes_full_def)
qed

lemma aes128k128d_unrolled:
  assumes "length key = 16"
  shows "aes128k128d key data =
    xor_128 (shift_row (byte_sub (fold (\<lambda>i. aes_full (rkey key i)) [1..<10] (xor_128 key data))))
      (rkey key 10)"
proof -
  have upt: "[0..<11] = [0..<10] @ [10]" by (simp add: upt_rec)
  have "fold (aes_round data) [0..<10] (key, replicate 16 0) =
      (rkey key 10, fold (\<lambda>i. aes_full (rkey key i)) [1..<10] (xor_128 key data))"
    using aes_rounds_unrolled [OF assms, of 9 data "replicate 16 0"] by simp
  then show ?thesis
    using assms unfolding aes128k128d_def upt by (simp add: aes_round_def)
qed

lemma rij_loop_eq:
  assumes "length key = 16" and "length c = 16" and "n = 2 * m" and "m + r = 5" and "0 < r"
  shows "rij_loop r (drop (8 * m) (rijndaelKeySetupEnc key)) (block_words c) =
    (block_words (fold (\<lambda>i. aes_full (rkey key i)) [Suc n..<10] c),
     drop 40 (rijndaelKeySetupEnc key))"
  using assms(2-)
proof (induction r arbitrary: m n c)
  case (Suc r)
  let ?rk = "rijndaelKeySetupEnc key"
  have rk: "drop (8 * m') ?rk ! (4 * i + j) = words_of (rkey key (2 * m' + i)) ! j"
    if "2 * m' + i < 11" "j < 4" for m' i j
  proof -
    have "length ?rk = 44" by (simp add: rijndaelKeySetupEnc_eq [OF assms(1)] length_concat_words)
    then have "drop (8 * m') ?rk ! (4 * i + j) = ?rk ! (8 * m' + (4 * i + j))" using that by simp
    also have "8 * m' + (4 * i + j) = 4 * (2 * m' + i) + j" by simp
    finally show ?thesis
      using concat_words_nth [of "2 * m' + i" 11 j "rkey key"] that
      by (simp add: rijndaelKeySetupEnc_eq [OF assms(1)])
  qed
  have t: "rij_ROUND (drop (8 * m) ?rk) 1 (block_words c) = block_words (aes_full (rkey key (Suc n)) c)"
    unfolding aes_full_def using Suc.prems rk [of m 1]
    by (intro rij_ROUND_eq length_rkey assms(1)) simp_all
  show ?case
  proof (cases "r = 0")
    case True
    with Suc.prems t show ?thesis by simp
  next
    case False
    have s: "rij_ROUND (drop (8 * Suc m) ?rk) 0 (block_words (aes_full (rkey key (Suc n)) c)) =
        block_words (aes_full (rkey key (Suc (Suc n))) (aes_full (rkey key (Suc n)) c))"
      unfolding aes_full_def [of "rkey key (Suc (Suc n))"] using Suc.prems False rk [of "Suc m" 0]
      by (intro rij_ROUND_eq length_rkey assms(1)) simp_all
    let ?c = "aes_full (rkey key (Suc (Suc n))) (aes_full (rkey key (Suc n)) c)"
    have "Suc n < 10" "Suc (Suc n) < 10" using Suc.prems False by simp_all
    then have upt: "[Suc n..<10] = Suc n # Suc (Suc n) # [Suc (Suc (Suc n))..<10]"
      by (simp only: upt_conv_Cons)
    have "fold (\<lambda>i. aes_full (rkey key i)) [Suc n..<10] c =
        fold (\<lambda>i. aes_full (rkey key i)) [Suc (Suc (Suc n))..<10] ?c"
      by (simp only: upt fold_simps)
    moreover have "rij_loop (Suc r) (drop (8 * m) ?rk) (block_words c) =
        rij_loop r (drop (8 * Suc m) ?rk) (block_words ?c)"
      using False t s by (simp add: add.commute Let_def)
    moreover have "rij_loop r (drop (8 * Suc m) ?rk) (block_words ?c) =
        (block_words (fold (\<lambda>i. aes_full (rkey key i)) [Suc (Suc (Suc n))..<10] ?c), drop 40 ?rk)"
      using Suc.prems False by (intro Suc.IH) simp_all
    ultimately show ?thesis by simp
  qed
qed simp

lemma rijndaelEncrypt_aes:
  assumes "length key = 16" and "length data = 16"
  shows "rijndaelEncrypt (rijndaelKeySetupEnc key) data = aes128k128d key data"
proof -
  let ?rk = "rijndaelKeySetupEnc key"
  have rk: "?rk ! j = words_of key ! j" "drop 40 ?rk ! j = words_of (rkey key 10) ! j" if "j < 4" for j
    using concat_words_nth [of 0 11 j "rkey key"] concat_words_nth [of 10 11 j "rkey key"] that
    by (simp_all add: rijndaelKeySetupEnc_eq [OF assms(1)] length_concat_words)
  have "rij_loop 5 ?rk (block_words (xor_128 key data)) =
      (block_words (fold (\<lambda>i. aes_full (rkey key i)) [1..<10] (xor_128 key data)), drop 40 ?rk)"
    using rij_loop_eq [OF assms(1), of "xor_128 key data" 0 0 5] by simp
  moreover have "length (fold (\<lambda>i. aes_full (rkey key i)) [1..<10] (xor_128 key data)) = 16"
    by (simp add: upt_rec)
  moreover have "(GETU32 data XOR ?rk ! 0, GETU32 (drop 4 data) XOR ?rk ! 1,
      GETU32 (drop 8 data) XOR ?rk ! 2, GETU32 (drop 12 data) XOR ?rk ! 3) =
      block_words (xor_128 key data)"
    using block_words_xor [OF assms(2,1)] rk(1) by simp
  ultimately show ?thesis
    unfolding rijndaelEncrypt_def Let_def aes128k128d_unrolled [OF assms(1)]
    using rij_last_eq [OF _ length_rkey [OF assms(1)] rk(2)] by (simp only: prod.case)
qed

text \<open>
  C8 (the two implementations of AES agree).  For every 16-byte key and block the
  table-driven \<open>rijndaelEncrypt\<close> on the schedule of \<open>rijndaelKeySetupEnc\<close> returns
  what the byte-oriented \<open>aes128k128d\<close> returns.
\<close>

theorem rijndael_is_aes:
  assumes "length key = 16" and "length data = 16"
  shows "rijndaelEncrypt (rijndaelKeySetupEnc key) data = aes128k128d key data"
  using assms by (rule rijndaelEncrypt_aes)

theorem rijndael_is_aes_witness:
  "rijndaelEncrypt (rijndaelKeySetupEnc (replicate 16 1)) (replicate 16 2) =
     aes128k128d (replicate 16 1) (replicate 16 2)"
  by (rule rijndael_is_aes) simp_all

end
