(* ===== verification/Omac.thy ===== *)
theory Omac
  imports Rijndael "HOL-Library.Monad_Syntax"
begin

text \<open>
  OMAC1 (AES-CMAC) of src/core/rtw_security.c: \<open>gf_mulx\<close>, \<open>aes_encrypt_init\<close>,
  \<open>aes_128_encrypt\<close>, \<open>omac1_aes_128_vector\<close> and \<open>omac1_aes_128\<close>.

  The message is given in pieces.  The arrays \<open>addr\<close> and \<open>len\<close> are lists of
  buffers and of lengths; reading an entry behind their end is undefined
  behaviour and makes the result \<open>None\<close>.  Shown: when the pieces are not empty and
  the entry behind the last piece can be read, the result is the CMAC of the concatenated
  pieces, wherever the message is cut; the reference \<open>cmac_ref\<close> doubles its subkeys as
  128-bit numbers and shares no definition with the driver's code; when the arrays have exactly \<open>num_elem\<close> entries, which
  is how \<open>omac1_aes_128\<close> calls the function, every nonempty message makes the
  code read behind the arrays.
\<close>

section \<open>Definitions\<close>

definition AES_BLOCK_SIZE :: nat where "AES_BLOCK_SIZE = 16"

definition gf_mulx :: "byte list \<Rightarrow> byte list" where
  "gf_mulx pad =
     (let carry = pad ! 0 AND 0x80;
          shifted = map (\<lambda>i. push_bit 1 (pad ! i) OR drop_bit 7 (pad ! (i + 1))) [0..<AES_BLOCK_SIZE - 1];
          last = push_bit 1 (pad ! (AES_BLOCK_SIZE - 1));
          last = (if carry \<noteq> 0 then last XOR 0x87 else last)
      in shifted @ [last])"

text \<open>\<open>aes_encrypt_init\<close>: \<open>None\<close> is the NULL pointer.\<close>

definition aes_encrypt_init :: "bool \<Rightarrow> byte list \<Rightarrow> nat \<Rightarrow> u32 list option" where
  "aes_encrypt_init malloc_ok key len =
     (if len \<noteq> 16 then None else if \<not> malloc_ok then None else Some (rijndaelKeySetupEnc key))"

definition aes_128_encrypt :: "u32 list \<Rightarrow> byte list \<Rightarrow> byte list" where
  "aes_128_encrypt ctx plain = rijndaelEncrypt ctx plain"

text \<open>
  The read cursor: the index \<open>e\<close> of the piece and the offset of \<open>pos\<close> in it.  A
  byte is read and, at the end of the piece, the next entries of both arrays.
\<close>

type_synonym cursor = "nat \<times> nat"

definition next_byte :: "byte list list \<Rightarrow> nat list \<Rightarrow> cursor \<Rightarrow> (byte \<times> cursor) option" where
  "next_byte addr len cur = (case cur of (e, pos) \<Rightarrow> do {
     buf \<leftarrow> rd addr (int e);
     l \<leftarrow> rd len (int e);
     b \<leftarrow> rd buf (int pos);
     if pos + 1 \<ge> l then do {
       _ \<leftarrow> rd addr (int (e + 1));
       _ \<leftarrow> rd len (int (e + 1));
       Some (b, e + 1, 0)
     } else Some (b, e, pos + 1)
   })"

text \<open>The two byte loops: \<open>n\<close> bytes are xored into \<open>cbc\<close>, from index \<open>i\<close> on.\<close>

fun absorb :: "byte list list \<Rightarrow> nat list \<Rightarrow> nat \<Rightarrow> nat \<Rightarrow> byte list \<Rightarrow> cursor \<Rightarrow> (byte list \<times> cursor) option" where
  "absorb addr len i 0 cbc cur = Some (cbc, cur)"
| "absorb addr len i (Suc n) cbc cur = do {
     (b, cur') \<leftarrow> next_byte addr len cur;
     absorb addr len (Suc i) n (cbc[i := cbc ! i XOR b]) cur'
   }"

text \<open>The loop \<open>while (left >= AES_BLOCK_SIZE)\<close>.\<close>

function omac_loop ::
  "u32 list \<Rightarrow> byte list list \<Rightarrow> nat list \<Rightarrow> nat \<Rightarrow> byte list \<Rightarrow> cursor
     \<Rightarrow> (nat \<times> byte list \<times> cursor) option" where
  "omac_loop ctx addr len left cbc cur =
     (if left \<ge> AES_BLOCK_SIZE then do {
        (cbc, cur) \<leftarrow> absorb addr len 0 AES_BLOCK_SIZE cbc cur;
        let cbc = (if left > AES_BLOCK_SIZE then aes_128_encrypt ctx cbc else cbc);
        omac_loop ctx addr len (left - AES_BLOCK_SIZE) cbc cur
      } else Some (left, cbc, cur))"
  by pat_completeness auto
termination
  by (relation "measure (\<lambda>(_, _, _, left, _). left)") (auto simp: AES_BLOCK_SIZE_def)

declare omac_loop.simps [simp del]

definition total_len_of :: "nat \<Rightarrow> nat list \<Rightarrow> nat option" where
  "total_len_of num_elem len = map_option sum_list (rd_bytes len 0 (int num_elem))"

text \<open>\<open>Some None\<close> is the return value -1, \<open>Some (Some mac)\<close> the value 0.\<close>

definition omac1_aes_128_vector ::
  "bool \<Rightarrow> byte list \<Rightarrow> nat \<Rightarrow> byte list list \<Rightarrow> nat list \<Rightarrow> byte list option option" where
  "omac1_aes_128_vector malloc_ok key num_elem addr len =
     (case aes_encrypt_init malloc_ok key 16 of
        None \<Rightarrow> Some None
      | Some ctx \<Rightarrow> do {
          total_len \<leftarrow> total_len_of num_elem len;
          _ \<leftarrow> rd addr 0;
          _ \<leftarrow> rd len 0;
          (left, cbc, cur) \<leftarrow> omac_loop ctx addr len total_len (replicate AES_BLOCK_SIZE 0) (0, 0);
          let pad = gf_mulx (aes_128_encrypt ctx (replicate AES_BLOCK_SIZE 0));
          (cbc, pad) \<leftarrow>
            (if left \<noteq> 0 \<or> total_len = 0 then do {
               (cbc, _) \<leftarrow> absorb addr len 0 left cbc cur;
               Some (cbc[left := cbc ! left XOR 0x80], gf_mulx pad)
             } else Some (cbc, pad));
          Some (Some (aes_128_encrypt ctx (map (\<lambda>i. pad ! i XOR cbc ! i) [0..<AES_BLOCK_SIZE])))
        })"

definition omac1_aes_128 :: "bool \<Rightarrow> byte list \<Rightarrow> byte list \<Rightarrow> nat \<Rightarrow> byte list option option" where
  "omac1_aes_128 malloc_ok key data data_len = omac1_aes_128_vector malloc_ok key 1 [data] [data_len]"

section \<open>CMAC\<close>

text \<open>
  The definition of NIST SP 800-38B over a block cipher \<open>E\<close>: all blocks but the
  last are chained; the last block is complemented with the subkey \<open>K1\<close> when it
  is complete and padded and complemented with \<open>K2\<close> otherwise.
\<close>

text \<open>
  A subkey is doubled in the field of 2^128 elements: the block, read as a number with the most
  significant byte first, is shifted left, and 0x87 is added when a bit falls out.
\<close>

definition cmac_double :: "byte list \<Rightarrow> byte list" where
  "cmac_double b =
     (let w = word_rcat b :: 128 word;
          d = push_bit 1 w XOR (if bit w 127 then 0x87 else 0)
      in map (\<lambda>i. ucast (drop_bit (8 * (15 - i)) d)) [0..<16])"

definition cmac_xor :: "byte list \<Rightarrow> byte list \<Rightarrow> byte list" where
  "cmac_xor = map2 (XOR)"

function cmac_chain :: "(byte list \<Rightarrow> byte list) \<Rightarrow> byte list \<Rightarrow> byte list \<Rightarrow> byte list \<times> byte list" where
  "cmac_chain E cbc msg =
     (if length msg > 16 then cmac_chain E (E (cmac_xor cbc (take 16 msg))) (drop 16 msg)
      else (cbc, msg))"
  by pat_completeness auto
termination
  by (relation "measure (\<lambda>(_, _, msg). length msg)") auto

declare cmac_chain.simps [simp del]

definition cmac_ref :: "(byte list \<Rightarrow> byte list) \<Rightarrow> byte list \<Rightarrow> byte list" where
  "cmac_ref E msg =
     (let (cbc, tl_msg) = cmac_chain E (replicate 16 0) msg;
          K1 = cmac_double (E (replicate 16 0));
          K2 = cmac_double K1;
          m = (if length tl_msg = 16 then cmac_xor K1 tl_msg
               else cmac_xor K2 (tl_msg @ 0x80 # replicate (15 - length tl_msg) 0))
      in E (cmac_xor m cbc))"

text \<open>The driver's doubling and sum are those of the field.\<close>

lemma bit_word_rcat_block:
  fixes b :: "byte list"
  assumes "length b = 16" and "n < 128"
  shows "bit (word_rcat b :: 128 word) n \<longleftrightarrow> bit (b ! (15 - n div 8)) (n mod 8)"
proof -
  have "bit (word_rcat b :: 128 word) n \<longleftrightarrow> bit (horner_sum uint (2 ^ LENGTH(8)) (rev b)) n"
    using assms(2) by (simp only: word_rcat_def comp_def bit_word_of_int_iff) simp
  also have "\<dots> \<longleftrightarrow> bit (rev b ! (n div 8)) (n mod 8)"
    using assms by (subst bit_horner_sum_uint_exp_iff) auto
  finally show ?thesis using assms by (simp add: rev_nth)
qed

lemma bit_cmac_const: "bit (0x87 :: 'a :: len word) n \<longleftrightarrow> n < LENGTH('a) \<and> (n < 3 \<or> n = 7)"
proof -
  have "(0x87 :: 'a word) = mask 3 OR push_bit 7 (mask 1)" by (simp add: mask_eq_exp_minus_1)
  then show ?thesis by (simp only: bit_simps) auto
qed

lemma bit_cmac_double:
  fixes b :: "byte list"
  assumes "length b = 16" and "i < 16" and "j < 8"
  shows "bit (cmac_double b ! i) j \<longleftrightarrow>
    (if 0 < j then bit (b ! i) (j - 1) else i < 15 \<and> bit (b ! (i + 1)) 7) \<noteq>
    (i = 15 \<and> bit (b ! 0) 7 \<and> (j < 3 \<or> j = 7))"
proof -
  let ?w = "word_rcat b :: 128 word" and ?n = "8 * (15 - i) + j"
  have n: "?n < 128" using assms by simp
  have "?n - 1 < 128" using n by simp
  note rc = bit_word_rcat_block [OF assms(1) this]
  have top: "bit ?w 127 \<longleftrightarrow> bit (b ! 0) 7" using assms(1) by (simp add: bit_word_rcat_block)
  have c: "bit (if P then 0x87 else 0 :: 128 word) ?n \<longleftrightarrow> P \<and> i = 15 \<and> (j < 3 \<or> j = 7)" for P
  proof (cases P)
    case True
    have "?n < 3 \<or> ?n = 7 \<longleftrightarrow> i = 15 \<and> (j < 3 \<or> j = 7)" using assms(2,3) by presburger
    then show ?thesis using True n by (simp only: if_True bit_cmac_const) simp
  qed simp
  have "bit (cmac_double b ! i) j \<longleftrightarrow>
      bit (push_bit 1 ?w XOR (if bit ?w 127 then 0x87 else 0)) ?n"
  proof -
    have "bit (ucast (drop_bit (8 * (15 - i)) d) :: byte) j \<longleftrightarrow> bit d ?n" for d :: "128 word"
      using assms(3) by (simp add: bit_ucast_iff bit_drop_bit_eq)
    moreover have "map f [0..<16] ! i = f i" for f :: "nat \<Rightarrow> byte" using assms(2) by simp
    ultimately show ?thesis unfolding cmac_double_def Let_def by (simp only:)
  qed
  also have "\<dots> \<longleftrightarrow> (0 < ?n \<and> bit ?w (?n - 1)) \<noteq> (bit (b ! 0) 7 \<and> i = 15 \<and> (j < 3 \<or> j = 7))"
  proof -
    have "bit (push_bit 1 ?w) ?n \<longleftrightarrow> 0 < ?n \<and> bit ?w (?n - 1)"
      unfolding bit_push_bit_iff using n by auto
    then show ?thesis unfolding bit_xor_iff c top by blast
  qed
  also have "0 < ?n \<and> bit ?w (?n - 1) \<longleftrightarrow>
      (if 0 < j then bit (b ! i) (j - 1) else i < 15 \<and> bit (b ! (i + 1)) 7)"
  proof (cases "0 < j")
    case True
    then have "?n - 1 = 8 * (15 - i) + (j - 1)" "j - 1 < 8" using assms by linarith+
    then have "(?n - 1) div 8 = 15 - i" "(?n - 1) mod 8 = j - 1" by simp_all
    with rc True assms(2) show ?thesis by simp
  next
    case False
    show ?thesis
    proof (cases "i < 15")
      case True
      then have "?n - 1 = 8 * (14 - i) + 7" and i: "15 - (14 - i) = i + 1"
        using assms False by linarith+
      then have "(?n - 1) div 8 = 14 - i" "(?n - 1) mod 8 = 7" by simp_all
      with rc i show ?thesis using n False True by simp
    next
      case i: False
      then show ?thesis using assms False by simp
    qed
  qed
  finally show ?thesis by blast
qed

lemma gf_mulx_double:
  assumes "length b = 16"
  shows "gf_mulx b = cmac_double b"
proof (intro nth_equalityI bit_word_eqI)
  fix i j
  assume "i < length (gf_mulx b)" and j: "j < LENGTH(8)"
  then have i: "i < 16" by (simp add: gf_mulx_def AES_BLOCK_SIZE_def Let_def)
  have carry: "b ! 0 AND 0x80 \<noteq> 0 \<longleftrightarrow> bit (b ! 0) 7"
    using and_exp_eq_0_iff_not_bit [of "b ! 0" 7] by simp
  have g: "gf_mulx b ! i =
      (if i < 15 then push_bit 1 (b ! i) OR drop_bit 7 (b ! (i + 1))
       else push_bit 1 (b ! 15) XOR (if bit (b ! 0) 7 then 0x87 else 0))"
    unfolding gf_mulx_def Let_def carry using i
    by (auto simp: AES_BLOCK_SIZE_def nth_append)
  have p: "bit (push_bit 1 x) j \<longleftrightarrow> 0 < j \<and> bit x (j - 1)" for x :: byte
    using j unfolding bit_push_bit_iff by auto
  have d: "bit (drop_bit 7 x) j \<longleftrightarrow> j = 0 \<and> bit x 7" for x :: byte
    unfolding bit_drop_bit_eq comp_def using bit_byte_less [of x "7 + j"] by (cases "j = 0") auto
  have c: "bit (if P then 0x87 else 0 :: byte) j \<longleftrightarrow> P \<and> (j < 3 \<or> j = 7)" for P
    using j by (cases P) (simp_all only: if_True if_False bit_cmac_const, simp_all)
  have j': "j < 8" using j by simp
  show "bit (gf_mulx b ! i) j \<longleftrightarrow> bit (cmac_double b ! i) j"
  proof (cases "i < 15")
    case True
    then have "i \<noteq> 15" by simp
    then show ?thesis
      unfolding bit_cmac_double [OF assms i j'] g if_P [OF True] bit_or_iff p d using True by auto
  next
    case False
    then have "i = 15" using i by simp
    then show ?thesis
      unfolding bit_cmac_double [OF assms i j'] g if_not_P [OF False] bit_xor_iff p c by auto
  qed
qed (simp add: gf_mulx_def cmac_double_def AES_BLOCK_SIZE_def Let_def)

lemma xor_128_cmac: "length a = 16 \<Longrightarrow> length b = 16 \<Longrightarrow> xor_128 a b = cmac_xor a b"
  by (intro nth_equalityI) (simp_all add: xor_128_def cmac_xor_def)

section \<open>The order of the driver\<close>

text \<open>The same with the doubling and the sum of the driver's loops.\<close>

function chain_code :: "(byte list \<Rightarrow> byte list) \<Rightarrow> byte list \<Rightarrow> byte list \<Rightarrow> byte list \<times> byte list" where
  "chain_code E cbc msg =
     (if length msg > 16 then chain_code E (E (xor_128 cbc (take 16 msg))) (drop 16 msg)
      else (cbc, msg))"
  by pat_completeness auto
termination
  by (relation "measure (\<lambda>(_, _, msg). length msg)") auto

declare chain_code.simps [simp del]

definition cmac_code :: "(byte list \<Rightarrow> byte list) \<Rightarrow> byte list \<Rightarrow> byte list" where
  "cmac_code E msg =
     (let (cbc, tl_msg) = chain_code E (replicate 16 0) msg;
          K1 = gf_mulx (E (replicate 16 0));
          K2 = gf_mulx K1;
          m = (if length tl_msg = 16 then xor_128 K1 tl_msg
               else xor_128 K2 (tl_msg @ 0x80 # replicate (15 - length tl_msg) 0))
      in E (xor_128 m cbc))"

lemma chain_code_ref:
  assumes "\<And>b. length (E b) = 16" and "length cbc = 16"
  shows "chain_code E cbc msg = cmac_chain E cbc msg"
  using assms(2)
proof (induction "length msg" arbitrary: cbc msg rule: less_induct)
  case less
  then show ?case
    by (cases "length msg > 16")
       (simp_all add: chain_code.simps [of _ _ msg] cmac_chain.simps [of _ _ msg] assms(1) xor_128_cmac)
qed

lemma cmac_chain_tail: "cmac_chain E cbc msg = (c, t) \<Longrightarrow> length t \<le> 16"
  by (induction E cbc msg rule: cmac_chain.induct) (subst (asm) (2) cmac_chain.simps, auto split: if_splits)

lemma cmac_chain_length:
  "length cbc = 16 \<Longrightarrow> (\<And>b. length (E b) = 16) \<Longrightarrow> cmac_chain E cbc msg = (c, t) \<Longrightarrow> length c = 16"
  by (induction E cbc msg rule: cmac_chain.induct) (subst (asm) (2) cmac_chain.simps, auto split: if_splits)

lemma length_cmac_double [simp]: "length (cmac_double b) = 16"
  by (simp add: cmac_double_def Let_def)

lemma cmac_code_ref:
  assumes "\<And>b. length (E b) = 16"
  shows "cmac_code E msg = cmac_ref E msg"
proof -
  obtain c t where ct: "cmac_chain E (replicate 16 0) msg = (c, t)" by force
  then have "length t \<le> 16" "length c = 16"
    using cmac_chain_tail cmac_chain_length [OF _ assms ct] by auto
  then show ?thesis
    by (simp add: cmac_code_def cmac_ref_def Let_def ct chain_code_ref assms gf_mulx_double
        xor_128_cmac cmac_xor_def)
qed

section \<open>Reading the pieces\<close>

definition pieces :: "nat \<Rightarrow> byte list list \<Rightarrow> nat list \<Rightarrow> byte list list" where
  "pieces num addr len = map (\<lambda>i. take (len ! i) (addr ! i)) [0..<num]"

text \<open>
  The arrays have an entry behind the last piece, and every piece is nonempty and
  lies in its buffer.
\<close>

definition arrays_ok :: "nat \<Rightarrow> byte list list \<Rightarrow> nat list \<Rightarrow> bool" where
  "arrays_ok num addr len \<longleftrightarrow> num < length addr \<and> num < length len \<and>
     list_all (\<lambda>i. 0 < len ! i \<and> len ! i \<le> length (addr ! i)) [0..<num]"

definition cur_ok :: "nat \<Rightarrow> nat list \<Rightarrow> cursor \<Rightarrow> bool" where
  "cur_ok num len cur \<longleftrightarrow>
     fst cur \<le> num \<and> (if fst cur < num then snd cur < len ! fst cur else snd cur = 0)"

definition unread :: "nat \<Rightarrow> byte list list \<Rightarrow> nat list \<Rightarrow> cursor \<Rightarrow> byte list" where
  "unread num addr len cur = drop (snd cur) (concat (drop (fst cur) (pieces num addr len)))"

lemma next_byte_ok:
  assumes "arrays_ok num addr len" and "cur_ok num len cur" and "unread num addr len cur = b # bs"
  shows "\<exists>cur'. next_byte addr len cur = Some (b, cur') \<and> cur_ok num len cur' \<and>
    unread num addr len cur' = bs"
proof -
  obtain e pos where cur: "cur = (e, pos)" by force
  have e: "e < num" using assms(2,3) by (auto simp: cur cur_ok_def unread_def pieces_def split: if_splits)
  have pos: "pos < len ! e" and len: "len ! e \<le> length (addr ! e)"
    using assms(1,2) e by (auto simp: cur cur_ok_def arrays_ok_def list_all_iff)
  let ?p = "take (len ! e) (addr ! e)" and ?rest = "concat (drop (Suc e) (pieces num addr len))"
  have "drop e (pieces num addr len) = ?p # drop (Suc e) (pieces num addr len)"
    using e by (simp add: pieces_def Cons_nth_drop_Suc [symmetric])
  then have un: "unread num addr len (e, pos) = drop pos ?p @ ?rest"
    using pos len by (simp add: unread_def)
  moreover have "drop pos ?p = addr ! e ! pos # drop (Suc pos) ?p"
    using pos len by (simp add: Cons_nth_drop_Suc [symmetric])
  ultimately have b: "b = addr ! e ! pos" "bs = drop (Suc pos) ?p @ ?rest"
    using assms(3) by (auto simp: cur)
  have lt: "e < length addr" "e < length len" "pos < length (addr ! e)"
      "e + 1 < length addr" "e + 1 < length len"
    using assms(1) e pos len by (auto simp: arrays_ok_def)
  note rds = rd_nat [OF lt(1)] rd_nat [OF lt(2)] rd_nat [OF lt(3), folded b(1)]
    rd_nat [OF lt(4)] rd_nat [OF lt(5)]
  show ?thesis
  proof (cases "pos + 1 \<ge> len ! e")
    case True
    then have "next_byte addr len cur = Some (b, e + 1, 0)"
      using rds unfolding next_byte_def cur by (simp only: prod.case bind.bind_lunit if_True)
    moreover have "cur_ok num len (e + 1, 0)"
      using e assms(1) by (auto simp: cur_ok_def arrays_ok_def list_all_iff)
    moreover have "unread num addr len (e + 1, 0) = bs"
      using True by (simp add: unread_def b(2))
    ultimately show ?thesis by blast
  next
    case False
    then have "next_byte addr len cur = Some (b, e, pos + 1)"
      using rds unfolding next_byte_def cur by (simp only: prod.case bind.bind_lunit if_False)
    moreover have "cur_ok num len (e, pos + 1)" using False e by (simp add: cur_ok_def)
    moreover have "unread num addr len (e, pos + 1) = bs"
      using assms(3) unfolding cur unread_def by (metis add.commute drop_drop drop_Suc fst_conv list.sel(3) plus_1_eq_Suc snd_conv tl_drop)
    ultimately show ?thesis by blast
  qed
qed

lemma absorb_ok:
  assumes "arrays_ok num addr len" and "cur_ok num len cur"
    and "n \<le> length (unread num addr len cur)" and "i + n \<le> length cbc"
  shows "\<exists>cur'. absorb addr len i n cbc cur =
      Some (map (\<lambda>j. if i \<le> j \<and> j < i + n then cbc ! j XOR unread num addr len cur ! (j - i) else cbc ! j)
              [0..<length cbc], cur') \<and>
    cur_ok num len cur' \<and> unread num addr len cur' = drop n (unread num addr len cur)"
  using assms(2-)
proof (induction n arbitrary: i cbc cur)
  case 0
  have "map (\<lambda>j. if i \<le> j \<and> j < i + 0 then cbc ! j XOR unread num addr len cur ! (j - i) else cbc ! j)
      [0..<length cbc] = cbc"
    by (rule nth_equalityI) auto
  with 0 show ?case by simp
next
  case (Suc n)
  then obtain b bs where u: "unread num addr len cur = b # bs" by (cases "unread num addr len cur") auto
  obtain cur1 where c1: "next_byte addr len cur = Some (b, cur1)" "cur_ok num len cur1"
      "unread num addr len cur1 = bs"
    using next_byte_ok [OF assms(1) Suc.prems(1) u] by blast
  let ?cbc = "cbc[i := cbc ! i XOR b]"
  obtain cur' where a: "absorb addr len (Suc i) n ?cbc cur1 =
      Some (map (\<lambda>j. if Suc i \<le> j \<and> j < Suc i + n then ?cbc ! j XOR bs ! (j - Suc i) else ?cbc ! j)
              [0..<length ?cbc], cur')"
      "cur_ok num len cur'" "unread num addr len cur' = drop n bs"
    using Suc.IH [OF c1(2), of "Suc i" ?cbc] Suc.prems u by (auto simp: c1(3))
  have "map (\<lambda>j. if Suc i \<le> j \<and> j < Suc i + n then ?cbc ! j XOR bs ! (j - Suc i) else ?cbc ! j)
          [0..<length ?cbc] =
        map (\<lambda>j. if i \<le> j \<and> j < i + Suc n then cbc ! j XOR (b # bs) ! (j - i) else cbc ! j)
          [0..<length cbc]"
    using Suc.prems(3) by (intro nth_equalityI) (auto simp: nth_list_update nth_Cons' Suc_diff_Suc not_less_eq_eq)
  with a c1 u show ?case by simp
qed

lemma absorb_block:
  assumes "arrays_ok num addr len" and "cur_ok num len cur"
    and "16 \<le> length (unread num addr len cur)" and "length cbc = 16"
  shows "\<exists>cur'. absorb addr len 0 16 cbc cur =
      Some (xor_128 cbc (take 16 (unread num addr len cur)), cur') \<and>
    cur_ok num len cur' \<and> unread num addr len cur' = drop 16 (unread num addr len cur)"
proof -
  have eq: "map (\<lambda>j. if 0 \<le> j \<and> j < 0 + 16 then cbc ! j XOR unread num addr len cur ! (j - 0) else cbc ! j)
      [0..<length cbc] = xor_128 cbc (take 16 (unread num addr len cur))"
    unfolding xor_128_def assms(4) by (rule map_cong) (use assms(3) in auto)
  have "0 + 16 \<le> length cbc" by (simp add: assms(4))
  from absorb_ok [OF assms(1-3) this] show ?thesis unfolding eq .
qed

section \<open>The chain of blocks\<close>

lemma omac_loop_ok:
  assumes "arrays_ok num addr len" and "cur_ok num len cur" and "length cbc = 16"
    and "\<And>b. length (aes_128_encrypt ctx b) = 16"
    and "left = length (unread num addr len cur)"
    and "chain_code (aes_128_encrypt ctx) cbc (unread num addr len cur) = (c, t)"
  shows "\<exists>cur'. cur_ok num len cur' \<and> omac_loop ctx addr len left cbc cur =
    (if length t = 16 then Some (0, xor_128 c t, cur')
     else Some (length t, c, cur')) \<and>
    unread num addr len cur' = (if length t = 16 then [] else t)"
  using assms(2,3,5,6)
proof (induction "length (unread num addr len cur)" arbitrary: cur cbc left rule: less_induct)
  case less
  let ?u = "unread num addr len cur"
  show ?case
  proof (cases "length ?u < 16")
    case True
    with less.prems show ?thesis
      by (intro exI [of _ cur])
         (auto simp: omac_loop.simps [of _ _ _ "length ?u"] chain_code.simps [of _ _ ?u] AES_BLOCK_SIZE_def)
  next
    case False
    then obtain cur1 where c1: "absorb addr len 0 16 cbc cur = Some (xor_128 cbc (take 16 ?u), cur1)"
        "cur_ok num len cur1" "unread num addr len cur1 = drop 16 ?u"
      using absorb_block [OF assms(1) less.prems(1) _ less.prems(2)] by auto
    show ?thesis
    proof (cases "length ?u = 16")
      case True
      with less.prems c1 show ?thesis
        by (intro exI [of _ cur1]) (auto simp: omac_loop.simps [of _ _ _ 16] omac_loop.simps [of _ _ _ 0]
            chain_code.simps [of _ _ ?u] AES_BLOCK_SIZE_def)
    next
      case gt: False
      let ?cbc = "aes_128_encrypt ctx (xor_128 cbc (take 16 ?u))"
      have "chain_code (aes_128_encrypt ctx) ?cbc (unread num addr len cur1) = (c, t)"
        using less.prems(4) False gt by (simp add: chain_code.simps [of _ _ ?u] c1(3))
      moreover have "omac_loop ctx addr len left cbc cur = omac_loop ctx addr len (left - 16) ?cbc cur1"
        using less.prems(3) False gt c1(1)
        by (subst omac_loop.simps) (simp add: AES_BLOCK_SIZE_def)
      ultimately show ?thesis
        using less.hyps [of cur1 ?cbc "left - 16"] c1 False gt less.prems(3) assms(4) by simp
    qed
  qed
qed

lemma chain_code_nonempty: "msg \<noteq> [] \<Longrightarrow> chain_code E cbc msg = (c, t) \<Longrightarrow> t \<noteq> [] \<and> length t \<le> 16"
  by (induction E cbc msg rule: chain_code.induct) (subst (asm) (2) chain_code.simps, auto split: if_splits)

lemma length_chain_code:
  "length cbc = 16 \<Longrightarrow> (\<And>b. length (E b) = 16) \<Longrightarrow> length (fst (chain_code E cbc msg)) = 16"
  by (induction E cbc msg rule: chain_code.induct) (subst chain_code.simps, auto)

section \<open>Properties\<close>

text \<open>\<open>aes_128_encrypt\<close> on a schedule made by \<open>aes_encrypt_init\<close> always returns a block.\<close>

lemma length_aes_128_encrypt: "length (aes_128_encrypt ctx b) = 16"
  by (simp add: aes_128_encrypt_def rijndaelEncrypt_def rij_last_def PUTU32_def Let_def split: prod.splits)

lemma chain_code_cong:
  assumes "\<And>b. length b = 16 \<Longrightarrow> E b = F b"
  shows "chain_code E cbc msg = chain_code F cbc msg"
proof (induction "length msg" arbitrary: cbc msg rule: less_induct)
  case less
  then show ?case
    by (cases "length msg > 16") (simp_all add: chain_code.simps [of _ _ msg] assms)
qed

lemma cmac_code_cong:
  assumes "\<And>b. length b = 16 \<Longrightarrow> E b = F b"
  shows "cmac_code E msg = cmac_code F msg"
  unfolding cmac_code_def by (simp add: chain_code_cong [of E F, OF assms] assms split: prod.splits)

lemma absorb_tail:
  assumes "arrays_ok num addr len" and "cur_ok num len cur" and "unread num addr len cur = t"
    and "length t < 16" and "length cbc = 16"
  shows "\<exists>cbc' cur'. absorb addr len 0 (length t) cbc cur = Some (cbc', cur') \<and> length cbc' = 16 \<and>
    (\<forall>p. map (\<lambda>i. p ! i XOR cbc'[length t := cbc' ! length t XOR 0x80] ! i) [0..<16] =
       xor_128 (xor_128 p (t @ 0x80 # replicate (15 - length t) 0)) cbc)"
proof -
  let ?cbc' = "map (\<lambda>j. if 0 \<le> j \<and> j < 0 + length t then cbc ! j XOR t ! (j - 0) else cbc ! j) [0..<length cbc]"
  obtain cur' where a: "absorb addr len 0 (length t) cbc cur = Some (?cbc', cur')"
    using absorb_ok [OF assms(1,2), of "length t" 0 cbc] assms(3-5) by auto
  have "map (\<lambda>i. p ! i XOR ?cbc'[length t := ?cbc' ! length t XOR 0x80] ! i) [0..<16] =
      xor_128 (xor_128 p (t @ 0x80 # replicate (15 - length t) 0)) cbc" for p
    unfolding xor_128_def
  proof (rule map_cong)
    fix i assume "i \<in> set [0..<16]"
    then have i: "i < 16" by simp
    show "p ! i XOR ?cbc'[length t := ?cbc' ! length t XOR 0x80] ! i =
        map (\<lambda>i. p ! i XOR (t @ 0x80 # replicate (15 - length t) 0) ! i) [0..<16] ! i XOR cbc ! i"
      using i assms(4,5)
      by (cases "i < length t"; cases "i = length t") (auto simp: nth_append nth_Cons' ac_simps)
  qed simp
  with a assms(5) show ?thesis by simp
qed

lemma total_len_pieces:
  assumes "arrays_ok num addr len"
  shows "total_len_of num len = Some (length (concat (pieces num addr len)))"
proof -
  have "take num len = map length (pieces num addr len)"
    using assms by (intro nth_equalityI) (auto simp: pieces_def arrays_ok_def list_all_iff)
  moreover have "rd_bytes len 0 (int num) = Some (take num len)"
    using assms by (auto simp: rd_bytes_def in_buf_def arrays_ok_def)
  ultimately show ?thesis by (simp add: total_len_of_def length_concat)
qed

lemma omac1_vector_cmac:
  assumes "length key = 16" and "arrays_ok num addr len"
  shows "omac1_aes_128_vector True key num addr len =
    Some (Some (cmac_ref (aes128k128d key) (concat (pieces num addr len))))"
proof -
  define ctx where "ctx = rijndaelKeySetupEnc key"
  define msg where "msg = concat (pieces num addr len)"
  let ?E = "aes_128_encrypt ctx"
  obtain c t where ct: "chain_code ?E (replicate 16 0) msg = (c, t)" by force
  have len_c: "length c = 16"
    using length_chain_code [of "replicate 16 0" ?E msg] length_aes_128_encrypt ct by simp
  have un: "unread num addr len (0, 0) = msg" by (simp add: unread_def msg_def)
  have cur0: "cur_ok num len (0, 0)" using assms(2) by (auto simp: cur_ok_def arrays_ok_def list_all_iff)
  have total: "total_len_of num len = Some (length msg)"
    using total_len_pieces [OF assms(2)] by (simp add: msg_def)
  have rds: "rd addr 0 = Some (addr ! 0)" "rd len 0 = Some (len ! 0)"
    using assms(2) by (auto simp: arrays_ok_def rd_def)
  obtain cur' where loop: "cur_ok num len cur'" "omac_loop ctx addr len (length msg) (replicate 16 0) (0, 0) =
      (if length t = 16 then Some (0, xor_128 c t, cur') else Some (length t, c, cur'))"
      "unread num addr len cur' = (if length t = 16 then [] else t)"
    using omac_loop_ok [OF assms(2) cur0 _ length_aes_128_encrypt, of "replicate 16 0" "length msg" ctx c t] ct
    by (auto simp: un)
  let ?K1 = "gf_mulx (?E (replicate 16 0))"
  have "omac1_aes_128_vector True key num addr len = Some (Some (cmac_code ?E msg))"
  proof (cases "length t = 16")
    case True
    then have "msg \<noteq> []" using ct by (auto simp: chain_code.simps [of _ _ "[]"])
    moreover have "map (\<lambda>i. ?K1 ! i XOR xor_128 c t ! i) [0..<16] = xor_128 (xor_128 ?K1 t) c"
      by (auto simp: xor_128_def ac_simps)
    ultimately show ?thesis
      using True total rds loop(2) ct
      by (simp add: omac1_aes_128_vector_def aes_encrypt_init_def ctx_def [symmetric] AES_BLOCK_SIZE_def
          cmac_code_def)
  next
    case False
    then have t: "length t < 16" "length t \<noteq> 0 \<or> length msg = 0"
      using chain_code_nonempty [of msg ?E "replicate 16 0" c t] ct
      by (cases "msg = []"; force simp: chain_code.simps [of _ _ "[]"])+
    obtain cbc' cur'' where tl: "absorb addr len 0 (length t) c cur' = Some (cbc', cur'')"
        "\<And>p. map (\<lambda>i. p ! i XOR cbc'[length t := cbc' ! length t XOR 0x80] ! i) [0..<16] =
           xor_128 (xor_128 p (t @ 0x80 # replicate (15 - length t) 0)) c"
      using absorb_tail [OF assms(2) loop(1) _ t(1) len_c] loop(3) False by auto
    show ?thesis
      using False total rds loop(2) ct t(2) tl
      by (simp add: omac1_aes_128_vector_def aes_encrypt_init_def ctx_def [symmetric] AES_BLOCK_SIZE_def
          cmac_code_def)
  qed
  moreover have "?E b = aes128k128d key b" if "length b = 16" for b
    using rijndaelEncrypt_aes [OF assms(1) that] by (simp add: aes_128_encrypt_def ctx_def)
  ultimately show ?thesis
    using cmac_code_cong [of ?E "aes128k128d key" msg] cmac_code_ref [of "aes128k128d key" msg]
    by (simp add: msg_def)
qed

text \<open>With one entry per array, the last byte of the piece cannot be consumed.\<close>

lemma next_byte_single:
  "pos < length data \<Longrightarrow> next_byte [data] [length data] (0, pos) =
     (if pos + 1 = length data then None else Some (data ! pos, 0, pos + 1))"
  by (auto simp: next_byte_def rd_def)

lemma absorb_single:
  "pos < length data \<Longrightarrow>
   (case absorb [data] [length data] i n cbc (0, pos) of
      None \<Rightarrow> length data \<le> pos + n
    | Some (cbc', cur') \<Rightarrow> cur' = (0, pos + n) \<and> pos + n < length data)"
proof (induction n arbitrary: i cbc pos)
  case (Suc n)
  show ?case
  proof (cases "Suc pos = length data")
    case True
    with Suc.prems show ?thesis by (simp add: next_byte_single)
  next
    case False
    with Suc.prems have "Suc pos < length data" by simp
    from Suc.IH [OF this, where i = "Suc i" and cbc = "cbc[i := cbc ! i XOR data ! pos]"] show ?thesis
      using False Suc.prems by (auto simp: next_byte_single split: option.splits)
  qed
qed simp

lemma omac_loop_single:
  "pos < length data \<Longrightarrow> left = length data - pos \<Longrightarrow>
   (case omac_loop ctx [data] [length data] left cbc (0, pos) of
      None \<Rightarrow> True
    | Some (left', cbc', cur') \<Rightarrow>
        \<exists>pos'. cur' = (0, pos') \<and> pos' < length data \<and> left' = length data - pos')"
proof (induction left arbitrary: pos cbc rule: less_induct)
  case (less left)
  show ?case
  proof (cases "left \<ge> 16")
    case False
    with less.prems show ?thesis by (subst omac_loop.simps) (simp add: AES_BLOCK_SIZE_def)
  next
    case True
    show ?thesis
    proof (cases "absorb [data] [length data] 0 16 cbc (0, pos)")
      case None
      with True show ?thesis by (subst omac_loop.simps) (simp add: AES_BLOCK_SIZE_def)
    next
      case (Some r)
      obtain cbc1 where r: "r = (cbc1, 0, pos + 16)" "pos + 16 < length data"
        using absorb_single [OF less.prems(1), where i = 0 and n = 16 and cbc = cbc] unfolding Some by (cases r) auto
      let ?cbc = "if left > 16 then aes_128_encrypt ctx cbc1 else cbc1"
      have "omac_loop ctx [data] [length data] left cbc (0, pos) =
          omac_loop ctx [data] [length data] (left - 16) ?cbc (0, pos + 16)"
        using True Some r(1) by (subst omac_loop.simps) (simp add: AES_BLOCK_SIZE_def)
      then show ?thesis
        using less.IH [of "left - 16" "pos + 16" ?cbc] less.prems(2) True r(2) by simp
    qed
  qed
qed

text \<open>
  The arrays are read behind their end: \<open>omac1_aes_128\<close> passes arrays with a
  single entry; for every nonempty message the entry behind it is read as soon as
  the last byte has been consumed.
\<close>

lemma omac1_aes_128_reads_past_arrays:
  assumes "data_len = length data" and "data \<noteq> []"
  shows "omac1_aes_128 True key data data_len = None"
proof (cases "omac_loop (rijndaelKeySetupEnc key) [data] [length data] (length data) (replicate 16 0) (0, 0)")
  case None
  then show ?thesis
    by (simp add: omac1_aes_128_def omac1_aes_128_vector_def aes_encrypt_init_def total_len_of_def
        rd_bytes_def in_buf_def rd_def assms(1) AES_BLOCK_SIZE_def)
next
  case (Some r)
  obtain left cbc pos where r: "r = (left, cbc, 0, pos)" "pos < length data" "left = length data - pos"
    using omac_loop_single [of 0 data "length data" "rijndaelKeySetupEnc key" "replicate 16 0"] assms(2)
    unfolding Some by (cases r) auto
  have "absorb [data] [length data] 0 left cbc (0, pos) = None"
    using absorb_single [OF r(2), where i = 0 and n = left and cbc = cbc] r(2,3) by (auto split: option.splits)
  with Some r show ?thesis
    by (simp add: omac1_aes_128_def omac1_aes_128_vector_def aes_encrypt_init_def total_len_of_def
        rd_bytes_def in_buf_def rd_def assms(1) AES_BLOCK_SIZE_def)
qed

text \<open>
  C9 (OMAC1 is CMAC).  With memory for the key schedule, for a 16-byte key, pieces that are not empty and lie in
  their buffers, and arrays with a readable entry behind the last piece,
  \<open>omac1_aes_128_vector\<close> returns the CMAC of the concatenation of the
  pieces under AES-128, wherever the message is cut.  The driver's only caller,
  \<open>omac1_aes_128\<close>, passes arrays of one entry: for it every nonempty message
  makes the code read behind the arrays.
\<close>

theorem omac1_is_cmac:
  assumes "length key = 16" and "arrays_ok num addr len" and "data \<noteq> []"
  shows "omac1_aes_128_vector True key num addr len =
      Some (Some (cmac_ref (aes128k128d key) (concat (pieces num addr len)))) \<and>
    omac1_aes_128 True key data (length data) = None"
  by (rule conjI [OF omac1_vector_cmac [OF assms(1,2)] omac1_aes_128_reads_past_arrays [OF refl assms(3)]])

theorem omac1_is_cmac_witness:
  "omac1_aes_128_vector True (replicate 16 1) 2 [[1, 2, 3], [4, 5], []] [3, 2, 0] =
      Some (Some (cmac_ref (aes128k128d (replicate 16 1))
        (concat (pieces 2 [[1, 2, 3], [4, 5], []] [3, 2, 0])))) \<and>
    omac1_aes_128 True (replicate 16 1) [1, 2, 3] (length [1, 2, 3 :: byte]) = None"
  by (rule omac1_is_cmac) (simp_all add: arrays_ok_def upt_rec)

end
