(* ===== verification/Ie.thy ===== *)
theory Ie
  imports Prelude "HOL-Library.Monad_Syntax"
begin

text \<open>
  Information elements: the writers, the searches and the parser of
  src/core/rtw_ieee80211.c (\<open>rtw_set_ie\<close>, \<open>rtw_get_ie\<close>, \<open>rtw_get_ie_ex\<close>,
  \<open>rtw_ies_remove_ie\<close>, \<open>rtw_ieee802_11_parse_elems\<close>).  A pointer is an offset into
  the buffer; an access outside of the buffer makes the result \<open>None\<close>.  Buffers
  are shorter than 2^31 bytes, so the offsets do not wrap.

  Shown: what a sequence of elements written one after the other looks like to
  the searches and the parser; removal; memory safety of the parser; the reads
  past the end that \<open>rtw_get_ie\<close> performs.
\<close>

section \<open>Writers\<close>

definition rtw_memcmp :: "byte list \<Rightarrow> int \<Rightarrow> byte list \<Rightarrow> int \<Rightarrow> bool option" where
  "rtw_memcmp mem dst src sz = do {
     a \<leftarrow> rd_bytes mem dst sz;
     b \<leftarrow> rd_bytes src 0 sz;
     Some (a = b)
   }"

text \<open>The writers return the pointer behind the element, the new frame length and the buffer.\<close>

definition rtw_set_fixed_ie ::
  "byte list \<Rightarrow> int \<Rightarrow> u32 \<Rightarrow> byte list \<Rightarrow> u32 \<Rightarrow> (int \<times> u32 \<times> byte list) option" where
  "rtw_set_fixed_ie mem pbuf len source frlen = do {
     s \<leftarrow> rd_bytes source 0 (uint len);
     mem \<leftarrow> wr_bytes mem pbuf s;
     Some (pbuf + uint len, frlen + len, mem)
   }"

definition rtw_set_ie ::
  "byte list \<Rightarrow> int \<Rightarrow> int \<Rightarrow> u32 \<Rightarrow> byte list \<Rightarrow> u32 \<Rightarrow> (int \<times> u32 \<times> byte list) option" where
  "rtw_set_ie mem pbuf index len source frlen = do {
     mem \<leftarrow> wr_bytes mem pbuf [word_of_int index];
     mem \<leftarrow> wr_bytes mem (pbuf + 1) [ucast len];
     mem \<leftarrow> (if len > 0 then do {
               s \<leftarrow> rd_bytes source 0 (uint len);
               wr_bytes mem (pbuf + 2) s
             } else Some mem);
     Some (pbuf + uint len + 2, frlen + (len + 2), mem)
   }"

definition rtw_set_ie_ch_switch ::
  "byte list \<Rightarrow> int \<Rightarrow> u32 \<Rightarrow> byte \<Rightarrow> byte \<Rightarrow> byte \<Rightarrow> (int \<times> u32 \<times> byte list) option" where
  "rtw_set_ie_ch_switch mem buf buf_len ch_switch_mode new_ch ch_switch_cnt =
     rtw_set_ie mem buf 37 3 [ch_switch_mode, new_ch, ch_switch_cnt] buf_len"

definition rtw_set_ie_secondary_ch_offset ::
  "byte list \<Rightarrow> int \<Rightarrow> u32 \<Rightarrow> byte \<Rightarrow> (int \<times> u32 \<times> byte list) option" where
  "rtw_set_ie_secondary_ch_offset mem buf buf_len secondary_ch_offset =
     rtw_set_ie mem buf 62 1 [secondary_ch_offset] buf_len"

definition RTW_PUT_LE16 :: "u16 \<Rightarrow> byte list" where
  "RTW_PUT_LE16 v = [ucast (v AND 0xff), ucast (drop_bit 8 v)]"

definition rtw_set_ie_mesh_ch_switch_parm ::
  "byte list \<Rightarrow> int \<Rightarrow> u32 \<Rightarrow> byte \<Rightarrow> byte \<Rightarrow> u16 \<Rightarrow> u16 \<Rightarrow> (int \<times> u32 \<times> byte list) option" where
  "rtw_set_ie_mesh_ch_switch_parm mem buf buf_len ttl flags reason precedence =
     rtw_set_ie mem buf 0x118 6 ([ttl, flags] @ RTW_PUT_LE16 reason @ RTW_PUT_LE16 precedence) buf_len"

text \<open>The two codings of the position of the secondary channel.\<close>

definition SCN :: byte where "SCN = 0"
definition SCA :: byte where "SCA = 1"
definition SCB :: byte where "SCB = 3"
definition HAL_PRIME_CHNL_OFFSET_DONT_CARE :: byte where "HAL_PRIME_CHNL_OFFSET_DONT_CARE = 0"
definition HAL_PRIME_CHNL_OFFSET_LOWER :: byte where "HAL_PRIME_CHNL_OFFSET_LOWER = 1"
definition HAL_PRIME_CHNL_OFFSET_UPPER :: byte where "HAL_PRIME_CHNL_OFFSET_UPPER = 2"

definition secondary_ch_offset_to_hal_ch_offset :: "byte \<Rightarrow> byte" where
  "secondary_ch_offset_to_hal_ch_offset ch_offset =
     (if ch_offset = SCN then HAL_PRIME_CHNL_OFFSET_DONT_CARE
      else if ch_offset = SCA then HAL_PRIME_CHNL_OFFSET_UPPER
      else if ch_offset = SCB then HAL_PRIME_CHNL_OFFSET_LOWER
      else HAL_PRIME_CHNL_OFFSET_DONT_CARE)"

definition hal_ch_offset_to_secondary_ch_offset :: "byte \<Rightarrow> byte" where
  "hal_ch_offset_to_secondary_ch_offset ch_offset =
     (if ch_offset = HAL_PRIME_CHNL_OFFSET_DONT_CARE then SCN
      else if ch_offset = HAL_PRIME_CHNL_OFFSET_LOWER then SCB
      else if ch_offset = HAL_PRIME_CHNL_OFFSET_UPPER then SCA
      else SCN)"

section \<open>Searches\<close>

lemma ie_step_decreases: "i < limit \<Longrightarrow> nat (limit - (i + (uint (l :: byte) + 2))) < nat (limit - i)"
  using uint_ge_0 [of l] by (simp only: zless_nat_conj) linarith

text \<open>The loop of \<open>rtw_get_ie\<close>: the result is the pointer found, if any, and \<open>*len\<close>.\<close>

function get_ie_loop :: "byte list \<Rightarrow> int \<Rightarrow> int \<Rightarrow> int \<Rightarrow> int \<Rightarrow> (int option \<times> int) option" where
  "get_ie_loop mem index limit p i = do {
     b \<leftarrow> rd mem p;
     tmp \<leftarrow> rd mem (p + 1);
     if uint b = index then Some (Some p, uint tmp)
     else if i + (uint tmp + 2) \<ge> limit then Some (None, 0)
     else get_ie_loop mem index limit (p + (uint tmp + 2)) (i + (uint tmp + 2))
   }"
  by pat_completeness auto
termination
proof (relation "measure (\<lambda>(_, _, limit, _, i). nat (limit - i))")
  fix mem index limit p i b and tmp :: byte
  assume "\<not> limit \<le> i + (uint tmp + 2)"
  then have "i < limit" using uint_ge_0 [of tmp] by linarith
  then show "((mem, index, limit, p + (uint tmp + 2), i + (uint tmp + 2)), mem, index, limit, p, i)
      \<in> measure (\<lambda>(_, _, limit, _, i). nat (limit - i))"
    by (simp only: in_measure case_prod_conv ie_step_decreases)
qed simp

declare get_ie_loop.simps [simp del]

definition rtw_get_ie :: "byte list \<Rightarrow> int \<Rightarrow> int \<Rightarrow> int \<Rightarrow> int \<Rightarrow> (int option \<times> int) option" where
  "rtw_get_ie mem pbuf index len limit =
     (if limit < 1 then Some (None, len) else get_ie_loop mem index limit pbuf 0)"

text \<open>
  The loop of \<open>rtw_get_ie_ex\<close>; \<open>oui\<close> is \<open>None\<close> for the NULL pointer.  The result is
  the offset of the element from \<open>in_ie\<close>.
\<close>

function get_ie_ex_loop ::
  "byte list \<Rightarrow> int \<Rightarrow> int \<Rightarrow> byte \<Rightarrow> byte list option \<Rightarrow> int \<Rightarrow> int \<Rightarrow> int option option" where
  "get_ie_ex_loop mem in_ie in_len eid oui oui_len cnt =
     (if cnt < in_len then do {
        b \<leftarrow> rd mem (in_ie + cnt);
        hit \<leftarrow> (if eid = b then
                  (case oui of None \<Rightarrow> Some True
                   | Some v \<Rightarrow> rtw_memcmp mem (in_ie + cnt + 2) v oui_len)
                else Some False);
        if hit then Some (Some cnt)
        else do {
          l \<leftarrow> rd mem (in_ie + cnt + 1);
          get_ie_ex_loop mem in_ie in_len eid oui oui_len (cnt + (uint l + 2))
        }
      } else Some None)"
  by pat_completeness auto
termination
proof (relation "measure (\<lambda>(_, _, in_len, _, _, _, cnt). nat (in_len - cnt))")
  fix mem in_ie in_len eid oui oui_len cnt b hit and l :: byte
  assume "cnt < (in_len :: int)"
  then show "((mem, in_ie, in_len, eid, oui, oui_len, cnt + (uint l + 2)),
      mem, in_ie, in_len, eid, oui, oui_len, cnt)
      \<in> measure (\<lambda>(_, _, in_len, _, _, _, cnt). nat (in_len - cnt))"
    by (simp only: in_measure case_prod_conv ie_step_decreases)
qed simp

declare get_ie_ex_loop.simps [simp del]

text \<open>
  \<open>in_ie\<close> and the destination \<open>ie\<close> may be NULL.  The result is the address found,
  the destination and \<open>*ielen\<close>.
\<close>

definition rtw_get_ie_ex ::
  "byte list \<Rightarrow> int option \<Rightarrow> int \<Rightarrow> byte \<Rightarrow> byte list option \<Rightarrow> int \<Rightarrow> byte list option
     \<Rightarrow> (int option \<times> byte list option \<times> int) option" where
  "rtw_get_ie_ex mem in_ie in_len eid oui oui_len ie =
     (case in_ie of
        None \<Rightarrow> Some (None, ie, 0)
      | Some base \<Rightarrow>
          if in_len \<le> 0 then Some (None, ie, 0)
          else do {
            r \<leftarrow> get_ie_ex_loop mem base in_len eid oui oui_len 0;
            (case r of
               None \<Rightarrow> Some (None, ie, 0)
             | Some cnt \<Rightarrow> do {
                 l \<leftarrow> rd mem (base + cnt + 1);
                 ie \<leftarrow> (case ie of
                          None \<Rightarrow> Some None
                        | Some dst \<Rightarrow> do {
                            s \<leftarrow> rd_bytes mem (base + cnt) (uint l + 2);
                            map_option Some (wr_bytes dst 0 s)
                          });
                 Some (Some (base + cnt), ie, uint l + 2)
               })
          })"

lemma get_ie_ex_loop_range:
  "get_ie_ex_loop mem in_ie in_len eid oui oui_len cnt = Some (Some c) \<Longrightarrow> cnt \<le> c \<and> c < in_len"
proof (induction mem in_ie in_len eid oui oui_len cnt rule: get_ie_ex_loop.induct)
  case (1 mem in_ie in_len eid oui oui_len cnt)
  have step: "cnt + (uint l + 2) \<le> c \<Longrightarrow> cnt \<le> c" for l :: byte using uint_ge_0 [of l] by linarith
  show ?case
    using 1(2) by (subst (asm) get_ie_ex_loop.simps)
      (auto split: if_splits bind_splits dest!: 1(1) intro: step)
qed

lemma rtw_get_ie_ex_range:
  assumes "rtw_get_ie_ex mem (Some start) search_len eid oui oui_len ie = Some (Some t, ie', tlen)"
  shows "start \<le> t" and "t < start + search_len" and "2 \<le> tlen" and "tlen \<le> 257"
proof -
  obtain c and l :: byte where c: "get_ie_ex_loop mem start search_len eid oui oui_len 0 = Some (Some c)"
    and t: "t = start + c" and l: "tlen = uint l + 2"
    using assms by (auto simp: rtw_get_ie_ex_def split: if_splits bind_splits option.splits)
  have "uint l < 256" using uint_lt2p [of l] by simp
  with get_ie_ex_loop_range [OF c] t l uint_ge_0 [of l]
  show "start \<le> t" "t < start + search_len" "2 \<le> tlen" "tlen \<le> 257" by linarith+
qed

text \<open>
  Removal.  \<open>remain_len\<close> is unsigned: when the element found reaches behind the
  search range it wraps to a length the copy buffer \<open>buf\<close> does not hold.
\<close>

definition MAX_IE_SZ :: int where "MAX_IE_SZ = 768"

lemma mod_shrinks:
  assumes "2 \<le> (x :: int)" and "x \<le> n + 257" and "(n - x) mod 2 ^ 32 \<le> 768" and "0 < n"
  shows "(n - x) mod 2 ^ 32 < n"
proof (cases "x \<le> n")
  case True
  then have "(n - x) mod 2 ^ 32 \<le> n - x" by (intro zmod_le_nonneg_dividend) simp
  with assms(1) show ?thesis by linarith
next
  case False
  then have "(n - x) mod 2 ^ 32 = (n - x + 2 ^ 32) mod 2 ^ 32" by simp
  also have "\<dots> = n - x + 2 ^ 32" using False assms(2) by (intro mod_pos_pos_trivial) simp_all
  finally show ?thesis using assms(2,3) by simp
qed

function remove_ie_loop ::
  "byte list \<Rightarrow> int \<Rightarrow> int \<Rightarrow> int \<Rightarrow> byte \<Rightarrow> byte list option \<Rightarrow> int \<Rightarrow> status
     \<Rightarrow> (status \<times> int \<times> byte list) option" where
  "remove_ie_loop ies start search_len ies_len eid oui oui_len ret =
     (case rtw_get_ie_ex ies (Some start) search_len eid oui oui_len None of
        None \<Rightarrow> None
      | Some (None, _, _) \<Rightarrow> Some (ret, ies_len, ies)
      | Some (Some target_ie, _, target_ielen) \<Rightarrow>
          let remain_ies = target_ie + target_ielen;
              remain_len = (search_len - (remain_ies - start)) mod 2 ^ 32
          in if remain_len > MAX_IE_SZ then None
             else do {
               buf \<leftarrow> rd_bytes ies remain_ies remain_len;
               ies \<leftarrow> wr_bytes ies target_ie buf;
               remove_ie_loop ies target_ie remain_len ((ies_len - target_ielen) mod 2 ^ 32)
                 eid oui oui_len SUCCESS
             })"
  by pat_completeness auto
termination
proof (relation "measure (\<lambda>(_, _, search_len, _). nat search_len)")
  fix ies start search_len ies_len eid oui oui_len ret x y y' z remain_ies remain_len buf and ies' :: "byte list"
  fix target_ie target_ielen :: int
  assume "rtw_get_ie_ex ies (Some start) search_len eid oui oui_len None = Some x" "(y, y') = x"
    "y = Some target_ie" "(z, target_ielen) = y'"
    and rem: "remain_ies = target_ie + target_ielen"
      "remain_len = (search_len - (remain_ies - start)) mod 2 ^ 32" "\<not> MAX_IE_SZ < remain_len"
  then have found: "rtw_get_ie_ex ies (Some start) search_len eid oui oui_len None = Some (Some target_ie, z, target_ielen)"
    by simp
  note r = rtw_get_ie_ex_range [OF found]
  have "remain_len < search_len" unfolding rem(2)
    using rem r by (intro mod_shrinks) (simp_all add: MAX_IE_SZ_def)
  moreover have "0 < search_len" using r by linarith
  ultimately show "((ies', target_ie, remain_len, (ies_len - target_ielen) mod 2 ^ 32, eid, oui, oui_len, SUCCESS),
      ies, start, search_len, ies_len, eid, oui, oui_len, ret) \<in> measure (\<lambda>(_, _, search_len, _). nat search_len)"
    by simp
qed simp

declare remove_ie_loop.simps [simp del]

text \<open>\<open>ies\<close> and \<open>ies_len\<close> are not NULL; the buffer starts at offset 0.\<close>

definition rtw_ies_remove_ie ::
  "byte list \<Rightarrow> int \<Rightarrow> int \<Rightarrow> byte \<Rightarrow> byte list option \<Rightarrow> int \<Rightarrow> (status \<times> int \<times> byte list) option" where
  "rtw_ies_remove_ie ies ies_len offset eid oui oui_len =
     (if ies_len \<le> offset then Some (FAIL, ies_len, ies)
      else remove_ie_loop ies offset (ies_len - offset) ies_len eid oui oui_len FAIL)"

section \<open>The parser\<close>

text \<open>
  The fields of \<open>struct rtw_ieee802_11_elems\<close>.  A field is a pointer with a length,
  or NULL: the structure is a map from field names to offset and length.
\<close>

datatype elem_field =
    EL_ssid | EL_supp_rates | EL_fh_params | EL_ds_params | EL_cf_params | EL_tim | EL_ibss_params
  | EL_challenge | EL_erp_info | EL_ext_supp_rates | EL_wpa_ie | EL_rsn_ie | EL_wme | EL_wme_tspec
  | EL_wps_ie | EL_power_cap | EL_supp_channels | EL_mdie | EL_ftie | EL_timeout_int
  | EL_ht_capabilities | EL_ht_operation | EL_vendor_ht_cap | EL_vht_capabilities
  | EL_vht_operation | EL_vht_op_mode_notify

type_synonym elems = "elem_field \<Rightarrow> (int \<times> byte) option"

datatype parse_res = ParseOK | ParseUnknown | ParseFailed

definition RTW_GET_BE24 :: "byte list \<Rightarrow> u32" where
  "RTW_GET_BE24 a = (push_bit 16 (ucast (a ! 0)) OR push_bit 8 (ucast (a ! 1))) OR ucast (a ! 2)"

definition OUI_MICROSOFT :: u32 where "OUI_MICROSOFT = 0x0050f2"
definition OUI_BROADCOM :: u32 where "OUI_BROADCOM = 0x00904c"
definition WLAN_EID_VENDOR_SPECIFIC :: byte where "WLAN_EID_VENDOR_SPECIFIC = 221"

text \<open>The boolean is the return value 0.\<close>

definition rtw_ieee802_11_parse_vendor_specific ::
  "byte list \<Rightarrow> int \<Rightarrow> byte \<Rightarrow> elems \<Rightarrow> (bool \<times> elems) option" where
  "rtw_ieee802_11_parse_vendor_specific mem pos elen elems =
     (if elen < 4 then Some (False, elems)
      else do {
        b \<leftarrow> rd_bytes mem pos 4;
        let oui = RTW_GET_BE24 b;
        if oui = OUI_MICROSOFT then
          (if b ! 3 = 1 then Some (True, elems(EL_wpa_ie \<mapsto> (pos, elen)))
           else if b ! 3 = 2 then
             (if elen < 5 then Some (False, elems)
              else do {
                sub \<leftarrow> rd mem (pos + 4);
                if sub = 0 \<or> sub = 1 then Some (True, elems(EL_wme \<mapsto> (pos, elen)))
                else if sub = 2 then Some (True, elems(EL_wme_tspec \<mapsto> (pos, elen)))
                else Some (False, elems)
              })
           else if b ! 3 = 4 then Some (True, elems(EL_wps_ie \<mapsto> (pos, elen)))
           else Some (False, elems))
        else if oui = OUI_BROADCOM then
          (if b ! 3 = 0x33 then Some (True, elems(EL_vendor_ht_cap \<mapsto> (pos, elen)))
           else Some (False, elems))
        else Some (False, elems)
      })"

text \<open>The cases of the switch over \<open>id\<close> that store one field.\<close>

definition eid_field :: "byte \<Rightarrow> elem_field option" where
  "eid_field eid = map_of
     [(0, EL_ssid), (1, EL_supp_rates), (2, EL_fh_params), (3, EL_ds_params), (4, EL_cf_params),
      (5, EL_tim), (6, EL_ibss_params), (16, EL_challenge), (42, EL_erp_info),
      (50, EL_ext_supp_rates), (48, EL_rsn_ie), (33, EL_power_cap), (36, EL_supp_channels),
      (54, EL_mdie), (55, EL_ftie), (56, EL_timeout_int), (45, EL_ht_capabilities),
      (61, EL_ht_operation), (191, EL_vht_capabilities), (192, EL_vht_operation),
      (193, EL_vht_op_mode_notify)] eid"

definition parse_elem :: "byte list \<Rightarrow> int \<Rightarrow> byte \<Rightarrow> byte \<Rightarrow> elems \<Rightarrow> (bool \<times> elems) option" where
  "parse_elem mem pos eid elen elems =
     (if eid = WLAN_EID_VENDOR_SPECIFIC then rtw_ieee802_11_parse_vendor_specific mem pos elen elems
      else case eid_field eid of
        Some f \<Rightarrow> Some (True, elems(f \<mapsto> (pos, elen)))
      | None \<Rightarrow> Some (False, elems))"

text \<open>The loop \<open>while (left >= 2)\<close>; \<open>unknown\<close> counts the elements not stored.\<close>

function parse_loop ::
  "byte list \<Rightarrow> int \<Rightarrow> nat \<Rightarrow> nat \<Rightarrow> elems \<Rightarrow> (parse_res \<times> elems) option" where
  "parse_loop mem pos left unknown elems =
     (if left \<ge> 2 then do {
        eid \<leftarrow> rd mem pos;
        elen \<leftarrow> rd mem (pos + 1);
        if unat elen > left - 2 then Some (ParseFailed, elems)
        else do {
          (known, elems) \<leftarrow> parse_elem mem (pos + 2) eid elen elems;
          parse_loop mem (pos + 2 + uint elen) (left - 2 - unat elen)
            (if known then unknown else unknown + 1) elems
        }
      } else Some (if left \<noteq> 0 then ParseFailed else if unknown \<noteq> 0 then ParseUnknown else ParseOK, elems))"
  by pat_completeness auto
termination
  by (relation "measure (\<lambda>(_, _, left, _). left)") auto

declare parse_loop.simps [simp del]

definition rtw_ieee802_11_parse_elems :: "byte list \<Rightarrow> int \<Rightarrow> nat \<Rightarrow> (parse_res \<times> elems) option" where
  "rtw_ieee802_11_parse_elems mem start len = parse_loop mem start len 0 Map.empty"

section \<open>Sequences of elements\<close>

text \<open>An element is an identifier and at most 255 data bytes.\<close>

type_synonym ie = "byte \<times> byte list"

definition ie_ok :: "ie \<Rightarrow> bool" where
  "ie_ok e \<longleftrightarrow> length (snd e) \<le> 255"

definition ie_bytes :: "ie \<Rightarrow> byte list" where
  "ie_bytes e = fst e # of_nat (length (snd e)) # snd e"

definition ies_bytes :: "ie list \<Rightarrow> byte list" where
  "ies_bytes es = concat (map ie_bytes es)"

text \<open>The offset of the first element with a property.\<close>

fun ie_find :: "(ie \<Rightarrow> bool) \<Rightarrow> ie list \<Rightarrow> (nat \<times> ie) option" where
  "ie_find P [] = None"
| "ie_find P (e # es) =
     (if P e then Some (0, e) else map_option (apfst ((+) (length (ie_bytes e)))) (ie_find P es))"

lemma ies_bytes_simps [simp]:
  "ies_bytes [] = []" "ies_bytes (e # es) = ie_bytes e @ ies_bytes es"
  "ies_bytes (es @ fs) = ies_bytes es @ ies_bytes fs"
  by (simp_all add: ies_bytes_def)

lemma length_ie_bytes [simp, len_simps]: "length (ie_bytes e) = length (snd e) + 2"
  by (simp add: ie_bytes_def)

lemma unat_len_byte: "n \<le> 255 \<Longrightarrow> unat (of_nat n :: byte) = n"
  by (simp add: unat_of_nat take_bit_nat_eq_self)

lemma uint_len_byte: "n \<le> 255 \<Longrightarrow> uint (of_nat n :: byte) = int n"
  using unat_len_byte [of n] by (metis uint_nat)

text \<open>Reading in the middle of a buffer.\<close>

lemma rd_mid: "rd (pre @ x # post) (int (length pre)) = Some x"
  by (simp add: rd_def)

lemma rd_mid1: "rd (pre @ x # y # post) (int (length pre) + 1) = Some y"
  by (simp add: rd_def nth_append nat_add_distrib)

lemma rd_ie:
  "rd (pre @ ie_bytes e @ post) (int (length pre)) = Some (fst e)"
  "rd (pre @ ie_bytes e @ post) (int (length pre) + 1) = Some (of_nat (length (snd e)))"
  using rd_mid [of pre] rd_mid1 [of pre] by (simp_all add: ie_bytes_def)

lemma rd_bytes_mid: "rd_bytes (pre @ xs @ post) (int (length pre)) (int (length xs)) = Some xs"
  using rd_bytes_nat [of "length pre" "length xs" "pre @ xs @ post"] by simp

lemma ie_find_Some:
  "ie_find P es = Some (k, e) \<Longrightarrow>
   \<exists>es1 es2. es = es1 @ e # es2 \<and> k = length (ies_bytes es1) \<and> P e \<and> list_all (\<lambda>e. \<not> P e) es1"
proof (induction es arbitrary: k)
  case (Cons a es)
  show ?case
  proof (cases "P a")
    case True
    with Cons.prems show ?thesis by (intro exI [of _ "[]"] exI [of _ es]) simp
  next
    case False
    with Cons.prems obtain k' where k': "ie_find P es = Some (k', e)" "k = length (ie_bytes a) + k'" by auto
    from Cons.IH [OF k'(1)] obtain es1 es2 where
      "es = es1 @ e # es2" "k' = length (ies_bytes es1)" "P e" "list_all (\<lambda>e. \<not> P e) es1" by blast
    with False k'(2) show ?thesis by (intro exI [of _ "a # es1"] exI [of _ es2]) simp
  qed
qed simp

lemma ie_find_None: "ie_find P es = None \<longleftrightarrow> list_all (\<lambda>e. \<not> P e) es"
  by (induction es) auto

lemma get_ie_loop_els:
  assumes "list_all ie_ok es" and "es \<noteq> []"
  shows "get_ie_loop (pre @ ies_bytes es @ post) (uint eid) (i + int (length (ies_bytes es))) (int (length pre)) i =
    Some (case ie_find (\<lambda>e. fst e = eid) es of
            None \<Rightarrow> (None, 0)
          | Some (k, e) \<Rightarrow> (Some (int (length pre + k)), int (length (snd e))))"
  using assms
proof (induction es arbitrary: pre i)
  case (Cons e es)
  have len: "uint (of_nat (length (snd e)) :: byte) = int (length (snd e))"
    using Cons.prems(1) by (simp add: uint_len_byte ie_ok_def)
  note rd = rd_ie [of pre e "ies_bytes es @ post"]
  show ?case
  proof (cases "es = []")
    case True
    then show ?thesis using rd len by (subst get_ie_loop.simps) (simp add: word_uint_eq_iff)
  next
    case False
    then have "\<not> length (ies_bytes es) \<le> 0" by (cases es) (auto simp: ie_bytes_def)
    then have cont: "\<not> i + int (length (ie_bytes e @ ies_bytes es)) \<le> i + (int (length (snd e)) + 2)" by simp
    have IH: "get_ie_loop (pre @ ie_bytes e @ ies_bytes es @ post) (uint eid)
        (i + int (length (ie_bytes e @ ies_bytes es))) (int (length pre) + (int (length (snd e)) + 2))
        (i + (int (length (snd e)) + 2)) =
      Some (case ie_find (\<lambda>e. fst e = eid) es of
            None \<Rightarrow> (None, 0)
          | Some (k, e') \<Rightarrow> (Some (int (length (pre @ ie_bytes e) + k)), int (length (snd e'))))"
      using Cons.IH [of "pre @ ie_bytes e" "i + (int (length (snd e)) + 2)"] Cons.prems(1) False
      by (simp add: algebra_simps)
    have "uint (fst e) = uint eid \<longleftrightarrow> fst e = eid" by (simp add: word_uint_eq_iff)
    then show ?thesis
      using rd len cont IH by (subst get_ie_loop.simps) (auto split: option.splits simp: algebra_simps)
  qed
qed simp

text \<open>
  An element matches when its identifier does and its data begin with the OUI; the
  comparison reads \<open>oui_len\<close> data bytes of every element with the identifier.
\<close>

definition ie_match :: "byte \<Rightarrow> byte list option \<Rightarrow> nat \<Rightarrow> ie \<Rightarrow> bool" where
  "ie_match eid oui n e \<longleftrightarrow>
     fst e = eid \<and> (case oui of None \<Rightarrow> True | Some v \<Rightarrow> take n (snd e) = take n v)"

definition oui_ok :: "byte \<Rightarrow> byte list option \<Rightarrow> nat \<Rightarrow> ie list \<Rightarrow> bool" where
  "oui_ok eid oui n es \<longleftrightarrow>
     (case oui of None \<Rightarrow> True
      | Some v \<Rightarrow> n \<le> length v \<and> list_all (\<lambda>e. fst e = eid \<longrightarrow> n \<le> length (snd e)) es)"

lemma rtw_memcmp_ie:
  assumes "n \<le> length (snd e)" and "n \<le> length v"
  shows "rtw_memcmp (pre @ ie_bytes e @ post) (int (length pre) + 2) v (int n) = Some (take n (snd e) = take n v)"
proof -
  have "rd_bytes (pre @ ie_bytes e @ post) (int (length pre) + 2) (int n) = Some (take n (snd e))"
    using rd_bytes_nat [of "length pre + 2" n "pre @ ie_bytes e @ post"] assms(1)
    by (simp add: ie_bytes_def add.commute)
  moreover have "rd_bytes v 0 (int n) = Some (take n v)"
    using rd_bytes_nat [of 0 n v] assms(2) by simp
  ultimately show ?thesis by (simp add: rtw_memcmp_def)
qed

lemma get_ie_ex_loop_els:
  assumes "list_all ie_ok es" and "oui_ok eid oui n es"
  shows "get_ie_ex_loop (pre @ ies_bytes es @ post) (int (length pre) - cnt) (cnt + int (length (ies_bytes es)))
      eid oui (int n) cnt =
    Some (map_option (\<lambda>(k, e). cnt + int k) (ie_find (ie_match eid oui n) es))"
  using assms
proof (induction es arbitrary: pre cnt)
  case Nil
  then show ?case by (subst get_ie_ex_loop.simps) simp
next
  case (Cons e es)
  have len: "uint (of_nat (length (snd e)) :: byte) = int (length (snd e))"
    using Cons.prems(1) by (simp add: uint_len_byte ie_ok_def)
  note rd = rd_ie [of pre e "ies_bytes es @ post"]
  have hit: "(if eid = fst e then
        (case oui of None \<Rightarrow> Some True
         | Some v \<Rightarrow> rtw_memcmp (pre @ ie_bytes e @ ies_bytes es @ post) (int (length pre) + 2) v (int n))
      else Some False) = Some (ie_match eid oui n e)"
    using Cons.prems(2) rtw_memcmp_ie [of n e _ pre "ies_bytes es @ post"]
    by (auto simp: ie_match_def oui_ok_def split: option.splits)
  have "oui_ok eid oui n es" using Cons.prems(2) by (auto simp: oui_ok_def split: option.splits)
  then have IH: "get_ie_ex_loop (pre @ ie_bytes e @ ies_bytes es @ post) (int (length pre) - cnt)
      (cnt + int (length (ie_bytes e @ ies_bytes es))) eid oui (int n) (cnt + (int (length (snd e)) + 2)) =
    Some (map_option (\<lambda>(k, e'). cnt + (int (length (snd e)) + 2) + int k) (ie_find (ie_match eid oui n) es))"
    using Cons.IH [of "pre @ ie_bytes e" "cnt + (int (length (snd e)) + 2)"] Cons.prems(1)
    by (simp add: algebra_simps)
  have "ie_match eid oui n e \<Longrightarrow> fst e = eid" by (simp add: ie_match_def)
  then show ?case
    using rd hit len IH
    by (cases oui; cases "fst e = eid"; subst get_ie_ex_loop.simps)
       (auto simp: option.map_comp comp_def case_prod_unfold algebra_simps)
qed

lemma rtw_get_ie_els:
  assumes "list_all ie_ok es"
  shows "rtw_get_ie (pre @ ies_bytes es @ post) (int (length pre)) (uint eid) 0 (int (length (ies_bytes es))) =
    Some (case ie_find (\<lambda>e. fst e = eid) es of
            None \<Rightarrow> (None, 0)
          | Some (k, e) \<Rightarrow> (Some (int (length pre + k)), int (length (snd e))))"
proof (cases es)
  case (Cons e es')
  then show ?thesis
    using get_ie_loop_els [OF assms, of pre post eid 0] by (simp add: rtw_get_ie_def)
qed (simp add: rtw_get_ie_def)

lemma rtw_get_ie_ex_els:
  assumes "list_all ie_ok es" and "oui_ok eid oui n es"
  shows "rtw_get_ie_ex (pre @ ies_bytes es @ post) (Some (int (length pre))) (int (length (ies_bytes es)))
      eid oui (int n) None =
    Some (case ie_find (ie_match eid oui n) es of
            None \<Rightarrow> (None, None, 0)
          | Some (k, e) \<Rightarrow> (Some (int (length pre + k)), None, int (length (ie_bytes e))))"
proof (cases "ie_find (ie_match eid oui n) es")
  case None
  then show ?thesis
    using get_ie_ex_loop_els [OF assms, of pre post 0] by (simp add: rtw_get_ie_ex_def)
next
  case (Some ke)
  obtain k e where ke: "ke = (k, e)" by (cases ke)
  obtain es1 es2 where es: "es = es1 @ e # es2" "k = length (ies_bytes es1)"
    using ie_find_Some Some ke by blast
  have "uint (of_nat (length (snd e)) :: byte) = int (length (snd e))"
    using assms(1) es(1) by (simp add: uint_len_byte ie_ok_def)
  moreover have "rd (pre @ ies_bytes es @ post) (int (length pre) + int k + 1) = Some (of_nat (length (snd e)))"
    using rd_ie(2) [of "pre @ ies_bytes es1" e "ies_bytes es2 @ post"] es by simp
  moreover have "\<not> int (length (ies_bytes es)) \<le> 0" using es(1) by simp
  ultimately show ?thesis
    using get_ie_ex_loop_els [OF assms, of pre post 0] Some ke by (simp add: rtw_get_ie_ex_def)
qed

section \<open>The interface of the searches\<close>

text \<open>What the clients of the searches use: the first element with the identifier is found.\<close>

locale ie_search =
  fixes search :: "byte list \<Rightarrow> nat \<Rightarrow> byte \<Rightarrow> nat \<Rightarrow> nat option option"
  assumes search_els: "list_all ie_ok es \<Longrightarrow>
    search (pre @ ies_bytes es @ post) (length pre) eid (length (ies_bytes es)) =
      Some (map_option (\<lambda>(k, e). length pre + k) (ie_find (\<lambda>e. fst e = eid) es))"
begin

lemma search_first:
  assumes "list_all ie_ok (es1 @ (eid, d) # es2)" and "eid \<notin> fst ` set es1"
  shows "search (pre @ ies_bytes (es1 @ (eid, d) # es2) @ post) (length pre) eid
      (length (ies_bytes (es1 @ (eid, d) # es2))) = Some (Some (length pre + length (ies_bytes es1)))"
proof -
  have "ie_find (\<lambda>e. fst e = eid) (es1 @ (eid, d) # es2) = Some (length (ies_bytes es1), (eid, d))"
    using assms(2) by (induction es1) auto
  then show ?thesis using search_els [OF assms(1), of pre post eid] by simp
qed

lemma search_absent:
  assumes "list_all ie_ok es"
  shows "search (pre @ ies_bytes es @ post) (length pre) eid (length (ies_bytes es)) = Some None
    \<longleftrightarrow> eid \<notin> fst ` set es"
  using search_els [OF assms, of pre post eid] ie_find_None [of "\<lambda>e. fst e = eid" es]
  by (auto simp: list_all_iff)

end

interpretation get_ie: ie_search
  "\<lambda>mem p eid limit. map_option (map_option nat \<circ> fst) (rtw_get_ie mem (int p) (uint eid) 0 (int limit))"
  by unfold_locales (auto simp: rtw_get_ie_els split: option.splits)

interpretation get_ie_ex: ie_search
  "\<lambda>mem p eid limit. map_option (map_option nat \<circ> fst) (rtw_get_ie_ex mem (Some (int p)) (int limit) eid None 0 None)"
proof unfold_locales
  fix es pre post eid
  assume ok: "list_all ie_ok es"
  have "ie_match eid None 0 = (\<lambda>e. fst e = eid)" by (auto simp: ie_match_def)
  then show "map_option (map_option nat \<circ> fst)
       (rtw_get_ie_ex (pre @ ies_bytes es @ post) (Some (int (length pre))) (int (length (ies_bytes es))) eid None 0 None) =
      Some (map_option (\<lambda>(k, e). length pre + k) (ie_find (\<lambda>e. fst e = eid) es))"
    using rtw_get_ie_ex_els [OF ok, of eid None 0 pre post] by (auto simp: oui_ok_def split: option.splits)
qed

section \<open>Writing\<close>

lemma rtw_set_ie_writes:
  assumes "p + unat l + 2 \<le> length mem" and "unat l \<le> 255" and "unat l \<le> length source"
  shows "rtw_set_ie mem (int p) idx l source frlen =
    Some (int (p + unat l + 2), frlen + (l + 2), overlay mem p (ie_bytes (word_of_int idx, take (unat l) source)))"
proof -
  let ?a = "word_of_int idx :: byte" and ?b = "ucast l :: byte"
  have w1: "wr_bytes mem (int p) [?a] = Some (overlay mem p [?a])"
    using wr_bytes_nat [of p "[?a]" mem] assms(1) by simp
  have w2: "wr_bytes (overlay mem p [?a]) (int p + 1) [?b] = Some (overlay mem p [?a, ?b])"
    using wr_bytes_nat [of "p + 1" "[?b]" "overlay mem p [?a]"] overlay_append [of p "[?a]" "[?b]" mem] assms(1)
    by (simp add: length_overlay add.commute)
  show ?thesis
  proof (cases "l = 0")
    case True
    with w1 w2 show ?thesis by (simp add: rtw_set_ie_def ie_bytes_def)
  next
    case False
    have r: "rd_bytes source 0 (uint l) = Some (take (unat l) source)"
      using rd_bytes_nat [of 0 "unat l" source] assms(3) by simp
    have w3: "wr_bytes (overlay mem p [?a, ?b]) (int p + 2) (take (unat l) source) =
        Some (overlay mem p ([?a, ?b] @ take (unat l) source))"
      using wr_bytes_nat [of "p + 2" "take (unat l) source" "overlay mem p [?a, ?b]"]
        overlay_append [of p "[?a, ?b]" "take (unat l) source" mem] assms
      by (simp add: length_overlay add.commute)
    from False have "0 < l" by (simp add: word_neq_0_conv)
    with w1 w2 w3 r assms(3) show ?thesis by (simp add: rtw_set_ie_def ie_bytes_def)
  qed
qed

text \<open>A sequence of calls, each at the pointer the call before returned.\<close>

fun set_ies :: "byte list \<Rightarrow> int \<Rightarrow> u32 \<Rightarrow> ie list \<Rightarrow> (int \<times> u32 \<times> byte list) option" where
  "set_ies mem p frlen [] = Some (p, frlen, mem)"
| "set_ies mem p frlen (e # es) = do {
     (p, frlen, mem) \<leftarrow> rtw_set_ie mem p (uint (fst e)) (of_nat (length (snd e))) (snd e) frlen;
     set_ies mem p frlen es
   }"

lemma set_ies_writes:
  assumes "list_all ie_ok es" and "p + length (ies_bytes es) \<le> length mem"
  shows "set_ies mem (int p) frlen es =
    Some (int (p + length (ies_bytes es)), frlen + of_nat (length (ies_bytes es)), overlay mem p (ies_bytes es))"
  using assms
proof (induction es arbitrary: p mem frlen)
  case Nil
  then show ?case by (simp add: overlay_def)
next
  case (Cons e es)
  have l: "unat (of_nat (length (snd e)) :: u32) = length (snd e)"
    using Cons.prems(1) by (simp add: unat_of_nat_u32 ie_ok_def)
  have e: "rtw_set_ie mem (int p) (uint (fst e)) (of_nat (length (snd e))) (snd e) frlen =
      Some (int (p + length (ie_bytes e)), frlen + of_nat (length (ie_bytes e)), overlay mem p (ie_bytes e))"
    using rtw_set_ie_writes [of p "of_nat (length (snd e))" mem "snd e" "uint (fst e)" frlen] Cons.prems l
    by (simp add: ie_ok_def)
  have "set_ies (overlay mem p (ie_bytes e)) (int (p + length (ie_bytes e))) (frlen + of_nat (length (ie_bytes e))) es =
      Some (int (p + length (ie_bytes e) + length (ies_bytes es)),
        frlen + of_nat (length (ie_bytes e)) + of_nat (length (ies_bytes es)),
        overlay (overlay mem p (ie_bytes e)) (p + length (ie_bytes e)) (ies_bytes es))"
    using Cons.prems by (intro Cons.IH) (simp_all add: length_overlay)
  with e Cons.prems(2) overlay_append [of p "ie_bytes e" "ies_bytes es" mem] show ?case
    by (simp add: algebra_simps)
qed

section \<open>Removal\<close>

lemma remove_ie_loop_els:
  assumes "list_all ie_ok es" and "oui_ok eid oui n es" and "length (ies_bytes es) \<le> 768"
    and "int (length (ies_bytes es)) \<le> ies_len" and "ies_len < 2 ^ 32"
  shows "\<exists>post'. remove_ie_loop (pre @ ies_bytes es @ post) (int (length pre)) (int (length (ies_bytes es)))
      ies_len eid oui (int n) ret =
    Some (if list_ex (ie_match eid oui n) es then SUCCESS else ret,
      ies_len - int (length (ies_bytes (filter (ie_match eid oui n) es))),
      pre @ ies_bytes (filter (\<lambda>e. \<not> ie_match eid oui n e) es) @ post')"
  using assms
proof (induction "length es" arbitrary: es pre post ies_len ret rule: less_induct)
  case less
  let ?P = "ie_match eid oui n"
  note get = rtw_get_ie_ex_els [OF less.prems(1,2), of pre post]
  show ?case
  proof (cases "ie_find ?P es")
    case None
    then have "list_all (\<lambda>e. \<not> ?P e) es" by (simp add: ie_find_None)
    then have "filter ?P es = []" "filter (\<lambda>e. \<not> ?P e) es = es" "\<not> list_ex ?P es"
      by (auto simp: list_all_iff list_ex_iff filter_id_conv filter_empty_conv)
    with get None show ?thesis by (subst remove_ie_loop.simps) simp
  next
    case (Some ke)
    obtain k e where ke: "ke = (k, e)" by (cases ke)
    obtain es1 es2 where es: "es = es1 @ e # es2" "k = length (ies_bytes es1)" "?P e" "list_all (\<lambda>e. \<not> ?P e) es1"
      using ie_find_Some Some ke by blast
    let ?t = "length pre + k" and ?m = "pre @ ies_bytes es @ post"
    let ?r = "ies_bytes es2" and ?tail = "drop (length (ies_bytes es2)) (ie_bytes e @ ies_bytes es2) @ post"
    have len: "int (length (ies_bytes es)) - (int ?t + int (length (ie_bytes e)) - int (length pre)) = int (length ?r)"
      using es by simp
    have rl: "(int (length (ies_bytes es)) - (int ?t + int (length (ie_bytes e)) - int (length pre))) mod 2 ^ 32 = int (length ?r)"
      unfolding len using less.prems(3) es by (intro mod_pos_pos_trivial) simp_all
    have rd: "rd_bytes ?m (int ?t + int (length (ie_bytes e))) (int (length ?r)) = Some ?r"
      using rd_bytes_mid [of "pre @ ies_bytes es1 @ ie_bytes e" ?r post] es by (simp add: algebra_simps)
    have wr: "wr_bytes ?m (int ?t) ?r = Some ((pre @ ies_bytes es1) @ ?r @ ?tail)"
      using wr_bytes_nat [of ?t ?r ?m] es by (simp add: overlay_def)
    have il: "(ies_len - int (length (ie_bytes e))) mod 2 ^ 32 = ies_len - int (length (ie_bytes e))"
      using less.prems(4,5) es(1) by (intro mod_pos_pos_trivial) simp_all
    have filt: "filter ?P es1 = []" "filter (\<lambda>e. \<not> ?P e) es1 = es1"
      using es(4) by (auto simp: list_all_iff filter_id_conv filter_empty_conv)
    obtain post' where IH: "remove_ie_loop ((pre @ ies_bytes es1) @ ?r @ ?tail) (int (length (pre @ ies_bytes es1)))
          (int (length ?r)) (ies_len - int (length (ie_bytes e))) eid oui (int n) SUCCESS =
        Some (if list_ex ?P es2 then SUCCESS else SUCCESS,
          ies_len - int (length (ie_bytes e)) - int (length (ies_bytes (filter ?P es2))),
          (pre @ ies_bytes es1) @ ies_bytes (filter (\<lambda>e. \<not> ?P e) es2) @ post')"
      using less.hyps [of es2 "ies_len - int (length (ie_bytes e))" "pre @ ies_bytes es1" ?tail SUCCESS]
        less.prems es by (auto simp: oui_ok_def split: option.splits)
    have "remove_ie_loop ?m (int (length pre)) (int (length (ies_bytes es))) ies_len eid oui (int n) ret =
        remove_ie_loop ((pre @ ies_bytes es1) @ ?r @ ?tail) (int ?t)
          (int (length ?r)) (ies_len - int (length (ie_bytes e))) eid oui (int n) SUCCESS"
      using get Some ke rl rd wr il less.prems(3) es
      by (subst remove_ie_loop.simps) (simp add: MAX_IE_SZ_def Let_def)
    with IH es filt show ?thesis by (auto simp: algebra_simps)
  qed
qed

section \<open>The parser on sequences of elements\<close>

text \<open>The field an element is stored in.\<close>

definition vendor_field :: "byte list \<Rightarrow> elem_field option" where
  "vendor_field d =
     (if length d < 4 then None
      else if RTW_GET_BE24 d = OUI_MICROSOFT then
        (if d ! 3 = 1 then Some EL_wpa_ie
         else if d ! 3 = 2 then
           (if length d < 5 then None
            else if d ! 4 = 0 \<or> d ! 4 = 1 then Some EL_wme
            else if d ! 4 = 2 then Some EL_wme_tspec else None)
         else if d ! 3 = 4 then Some EL_wps_ie else None)
      else if RTW_GET_BE24 d = OUI_BROADCOM then (if d ! 3 = 0x33 then Some EL_vendor_ht_cap else None)
      else None)"

definition ie_field :: "ie \<Rightarrow> elem_field option" where
  "ie_field e = (if fst e = WLAN_EID_VENDOR_SPECIFIC then vendor_field (snd e) else eid_field (fst e))"

text \<open>The structure after the elements from offset \<open>p\<close> on.\<close>

fun parsed :: "int \<Rightarrow> ie list \<Rightarrow> elems \<Rightarrow> elems" where
  "parsed p [] m = m"
| "parsed p (e # es) m =
     parsed (p + int (length (ie_bytes e))) es
       (case ie_field e of None \<Rightarrow> m | Some f \<Rightarrow> m(f \<mapsto> (p + 2, of_nat (length (snd e)))))"

lemma parse_elem_ie:
  assumes "ie_ok e"
  shows "parse_elem (pre @ ie_bytes e @ post) (int (length pre) + 2) (fst e) (of_nat (length (snd e))) m =
    Some (case ie_field e of
            None \<Rightarrow> (False, m)
          | Some f \<Rightarrow> (True, m(f \<mapsto> (int (length pre) + 2, of_nat (length (snd e))))))"
proof (cases "fst e = WLAN_EID_VENDOR_SPECIFIC")
  case True
  let ?d = "snd e" and ?l = "of_nat (length (snd e)) :: byte" and ?M = "pre @ ie_bytes e @ post"
  have lt: "?l < 4 \<longleftrightarrow> length ?d < 4" "?l < 5 \<longleftrightarrow> length ?d < 5"
    using assms by (simp_all add: word_less_nat_alt unat_len_byte ie_ok_def)
  have r4: "rd_bytes ?M (int (length pre) + 2) 4 = Some (take 4 ?d)" if "4 \<le> length ?d"
    using rd_bytes_nat [of "length pre + 2" 4 ?M] that by (simp add: ie_bytes_def add.commute)
  have r1: "rd ?M (int (length pre) + 2 + 4) = Some (?d ! 4)" if "5 \<le> length ?d"
    using rd_nat [of "length pre + 6" ?M] that by (simp add: ie_bytes_def nth_append add.commute)
  have be: "RTW_GET_BE24 (take 4 ?d) = RTW_GET_BE24 ?d" by (simp add: RTW_GET_BE24_def)
  show ?thesis
    using True r4 r1
    by (auto simp: parse_elem_def rtw_ieee802_11_parse_vendor_specific_def ie_field_def vendor_field_def lt be Let_def not_less)
next
  case False
  then show ?thesis by (auto simp: parse_elem_def ie_field_def split: option.splits)
qed

lemma parse_loop_els:
  assumes "list_all ie_ok es"
  shows "parse_loop (pre @ ies_bytes es @ post) (int (length pre)) (length (ies_bytes es)) unknown m =
    Some (if unknown \<noteq> 0 \<or> list_ex (\<lambda>e. ie_field e = None) es then ParseUnknown else ParseOK,
      parsed (int (length pre)) es m)"
  using assms
proof (induction es arbitrary: pre unknown m)
  case Nil
  then show ?case by (subst parse_loop.simps) simp
next
  case (Cons e es)
  have ok: "ie_ok e" using Cons.prems by simp
  have len: "unat (of_nat (length (snd e)) :: byte) = length (snd e)"
      "uint (of_nat (length (snd e)) :: byte) = int (length (snd e))"
    using ok by (simp_all add: unat_len_byte uint_len_byte ie_ok_def)
  note rd = rd_ie [of pre e "ies_bytes es @ post"]
  note pe = parse_elem_ie [OF ok, of pre "ies_bytes es @ post" m]
  have IH: "parse_loop (pre @ ie_bytes e @ ies_bytes es @ post) (int (length pre) + 2 + int (length (snd e)))
      (length (ies_bytes es)) u m' =
    Some (if u \<noteq> 0 \<or> list_ex (\<lambda>e. ie_field e = None) es then ParseUnknown else ParseOK,
      parsed (int (length pre) + int (length (ie_bytes e))) es m')" for u m'
    using Cons.IH [of "pre @ ie_bytes e" u m'] Cons.prems by (simp add: algebra_simps)
  show ?case
    using rd pe len IH by (subst parse_loop.simps) (auto split: option.splits)
qed

lemma parsed_append: "parsed p (es @ fs) m = parsed (p + int (length (ies_bytes es))) fs (parsed p es m)"
  by (induction es arbitrary: p m) (auto simp: algebra_simps split: option.splits)

lemma parsed_other: "list_all (\<lambda>e. ie_field e \<noteq> Some f) es \<Longrightarrow> parsed p es m f = m f"
  by (induction es arbitrary: p m) (auto split: option.splits)

text \<open>Every field stays inside of the bytes that were parsed.\<close>

definition elems_in :: "int \<Rightarrow> int \<Rightarrow> elems \<Rightarrow> bool" where
  "elems_in lo hi m \<longleftrightarrow> (\<forall>f pos l. m f = Some (pos, l) \<longrightarrow> lo \<le> pos \<and> pos + uint l \<le> hi)"

lemma parse_elem_safe:
  assumes "elems_in lo hi m" and "lo \<le> pos" and "0 \<le> pos" and "pos + uint elen \<le> hi" and "hi \<le> int (length mem)"
  shows "\<exists>k m'. parse_elem mem pos eid elen m = Some (k, m') \<and> elems_in lo hi m'"
proof -
  have el: "4 \<le> uint elen" if "\<not> elen < 4" using that by (simp add: word_less_def not_less)
  have el5: "5 \<le> uint elen" if "\<not> elen < 5" using that by (simp add: word_less_def not_less)
  have r4: "\<exists>b. rd_bytes mem pos 4 = Some b" if "\<not> elen < 4"
    using el [OF that] assms by (simp add: rd_bytes_def in_buf_def)
  have r1: "\<exists>b. rd mem (pos + 4) = Some b" if "\<not> elen < 5"
    using el5 [OF that] assms by (simp add: rd_def)
  have upd: "elems_in lo hi (m(f \<mapsto> (pos, elen)))" for f
    using assms(1,2,4) by (simp add: elems_in_def)
  show ?thesis
    using assms(1) r4 r1 upd
    by (cases "elen < 4"; cases "elen < 5")
       (auto simp: parse_elem_def rtw_ieee802_11_parse_vendor_specific_def Let_def split: option.splits)
qed

lemma parse_loop_safe:
  assumes "elems_in lo hi m" and "lo \<le> pos" and "0 \<le> pos" and "pos + int left = hi" and "hi \<le> int (length mem)"
  shows "\<exists>res m'. parse_loop mem pos left unknown m = Some (res, m') \<and> elems_in lo hi m'"
  using assms
proof (induction left arbitrary: pos unknown m rule: less_induct)
  case (less left)
  show ?case
  proof (cases "2 \<le> left")
    case True
    obtain eid elen where rd: "rd mem pos = Some eid" "rd mem (pos + 1) = Some elen"
      using True less.prems by (auto simp: rd_def)
    have un: "int (unat elen) = uint elen" by simp
    show ?thesis
    proof (cases "unat elen > left - 2")
      case True
      with rd \<open>2 \<le> left\<close> less.prems(1) show ?thesis by (subst parse_loop.simps) auto
    next
      case False
      then have "pos + 2 + uint elen \<le> hi" using less.prems(4) \<open>2 \<le> left\<close> un by linarith
      then obtain k m' where pe: "parse_elem mem (pos + 2) eid elen m = Some (k, m')" "elems_in lo hi m'"
        using parse_elem_safe [OF less.prems(1), of "pos + 2" elen mem eid] less.prems by auto
      have "\<exists>res m''. parse_loop mem (pos + 2 + uint elen) (left - 2 - unat elen) (if k then unknown else unknown + 1) m'
          = Some (res, m'') \<and> elems_in lo hi m''"
      proof (rule less.IH)
        show "left - 2 - unat elen < left" using True by simp
        show "pos + 2 + uint elen + int (left - 2 - unat elen) = hi"
          using less.prems(4) True False un by linarith
      qed (use pe(2) less.prems in \<open>simp_all add: add_nonneg_nonneg order_trans [OF less.prems(2)]\<close>)
      with rd True False pe(1) show ?thesis by (subst parse_loop.simps) auto
    qed
  next
    case False
    with less.prems(1) show ?thesis by (subst parse_loop.simps) auto
  qed
qed

section \<open>Properties\<close>

text \<open>
  C14 (round trip of information elements).  Elements written one after the other with \<open>rtw_set_ie\<close> are found
  by \<open>rtw_get_ie\<close>: the first element with the identifier is returned with its length, its data
  are behind the two header bytes, and the frame length has grown by the bytes written.
\<close>

theorem ie_written_found:
  assumes "list_all ie_ok es" and "p + length (ies_bytes es) \<le> length mem"
    and "es = es1 @ (eid, d) # es2" and "eid \<notin> fst ` set es1"
  shows "\<exists>mem'. set_ies mem (int p) frlen es =
      Some (int (p + length (ies_bytes es)), frlen + of_nat (length (ies_bytes es)), mem') \<and>
    rtw_get_ie mem' (int p) (uint eid) 0 (int (length (ies_bytes es))) =
      Some (Some (int (p + length (ies_bytes es1))), int (length d)) \<and>
    rd_bytes mem' (int (p + length (ies_bytes es1) + 2)) (int (length d)) = Some d"
proof -
  let ?pre = "take p mem" and ?post = "drop (p + length (ies_bytes es)) mem"
  let ?mem = "overlay mem p (ies_bytes es)"
  have mem': "?mem = ?pre @ ies_bytes es @ ?post" by (simp add: overlay_def)
  have lp: "length ?pre = p" using assms(2) by simp
  have "ie_find (\<lambda>e. fst e = eid) es = Some (length (ies_bytes es1), (eid, d))"
    unfolding assms(3) using assms(4) by (induction es1) auto
  then have "rtw_get_ie ?mem (int p) (uint eid) 0 (int (length (ies_bytes es))) =
      Some (Some (int (p + length (ies_bytes es1))), int (length d))"
    unfolding mem' using rtw_get_ie_els [OF assms(1), of ?pre ?post eid] lp by simp
  moreover have "rd_bytes ?mem (int (p + length (ies_bytes es1) + 2)) (int (length d)) = Some d"
    unfolding mem' using rd_bytes_mid [of "?pre @ ies_bytes es1 @ [eid, of_nat (length d)]" d "ies_bytes es2 @ ?post"] lp assms(3)
    by (simp add: ie_bytes_def)
  ultimately show ?thesis using set_ies_writes [OF assms(1,2), of frlen] by blast
qed

theorem ie_written_found_witness:
  "\<exists>mem'. set_ies (replicate 16 0) (int 2) 12 [(0, [0x61, 0x62]), (3, [11])] = Some (int 9, 12 + of_nat 7, mem') \<and>
    rtw_get_ie mem' (int 2) (uint (3 :: byte)) 0 (int 7) = Some (Some (int 6), int 1) \<and>
    rd_bytes mem' (int 8) (int 1) = Some [11]"
proof -
  let ?es = "[(0, [0x61, 0x62]), (3, [11])] :: ie list"
  have len: "length (ies_bytes ?es) = 7" "length (ies_bytes [(0, [0x61, 0x62 :: byte])]) = 4" "length [11 :: byte] = 1"
    by simp_all
  have "list_all ie_ok ?es" "2 + length (ies_bytes ?es) \<le> length (replicate 16 (0 :: byte))"
    "?es = [(0, [0x61, 0x62])] @ (3, [11]) # []" "3 \<notin> fst ` set [(0, [0x61, 0x62 :: byte]) :: ie]"
    by (simp_all add: ie_ok_def)
  from ie_written_found [OF this, of 12] show ?thesis unfolding len by simp
qed

text \<open>
  C15 (removal).  For elements of at most \<open>MAX_IE_SZ\<close> bytes behind an offset, \<open>rtw_ies_remove_ie\<close> removes
  exactly the elements with the identifier and the OUI, keeps the others in order, shortens the length
  by the bytes removed and reports \<open>_SUCCESS\<close> exactly when there was one.
\<close>

theorem ies_remove_filters:
  assumes "list_all ie_ok es" and "oui_ok eid oui n es" and "length (ies_bytes es) \<le> 768"
    and "es \<noteq> []" and "length pre \<le> 2 ^ 31"
  shows "\<exists>rest. rtw_ies_remove_ie (pre @ ies_bytes es) (int (length (pre @ ies_bytes es))) (int (length pre))
      eid oui (int n) =
    Some (if list_ex (ie_match eid oui n) es then SUCCESS else FAIL,
      int (length (pre @ ies_bytes (filter (\<lambda>e. \<not> ie_match eid oui n e) es))),
      pre @ ies_bytes (filter (\<lambda>e. \<not> ie_match eid oui n e) es) @ rest)"
proof -
  let ?P = "ie_match eid oui n"
  have ne: "\<not> int (length (pre @ ies_bytes es)) \<le> int (length pre)" using assms(4) by (cases es) auto
  have split: "length (ies_bytes es) = length (ies_bytes (filter ?P es)) + length (ies_bytes (filter (\<lambda>e. \<not> ?P e) es))" for es
    by (induction es) auto
  have bnd: "int (length (pre @ ies_bytes es)) < 2 ^ 32" using assms(3,5) by simp
  obtain post' where "remove_ie_loop (pre @ ies_bytes es @ []) (int (length pre)) (int (length (ies_bytes es)))
      (int (length (pre @ ies_bytes es))) eid oui (int n) FAIL =
    Some (if list_ex ?P es then SUCCESS else FAIL,
      int (length (pre @ ies_bytes es)) - int (length (ies_bytes (filter ?P es))),
      pre @ ies_bytes (filter (\<lambda>e. \<not> ?P e) es) @ post')"
    using remove_ie_loop_els [OF assms(1-3) _ bnd, of pre "[]" FAIL] by auto
  then show ?thesis using ne split [of es] by (auto simp: rtw_ies_remove_ie_def)
qed

theorem ies_remove_filters_witness:
  "\<exists>rest. rtw_ies_remove_ie ([7, 7] @ ies_bytes [(221, [1, 2]), (3, [11]), (221, [1, 9])]) 13 2 221 (Some [1, 2]) 2 =
     Some (SUCCESS, 9, [7, 7] @ ies_bytes [(3, [11]), (221, [1, 9])] @ rest)"
  using ies_remove_filters [of "[(221, [1, 2]), (3, [11]), (221, [1, 9])]" 221 "Some [1, 2]" 2 "[7, 7]"]
  by (simp add: ie_ok_def oui_ok_def ie_match_def)

text \<open>
  C16 (memory safety of the parser).  Whatever the bytes are, \<open>rtw_ieee802_11_parse_elems\<close> returns, reads only
  the \<open>len\<close> bytes it is given, and every pointer it stores stays inside of them together with its length.
\<close>

theorem parse_elems_safe:
  assumes "0 \<le> start" and "start + int len \<le> int (length mem)"
  shows "\<exists>res m. rtw_ieee802_11_parse_elems (take (nat start + len) mem) start len = Some (res, m) \<and>
    elems_in start (start + int len) m"
proof -
  have "elems_in start (start + int len) Map.empty" by (simp add: elems_in_def)
  from parse_loop_safe [OF this order_refl assms(1) refl, of "take (nat start + len) mem" 0] assms
  show ?thesis by (simp add: rtw_ieee802_11_parse_elems_def min_def nat_le_iff)
qed

theorem parse_elems_safe_witness:
  "\<exists>res m. rtw_ieee802_11_parse_elems (take (nat 1 + 3) [9, 221, 200, 0, 0x50]) 1 3 = Some (res, m) \<and>
    elems_in 1 (1 + int 3) m"
  using parse_elems_safe [of 1 3 "[9, 221, 200, 0, 0x50]"] by simp

text \<open>
  C17 (what the parser returns).  On a sequence of elements the parser reports \<open>ParseOK\<close> exactly when it knows
  all of them and \<open>ParseUnknown\<close> otherwise; each field points to the data of the last element that
  belongs in it, with their length, and is NULL when there is none.
\<close>

theorem parse_elems_last:
  assumes "list_all ie_ok es"
  shows "\<exists>m. rtw_ieee802_11_parse_elems (pre @ ies_bytes es @ post) (int (length pre)) (length (ies_bytes es)) =
      Some (if list_ex (\<lambda>e. ie_field e = None) es then ParseUnknown else ParseOK, m) \<and>
    (\<forall>f es1 e es2. es = es1 @ e # es2 \<and> ie_field e = Some f \<and> list_all (\<lambda>e. ie_field e \<noteq> Some f) es2
       \<longrightarrow> m f = Some (int (length (pre @ ies_bytes es1) + 2), of_nat (length (snd e)))) \<and>
    (\<forall>f. list_all (\<lambda>e. ie_field e \<noteq> Some f) es \<longrightarrow> m f = None)"
proof -
  let ?m = "parsed (int (length pre)) es Map.empty"
  have "?m f = Some (int (length (pre @ ies_bytes es1) + 2), of_nat (length (snd e)))"
    if "es = es1 @ e # es2" "ie_field e = Some f" "list_all (\<lambda>e. ie_field e \<noteq> Some f) es2" for f es1 e es2
    using that by (simp add: parsed_append parsed_other)
  moreover have "?m f = None" if "list_all (\<lambda>e. ie_field e \<noteq> Some f) es" for f
    using parsed_other [OF that] by simp
  ultimately show ?thesis
    using parse_loop_els [OF assms, of pre post 0 Map.empty] unfolding rtw_ieee802_11_parse_elems_def
    by (intro exI [of _ ?m]) auto
qed

theorem parse_elems_last_witness:
  "\<exists>m. rtw_ieee802_11_parse_elems ([1, 2] @ ies_bytes [(0, [0x61]), (3, [6]), (3, [11])] @ []) (int (length [1, 2 :: byte]))
      (length (ies_bytes [(0, [0x61]), (3, [6]), (3, [11])])) = Some (ParseOK, m) \<and>
    m EL_ds_params = Some (10, 1) \<and> m EL_tim = None"
proof -
  let ?es = "[(0, [0x61]), (3, [6]), (3, [11])] :: ie list"
  have ok: "list_all ie_ok ?es" by (simp add: ie_ok_def)
  have fld: "ie_field (0, [0x61]) = Some EL_ssid" "ie_field (3, [6]) = Some EL_ds_params"
    "ie_field (3, [11]) = Some EL_ds_params"
    by (simp_all add: ie_field_def eid_field_def WLAN_EID_VENDOR_SPECIFIC_def)
  obtain m where m1: "rtw_ieee802_11_parse_elems ([1, 2] @ ies_bytes ?es @ []) (int (length [1, 2 :: byte])) (length (ies_bytes ?es)) =
      Some (if list_ex (\<lambda>e. ie_field e = None) ?es then ParseUnknown else ParseOK, m)"
    and m2: "\<forall>f es1 e es2. ?es = es1 @ e # es2 \<and> ie_field e = Some f \<and> list_all (\<lambda>e. ie_field e \<noteq> Some f) es2
       \<longrightarrow> m f = Some (int (length ([1, 2] @ ies_bytes es1) + 2), of_nat (length (snd e)))"
    and m3: "\<forall>f. list_all (\<lambda>e. ie_field e \<noteq> Some f) ?es \<longrightarrow> m f = None"
    using parse_elems_last [OF ok, of "[1, 2]" "[]"] by (elim exE conjE)
  have "m EL_ds_params = Some (10, 1)" 
    using m2 [rule_format, of "[(0, [0x61]), (3, [6])]" "(3, [11])" "[]" EL_ds_params] fld by simp
  moreover have "m EL_tim = None" using m3 [rule_format, of EL_tim] fld by simp
  ultimately show ?thesis using m1 fld by (intro exI [of _ m]) simp
qed

text \<open>
  A trailing byte: When one byte is left behind the elements and none of them has the identifier,
  \<open>rtw_get_ie\<close> reads the length byte behind the limit it was given.
\<close>

theorem get_ie_reads_past_limit:
  assumes "list_all ie_ok es" and "eid \<notin> fst ` set es"
  shows "rtw_get_ie (ies_bytes es @ [b]) 0 (uint eid) 0 (int (length (ies_bytes es @ [b]))) = None"
proof -
  have "get_ie_loop (pre @ ies_bytes es @ [b]) (uint eid) (i + int (length (ies_bytes es)) + 1) (int (length pre)) i = None" for pre i
    using assms
  proof (induction es arbitrary: pre i)
    case Nil
    then show ?case by (subst get_ie_loop.simps) (simp add: rd_def nth_append)
  next
    case (Cons e es)
    have len: "uint (of_nat (length (snd e)) :: byte) = int (length (snd e))"
      using Cons.prems(1) by (simp add: uint_len_byte ie_ok_def)
    have "get_ie_loop (pre @ ie_bytes e @ ies_bytes es @ [b]) (uint eid)
        (i + (2 + int (length (snd e))) + int (length (ies_bytes es)) + 1) (int (length pre) + (int (length (snd e)) + 2))
        (i + (int (length (snd e)) + 2)) = None"
      using Cons.IH [of "pre @ ie_bytes e" "i + (int (length (snd e)) + 2)"] Cons.prems by (simp add: algebra_simps)
    moreover have "uint (fst e) \<noteq> uint eid" using Cons.prems(2) by (auto simp: word_uint_eq_iff)
    ultimately show ?case
      using rd_ie [of pre e "ies_bytes es @ [b]"] len by (subst get_ie_loop.simps) (simp add: algebra_simps)
  qed
  from this [of "[]" 0] show ?thesis by (simp add: rtw_get_ie_def add.commute)
qed

theorem get_ie_reads_past_limit_witness:
  "rtw_get_ie (ies_bytes [(0, [0x61])] @ [9]) 0 (uint (48 :: byte)) 0 (int (length (ies_bytes [(0, [0x61 :: byte])] @ [9]))) = None"
  by (rule get_ie_reads_past_limit) (simp_all add: ie_ok_def)

text \<open>
  The mesh channel switch parameters.  The element identifier 0x118 that
  \<open>rtw_set_ie_mesh_ch_switch_parm\<close> passes does not fit into the identifier byte: the element
  written has identifier 24 and not 118.
\<close>

theorem mesh_ch_switch_parm_id:
  assumes "p + 8 \<le> length mem"
  shows "\<exists>mem'. rtw_set_ie_mesh_ch_switch_parm mem (int p) frlen ttl flags reason prec = Some (int (p + 8), frlen + 8, mem') \<and>
    rd mem' (int p) = Some 24"
proof -
  let ?d = "[ttl, flags] @ RTW_PUT_LE16 reason @ RTW_PUT_LE16 prec"
  have trunc: "(0x118 :: byte) = 24" by (simp add: word_uint_eq_iff)
  have w: "rtw_set_ie mem (int p) 0x118 6 ?d frlen = Some (int (p + 8), frlen + 8, overlay mem p (ie_bytes (24, ?d)))"
    using rtw_set_ie_writes [where l = 6 and idx = "0x118" and source = ?d and mem = mem and p = p and frlen = frlen] assms trunc by (simp add: RTW_PUT_LE16_def)
  moreover have "rd (overlay mem p (ie_bytes (24, ?d))) (int p) = Some 24"
    using assms nth_overlay [where off = p and xs = "ie_bytes (24, ?d)" and b = mem and i = p]
    by (simp add: rd_def length_overlay RTW_PUT_LE16_def ie_bytes_def)
  ultimately show ?thesis by (simp add: rtw_set_ie_mesh_ch_switch_parm_def)
qed

theorem mesh_ch_switch_parm_id_witness:
  "\<exists>mem'. rtw_set_ie_mesh_ch_switch_parm (replicate 8 0) (int 0) 0 1 2 3 4 = Some (int (0 + 8), 0 + 8, mem') \<and>
    rd mem' (int 0) = Some 24"
  by (rule mesh_ch_switch_parm_id) simp

end
