(* ===== verification/Wps.thy ===== *)
theory Wps
  imports Ie
begin

text \<open>
  Wi-Fi Protected Setup elements of src/core/rtw_ieee80211.c: \<open>rtw_is_wps_ie\<close>,
  \<open>rtw_get_wps_ie\<close>, \<open>rtw_get_wps_attr\<close> and \<open>rtw_get_wps_attr_content\<close>.

  The walk over the attributes advances by a 16-bit length and may not end: it is
  given fuel, and the outcome \<open>Running\<close> says that the fuel was used up.  Shown: on
  a sequence of attributes the first one with the identifier is found with
  fuel for each attribute; an attribute with data length 0xFFFC is never left.
\<close>

datatype 'a outcome = Running | Fault | Returns 'a

definition wps_oui :: "byte list" where "wps_oui = [0x00, 0x50, 0xf2, 0x04]"

section \<open>Operations\<close>

definition rtw_is_wps_ie :: "byte list \<Rightarrow> int option \<Rightarrow> int \<Rightarrow> (bool \<times> int) option" where
  "rtw_is_wps_ie mem ie_ptr wps_ielen =
     (case ie_ptr of
        None \<Rightarrow> Some (False, wps_ielen)
      | Some p \<Rightarrow> do {
          eid \<leftarrow> rd mem p;
          hit \<leftarrow> (if eid = 0xdd then rtw_memcmp mem (p + 2) wps_oui 4 else Some False);
          if hit then do { l \<leftarrow> rd mem (p + 1); Some (True, uint l + 2) } else Some (False, wps_ielen)
        })"

text \<open>The loop of \<open>rtw_get_wps_ie\<close>: the offset found from \<open>in_ie\<close>.\<close>

function get_wps_ie_loop :: "byte list \<Rightarrow> int \<Rightarrow> int \<Rightarrow> int \<Rightarrow> int option option" where
  "get_wps_ie_loop mem in_ie in_len cnt =
     (if cnt < in_len then do {
        eid \<leftarrow> rd mem (in_ie + cnt);
        hit \<leftarrow> (if eid = 0xdd then rtw_memcmp mem (in_ie + cnt + 2) wps_oui 4 else Some False);
        if hit then Some (Some cnt)
        else do {
          l \<leftarrow> rd mem (in_ie + cnt + 1);
          get_wps_ie_loop mem in_ie in_len (cnt + (uint l + 2))
        }
      } else Some None)"
  by pat_completeness auto
termination
proof (relation "measure (\<lambda>(_, _, in_len, cnt). nat (in_len - cnt))")
  fix mem in_ie in_len cnt eid hit and l :: byte
  assume "cnt < (in_len :: int)"
  then show "((mem, in_ie, in_len, cnt + (uint l + 2)), mem, in_ie, in_len, cnt)
      \<in> measure (\<lambda>(_, _, in_len, cnt). nat (in_len - cnt))"
    by (simp only: in_measure case_prod_conv ie_step_decreases)
qed simp

declare get_wps_ie_loop.simps [simp del]

definition rtw_get_wps_ie ::
  "byte list \<Rightarrow> int option \<Rightarrow> int \<Rightarrow> byte list option \<Rightarrow> (int option \<times> byte list option \<times> int) option" where
  "rtw_get_wps_ie mem in_ie in_len wps_ie =
     (case in_ie of
        None \<Rightarrow> Some (None, wps_ie, 0)
      | Some base \<Rightarrow>
          if in_len \<le> 0 then Some (None, wps_ie, 0)
          else do {
            r \<leftarrow> get_wps_ie_loop mem base in_len 0;
            (case r of
               None \<Rightarrow> Some (None, wps_ie, 0)
             | Some cnt \<Rightarrow> do {
                 l \<leftarrow> rd mem (base + cnt + 1);
                 wps_ie \<leftarrow> (case wps_ie of
                          None \<Rightarrow> Some None
                        | Some dst \<Rightarrow> do {
                            s \<leftarrow> rd_bytes mem (base + cnt) (uint l + 2);
                            map_option Some (wr_bytes dst 0 s)
                          });
                 Some (Some (base + cnt), wps_ie, uint l + 2)
               })
          })"

definition RTW_GET_BE16 :: "byte list \<Rightarrow> u16" where
  "RTW_GET_BE16 a = push_bit 8 (ucast (a ! 0)) OR ucast (a ! 1)"

text \<open>The walk over the attributes; \<open>attr_len\<close> is a 16-bit sum.\<close>

fun wps_attr_loop :: "nat \<Rightarrow> byte list \<Rightarrow> int \<Rightarrow> int \<Rightarrow> u16 \<Rightarrow> int \<Rightarrow> (int \<times> u16) option outcome" where
  "wps_attr_loop 0 mem wps_ie wps_ielen target_attr_id attr_ptr = Running"
| "wps_attr_loop (Suc fuel) mem wps_ie wps_ielen target_attr_id attr_ptr =
     (if attr_ptr - wps_ie < wps_ielen then
        case rd_bytes mem attr_ptr 4 of
          None \<Rightarrow> Fault
        | Some h \<Rightarrow>
            let attr_id = RTW_GET_BE16 h;
                attr_data_len = RTW_GET_BE16 (drop 2 h);
                attr_len = attr_data_len + 4
            in if attr_id = target_attr_id then Returns (Some (attr_ptr, attr_len))
               else wps_attr_loop fuel mem wps_ie wps_ielen target_attr_id (attr_ptr + uint attr_len)
      else Returns None)"

text \<open>The result is the address, the destination buffer (or NULL) and \<open>*len_attr\<close>.\<close>

definition rtw_get_wps_attr ::
  "nat \<Rightarrow> byte list \<Rightarrow> int \<Rightarrow> int \<Rightarrow> u16 \<Rightarrow> byte list option \<Rightarrow> (int option \<times> byte list option \<times> int) outcome" where
  "rtw_get_wps_attr fuel mem wps_ie wps_ielen target_attr_id buf_attr =
     (case rd mem wps_ie of
        None \<Rightarrow> Fault
      | Some eid \<Rightarrow>
          case (if eid \<noteq> 221 then Some False else rtw_memcmp mem (wps_ie + 2) wps_oui 4) of
            None \<Rightarrow> Fault
          | Some False \<Rightarrow> Returns (None, buf_attr, 0)
          | Some True \<Rightarrow>
              (case wps_attr_loop fuel mem wps_ie wps_ielen target_attr_id (wps_ie + 6) of
                 Running \<Rightarrow> Running
               | Fault \<Rightarrow> Fault
               | Returns None \<Rightarrow> Returns (None, buf_attr, 0)
               | Returns (Some (attr_ptr, attr_len)) \<Rightarrow>
                   (case buf_attr of
                      None \<Rightarrow> Returns (Some attr_ptr, None, uint attr_len)
                    | Some dst \<Rightarrow>
                        (case do { s \<leftarrow> rd_bytes mem attr_ptr (uint attr_len); wr_bytes dst 0 s } of
                           None \<Rightarrow> Fault
                         | Some dst \<Rightarrow> Returns (Some attr_ptr, Some dst, uint attr_len)))))"

definition rtw_get_wps_attr_content ::
  "nat \<Rightarrow> byte list \<Rightarrow> int \<Rightarrow> int \<Rightarrow> u16 \<Rightarrow> byte list option \<Rightarrow> (int option \<times> byte list option \<times> int) outcome" where
  "rtw_get_wps_attr_content fuel mem wps_ie wps_ielen target_attr_id buf_content =
     (case rtw_get_wps_attr fuel mem wps_ie wps_ielen target_attr_id None of
        Running \<Rightarrow> Running
      | Fault \<Rightarrow> Fault
      | Returns (None, _, _) \<Rightarrow> Returns (None, buf_content, 0)
      | Returns (Some attr_ptr, _, attr_len) \<Rightarrow>
          if attr_len = 0 then Returns (None, buf_content, 0)
          else
            (case buf_content of
               None \<Rightarrow> Returns (Some (attr_ptr + 4), None, (attr_len - 4) mod 2 ^ 32)
             | Some dst \<Rightarrow>
                 (case do { s \<leftarrow> rd_bytes mem (attr_ptr + 4) ((attr_len - 4) mod 2 ^ 32); wr_bytes dst 0 s } of
                    None \<Rightarrow> Fault
                  | Some dst \<Rightarrow> Returns (Some (attr_ptr + 4), Some dst, (attr_len - 4) mod 2 ^ 32))))"

section \<open>The search is an instance of the general one\<close>

lemma get_wps_ie_loop_eq:
  "get_wps_ie_loop mem in_ie in_len cnt = get_ie_ex_loop mem in_ie in_len 0xdd (Some wps_oui) 4 cnt"
proof (induction mem in_ie in_len cnt rule: get_wps_ie_loop.induct)
  case (1 mem in_ie in_len cnt)
  show ?case
    by (subst get_wps_ie_loop.simps, subst get_ie_ex_loop.simps)
       (auto intro!: bind_option_cong simp: 1 split: option.splits)
qed

section \<open>Sequences of attributes\<close>

type_synonym wps_attr = "u16 \<times> byte list"

definition be16_bytes :: "u16 \<Rightarrow> byte list" where
  "be16_bytes v = [ucast (drop_bit 8 v), ucast v]"

definition attr_bytes :: "wps_attr \<Rightarrow> byte list" where
  "attr_bytes a = be16_bytes (fst a) @ be16_bytes (of_nat (length (snd a))) @ snd a"

definition attr_ok :: "wps_attr \<Rightarrow> bool" where
  "attr_ok a \<longleftrightarrow> length (snd a) \<le> 0xFFFB"

lemma RTW_GET_BE16_bytes: "RTW_GET_BE16 (be16_bytes v @ xs) = v"
  by (rule bit_word_eqI) (auto simp: RTW_GET_BE16_def be16_bytes_def bit_simps)

lemma length_be16_bytes [simp]: "length (be16_bytes v) = 2"
  by (simp add: be16_bytes_def)

lemma length_attr_bytes [simp]: "length (attr_bytes a) = length (snd a) + 4"
  by (simp add: attr_bytes_def)

lemma rd_attr_header:
  "rd_bytes (pre @ attr_bytes a @ post) (int (length pre)) 4 = Some (be16_bytes (fst a) @ be16_bytes (of_nat (length (snd a))))"
  using rd_bytes_mid [of pre "be16_bytes (fst a) @ be16_bytes (of_nat (length (snd a)))" "snd a @ post"]
  by (simp add: attr_bytes_def)

lemma attr_len_word:
  assumes "attr_ok a"
  shows "uint (RTW_GET_BE16 (drop 2 (be16_bytes (fst a) @ be16_bytes (of_nat (length (snd a))))) + 4) = int (length (snd a) + 4)"
proof -
  have "RTW_GET_BE16 (drop 2 (be16_bytes (fst a) @ be16_bytes (of_nat (length (snd a))))) = of_nat (length (snd a))"
    using RTW_GET_BE16_bytes [of "of_nat (length (snd a))" "[]"] by simp
  then have "RTW_GET_BE16 (drop 2 (be16_bytes (fst a) @ be16_bytes (of_nat (length (snd a))))) + 4 = of_nat (length (snd a) + 4)"
    by simp
  moreover have "unat (of_nat (length (snd a) + 4) :: u16) = length (snd a) + 4"
    using assms unfolding unat_of_nat by (intro mod_less) (simp add: attr_ok_def)
  ultimately show ?thesis by (metis uint_nat)
qed

lemma wps_attr_loop_first:
  assumes "list_all attr_ok (as1 @ (t, d) # as2)" and "t \<notin> fst ` set as1" and "length as1 < fuel"
    and "int (length (pre @ concat (map attr_bytes (as1 @ (t, d) # as2)))) - wps_ie \<le> wps_ielen"
  shows "wps_attr_loop fuel (pre @ concat (map attr_bytes (as1 @ (t, d) # as2)) @ post) wps_ie wps_ielen t (int (length pre)) =
    Returns (Some (int (length (pre @ concat (map attr_bytes as1))),
      RTW_GET_BE16 (drop 2 (be16_bytes t @ be16_bytes (of_nat (length d)))) + 4))"
  using assms
proof (induction as1 arbitrary: fuel pre)
  case Nil
  then show ?case
    using rd_attr_header [of pre "(t, d)" "concat (map attr_bytes as2) @ post"] RTW_GET_BE16_bytes [of t]
    by (cases fuel) (auto simp: Let_def)
next
  case (Cons a as1)
  obtain f where f: "fuel = Suc f" using Cons.prems(3) by (cases fuel) auto
  have ok: "attr_ok a" using Cons.prems(1) by simp
  let ?rest = "concat (map attr_bytes (as1 @ (t, d) # as2))"
  have "wps_attr_loop f ((pre @ attr_bytes a) @ ?rest @ post) wps_ie wps_ielen t (int (length (pre @ attr_bytes a))) =
      Returns (Some (int (length ((pre @ attr_bytes a) @ concat (map attr_bytes as1))),
        RTW_GET_BE16 (drop 2 (be16_bytes t @ be16_bytes (of_nat (length d)))) + 4))"
    using Cons.prems f by (intro Cons.IH) auto
  then show ?case
    using rd_attr_header [of pre a "?rest @ post"] attr_len_word [OF ok] RTW_GET_BE16_bytes [of "fst a"] Cons.prems(2,4) f
    by (auto simp: Let_def)
qed

lemma wps_attr_loop_absent:
  assumes "list_all attr_ok as" and "t \<notin> fst ` set as" and "length as < fuel"
    and "int (length (pre @ concat (map attr_bytes as))) - wps_ie = wps_ielen"
  shows "wps_attr_loop fuel (pre @ concat (map attr_bytes as) @ post) wps_ie wps_ielen t (int (length pre)) = Returns None"
  using assms
proof (induction as arbitrary: fuel pre)
  case Nil
  then show ?case by (cases fuel) auto
next
  case (Cons a as)
  obtain f where f: "fuel = Suc f" using Cons.prems(3) by (cases fuel) auto
  have ok: "attr_ok a" using Cons.prems(1) by simp
  have "wps_attr_loop f ((pre @ attr_bytes a) @ concat (map attr_bytes as) @ post) wps_ie wps_ielen t
      (int (length (pre @ attr_bytes a))) = Returns None"
    using Cons.prems f by (intro Cons.IH) auto
  then show ?case
    using rd_attr_header [of pre a "concat (map attr_bytes as) @ post"] attr_len_word [OF ok]
      RTW_GET_BE16_bytes [of "fst a"] Cons.prems(2,4) f
    by (auto simp: Let_def)
qed

text \<open>A WPS element with the given attributes.\<close>

definition wps_ie_bytes :: "wps_attr list \<Rightarrow> byte list" where
  "wps_ie_bytes as = ie_bytes (221, wps_oui @ concat (map attr_bytes as))"

lemma wps_ie_bytes_eq:
  "wps_ie_bytes as = ([221, of_nat (4 + length (concat (map attr_bytes as)))] @ wps_oui) @ concat (map attr_bytes as)"
  by (simp add: wps_ie_bytes_def ie_bytes_def wps_oui_def)

lemma wps_header_ok:
  "rd (pre @ wps_ie_bytes as @ post) (int (length pre)) = Some 221"
  "rtw_memcmp (pre @ wps_ie_bytes as @ post) (int (length pre) + 2) wps_oui 4 = Some True"
  using rd_ie(1) [of pre "(221, wps_oui @ concat (map attr_bytes as))" post]
    rtw_memcmp_ie [of 4 "(221, wps_oui @ concat (map attr_bytes as))" wps_oui pre post]
  by (simp_all add: wps_ie_bytes_def wps_oui_def)

section \<open>Properties\<close>

text \<open>
  C21 (roundtrip).  In a WPS element made of attributes with at most 65531 data bytes,
  \<open>rtw_get_wps_attr_content\<close> returns the address and the length of the data of the first attribute with
  the identifier, within one turn of the loop per attribute; a buffer it is given receives the data when it is
  large enough, and is overrun when it is not.
\<close>

theorem wps_attr_content_found:
  assumes "list_all attr_ok (as1 @ (t, d) # as2)" and "t \<notin> fst ` set as1" and "length as1 < fuel"
  shows "\<exists>q. rd_bytes (pre @ wps_ie_bytes (as1 @ (t, d) # as2) @ post) q (int (length d)) = Some d \<and>
    (\<forall>buf. rtw_get_wps_attr_content fuel (pre @ wps_ie_bytes (as1 @ (t, d) # as2) @ post) (int (length pre))
        (int (length (wps_ie_bytes (as1 @ (t, d) # as2)))) t buf =
      (case buf of
         None \<Rightarrow> Returns (Some q, None, int (length d))
       | Some dst \<Rightarrow>
           if length d \<le> length dst then Returns (Some q, Some (d @ drop (length d) dst), int (length d)) else Fault))"
proof -
  let ?as = "as1 @ (t, d) # as2"
  let ?hd = "pre @ [221, of_nat (4 + length (concat (map attr_bytes ?as)))] @ wps_oui"
  let ?M = "pre @ wps_ie_bytes ?as @ post" and ?L = "int (length (wps_ie_bytes ?as))"
  have M: "?M = ?hd @ concat (map attr_bytes ?as) @ post" by (simp add: wps_ie_bytes_eq)
  have hl: "length ?hd = length pre + 6" by (simp add: wps_oui_def)
  let ?p = "int (length (?hd @ concat (map attr_bytes as1)))"
  have "int (length ?hd) = int (length pre) + 6" using hl by simp
  moreover have "wps_attr_loop fuel ?M (int (length pre)) ?L t (int (length ?hd)) =
      Returns (Some (?p, RTW_GET_BE16 (drop 2 (be16_bytes t @ be16_bytes (of_nat (length d)))) + 4))"
    unfolding M by (rule wps_attr_loop_first [OF assms]) (simp add: wps_ie_bytes_eq wps_oui_def)
  ultimately have loop: "wps_attr_loop fuel ?M (int (length pre)) ?L t (int (length pre) + 6) =
      Returns (Some (?p, RTW_GET_BE16 (drop 2 (be16_bytes t @ be16_bytes (of_nat (length d)))) + 4))" by metis
  have "uint (RTW_GET_BE16 (drop 2 (be16_bytes t @ be16_bytes (of_nat (length d)))) + 4) = int (length d + 4)"
    using attr_len_word [of "(t, d)"] assms(1) by simp
  then have attr: "rtw_get_wps_attr fuel ?M (int (length pre)) ?L t None = Returns (Some ?p, None, int (length d + 4))"
    using wps_header_ok [of pre ?as post] loop unfolding rtw_get_wps_attr_def by simp
  have len: "(int (length d + 4) - 4) mod 2 ^ 32 = int (length d)" "int (length d + 4) \<noteq> 0"
    using assms(1) by (simp_all add: attr_ok_def mod_pos_pos_trivial)
  have rd: "rd_bytes ?M (?p + 4) (int (length d)) = Some d"
    unfolding M using rd_bytes_mid [of "?hd @ concat (map attr_bytes as1) @ be16_bytes t @ be16_bytes (of_nat (length d))" d
        "concat (map attr_bytes as2) @ post"]
    by (simp add: attr_bytes_def algebra_simps)
  have "rtw_get_wps_attr_content fuel ?M (int (length pre)) ?L t buf =
      (case buf of
         None \<Rightarrow> Returns (Some (?p + 4), None, int (length d))
       | Some dst \<Rightarrow>
           if length d \<le> length dst then Returns (Some (?p + 4), Some (d @ drop (length d) dst), int (length d)) else Fault)"
    for buf
    unfolding rtw_get_wps_attr_content_def attr
    by (simp only: outcome.case prod.case option.case len rd if_False Option.bind.simps)
      (simp split: option.splits add: wr_bytes_def in_buf_def overlay_def)
  with rd show ?thesis by blast
qed

theorem wps_attr_content_found_witness:
  "\<exists>q. rd_bytes ([] @ wps_ie_bytes ([(0x104a, [0x10])] @ (0x1041, [1]) # []) @ []) q (int (length [1 :: byte])) = Some [1] \<and>
    (\<forall>buf. rtw_get_wps_attr_content 2 ([] @ wps_ie_bytes ([(0x104a, [0x10])] @ (0x1041, [1]) # []) @ []) (int (length ([] :: byte list)))
        (int (length (wps_ie_bytes ([(0x104a, [0x10])] @ (0x1041, [1]) # [])))) 0x1041 buf =
      (case buf of
         None \<Rightarrow> Returns (Some q, None, int (length [1 :: byte]))
       | Some dst \<Rightarrow>
           if length [1 :: byte] \<le> length dst
           then Returns (Some q, Some ([1] @ drop (length [1 :: byte]) dst), int (length [1 :: byte])) else Fault))"
  by (rule wps_attr_content_found) (simp_all add: attr_ok_def)

text \<open>
  Error: When the first attribute of a WPS element announces 0xFFFC data bytes, the 16-bit sum with
  its header is 0, and \<open>rtw_get_wps_attr\<close> searching another attribute stays there: no number of turns ends the loop.
\<close>

theorem wps_attr_never_ends:
  assumes "aid \<noteq> t"
  shows "\<forall>fuel. rtw_get_wps_attr fuel
      (pre @ ie_bytes (221, wps_oui @ be16_bytes aid @ be16_bytes 0xFFFC @ rest) @ post) (int (length pre))
      (int (length (ie_bytes (221, wps_oui @ be16_bytes aid @ be16_bytes 0xFFFC @ rest)))) t buf = Running"
proof
  fix fuel
  let ?d = "wps_oui @ be16_bytes aid @ be16_bytes 0xFFFC @ rest"
  let ?M = "pre @ ie_bytes (221, ?d) @ post"
  have hdr: "rd ?M (int (length pre)) = Some 221" "rtw_memcmp ?M (int (length pre) + 2) wps_oui 4 = Some True"
    using rd_ie(1) [of pre "(221, ?d)" post] rtw_memcmp_ie [of 4 "(221, ?d)" wps_oui pre post]
    by (simp_all add: wps_oui_def)
  have h: "rd_bytes ?M (int (length pre) + 6) 4 = Some (be16_bytes aid @ be16_bytes 0xFFFC)"
    using rd_bytes_mid [of "pre @ [221, of_nat (length ?d)] @ wps_oui" "be16_bytes aid @ be16_bytes 0xFFFC" "rest @ post"]
    by (simp add: ie_bytes_def wps_oui_def add.commute)
  have len: "RTW_GET_BE16 (drop 2 (be16_bytes aid @ be16_bytes 0xFFFC)) + 4 = 0"
    using RTW_GET_BE16_bytes [of "0xFFFC" "[]"] by simp
  have "wps_attr_loop fuel ?M (int (length pre)) (int (length (ie_bytes (221, ?d)))) t (int (length pre) + 6) = Running"
  proof (induction fuel)
    case (Suc fuel)
    then show ?case using h len RTW_GET_BE16_bytes [of aid] assms by (simp add: Let_def wps_oui_def)
  qed simp
  then show "rtw_get_wps_attr fuel ?M (int (length pre)) (int (length (ie_bytes (221, ?d)))) t buf = Running"
    using hdr by (simp add: rtw_get_wps_attr_def)
qed

theorem wps_attr_never_ends_witness:
  "\<forall>fuel. rtw_get_wps_attr fuel
      ([] @ ie_bytes (221, wps_oui @ be16_bytes 0x104a @ be16_bytes 0xFFFC @ [0]) @ []) (int (length ([] :: byte list)))
      (int (length (ie_bytes (221, wps_oui @ be16_bytes 0x104a @ be16_bytes 0xFFFC @ [0])))) 0x1041 None = Running"
  by (rule wps_attr_never_ends) simp

text \<open>
  \<open>rtw_get_wps_ie\<close> computes what \<open>rtw_get_ie_ex\<close> computes for the vendor identifier
  and the WPS OUI, for every buffer, including the accesses outside of it.
\<close>

theorem get_wps_ie_is_get_ie_ex:
  "rtw_get_wps_ie mem in_ie in_len wps_ie = rtw_get_ie_ex mem in_ie in_len 0xdd (Some wps_oui) 4 wps_ie"
  by (cases in_ie) (simp_all add: rtw_get_wps_ie_def rtw_get_ie_ex_def get_wps_ie_loop_eq)

end
