(* ===== verification/Wpa.thy ===== *)
theory Wpa
  imports Wps
begin

text \<open>
  WPA and RSN elements of src/core/rtw_ieee80211.c: the cipher suites, the parsers
  \<open>rtw_parse_wpa_ie\<close> and \<open>rtw_parse_wpa2_ie\<close>, the searches \<open>rtw_get_wpa_ie\<close>,
  \<open>rtw_get_wpa2_ie\<close> and \<open>rtw_get_sec_ie\<close>, and what \<open>rtw_get_cipher_info\<close> and
  \<open>rtw_get_bcn_info\<close> record about a network.

  Shown: the parsers read only the element; on a well-formed element they
  return its suites; which security protocol a beacon of such elements (\<open>beacon_ok\<close>) is classified as; the
  counter of \<open>rtw_get_sec_ie\<close> that wraps for long elements.
\<close>

section \<open>Cipher suites\<close>

definition WPA_CIPHER_NONE :: int where "WPA_CIPHER_NONE = 1"
definition WPA_CIPHER_WEP40 :: int where "WPA_CIPHER_WEP40 = 2"
definition WPA_CIPHER_WEP104 :: int where "WPA_CIPHER_WEP104 = 4"
definition WPA_CIPHER_TKIP :: int where "WPA_CIPHER_TKIP = 8"
definition WPA_CIPHER_CCMP :: int where "WPA_CIPHER_CCMP = 16"

definition rtw_get_wpa_cipher_suite :: "byte list \<Rightarrow> int" where
  "rtw_get_wpa_cipher_suite s =
     (if s = [0x00, 0x50, 0xf2, 0] then WPA_CIPHER_NONE
      else if s = [0x00, 0x50, 0xf2, 1] then WPA_CIPHER_WEP40
      else if s = [0x00, 0x50, 0xf2, 2] then WPA_CIPHER_TKIP
      else if s = [0x00, 0x50, 0xf2, 4] then WPA_CIPHER_CCMP
      else if s = [0x00, 0x50, 0xf2, 5] then WPA_CIPHER_WEP104
      else 0)"

definition rtw_get_wpa2_cipher_suite :: "byte list \<Rightarrow> int" where
  "rtw_get_wpa2_cipher_suite s =
     (if s = [0x00, 0x0f, 0xac, 0] then WPA_CIPHER_NONE
      else if s = [0x00, 0x0f, 0xac, 1] then WPA_CIPHER_WEP40
      else if s = [0x00, 0x0f, 0xac, 2] then WPA_CIPHER_TKIP
      else if s = [0x00, 0x0f, 0xac, 4] then WPA_CIPHER_CCMP
      else if s = [0x00, 0x0f, 0xac, 5] then WPA_CIPHER_WEP104
      else 0)"

section \<open>The parsers\<close>

text \<open>
  The result of a parser: status, \<open>*group_cipher\<close>, \<open>*pairwise_cipher\<close> and
  \<open>*is_8021x\<close>, which is \<open>None\<close> for the NULL pointer.  The two parsers share their
  body but for the suites; \<open>suite\<close> and \<open>suite_1x\<close> stand for them.
\<close>

type_synonym parse_out = "status \<times> int \<times> int \<times> int option"

fun pairwise_loop :: "(byte list \<Rightarrow> int) \<Rightarrow> byte list \<Rightarrow> nat \<Rightarrow> int \<Rightarrow> int \<Rightarrow> int option" where
  "pairwise_loop suite mem 0 pos pc = Some pc"
| "pairwise_loop suite mem (Suc n) pos pc = do {
     s \<leftarrow> rd_bytes mem pos 4;
     pairwise_loop suite mem n (pos + 4) (pc OR suite s)
   }"

definition parse_akm :: "byte list \<Rightarrow> byte list \<Rightarrow> int \<Rightarrow> int \<Rightarrow> int \<Rightarrow> int \<Rightarrow> int option \<Rightarrow> parse_out option" where
  "parse_akm suite_1x mem pos left gc pc is_8021x =
     (case is_8021x of
        None \<Rightarrow> Some (SUCCESS, gc, pc, None)
      | Some v \<Rightarrow>
          if left \<ge> 6 then do {
            m \<leftarrow> rtw_memcmp mem (pos + 2) suite_1x 4;
            Some (SUCCESS, gc, pc, Some (if m then 1 else v))
          } else Some (SUCCESS, gc, pc, Some v))"

definition parse_pairwise ::
  "(byte list \<Rightarrow> int) \<Rightarrow> byte list \<Rightarrow> byte list \<Rightarrow> int \<Rightarrow> int \<Rightarrow> int \<Rightarrow> int \<Rightarrow> int option \<Rightarrow> parse_out option" where
  "parse_pairwise suite suite_1x mem pos left gc pc is_8021x =
     (if left \<ge> 2 then do {
        c \<leftarrow> rd_bytes mem pos 2;
        let count = uint (le16_of (c ! 0) (c ! 1));
        if count = 0 \<or> left - 2 < count * 4 then Some (FAIL, gc, pc, is_8021x)
        else do {
          pc \<leftarrow> pairwise_loop suite mem (nat count) (pos + 2) pc;
          parse_akm suite_1x mem (pos + 2 + 4 * count) (left - 2 - 4 * count) gc pc is_8021x
        }
      } else if left = 1 then Some (FAIL, gc, pc, is_8021x)
      else parse_akm suite_1x mem pos left gc pc is_8021x)"

definition parse_group ::
  "(byte list \<Rightarrow> int) \<Rightarrow> byte list \<Rightarrow> byte list \<Rightarrow> int \<Rightarrow> int \<Rightarrow> int \<Rightarrow> int \<Rightarrow> int option \<Rightarrow> parse_out option" where
  "parse_group suite suite_1x mem pos left gc pc is_8021x =
     (if left \<ge> 4 then do {
        s \<leftarrow> rd_bytes mem pos 4;
        parse_pairwise suite suite_1x mem (pos + 4) (left - 4) (suite s) pc is_8021x
      } else if left > 0 then Some (FAIL, gc, pc, is_8021x)
      else parse_pairwise suite suite_1x mem pos left gc pc is_8021x)"

definition RTW_WPA_OUI_TYPE :: "byte list" where "RTW_WPA_OUI_TYPE = [0x00, 0x50, 0xf2, 1]"

definition rtw_parse_wpa_ie ::
  "byte list \<Rightarrow> int \<Rightarrow> int \<Rightarrow> int \<Rightarrow> int \<Rightarrow> int option \<Rightarrow> parse_out option" where
  "rtw_parse_wpa_ie mem wpa_ie wpa_ie_len gc pc is_8021x =
     (if wpa_ie_len \<le> 0 then Some (FAIL, gc, pc, is_8021x)
      else do {
        b0 \<leftarrow> rd mem wpa_ie;
        ok \<leftarrow> (if b0 \<noteq> 0xdd then Some False
               else do {
                 b1 \<leftarrow> rd mem (wpa_ie + 1);
                 if b1 \<noteq> word_of_int (wpa_ie_len - 2) then Some False
                 else rtw_memcmp mem (wpa_ie + 2) RTW_WPA_OUI_TYPE 4
               });
        if \<not> ok then Some (FAIL, gc, pc, is_8021x)
        else parse_group rtw_get_wpa_cipher_suite [0x00, 0x50, 0xf2, 1] mem (wpa_ie + 8) (wpa_ie_len - 8) gc pc is_8021x
      })"

definition rtw_parse_wpa2_ie ::
  "byte list \<Rightarrow> int \<Rightarrow> int \<Rightarrow> int \<Rightarrow> int \<Rightarrow> int option \<Rightarrow> parse_out option" where
  "rtw_parse_wpa2_ie mem rsn_ie rsn_ie_len gc pc is_8021x =
     (if rsn_ie_len \<le> 0 then Some (FAIL, gc, pc, is_8021x)
      else do {
        b0 \<leftarrow> rd mem rsn_ie;
        ok \<leftarrow> (if b0 \<noteq> 0x30 then Some False
               else do {
                 b1 \<leftarrow> rd mem (rsn_ie + 1);
                 Some (b1 = word_of_int (rsn_ie_len - 2))
               });
        if \<not> ok then Some (FAIL, gc, pc, is_8021x)
        else parse_group rtw_get_wpa2_cipher_suite [0x00, 0x0f, 0xac, 1] mem (rsn_ie + 4) (rsn_ie_len - 4) gc pc is_8021x
      })"

section \<open>The searches\<close>

lemma get_ie_loop_range:
  "get_ie_loop mem index limit p i = Some (Some q, l) \<Longrightarrow> p \<le> q \<and> 0 \<le> l"
proof (induction mem index limit p i rule: get_ie_loop.induct)
  case (1 mem index limit p i)
  have step: "p + (uint t + 2) \<le> q \<Longrightarrow> p \<le> q" for t :: byte using uint_ge_0 [of t] by linarith
  show ?case
    using 1(2) by (subst (asm) get_ie_loop.simps) (auto split: if_splits bind_splits dest!: 1(1) intro: step)
qed

lemma rtw_get_ie_range:
  "rtw_get_ie mem p index len limit = Some (Some q, l) \<Longrightarrow> p \<le> q \<and> 0 \<le> l"
  by (auto simp: rtw_get_ie_def split: if_splits dest: get_ie_loop_range)

text \<open>\<open>rtw_get_wpa_ie\<close>: vendor elements with another OUI or version are skipped.\<close>

function wpa_ie_loop :: "byte list \<Rightarrow> int \<Rightarrow> int \<Rightarrow> int \<Rightarrow> int \<Rightarrow> (int option \<times> int) option" where
  "wpa_ie_loop mem pie limit pbuf limit_new =
     (case rtw_get_ie mem pbuf 0xdd 0 limit_new of
        None \<Rightarrow> None
      | Some (None, _) \<Rightarrow> Some (None, 0)
      | Some (Some p, len) \<Rightarrow> do {
          oui \<leftarrow> rtw_memcmp mem (p + 2) RTW_WPA_OUI_TYPE 4;
          ok \<leftarrow> (if oui then do {
                   v \<leftarrow> rd_bytes mem (p + 6) 2;
                   Some (le16_of (v ! 0) (v ! 1) = 1)
                 } else Some False);
          if ok then do { l \<leftarrow> rd mem (p + 1); Some (Some p, uint l) }
          else if limit - (p - pie) - 2 - len \<le> 0 then Some (None, 0)
          else wpa_ie_loop mem pie limit (p + (2 + len)) (limit - (p - pie) - 2 - len)
        })"
  by pat_completeness auto
termination
proof (relation "measure (\<lambda>(_, pie, limit, pbuf, _). nat (limit - (pbuf - pie)))")
  fix mem pie limit pbuf limit_new x y len a p oui ok
  assume "rtw_get_ie mem pbuf 0xdd 0 limit_new = Some x" "(y, len) = x" "y = Some p"
    and pos: "\<not> limit - (p - pie) - 2 - len \<le> (0 :: int)"
  then have "rtw_get_ie mem pbuf 0xdd 0 limit_new = Some (Some p, len)" by simp
  then have "pbuf \<le> p" "0 \<le> len" using rtw_get_ie_range by blast+
  then have "limit - (p + (2 + len) - pie) < limit - (pbuf - pie)" "0 < limit - (pbuf - pie)"
    using pos by linarith+
  then show "((mem, pie, limit, p + (2 + len), limit - (p - pie) - 2 - len), mem, pie, limit, pbuf, limit_new)
      \<in> measure (\<lambda>(_, pie, limit, pbuf, _). nat (limit - (pbuf - pie)))"
    by (simp only: in_measure case_prod_conv zless_nat_conj)
qed simp

declare wpa_ie_loop.simps [simp del]

definition rtw_get_wpa_ie :: "byte list \<Rightarrow> int \<Rightarrow> int \<Rightarrow> (int option \<times> int) option" where
  "rtw_get_wpa_ie mem pie limit = wpa_ie_loop mem pie limit pie limit"

definition rtw_get_wpa2_ie :: "byte list \<Rightarrow> int \<Rightarrow> int \<Rightarrow> int \<Rightarrow> (int option \<times> int) option" where
  "rtw_get_wpa2_ie mem pie rsn_ie_len limit = rtw_get_ie mem pie 0x30 rsn_ie_len limit"

text \<open>
  \<open>rtw_get_sec_ie\<close>.  A destination may be NULL; when it is not, an empty loop with an
  8-bit counter that advances by 8 follows the copy.
\<close>

fun dump_loop :: "nat \<Rightarrow> byte \<Rightarrow> int \<Rightarrow> bool" where
  "dump_loop 0 i n = False"
| "dump_loop (Suc fuel) i n = (if uint i < n then dump_loop fuel (i + 8) n else True)"

definition copy_sec_ie :: "nat \<Rightarrow> byte list \<Rightarrow> int \<Rightarrow> int \<Rightarrow> byte list option \<Rightarrow> byte list option outcome" where
  "copy_sec_ie fuel mem off n dst =
     (case dst of
        None \<Rightarrow> Returns None
      | Some d \<Rightarrow>
          (case do { s \<leftarrow> rd_bytes mem off n; wr_bytes d 0 s } of
             None \<Rightarrow> Fault
           | Some d \<Rightarrow> if dump_loop fuel 0 n then Returns (Some d) else Running))"

text \<open>The lengths are stored in 16 bits; an element has at most 257 bytes.\<close>

type_synonym sec_out = "byte list option \<times> int \<times> byte list option \<times> int"

function sec_ie_loop :: "nat \<Rightarrow> byte list \<Rightarrow> int \<Rightarrow> int \<Rightarrow> sec_out \<Rightarrow> int \<Rightarrow> sec_out outcome" where
  "sec_ie_loop fuel mem in_ie in_len out cnt =
     (if cnt < in_len then
        let (rsn_ie, rsn_len, wpa_ie, wpa_len) = out in
        case do {
               authmode \<leftarrow> rd mem (in_ie + cnt);
               wpa \<leftarrow> (if authmode = 0xdd then rtw_memcmp mem (in_ie + cnt + 2) RTW_WPA_OUI_TYPE 4 else Some False);
               l \<leftarrow> rd mem (in_ie + cnt + 1);
               Some (authmode, wpa, l)
             } of
          None \<Rightarrow> Fault
        | Some (authmode, wpa, l) \<Rightarrow>
            if wpa then
              (case copy_sec_ie fuel mem (in_ie + cnt) (uint l + 2) wpa_ie of
                 Running \<Rightarrow> Running
               | Fault \<Rightarrow> Fault
               | Returns wpa_ie \<Rightarrow>
                   sec_ie_loop fuel mem in_ie in_len (rsn_ie, rsn_len, wpa_ie, uint l + 2) (cnt + (uint l + 2)))
            else if authmode = 0x30 then
              (case copy_sec_ie fuel mem (in_ie + cnt) (uint l + 2) rsn_ie of
                 Running \<Rightarrow> Running
               | Fault \<Rightarrow> Fault
               | Returns rsn_ie \<Rightarrow>
                   sec_ie_loop fuel mem in_ie in_len (rsn_ie, uint l + 2, wpa_ie, wpa_len) (cnt + (uint l + 2)))
            else sec_ie_loop fuel mem in_ie in_len out (cnt + (uint l + 2))
      else Returns out)"
  by pat_completeness auto
termination
  by (relation "measure (\<lambda>(_, _, _, in_len, _, cnt). nat (in_len - cnt))")
     (simp_all only: in_measure case_prod_conv ie_step_decreases wf_measure)

declare sec_ie_loop.simps [simp del]

definition rtw_get_sec_ie :: "nat \<Rightarrow> byte list \<Rightarrow> int \<Rightarrow> int \<Rightarrow> sec_out \<Rightarrow> (int \<times> sec_out) outcome" where
  "rtw_get_sec_ie fuel mem in_ie in_len out =
     (case sec_ie_loop fuel mem in_ie in_len out (8 + 2 + 2) of
        Running \<Rightarrow> Running
      | Fault \<Rightarrow> Fault
      | Returns out \<Rightarrow> (case out of (rsn_ie, rsn_len, wpa_ie, wpa_len) \<Rightarrow> Returns (rsn_len + wpa_len, out)))"

section \<open>What is recorded about a network\<close>

datatype encryp_protocol_e =
  ENCRYP_PROTOCOL_OPENSYS | ENCRYP_PROTOCOL_WEP | ENCRYP_PROTOCOL_WPA | ENCRYP_PROTOCOL_WPA2 | ENCRYP_PROTOCOL_WAPI |
  ENCRYP_PROTOCOL_MAX

record wlan_bcn_info =
  encryp_protocol :: encryp_protocol_e
  group_cipher :: int
  pairwise_cipher :: int
  is_8021x :: int
  ht_cap_info :: u16
  ht_info_infos_0 :: byte

record wlan_network =
  nw_IEs :: "byte list"
  nw_IELength :: int
  nw_Privacy :: u32
  nw_BcnInfo :: wlan_bcn_info

definition set_ciphers :: "parse_out \<Rightarrow> wlan_network \<Rightarrow> status \<times> wlan_network" where
  "set_ciphers out nw =
     (case out of (st, gc, pc, x) \<Rightarrow>
        if st = SUCCESS then
          (SUCCESS, nw\<lparr>nw_BcnInfo := (nw_BcnInfo nw)\<lparr>pairwise_cipher := pc, group_cipher := gc,
             is_8021x := (case x of None \<Rightarrow> 0 | Some v \<Rightarrow> v)\<rparr>\<rparr>)
        else (FAIL, nw))"

definition rtw_get_cipher_info :: "wlan_network \<Rightarrow> (status \<times> wlan_network) option" where
  "rtw_get_cipher_info nw = do {
     (pbuf, wpa_ielen) \<leftarrow> rtw_get_wpa_ie (nw_IEs nw) 12 (nw_IELength nw - 12);
     (case (if wpa_ielen > 0 then pbuf else None) of
        Some p \<Rightarrow> map_option (\<lambda>out. set_ciphers out nw) (rtw_parse_wpa_ie (nw_IEs nw) p (wpa_ielen + 2) 0 0 (Some 0))
      | None \<Rightarrow> do {
          (pbuf, wpa_ielen) \<leftarrow> rtw_get_wpa2_ie (nw_IEs nw) 12 wpa_ielen (nw_IELength nw - 12);
          (case (if wpa_ielen > 0 then pbuf else None) of
             Some p \<Rightarrow> map_option (\<lambda>out. set_ciphers out nw) (rtw_parse_wpa2_ie (nw_IEs nw) p (wpa_ielen + 2) 0 0 (Some 0))
           | None \<Rightarrow> Some (FAIL, nw))
        })
   }"

text \<open>
  \<open>rtw_get_bcn_info\<close>.  The destinations passed to \<open>rtw_get_sec_ie\<close> are NULL, so its
  counter loop is not reached; the fields of the HT elements are read at their first bytes.
\<close>

definition bcn_privacy :: "bool \<Rightarrow> wlan_network \<Rightarrow> wlan_network" where
  "bcn_privacy bencrypt nw =
     (if bencrypt then nw\<lparr>nw_Privacy := 1\<rparr>
      else nw\<lparr>nw_BcnInfo := (nw_BcnInfo nw)\<lparr>encryp_protocol := ENCRYP_PROTOCOL_OPENSYS\<rparr>\<rparr>)"

definition bcn_encryp :: "bool \<Rightarrow> int \<Rightarrow> int \<Rightarrow> wlan_network \<Rightarrow> wlan_network" where
  "bcn_encryp bencrypt rsn_len wpa_len nw =
     (if rsn_len > 0 then nw\<lparr>nw_BcnInfo := (nw_BcnInfo nw)\<lparr>encryp_protocol := ENCRYP_PROTOCOL_WPA2\<rparr>\<rparr>
      else if wpa_len > 0 then nw\<lparr>nw_BcnInfo := (nw_BcnInfo nw)\<lparr>encryp_protocol := ENCRYP_PROTOCOL_WPA\<rparr>\<rparr>
      else if bencrypt then nw\<lparr>nw_BcnInfo := (nw_BcnInfo nw)\<lparr>encryp_protocol := ENCRYP_PROTOCOL_WEP\<rparr>\<rparr>
      else nw)"

definition bcn_ht_info :: "wlan_network \<Rightarrow> wlan_network option" where
  "bcn_ht_info nw = do {
     (p, len) \<leftarrow> rtw_get_ie (nw_IEs nw) 12 45 0 (nw_IELength nw - 12);
     cap_info \<leftarrow>
       (case p of
          Some q \<Rightarrow> if len > 0 then map_option (\<lambda>v. le16_of (v ! 0) (v ! 1)) (rd_bytes (nw_IEs nw) (q + 2) 2) else Some 0
        | None \<Rightarrow> Some 0);
     (p, len) \<leftarrow> rtw_get_ie (nw_IEs nw) 12 61 len (nw_IELength nw - 12);
     infos0 \<leftarrow> (case p of Some q \<Rightarrow> if len > 0 then rd (nw_IEs nw) (q + 2 + 1) else Some 0 | None \<Rightarrow> Some 0);
     Some (nw\<lparr>nw_BcnInfo := (nw_BcnInfo nw)\<lparr>ht_cap_info := cap_info, ht_info_infos_0 := infos0\<rparr>\<rparr>)
   }"

definition rtw_get_bcn_info :: "wlan_network \<Rightarrow> wlan_network outcome" where
  "rtw_get_bcn_info nw =
     (case rd_bytes (nw_IEs nw) 10 2 of
        None \<Rightarrow> Fault
      | Some c \<Rightarrow>
          let bencrypt = (le16_of (c ! 0) (c ! 1) AND 0x10 \<noteq> 0);
              nw = bcn_privacy bencrypt nw
          in case rtw_get_sec_ie 0 (nw_IEs nw) 0 (nw_IELength nw) (None, 0, None, 0) of
               Running \<Rightarrow> Running
             | Fault \<Rightarrow> Fault
             | Returns (_, _, rsn_len, _, wpa_len) \<Rightarrow>
                 (case do { (_, nw) \<leftarrow> rtw_get_cipher_info (bcn_encryp bencrypt rsn_len wpa_len nw); bcn_ht_info nw } of
                    None \<Rightarrow> Fault
                  | Some nw \<Rightarrow> Returns nw))"

section \<open>The parsers read only the element\<close>

lemma pairwise_loop_safe:
  "0 \<le> pos \<Longrightarrow> pos + 4 * int n \<le> int (length mem) \<Longrightarrow> \<exists>pc'. pairwise_loop suite mem n pos pc = Some pc'"
proof (induction n arbitrary: pos pc)
  case (Suc n)
  have "\<exists>s. rd_bytes mem pos 4 = Some s" using Suc.prems by (simp add: rd_bytes_def in_buf_def)
  then show ?case using Suc.IH [of "pos + 4"] Suc.prems by auto
qed simp

lemma parse_akm_safe:
  "0 \<le> pos \<Longrightarrow> pos + left \<le> int (length mem) \<Longrightarrow> length suite_1x = 4 \<Longrightarrow>
   \<exists>r. parse_akm suite_1x mem pos left gc pc x = Some r"
  by (cases x) (auto simp: parse_akm_def rtw_memcmp_def rd_bytes_def in_buf_def)

lemma parse_pairwise_safe:
  assumes "0 \<le> pos" and "pos + left \<le> int (length mem)" and "length suite_1x = 4"
  shows "\<exists>r. parse_pairwise suite suite_1x mem pos left gc pc x = Some r"
proof (cases "left \<ge> 2")
  case True
  then obtain c where c: "rd_bytes mem pos 2 = Some c" using assms by (auto simp: rd_bytes_def in_buf_def)
  let ?n = "uint (le16_of (c ! 0) (c ! 1))"
  show ?thesis
  proof (cases "?n = 0 \<or> left - 2 < ?n * 4")
    case True
    with c \<open>left \<ge> 2\<close> show ?thesis by (auto simp: parse_pairwise_def Let_def)
  next
    case False
    obtain pc' where "pairwise_loop suite mem (nat ?n) (pos + 2) pc = Some pc'"
      using pairwise_loop_safe [of "pos + 2" "nat ?n" mem suite pc] assms False by auto
    moreover have "\<exists>r. parse_akm suite_1x mem (pos + 2 + 4 * ?n) (left - 2 - 4 * ?n) gc pc' x = Some r"
      using assms by (intro parse_akm_safe) simp_all
    ultimately show ?thesis using c True False by (auto simp: parse_pairwise_def Let_def)
  qed
next
  case False
  then show ?thesis using parse_akm_safe [OF assms] by (auto simp: parse_pairwise_def)
qed

lemma parse_group_safe:
  assumes "0 \<le> pos" and "pos + left \<le> int (length mem)" and "length suite_1x = 4"
  shows "\<exists>r. parse_group suite suite_1x mem pos left gc pc x = Some r"
proof (cases "left \<ge> 4")
  case True
  then obtain s where "rd_bytes mem pos 4 = Some s" using assms by (auto simp: rd_bytes_def in_buf_def)
  then show ?thesis
    using True parse_pairwise_safe [of "pos + 4" "left - 4" mem suite_1x suite "suite s" pc x] assms
    by (auto simp: parse_group_def)
next
  case False
  then show ?thesis using parse_pairwise_safe [OF assms] by (auto simp: parse_group_def)
qed

lemma parse_wpa_ie_total:
  assumes "0 \<le> off" and "off + max 6 len \<le> int (length mem)"
  shows "\<exists>r. rtw_parse_wpa_ie mem off len gc pc x = Some r"
proof -
  have "\<exists>b. rd mem off = Some b" "\<exists>b. rd mem (off + 1) = Some b" "\<exists>b. rd_bytes mem (off + 2) 4 = Some b"
    using assms by (auto simp: rd_def rd_bytes_def in_buf_def)
  moreover have "\<exists>b. rd_bytes RTW_WPA_OUI_TYPE 0 4 = Some b" by (simp add: rd_bytes_def in_buf_def RTW_WPA_OUI_TYPE_def)
  moreover have "\<exists>r. parse_group rtw_get_wpa_cipher_suite [0x00, 0x50, 0xf2, 1] mem (off + 8) (len - 8) gc pc x = Some r"
    using assms by (intro parse_group_safe) simp_all
  ultimately show ?thesis by (auto simp: rtw_parse_wpa_ie_def rtw_memcmp_def)
qed

lemma parse_wpa2_ie_total:
  assumes "0 \<le> off" and "off + max 2 len \<le> int (length mem)"
  shows "\<exists>r. rtw_parse_wpa2_ie mem off len gc pc x = Some r"
proof -
  have "\<exists>b. rd mem off = Some b" "\<exists>b. rd mem (off + 1) = Some b" using assms by (auto simp: rd_def)
  moreover have "\<exists>r. parse_group rtw_get_wpa2_cipher_suite [0x00, 0x0f, 0xac, 1] mem (off + 4) (len - 4) gc pc x = Some r"
    using assms by (intro parse_group_safe) simp_all
  ultimately show ?thesis by (auto simp: rtw_parse_wpa2_ie_def)
qed

section \<open>Well-formed elements\<close>

text \<open>Group suite, pairwise suites and key management suites, four bytes each.\<close>

definition suites_ok :: "byte list list \<Rightarrow> bool" where
  "suites_ok ss \<longleftrightarrow> list_all (\<lambda>s. length s = 4) ss"

definition sec_suites :: "byte list \<Rightarrow> byte list list \<Rightarrow> byte list list \<Rightarrow> byte list" where
  "sec_suites g ps akms =
     g @ RTW_PUT_LE16 (of_nat (length ps)) @ concat ps @ RTW_PUT_LE16 (of_nat (length akms)) @ concat akms"

definition suites_or :: "(byte list \<Rightarrow> int) \<Rightarrow> byte list list \<Rightarrow> int \<Rightarrow> int" where
  "suites_or suite ps pc = fold (\<lambda>s a. a OR suite s) ps pc"

lemma length_concat_suites: "suites_ok ss \<Longrightarrow> length (concat ss) = 4 * length ss"
  by (induction ss) (auto simp: suites_ok_def)

lemma le16_PUT: "le16_of (RTW_PUT_LE16 v ! 0) (RTW_PUT_LE16 v ! 1) = v"
  by (rule bit_word_eqI) (auto simp: le16_of_def RTW_PUT_LE16_def bit_simps)

lemma length_PUT_LE16 [simp]: "length (RTW_PUT_LE16 v) = 2"
  by (simp add: RTW_PUT_LE16_def)

lemma pairwise_loop_suites:
  assumes "suites_ok ps"
  shows "pairwise_loop suite (pre @ concat ps @ post) (length ps) (int (length pre)) pc = Some (suites_or suite ps pc)"
  using assms
proof (induction ps arbitrary: pre pc)
  case (Cons s ps)
  have s: "length s = 4" "suites_ok ps" using Cons.prems by (simp_all add: suites_ok_def)
  have "rd_bytes (pre @ s @ concat ps @ post) (int (length pre)) 4 = Some s"
    using rd_bytes_mid [of pre s "concat ps @ post"] s by simp
  moreover have "pairwise_loop suite ((pre @ s) @ concat ps @ post) (length ps) (int (length (pre @ s))) (pc OR suite s) =
      Some (suites_or suite ps (pc OR suite s))" by (rule Cons.IH [OF s(2)])
  ultimately show ?case using s by (simp add: suites_or_def add.commute)
qed (simp add: suites_or_def)

lemma parse_group_suites:
  assumes "length g = 4" and "suites_ok ps" and "suites_ok akms" and "ps \<noteq> []" and "length ps < 2 ^ 16"
    and "length s1x = 4"
  shows "parse_group suite s1x (pre @ sec_suites g ps akms @ post) (int (length pre)) (int (length (sec_suites g ps akms))) gc pc (Some x) =
    Some (SUCCESS, suite g, suites_or suite ps pc, Some (if akms \<noteq> [] \<and> hd akms = s1x then 1 else x))"
proof -
  let ?cp = "RTW_PUT_LE16 (of_nat (length ps))" and ?ca = "RTW_PUT_LE16 (of_nat (length akms))"
  let ?M = "pre @ sec_suites g ps akms @ post"
  have M: "?M = pre @ g @ ?cp @ concat ps @ ?ca @ concat akms @ post" by (simp add: sec_suites_def)
  note lc = length_concat_suites [OF assms(2)] length_concat_suites [OF assms(3)]
  have len: "int (length (sec_suites g ps akms)) = 8 + 4 * int (length ps) + 4 * int (length akms)"
    by (simp add: sec_suites_def assms(1) lc)
  have un: "uint (of_nat (length ps) :: u16) = int (length ps)"
    using assms(5) by (simp add: uint_nat unat_of_nat take_bit_nat_eq_self flip: unat_eq_nat_uint)
  have rg: "rd_bytes ?M (int (length pre)) 4 = Some g"
    unfolding M using rd_bytes_mid [of pre g] assms(1) by simp
  have rc: "rd_bytes ?M (int (length pre) + 4) 2 = Some ?cp"
    unfolding M using rd_bytes_mid [of "pre @ g" ?cp "concat ps @ ?ca @ concat akms @ post"] assms(1)
    by (simp add: add.commute)
  have pw: "pairwise_loop suite ?M (length ps) (int (length pre) + 6) pc = Some (suites_or suite ps pc)"
    unfolding M using pairwise_loop_suites [OF assms(2), of suite "pre @ g @ ?cp" "?ca @ concat akms @ post" pc] assms(1)
    by (simp add: add.commute)
  have akm: "rtw_memcmp ?M (int (length pre) + 6 + 4 * int (length ps) + 2) s1x 4 = Some (hd akms = s1x)" if ne: "akms \<noteq> []"
  proof -
    obtain a as where a: "akms = a # as" "length a = 4" using ne assms(3) by (cases akms) (auto simp: suites_ok_def)
    have "rd_bytes ?M (int (length pre) + 6 + 4 * int (length ps) + 2) 4 = Some a"
      unfolding M using rd_bytes_mid [of "pre @ g @ ?cp @ concat ps @ ?ca" a "concat as @ post"] a assms(1) lc
      by (simp add: algebra_simps)
    moreover have "rd_bytes s1x 0 4 = Some s1x" using rd_bytes_nat [of 0 4 s1x] assms(6) by simp
    ultimately show ?thesis using a by (simp add: rtw_memcmp_def)
  qed
  have cnt: "uint (le16_of (?cp ! 0) (?cp ! 1)) = int (length ps)" by (simp only: le16_PUT un)
  have akm2: "parse_akm s1x ?M (int (length pre) + 4 + 2 + 4 * int (length ps)) (2 + 4 * int (length akms)) (suite g)
      (suites_or suite ps pc) (Some x) =
    Some (SUCCESS, suite g, suites_or suite ps pc, Some (if akms \<noteq> [] \<and> hd akms = s1x then 1 else x))"
    using akm by (cases "akms = []") (auto simp: parse_akm_def add.assoc Suc_le_eq)
  have "parse_pairwise suite s1x ?M (int (length pre) + 4) (4 + 4 * int (length ps) + 4 * int (length akms)) (suite g) pc (Some x) =
    Some (SUCCESS, suite g, suites_or suite ps pc, Some (if akms \<noteq> [] \<and> hd akms = s1x then 1 else x))"
    using rc cnt pw akm2 assms(4) unfolding parse_pairwise_def by (simp add: Let_def algebra_simps)
  then show ?thesis using rg unfolding parse_group_def len by (simp add: algebra_simps)
qed

section \<open>The searches on sequences of elements\<close>

definition wpa_match :: "ie \<Rightarrow> bool" where
  "wpa_match e \<longleftrightarrow> fst e = 0xdd \<and> take 4 (snd e) = RTW_WPA_OUI_TYPE \<and> le16_of (snd e ! 4) (snd e ! 5) = 1"

text \<open>The vendor elements hold an OUI, a type and a version.\<close>

definition vendor_ok :: "ie list \<Rightarrow> bool" where
  "vendor_ok es \<longleftrightarrow> list_all (\<lambda>e. fst e = 0xdd \<longrightarrow> 6 \<le> length (snd e)) es"

lemma ie_find_append_skip:
  "list_all (\<lambda>e. \<not> P e) es1 \<Longrightarrow>
   ie_find P (es1 @ es2) = map_option (apfst ((+) (length (ies_bytes es1)))) (ie_find P es2)"
  by (induction es1) (auto simp: option.map_comp comp_def apfst_def map_prod_def case_prod_unfold add.assoc
      option.map_ident intro!: option.map_cong)

lemma wpa_ie_loop_els:
  assumes "list_all ie_ok es" and "vendor_ok es"
    and "limit - (int (length pre) - pie) = int (length (ies_bytes es))"
  shows "wpa_ie_loop (pre @ ies_bytes es @ post) pie limit (int (length pre)) (int (length (ies_bytes es))) =
    Some (case ie_find wpa_match es of
            None \<Rightarrow> (None, 0)
          | Some (k, e) \<Rightarrow> (Some (int (length pre + k)), int (length (snd e))))"
  using assms
proof (induction "length es" arbitrary: es pre rule: less_induct)
  case less
  let ?M = "pre @ ies_bytes es @ post"
  have get: "rtw_get_ie ?M (int (length pre)) 0xdd 0 (int (length (ies_bytes es))) =
    Some (case ie_find (\<lambda>e. fst e = 0xdd) es of
            None \<Rightarrow> (None, 0)
          | Some (k, e) \<Rightarrow> (Some (int (length pre + k)), int (length (snd e))))"
    using rtw_get_ie_els [OF less.prems(1), of pre post "0xdd"] by simp
  show ?case
  proof (cases "ie_find (\<lambda>e. fst e = 0xdd) es")
    case None
    then have "ie_find wpa_match es = None" by (auto simp: ie_find_None list_all_iff wpa_match_def)
    with None get show ?thesis by (subst wpa_ie_loop.simps) simp
  next
    case (Some ke)
    obtain k e where ke: "ke = (k, e)" by (cases ke)
    obtain es1 es2 where es: "es = es1 @ e # es2" "k = length (ies_bytes es1)" "fst e = 0xdd"
        "list_all (\<lambda>e. fst e \<noteq> 0xdd) es1"
      using ie_find_Some Some ke by blast
    let ?p = "int (length (pre @ ies_bytes es1))"
    let ?pre = "pre @ ies_bytes es1"
    have M: "?M = ?pre @ ie_bytes e @ ies_bytes es2 @ post" using es(1) by simp
    have d6: "6 \<le> length (snd e)" using less.prems(2) es(1,3) by (simp add: vendor_ok_def)
    have cmp: "rtw_memcmp ?M (?p + 2) RTW_WPA_OUI_TYPE 4 = Some (take 4 (snd e) = RTW_WPA_OUI_TYPE)"
      unfolding M using rtw_memcmp_ie [of 4 e RTW_WPA_OUI_TYPE ?pre "ies_bytes es2 @ post"] d6
      by (simp add: RTW_WPA_OUI_TYPE_def)
    have ver: "rd_bytes ?M (?p + 6) 2 = Some [snd e ! 4, snd e ! 5]"
    proof -
      have "rd_bytes ?M (int (length ?pre + 6)) (int 2) = Some (take 2 (drop 4 (snd e)))"
        unfolding M using d6 by (subst rd_bytes_nat) (simp_all add: ie_bytes_def)
      moreover have "take 2 (drop 4 (snd e)) = [snd e ! 4, snd e ! 5]"
        using d6 by (intro nth_equalityI) (auto simp: less_Suc_eq numeral_2_eq_2)
      ultimately show ?thesis by (simp add: add.commute)
    qed
    have l: "rd ?M (?p + 1) = Some (of_nat (length (snd e)))" "uint (of_nat (length (snd e)) :: byte) = int (length (snd e))"
      using rd_ie(2) [of ?pre e "ies_bytes es2 @ post"] less.prems(1) es(1)
      by (simp_all add: uint_len_byte ie_ok_def)
    have lim: "limit - (?p - pie) - 2 - int (length (snd e)) = int (length (ies_bytes es2))"
      using less.prems(3) es(1) by simp
    have skip: "list_all (\<lambda>e. \<not> wpa_match e) es1" using es(4) by (auto simp: list_all_iff wpa_match_def)
    show ?thesis
    proof (cases "wpa_match e")
      case True
      then have "ie_find wpa_match es = Some (k, e)"
        using ie_find_append_skip [OF skip, of "e # es2"] es by simp
      with True get Some ke cmp ver l es show ?thesis
        by (subst wpa_ie_loop.simps) (simp add: wpa_match_def)
    next
      case False
      then have find: "ie_find wpa_match es = map_option (apfst ((+) (length (ies_bytes (es1 @ [e]))))) (ie_find wpa_match es2)"
        using ie_find_append_skip [of wpa_match "es1 @ [e]" es2] skip es(1) by simp
      have step: "wpa_ie_loop ?M pie limit (int (length pre)) (int (length (ies_bytes es))) =
          (if int (length (ies_bytes es2)) \<le> 0 then Some (None, 0)
           else wpa_ie_loop ?M pie limit (?p + (2 + int (length (snd e)))) (int (length (ies_bytes es2))))"
        using False get Some ke cmp ver lim es
        by (subst wpa_ie_loop.simps) (auto simp: wpa_match_def)
      have "vendor_ok es2" "list_all ie_ok es2" using less.prems(1,2) es(1) by (simp_all add: vendor_ok_def)
      then have "wpa_ie_loop ((?pre @ ie_bytes e) @ ies_bytes es2 @ post) pie limit (int (length (?pre @ ie_bytes e)))
          (int (length (ies_bytes es2))) =
        Some (case ie_find wpa_match es2 of
            None \<Rightarrow> (None, 0)
          | Some (k, e') \<Rightarrow> (Some (int (length (?pre @ ie_bytes e) + k)), int (length (snd e'))))"
        using lim es(1) by (intro less.hyps) simp_all
      moreover have "ie_find wpa_match es2 = None" if "length (ies_bytes es2) = 0"
        using that by (cases es2) auto
      ultimately show ?thesis
        unfolding step find using es(1) by (auto split: option.splits simp: algebra_simps)
    qed
  qed
qed

text \<open>With NULL destinations \<open>rtw_get_sec_ie\<close> leaves the lengths of the last elements.\<close>

definition wpa_oui_match :: "ie \<Rightarrow> bool" where
  "wpa_oui_match e \<longleftrightarrow> fst e = 0xdd \<and> take 4 (snd e) = RTW_WPA_OUI_TYPE"

fun sec_lens :: "ie list \<Rightarrow> int \<times> int \<Rightarrow> int \<times> int" where
  "sec_lens [] ls = ls"
| "sec_lens (e # es) ls =
     sec_lens es (if wpa_oui_match e then (fst ls, int (length (ie_bytes e)))
                  else if fst e = 0x30 then (int (length (ie_bytes e)), snd ls) else ls)"

lemma sec_lens_pos:
  "0 \<le> fst ls \<Longrightarrow> 0 \<le> snd ls \<Longrightarrow>
   (0 < fst (sec_lens es ls) \<longleftrightarrow> 0 < fst ls \<or> list_ex (\<lambda>e. fst e = 0x30) es) \<and>
   (0 < snd (sec_lens es ls) \<longleftrightarrow> 0 < snd ls \<or> list_ex wpa_oui_match es)"
  by (induction es arbitrary: ls) (auto simp: wpa_oui_match_def)

lemma sec_ie_loop_els:
  assumes "list_all ie_ok es" and "vendor_ok es"
  shows "sec_ie_loop fuel (pre @ ies_bytes es @ post) (int (length pre) - cnt) (cnt + int (length (ies_bytes es)))
      (None, fst ls, None, snd ls) cnt =
    Returns (None, fst (sec_lens es ls), None, snd (sec_lens es ls))"
  using assms
proof (induction es arbitrary: pre cnt ls)
  case Nil
  then show ?case by (subst sec_ie_loop.simps) simp
next
  case (Cons e es)
  let ?M = "pre @ ie_bytes e @ ies_bytes es @ post"
  have len: "uint (of_nat (length (snd e)) :: byte) = int (length (snd e))"
    using Cons.prems(1) by (simp add: uint_len_byte ie_ok_def)
  note rd = rd_ie [of pre e "ies_bytes es @ post"]
  have cmp: "(if fst e = 0xdd then rtw_memcmp ?M (int (length pre) + 2) RTW_WPA_OUI_TYPE 4 else Some False) =
      Some (wpa_oui_match e)"
    using Cons.prems(2) rtw_memcmp_ie [of 4 e RTW_WPA_OUI_TYPE pre "ies_bytes es @ post"]
    by (auto simp: vendor_ok_def wpa_oui_match_def RTW_WPA_OUI_TYPE_def)
  have IH: "sec_ie_loop fuel ?M (int (length pre) - cnt) (cnt + int (length (ie_bytes e @ ies_bytes es)))
      (None, fst ls', None, snd ls') (cnt + (int (length (snd e)) + 2)) =
    Returns (None, fst (sec_lens es ls'), None, snd (sec_lens es ls'))" for ls'
    using Cons.IH [of "pre @ ie_bytes e" "cnt + (int (length (snd e)) + 2)" ls'] Cons.prems
    by (simp add: vendor_ok_def algebra_simps)
  have IH2: "sec_ie_loop fuel ?M (int (length pre) - cnt) (cnt + int (length (ie_bytes e @ ies_bytes es)))
      (None, a, None, b) (cnt + (int (length (snd e)) + 2)) =
    Returns (None, fst (sec_lens es (a, b)), None, snd (sec_lens es (a, b)))" for a b
    using IH [of "(a, b)"] by simp
  show ?case
    using rd cmp len IH2 by (cases ls; subst sec_ie_loop.simps) (auto simp: copy_sec_ie_def add.commute)
qed

section \<open>The classification of a beacon\<close>

text \<open>
  A beacon body: 12 fixed bytes and whole elements; the vendor elements have at least 6 bytes and the
  HT elements are not cut after one byte.
\<close>

definition beacon_ok :: "byte list \<Rightarrow> ie list \<Rightarrow> bool" where
  "beacon_ok fixed es \<longleftrightarrow>
     length fixed = 12 \<and> list_all ie_ok es \<and> vendor_ok es \<and>
     list_all (\<lambda>e. fst e = 45 \<or> fst e = 61 \<longrightarrow> length (snd e) \<noteq> 1) es"

definition of_beacon :: "byte list \<Rightarrow> ie list \<Rightarrow> wlan_network \<Rightarrow> bool" where
  "of_beacon fixed es nw \<longleftrightarrow>
     nw_IEs nw = fixed @ ies_bytes es \<and> nw_IELength nw = int (length (fixed @ ies_bytes es))"

lemma ie_find_bound:
  assumes "ie_find P es = Some (k, e)"
  shows "k + length (ie_bytes e) \<le> length (ies_bytes es)" and "e \<in> set es"
  using ie_find_Some [OF assms] by auto

lemma set_ciphers_keeps:
  "set_ciphers out nw = (st, nw') \<Longrightarrow>
   nw_IEs nw' = nw_IEs nw \<and> nw_IELength nw' = nw_IELength nw \<and> encryp_protocol (nw_BcnInfo nw') = encryp_protocol (nw_BcnInfo nw)"
  by (auto simp: set_ciphers_def split: prod.splits if_splits)

lemma cipher_info_total:
  assumes "beacon_ok fixed es" and "of_beacon fixed es nw"
  shows "\<exists>st nw'. rtw_get_cipher_info nw = Some (st, nw') \<and> of_beacon fixed es nw' \<and>
    encryp_protocol (nw_BcnInfo nw') = encryp_protocol (nw_BcnInfo nw)"
proof -
  let ?M = "fixed @ ies_bytes es"
  have f: "length fixed = 12" "list_all ie_ok es" "vendor_ok es" using assms(1) by (simp_all add: beacon_ok_def)
  have nw: "nw_IEs nw = ?M" "nw_IELength nw - 12 = int (length (ies_bytes es))"
    using assms(2) f(1) by (simp_all add: of_beacon_def)
  have keep: "\<exists>st nw'. set_ciphers out nw = (st, nw') \<and> of_beacon fixed es nw' \<and>
      encryp_protocol (nw_BcnInfo nw') = encryp_protocol (nw_BcnInfo nw)" for out
  proof -
    obtain st nw' where st: "set_ciphers out nw = (st, nw')" by (cases "set_ciphers out nw")
    show ?thesis
      using set_ciphers_keeps [OF st] st assms(2) by (intro exI [of _ st] exI [of _ nw']) (simp add: of_beacon_def)
  qed
  have wpa: "rtw_get_wpa_ie ?M 12 (int (length (ies_bytes es))) = Some (case ie_find wpa_match es of
      None \<Rightarrow> (None, 0) | Some (k, e) \<Rightarrow> (Some (12 + int k), int (length (snd e))))"
    unfolding rtw_get_wpa_ie_def
    using wpa_ie_loop_els [OF f(2,3), of "int (length (ies_bytes es))" fixed 12 "[]"] f(1)
    by (simp split: option.splits)
  have rsn: "rtw_get_wpa2_ie ?M 12 0 (int (length (ies_bytes es))) = Some (case ie_find (\<lambda>e. fst e = 0x30) es of
      None \<Rightarrow> (None, 0) | Some (k, e) \<Rightarrow> (Some (12 + int k), int (length (snd e))))"
    unfolding rtw_get_wpa2_ie_def
    using rtw_get_ie_els [OF f(2), of fixed "[]" "0x30"] f(1) by (simp split: option.splits)
  show ?thesis
  proof (cases "ie_find wpa_match es")
    case (Some ke)
    obtain k e where ke: "ke = (k, e)" by (cases ke)
    have fnd: "ie_find wpa_match es = Some (k, e)" using Some ke by simp
    have "wpa_match e" using ie_find_Some [OF fnd] by blast
    with ie_find_bound [OF fnd] have b: "k + length (ie_bytes e) \<le> length (ies_bytes es)" "e \<in> set es" "wpa_match e"
      by simp_all
    then have d: "6 \<le> length (snd e)" using f(3) by (auto simp: vendor_ok_def list_all_iff wpa_match_def)
    obtain out where "rtw_parse_wpa_ie ?M (12 + int k) (int (length (snd e)) + 2) 0 0 (Some 0) = Some out"
      using parse_wpa_ie_total [of "12 + int k" "int (length (snd e)) + 2" ?M 0 0 "Some 0"] b(1) d f(1) by auto
    with keep [of out] show ?thesis
      using wpa Some ke nw d by (auto simp: rtw_get_cipher_info_def)
  next
    case None
    show ?thesis
    proof (cases "ie_find (\<lambda>e. fst e = 0x30) es")
      case None2: None
      with None wpa rsn nw assms(2) show ?thesis by (simp add: rtw_get_cipher_info_def)
    next
      case (Some ke)
      obtain k e where ke: "ke = (k, e)" by (cases ke)
      have b: "k + length (ie_bytes e) \<le> length (ies_bytes es)"
        using ie_find_bound(1) [of "\<lambda>e. fst e = 0x30" es k e] Some ke by simp
      obtain out where "rtw_parse_wpa2_ie ?M (12 + int k) (int (length (snd e)) + 2) 0 0 (Some 0) = Some out"
        using parse_wpa2_ie_total [of "12 + int k" "int (length (snd e)) + 2" ?M 0 0 "Some 0"] b f(1) by auto
      with keep [of out] None wpa rsn nw assms(2) Some ke show ?thesis
        by (auto simp: rtw_get_cipher_info_def)
    qed
  qed
qed

definition beacon_protocol :: "byte list \<Rightarrow> ie list \<Rightarrow> encryp_protocol_e" where
  "beacon_protocol fixed es =
     (if list_ex (\<lambda>e. fst e = 0x30) es then ENCRYP_PROTOCOL_WPA2
      else if list_ex wpa_oui_match es then ENCRYP_PROTOCOL_WPA
      else if le16_of (fixed ! 10) (fixed ! 11) AND 0x10 \<noteq> 0 then ENCRYP_PROTOCOL_WEP
      else ENCRYP_PROTOCOL_OPENSYS)"

text \<open>An HT element found by \<open>rtw_get_ie\<close> can be read at its first two bytes.\<close>

lemma ht_found_readable:
  fixes eid :: byte
  assumes "beacon_ok fixed es" and "eid = 45 \<or> eid = 61"
    and "rtw_get_ie (fixed @ ies_bytes es) 12 (uint eid) l (int (length (ies_bytes es))) = Some (Some q, n)" and "0 < n"
  shows "0 \<le> q" and "q + 4 \<le> int (length (fixed @ ies_bytes es))"
proof -
  have f: "length fixed = 12" "list_all ie_ok es" using assms(1) by (simp_all add: beacon_ok_def)
  have ne: "\<not> int (length (ies_bytes es)) < 1" using assms(3) by (auto simp: rtw_get_ie_def split: if_splits)
  then have "rtw_get_ie (fixed @ ies_bytes es) 12 (uint eid) l (int (length (ies_bytes es))) =
      rtw_get_ie (fixed @ ies_bytes es) 12 (uint eid) 0 (int (length (ies_bytes es)))" by (simp add: rtw_get_ie_def)
  then obtain k e where ke: "ie_find (\<lambda>e. fst e = eid) es = Some (k, e)" "q = 12 + int k" "n = int (length (snd e))"
    using rtw_get_ie_els [OF f(2), of fixed "[]" eid] assms(3) f(1) by (auto split: option.splits)
  have "fst e = eid" using ie_find_Some [OF ke(1)] by blast
  then have "length (snd e) \<noteq> 1" using assms(1,2) ie_find_bound(2) [OF ke(1)] by (auto simp: beacon_ok_def list_all_iff)
  then have "2 \<le> length (snd e)" using ke(3) assms(4) by linarith
  then show "0 \<le> q" "q + 4 \<le> int (length (fixed @ ies_bytes es))"
    using ie_find_bound(1) [OF ke(1)] ke(2) f(1) by auto
qed

lemma get_ie_total:
  assumes "list_all ie_ok es" and "length fixed = 12"
  shows "\<exists>r. rtw_get_ie (fixed @ ies_bytes es) 12 (uint (eid :: byte)) l (int (length (ies_bytes es))) = Some r"
proof (cases "es = []")
  case False
  then have "rtw_get_ie (fixed @ ies_bytes es) 12 (uint eid) l (int (length (ies_bytes es))) =
      rtw_get_ie (fixed @ ies_bytes es) 12 (uint eid) 0 (int (length (ies_bytes es)))"
    by (cases es) (simp_all add: rtw_get_ie_def)
  then show ?thesis using rtw_get_ie_els [OF assms(1), of fixed "[]" eid] assms(2) by auto
qed (simp add: rtw_get_ie_def)

lemma ht_fields_total:
  assumes "beacon_ok fixed es" and "of_beacon fixed es nw"
  shows "\<exists>a b. bcn_ht_info nw = Some (nw\<lparr>nw_BcnInfo := (nw_BcnInfo nw)\<lparr>ht_cap_info := a, ht_info_infos_0 := b\<rparr>\<rparr>)"
proof -
  let ?M = "fixed @ ies_bytes es" and ?L = "int (length (ies_bytes es))"
  have f: "length fixed = 12" "list_all ie_ok es" using assms(1) by (simp_all add: beacon_ok_def)
  have nw: "nw_IEs nw = ?M" "nw_IELength nw - 12 = ?L" using assms(2) f(1) by (simp_all add: of_beacon_def)
  obtain p n where g1: "rtw_get_ie ?M 12 45 0 ?L = Some (p, n)"
    using get_ie_total [OF f(2,1), of "45 :: byte" 0] by auto
  obtain a where c1: "(case p of
       Some q \<Rightarrow> if n > 0 then map_option (\<lambda>v. le16_of (v ! 0) (v ! 1)) (rd_bytes ?M (q + 2) 2) else Some 0
     | None \<Rightarrow> Some 0) = Some a"
  proof (cases p)
    case (Some q)
    have "0 < n \<Longrightarrow> 0 \<le> q \<and> q + 4 \<le> int (length ?M)"
      using ht_found_readable [OF assms(1), of "45 :: byte" 0 q n] g1 Some by simp
    then show ?thesis using Some that by (cases "n > 0") (auto simp: rd_bytes_def in_buf_def)
  qed simp
  obtain p' n' where g2: "rtw_get_ie ?M 12 61 n ?L = Some (p', n')"
    using get_ie_total [OF f(2,1), of "61 :: byte" n] by auto
  obtain b where c2: "(case p' of Some q \<Rightarrow> if n' > 0 then rd ?M (q + 2 + 1) else Some 0 | None \<Rightarrow> Some 0) = Some b"
  proof (cases p')
    case (Some q)
    have "0 < n' \<Longrightarrow> 0 \<le> q \<and> q + 4 \<le> int (length ?M)"
      using ht_found_readable [OF assms(1), of "61 :: byte" n q n'] g2 Some by simp
    then show ?thesis using Some that by (cases "n' > 0") (auto simp: rd_def)
  qed simp
  show ?thesis by (intro exI [of _ a] exI [of _ b]) (unfold bcn_ht_info_def nw, simp add: g1 c1 g2 c2)
qed

lemma sec_ie_beacon:
  assumes "beacon_ok fixed es"
  shows "\<exists>r. rtw_get_sec_ie 0 (fixed @ ies_bytes es) 0 (int (length (fixed @ ies_bytes es))) (None, 0, None, 0) =
    Returns (r, None, fst (sec_lens es (0, 0)), None, snd (sec_lens es (0, 0)))"
  using sec_ie_loop_els [of es 0 fixed "[]" 12 "(0, 0)"] assms
  by (simp add: rtw_get_sec_ie_def beacon_ok_def)

section \<open>Properties\<close>

text \<open>
  C20 (safety): both parsers read only the element they are given, whatever
  its contents: in a buffer that holds the element and the six (two) bytes of
  its header every access succeeds, so a result is returned.
\<close>

theorem wpa_parsers_safe:
  assumes "0 \<le> off" and "off + max 6 len \<le> int (length mem)"
  shows "(\<exists>r. rtw_parse_wpa_ie mem off len gc pc x = Some r) \<and>
    (\<exists>r. rtw_parse_wpa2_ie mem off len gc pc x = Some r)"
  using assms by (intro conjI parse_wpa_ie_total parse_wpa2_ie_total) simp_all

theorem wpa_parsers_safe_witness:
  "(\<exists>r. rtw_parse_wpa_ie [0xdd, 8, 0, 0x50, 0xf2, 1, 1, 0, 0, 0x50] 0 10 0 0 None = Some r) \<and>
   (\<exists>r. rtw_parse_wpa2_ie [0xdd, 8, 0, 0x50, 0xf2, 1, 1, 0, 0, 0x50] 0 10 0 0 None = Some r)"
  by (rule wpa_parsers_safe) simp_all

text \<open>
  C19 (roundtrip): an RSN element that lists a group suite, at least one pairwise suite and any
  key management suites parses to the group cipher, the union of the pairwise
  ciphers and the 802.1X flag of its first key management suite; so does the
  WPA element with the same body.
\<close>

theorem wpa_parse_suites:
  assumes "length g = 4" and "suites_ok ps" and "suites_ok akms" and "ps \<noteq> []"
    and "length (sec_suites g ps akms) \<le> 249"
  shows "rtw_parse_wpa2_ie (pre @ ie_bytes (0x30, [1, 0] @ sec_suites g ps akms) @ post) (int (length pre))
      (int (length (sec_suites g ps akms)) + 4) gc 0 (Some x) =
    Some (SUCCESS, rtw_get_wpa2_cipher_suite g, suites_or rtw_get_wpa2_cipher_suite ps 0,
      Some (if akms \<noteq> [] \<and> hd akms = [0x00, 0x0f, 0xac, 1] then 1 else x)) \<and>
    rtw_parse_wpa_ie (pre @ ie_bytes (0xdd, RTW_WPA_OUI_TYPE @ [1, 0] @ sec_suites g ps akms) @ post) (int (length pre))
      (int (length (sec_suites g ps akms)) + 8) gc 0 (Some x) =
    Some (SUCCESS, rtw_get_wpa_cipher_suite g, suites_or rtw_get_wpa_cipher_suite ps 0,
      Some (if akms \<noteq> [] \<and> hd akms = [0x00, 0x50, 0xf2, 1] then 1 else x))"
proof (intro conjI)
  let ?s = "sec_suites g ps akms"
  have n: "length ps < 2 ^ 16"
    using assms(5) length_concat_suites [OF assms(2)] by (simp add: sec_suites_def)
  note pg = parse_group_suites [OF assms(1-4) n]
  let ?r = "[0x30, of_nat (2 + length ?s), 1, 0] :: byte list"
  let ?w = "[0xdd, of_nat (6 + length ?s), 0x00, 0x50, 0xf2, 1, 1, 0] :: byte list"
  have r: "pre @ ie_bytes (0x30, [1, 0] @ ?s) @ post = (pre @ ?r) @ ?s @ post"
    and w: "pre @ ie_bytes (0xdd, RTW_WPA_OUI_TYPE @ [1, 0] @ ?s) @ post = (pre @ ?w) @ ?s @ post"
    by (simp_all add: ie_bytes_def RTW_WPA_OUI_TYPE_def)
  have rd2: "rd (pre @ a # b # l) (int (length pre)) = Some a" "rd (pre @ a # b # l) (int (length pre) + 1) = Some b"
    for a b :: byte and l by (simp_all add: rd_def nth_append nat_add_distrib)
  have b: "(word_of_int (int (length ?s) + 2) :: byte) = of_nat (2 + length ?s)"
    "(word_of_int (int (length ?s) + 6) :: byte) = of_nat (6 + length ?s)"
    by (simp_all add: add.commute)
  have cmp: "rtw_memcmp ((pre @ ?w) @ ?s @ post) (int (length pre) + 2) RTW_WPA_OUI_TYPE 4 = Some True"
  proof -
    have "rd_bytes ((pre @ take 2 ?w) @ RTW_WPA_OUI_TYPE @ [1, 0] @ ?s @ post) (int (length (pre @ take 2 ?w))) (int 4) =
        Some RTW_WPA_OUI_TYPE"
      using rd_bytes_mid [of "pre @ take 2 ?w" RTW_WPA_OUI_TYPE] by (simp add: RTW_WPA_OUI_TYPE_def)
    moreover have "rd_bytes RTW_WPA_OUI_TYPE 0 4 = Some RTW_WPA_OUI_TYPE"
      using rd_bytes_nat [of 0 4 RTW_WPA_OUI_TYPE] by (simp add: RTW_WPA_OUI_TYPE_def)
    ultimately show ?thesis by (simp add: rtw_memcmp_def RTW_WPA_OUI_TYPE_def add.commute)
  qed
  show "rtw_parse_wpa2_ie (pre @ ie_bytes (0x30, [1, 0] @ ?s) @ post) (int (length pre)) (int (length ?s) + 4) gc 0 (Some x) =
    Some (SUCCESS, rtw_get_wpa2_cipher_suite g, suites_or rtw_get_wpa2_cipher_suite ps 0,
      Some (if akms \<noteq> [] \<and> hd akms = [0x00, 0x0f, 0xac, 1] then 1 else x))"
    unfolding r using pg [of "[0x00, 0x0f, 0xac, 1]" rtw_get_wpa2_cipher_suite "pre @ ?r" post gc 0 x] b(1)
    by (simp add: rtw_parse_wpa2_ie_def rd2 add.commute [of 4 "int (length pre)"])
  show "rtw_parse_wpa_ie (pre @ ie_bytes (0xdd, RTW_WPA_OUI_TYPE @ [1, 0] @ ?s) @ post) (int (length pre)) (int (length ?s) + 8) gc 0 (Some x) =
    Some (SUCCESS, rtw_get_wpa_cipher_suite g, suites_or rtw_get_wpa_cipher_suite ps 0,
      Some (if akms \<noteq> [] \<and> hd akms = [0x00, 0x50, 0xf2, 1] then 1 else x))"
    unfolding w using pg [of "[0x00, 0x50, 0xf2, 1]" rtw_get_wpa_cipher_suite "pre @ ?w" post gc 0 x] b(2) cmp
    by (simp add: rtw_parse_wpa_ie_def rd2 add.commute [of 8 "int (length pre)"])
qed

theorem wpa_parse_suites_witness:
  "rtw_parse_wpa2_ie ([7] @ ie_bytes (0x30, [1, 0] @ sec_suites [0, 0x0f, 0xac, 2] [[0, 0x0f, 0xac, 4], [0, 0x0f, 0xac, 2]] [[0, 0x0f, 0xac, 1]]) @ [9])
     1 (int (length (sec_suites [0, 0x0f, 0xac, 2] [[0, 0x0f, 0xac, 4], [0, 0x0f, 0xac, 2]] [[0, 0x0f, 0xac, 1]])) + 4) 0 0 (Some 0) =
   Some (SUCCESS, 8, 24, Some 1)"
  using wpa_parse_suites [of "[0, 0x0f, 0xac, 2]" "[[0, 0x0f, 0xac, 4], [0, 0x0f, 0xac, 2]]" "[[0, 0x0f, 0xac, 1]]" "[7]" "[9]" 0 0]
  by (simp add: suites_ok_def sec_suites_def suites_or_def rtw_get_wpa2_cipher_suite_def WPA_CIPHER_TKIP_def WPA_CIPHER_CCMP_def)

text \<open>
  C18 (functional): a beacon of 12 fixed bytes and whole elements, of which the vendor elements have
  at least 6 bytes and the HT elements (45 and 61) are not cut after one byte, is classified:
  with an RSN element as WPA2, else with a WPA element as WPA, else by the privacy bit of its
  capability field as WEP or open.  (On a shorter vendor element the code compares the vendor's
  identifier with bytes of the element behind it; such beacons are not covered.)
\<close>

theorem bcn_info_protocol:
  assumes "beacon_ok fixed es" and "of_beacon fixed es nw"
  shows "\<exists>nw'. rtw_get_bcn_info nw = Returns nw' \<and> encryp_protocol (nw_BcnInfo nw') = beacon_protocol fixed es"
proof -
  let ?M = "fixed @ ies_bytes es"
  have f: "length fixed = 12" using assms(1) by (simp add: beacon_ok_def)
  have nw: "nw_IEs nw = ?M" "nw_IELength nw = int (length ?M)" using assms(2) by (simp_all add: of_beacon_def)
  have cap: "rd_bytes ?M 10 2 = Some [fixed ! 10, fixed ! 11]"
  proof -
    have "rd_bytes ?M (int 10) (int 2) = Some (take 2 (drop 10 fixed))"
      using f by (subst rd_bytes_nat) simp_all
    moreover have "take 2 (drop 10 fixed) = [fixed ! 10, fixed ! 11]"
      using f by (intro nth_equalityI) (auto simp: less_Suc_eq numeral_2_eq_2)
    ultimately show ?thesis by simp
  qed
  obtain r where sec: "rtw_get_sec_ie 0 ?M 0 (int (length ?M)) (None, 0, None, 0) =
      Returns (r, None, fst (sec_lens es (0, 0)), None, snd (sec_lens es (0, 0)))"
    using sec_ie_beacon [OF assms(1)] by blast
  define bencrypt where "bencrypt = (le16_of (fixed ! 10) (fixed ! 11) AND 0x10 \<noteq> 0)"
  define nw1 where "nw1 = bcn_privacy bencrypt nw"
  define nw2 where "nw2 = bcn_encryp bencrypt (fst (sec_lens es (0, 0))) (snd (sec_lens es (0, 0))) nw1"
  have n1: "nw_IEs nw1 = ?M" "nw_IELength nw1 = int (length ?M)" using nw by (simp_all add: nw1_def bcn_privacy_def)
  then have b2: "of_beacon fixed es nw2" by (simp add: of_beacon_def nw2_def bcn_encryp_def)
  have p2: "encryp_protocol (nw_BcnInfo nw2) = beacon_protocol fixed es"
    using sec_lens_pos [of "(0, 0)" es]
    by (simp add: nw2_def nw1_def bcn_encryp_def bcn_privacy_def beacon_protocol_def bencrypt_def)
  obtain st nw3 where c: "rtw_get_cipher_info nw2 = Some (st, nw3)" "of_beacon fixed es nw3"
      "encryp_protocol (nw_BcnInfo nw3) = encryp_protocol (nw_BcnInfo nw2)"
    using cipher_info_total [OF assms(1) b2] by blast
  obtain a b where ht: "bcn_ht_info nw3 = Some (nw3\<lparr>nw_BcnInfo := (nw_BcnInfo nw3)\<lparr>ht_cap_info := a, ht_info_infos_0 := b\<rparr>\<rparr>)"
    using ht_fields_total [OF assms(1) c(2)] by blast
  have "rtw_get_bcn_info nw = Returns (nw3\<lparr>nw_BcnInfo := (nw_BcnInfo nw3)\<lparr>ht_cap_info := a, ht_info_infos_0 := b\<rparr>\<rparr>)"
    using ht c(1) sec n1 unfolding rtw_get_bcn_info_def nw(1) cap nw2_def nw1_def bencrypt_def
    by (simp add: Let_def)
  then show ?thesis using c(3) p2 by simp
qed

theorem bcn_info_protocol_witness:
  "let nw = \<lparr>nw_IEs = replicate 10 0 @ [0x11, 0] @ ies_bytes [(0, [0x61]), (0x30, [1, 0])], nw_IELength = 19, nw_Privacy = 0,
        nw_BcnInfo = \<lparr>encryp_protocol = ENCRYP_PROTOCOL_OPENSYS, group_cipher = 0, pairwise_cipher = 0, is_8021x = 0,
          ht_cap_info = 0, ht_info_infos_0 = 0\<rparr>\<rparr>
   in \<exists>nw'. rtw_get_bcn_info nw = Returns nw' \<and> encryp_protocol (nw_BcnInfo nw') = ENCRYP_PROTOCOL_WPA2"
  using bcn_info_protocol [of "replicate 10 0 @ [0x11, 0]" "[(0, [0x61]), (0x30, [1, 0])]"
      "\<lparr>nw_IEs = replicate 10 0 @ [0x11, 0] @ ies_bytes [(0, [0x61]), (0x30, [1, 0])], nw_IELength = 19, nw_Privacy = 0,
        nw_BcnInfo = \<lparr>encryp_protocol = ENCRYP_PROTOCOL_OPENSYS, group_cipher = 0, pairwise_cipher = 0, is_8021x = 0,
          ht_cap_info = 0, ht_info_infos_0 = 0\<rparr>\<rparr>"]
  by (simp add: beacon_ok_def of_beacon_def beacon_protocol_def ie_ok_def vendor_ok_def)

section \<open>The 8-bit counter of \<open>rtw_get_sec_ie\<close>\<close>

lemma dump_loop_ends:
  "n \<le> 248 \<Longrightarrow> 248 \<le> uint i + 8 * (int fuel - 1) \<Longrightarrow> 0 < fuel \<Longrightarrow> dump_loop fuel i n"
proof (induction fuel arbitrary: i)
  case (Suc fuel)
  show ?case
  proof (cases "uint i < n")
    case True
    then have "uint (i + 8) = uint i + 8" using Suc.prems(1) by (simp add: uint_word_ariths)
    then show ?thesis using Suc True by simp
  qed simp
qed simp

lemma dump_loop_wraps: "248 < n \<Longrightarrow> \<not> dump_loop fuel (word_of_int (8 * k)) n"
proof (induction fuel arbitrary: k)
  case (Suc fuel)
  have "uint (word_of_int (8 * k) :: byte) = 8 * k mod 256" by (subst uint_word_of_int) simp
  moreover have "8 * k mod 256 \<le> 248"
    using mod_mult_mult1 [of 8 k 32] pos_mod_bound [of 32 k] by simp
  moreover have "word_of_int (8 * k) + 8 = (word_of_int (8 * (k + 1)) :: byte)" by (simp add: algebra_simps)
  ultimately show ?case using Suc.IH [of "k + 1"] Suc.prems by (simp only: dump_loop.simps) simp
qed simp

lemma copy_sec_ie_cases:
  assumes "length d = 255"
  shows "length s \<le> 248 \<Longrightarrow> 32 \<le> fuel \<Longrightarrow>
      copy_sec_ie fuel (pre @ s @ post) (int (length pre)) (int (length s)) (Some d) = Returns (Some (s @ drop (length s) d))"
    and "248 < length s \<Longrightarrow> length s \<le> 255 \<Longrightarrow>
      copy_sec_ie fuel (pre @ s @ post) (int (length pre)) (int (length s)) (Some d) = Running"
    and "255 < length s \<Longrightarrow>
      copy_sec_ie fuel (pre @ s @ post) (int (length pre)) (int (length s)) (Some d) = Fault"
  using assms dump_loop_ends [of "int (length s)" 0 fuel] dump_loop_wraps [of "int (length s)" fuel 0]
  by (simp_all add: copy_sec_ie_def wr_bytes_def in_buf_def rd_bytes_mid overlay_def)

lemma sec_ie_element_cases:
  assumes "length fixed = 12" and "length dst = 255" and "length d \<le> 255"
  shows "length d \<le> 246 \<Longrightarrow> 32 \<le> fuel \<Longrightarrow>
      rtw_get_sec_ie fuel (fixed @ ie_bytes (0x30, d)) 0 (int (length d) + 14) (Some dst, 0, wpa, 0) =
        Returns (int (length d) + 2, Some (ie_bytes (0x30, d) @ drop (length d + 2) dst), int (length d) + 2, wpa, 0)"
    and "247 \<le> length d \<Longrightarrow> length d \<le> 253 \<Longrightarrow>
      rtw_get_sec_ie fuel (fixed @ ie_bytes (0x30, d)) 0 (int (length d) + 14) (Some dst, 0, wpa, 0) = Running"
    and "254 \<le> length d \<Longrightarrow>
      rtw_get_sec_ie fuel (fixed @ ie_bytes (0x30, d)) 0 (int (length d) + 14) (Some dst, 0, wpa, 0) = Fault"
proof -
  let ?M = "fixed @ ie_bytes (0x30, d)"
  have len: "uint (of_nat (length d) :: byte) = int (length d)" using assms(3) by (simp add: uint_len_byte)
  have rd: "rd ?M 12 = Some 0x30" "rd ?M 13 = Some (of_nat (length d))"
    using rd_ie [of fixed "(0x30, d)" "[]"] assms(1) by simp_all
  have step: "sec_ie_loop fuel ?M 0 (int (length d) + 14) (Some dst, 0, wpa, 0) 12 =
     (case copy_sec_ie fuel ?M 12 (int (length d) + 2) (Some dst) of
        Running \<Rightarrow> Running
      | Fault \<Rightarrow> Fault
      | Returns rsn \<Rightarrow> Returns (rsn, int (length d) + 2, wpa, 0))"
  proof -
    have "(0x30 :: byte) \<noteq> 0xdd" by simp
    moreover have "sec_ie_loop fuel ?M 0 (int (length d) + 14) out (12 + (int (length d) + 2)) = Returns out" for out
      by (subst sec_ie_loop.simps) simp
    ultimately show ?thesis
      using rd len by (subst sec_ie_loop.simps) (simp split: outcome.split)
  qed
  note copy = copy_sec_ie_cases [OF assms(2), of "ie_bytes (0x30, d)" fuel fixed "[]"]
  show "length d \<le> 246 \<Longrightarrow> 32 \<le> fuel \<Longrightarrow>
      rtw_get_sec_ie fuel ?M 0 (int (length d) + 14) (Some dst, 0, wpa, 0) =
        Returns (int (length d) + 2, Some (ie_bytes (0x30, d) @ drop (length d + 2) dst), int (length d) + 2, wpa, 0)"
    using step copy(1) assms(1) by (simp add: rtw_get_sec_ie_def add.commute)
  show "247 \<le> length d \<Longrightarrow> length d \<le> 253 \<Longrightarrow>
      rtw_get_sec_ie fuel ?M 0 (int (length d) + 14) (Some dst, 0, wpa, 0) = Running"
    using step copy(2) assms(1) by (simp add: rtw_get_sec_ie_def add.commute)
  show "254 \<le> length d \<Longrightarrow>
      rtw_get_sec_ie fuel ?M 0 (int (length d) + 14) (Some dst, 0, wpa, 0) = Fault"
    using step copy(3) assms(1) by (simp add: rtw_get_sec_ie_def add.commute)
qed

text \<open>
  C22 (error): called with a 255-byte buffer, as \<open>translate_scan\<close> of src/os_dep/ioctl_linux.c does,
  \<open>rtw_get_sec_ie\<close> copies an RSN element of up to 246 data bytes; for one of
  247 to 253 bytes the loop after the copy never ends, because its 8-bit
  counter wraps below the bound, and for one of 254 or 255 bytes the copy
  writes past the buffer.
\<close>

theorem sec_ie_long_element:
  assumes "length fixed = 12" and "length dst = 255" and "length d \<le> 255"
  shows "(length d \<le> 246 \<longrightarrow> 32 \<le> fuel \<longrightarrow>
      rtw_get_sec_ie fuel (fixed @ ie_bytes (0x30, d)) 0 (int (length d) + 14) (Some dst, 0, wpa, 0) =
        Returns (int (length d) + 2, Some (ie_bytes (0x30, d) @ drop (length d + 2) dst), int (length d) + 2, wpa, 0)) \<and>
    (247 \<le> length d \<and> length d \<le> 253 \<longrightarrow>
      rtw_get_sec_ie fuel (fixed @ ie_bytes (0x30, d)) 0 (int (length d) + 14) (Some dst, 0, wpa, 0) = Running) \<and>
    (254 \<le> length d \<longrightarrow>
      rtw_get_sec_ie fuel (fixed @ ie_bytes (0x30, d)) 0 (int (length d) + 14) (Some dst, 0, wpa, 0) = Fault)"
  using sec_ie_element_cases [OF assms] by blast

theorem sec_ie_long_element_witness:
  "rtw_get_sec_ie 100 (replicate 12 0 @ ie_bytes (0x30, replicate 247 1)) 0 261 (Some (replicate 255 0), 0, None, 0) = Running \<and>
   rtw_get_sec_ie 100 (replicate 12 0 @ ie_bytes (0x30, replicate 254 1)) 0 268 (Some (replicate 255 0), 0, None, 0) = Fault"
  using sec_ie_long_element [of "replicate 12 0" "replicate 255 0" "replicate 247 1" 100 None]
    sec_ie_long_element [of "replicate 12 0" "replicate 255 0" "replicate 254 1" 100 None]
  by simp

end
