(* ===== verification/Rates.thy ===== *)
theory Rates
  imports Ie
begin

text \<open>
  Rate sets, the elements of an IBSS beacon and the small decoders of
  src/core/rtw_ieee80211.c: \<open>rtw_check_network_type\<close>, \<open>rtw_set_supported_rate\<close>,
  \<open>rtw_get_rateset_len\<close>, \<open>rtw_generate_ie\<close>, \<open>rtw_macaddr_cfg\<close>,
  \<open>ieee80211_is_empty_essid\<close>, \<open>ieee80211_get_hdrlen\<close>, \<open>rtw_mcs_rate\<close> and
  \<open>rtw_action_frame_parse\<close>.

  Shown: the network type is the one of the rates up to the first zero byte;
  the rates written for a mode are classified as that mode; the bytes
  \<open>rtw_generate_ie\<close> writes; the MAC address round trip; the reported MCS rate
  is the greatest of the advertised ones.
\<close>

section \<open>Rate sets\<close>

definition dot11_rate_table :: "byte list" where
  "dot11_rate_table = [2, 4, 11, 22, 12, 18, 24, 36, 48, 72, 96, 108, 0]"

text \<open>The table ends in 0; the recursion is on the part not yet compared.\<close>

fun bit_value_loop :: "byte list \<Rightarrow> nat \<Rightarrow> byte \<Rightarrow> int" where
  "bit_value_loop [] i val = 0"
| "bit_value_loop (r # rs) i val =
     (if r \<noteq> 0 then (if r = val then 2 ^ i else bit_value_loop rs (i + 1) val) else 0)"

definition rtw_get_bit_value_from_ieee_value :: "byte \<Rightarrow> int" where
  "rtw_get_bit_value_from_ieee_value val = bit_value_loop dot11_rate_table 0 val"

definition is_cck :: "byte \<Rightarrow> bool" where
  "is_cck r \<longleftrightarrow> r AND 0x7f = 2 \<or> r AND 0x7f = 4 \<or> r AND 0x7f = 11 \<or> r AND 0x7f = 22"

text \<open>The two scans stop at a zero byte; without one they read past the array.\<close>

fun rtw_is_cckrates_included :: "byte list \<Rightarrow> bool option" where
  "rtw_is_cckrates_included [] = None"
| "rtw_is_cckrates_included (r # rate) =
     (if r \<noteq> 0 then (if is_cck r then Some True else rtw_is_cckrates_included rate) else Some False)"

fun rtw_is_cckratesonly_included :: "byte list \<Rightarrow> bool option" where
  "rtw_is_cckratesonly_included [] = None"
| "rtw_is_cckratesonly_included (r # rate) =
     (if r \<noteq> 0 then (if \<not> is_cck r then Some False else rtw_is_cckratesonly_included rate) else Some True)"

definition WIRELESS_INVALID :: int where "WIRELESS_INVALID = 0"
definition WIRELESS_11B :: int where "WIRELESS_11B = 1"
definition WIRELESS_11G :: int where "WIRELESS_11G = 2"
definition WIRELESS_11A :: int where "WIRELESS_11A = 4"
definition WIRELESS_11_24N :: int where "WIRELESS_11_24N = 8"
definition WIRELESS_11_5N :: int where "WIRELESS_11_5N = 16"
definition WIRELESS_11AC :: int where "WIRELESS_11AC = 64"
definition WIRELESS_11BG :: int where "WIRELESS_11BG = WIRELESS_11B OR WIRELESS_11G"
definition WIRELESS_11G_24N :: int where "WIRELESS_11G_24N = WIRELESS_11G OR WIRELESS_11_24N"
definition WIRELESS_11A_5N :: int where "WIRELESS_11A_5N = WIRELESS_11A OR WIRELESS_11_5N"
definition WIRELESS_11BG_24N :: int where "WIRELESS_11BG_24N = WIRELESS_11B OR WIRELESS_11G OR WIRELESS_11_24N"
definition WIRELESS_11_5AC :: int where "WIRELESS_11_5AC = WIRELESS_11A OR WIRELESS_11AC"
definition WIRELESS_11ABGN :: int where
  "WIRELESS_11ABGN = WIRELESS_11A OR WIRELESS_11B OR WIRELESS_11G OR WIRELESS_11_24N OR WIRELESS_11_5N"
definition WIRELESS_MODE_MAX :: int where
  "WIRELESS_MODE_MAX =
     WIRELESS_11A OR WIRELESS_11B OR WIRELESS_11G OR WIRELESS_11_24N OR WIRELESS_11_5N OR WIRELESS_11AC"

lemmas wireless_defs =
  WIRELESS_INVALID_def WIRELESS_11B_def WIRELESS_11G_def WIRELESS_11A_def WIRELESS_11_24N_def WIRELESS_11_5N_def
  WIRELESS_11AC_def WIRELESS_11BG_def WIRELESS_11G_24N_def WIRELESS_11A_5N_def WIRELESS_11BG_24N_def
  WIRELESS_11_5AC_def WIRELESS_11ABGN_def WIRELESS_MODE_MAX_def

definition rtw_check_network_type :: "byte list \<Rightarrow> int \<Rightarrow> int \<Rightarrow> int option" where
  "rtw_check_network_type rate ratelen channel =
     (if channel > 14 then do {
        cck \<leftarrow> rtw_is_cckrates_included rate;
        Some (if cck then WIRELESS_INVALID else WIRELESS_11A)
      } else do {
        only \<leftarrow> rtw_is_cckratesonly_included rate;
        if only then Some WIRELESS_11B
        else do {
          cck \<leftarrow> rtw_is_cckrates_included rate;
          Some (if cck then WIRELESS_11BG else WIRELESS_11G)
        }
      })"

definition WIFI_CCKRATES :: "byte list" where
  "WIFI_CCKRATES = [0x02 OR 0x80, 0x04 OR 0x80, 0x0B OR 0x80, 0x16 OR 0x80]"

definition WIFI_OFDMRATES :: "byte list" where
  "WIFI_OFDMRATES = [0x0C, 0x12, 0x18, 0x24, 0x30, 0x48, 0x60, 0x6C]"

definition rtw_set_supported_rate :: "byte list \<Rightarrow> int \<Rightarrow> byte list option" where
  "rtw_set_supported_rate SupportedRates mode = do {
     rates \<leftarrow> wr_bytes SupportedRates 0 (replicate 16 0);
     if mode = WIRELESS_11B then wr_bytes rates 0 WIFI_CCKRATES
     else if mode = WIRELESS_11G \<or> mode = WIRELESS_11A \<or> mode = WIRELESS_11_5N \<or> mode = WIRELESS_11A_5N \<or>
       mode = WIRELESS_11_5AC then wr_bytes rates 0 WIFI_OFDMRATES
     else if mode = WIRELESS_11BG \<or> mode = WIRELESS_11G_24N \<or> mode = WIRELESS_11_24N \<or> mode = WIRELESS_11BG_24N then do {
       rates \<leftarrow> wr_bytes rates 0 WIFI_CCKRATES;
       wr_bytes rates 4 WIFI_OFDMRATES
     } else Some rates
   }"

function rateset_loop :: "byte list \<Rightarrow> int \<Rightarrow> int option" where
  "rateset_loop rateset i = do {
     r \<leftarrow> rd rateset i;
     if r = 0 then Some i else if i > 12 then Some i else rateset_loop rateset (i + 1)
   }"
  by pat_completeness auto
termination by (relation "measure (\<lambda>(_, i). nat (13 - i))") auto

declare rateset_loop.simps [simp del]

definition rtw_get_rateset_len :: "byte list \<Rightarrow> int option" where
  "rtw_get_rateset_len rateset = rateset_loop rateset 0"

section \<open>The elements of an IBSS beacon\<close>

record wlan_bssid_ex =
  bx_SsidLength :: u32
  bx_Ssid :: "byte list"
  bx_Privacy :: u32
  bx_BeaconPeriod :: u32
  bx_ATIMWindow :: u32
  bx_DSConfig :: u32
  bx_SupportedRates :: "byte list"
  bx_IEs :: "byte list"

definition PREAMBLE_SHORT :: byte where "PREAMBLE_SHORT = 3"

definition ibss_capability :: "byte \<Rightarrow> u32 \<Rightarrow> u16" where
  "ibss_capability preamble privacy =
     0x02 OR (if preamble = PREAMBLE_SHORT then 0x20 else 0) OR (if privacy \<noteq> 0 then 0x10 else 0)"

definition generate_ie_mode :: "u32 \<Rightarrow> int" where
  "generate_ie_mode dsconfig =
     (if WIRELESS_MODE_MAX = WIRELESS_11ABGN then (if dsconfig > 14 then WIRELESS_11A_5N else WIRELESS_11BG_24N)
      else WIRELESS_MODE_MAX)"

text \<open>
  The configuration words are stored from their first byte, the least
  significant one on the little-endian build.
\<close>

definition rtw_generate_ie :: "byte \<Rightarrow> wlan_bssid_ex \<Rightarrow> (u32 \<times> wlan_bssid_ex) option" where
  "rtw_generate_ie preamble bx = do {
     ies \<leftarrow> wr_bytes (bx_IEs bx) 8 (RTW_PUT_LE16 (ucast (bx_BeaconPeriod bx)));
     ies \<leftarrow> wr_bytes ies 10 (RTW_PUT_LE16 (ibss_capability preamble (bx_Privacy bx)));
     (ie, sz, ies) \<leftarrow> rtw_set_ie ies 12 0 (bx_SsidLength bx) (bx_Ssid bx) 12;
     rates \<leftarrow> rtw_set_supported_rate (bx_SupportedRates bx) (generate_ie_mode (bx_DSConfig bx));
     rateLen \<leftarrow> rtw_get_rateset_len rates;
     (ie, sz, ies) \<leftarrow> (if rateLen > 8 then rtw_set_ie ies ie 1 8 rates sz
                        else rtw_set_ie ies ie 1 (word_of_int rateLen) rates sz);
     (ie, sz, ies) \<leftarrow> rtw_set_ie ies ie 3 1 (le32_bytes (bx_DSConfig bx)) sz;
     (ie, sz, ies) \<leftarrow> rtw_set_ie ies ie 6 2 (le32_bytes (bx_ATIMWindow bx)) sz;
     (ie, sz, ies) \<leftarrow> (if rateLen > 8 then rtw_set_ie ies ie 50 (word_of_int (rateLen - 8)) (drop 8 rates) sz
                        else Some (ie, sz, ies));
     Some (sz, bx\<lparr>bx_SupportedRates := rates, bx_IEs := ies\<rparr>)
   }"

section \<open>MAC address configuration\<close>

text \<open>Characters are their ASCII codes.\<close>

definition key_char2num :: "byte \<Rightarrow> byte" where
  "key_char2num ch =
     (if 0x30 \<le> ch \<and> ch \<le> 0x39 then ch - 0x30
      else if 0x61 \<le> ch \<and> ch \<le> 0x66 then ch - 0x61 + 10
      else if 0x41 \<le> ch \<and> ch \<le> 0x46 then ch - 0x41 + 10
      else 0xff)"

definition str_2char2num :: "byte \<Rightarrow> byte \<Rightarrow> byte" where
  "str_2char2num hch lch = key_char2num hch * 10 + key_char2num lch"

definition key_2char2num :: "byte \<Rightarrow> byte \<Rightarrow> byte" where
  "key_2char2num hch lch = push_bit 4 (key_char2num hch) OR key_char2num lch"

definition convert_ip_addr :: "byte \<Rightarrow> byte \<Rightarrow> byte \<Rightarrow> byte" where
  "convert_ip_addr hch mch lch = key_char2num hch * 100 + key_char2num mch * 10 + key_char2num lch"

fun initmac_loop :: "byte list \<Rightarrow> nat \<Rightarrow> int \<Rightarrow> byte list option" where
  "initmac_loop s 0 kk = Some []"
| "initmac_loop s (Suc n) kk = do {
     h \<leftarrow> rd s kk;
     l \<leftarrow> rd s (kk + 1);
     mac \<leftarrow> initmac_loop s n (kk + 3);
     Some (key_2char2num h l # mac)
   }"

text \<open>\<open>initmac\<close> is the module parameter \<open>rtw_initmac\<close>, \<open>mac_addr\<close> the address read from the efuse.\<close>

definition rtw_macaddr_cfg :: "byte list option \<Rightarrow> byte list \<Rightarrow> byte list option" where
  "rtw_macaddr_cfg initmac mac_addr = do {
     mac \<leftarrow> (case initmac of Some s \<Rightarrow> initmac_loop s 6 0 | None \<Rightarrow> rd_bytes mac_addr 0 6);
     mac_addr \<leftarrow> (case initmac of Some s \<Rightarrow> wr_bytes mac_addr 0 mac | None \<Rightarrow> Some mac_addr);
     if mac = replicate 6 0xff \<or> mac = replicate 6 0 then wr_bytes mac_addr 0 [0x00, 0xe0, 0x4c, 0x87, 0x00, 0x00]
     else Some mac_addr
   }"

section \<open>Small decoders\<close>

fun empty_essid_loop :: "byte list \<Rightarrow> nat \<Rightarrow> bool option" where
  "empty_essid_loop essid 0 = Some True"
| "empty_essid_loop essid (Suc n) = do {
     c \<leftarrow> rd essid (int n);
     if c \<noteq> 0 then Some False else empty_essid_loop essid n
   }"

definition ieee80211_is_empty_essid :: "byte list \<Rightarrow> nat \<Rightarrow> bool option" where
  "ieee80211_is_empty_essid essid essid_len = do {
     blank \<leftarrow> (if essid_len = 1 then map_option (\<lambda>c. c = 0x20) (rd essid 0) else Some False);
     if blank then Some True else empty_essid_loop essid essid_len
   }"

definition ieee80211_get_hdrlen :: "u16 \<Rightarrow> int" where
  "ieee80211_get_hdrlen fc =
     (if fc AND 0x000c = 0x0008 then
        24 + (if fc AND 0x0080 \<noteq> 0 then 2 else 0) + (if fc AND 0x0200 \<noteq> 0 \<and> fc AND 0x0100 \<noteq> 0 then 6 else 0)
      else if fc AND 0x000c = 0x0004 then
        (if fc AND 0x00f0 = 0x00C0 \<or> fc AND 0x00f0 = 0x00D0 then 10 else 16)
      else 24)"

definition mcs_pick :: "bool \<Rightarrow> bool \<Rightarrow> bool \<Rightarrow> nat \<Rightarrow> nat \<Rightarrow> nat \<Rightarrow> nat \<Rightarrow> nat" where
  "mcs_pick bw_40MHz short_GI_20 short_GI_40 a b c d =
     (if bw_40MHz then (if short_GI_40 then a else b) else (if short_GI_20 then c else d))"

definition mcs_1ss :: "(nat \<Rightarrow> nat \<Rightarrow> nat \<Rightarrow> nat \<Rightarrow> nat) \<Rightarrow> byte \<Rightarrow> nat" where
  "mcs_1ss pick m =
     (if bit m 7 then pick 1500 1350 722 650
      else if bit m 6 then pick 1350 1215 650 585
      else if bit m 5 then pick 1200 1080 578 520
      else if bit m 4 then pick 900 810 433 390
      else if bit m 3 then pick 600 540 289 260
      else if bit m 2 then pick 450 405 217 195
      else if bit m 1 then pick 300 270 144 130
      else if bit m 0 then pick 150 135 72 65
      else 0)"

definition mcs_2ss :: "(nat \<Rightarrow> nat \<Rightarrow> nat \<Rightarrow> nat \<Rightarrow> nat) \<Rightarrow> byte \<Rightarrow> nat" where
  "mcs_2ss pick m =
     (if bit m 7 then pick 3000 2700 1444 1300
      else if bit m 6 then pick 2700 2430 1300 1170
      else if bit m 5 then pick 2400 2160 1156 1040
      else if bit m 4 then pick 1800 1620 867 780
      else if bit m 3 then pick 1200 1080 578 520
      else if bit m 2 then pick 900 810 433 390
      else if bit m 1 then pick 600 540 289 260
      else if bit m 0 then pick 300 270 144 130
      else 0)"

definition RF_1T1R :: byte where "RF_1T1R = 3"

definition rtw_mcs_rate :: "byte \<Rightarrow> bool \<Rightarrow> bool \<Rightarrow> bool \<Rightarrow> byte \<Rightarrow> byte \<Rightarrow> nat" where
  "rtw_mcs_rate rf_type bw_40MHz short_GI_20 short_GI_40 mcs0 mcs1 =
     (let pick = mcs_pick bw_40MHz short_GI_20 short_GI_40 in
      if rf_type = RF_1T1R then mcs_1ss pick mcs0
      else if mcs1 \<noteq> 0 then mcs_2ss pick mcs1
      else mcs_1ss pick mcs0)"

text \<open>
  \<open>rtw_action_frame_parse\<close>: \<open>a0\<close> is the indeterminate initial value of the local
  \<open>a\<close>, stored unchanged for the vendor-specific category.  The length argument is not used.
\<close>

definition rtw_action_frame_parse :: "byte list \<Rightarrow> int \<Rightarrow> byte \<Rightarrow> (bool \<times> (byte \<times> byte) option) option" where
  "rtw_action_frame_parse frame frame_len a0 = do {
     f \<leftarrow> rd_bytes frame 0 2;
     if le16_of (f ! 0) (f ! 1) AND (0x000c OR 0x00f0) \<noteq> 0x0000 OR 0x00D0 then Some (False, None)
     else do {
       c \<leftarrow> rd frame 24;
       a \<leftarrow> (if c = 0x7f then Some a0 else rd frame (24 + 1));
       Some (True, Some (c, a))
     }
   }"

section \<open>Classification of rate sets\<close>

text \<open>The rates of an array are its bytes before the first zero.\<close>

definition rates_of :: "byte list \<Rightarrow> byte list" where
  "rates_of rate = takeWhile (\<lambda>r. r \<noteq> 0) rate"

lemma cckrates_included: "0 \<in> set rate \<Longrightarrow> rtw_is_cckrates_included rate = Some (list_ex is_cck (rates_of rate))"
  by (induction rate) (auto simp: rates_of_def)

lemma cckratesonly_included:
  "0 \<in> set rate \<Longrightarrow> rtw_is_cckratesonly_included rate = Some (list_all is_cck (rates_of rate))"
  by (induction rate) (auto simp: rates_of_def)

text \<open>
  For a rate array with a zero byte the network type depends
  on the rates before it: above channel 14 a CCK rate makes it invalid; up to
  channel 14 it is 11B, 11BG or 11G as all, some or none of the rates are CCK.
\<close>

theorem check_network_type_rates:
  assumes "0 \<in> set rate"
  shows "rtw_check_network_type rate n channel =
    Some (if channel > 14 then (if list_ex is_cck (rates_of rate) then WIRELESS_INVALID else WIRELESS_11A)
          else if list_all is_cck (rates_of rate) then WIRELESS_11B
          else if list_ex is_cck (rates_of rate) then WIRELESS_11BG else WIRELESS_11G)"
  by (simp add: rtw_check_network_type_def cckrates_included [OF assms] cckratesonly_included [OF assms])

theorem check_network_type_rates_witness:
  "rtw_check_network_type [0x82, 0x0C, 0, 0x16] 2 6 = Some WIRELESS_11BG"
  using check_network_type_rates [of "[0x82, 0x0C, 0, 0x16]" 2 6] by (simp add: rates_of_def is_cck_def)

lemma rateset_loop_rates:
  assumes "rate = pre @ rs @ 0 # post" and "0 \<notin> set rs" and "length pre + length rs \<le> 13"
  shows "rateset_loop rate (int (length pre)) = Some (int (length pre + length rs))"
  using assms
proof (induction rs arbitrary: pre)
  case Nil
  then show ?case by (subst rateset_loop.simps) (simp add: rd_def)
next
  case (Cons r rs)
  have "rd rate (int (length pre)) = Some r" using Cons.prems(1) by (simp add: rd_def)
  moreover have "rateset_loop rate (int (length (pre @ [r]))) = Some (int (length (pre @ [r]) + length rs))"
    using Cons.prems by (intro Cons.IH) simp_all
  ultimately show ?case using Cons.prems by (subst rateset_loop.simps) (simp add: add.commute)
qed

lemma rateset_len_rates:
  assumes "0 \<notin> set rs" and "length rs \<le> 13"
  shows "rtw_get_rateset_len (rs @ 0 # post) = Some (int (length rs))"
  using rateset_loop_rates [of "rs @ 0 # post" "[]" rs post] assms by (simp add: rtw_get_rateset_len_def)

lemma set_supported_rate_writes:
  assumes "length rates = 16"
  shows "rtw_set_supported_rate rates mode = Some
    (if mode = WIRELESS_11B then WIFI_CCKRATES @ 0 # replicate 11 0
     else if mode \<in> {WIRELESS_11G, WIRELESS_11A, WIRELESS_11_5N, WIRELESS_11A_5N, WIRELESS_11_5AC} then WIFI_OFDMRATES @ 0 # replicate 7 0
     else if mode \<in> {WIRELESS_11BG, WIRELESS_11G_24N, WIRELESS_11_24N, WIRELESS_11BG_24N}
       then (WIFI_CCKRATES @ WIFI_OFDMRATES) @ 0 # replicate 3 0
     else [] @ 0 # replicate 15 0)"
proof -
  have "wr_bytes rates 0 (replicate 16 0) = Some (replicate 16 0)"
    using assms by (simp add: wr_bytes_def in_buf_def overlay_def)
  moreover have "wr_bytes (replicate 16 0) 0 WIFI_CCKRATES = Some (WIFI_CCKRATES @ 0 # replicate 11 0)"
    "wr_bytes (replicate 16 0) 0 WIFI_OFDMRATES = Some (WIFI_OFDMRATES @ 0 # replicate 7 0)"
    "wr_bytes (WIFI_CCKRATES @ 0 # replicate 11 0) 4 WIFI_OFDMRATES = Some ((WIFI_CCKRATES @ WIFI_OFDMRATES) @ 0 # replicate 3 0)"
    by (simp_all add: wr_bytes_def in_buf_def overlay_def WIFI_CCKRATES_def WIFI_OFDMRATES_def numeral_eq_Suc)
  moreover have "replicate 16 (0 :: byte) = [] @ 0 # replicate 15 0" by (simp add: numeral_eq_Suc)
  ultimately show ?thesis by (simp add: rtw_set_supported_rate_def)
qed

text \<open>
  The rates \<open>rtw_set_supported_rate\<close> writes for one of the legacy
  modes have the mode's number of entries for \<open>rtw_get_rateset_len\<close>, and
  \<open>rtw_check_network_type\<close> recovers the mode from them.
\<close>

theorem supported_rate_mode:
  assumes "length rates = 16" and "(mode, n) \<in> {(WIRELESS_11B, 4), (WIRELESS_11G, 8), (WIRELESS_11A, 8), (WIRELESS_11BG, 12)}"
    and "channel > 14 \<longleftrightarrow> mode = WIRELESS_11A"
  shows "\<exists>rates'. rtw_set_supported_rate rates mode = Some rates' \<and>
    rtw_get_rateset_len rates' = Some n \<and> rtw_check_network_type rates' n channel = Some mode"
proof -
  have cck: "list_all is_cck WIFI_CCKRATES" "list_ex is_cck WIFI_CCKRATES" "0 \<notin> set WIFI_CCKRATES" "length WIFI_CCKRATES = 4"
    by (simp_all add: WIFI_CCKRATES_def is_cck_def)
  have ofdm: "\<not> list_all is_cck WIFI_OFDMRATES" "\<not> list_ex is_cck WIFI_OFDMRATES" "0 \<notin> set WIFI_OFDMRATES" "length WIFI_OFDMRATES = 8"
    by (simp_all add: WIFI_OFDMRATES_def is_cck_def)
  have of: "0 \<notin> set rs \<Longrightarrow> rates_of (rs @ 0 # z) = rs" for rs z
    by (simp add: rates_of_def takeWhile_append)
  have chk: "rtw_check_network_type (rs @ 0 # z) m channel =
    Some (if channel > 14 then (if list_ex is_cck rs then WIRELESS_INVALID else WIRELESS_11A)
          else if list_all is_cck rs then WIRELESS_11B
          else if list_ex is_cck rs then WIRELESS_11BG else WIRELESS_11G)" if "0 \<notin> set rs" for rs z m
    using of [OF that] by (simp add: rtw_check_network_type_def cckrates_included cckratesonly_included)
  consider "mode = WIRELESS_11B" "n = 4" "channel \<le> 14" | "mode = WIRELESS_11G" "n = 8" "channel \<le> 14"
    | "mode = WIRELESS_11A" "n = 8" "channel > 14" | "mode = WIRELESS_11BG" "n = 12" "channel \<le> 14"
    using assms(2,3) by (auto simp: wireless_defs)
  then show ?thesis
    using cck ofdm
    by cases (unfold set_supported_rate_writes [OF assms(1)],
      simp_all add: wireless_defs chk rateset_len_rates del: append_assoc)
qed

theorem supported_rate_mode_witness:
  "\<exists>rates'. rtw_set_supported_rate (replicate 16 7) WIRELESS_11BG = Some rates' \<and>
    rtw_get_rateset_len rates' = Some 12 \<and> rtw_check_network_type rates' 12 6 = Some WIRELESS_11BG"
  using supported_rate_mode [of "replicate 16 7" WIRELESS_11BG 12 6] by (simp add: wireless_defs)

section \<open>Generated elements\<close>

definition ibss_elements :: "wlan_bssid_ex \<Rightarrow> ie list" where
  "ibss_elements bx =
     [(0, take (unat (bx_SsidLength bx)) (bx_Ssid bx)), (1, []), (3, [ucast (bx_DSConfig bx)]),
      (6, [ucast (bx_ATIMWindow bx), ucast (drop_bit 8 (bx_ATIMWindow bx))])]"

definition ibss_body :: "byte \<Rightarrow> wlan_bssid_ex \<Rightarrow> byte list" where
  "ibss_body preamble bx =
     RTW_PUT_LE16 (ucast (bx_BeaconPeriod bx)) @ RTW_PUT_LE16 (ibss_capability preamble (bx_Privacy bx)) @
     ies_bytes (ibss_elements bx)"

lemma generate_ie_mode_max: "generate_ie_mode c = 0x5f"
  by (simp add: generate_ie_mode_def wireless_defs)

text \<open>
  Error: the body \<open>rtw_generate_ie\<close> writes, for an SSID of at most 32
  bytes: beacon interval, capability, SSID, supported rates, channel and ATIM
  window.  The supported rates are empty for every configuration, because
  the mode \<open>WIRELESS_MODE_MAX\<close> differs from \<open>WIRELESS_11ABGN\<close> and
  \<open>rtw_set_supported_rate\<close> has no case for it.
\<close>

theorem generate_ie_bytes:
  assumes "length (bx_IEs bx) = 768" and "length (bx_Ssid bx) = 32" and "unat (bx_SsidLength bx) \<le> 32"
    and "length (bx_SupportedRates bx) = 16"
  shows "rtw_generate_ie preamble bx =
    Some (of_nat (8 + length (ibss_body preamble bx)),
      bx\<lparr>bx_SupportedRates := replicate 16 0, bx_IEs := overlay (bx_IEs bx) 8 (ibss_body preamble bx)\<rparr>)"
proof -
  let ?body = "ibss_body preamble bx"
  let ?l = "bx_SsidLength bx"
  let ?p1 = "RTW_PUT_LE16 (ucast (bx_BeaconPeriod bx))"
  let ?p2 = "RTW_PUT_LE16 (ibss_capability preamble (bx_Privacy bx))"
  let ?e1 = "ie_bytes (0, take (unat ?l) (bx_Ssid bx))"
  let ?e2 = "ie_bytes (1, [])"
  let ?e3 = "ie_bytes (3, [ucast (bx_DSConfig bx)])"
  let ?e4 = "ie_bytes (6, [ucast (bx_ATIMWindow bx), ucast (drop_bit 8 (bx_ATIMWindow bx))])"
  let ?m = "overlay (bx_IEs bx) 8"
  have len: "length ?p1 = 2" "length ?p2 = 2" "length ?e1 = unat ?l + 2" using assms(2,3) by (simp_all add: RTW_PUT_LE16_def)
  have step: "rtw_set_ie (?m ys) (int (8 + length ys)) (uint i) l src fr =
      Some (int (8 + length (ys @ ie_bytes (i, take (unat l) src))), fr + (l + 2), ?m (ys @ ie_bytes (i, take (unat l) src)))"
    if "length ys \<le> 100" "unat l \<le> 32" "unat l \<le> length src" for ys i l src fr
    using rtw_set_ie_writes [of "8 + length ys" l "?m ys" src "uint i" fr] that assms(1)
    by (simp add: length_overlay overlay_append min_def)
  have w: "wr_bytes (bx_IEs bx) 8 ?p1 = Some (?m ?p1)" "wr_bytes (?m ?p1) 10 ?p2 = Some (?m (?p1 @ ?p2))"
    using wr_bytes_nat [of 8 ?p1 "bx_IEs bx"] wr_bytes_nat [of 10 ?p2 "?m ?p1"] overlay_append [of 8 ?p1 ?p2 "bx_IEs bx"] assms(1) len
    by (simp_all add: length_overlay)
  have rates: "rtw_set_supported_rate (bx_SupportedRates bx) 0x5f = Some (replicate 16 0)" "rtw_get_rateset_len (replicate 16 0) = Some 0"
    using set_supported_rate_writes [OF assms(4), of "0x5f"] rateset_len_rates [of "[]" "replicate 15 0"]
    by (simp_all add: wireless_defs numeral_eq_Suc)
  have s1: "rtw_set_ie (?m (?p1 @ ?p2)) 12 0 ?l (bx_Ssid bx) 12 =
      Some (14 + int (unat ?l), 12 + (?l + 2), ?m (?p1 @ ?p2 @ ?e1))"
    using step [of "?p1 @ ?p2" ?l "bx_Ssid bx" 0 12] assms(2,3) len by simp
  have s2: "rtw_set_ie (?m (?p1 @ ?p2 @ ?e1)) (14 + int (unat ?l)) 1 0 (replicate 16 0) fr =
      Some (16 + int (unat ?l), fr + (0 + 2), ?m (?p1 @ ?p2 @ ?e1 @ ?e2))" for fr
    using step [of "?p1 @ ?p2 @ ?e1" 0 "replicate 16 0" 1 fr] assms(3) len by simp
  have s3: "rtw_set_ie (?m (?p1 @ ?p2 @ ?e1 @ ?e2)) (16 + int (unat ?l)) 3 1 (le32_bytes (bx_DSConfig bx)) fr =
      Some (19 + int (unat ?l), fr + (1 + 2), ?m (?p1 @ ?p2 @ ?e1 @ ?e2 @ ?e3))" for fr
    using step [of "?p1 @ ?p2 @ ?e1 @ ?e2" 1 "le32_bytes (bx_DSConfig bx)" 3 fr] assms(3) len by (simp add: le32_bytes_def)
  have s4: "rtw_set_ie (?m (?p1 @ ?p2 @ ?e1 @ ?e2 @ ?e3)) (19 + int (unat ?l)) 6 2 (le32_bytes (bx_ATIMWindow bx)) fr =
      Some (23 + int (unat ?l), fr + (2 + 2), ?m (?p1 @ ?p2 @ ?e1 @ ?e2 @ ?e3 @ ?e4))" for fr
    using step [of "?p1 @ ?p2 @ ?e1 @ ?e2 @ ?e3" 2 "le32_bytes (bx_ATIMWindow bx)" 6 fr] assms(3) len
    by (simp add: le32_bytes_def)
  have body: "?body = ?p1 @ ?p2 @ ?e1 @ ?e2 @ ?e3 @ ?e4" by (simp add: ibss_body_def ibss_elements_def)
  have "rtw_generate_ie preamble bx = Some (?l + 23, bx\<lparr>bx_SupportedRates := replicate 16 0, bx_IEs := ?m ?body\<rparr>)"
    unfolding rtw_generate_ie_def generate_ie_mode_max body using w rates s1 s2 s3 s4 by (simp add: algebra_simps)
  moreover have "of_nat (8 + length ?body) = ?l + 23" unfolding body using len by simp
  ultimately show ?thesis by simp
qed

theorem generate_ie_bytes_witness:
  "let bx = \<lparr>bx_SsidLength = 2, bx_Ssid = [0x61, 0x62] @ replicate 30 0, bx_Privacy = 0, bx_BeaconPeriod = 100,
        bx_ATIMWindow = 0, bx_DSConfig = 6, bx_SupportedRates = replicate 16 1, bx_IEs = replicate 768 0\<rparr>
   in rtw_generate_ie 3 bx = Some (25, bx\<lparr>bx_SupportedRates := replicate 16 0,
        bx_IEs := overlay (replicate 768 0) 8 [100, 0, 0x22, 0, 0, 2, 0x61, 0x62, 1, 0, 3, 1, 6, 6, 2, 0, 0]\<rparr>)"
  using generate_ie_bytes [of "\<lparr>bx_SsidLength = 2, bx_Ssid = [0x61, 0x62] @ replicate 30 0, bx_Privacy = 0, bx_BeaconPeriod = 100,
        bx_ATIMWindow = 0, bx_DSConfig = 6, bx_SupportedRates = replicate 16 1, bx_IEs = replicate 768 0\<rparr>" 3]
  by (simp add: ibss_body_def ibss_elements_def ie_bytes_def RTW_PUT_LE16_def ibss_capability_def PREAMBLE_SHORT_def Let_def)

section \<open>The configured MAC address\<close>

definition hex_char :: "byte \<Rightarrow> byte" where
  "hex_char n = (if n < 10 then 0x30 + n else 0x57 + n)"

text \<open>The address in hexadecimal, separated by colons and closed by the NUL of the C string.\<close>

fun mac_chars :: "byte list \<Rightarrow> byte list" where
  "mac_chars [] = []"
| "mac_chars [b] = [hex_char (drop_bit 4 b), hex_char (b AND 0x0f), 0]"
| "mac_chars (b # bs) = [hex_char (drop_bit 4 b), hex_char (b AND 0x0f), 0x3a] @ mac_chars bs"

lemma key_char2num_hex:
  assumes "unat n < 16"
  shows "key_char2num (hex_char n) = n"
proof -
  have "list_all (\<lambda>k. key_char2num (hex_char (of_nat k)) = of_nat k) [0..<16]" by code_simp
  then have "\<forall>k\<in>set [0..<16]. key_char2num (hex_char (of_nat k)) = of_nat k" by (simp only: list_all_iff)
  from bspec [OF this, of "unat n"] show ?thesis using assms by simp
qed

lemma key_2char2num_hex: "key_2char2num (hex_char (drop_bit 4 b)) (hex_char (b AND 0x0f)) = b"
proof -
  have "unat (drop_bit 4 b) < 16"
  proof -
    have "unat b < 16 * 16" using unsigned_less [of b, where 'a = nat] by simp
    then show ?thesis by (subst unat_drop_bit_eq) (simp add: drop_bit_eq_div)
  qed
  moreover have "unat (b AND 0x0f) < 16"
  proof -
    have "b AND 0x0f \<le> 0x0f" by (rule word_and_le1)
    then have "unat (b AND 0x0f) \<le> unat (0x0f :: byte)" by (simp only: word_le_nat_alt)
    then show ?thesis by simp
  qed
  moreover have "push_bit 4 (drop_bit 4 b) OR (b AND 0x0f) = b"
  proof -
    have m: "(0x0f :: byte) = mask 4" by (simp add: mask_eq_exp_minus_1)
    show ?thesis unfolding m by (rule bit_word_eqI) (auto simp: bit_simps not_less)
  qed
  ultimately show ?thesis by (simp add: key_2char2num_def key_char2num_hex)
qed

lemma initmac_loop_chars: "initmac_loop (pre @ mac_chars bs) (length bs) (int (length pre)) = Some bs"
proof (induction bs arbitrary: pre rule: mac_chars.induct)
  case (2 b)
  show ?case by (simp add: rd_def nth_append nat_add_distrib key_2char2num_hex)
next
  case (3 b c bs)
  let ?t = "[hex_char (drop_bit 4 b), hex_char (b AND 0x0f), 0x3a]"
  have "initmac_loop ((pre @ ?t) @ mac_chars (c # bs)) (length (c # bs)) (int (length (pre @ ?t))) = Some (c # bs)" by (rule 3)
  then have "initmac_loop (pre @ ?t @ mac_chars (c # bs)) (Suc (length bs)) (int (length pre) + 3) = Some (c # bs)"
    by (simp add: add.commute)
  moreover have "rd (pre @ ?t @ mac_chars (c # bs)) (int (length pre)) = Some (hex_char (drop_bit 4 b))"
    "rd (pre @ ?t @ mac_chars (c # bs)) (int (length pre) + 1) = Some (hex_char (b AND 0x0f))"
    by (simp_all add: rd_def nth_append nat_add_distrib)
  ultimately show ?case by (simp add: key_2char2num_hex)
qed simp

text \<open>
  Roundtrip: the address written in hexadecimal in the module parameter
  becomes the adapter's address, and without the parameter the efuse address is
  kept, except that the all-ones and all-zero addresses become the default one.
\<close>

theorem macaddr_cfg_roundtrip:
  assumes "length mac = 6" and "length efuse = 6"
  shows "rtw_macaddr_cfg (Some (mac_chars mac)) efuse =
      Some (if mac \<in> {replicate 6 0xff, replicate 6 0} then [0x00, 0xe0, 0x4c, 0x87, 0x00, 0x00] else mac) \<and>
    rtw_macaddr_cfg None efuse =
      Some (if efuse \<in> {replicate 6 0xff, replicate 6 0} then [0x00, 0xe0, 0x4c, 0x87, 0x00, 0x00] else efuse)"
  using initmac_loop_chars [of "[]" mac] assms
  by (auto simp: rtw_macaddr_cfg_def wr_bytes_def rd_bytes_def in_buf_def overlay_def)

theorem macaddr_cfg_roundtrip_witness:
  "rtw_macaddr_cfg (Some [0x30, 0x30, 0x3a, 0x31, 0x61, 0x3a, 0x32, 0x62, 0x3a, 0x33, 0x63, 0x3a, 0x34, 0x64, 0x3a, 0x35, 0x65, 0])
     (replicate 6 0xff) = Some [0x00, 0x1a, 0x2b, 0x3c, 0x4d, 0x5e]"
proof -
  have "mac_chars [0x00, 0x1a, 0x2b, 0x3c, 0x4d, 0x5e] =
      [0x30, 0x30, 0x3a, 0x31, 0x61, 0x3a, 0x32, 0x62, 0x3a, 0x33, 0x63, 0x3a, 0x34, 0x64, 0x3a, 0x35, 0x65, 0]"
    by (simp add: hex_char_def)
  moreover have "[0x00, 0x1a, 0x2b, 0x3c, 0x4d, 0x5e] \<noteq> replicate 6 (0xff :: byte)" "[0x00, 0x1a, 0x2b, 0x3c, 0x4d, 0x5e] \<noteq> replicate 6 (0 :: byte)"
    by code_simp+
  ultimately show ?thesis
    using macaddr_cfg_roundtrip [of "[0x00, 0x1a, 0x2b, 0x3c, 0x4d, 0x5e]" "replicate 6 0xff"] by simp
qed

section \<open>The reported MCS rate\<close>

text \<open>
  HT rates in units of 100 kb/s: 65 (20 MHz) or 135 (40 MHz) per spatial stream
  and step of the modulation, times 10/9 with the short guard interval, rounded.
\<close>

definition mcs_steps :: "nat list" where "mcs_steps = [1, 2, 3, 4, 6, 8, 9, 10]"

definition ht_rate :: "nat \<Rightarrow> bool \<Rightarrow> bool \<Rightarrow> bool \<Rightarrow> nat \<Rightarrow> nat" where
  "ht_rate nss bw40 sgi20 sgi40 i =
     (let base = (if bw40 then 135 else 65) * (mcs_steps ! i) * nss
      in if (if bw40 then sgi40 else sgi20) then (20 * base + 9) div 18 else base)"

fun top_rate :: "(nat \<Rightarrow> nat) \<Rightarrow> byte \<Rightarrow> nat \<Rightarrow> nat" where
  "top_rate r m 0 = 0"
| "top_rate r m (Suc k) = (if bit m k then r k else top_rate r m k)"

lemma top_rate_greatest:
  assumes "\<And>i j. i \<le> j \<Longrightarrow> j < k \<Longrightarrow> r i \<le> r j"
  shows "(\<forall>i<k. bit m i \<longrightarrow> r i \<le> top_rate r m k) \<and>
    (if \<exists>i<k. bit m i then \<exists>i<k. bit m i \<and> top_rate r m k = r i else top_rate r m k = 0)"
  using assms
proof (induction k)
  case (Suc k)
  have "(\<forall>i<k. bit m i \<longrightarrow> r i \<le> top_rate r m k) \<and>
      (if \<exists>i<k. bit m i then \<exists>i<k. bit m i \<and> top_rate r m k = r i else top_rate r m k = 0)"
    by (rule Suc.IH) (simp add: Suc.prems)
  then show ?case using Suc.prems by (auto simp: less_Suc_eq split: if_splits)
qed simp

lemma ht_rate_mono: "i \<le> j \<Longrightarrow> j < 8 \<Longrightarrow> ht_rate nss bw s20 s40 i \<le> ht_rate nss bw s20 s40 j"
proof -
  assume "i \<le> j" "j < 8"
  moreover have "sorted mcs_steps" "length mcs_steps = 8" by (simp_all add: mcs_steps_def)
  ultimately have "mcs_steps ! i \<le> mcs_steps ! j" by (simp add: sorted_nth_mono)
  then show ?thesis by (auto simp: ht_rate_def Let_def intro!: div_le_mono)
qed

lemma top_rate_8:
  "top_rate r m 8 =
     (if bit m 7 then r 7 else if bit m 6 then r 6 else if bit m 5 then r 5 else if bit m 4 then r 4
      else if bit m 3 then r 3 else if bit m 2 then r 2 else if bit m 1 then r 1 else if bit m 0 then r 0 else 0)"
  by (simp add: numeral_eq_Suc)

lemma ht_rate_table:
  "ht_rate 1 bw s20 s40 7 = mcs_pick bw s20 s40 1500 1350 722 650"
  "ht_rate 1 bw s20 s40 6 = mcs_pick bw s20 s40 1350 1215 650 585"
  "ht_rate 1 bw s20 s40 5 = mcs_pick bw s20 s40 1200 1080 578 520"
  "ht_rate 1 bw s20 s40 4 = mcs_pick bw s20 s40 900 810 433 390"
  "ht_rate 1 bw s20 s40 3 = mcs_pick bw s20 s40 600 540 289 260"
  "ht_rate 1 bw s20 s40 2 = mcs_pick bw s20 s40 450 405 217 195"
  "ht_rate 1 bw s20 s40 1 = mcs_pick bw s20 s40 300 270 144 130"
  "ht_rate 1 bw s20 s40 0 = mcs_pick bw s20 s40 150 135 72 65"
  "ht_rate 2 bw s20 s40 7 = mcs_pick bw s20 s40 3000 2700 1444 1300"
  "ht_rate 2 bw s20 s40 6 = mcs_pick bw s20 s40 2700 2430 1300 1170"
  "ht_rate 2 bw s20 s40 5 = mcs_pick bw s20 s40 2400 2160 1156 1040"
  "ht_rate 2 bw s20 s40 4 = mcs_pick bw s20 s40 1800 1620 867 780"
  "ht_rate 2 bw s20 s40 3 = mcs_pick bw s20 s40 1200 1080 578 520"
  "ht_rate 2 bw s20 s40 2 = mcs_pick bw s20 s40 900 810 433 390"
  "ht_rate 2 bw s20 s40 1 = mcs_pick bw s20 s40 600 540 289 260"
  "ht_rate 2 bw s20 s40 0 = mcs_pick bw s20 s40 300 270 144 130"
  by (simp_all add: mcs_pick_def ht_rate_def mcs_steps_def)

lemma mcs_top:
  "mcs_1ss (mcs_pick bw s20 s40) m = top_rate (ht_rate 1 bw s20 s40) m 8"
  "mcs_2ss (mcs_pick bw s20 s40) m = top_rate (ht_rate 2 bw s20 s40) m 8"
  by (simp_all only: top_rate_8 mcs_1ss_def mcs_2ss_def ht_rate_table)

definition two_streams :: "byte \<Rightarrow> byte \<Rightarrow> bool" where
  "two_streams rf_type mcs1 \<longleftrightarrow> rf_type \<noteq> RF_1T1R \<and> mcs1 \<noteq> 0"

text \<open>
  Equivalence: \<open>rtw_mcs_rate\<close> reports the greatest rate, by the HT rate formula, of
  the MCS indices the peer advertises: those of one spatial stream, or those of
  two streams on a two-stream radio when the peer advertises any of them.
\<close>

theorem mcs_rate_best:
  "rtw_mcs_rate rf_type bw s20 s40 mcs0 mcs1 =
    Max (insert 0 (ht_rate (if two_streams rf_type mcs1 then 2 else 1) bw s20 s40 ` {i. i < 8 \<and> bit (if two_streams rf_type mcs1 then mcs1 else mcs0) i}))"
proof -
  let ?r = "ht_rate (if two_streams rf_type mcs1 then 2 else 1) bw s20 s40" and ?m = "if two_streams rf_type mcs1 then mcs1 else mcs0"
  have "rtw_mcs_rate rf_type bw s20 s40 mcs0 mcs1 = top_rate ?r ?m 8"
    by (auto simp: rtw_mcs_rate_def Let_def mcs_top two_streams_def)
  moreover have "(\<forall>i<8. bit ?m i \<longrightarrow> ?r i \<le> top_rate ?r ?m 8) \<and>
    (if \<exists>i<8. bit ?m i then \<exists>i<8. bit ?m i \<and> top_rate ?r ?m 8 = ?r i else top_rate ?r ?m 8 = 0)"
    by (rule top_rate_greatest) (rule ht_rate_mono)
  ultimately show ?thesis by (intro Max_eqI [symmetric]) (auto split: if_splits)
qed

end
