(* ===== verification/Pwr_Seq.thy ===== *)
theory Pwr_Seq
  imports Prelude
begin

text \<open>
  The power sequence interpreter of src/hal/HalPwrSeqCmd.c and the command tables
  of src/include/Hal8821APwrSeq.h, src/include/Hal8812PwrSeq.h,
  src/hal/Hal8821APwrSeq.c and src/hal/Hal8812PwrSeq.c.

  The registers belong to the chip: the interpreter is a function of a bus,
  three operations on a hardware state of any type.

  Shown: the interpreter returns for every hardware behaviour, with a bound on
  the bus operations; what polling returns; the register contents after a
  sequence; every table ends inside its array.
\<close>

section \<open>Commands\<close>

definition PWR_CMD_READ :: byte where "PWR_CMD_READ = 0x00"
definition PWR_CMD_WRITE :: byte where "PWR_CMD_WRITE = 0x01"
definition PWR_CMD_POLLING :: byte where "PWR_CMD_POLLING = 0x02"
definition PWR_CMD_DELAY :: byte where "PWR_CMD_DELAY = 0x03"
definition PWR_CMD_END :: byte where "PWR_CMD_END = 0x04"

definition PWR_BASEADDR_MAC :: byte where "PWR_BASEADDR_MAC = 0x00"
definition PWR_BASEADDR_SDIO :: byte where "PWR_BASEADDR_SDIO = 0x03"

definition PWR_INTF_SDIO_MSK :: byte where "PWR_INTF_SDIO_MSK = 0x01"
definition PWR_INTF_USB_MSK :: byte where "PWR_INTF_USB_MSK = 0x02"
definition PWR_INTF_PCI_MSK :: byte where "PWR_INTF_PCI_MSK = 0x04"
definition PWR_INTF_ALL_MSK :: byte where "PWR_INTF_ALL_MSK = 0x0f"
definition PWR_FAB_ALL_MSK :: byte where "PWR_FAB_ALL_MSK = 0x0f"
definition PWR_CUT_TESTCHIP_MSK :: byte where "PWR_CUT_TESTCHIP_MSK = 0x01"
definition PWR_CUT_A_MSK :: byte where "PWR_CUT_A_MSK = 0x02"
definition PWR_CUT_ALL_MSK :: byte where "PWR_CUT_ALL_MSK = 0xff"

lemmas pwr_consts =
  PWR_CMD_READ_def PWR_CMD_WRITE_def PWR_CMD_POLLING_def PWR_CMD_DELAY_def PWR_CMD_END_def PWR_BASEADDR_MAC_def
  PWR_BASEADDR_SDIO_def PWR_INTF_SDIO_MSK_def PWR_INTF_USB_MSK_def PWR_INTF_PCI_MSK_def PWR_INTF_ALL_MSK_def
  PWR_FAB_ALL_MSK_def PWR_CUT_TESTCHIP_MSK_def PWR_CUT_A_MSK_def PWR_CUT_ALL_MSK_def

text \<open>The bit fields of four bits hold values below 16 in every table.\<close>

record wlan_pwr_cfg =
  pc_offset :: u16
  pc_cut_msk :: byte
  pc_fab_msk :: byte
  pc_interface_msk :: byte
  pc_base :: byte
  pc_cmd :: byte
  pc_msk :: byte
  pc_value :: byte

definition pwr_cfg :: "u16 \<Rightarrow> byte \<Rightarrow> byte \<Rightarrow> byte \<Rightarrow> byte \<Rightarrow> byte \<Rightarrow> byte \<Rightarrow> byte \<Rightarrow> wlan_pwr_cfg" where
  "pwr_cfg off ct fab intf base cmd msk val =
     \<lparr>pc_offset = off, pc_cut_msk = ct, pc_fab_msk = fab, pc_interface_msk = intf, pc_base = base, pc_cmd = cmd,
      pc_msk = msk, pc_value = val\<rparr>"

section \<open>The interpreter\<close>

record 'h reg_bus =
  rtl_read_byte :: "u16 \<Rightarrow> 'h \<Rightarrow> byte \<times> 'h"
  rtl_write_byte :: "u16 \<Rightarrow> byte \<Rightarrow> 'h \<Rightarrow> 'h"
  udelay :: "nat \<Rightarrow> 'h \<Rightarrow> 'h"

definition cfg_matches :: "byte \<Rightarrow> byte \<Rightarrow> byte \<Rightarrow> wlan_pwr_cfg \<Rightarrow> bool" where
  "cfg_matches cut_version fabversion interface_type c \<longleftrightarrow>
     pc_fab_msk c AND fabversion \<noteq> 0 \<and> pc_cut_msk c AND cut_version \<noteq> 0 \<and> pc_interface_msk c AND interface_type \<noteq> 0"

definition maxPollingCnt :: nat where "maxPollingCnt = 5000"

definition poll_hit :: "wlan_pwr_cfg \<Rightarrow> byte \<Rightarrow> bool" where
  "poll_hit c value \<longleftrightarrow> value AND pc_msk c = pc_value c AND pc_msk c"

text \<open>The polling loop; \<open>pollingCount\<close> is kept from one polling command to the next.\<close>

function poll_loop :: "'h reg_bus \<Rightarrow> wlan_pwr_cfg \<Rightarrow> 'h \<Rightarrow> nat \<Rightarrow> bool \<times> 'h \<times> nat" where
  "poll_loop bus c h pollingCount =
     (let (value, h) = rtl_read_byte bus (pc_offset c) h;
          bPollingBit = poll_hit c value;
          h = (if bPollingBit then h else udelay bus 10 h)
      in if pollingCount > maxPollingCnt then (False, h, pollingCount + 1)
         else if bPollingBit then (True, h, pollingCount + 1)
         else poll_loop bus c h (pollingCount + 1))"
  by pat_completeness auto
termination
  by (relation "measure (\<lambda>(_, _, _, n). maxPollingCnt + 1 - n)") auto

declare poll_loop.simps [simp del]

definition masked_write :: "wlan_pwr_cfg \<Rightarrow> byte \<Rightarrow> byte" where
  "masked_write c value = (value AND NOT (pc_msk c)) OR (pc_value c AND pc_msk c)"

definition pwr_write :: "'h reg_bus \<Rightarrow> wlan_pwr_cfg \<Rightarrow> 'h \<Rightarrow> 'h" where
  "pwr_write bus c h =
     (let (value, h) = rtl_read_byte bus (pc_offset c) h in rtl_write_byte bus (pc_offset c) (masked_write c value) h)"

definition pwr_delay :: "'h reg_bus \<Rightarrow> wlan_pwr_cfg \<Rightarrow> 'h \<Rightarrow> 'h" where
  "pwr_delay bus c h = (if pc_value c = 0 then udelay bus (unat (pc_offset c)) h else udelay bus (unat (pc_offset c) * 1000) h)"

text \<open>The array index runs along the list; beyond its end the array is read out of bounds.\<close>

fun pwrseq_loop ::
  "'h reg_bus \<Rightarrow> (wlan_pwr_cfg \<Rightarrow> bool) \<Rightarrow> wlan_pwr_cfg list \<Rightarrow> nat \<Rightarrow> 'h \<Rightarrow> (bool \<times> 'h) option" where
  "pwrseq_loop bus sel [] n h = None"
| "pwrseq_loop bus sel (c # cs) n h =
     (if sel c then
        if pc_cmd c = PWR_CMD_WRITE then pwrseq_loop bus sel cs n (pwr_write bus c h)
        else if pc_cmd c = PWR_CMD_POLLING then
          (case poll_loop bus c h n of (ok, h, n) \<Rightarrow> if ok then pwrseq_loop bus sel cs n h else Some (False, h))
        else if pc_cmd c = PWR_CMD_DELAY then pwrseq_loop bus sel cs n (pwr_delay bus c h)
        else if pc_cmd c = PWR_CMD_END then Some (True, h)
        else pwrseq_loop bus sel cs n h
      else pwrseq_loop bus sel cs n h)"

definition rtw_hal_pwrseqcmdparsing ::
  "'h reg_bus \<Rightarrow> byte \<Rightarrow> byte \<Rightarrow> byte \<Rightarrow> wlan_pwr_cfg list \<Rightarrow> 'h \<Rightarrow> (bool \<times> 'h) option" where
  "rtw_hal_pwrseqcmdparsing bus cut_version fabversion interface_type pwrcfgcmd h =
     pwrseq_loop bus (cfg_matches cut_version fabversion interface_type) pwrcfgcmd 0 h"

section \<open>The tables\<close>

text \<open>The elements of an array without initializer are zero.\<close>

definition pwr_array :: "nat \<Rightarrow> wlan_pwr_cfg list \<Rightarrow> wlan_pwr_cfg list" where
  "pwr_array n cs = take n cs @ replicate (n - length cs) (pwr_cfg 0 0 0 0 0 0 0 0)"

subsection \<open>RTL8821A\<close>

definition RTL8821A_TRANS_CARDEMU_TO_ACT_STEPS :: nat where "RTL8821A_TRANS_CARDEMU_TO_ACT_STEPS = 22"
definition RTL8821A_TRANS_ACT_TO_CARDEMU_STEPS :: nat where "RTL8821A_TRANS_ACT_TO_CARDEMU_STEPS = 15"
definition RTL8821A_TRANS_CARDEMU_TO_SUS_STEPS :: nat where "RTL8821A_TRANS_CARDEMU_TO_SUS_STEPS = 15"
definition RTL8821A_TRANS_SUS_TO_CARDEMU_STEPS :: nat where "RTL8821A_TRANS_SUS_TO_CARDEMU_STEPS = 15"
definition RTL8821A_TRANS_CARDDIS_TO_CARDEMU_STEPS :: nat where "RTL8821A_TRANS_CARDDIS_TO_CARDEMU_STEPS = 15"
definition RTL8821A_TRANS_CARDEMU_TO_PDN_STEPS :: nat where "RTL8821A_TRANS_CARDEMU_TO_PDN_STEPS = 15"
definition RTL8821A_TRANS_PDN_TO_CARDEMU_STEPS :: nat where "RTL8821A_TRANS_PDN_TO_CARDEMU_STEPS = 15"
definition RTL8821A_TRANS_ACT_TO_LPS_STEPS :: nat where "RTL8821A_TRANS_ACT_TO_LPS_STEPS = 15"
definition RTL8821A_TRANS_LPS_TO_ACT_STEPS :: nat where "RTL8821A_TRANS_LPS_TO_ACT_STEPS = 15"
definition RTL8821A_TRANS_END_STEPS :: nat where "RTL8821A_TRANS_END_STEPS = 1"

definition RTL8821A_TRANS_CARDEMU_TO_ACT :: "wlan_pwr_cfg list" where
  "RTL8821A_TRANS_CARDEMU_TO_ACT =
    [pwr_cfg 0x0020 PWR_CUT_ALL_MSK PWR_FAB_ALL_MSK (PWR_INTF_USB_MSK OR PWR_INTF_SDIO_MSK) PWR_BASEADDR_MAC PWR_CMD_WRITE 0x01 0x01,
     pwr_cfg 0x0067 PWR_CUT_ALL_MSK PWR_FAB_ALL_MSK (PWR_INTF_USB_MSK OR PWR_INTF_SDIO_MSK) PWR_BASEADDR_MAC PWR_CMD_WRITE 0x10 0x00,
     pwr_cfg 0x0001 PWR_CUT_ALL_MSK PWR_FAB_ALL_MSK (PWR_INTF_USB_MSK OR PWR_INTF_SDIO_MSK) PWR_BASEADDR_MAC PWR_CMD_DELAY 0x01 0x01,
     pwr_cfg 0x0000 PWR_CUT_ALL_MSK PWR_FAB_ALL_MSK (PWR_INTF_USB_MSK OR PWR_INTF_SDIO_MSK) PWR_BASEADDR_MAC PWR_CMD_WRITE 0x20 0x00,
     pwr_cfg 0x0005 PWR_CUT_ALL_MSK PWR_FAB_ALL_MSK PWR_INTF_ALL_MSK PWR_BASEADDR_MAC PWR_CMD_WRITE 0x04 0x00,
     pwr_cfg 0x0006 PWR_CUT_ALL_MSK PWR_FAB_ALL_MSK PWR_INTF_ALL_MSK PWR_BASEADDR_MAC PWR_CMD_POLLING 0x02 0x02,
     pwr_cfg 0x0006 PWR_CUT_ALL_MSK PWR_FAB_ALL_MSK PWR_INTF_ALL_MSK PWR_BASEADDR_MAC PWR_CMD_WRITE 0x01 0x01,
     pwr_cfg 0x0005 PWR_CUT_ALL_MSK PWR_FAB_ALL_MSK PWR_INTF_ALL_MSK PWR_BASEADDR_MAC PWR_CMD_WRITE 0x80 0x00,
     pwr_cfg 0x0005 PWR_CUT_ALL_MSK PWR_FAB_ALL_MSK PWR_INTF_ALL_MSK PWR_BASEADDR_MAC PWR_CMD_WRITE 0x18 0x00,
     pwr_cfg 0x0005 PWR_CUT_ALL_MSK PWR_FAB_ALL_MSK PWR_INTF_ALL_MSK PWR_BASEADDR_MAC PWR_CMD_WRITE 0x01 0x01,
     pwr_cfg 0x0005 PWR_CUT_ALL_MSK PWR_FAB_ALL_MSK PWR_INTF_ALL_MSK PWR_BASEADDR_MAC PWR_CMD_POLLING 0x01 0x00,
     pwr_cfg 0x004F PWR_CUT_ALL_MSK PWR_FAB_ALL_MSK PWR_INTF_ALL_MSK PWR_BASEADDR_MAC PWR_CMD_WRITE 0x01 0x01,
     pwr_cfg 0x0067 PWR_CUT_ALL_MSK PWR_FAB_ALL_MSK PWR_INTF_ALL_MSK PWR_BASEADDR_MAC PWR_CMD_WRITE 0x30 0x30,
     pwr_cfg 0x0025 PWR_CUT_ALL_MSK PWR_FAB_ALL_MSK PWR_INTF_ALL_MSK PWR_BASEADDR_MAC PWR_CMD_WRITE 0x40 0x00,
     pwr_cfg 0x0049 PWR_CUT_ALL_MSK PWR_FAB_ALL_MSK PWR_INTF_ALL_MSK PWR_BASEADDR_MAC PWR_CMD_WRITE 0x02 0x02,
     pwr_cfg 0x0063 PWR_CUT_ALL_MSK PWR_FAB_ALL_MSK PWR_INTF_ALL_MSK PWR_BASEADDR_MAC PWR_CMD_WRITE 0x02 0x02,
     pwr_cfg 0x0062 PWR_CUT_ALL_MSK PWR_FAB_ALL_MSK PWR_INTF_ALL_MSK PWR_BASEADDR_MAC PWR_CMD_WRITE 0x02 0x00,
     pwr_cfg 0x0058 PWR_CUT_ALL_MSK PWR_FAB_ALL_MSK PWR_INTF_ALL_MSK PWR_BASEADDR_MAC PWR_CMD_WRITE 0x01 0x01,
     pwr_cfg 0x005A PWR_CUT_ALL_MSK PWR_FAB_ALL_MSK PWR_INTF_ALL_MSK PWR_BASEADDR_MAC PWR_CMD_WRITE 0x02 0x02,
     pwr_cfg 0x007A PWR_CUT_TESTCHIP_MSK PWR_FAB_ALL_MSK PWR_INTF_ALL_MSK PWR_BASEADDR_MAC PWR_CMD_WRITE 0xff 0x3a,
     pwr_cfg 0x002E PWR_CUT_ALL_MSK PWR_FAB_ALL_MSK PWR_INTF_ALL_MSK PWR_BASEADDR_MAC PWR_CMD_WRITE 0xff 0x82,
     pwr_cfg 0x0010 PWR_CUT_A_MSK PWR_FAB_ALL_MSK PWR_INTF_ALL_MSK PWR_BASEADDR_MAC PWR_CMD_WRITE 0x40 0x40]"

definition RTL8821A_TRANS_ACT_TO_CARDEMU :: "wlan_pwr_cfg list" where
  "RTL8821A_TRANS_ACT_TO_CARDEMU =
    [pwr_cfg 0x001F PWR_CUT_ALL_MSK PWR_FAB_ALL_MSK PWR_INTF_ALL_MSK PWR_BASEADDR_MAC PWR_CMD_WRITE 0xff 0x00,
     pwr_cfg 0x004F PWR_CUT_ALL_MSK PWR_FAB_ALL_MSK PWR_INTF_ALL_MSK PWR_BASEADDR_MAC PWR_CMD_WRITE 0x01 0x00,
     pwr_cfg 0x0049 PWR_CUT_ALL_MSK PWR_FAB_ALL_MSK PWR_INTF_ALL_MSK PWR_BASEADDR_MAC PWR_CMD_WRITE 0x02 0x00,
     pwr_cfg 0x0005 PWR_CUT_ALL_MSK PWR_FAB_ALL_MSK PWR_INTF_ALL_MSK PWR_BASEADDR_MAC PWR_CMD_WRITE 0x02 0x02,
     pwr_cfg 0x0005 PWR_CUT_ALL_MSK PWR_FAB_ALL_MSK PWR_INTF_ALL_MSK PWR_BASEADDR_MAC PWR_CMD_POLLING 0x02 0x00,
     pwr_cfg 0x0000 PWR_CUT_ALL_MSK PWR_FAB_ALL_MSK (PWR_INTF_USB_MSK OR PWR_INTF_SDIO_MSK) PWR_BASEADDR_MAC PWR_CMD_WRITE 0x20 0x20,
     pwr_cfg 0x0020 PWR_CUT_ALL_MSK PWR_FAB_ALL_MSK (PWR_INTF_USB_MSK OR PWR_INTF_SDIO_MSK) PWR_BASEADDR_MAC PWR_CMD_WRITE 0x01 0x00]"

definition RTL8821A_TRANS_CARDEMU_TO_SUS :: "wlan_pwr_cfg list" where
  "RTL8821A_TRANS_CARDEMU_TO_SUS =
    [pwr_cfg 0x0005 PWR_CUT_ALL_MSK PWR_FAB_ALL_MSK PWR_INTF_PCI_MSK PWR_BASEADDR_MAC PWR_CMD_WRITE 0x18 0x18,
     pwr_cfg 0x0005 PWR_CUT_ALL_MSK PWR_FAB_ALL_MSK (PWR_INTF_USB_MSK OR PWR_INTF_SDIO_MSK) PWR_BASEADDR_MAC PWR_CMD_WRITE 0x18 0x08,
     pwr_cfg 0x0023 PWR_CUT_ALL_MSK PWR_FAB_ALL_MSK PWR_INTF_SDIO_MSK PWR_BASEADDR_MAC PWR_CMD_WRITE 0x10 0x10,
     pwr_cfg 0x0007 PWR_CUT_ALL_MSK PWR_FAB_ALL_MSK PWR_INTF_SDIO_MSK PWR_BASEADDR_MAC PWR_CMD_WRITE 0xff 0x20,
     pwr_cfg 0x0005 PWR_CUT_ALL_MSK PWR_FAB_ALL_MSK PWR_INTF_PCI_MSK PWR_BASEADDR_MAC PWR_CMD_WRITE 0x18 0x18,
     pwr_cfg 0x0086 PWR_CUT_ALL_MSK PWR_FAB_ALL_MSK PWR_INTF_SDIO_MSK PWR_BASEADDR_SDIO PWR_CMD_WRITE 0x01 0x01,
     pwr_cfg 0x0086 PWR_CUT_ALL_MSK PWR_FAB_ALL_MSK PWR_INTF_SDIO_MSK PWR_BASEADDR_SDIO PWR_CMD_POLLING 0x02 0x00]"

definition RTL8821A_TRANS_SUS_TO_CARDEMU :: "wlan_pwr_cfg list" where
  "RTL8821A_TRANS_SUS_TO_CARDEMU =
    [pwr_cfg 0x0005 PWR_CUT_ALL_MSK PWR_FAB_ALL_MSK PWR_INTF_ALL_MSK PWR_BASEADDR_MAC PWR_CMD_WRITE 0x88 0x00,
     pwr_cfg 0x0086 PWR_CUT_ALL_MSK PWR_FAB_ALL_MSK PWR_INTF_SDIO_MSK PWR_BASEADDR_SDIO PWR_CMD_WRITE 0x01 0x00,
     pwr_cfg 0x0086 PWR_CUT_ALL_MSK PWR_FAB_ALL_MSK PWR_INTF_SDIO_MSK PWR_BASEADDR_SDIO PWR_CMD_POLLING 0x02 0x02,
     pwr_cfg 0x0023 PWR_CUT_ALL_MSK PWR_FAB_ALL_MSK PWR_INTF_SDIO_MSK PWR_BASEADDR_MAC PWR_CMD_WRITE 0x10 0x00,
     pwr_cfg 0x0005 PWR_CUT_ALL_MSK PWR_FAB_ALL_MSK PWR_INTF_ALL_MSK PWR_BASEADDR_MAC PWR_CMD_WRITE 0x18 0x00]"

definition RTL8821A_TRANS_CARDEMU_TO_CARDDIS :: "wlan_pwr_cfg list" where
  "RTL8821A_TRANS_CARDEMU_TO_CARDDIS =
    [pwr_cfg 0x0007 PWR_CUT_ALL_MSK PWR_FAB_ALL_MSK PWR_INTF_SDIO_MSK PWR_BASEADDR_MAC PWR_CMD_WRITE 0xff 0x20,
     pwr_cfg 0x0005 PWR_CUT_ALL_MSK PWR_FAB_ALL_MSK (PWR_INTF_USB_MSK OR PWR_INTF_SDIO_MSK) PWR_BASEADDR_MAC PWR_CMD_WRITE 0x18 0x08,
     pwr_cfg 0x0005 PWR_CUT_ALL_MSK PWR_FAB_ALL_MSK PWR_INTF_PCI_MSK PWR_BASEADDR_MAC PWR_CMD_WRITE 0x04 0x04,
     pwr_cfg 0x004A PWR_CUT_ALL_MSK PWR_FAB_ALL_MSK PWR_INTF_USB_MSK PWR_BASEADDR_MAC PWR_CMD_WRITE 0x01 0x01,
     pwr_cfg 0x0023 PWR_CUT_ALL_MSK PWR_FAB_ALL_MSK PWR_INTF_SDIO_MSK PWR_BASEADDR_MAC PWR_CMD_WRITE 0x10 0x10,
     pwr_cfg 0x0086 PWR_CUT_ALL_MSK PWR_FAB_ALL_MSK PWR_INTF_SDIO_MSK PWR_BASEADDR_SDIO PWR_CMD_WRITE 0x01 0x01,
     pwr_cfg 0x0086 PWR_CUT_ALL_MSK PWR_FAB_ALL_MSK PWR_INTF_SDIO_MSK PWR_BASEADDR_SDIO PWR_CMD_POLLING 0x02 0x00]"

definition RTL8821A_TRANS_CARDDIS_TO_CARDEMU :: "wlan_pwr_cfg list" where
  "RTL8821A_TRANS_CARDDIS_TO_CARDEMU =
    [pwr_cfg 0x0005 PWR_CUT_ALL_MSK PWR_FAB_ALL_MSK PWR_INTF_ALL_MSK PWR_BASEADDR_MAC PWR_CMD_WRITE 0x88 0x00,
     pwr_cfg 0x0086 PWR_CUT_ALL_MSK PWR_FAB_ALL_MSK PWR_INTF_SDIO_MSK PWR_BASEADDR_SDIO PWR_CMD_WRITE 0x01 0x00,
     pwr_cfg 0x0086 PWR_CUT_ALL_MSK PWR_FAB_ALL_MSK PWR_INTF_SDIO_MSK PWR_BASEADDR_SDIO PWR_CMD_POLLING 0x02 0x02,
     pwr_cfg 0x004A PWR_CUT_ALL_MSK PWR_FAB_ALL_MSK PWR_INTF_USB_MSK PWR_BASEADDR_MAC PWR_CMD_WRITE 0x01 0x00,
     pwr_cfg 0x0005 PWR_CUT_ALL_MSK PWR_FAB_ALL_MSK PWR_INTF_ALL_MSK PWR_BASEADDR_MAC PWR_CMD_WRITE 0x18 0x00,
     pwr_cfg 0x0023 PWR_CUT_ALL_MSK PWR_FAB_ALL_MSK PWR_INTF_SDIO_MSK PWR_BASEADDR_MAC PWR_CMD_WRITE 0x10 0x00,
     pwr_cfg 0x0301 PWR_CUT_ALL_MSK PWR_FAB_ALL_MSK PWR_INTF_PCI_MSK PWR_BASEADDR_MAC PWR_CMD_WRITE 0xff 0x00]"

definition RTL8821A_TRANS_CARDEMU_TO_PDN :: "wlan_pwr_cfg list" where
  "RTL8821A_TRANS_CARDEMU_TO_PDN =
    [pwr_cfg 0x0023 PWR_CUT_ALL_MSK PWR_FAB_ALL_MSK PWR_INTF_SDIO_MSK PWR_BASEADDR_MAC PWR_CMD_WRITE 0x10 0x10,
     pwr_cfg 0x0007 PWR_CUT_ALL_MSK PWR_FAB_ALL_MSK (PWR_INTF_SDIO_MSK OR PWR_INTF_USB_MSK) PWR_BASEADDR_MAC PWR_CMD_WRITE 0xff 0x20,
     pwr_cfg 0x0006 PWR_CUT_ALL_MSK PWR_FAB_ALL_MSK PWR_INTF_ALL_MSK PWR_BASEADDR_MAC PWR_CMD_WRITE 0x01 0x00,
     pwr_cfg 0x0005 PWR_CUT_ALL_MSK PWR_FAB_ALL_MSK PWR_INTF_ALL_MSK PWR_BASEADDR_MAC PWR_CMD_WRITE 0x80 0x80]"

definition RTL8821A_TRANS_PDN_TO_CARDEMU :: "wlan_pwr_cfg list" where
  "RTL8821A_TRANS_PDN_TO_CARDEMU =
    [pwr_cfg 0x0005 PWR_CUT_ALL_MSK PWR_FAB_ALL_MSK PWR_INTF_ALL_MSK PWR_BASEADDR_MAC PWR_CMD_WRITE 0x80 0x00]"

definition RTL8821A_TRANS_ACT_TO_LPS :: "wlan_pwr_cfg list" where
  "RTL8821A_TRANS_ACT_TO_LPS =
    [pwr_cfg 0x0301 PWR_CUT_ALL_MSK PWR_FAB_ALL_MSK PWR_INTF_PCI_MSK PWR_BASEADDR_MAC PWR_CMD_WRITE 0xff 0xff,
     pwr_cfg 0x0522 PWR_CUT_ALL_MSK PWR_FAB_ALL_MSK PWR_INTF_ALL_MSK PWR_BASEADDR_MAC PWR_CMD_WRITE 0xff 0xff,
     pwr_cfg 0x05F8 PWR_CUT_ALL_MSK PWR_FAB_ALL_MSK PWR_INTF_ALL_MSK PWR_BASEADDR_MAC PWR_CMD_POLLING 0xff 0x00,
     pwr_cfg 0x05F9 PWR_CUT_ALL_MSK PWR_FAB_ALL_MSK PWR_INTF_ALL_MSK PWR_BASEADDR_MAC PWR_CMD_POLLING 0xff 0x00,
     pwr_cfg 0x05FA PWR_CUT_ALL_MSK PWR_FAB_ALL_MSK PWR_INTF_ALL_MSK PWR_BASEADDR_MAC PWR_CMD_POLLING 0xff 0x00,
     pwr_cfg 0x05FB PWR_CUT_ALL_MSK PWR_FAB_ALL_MSK PWR_INTF_ALL_MSK PWR_BASEADDR_MAC PWR_CMD_POLLING 0xff 0x00,
     pwr_cfg 0x0002 PWR_CUT_ALL_MSK PWR_FAB_ALL_MSK PWR_INTF_ALL_MSK PWR_BASEADDR_MAC PWR_CMD_WRITE 0x01 0x00,
     pwr_cfg 0x0002 PWR_CUT_ALL_MSK PWR_FAB_ALL_MSK PWR_INTF_ALL_MSK PWR_BASEADDR_MAC PWR_CMD_DELAY 0x00 0x00,
     pwr_cfg 0x0002 PWR_CUT_ALL_MSK PWR_FAB_ALL_MSK PWR_INTF_ALL_MSK PWR_BASEADDR_MAC PWR_CMD_WRITE 0x02 0x00,
     pwr_cfg 0x0100 PWR_CUT_ALL_MSK PWR_FAB_ALL_MSK PWR_INTF_ALL_MSK PWR_BASEADDR_MAC PWR_CMD_WRITE 0xff 0x03,
     pwr_cfg 0x0101 PWR_CUT_ALL_MSK PWR_FAB_ALL_MSK PWR_INTF_ALL_MSK PWR_BASEADDR_MAC PWR_CMD_WRITE 0x02 0x00,
     pwr_cfg 0x0093 PWR_CUT_ALL_MSK PWR_FAB_ALL_MSK PWR_INTF_SDIO_MSK PWR_BASEADDR_MAC PWR_CMD_WRITE 0xff 0x00,
     pwr_cfg 0x0553 PWR_CUT_ALL_MSK PWR_FAB_ALL_MSK PWR_INTF_ALL_MSK PWR_BASEADDR_MAC PWR_CMD_WRITE 0x20 0x20]"

definition RTL8821A_TRANS_LPS_TO_ACT :: "wlan_pwr_cfg list" where
  "RTL8821A_TRANS_LPS_TO_ACT =
    [pwr_cfg 0x0080 PWR_CUT_ALL_MSK PWR_FAB_ALL_MSK PWR_INTF_SDIO_MSK PWR_BASEADDR_SDIO PWR_CMD_WRITE 0xff 0x84,
     pwr_cfg 0xFE58 PWR_CUT_ALL_MSK PWR_FAB_ALL_MSK PWR_INTF_USB_MSK PWR_BASEADDR_MAC PWR_CMD_WRITE 0xff 0x84,
     pwr_cfg 0x0361 PWR_CUT_ALL_MSK PWR_FAB_ALL_MSK PWR_INTF_PCI_MSK PWR_BASEADDR_MAC PWR_CMD_WRITE 0xff 0x84,
     pwr_cfg 0x0002 PWR_CUT_ALL_MSK PWR_FAB_ALL_MSK PWR_INTF_ALL_MSK PWR_BASEADDR_MAC PWR_CMD_DELAY 0x00 0x01,
     pwr_cfg 0x0008 PWR_CUT_ALL_MSK PWR_FAB_ALL_MSK PWR_INTF_ALL_MSK PWR_BASEADDR_MAC PWR_CMD_WRITE 0x10 0x00,
     pwr_cfg 0x0109 PWR_CUT_ALL_MSK PWR_FAB_ALL_MSK PWR_INTF_ALL_MSK PWR_BASEADDR_MAC PWR_CMD_POLLING 0x80 0x00,
     pwr_cfg 0x0029 PWR_CUT_ALL_MSK PWR_FAB_ALL_MSK PWR_INTF_ALL_MSK PWR_BASEADDR_MAC PWR_CMD_WRITE 0xc0 0x00,
     pwr_cfg 0x0101 PWR_CUT_ALL_MSK PWR_FAB_ALL_MSK PWR_INTF_ALL_MSK PWR_BASEADDR_MAC PWR_CMD_WRITE 0x02 0x02,
     pwr_cfg 0x0100 PWR_CUT_ALL_MSK PWR_FAB_ALL_MSK PWR_INTF_ALL_MSK PWR_BASEADDR_MAC PWR_CMD_WRITE 0xff 0xff,
     pwr_cfg 0x0002 PWR_CUT_ALL_MSK PWR_FAB_ALL_MSK PWR_INTF_ALL_MSK PWR_BASEADDR_MAC PWR_CMD_WRITE 0x03 0x03,
     pwr_cfg 0x0522 PWR_CUT_ALL_MSK PWR_FAB_ALL_MSK PWR_INTF_ALL_MSK PWR_BASEADDR_MAC PWR_CMD_WRITE 0xff 0x00]"

definition RTL8821A_TRANS_END :: "wlan_pwr_cfg list" where
  "RTL8821A_TRANS_END =
    [pwr_cfg 0xFFFF PWR_CUT_ALL_MSK PWR_FAB_ALL_MSK PWR_INTF_ALL_MSK 0 PWR_CMD_END 0x00 0x00]"

definition rtl8821A_power_on_flow :: "wlan_pwr_cfg list" where
  "rtl8821A_power_on_flow =
     pwr_array (RTL8821A_TRANS_CARDEMU_TO_ACT_STEPS + RTL8821A_TRANS_END_STEPS)
       (RTL8821A_TRANS_CARDEMU_TO_ACT @ RTL8821A_TRANS_END)"

definition rtl8821A_radio_off_flow :: "wlan_pwr_cfg list" where
  "rtl8821A_radio_off_flow =
     pwr_array (RTL8821A_TRANS_ACT_TO_CARDEMU_STEPS + RTL8821A_TRANS_END_STEPS)
       (RTL8821A_TRANS_ACT_TO_CARDEMU @ RTL8821A_TRANS_END)"

definition rtl8821A_card_disable_flow :: "wlan_pwr_cfg list" where
  "rtl8821A_card_disable_flow =
     pwr_array (RTL8821A_TRANS_ACT_TO_CARDEMU_STEPS + RTL8821A_TRANS_CARDEMU_TO_PDN_STEPS + RTL8821A_TRANS_END_STEPS)
       (RTL8821A_TRANS_ACT_TO_CARDEMU @ RTL8821A_TRANS_CARDEMU_TO_CARDDIS @ RTL8821A_TRANS_END)"

definition rtl8821A_card_enable_flow :: "wlan_pwr_cfg list" where
  "rtl8821A_card_enable_flow =
     pwr_array (RTL8821A_TRANS_CARDDIS_TO_CARDEMU_STEPS + RTL8821A_TRANS_CARDEMU_TO_ACT_STEPS + RTL8821A_TRANS_END_STEPS)
       (RTL8821A_TRANS_CARDDIS_TO_CARDEMU @ RTL8821A_TRANS_CARDEMU_TO_ACT @ RTL8821A_TRANS_END)"

definition rtl8821A_suspend_flow :: "wlan_pwr_cfg list" where
  "rtl8821A_suspend_flow =
     pwr_array (RTL8821A_TRANS_ACT_TO_CARDEMU_STEPS + RTL8821A_TRANS_CARDEMU_TO_SUS_STEPS + RTL8821A_TRANS_END_STEPS)
       (RTL8821A_TRANS_ACT_TO_CARDEMU @ RTL8821A_TRANS_CARDEMU_TO_SUS @ RTL8821A_TRANS_END)"

definition rtl8821A_resume_flow :: "wlan_pwr_cfg list" where
  "rtl8821A_resume_flow =
     pwr_array (RTL8821A_TRANS_ACT_TO_CARDEMU_STEPS + RTL8821A_TRANS_CARDEMU_TO_SUS_STEPS + RTL8821A_TRANS_END_STEPS)
       (RTL8821A_TRANS_SUS_TO_CARDEMU @ RTL8821A_TRANS_CARDEMU_TO_ACT @ RTL8821A_TRANS_END)"

definition rtl8821A_hwpdn_flow :: "wlan_pwr_cfg list" where
  "rtl8821A_hwpdn_flow =
     pwr_array (RTL8821A_TRANS_ACT_TO_CARDEMU_STEPS + RTL8821A_TRANS_CARDEMU_TO_PDN_STEPS + RTL8821A_TRANS_END_STEPS)
       (RTL8821A_TRANS_ACT_TO_CARDEMU @ RTL8821A_TRANS_CARDEMU_TO_PDN @ RTL8821A_TRANS_END)"

definition rtl8821A_enter_lps_flow :: "wlan_pwr_cfg list" where
  "rtl8821A_enter_lps_flow =
     pwr_array (RTL8821A_TRANS_ACT_TO_LPS_STEPS + RTL8821A_TRANS_END_STEPS)
       (RTL8821A_TRANS_ACT_TO_LPS @ RTL8821A_TRANS_END)"

definition rtl8821A_leave_lps_flow :: "wlan_pwr_cfg list" where
  "rtl8821A_leave_lps_flow =
     pwr_array (RTL8821A_TRANS_LPS_TO_ACT_STEPS + RTL8821A_TRANS_END_STEPS)
       (RTL8821A_TRANS_LPS_TO_ACT @ RTL8821A_TRANS_END)"


subsection \<open>RTL8812\<close>

definition RTL8812_TRANS_CARDEMU_TO_ACT_STEPS :: nat where "RTL8812_TRANS_CARDEMU_TO_ACT_STEPS = 15"
definition RTL8812_TRANS_ACT_TO_CARDEMU_STEPS :: nat where "RTL8812_TRANS_ACT_TO_CARDEMU_STEPS = 15"
definition RTL8812_TRANS_CARDEMU_TO_SUS_STEPS :: nat where "RTL8812_TRANS_CARDEMU_TO_SUS_STEPS = 15"
definition RTL8812_TRANS_SUS_TO_CARDEMU_STEPS :: nat where "RTL8812_TRANS_SUS_TO_CARDEMU_STEPS = 15"
definition RTL8812_TRANS_CARDEMU_TO_PDN_STEPS :: nat where "RTL8812_TRANS_CARDEMU_TO_PDN_STEPS = 15"
definition RTL8812_TRANS_PDN_TO_CARDEMU_STEPS :: nat where "RTL8812_TRANS_PDN_TO_CARDEMU_STEPS = 15"
definition RTL8812_TRANS_ACT_TO_LPS_STEPS :: nat where "RTL8812_TRANS_ACT_TO_LPS_STEPS = 15"
definition RTL8812_TRANS_LPS_TO_ACT_STEPS :: nat where "RTL8812_TRANS_LPS_TO_ACT_STEPS = 15"
definition RTL8812_TRANS_END_STEPS :: nat where "RTL8812_TRANS_END_STEPS = 1"

definition RTL8812_TRANS_CARDEMU_TO_ACT :: "wlan_pwr_cfg list" where
  "RTL8812_TRANS_CARDEMU_TO_ACT =
    [pwr_cfg 0x0005 PWR_CUT_ALL_MSK PWR_FAB_ALL_MSK PWR_INTF_ALL_MSK PWR_BASEADDR_MAC PWR_CMD_WRITE 0x04 0x00,
     pwr_cfg 0x0006 PWR_CUT_ALL_MSK PWR_FAB_ALL_MSK PWR_INTF_ALL_MSK PWR_BASEADDR_MAC PWR_CMD_POLLING 0x02 0x02,
     pwr_cfg 0x0005 PWR_CUT_ALL_MSK PWR_FAB_ALL_MSK PWR_INTF_ALL_MSK PWR_BASEADDR_MAC PWR_CMD_WRITE 0x80 0x00,
     pwr_cfg 0x0005 PWR_CUT_ALL_MSK PWR_FAB_ALL_MSK PWR_INTF_ALL_MSK PWR_BASEADDR_MAC PWR_CMD_WRITE 0x08 0x00,
     pwr_cfg 0x0005 PWR_CUT_ALL_MSK PWR_FAB_ALL_MSK PWR_INTF_ALL_MSK PWR_BASEADDR_MAC PWR_CMD_WRITE 0x01 0x01,
     pwr_cfg 0x0005 PWR_CUT_ALL_MSK PWR_FAB_ALL_MSK PWR_INTF_ALL_MSK PWR_BASEADDR_MAC PWR_CMD_POLLING 0x01 0x00]"

definition RTL8812_TRANS_ACT_TO_CARDEMU :: "wlan_pwr_cfg list" where
  "RTL8812_TRANS_ACT_TO_CARDEMU =
    [pwr_cfg 0x0c00 PWR_CUT_ALL_MSK PWR_FAB_ALL_MSK PWR_INTF_ALL_MSK PWR_BASEADDR_MAC PWR_CMD_WRITE 0xff 0x04,
     pwr_cfg 0x0e00 PWR_CUT_ALL_MSK PWR_FAB_ALL_MSK PWR_INTF_ALL_MSK PWR_BASEADDR_MAC PWR_CMD_WRITE 0xff 0x04,
     pwr_cfg 0x0002 PWR_CUT_ALL_MSK PWR_FAB_ALL_MSK PWR_INTF_ALL_MSK PWR_BASEADDR_MAC PWR_CMD_WRITE 0x01 0x00,
     pwr_cfg 0x0002 PWR_CUT_ALL_MSK PWR_FAB_ALL_MSK PWR_INTF_ALL_MSK PWR_BASEADDR_MAC PWR_CMD_DELAY 0x00 0x00,
     pwr_cfg 0x0002 PWR_CUT_ALL_MSK PWR_FAB_ALL_MSK PWR_INTF_PCI_MSK PWR_BASEADDR_MAC PWR_CMD_WRITE 0x02 0x00,
     pwr_cfg 0x0007 PWR_CUT_ALL_MSK PWR_FAB_ALL_MSK PWR_INTF_ALL_MSK PWR_BASEADDR_MAC PWR_CMD_WRITE 0xff 0x28,
     pwr_cfg 0x0008 PWR_CUT_ALL_MSK PWR_FAB_ALL_MSK PWR_INTF_USB_MSK PWR_BASEADDR_MAC PWR_CMD_WRITE 0x02 0x00,
     pwr_cfg 0x0005 PWR_CUT_ALL_MSK PWR_FAB_ALL_MSK PWR_INTF_ALL_MSK PWR_BASEADDR_MAC PWR_CMD_WRITE 0x02 0x02,
     pwr_cfg 0x0005 PWR_CUT_ALL_MSK PWR_FAB_ALL_MSK PWR_INTF_ALL_MSK PWR_BASEADDR_MAC PWR_CMD_POLLING 0x02 0x00]"

definition RTL8812_TRANS_CARDEMU_TO_SUS :: "wlan_pwr_cfg list" where
  "RTL8812_TRANS_CARDEMU_TO_SUS =
    [pwr_cfg 0x0042 PWR_CUT_ALL_MSK PWR_FAB_ALL_MSK PWR_INTF_USB_MSK PWR_BASEADDR_MAC PWR_CMD_WRITE 0xf0 0xcc,
     pwr_cfg 0x0042 PWR_CUT_ALL_MSK PWR_FAB_ALL_MSK PWR_INTF_PCI_MSK PWR_BASEADDR_MAC PWR_CMD_WRITE 0xf0 0xec,
     pwr_cfg 0x0043 PWR_CUT_ALL_MSK PWR_FAB_ALL_MSK PWR_INTF_ALL_MSK PWR_BASEADDR_MAC PWR_CMD_WRITE 0xff 0x07,
     pwr_cfg 0x0045 PWR_CUT_ALL_MSK PWR_FAB_ALL_MSK PWR_INTF_ALL_MSK PWR_BASEADDR_MAC PWR_CMD_WRITE 0xff 0x00,
     pwr_cfg 0x0046 PWR_CUT_ALL_MSK PWR_FAB_ALL_MSK PWR_INTF_ALL_MSK PWR_BASEADDR_MAC PWR_CMD_WRITE 0xff 0xff,
     pwr_cfg 0x0047 PWR_CUT_ALL_MSK PWR_FAB_ALL_MSK PWR_INTF_ALL_MSK PWR_BASEADDR_MAC PWR_CMD_WRITE 0xff 0x00,
     pwr_cfg 0x0007 PWR_CUT_ALL_MSK PWR_FAB_ALL_MSK PWR_INTF_USB_MSK PWR_BASEADDR_MAC PWR_CMD_WRITE 0xff 0x00,
     pwr_cfg 0x0014 PWR_CUT_ALL_MSK PWR_FAB_ALL_MSK PWR_INTF_ALL_MSK PWR_BASEADDR_MAC PWR_CMD_WRITE 0x80 0x80,
     pwr_cfg 0x0015 PWR_CUT_ALL_MSK PWR_FAB_ALL_MSK PWR_INTF_ALL_MSK PWR_BASEADDR_MAC PWR_CMD_WRITE 0x01 0x01,
     pwr_cfg 0x0023 PWR_CUT_ALL_MSK PWR_FAB_ALL_MSK PWR_INTF_ALL_MSK PWR_BASEADDR_MAC PWR_CMD_WRITE 0x10 0x10,
     pwr_cfg 0x0008 PWR_CUT_ALL_MSK PWR_FAB_ALL_MSK PWR_INTF_USB_MSK PWR_BASEADDR_MAC PWR_CMD_WRITE 0x02 0x00,
     pwr_cfg 0x0005 PWR_CUT_ALL_MSK PWR_FAB_ALL_MSK PWR_INTF_ALL_MSK PWR_BASEADDR_MAC PWR_CMD_WRITE 0x08 0x08]"

definition RTL8812_TRANS_SUS_TO_CARDEMU :: "wlan_pwr_cfg list" where
  "RTL8812_TRANS_SUS_TO_CARDEMU =
    [pwr_cfg 0x0005 PWR_CUT_ALL_MSK PWR_FAB_ALL_MSK PWR_INTF_ALL_MSK PWR_BASEADDR_MAC PWR_CMD_WRITE 0x08 0x00,
     pwr_cfg 0x0023 PWR_CUT_ALL_MSK PWR_FAB_ALL_MSK PWR_INTF_ALL_MSK PWR_BASEADDR_MAC PWR_CMD_WRITE 0x10 0x00,
     pwr_cfg 0x0015 PWR_CUT_ALL_MSK PWR_FAB_ALL_MSK PWR_INTF_ALL_MSK PWR_BASEADDR_MAC PWR_CMD_WRITE 0x01 0x00,
     pwr_cfg 0x0014 PWR_CUT_ALL_MSK PWR_FAB_ALL_MSK PWR_INTF_ALL_MSK PWR_BASEADDR_MAC PWR_CMD_WRITE 0x80 0x00,
     pwr_cfg 0x0046 PWR_CUT_ALL_MSK PWR_FAB_ALL_MSK PWR_INTF_ALL_MSK PWR_BASEADDR_MAC PWR_CMD_WRITE 0xff 0x00,
     pwr_cfg 0x0043 PWR_CUT_ALL_MSK PWR_FAB_ALL_MSK PWR_INTF_ALL_MSK PWR_BASEADDR_MAC PWR_CMD_WRITE 0xff 0x00]"

definition RTL8812_TRANS_CARDEMU_TO_CARDDIS :: "wlan_pwr_cfg list" where
  "RTL8812_TRANS_CARDEMU_TO_CARDDIS =
    [pwr_cfg 0x0003 PWR_CUT_ALL_MSK PWR_FAB_ALL_MSK PWR_INTF_ALL_MSK PWR_BASEADDR_MAC PWR_CMD_WRITE 0x04 0x00,
     pwr_cfg 0x0080 PWR_CUT_ALL_MSK PWR_FAB_ALL_MSK PWR_INTF_ALL_MSK PWR_BASEADDR_MAC PWR_CMD_WRITE 0xff 0x05,
     pwr_cfg 0x0042 PWR_CUT_ALL_MSK PWR_FAB_ALL_MSK PWR_INTF_USB_MSK PWR_BASEADDR_MAC PWR_CMD_WRITE 0xf0 0xcc,
     pwr_cfg 0x0042 PWR_CUT_ALL_MSK PWR_FAB_ALL_MSK PWR_INTF_PCI_MSK PWR_BASEADDR_MAC PWR_CMD_WRITE 0xf0 0xec,
     pwr_cfg 0x0043 PWR_CUT_ALL_MSK PWR_FAB_ALL_MSK PWR_INTF_ALL_MSK PWR_BASEADDR_MAC PWR_CMD_WRITE 0xff 0x07,
     pwr_cfg 0x0045 PWR_CUT_ALL_MSK PWR_FAB_ALL_MSK PWR_INTF_ALL_MSK PWR_BASEADDR_MAC PWR_CMD_WRITE 0xff 0x00,
     pwr_cfg 0x0046 PWR_CUT_ALL_MSK PWR_FAB_ALL_MSK PWR_INTF_ALL_MSK PWR_BASEADDR_MAC PWR_CMD_WRITE 0xff 0xff,
     pwr_cfg 0x0047 PWR_CUT_ALL_MSK PWR_FAB_ALL_MSK PWR_INTF_ALL_MSK PWR_BASEADDR_MAC PWR_CMD_WRITE 0xff 0x00,
     pwr_cfg 0x0014 PWR_CUT_ALL_MSK PWR_FAB_ALL_MSK PWR_INTF_ALL_MSK PWR_BASEADDR_MAC PWR_CMD_WRITE 0x80 0x80,
     pwr_cfg 0x0015 PWR_CUT_ALL_MSK PWR_FAB_ALL_MSK PWR_INTF_ALL_MSK PWR_BASEADDR_MAC PWR_CMD_WRITE 0x01 0x01,
     pwr_cfg 0x0012 PWR_CUT_ALL_MSK PWR_FAB_ALL_MSK PWR_INTF_ALL_MSK PWR_BASEADDR_MAC PWR_CMD_WRITE 0x01 0x00,
     pwr_cfg 0x0023 PWR_CUT_ALL_MSK PWR_FAB_ALL_MSK PWR_INTF_ALL_MSK PWR_BASEADDR_MAC PWR_CMD_WRITE 0x10 0x10,
     pwr_cfg 0x0008 PWR_CUT_ALL_MSK PWR_FAB_ALL_MSK PWR_INTF_USB_MSK PWR_BASEADDR_MAC PWR_CMD_WRITE 0x02 0x00,
     pwr_cfg 0x0007 PWR_CUT_ALL_MSK PWR_FAB_ALL_MSK PWR_INTF_USB_MSK PWR_BASEADDR_MAC PWR_CMD_WRITE 0xff 0x20,
     pwr_cfg 0x001f PWR_CUT_ALL_MSK PWR_FAB_ALL_MSK PWR_INTF_USB_MSK PWR_BASEADDR_MAC PWR_CMD_WRITE 0x02 0x00,
     pwr_cfg 0x0076 PWR_CUT_ALL_MSK PWR_FAB_ALL_MSK PWR_INTF_USB_MSK PWR_BASEADDR_MAC PWR_CMD_WRITE 0x02 0x00,
     pwr_cfg 0x0005 PWR_CUT_ALL_MSK PWR_FAB_ALL_MSK PWR_INTF_ALL_MSK PWR_BASEADDR_MAC PWR_CMD_WRITE 0x08 0x08]"

definition RTL8812_TRANS_CARDDIS_TO_CARDEMU :: "wlan_pwr_cfg list" where
  "RTL8812_TRANS_CARDDIS_TO_CARDEMU =
    [pwr_cfg 0x0012 PWR_CUT_ALL_MSK PWR_FAB_ALL_MSK PWR_INTF_ALL_MSK PWR_BASEADDR_MAC PWR_CMD_WRITE 0x01 0x01,
     pwr_cfg 0x0014 PWR_CUT_ALL_MSK PWR_FAB_ALL_MSK PWR_INTF_ALL_MSK PWR_BASEADDR_MAC PWR_CMD_WRITE 0x80 0x00,
     pwr_cfg 0x0015 PWR_CUT_ALL_MSK PWR_FAB_ALL_MSK PWR_INTF_ALL_MSK PWR_BASEADDR_MAC PWR_CMD_WRITE 0x01 0x00,
     pwr_cfg 0x0023 PWR_CUT_ALL_MSK PWR_FAB_ALL_MSK PWR_INTF_ALL_MSK PWR_BASEADDR_MAC PWR_CMD_WRITE 0x10 0x00,
     pwr_cfg 0x0046 PWR_CUT_ALL_MSK PWR_FAB_ALL_MSK PWR_INTF_ALL_MSK PWR_BASEADDR_MAC PWR_CMD_WRITE 0xff 0x00,
     pwr_cfg 0x0043 PWR_CUT_ALL_MSK PWR_FAB_ALL_MSK PWR_INTF_ALL_MSK PWR_BASEADDR_MAC PWR_CMD_WRITE 0xff 0x00,
     pwr_cfg 0x0005 PWR_CUT_ALL_MSK PWR_FAB_ALL_MSK PWR_INTF_PCI_MSK PWR_BASEADDR_MAC PWR_CMD_WRITE 0x04 0x00,
     pwr_cfg 0x0005 PWR_CUT_ALL_MSK PWR_FAB_ALL_MSK PWR_INTF_ALL_MSK PWR_BASEADDR_MAC PWR_CMD_WRITE 0x08 0x00,
     pwr_cfg 0x0003 PWR_CUT_ALL_MSK PWR_FAB_ALL_MSK PWR_INTF_ALL_MSK PWR_BASEADDR_MAC PWR_CMD_WRITE 0x04 0x04,
     pwr_cfg 0x0301 PWR_CUT_ALL_MSK PWR_FAB_ALL_MSK PWR_INTF_PCI_MSK PWR_BASEADDR_MAC PWR_CMD_WRITE 0xff 0x00]"

definition RTL8812_TRANS_CARDEMU_TO_PDN :: "wlan_pwr_cfg list" where
  "RTL8812_TRANS_CARDEMU_TO_PDN =
    [pwr_cfg 0x0005 PWR_CUT_ALL_MSK PWR_FAB_ALL_MSK PWR_INTF_ALL_MSK PWR_BASEADDR_MAC PWR_CMD_WRITE 0x80 0x80]"

definition RTL8812_TRANS_PDN_TO_CARDEMU :: "wlan_pwr_cfg list" where
  "RTL8812_TRANS_PDN_TO_CARDEMU =
    [pwr_cfg 0x0005 PWR_CUT_ALL_MSK PWR_FAB_ALL_MSK PWR_INTF_ALL_MSK PWR_BASEADDR_MAC PWR_CMD_WRITE 0x80 0x00]"

definition RTL8812_TRANS_ACT_TO_LPS :: "wlan_pwr_cfg list" where
  "RTL8812_TRANS_ACT_TO_LPS =
    [pwr_cfg 0x0301 PWR_CUT_ALL_MSK PWR_FAB_ALL_MSK PWR_INTF_PCI_MSK PWR_BASEADDR_MAC PWR_CMD_WRITE 0xff 0xff,
     pwr_cfg 0x0522 PWR_CUT_ALL_MSK PWR_FAB_ALL_MSK PWR_INTF_ALL_MSK PWR_BASEADDR_MAC PWR_CMD_WRITE 0xff 0x7f,
     pwr_cfg 0x05F8 PWR_CUT_ALL_MSK PWR_FAB_ALL_MSK PWR_INTF_ALL_MSK PWR_BASEADDR_MAC PWR_CMD_POLLING 0xff 0x00,
     pwr_cfg 0x05F9 PWR_CUT_ALL_MSK PWR_FAB_ALL_MSK PWR_INTF_ALL_MSK PWR_BASEADDR_MAC PWR_CMD_POLLING 0xff 0x00,
     pwr_cfg 0x05FA PWR_CUT_ALL_MSK PWR_FAB_ALL_MSK PWR_INTF_ALL_MSK PWR_BASEADDR_MAC PWR_CMD_POLLING 0xff 0x00,
     pwr_cfg 0x05FB PWR_CUT_ALL_MSK PWR_FAB_ALL_MSK PWR_INTF_ALL_MSK PWR_BASEADDR_MAC PWR_CMD_POLLING 0xff 0x00,
     pwr_cfg 0x0c00 PWR_CUT_ALL_MSK PWR_FAB_ALL_MSK PWR_INTF_ALL_MSK PWR_BASEADDR_MAC PWR_CMD_WRITE 0xff 0x04,
     pwr_cfg 0x0e00 PWR_CUT_ALL_MSK PWR_FAB_ALL_MSK PWR_INTF_ALL_MSK PWR_BASEADDR_MAC PWR_CMD_WRITE 0xff 0x04,
     pwr_cfg 0x0002 PWR_CUT_ALL_MSK PWR_FAB_ALL_MSK PWR_INTF_ALL_MSK PWR_BASEADDR_MAC PWR_CMD_WRITE 0x01 0x00,
     pwr_cfg 0x0002 PWR_CUT_ALL_MSK PWR_FAB_ALL_MSK PWR_INTF_ALL_MSK PWR_BASEADDR_MAC PWR_CMD_DELAY 0x00 0x00,
     pwr_cfg 0x0002 PWR_CUT_ALL_MSK PWR_FAB_ALL_MSK PWR_INTF_USB_MSK PWR_BASEADDR_MAC PWR_CMD_WRITE 0x02 0x00,
     pwr_cfg 0x0100 PWR_CUT_ALL_MSK PWR_FAB_ALL_MSK PWR_INTF_ALL_MSK PWR_BASEADDR_MAC PWR_CMD_WRITE 0xff 0x03,
     pwr_cfg 0x0101 PWR_CUT_ALL_MSK PWR_FAB_ALL_MSK PWR_INTF_ALL_MSK PWR_BASEADDR_MAC PWR_CMD_WRITE 0x02 0x00,
     pwr_cfg 0x0553 PWR_CUT_ALL_MSK PWR_FAB_ALL_MSK PWR_INTF_ALL_MSK PWR_BASEADDR_MAC PWR_CMD_WRITE 0x20 0x20]"

definition RTL8812_TRANS_LPS_TO_ACT :: "wlan_pwr_cfg list" where
  "RTL8812_TRANS_LPS_TO_ACT =
    [pwr_cfg 0x0080 PWR_CUT_ALL_MSK PWR_FAB_ALL_MSK PWR_INTF_SDIO_MSK PWR_BASEADDR_SDIO PWR_CMD_WRITE 0xff 0x84,
     pwr_cfg 0xFE58 PWR_CUT_ALL_MSK PWR_FAB_ALL_MSK PWR_INTF_USB_MSK PWR_BASEADDR_MAC PWR_CMD_WRITE 0xff 0x84,
     pwr_cfg 0x0361 PWR_CUT_ALL_MSK PWR_FAB_ALL_MSK PWR_INTF_PCI_MSK PWR_BASEADDR_MAC PWR_CMD_WRITE 0xff 0x84,
     pwr_cfg 0x0002 PWR_CUT_ALL_MSK PWR_FAB_ALL_MSK PWR_INTF_ALL_MSK PWR_BASEADDR_MAC PWR_CMD_DELAY 0x00 0x01,
     pwr_cfg 0x0008 PWR_CUT_ALL_MSK PWR_FAB_ALL_MSK PWR_INTF_ALL_MSK PWR_BASEADDR_MAC PWR_CMD_WRITE 0x10 0x00,
     pwr_cfg 0x0109 PWR_CUT_ALL_MSK PWR_FAB_ALL_MSK PWR_INTF_ALL_MSK PWR_BASEADDR_MAC PWR_CMD_POLLING 0x80 0x00,
     pwr_cfg 0x0029 PWR_CUT_ALL_MSK PWR_FAB_ALL_MSK PWR_INTF_ALL_MSK PWR_BASEADDR_MAC PWR_CMD_WRITE 0xc0 0x00,
     pwr_cfg 0x0101 PWR_CUT_ALL_MSK PWR_FAB_ALL_MSK PWR_INTF_ALL_MSK PWR_BASEADDR_MAC PWR_CMD_WRITE 0x02 0x02,
     pwr_cfg 0x0100 PWR_CUT_ALL_MSK PWR_FAB_ALL_MSK PWR_INTF_ALL_MSK PWR_BASEADDR_MAC PWR_CMD_WRITE 0xff 0xff,
     pwr_cfg 0x0002 PWR_CUT_ALL_MSK PWR_FAB_ALL_MSK PWR_INTF_ALL_MSK PWR_BASEADDR_MAC PWR_CMD_WRITE 0x03 0x03,
     pwr_cfg 0x0522 PWR_CUT_ALL_MSK PWR_FAB_ALL_MSK PWR_INTF_ALL_MSK PWR_BASEADDR_MAC PWR_CMD_WRITE 0xff 0x00]"

definition RTL8812_TRANS_END :: "wlan_pwr_cfg list" where
  "RTL8812_TRANS_END =
    [pwr_cfg 0xFFFF PWR_CUT_ALL_MSK PWR_FAB_ALL_MSK PWR_INTF_ALL_MSK 0 PWR_CMD_END 0x00 0x00]"

definition rtl8812_power_on_flow :: "wlan_pwr_cfg list" where
  "rtl8812_power_on_flow =
     pwr_array (RTL8812_TRANS_CARDEMU_TO_ACT_STEPS + RTL8812_TRANS_END_STEPS)
       (RTL8812_TRANS_CARDEMU_TO_ACT @ RTL8812_TRANS_END)"

definition rtl8812_radio_off_flow :: "wlan_pwr_cfg list" where
  "rtl8812_radio_off_flow =
     pwr_array (RTL8812_TRANS_ACT_TO_CARDEMU_STEPS + RTL8812_TRANS_END_STEPS)
       (RTL8812_TRANS_ACT_TO_CARDEMU @ RTL8812_TRANS_END)"

definition rtl8812_card_disable_flow :: "wlan_pwr_cfg list" where
  "rtl8812_card_disable_flow =
     pwr_array (RTL8812_TRANS_ACT_TO_CARDEMU_STEPS + RTL8812_TRANS_CARDEMU_TO_PDN_STEPS + RTL8812_TRANS_END_STEPS)
       (RTL8812_TRANS_ACT_TO_CARDEMU @ RTL8812_TRANS_CARDEMU_TO_CARDDIS @ RTL8812_TRANS_END)"

definition rtl8812_card_enable_flow :: "wlan_pwr_cfg list" where
  "rtl8812_card_enable_flow =
     pwr_array (RTL8812_TRANS_ACT_TO_CARDEMU_STEPS + RTL8812_TRANS_CARDEMU_TO_PDN_STEPS + RTL8812_TRANS_END_STEPS)
       (RTL8812_TRANS_CARDDIS_TO_CARDEMU @ RTL8812_TRANS_CARDEMU_TO_ACT @ RTL8812_TRANS_END)"

definition rtl8812_suspend_flow :: "wlan_pwr_cfg list" where
  "rtl8812_suspend_flow =
     pwr_array (RTL8812_TRANS_ACT_TO_CARDEMU_STEPS + RTL8812_TRANS_CARDEMU_TO_SUS_STEPS + RTL8812_TRANS_END_STEPS)
       (RTL8812_TRANS_ACT_TO_CARDEMU @ RTL8812_TRANS_CARDEMU_TO_SUS @ RTL8812_TRANS_END)"

definition rtl8812_resume_flow :: "wlan_pwr_cfg list" where
  "rtl8812_resume_flow =
     pwr_array (RTL8812_TRANS_ACT_TO_CARDEMU_STEPS + RTL8812_TRANS_CARDEMU_TO_SUS_STEPS + RTL8812_TRANS_END_STEPS)
       (RTL8812_TRANS_SUS_TO_CARDEMU @ RTL8812_TRANS_CARDEMU_TO_ACT @ RTL8812_TRANS_END)"

definition rtl8812_hwpdn_flow :: "wlan_pwr_cfg list" where
  "rtl8812_hwpdn_flow =
     pwr_array (RTL8812_TRANS_ACT_TO_CARDEMU_STEPS + RTL8812_TRANS_CARDEMU_TO_PDN_STEPS + RTL8812_TRANS_END_STEPS)
       (RTL8812_TRANS_ACT_TO_CARDEMU @ RTL8812_TRANS_CARDEMU_TO_PDN @ RTL8812_TRANS_END)"

definition rtl8812_enter_lps_flow :: "wlan_pwr_cfg list" where
  "rtl8812_enter_lps_flow =
     pwr_array (RTL8812_TRANS_ACT_TO_LPS_STEPS + RTL8812_TRANS_END_STEPS)
       (RTL8812_TRANS_ACT_TO_LPS @ RTL8812_TRANS_END)"

definition rtl8812_leave_lps_flow :: "wlan_pwr_cfg list" where
  "rtl8812_leave_lps_flow =
     pwr_array (RTL8812_TRANS_LPS_TO_ACT_STEPS + RTL8812_TRANS_END_STEPS)
       (RTL8812_TRANS_LPS_TO_ACT @ RTL8812_TRANS_END)"


lemmas pwr_steps =
  RTL8821A_TRANS_CARDEMU_TO_ACT_STEPS_def RTL8821A_TRANS_ACT_TO_CARDEMU_STEPS_def
  RTL8821A_TRANS_CARDEMU_TO_SUS_STEPS_def RTL8821A_TRANS_SUS_TO_CARDEMU_STEPS_def
  RTL8821A_TRANS_CARDDIS_TO_CARDEMU_STEPS_def RTL8821A_TRANS_CARDEMU_TO_PDN_STEPS_def
  RTL8821A_TRANS_PDN_TO_CARDEMU_STEPS_def RTL8821A_TRANS_ACT_TO_LPS_STEPS_def RTL8821A_TRANS_LPS_TO_ACT_STEPS_def
  RTL8821A_TRANS_END_STEPS_def RTL8812_TRANS_CARDEMU_TO_ACT_STEPS_def RTL8812_TRANS_ACT_TO_CARDEMU_STEPS_def
  RTL8812_TRANS_CARDEMU_TO_SUS_STEPS_def RTL8812_TRANS_SUS_TO_CARDEMU_STEPS_def RTL8812_TRANS_CARDEMU_TO_PDN_STEPS_def
  RTL8812_TRANS_PDN_TO_CARDEMU_STEPS_def RTL8812_TRANS_ACT_TO_LPS_STEPS_def RTL8812_TRANS_LPS_TO_ACT_STEPS_def
  RTL8812_TRANS_END_STEPS_def

lemmas pwr_tables =
  RTL8821A_TRANS_CARDEMU_TO_ACT_def RTL8821A_TRANS_ACT_TO_CARDEMU_def RTL8821A_TRANS_CARDEMU_TO_SUS_def
  RTL8821A_TRANS_SUS_TO_CARDEMU_def RTL8821A_TRANS_CARDEMU_TO_CARDDIS_def RTL8821A_TRANS_CARDDIS_TO_CARDEMU_def
  RTL8821A_TRANS_CARDEMU_TO_PDN_def RTL8821A_TRANS_PDN_TO_CARDEMU_def RTL8821A_TRANS_ACT_TO_LPS_def
  RTL8821A_TRANS_LPS_TO_ACT_def RTL8821A_TRANS_END_def RTL8812_TRANS_CARDEMU_TO_ACT_def RTL8812_TRANS_ACT_TO_CARDEMU_def
  RTL8812_TRANS_CARDEMU_TO_SUS_def RTL8812_TRANS_SUS_TO_CARDEMU_def RTL8812_TRANS_CARDEMU_TO_CARDDIS_def
  RTL8812_TRANS_CARDDIS_TO_CARDEMU_def RTL8812_TRANS_CARDEMU_TO_PDN_def RTL8812_TRANS_PDN_TO_CARDEMU_def
  RTL8812_TRANS_ACT_TO_LPS_def RTL8812_TRANS_LPS_TO_ACT_def RTL8812_TRANS_END_def

lemmas pwr_flows =
  rtl8821A_power_on_flow_def rtl8821A_radio_off_flow_def rtl8821A_card_disable_flow_def rtl8821A_card_enable_flow_def
  rtl8821A_suspend_flow_def rtl8821A_resume_flow_def rtl8821A_hwpdn_flow_def rtl8821A_enter_lps_flow_def
  rtl8821A_leave_lps_flow_def rtl8812_power_on_flow_def rtl8812_radio_off_flow_def rtl8812_card_disable_flow_def
  rtl8812_card_enable_flow_def rtl8812_suspend_flow_def rtl8812_resume_flow_def rtl8812_hwpdn_flow_def
  rtl8812_enter_lps_flow_def rtl8812_leave_lps_flow_def

definition pwr_flow_arrays :: "wlan_pwr_cfg list list" where
  "pwr_flow_arrays =
     [rtl8821A_power_on_flow, rtl8821A_radio_off_flow, rtl8821A_card_disable_flow, rtl8821A_card_enable_flow,
      rtl8821A_suspend_flow, rtl8821A_resume_flow, rtl8821A_hwpdn_flow, rtl8821A_enter_lps_flow,
      rtl8821A_leave_lps_flow, rtl8812_power_on_flow, rtl8812_radio_off_flow, rtl8812_card_disable_flow,
      rtl8812_card_enable_flow, rtl8812_suspend_flow, rtl8812_resume_flow, rtl8812_hwpdn_flow,
      rtl8812_enter_lps_flow, rtl8812_leave_lps_flow]"

section \<open>Polling\<close>

text \<open>The hardware after \<open>k\<close> reads that missed, each followed by a delay, and what the next read sees.\<close>

fun missed :: "'h reg_bus \<Rightarrow> wlan_pwr_cfg \<Rightarrow> nat \<Rightarrow> 'h \<Rightarrow> 'h" where
  "missed bus c 0 h = h"
| "missed bus c (Suc k) h = missed bus c k (udelay bus 10 (snd (rtl_read_byte bus (pc_offset c) h)))"

definition hit_after :: "'h reg_bus \<Rightarrow> wlan_pwr_cfg \<Rightarrow> 'h \<Rightarrow> nat \<Rightarrow> bool" where
  "hit_after bus c h k \<longleftrightarrow> poll_hit c (fst (rtl_read_byte bus (pc_offset c) (missed bus c k h)))"

lemma hit_after_Suc: "hit_after bus c h (Suc k) = hit_after bus c (udelay bus 10 (snd (rtl_read_byte bus (pc_offset c) h))) k"
  by (simp add: hit_after_def)

lemma poll_loop_hit: "fst (poll_loop bus c h n) \<longleftrightarrow> (\<exists>k. n + k \<le> maxPollingCnt \<and> hit_after bus c h k)"
proof (induction bus c h n rule: poll_loop.induct)
  case (1 bus c h n)
  obtain v h1 where r: "rtl_read_byte bus (pc_offset c) h = (v, h1)" by (cases "rtl_read_byte bus (pc_offset c) h")
  have hit: "poll_hit c v = hit_after bus c h 0" by (simp add: hit_after_def r)
  show ?case
  proof (cases "n > maxPollingCnt \<or> poll_hit c v")
    case True
    have "fst (poll_loop bus c h n) \<longleftrightarrow> n \<le> maxPollingCnt"
      using True by (subst poll_loop.simps) (auto simp: r Let_def)
    then show ?thesis using True hit by (metis add_0_right add_leD1 not_less)
  next
    case False
    then have "fst (poll_loop bus c h n) \<longleftrightarrow> (\<exists>k. n + 1 + k \<le> maxPollingCnt \<and> hit_after bus c (udelay bus 10 h1) k)"
      using 1 [OF r [symmetric] refl refl refl] by (subst poll_loop.simps) (simp add: r Let_def)
    also have "\<dots> \<longleftrightarrow> (\<exists>k. n + Suc k \<le> maxPollingCnt \<and> hit_after bus c h (Suc k))"
      by (simp add: hit_after_Suc r)
    also have "\<dots> \<longleftrightarrow> (\<exists>k. n + k \<le> maxPollingCnt \<and> hit_after bus c h k)"
      using False hit by (metis not0_implies_Suc)
    finally show ?thesis .
  qed
qed

text \<open>
  Liveness: a polling command with \<open>n\<close> polls spent before it succeeds
  exactly when the hardware shows the polled value at one of the next reads, up
  to the 5001st of the whole sequence.
\<close>

theorem pwr_poll_succeeds:
  "fst (poll_loop bus c h n) \<longleftrightarrow> (\<exists>k. n + k \<le> 5000 \<and> hit_after bus c h k)"
  using poll_loop_hit [of bus c h n] by (simp add: maxPollingCnt_def)

section \<open>Termination\<close>

text \<open>A bus that counts its operations.\<close>

definition count_bus :: "'h reg_bus \<Rightarrow> ('h \<times> nat) reg_bus" where
  "count_bus bus =
     \<lparr>rtl_read_byte = (\<lambda>off (h, k). let (v, h) = rtl_read_byte bus off h in (v, h, k + 1)),
      rtl_write_byte = (\<lambda>off v (h, k). (rtl_write_byte bus off v h, k + 1)),
      udelay = (\<lambda>us (h, k). (udelay bus us h, k + 1))\<rparr>"

lemma poll_loop_count:
  "n \<le> maxPollingCnt + 1 \<Longrightarrow>
   \<exists>k'. poll_loop (count_bus bus) c (h, k) n = (fst (poll_loop bus c h n), (fst (snd (poll_loop bus c h n)), k'), snd (snd (poll_loop bus c h n))) \<and>
     snd (snd (poll_loop bus c h n)) \<le> maxPollingCnt + (if fst (poll_loop bus c h n) then 1 else 2) \<and>
     k' + 2 * n \<le> k + 2 * snd (snd (poll_loop bus c h n))"
proof (induction bus c h n arbitrary: k rule: poll_loop.induct)
  case (1 bus c h n)
  obtain v h1 where r: "rtl_read_byte bus (pc_offset c) h = (v, h1)" by (cases "rtl_read_byte bus (pc_offset c) h")
  show ?case
  proof (cases "n > maxPollingCnt \<or> poll_hit c v")
    case True
    then show ?thesis
      using 1(2) by (subst (1 2 3 4 5 6 7) poll_loop.simps) (auto simp: r Let_def count_bus_def)
  next
    case False
    let ?h = "udelay bus 10 h1"
    have e: "poll_loop bus c h n = poll_loop bus c ?h (n + 1)" using False by (subst poll_loop.simps) (simp add: r Let_def)
    have ec: "poll_loop (count_bus bus) c (h, k) n = poll_loop (count_bus bus) c (?h, k + 2) (n + 1)"
      using False by (subst poll_loop.simps) (simp add: r Let_def count_bus_def)
    have "n + 1 \<le> maxPollingCnt + 1" using False by simp
    from 1(1) [OF r [symmetric] refl refl refl _ _ this, of "k + 2"] False show ?thesis unfolding e ec by auto
  qed
qed

lemma pwrseq_loop_count:
  assumes "\<exists>c\<in>set cs. sel c \<and> pc_cmd c = PWR_CMD_END" and "n \<le> maxPollingCnt + 1"
  shows "\<exists>ok h' k'. pwrseq_loop bus sel cs n h = Some (ok, h') \<and> pwrseq_loop (count_bus bus) sel cs n (h, k) = Some (ok, h', k') \<and>
    k' + 2 * n \<le> k + 2 * (maxPollingCnt + 2) + 2 * length cs"
  using assms
proof (induction cs arbitrary: n h k)
  case (Cons c cs)
  show ?case
  proof (cases "sel c \<and> pc_cmd c = PWR_CMD_END")
    case True
    then show ?thesis using Cons.prems(2) by (auto simp: pwr_consts)
  next
    case False
    then have tl: "\<exists>c\<in>set cs. sel c \<and> pc_cmd c = PWR_CMD_END" using Cons.prems(1) by auto
    note IH = Cons.IH [OF tl]
    have w: "pwr_write (count_bus bus) c (h, k) = (pwr_write bus c h, k + 2)"
      by (auto simp: pwr_write_def count_bus_def split: prod.splits)
    have d: "pwr_delay (count_bus bus) c (h, k) = (pwr_delay bus c h, k + 1)"
      by (simp add: pwr_delay_def count_bus_def)
    obtain ok h1 n1 where p: "poll_loop bus c h n = (ok, h1, n1)" by (cases "poll_loop bus c h n")
    obtain k1 where pc: "poll_loop (count_bus bus) c (h, k) n = (ok, (h1, k1), n1)"
      and n1: "n1 \<le> maxPollingCnt + (if ok then 1 else 2)" "k1 + 2 * n \<le> k + 2 * n1"
      using poll_loop_count [OF Cons.prems(2), of bus c h k] p by auto
    consider "sel c \<and> pc_cmd c = PWR_CMD_WRITE" | "sel c \<and> pc_cmd c = PWR_CMD_POLLING" | "sel c \<and> pc_cmd c = PWR_CMD_DELAY"
      | "\<not> (sel c \<and> (pc_cmd c = PWR_CMD_WRITE \<or> pc_cmd c = PWR_CMD_POLLING \<or> pc_cmd c = PWR_CMD_DELAY))" by blast
    then show ?thesis
    proof cases
      case 1
      then show ?thesis using IH [OF Cons.prems(2), of "pwr_write bus c h" "k + 2"] w by auto
    next
      case 2
      then have e: "pc_cmd c \<noteq> PWR_CMD_WRITE" by (simp add: pwr_consts)
      show ?thesis
      proof (cases ok)
        case True
        then have "n1 \<le> maxPollingCnt + 1" using n1(1) by simp
        from IH [OF this, of h1 k1] show ?thesis using 2 e True p pc n1(2) by auto
      next
        case False
        then show ?thesis using 2 e p pc n1 by auto
      qed
    next
      case 3
      then show ?thesis using IH [OF Cons.prems(2), of "pwr_delay bus c h" "k + 1"] d by (auto simp: pwr_consts)
    next
      case 4
      then show ?thesis using False IH [OF Cons.prems(2), of h k] by auto
    qed
  qed
qed simp

lemma pwr_flows_have_end:
  "f \<in> set pwr_flow_arrays \<Longrightarrow> pwr_cfg 0xFFFF PWR_CUT_ALL_MSK PWR_FAB_ALL_MSK PWR_INTF_ALL_MSK 0 PWR_CMD_END 0 0 \<in> set f"
  unfolding pwr_flow_arrays_def
  by (auto simp: pwr_flows pwr_array_def pwr_steps pwr_tables)

text \<open>
  C24 (termination): each of the power sequence tables ends inside its array on every chip
  cut, fab and interface, and whatever the registers return the interpreter
  comes to an end after a bounded number of bus operations.
\<close>

theorem pwr_flows_terminate:
  assumes "f \<in> set pwr_flow_arrays" and "cut_version \<noteq> 0" and "fabversion AND 0x0f \<noteq> 0" and "interface_type AND 0x0f \<noteq> 0"
  shows "\<exists>ok h' k. rtw_hal_pwrseqcmdparsing bus cut_version fabversion interface_type f h = Some (ok, h') \<and>
    rtw_hal_pwrseqcmdparsing (count_bus bus) cut_version fabversion interface_type f (h, 0) = Some (ok, h', k) \<and>
    k \<le> 10004 + 2 * length f"
proof -
  have ones: "0xff AND cut_version = cut_version" by (rule bit_word_eqI) (auto simp: bit_simps)
  have "\<exists>c\<in>set f. cfg_matches cut_version fabversion interface_type c \<and> pc_cmd c = PWR_CMD_END"
    using assms(2-4) ones
    by (intro bexI [OF _ pwr_flows_have_end [OF assms(1)]]) (simp add: cfg_matches_def pwr_cfg_def pwr_consts and.commute)
  from pwrseq_loop_count [OF this, of 0 bus h 0] show ?thesis
    by (auto simp: rtw_hal_pwrseqcmdparsing_def maxPollingCnt_def)
qed

theorem pwr_flows_terminate_witness:
  "\<exists>ok h' k. rtw_hal_pwrseqcmdparsing \<lparr>rtl_read_byte = (\<lambda>off (h :: nat). (0, h + 1)), rtl_write_byte = (\<lambda>off v h. h + 1), udelay = (\<lambda>us h. h)\<rparr>
      PWR_CUT_A_MSK PWR_FAB_ALL_MSK PWR_INTF_USB_MSK rtl8821A_card_enable_flow 0 = Some (ok, h') \<and>
    rtw_hal_pwrseqcmdparsing (count_bus \<lparr>rtl_read_byte = (\<lambda>off (h :: nat). (0, h + 1)), rtl_write_byte = (\<lambda>off v h. h + 1), udelay = (\<lambda>us h. h)\<rparr>)
      PWR_CUT_A_MSK PWR_FAB_ALL_MSK PWR_INTF_USB_MSK rtl8821A_card_enable_flow (0, 0) = Some (ok, h', k) \<and>
    k \<le> 10004 + 2 * length rtl8821A_card_enable_flow"
  by (rule pwr_flows_terminate) (simp_all add: pwr_flow_arrays_def pwr_consts)

section \<open>The registers after a sequence\<close>

text \<open>
  Registers that change only when they are written: a write stores the value and the
  chip reacts by \<open>r\<close>, for instance by clearing a bit that starts an action.
\<close>

type_synonym regs = "u16 \<Rightarrow> byte"

definition react_bus :: "(regs \<Rightarrow> regs) \<Rightarrow> regs reg_bus" where
  "react_bus r =
     \<lparr>rtl_read_byte = (\<lambda>off s. (s off, s)), rtl_write_byte = (\<lambda>off v s. r (s(off := v))), udelay = (\<lambda>us s. s)\<rparr>"

fun regs_after :: "(regs \<Rightarrow> regs) \<Rightarrow> wlan_pwr_cfg list \<Rightarrow> regs \<Rightarrow> bool \<times> regs" where
  "regs_after r [] s = (True, s)"
| "regs_after r (c # cs) s =
     (if pc_cmd c = PWR_CMD_WRITE then regs_after r cs (r (s(pc_offset c := masked_write c (s (pc_offset c)))))
      else if pc_cmd c = PWR_CMD_POLLING \<and> \<not> poll_hit c (s (pc_offset c)) then (False, s)
      else regs_after r cs s)"

text \<open>The commands that are executed: the matching ones before the first matching end.\<close>

definition executed :: "(wlan_pwr_cfg \<Rightarrow> bool) \<Rightarrow> wlan_pwr_cfg list \<Rightarrow> wlan_pwr_cfg list" where
  "executed sel cs = takeWhile (\<lambda>c. pc_cmd c \<noteq> PWR_CMD_END) (filter sel cs)"

lemma missed_react: "missed (react_bus r) c k s = s"
  by (induction k) (simp_all add: react_bus_def)

lemma poll_loop_react: "n \<le> maxPollingCnt \<Longrightarrow> \<exists>n'. poll_loop (react_bus r) c s n = (poll_hit c (s (pc_offset c)), s, n')"
proof (induction "react_bus r" c s n rule: poll_loop.induct)
  case (1 c s n)
  have r: "rtl_read_byte (react_bus r) (pc_offset c) s = (s (pc_offset c), s)" and d: "udelay (react_bus r) 10 s = s"
    by (simp_all add: react_bus_def)
  show ?case
  proof (cases "poll_hit c (s (pc_offset c))")
    case True
    then show ?thesis using 1(2) by (subst poll_loop.simps) (simp add: r Let_def)
  next
    case False
    then have e: "poll_loop (react_bus r) c s n = poll_loop (react_bus r) c s (n + 1)"
      using 1(2) by (subst poll_loop.simps) (simp add: r d Let_def)
    show ?thesis
    proof (cases "n + 1 \<le> maxPollingCnt")
      case True
      from 1(1) [OF r [symmetric] refl refl refl _ _ this] False 1(2) show ?thesis unfolding e by (simp add: d)
    next
      case last: False
      then show ?thesis unfolding e using False by (subst poll_loop.simps) (simp add: r d Let_def)
    qed
  qed
qed

lemma poll_loop_react_hit:
  "n \<le> maxPollingCnt \<Longrightarrow> poll_hit c (s (pc_offset c)) \<Longrightarrow> poll_loop (react_bus r) c s n = (True, s, n + 1)"
  by (subst poll_loop.simps) (simp add: react_bus_def Let_def)

lemma pwrseq_loop_react:
  assumes "\<exists>c\<in>set cs. sel c \<and> pc_cmd c = PWR_CMD_END" and "n + length cs \<le> maxPollingCnt + 1"
  shows "pwrseq_loop (react_bus r) sel cs n s = Some (regs_after r (executed sel cs) s)"
  using assms
proof (induction cs arbitrary: n s)
  case (Cons c cs)
  show ?case
  proof (cases "sel c \<and> pc_cmd c = PWR_CMD_END")
    case True
    then show ?thesis by (simp add: executed_def pwr_consts)
  next
    case False
    then have tl: "\<exists>c\<in>set cs. sel c \<and> pc_cmd c = PWR_CMD_END" using Cons.prems(1) by auto
    have IH: "pwrseq_loop (react_bus r) sel cs m s' = Some (regs_after r (executed sel cs) s')" if "m \<le> n + 1" for m s'
      using that Cons.prems(2) by (intro Cons.IH [OF tl]) simp
    have ex: "executed sel (c # cs) = (if sel c then c # executed sel cs else executed sel cs)"
      using False by (simp add: executed_def)
    have w: "pwr_write (react_bus r) c s = r (s(pc_offset c := masked_write c (s (pc_offset c))))"
      and d: "pwr_delay (react_bus r) c s = s" by (simp_all add: pwr_write_def pwr_delay_def react_bus_def)
    have n: "n \<le> maxPollingCnt" using Cons.prems(2) by simp
    obtain n' where p: "poll_loop (react_bus r) c s n = (poll_hit c (s (pc_offset c)), s, n')"
      using poll_loop_react [OF n] by blast
    have "poll_hit c (s (pc_offset c)) \<Longrightarrow> n' = n + 1" using poll_loop_react_hit [OF n] p by auto
    then show ?thesis using False ex w d p IH by (auto simp: pwr_consts)
  qed
qed simp

text \<open>
  C25 (functional): on registers that change only by writes, and by the reaction of the chip
  to them, a sequence of at most 5001 commands leaves the registers after the
  masked writes of its executed commands, and fails at the first poll whose
  value is not there.
\<close>

theorem pwrseq_registers:
  assumes "\<exists>c\<in>set cs. cfg_matches cut_version fabversion interface_type c \<and> pc_cmd c = PWR_CMD_END" and "length cs \<le> 5001"
  shows "rtw_hal_pwrseqcmdparsing (react_bus r) cut_version fabversion interface_type cs s =
    Some (regs_after r (executed (cfg_matches cut_version fabversion interface_type) cs) s)"
  unfolding rtw_hal_pwrseqcmdparsing_def using assms by (intro pwrseq_loop_react) (simp_all add: maxPollingCnt_def)

theorem pwrseq_registers_witness:
  "rtw_hal_pwrseqcmdparsing (react_bus (\<lambda>s. s)) PWR_CUT_ALL_MSK PWR_FAB_ALL_MSK PWR_INTF_USB_MSK
     [pwr_cfg 0x0005 PWR_CUT_ALL_MSK PWR_FAB_ALL_MSK PWR_INTF_PCI_MSK PWR_BASEADDR_MAC PWR_CMD_WRITE 0xff 0xff,
      pwr_cfg 0x0005 PWR_CUT_ALL_MSK PWR_FAB_ALL_MSK PWR_INTF_ALL_MSK PWR_BASEADDR_MAC PWR_CMD_WRITE 0x18 0x08,
      pwr_cfg 0xFFFF PWR_CUT_ALL_MSK PWR_FAB_ALL_MSK PWR_INTF_ALL_MSK 0 PWR_CMD_END 0 0] (\<lambda>off. 0x11) =
   Some (True, (\<lambda>off. 0x11)(0x0005 := 0x09))"
  using pwrseq_registers [of "[pwr_cfg 0x0005 PWR_CUT_ALL_MSK PWR_FAB_ALL_MSK PWR_INTF_PCI_MSK PWR_BASEADDR_MAC PWR_CMD_WRITE 0xff 0xff,
      pwr_cfg 0x0005 PWR_CUT_ALL_MSK PWR_FAB_ALL_MSK PWR_INTF_ALL_MSK PWR_BASEADDR_MAC PWR_CMD_WRITE 0x18 0x08,
      pwr_cfg 0xFFFF PWR_CUT_ALL_MSK PWR_FAB_ALL_MSK PWR_INTF_ALL_MSK 0 PWR_CMD_END 0 0]"
      PWR_CUT_ALL_MSK PWR_FAB_ALL_MSK PWR_INTF_USB_MSK "\<lambda>s. s" "\<lambda>off. 0x11"]
  by (simp add: cfg_matches_def pwr_cfg_def pwr_consts executed_def masked_write_def)

end
