(* ===== verification/Frame.thy ===== *)
theory Frame
  imports Prelude "HOL-Library.Monad_Syntax"
begin

text \<open>
  The frames the software ciphers of src/core/rtw_security.c work on, and the
  loop over the fragments of a frame to be sent, which \<open>rtw_wep_encrypt\<close>,
  \<open>rtw_tkip_encrypt\<close> and \<open>rtw_aes_encrypt\<close> share word for word.

  A pointer into a frame is the list of the bytes from the pointed-to byte to
  the end of the allocation.  The locale \<open>frame_cipher\<close> states what the loop
  needs of a cipher working on one fragment; its conclusion, that every
  fragment on the air is recovered by the receiver, is instantiated for each
  cipher in the cipher's own theory.
\<close>

section \<open>Attributes and frames\<close>

text \<open>The fields of \<open>struct tx_pkt_attrib\<close> (src/include/rtw_xmit.h) the ciphers read.\<close>

record tx_pkt_attrib =
  tx_hdrlen :: u16
  last_txcmdsz :: u32
  nr_frags :: byte
  tx_encrypt :: byte
  tx_iv_len :: byte
  tx_icv_len :: byte
  tx_ta :: "byte list"
  tx_ra :: "byte list"
  tx_UncstKey :: "byte list"

text \<open>
  \<open>struct xmit_frame\<close>: the address of the buffer (\<open>None\<close> for a NULL
  \<open>buf_addr\<close>) and the bytes allocated there.
\<close>

record xmit_frame =
  buf_addr :: "nat option"
  xf_buf :: "byte list"
  pkt_offset :: byte
  tx_attrib :: tx_pkt_attrib

text \<open>The fields of \<open>struct rx_pkt_attrib\<close> (src/include/rtw_recv.h) the ciphers read.\<close>

record rx_pkt_attrib =
  rx_hdrlen :: byte
  rx_encrypt :: byte
  rx_iv_len :: byte
  rx_icv_len :: byte
  rx_key_index :: byte
  rx_ta :: "byte list"
  rx_ra :: "byte list"

record recv_frame =
  rf_attrib :: rx_pkt_attrib
  rx_len :: u32
  rx_data :: "byte list"

text \<open>The part of \<open>struct security_priv\<close> (src/include/rtw_security.h) the ciphers read.\<close>

record security_priv =
  dot11PrivacyKeyIndex :: u32
  dot11DefKey :: "byte list list"
  dot11DefKeylen :: "u32 list"
  dot118021XGrpKeyid :: u32
  dot118021XGrpKey :: "byte list list"
  binstallGrpkey :: bool

text \<open>\<open>enum rt_enc_alg\<close> of src/wifi.h.\<close>

definition WEP40_ENCRYPTION :: byte where "WEP40_ENCRYPTION = 1"
definition TKIP_ENCRYPTION :: byte where "TKIP_ENCRYPTION = 2"
definition AESCCMP_ENCRYPTION :: byte where "AESCCMP_ENCRYPTION = 4"
definition WEP104_ENCRYPTION :: byte where "WEP104_ENCRYPTION = 5"

section \<open>The fragment loop\<close>

definition RND4 :: "nat \<Rightarrow> nat" where
  "RND4 x = (x div 4 + (if x mod 4 = 0 then 0 else 1)) * 4"

definition TXDESC_SIZE :: byte where "TXDESC_SIZE = 40"
definition PACKET_OFFSET_SZ :: byte where "PACKET_OFFSET_SZ = 8"

definition hw_hdr_offset :: "xmit_frame \<Rightarrow> nat" where
  "hw_hdr_offset xf = unat (TXDESC_SIZE + pkt_offset xf * PACKET_OFFSET_SZ)"

text \<open>
  The payload length of a fragment, computed in 32-bit unsigned arithmetic and
  stored in an \<open>int\<close>: \<open>length = total - hdrlen - iv_len - icv_len\<close>.
\<close>

definition frag_payload_len :: "u32 \<Rightarrow> tx_pkt_attrib \<Rightarrow> int" where
  "frag_payload_len sz a =
     sint (sz - ucast (tx_hdrlen a) - ucast (tx_iv_len a) - ucast (tx_icv_len a))"

text \<open>
  \<open>xmit_frag_loop enc a frag_len k addr mem\<close>: \<open>k\<close> fragments are left, \<open>pframe\<close>
  has the address \<open>addr\<close> and points to \<open>mem\<close>.  All fragments but the last have
  \<open>frag_len\<close> bytes; the next one starts at the following multiple of four.
\<close>

fun xmit_frag_loop ::
  "(int \<Rightarrow> byte list \<Rightarrow> byte list option) \<Rightarrow> tx_pkt_attrib \<Rightarrow> u32 \<Rightarrow> nat \<Rightarrow> nat \<Rightarrow> byte list
     \<Rightarrow> byte list option" where
  "xmit_frag_loop enc a frag_len 0 addr mem = Some mem"
| "xmit_frag_loop enc a frag_len (Suc k) addr mem =
     (if k = 0 then enc (frag_payload_len (last_txcmdsz a) a) mem
      else do {
        mem' \<leftarrow> enc (frag_payload_len frag_len a) mem;
        let addr' = RND4 (addr + unat frag_len);
        let n = addr' - addr;
        rest \<leftarrow> xmit_frag_loop enc a frag_len k addr' (drop n mem');
        Some (take n mem' @ rest)
      })"

text \<open>
  What a receiver sees: the fragments of a buffer, in the order they are sent,
  each with its header, IV, payload and trailer.
\<close>

fun fragments :: "u32 \<Rightarrow> u32 \<Rightarrow> nat \<Rightarrow> nat \<Rightarrow> byte list \<Rightarrow> byte list list" where
  "fragments lst frag_len 0 addr mem = []"
| "fragments lst frag_len (Suc k) addr mem =
     (if k = 0 then [take (unat lst) mem]
      else take (unat frag_len) mem #
        fragments lst frag_len k (RND4 (addr + unat frag_len))
          (drop (RND4 (addr + unat frag_len) - addr) mem))"

text \<open>The bytes the loop may touch, from \<open>pframe\<close> on.\<close>

fun frag_span :: "u32 \<Rightarrow> u32 \<Rightarrow> nat \<Rightarrow> nat \<Rightarrow> nat" where
  "frag_span lst frag_len 0 addr = 0"
| "frag_span lst frag_len (Suc k) addr =
     (if k = 0 then unat lst
      else RND4 (addr + unat frag_len) - addr +
           frag_span lst frag_len k (RND4 (addr + unat frag_len)))"

lemma RND4_ge: "x \<le> RND4 x"
  unfolding RND4_def by (simp split: if_split) presburger

lemma RND4_mult: "RND4 x mod 4 = 0"
  by (simp add: RND4_def)

lemma RND4_less: "RND4 x < x + 4"
  unfolding RND4_def by (simp split: if_split) presburger

text \<open>When the fragment has room for its header, IV and trailer nothing wraps.\<close>

definition tx_overhead :: "tx_pkt_attrib \<Rightarrow> nat" where
  "tx_overhead a = unat (tx_hdrlen a) + unat (tx_iv_len a) + unat (tx_icv_len a)"

lemma frag_payload_len_eq:
  assumes "tx_overhead a \<le> unat sz" and "unat sz < 2 ^ 31"
  shows "frag_payload_len sz a = int (unat sz) - int (tx_overhead a)"
proof -
  let ?h = "ucast (tx_hdrlen a) :: u32" and ?i = "ucast (tx_iv_len a) :: u32"
    and ?c = "ucast (tx_icv_len a) :: u32"
  have u: "unat ?h = unat (tx_hdrlen a)" "unat ?i = unat (tx_iv_len a)" "unat ?c = unat (tx_icv_len a)"
    by (simp_all add: unat_ucast_up)
  have 1: "unat (sz - ?h) = unat sz - unat (tx_hdrlen a)"
    using assms by (subst unat_sub) (auto simp: u word_le_nat_alt tx_overhead_def)
  have 2: "unat (sz - ?h - ?i) = unat sz - unat (tx_hdrlen a) - unat (tx_iv_len a)"
    using assms by (subst unat_sub) (auto simp: 1 u word_le_nat_alt tx_overhead_def)
  have 3: "unat (sz - ?h - ?i - ?c) = unat sz - tx_overhead a"
    using assms by (subst unat_sub) (auto simp: 2 u word_le_nat_alt tx_overhead_def)
  show ?thesis
    unfolding frag_payload_len_def using assms by (subst sint_nonneg_u32) (auto simp: 3)
qed

text \<open>
  The fragments of a frame handed to the hardware, and the condition under which
  the loop stays inside the buffer: every fragment has room for its header, IV
  and trailer, and the buffer for all fragments.
\<close>

definition air_fragments :: "u32 \<Rightarrow> xmit_frame \<Rightarrow> byte list list" where
  "air_fragments frag_len xf =
     (case buf_addr xf of
        None \<Rightarrow> []
      | Some addr \<Rightarrow> fragments (last_txcmdsz (tx_attrib xf)) frag_len (unat (nr_frags (tx_attrib xf)))
          (addr + hw_hdr_offset xf) (drop (hw_hdr_offset xf) (xf_buf xf)))"

definition tx_fits :: "u32 \<Rightarrow> xmit_frame \<Rightarrow> bool" where
  "tx_fits frag_len xf \<longleftrightarrow>
     (let a = tx_attrib xf; off = hw_hdr_offset xf in
      tx_overhead a \<le> unat (last_txcmdsz a) \<and> unat (last_txcmdsz a) < 2 ^ 31 \<and>
      tx_overhead a \<le> unat frag_len \<and> unat frag_len < 2 ^ 31 \<and>
      (case buf_addr xf of
         None \<Rightarrow> False
       | Some addr \<Rightarrow> off + frag_span (last_txcmdsz a) frag_len (unat (nr_frags a)) (addr + off)
                       \<le> length (xf_buf xf)))"

section \<open>The receiver\<close>

text \<open>The payload length of the receiver, ICV included.\<close>

definition rx_payload_len :: "recv_frame \<Rightarrow> int" where
  "rx_payload_len rf =
     sint (rx_len rf - ucast (rx_hdrlen (rf_attrib rf)) - ucast (rx_iv_len (rf_attrib rf)))"

definition received :: "rx_pkt_attrib \<Rightarrow> byte list \<Rightarrow> recv_frame" where
  "received a f = \<lparr>rf_attrib = a, rx_len = of_nat (length f), rx_data = f\<rparr>"

lemma rx_payload_len_eq:
  assumes "h = unat (rx_hdrlen a) + unat (rx_iv_len a)" and "length f = h + m" and "length f < 2 ^ 31"
  shows "rx_payload_len (received a f) = int m"
proof -
  let ?w = "of_nat (length f) :: u32" and ?h = "ucast (rx_hdrlen a) :: u32"
    and ?i = "ucast (rx_iv_len a) :: u32"
  have u: "unat ?h = unat (rx_hdrlen a)" "unat ?i = unat (rx_iv_len a)" "unat ?w = length f"
    using assms(3) by (simp_all add: unat_ucast_up unat_of_nat take_bit_nat_eq_self)
  have 1: "unat (?w - ?h) = length f - unat (rx_hdrlen a)"
    using assms(1,2) by (subst unat_sub) (use u in \<open>auto simp only: word_le_nat_alt\<close>)
  have 2: "unat (?w - ?h - ?i) = m"
    using assms(1,2) by (subst unat_sub) (use u 1 in \<open>auto simp only: word_le_nat_alt\<close>)
  show ?thesis
    unfolding rx_payload_len_def received_def using assms(2,3) 2 sint_nonneg_u32 [of "?w - ?h - ?i"]
    by (simp del: of_nat_add)
qed

text \<open>
  A frame of two fragments of 56 and 48 bytes, used below to exercise the
  ciphers on a concrete buffer.
\<close>

definition sample_attrib :: "byte \<Rightarrow> byte \<Rightarrow> byte \<Rightarrow> tx_pkt_attrib" where
  "sample_attrib enc iv icv =
     \<lparr>tx_hdrlen = 24, last_txcmdsz = 48, nr_frags = 2, tx_encrypt = enc, tx_iv_len = iv,
      tx_icv_len = icv, tx_ta = [2, 0, 0, 0, 0, 1], tx_ra = [2, 0, 0, 0, 0, 2],
      tx_UncstKey = map of_nat [1..<17]\<rparr>"

definition sample_rx_attrib :: "byte \<Rightarrow> byte \<Rightarrow> byte \<Rightarrow> rx_pkt_attrib" where
  "sample_rx_attrib enc iv icv =
     \<lparr>rx_hdrlen = 24, rx_encrypt = enc, rx_iv_len = iv, rx_icv_len = icv, rx_key_index = 0,
      rx_ta = [2, 0, 0, 0, 0, 1], rx_ra = [2, 0, 0, 0, 0, 2]\<rparr>"

definition sample_frame :: "byte \<Rightarrow> byte \<Rightarrow> byte \<Rightarrow> xmit_frame" where
  "sample_frame enc iv icv =
     \<lparr>buf_addr = Some 4096, xf_buf = replicate 160 0, pkt_offset = 0,
      tx_attrib = sample_attrib enc iv icv\<rparr>"

definition sample_sec :: security_priv where
  "sample_sec =
     \<lparr>dot11PrivacyKeyIndex = 0, dot11DefKey = replicate 4 (replicate 16 7),
      dot11DefKeylen = replicate 4 5, dot118021XGrpKeyid = 1,
      dot118021XGrpKey = replicate 4 (replicate 16 9), binstallGrpkey = True\<rparr>"

lemmas sample_defs =
  sample_attrib_def sample_rx_attrib_def sample_frame_def sample_sec_def

lemma frag_span_2: "frag_span l f 2 addr = RND4 (addr + unat f) - addr + unat l"
  by (simp add: numeral_2_eq_2)

lemma fragments_2:
  "fragments l f 2 addr mem =
     [take (unat f) mem, take (unat l) (drop (RND4 (addr + unat f) - addr) mem)]"
  by (simp add: numeral_2_eq_2)

lemma sample_fragments:
  "air_fragments 56 (sample_frame enc iv icv) = [replicate 56 0, replicate 48 0]"
  by (simp add: air_fragments_def sample_defs hw_hdr_offset_def TXDESC_SIZE_def fragments_2 RND4_def)

lemma sample_fits: "unat iv + unat icv \<le> 24 \<Longrightarrow> tx_fits 56 (sample_frame enc iv icv)"
  by (simp add: tx_fits_def sample_defs tx_overhead_def hw_hdr_offset_def TXDESC_SIZE_def frag_span_2
      RND4_def Let_def)

section \<open>The contract of a cipher for one fragment\<close>

text \<open>
  \<open>seal p len mem\<close> encrypts in place the \<open>len\<close> payload bytes that follow the
  \<open>hd p\<close> bytes of header and IV and writes \<open>tr p\<close> bytes of trailer;
  \<open>unseal p f\<close> is the receiver working on a received fragment \<open>f\<close>, \<open>None\<close>
  when it rejects the fragment.  \<open>ok p f\<close> says that both ends are configured
  alike and that the plain fragment \<open>f\<close> is one they agree on how to read.
\<close>

locale frame_cipher =
  fixes ok :: "'p \<Rightarrow> byte list \<Rightarrow> bool"
    and hd_len :: "'p \<Rightarrow> nat"
    and tr_len :: "'p \<Rightarrow> nat"
    and seal :: "'p \<Rightarrow> int \<Rightarrow> byte list \<Rightarrow> byte list option"
    and unseal :: "'p \<Rightarrow> byte list \<Rightarrow> byte list option"
  assumes seal_total:
    "ok p (take n mem) \<Longrightarrow> n = hd_len p + l + tr_len p \<Longrightarrow> n \<le> length mem \<Longrightarrow> n < 2 ^ 31 \<Longrightarrow>
     \<exists>mem'. seal p (int l) mem = Some mem'"
    and seal_frame:
    "ok p (take n mem) \<Longrightarrow> n = hd_len p + l + tr_len p \<Longrightarrow> n \<le> length mem \<Longrightarrow>
     seal p (int l) mem = Some mem' \<Longrightarrow> length mem' = length mem \<and> drop n mem' = drop n mem"
    and unseal_seal:
    "ok p (take n mem) \<Longrightarrow> n = hd_len p + l + tr_len p \<Longrightarrow> n \<le> length mem \<Longrightarrow> n < 2 ^ 31 \<Longrightarrow>
     seal p (int l) mem = Some mem' \<Longrightarrow>
     \<exists>t. length t = tr_len p \<and> unseal p (take n mem') = Some (take (hd_len p + l) mem @ t)"
begin

definition recovered :: "'p \<Rightarrow> byte list \<Rightarrow> byte list \<Rightarrow> bool" where
  "recovered p plain cipher \<longleftrightarrow>
     (\<exists>t. length t = tr_len p \<and>
        unseal p cipher = Some (take (length plain - tr_len p) plain @ t))"

lemma seal_one:
  assumes "ok p (take n mem)" and "hd_len p + tr_len p \<le> n" and "n \<le> length mem" and "n < 2 ^ 31"
  shows "\<exists>mem'. seal p (int n - int (hd_len p + tr_len p)) mem = Some mem' \<and>
           length mem' = length mem \<and> drop n mem' = drop n mem \<and>
           recovered p (take n mem) (take n mem')"
proof -
  define l where "l = n - (hd_len p + tr_len p)"
  have n: "n = hd_len p + l + tr_len p" and l: "int n - int (hd_len p + tr_len p) = int l"
    using assms(2) by (auto simp: l_def)
  obtain mem' where s: "seal p (int l) mem = Some mem'"
    using seal_total [OF assms(1) n assms(3,4)] by blast
  moreover note seal_frame [OF assms(1) n assms(3) s]
  moreover obtain t where t: "length t = tr_len p"
      "unseal p (take n mem') = Some (take (hd_len p + l) mem @ t)"
    using unseal_seal [OF assms(1) n assms(3,4) s] by blast
  have "length (take n mem) - tr_len p = hd_len p + l" using assms(3) n by simp
  with t have "recovered p (take n mem) (take n mem')"
    unfolding recovered_def using n by (metis le_add1 min.absorb1 take_take)
  ultimately show ?thesis unfolding l by blast
qed

text \<open>
  The fragment loop of the sender: it returns, and every fragment it leaves in
  the buffer is recovered by the receiver.
\<close>

lemma frag_loop_recovered:
  assumes "tx_overhead a = hd_len p + tr_len p"
    and "tx_overhead a \<le> unat (last_txcmdsz a)" and "unat (last_txcmdsz a) < 2 ^ 31"
    and "tx_overhead a \<le> unat fl" and "unat fl < 2 ^ 31"
    and "frag_span (last_txcmdsz a) fl k addr \<le> length mem"
    and "\<forall>f \<in> set (fragments (last_txcmdsz a) fl k addr mem). ok p f"
  shows "\<exists>mem'. xmit_frag_loop (seal p) a fl k addr mem = Some mem' \<and>
    length mem' = length mem \<and>
    list_all2 (recovered p) (fragments (last_txcmdsz a) fl k addr mem)
      (fragments (last_txcmdsz a) fl k addr mem')"
  using assms(6,7)
proof (induction k arbitrary: addr mem)
  case 0
  then show ?case by simp
next
  case (Suc k)
  note len = frag_payload_len_eq [OF assms(2,3)] frag_payload_len_eq [OF assms(4,5)]
  show ?case
  proof (cases "k = 0")
    case True
    then show ?thesis
      using seal_one [of p "unat (last_txcmdsz a)" mem] assms(1,2,3) Suc.prems len by auto
  next
    case False
    define addr' where "addr' = RND4 (addr + unat fl)"
    define n where "n = addr' - addr"
    have n: "unat fl \<le> n" using RND4_ge [of "addr + unat fl"] by (simp add: n_def addr'_def)
    have span: "n + frag_span (last_txcmdsz a) fl k addr' \<le> length mem"
      using Suc.prems(1) False by (simp add: n_def addr'_def)
    obtain m1 where m1: "seal p (frag_payload_len fl a) mem = Some m1" "length m1 = length mem"
        "drop (unat fl) m1 = drop (unat fl) mem"
        "recovered p (take (unat fl) mem) (take (unat fl) m1)"
      using seal_one [of p "unat fl" mem] assms(1,4,5) Suc.prems(2) span n False len by auto
    have rest: "drop n m1 = drop n mem"
      using m1(3) n by (metis drop_drop le_add_diff_inverse2)
    obtain m2 where m2: "xmit_frag_loop (seal p) a fl k addr' (drop n m1) = Some m2"
        "length m2 = length (drop n m1)"
        "list_all2 (recovered p) (fragments (last_txcmdsz a) fl k addr' (drop n mem))
           (fragments (last_txcmdsz a) fl k addr' m2)"
    proof -
      have "\<forall>f \<in> set (fragments (last_txcmdsz a) fl k addr' (drop n m1)). ok p f"
        using Suc.prems(2) False unfolding rest by (simp add: n_def addr'_def)
      moreover have "frag_span (last_txcmdsz a) fl k addr' \<le> length (drop n m1)"
        using span m1(2) by simp
      ultimately show ?thesis using Suc.IH [of addr' "drop n m1"] that unfolding rest by blast
    qed
    have "take (unat fl) (take n m1 @ m2) = take (unat fl) m1" "drop n (take n m1 @ m2) = m2"
      using n span m1(2) by (auto simp: min_def)
    with m1 m2 False span show ?thesis
      by (auto simp: n_def [symmetric] addr'_def [symmetric] Let_def)
  qed
qed

text \<open>The same for a whole frame, the loop started behind the hardware header.\<close>

lemma frame_recovered:
  assumes "tx_fits fl xf" and "buf_addr xf = Some addr" and "a = tx_attrib xf"
    and "tx_overhead a = hd_len p + tr_len p"
    and "\<forall>f \<in> set (air_fragments fl xf). ok p f"
  shows "\<exists>mem'. xmit_frag_loop (seal p) a fl (unat (nr_frags a)) (addr + hw_hdr_offset xf)
        (drop (hw_hdr_offset xf) (xf_buf xf)) = Some mem' \<and>
      list_all2 (recovered p) (air_fragments fl xf)
        (air_fragments fl (xf\<lparr>xf_buf := take (hw_hdr_offset xf) (xf_buf xf) @ mem'\<rparr>))"
proof -
  let ?off = "hw_hdr_offset xf"
  have off: "?off \<le> length (xf_buf xf)" using assms(1,2) by (auto simp: tx_fits_def Let_def)
  obtain mem' where "xmit_frag_loop (seal p) a fl (unat (nr_frags a)) (addr + ?off)
        (drop ?off (xf_buf xf)) = Some mem'"
      "list_all2 (recovered p)
         (fragments (last_txcmdsz a) fl (unat (nr_frags a)) (addr + ?off) (drop ?off (xf_buf xf)))
         (fragments (last_txcmdsz a) fl (unat (nr_frags a)) (addr + ?off) mem')"
  proof -
    have "frag_span (last_txcmdsz a) fl (unat (nr_frags a)) (addr + ?off)
        \<le> length (drop ?off (xf_buf xf))"
      using assms(1-3) by (auto simp: tx_fits_def Let_def)
    from frag_loop_recovered [OF assms(4) _ _ _ _ this] assms that show ?thesis
      by (auto simp: tx_fits_def air_fragments_def Let_def)
  qed
  moreover have "hw_hdr_offset (xf\<lparr>xf_buf := b\<rparr>) = ?off" for b by (simp add: hw_hdr_offset_def)
  ultimately show ?thesis
    using off assms(2,3) by (auto simp: air_fragments_def min_def)
qed

end

end
