(* ===== verification/Recvframe.thy ===== *)
theory Recvframe
  imports Frame
begin

text \<open>
  Received frames: the buffer pointers of \<open>struct recv_frame\<close> and their operations
  (src/include/rtw_recv.h), the allocation of a frame's buffer (src/os_dep/recv_linux.c),
  the pool of frames and its queues, and the duplicate filter \<open>recv_decache\<close>
  (src/core/rtw_recv.c).

  A pointer to a \<open>struct recv_frame\<close> is its number in the frame buffer of the
  driver and a linked list is the list of its numbers; \<open>list_del_init\<close> takes a frame
  out of whichever list it is in.  The pointers \<open>rx_data\<close>, \<open>rx_tail\<close> and \<open>rx_end\<close>
  are offsets from \<open>rx_head\<close>.  A freed buffer is empty, so that using it is
  an access outside of the buffer.

  Shown: the pointers stay in order; a received packet fits into the buffer allocated for
  it; the queues never share a frame and the counter of free frames is the
  length of the free queue.
\<close>

section \<open>Frames\<close>

text \<open>The fields of \<open>struct rx_pkt_attrib\<close> that the receive path reads besides those of the ciphers.\<close>

record rx_attrib = rx_pkt_attrib +
  rx_pkt_len :: u16
  rx_qos :: byte
  rx_priority :: byte
  rx_amsdu :: byte
  rx_seq_num :: u16
  rx_frag_num :: byte
  rx_mfrag :: byte
  rx_privacy :: byte
  rx_bdecrypted :: byte
  rx_eth_type :: u16
  rx_dst :: "byte list"
  rx_src :: "byte list"

record rx_frame =
  rxf_skb :: bool
  rxf_attrib :: rx_attrib
  rxf_len :: u32
  rxf_buf :: "byte list"
  rxf_data :: int
  rxf_tail :: int
  rxf_end :: int

definition recvframe_push :: "int \<Rightarrow> rx_frame \<Rightarrow> int option \<times> rx_frame" where
  "recvframe_push sz f =
     (let d = rxf_data f - sz
      in if d < 0 then (None, f)
         else (Some d, f\<lparr>rxf_data := d, rxf_len := rxf_len f + word_of_int sz\<rparr>))"

definition recvframe_pull :: "int \<Rightarrow> rx_frame \<Rightarrow> int option \<times> rx_frame" where
  "recvframe_pull sz f =
     (let d = rxf_data f + sz
      in if d > rxf_tail f then (None, f)
         else (Some d, f\<lparr>rxf_data := d, rxf_len := rxf_len f - word_of_int sz\<rparr>))"

definition recvframe_put :: "int \<Rightarrow> rx_frame \<Rightarrow> int option \<times> rx_frame" where
  "recvframe_put sz f =
     (let t = rxf_tail f + sz
      in if t > rxf_end f then (None, f)
         else (Some t, f\<lparr>rxf_tail := t, rxf_len := rxf_len f + word_of_int sz\<rparr>))"

definition recvframe_pull_tail :: "int \<Rightarrow> rx_frame \<Rightarrow> int option \<times> rx_frame" where
  "recvframe_pull_tail sz f =
     (let t = rxf_tail f - sz
      in if t < rxf_data f then (None, f)
         else (Some t, f\<lparr>rxf_tail := t, rxf_len := rxf_len f - word_of_int sz\<rparr>))"

text \<open>
  \<open>netdev_alloc_skb\<close> returns the bytes of a new socket buffer from \<open>data\<close> on, \<open>align\<close> is
  the address of \<open>data\<close>; \<open>skb_clone\<close> tells whether the received buffer could be cloned
  and \<open>pskb\<close> whether there is one.  \<open>pdata\<close> holds the bytes of the received buffer from the packet on.
\<close>

definition rtw_os_alloc_recvframe ::
  "(nat \<Rightarrow> byte list option) \<Rightarrow> nat \<Rightarrow> bool \<Rightarrow> byte list option \<Rightarrow> bool \<Rightarrow> rx_frame \<Rightarrow> (status \<times> rx_frame) option" where
  "rtw_os_alloc_recvframe netdev_alloc_skb align skb_clone pdata pskb f =
     (case pdata of
        None \<Rightarrow> Some (FAIL, f\<lparr>rxf_skb := False\<rparr>)
      | Some src \<Rightarrow>
          let a = rxf_attrib f;
              shift_sz = (if rx_qos a \<noteq> 0 then 6 else 0);
              skb_len = unat (rx_pkt_len a);
              first = (rx_mfrag a = 1 \<and> rx_frag_num a = 0);
              alloc_sz = (if first then (if skb_len \<le> 1650 then 1664 else skb_len + 14) else skb_len + 14)
          in (case netdev_alloc_skb alloc_sz of
                Some m \<Rightarrow> do {
                  s \<leftarrow> rd_bytes src 0 (int skb_len);
                  let d = int (8 - align mod 8 + shift_sz);
                  m \<leftarrow> wr_bytes m d s;
                  Some (SUCCESS, f\<lparr>rxf_skb := True, rxf_buf := m, rxf_end := int alloc_sz, rxf_data := d, rxf_tail := d\<rparr>)
                }
              | None \<Rightarrow>
                  if first then Some (FAIL, f)
                  else if \<not> pskb then Some (FAIL, f)
                  else if skb_clone
                  then Some (SUCCESS, f\<lparr>rxf_skb := True, rxf_buf := src, rxf_end := int alloc_sz, rxf_data := 0, rxf_tail := 0\<rparr>)
                  else Some (FAIL, f\<lparr>rxf_skb := False\<rparr>)))"

definition rtw_os_free_recvframe :: "rx_frame \<Rightarrow> rx_frame" where
  "rtw_os_free_recvframe f = (if rxf_skb f then f\<lparr>rxf_skb := False, rxf_buf := []\<rparr> else f)"

section \<open>The pool\<close>

text \<open>What the receive path keeps of a station: its defragmentation queue, keys and port state.\<close>

record rx_sta =
  rs_defrag_q :: "nat list"
  rs_UncstKey :: "byte list"
  rs_tkiprxmickey :: "byte list"
  rs_ieee8021x_blocked :: bool

record recv_priv =
  rp_frames :: "rx_frame list"
  rp_free_recv_queue :: "nat list"
  rp_uc_swdec_pending_queue :: "nat list"
  rp_free_recvframe_cnt :: u32
  rp_stas :: "rx_sta list"

datatype rx_queue = FreeQ | SwdecQ | DefragQ nat

definition NR_RECVFRAME :: nat where "NR_RECVFRAME = 256"

fun queue_of :: "rx_queue \<Rightarrow> recv_priv \<Rightarrow> nat list" where
  "queue_of FreeQ s = rp_free_recv_queue s"
| "queue_of SwdecQ s = rp_uc_swdec_pending_queue s"
| "queue_of (DefragQ k) s = rs_defrag_q (rp_stas s ! k)"

fun list_add_tail :: "nat \<Rightarrow> rx_queue \<Rightarrow> recv_priv \<Rightarrow> recv_priv" where
  "list_add_tail i FreeQ s = s\<lparr>rp_free_recv_queue := rp_free_recv_queue s @ [i]\<rparr>"
| "list_add_tail i SwdecQ s = s\<lparr>rp_uc_swdec_pending_queue := rp_uc_swdec_pending_queue s @ [i]\<rparr>"
| "list_add_tail i (DefragQ k) s =
     s\<lparr>rp_stas := (rp_stas s)[k := (rp_stas s ! k)\<lparr>rs_defrag_q := rs_defrag_q (rp_stas s ! k) @ [i]\<rparr>]\<rparr>"

definition list_del_init :: "nat \<Rightarrow> recv_priv \<Rightarrow> recv_priv" where
  "list_del_init i s =
     s\<lparr>rp_free_recv_queue := removeAll i (rp_free_recv_queue s),
       rp_uc_swdec_pending_queue := removeAll i (rp_uc_swdec_pending_queue s),
       rp_stas := map (\<lambda>t. t\<lparr>rs_defrag_q := removeAll i (rs_defrag_q t)\<rparr>) (rp_stas s)\<rparr>"

definition upd_frame :: "nat \<Rightarrow> (rx_frame \<Rightarrow> rx_frame) \<Rightarrow> recv_priv \<Rightarrow> recv_priv" where
  "upd_frame i g s = s\<lparr>rp_frames := (rp_frames s)[i := g (rp_frames s ! i)]\<rparr>"

text \<open>
  \<open>mem\<close> tells whether \<open>rtw_zvmalloc\<close> returns memory and \<open>res\<close> is what the bus specific part
  \<open>init_recv_priv\<close> returns.
\<close>

definition zero_frame :: rx_frame where
  "zero_frame =
     \<lparr>rxf_skb = False,
      rxf_attrib =
        \<lparr>rx_hdrlen = 0, rx_encrypt = 0, rx_iv_len = 0, rx_icv_len = 0, rx_key_index = 0,
         rx_ta = replicate 6 0, rx_ra = replicate 6 0, rx_pkt_len = 0, rx_qos = 0, rx_priority = 0, rx_amsdu = 0,
         rx_seq_num = 0, rx_frag_num = 0, rx_mfrag = 0, rx_privacy = 0, rx_bdecrypted = 0, rx_eth_type = 0,
         rx_dst = replicate 6 0, rx_src = replicate 6 0\<rparr>,
      rxf_len = 0, rxf_buf = [], rxf_data = 0, rxf_tail = 0, rxf_end = 0\<rparr>"

definition rtw_init_recv_priv :: "bool \<Rightarrow> status \<Rightarrow> recv_priv \<Rightarrow> status \<times> recv_priv" where
  "rtw_init_recv_priv mem res s =
     (let s = s\<lparr>rp_free_recv_queue := [], rp_uc_swdec_pending_queue := [], rp_free_recvframe_cnt := of_nat NR_RECVFRAME\<rparr>
      in if \<not> mem then (FAIL, s)
         else (res, s\<lparr>rp_frames := replicate NR_RECVFRAME zero_frame, rp_free_recv_queue := [0..<NR_RECVFRAME]\<rparr>))"

definition rtw_alloc_recvframe :: "rx_queue \<Rightarrow> recv_priv \<Rightarrow> nat option \<times> recv_priv" where
  "rtw_alloc_recvframe q s =
     (case queue_of q s of
        [] \<Rightarrow> (None, s)
      | i # _ \<Rightarrow>
          let s = list_del_init i s
          in (Some i, if q = FreeQ then s\<lparr>rp_free_recvframe_cnt := rp_free_recvframe_cnt s - 1\<rparr> else s))"

definition rtw_init_recvframe :: "rx_frame \<Rightarrow> rx_frame" where
  "rtw_init_recvframe f = f\<lparr>rxf_len := 0\<rparr>"

definition rtw_enqueue_recvframe :: "nat \<Rightarrow> rx_queue \<Rightarrow> recv_priv \<Rightarrow> recv_priv" where
  "rtw_enqueue_recvframe i q s =
     (let s = list_add_tail i q (list_del_init i s)
      in if q = FreeQ then s\<lparr>rp_free_recvframe_cnt := rp_free_recvframe_cnt s + 1\<rparr> else s)"

definition rtw_free_recvframe :: "nat \<Rightarrow> rx_queue \<Rightarrow> recv_priv \<Rightarrow> recv_priv" where
  "rtw_free_recvframe i q s =
     (let s = upd_frame i rtw_os_free_recvframe s;
          s = list_del_init i s;
          s = upd_frame i (\<lambda>f. f\<lparr>rxf_len := 0\<rparr>) s;
          s = list_add_tail i q s
      in if q = FreeQ then s\<lparr>rp_free_recvframe_cnt := rp_free_recvframe_cnt s + 1\<rparr> else s)"

definition rtw_free_recvframe_queue :: "rx_queue \<Rightarrow> rx_queue \<Rightarrow> recv_priv \<Rightarrow> recv_priv" where
  "rtw_free_recvframe_queue pframequeue pfree_recv_queue s =
     fold (\<lambda>i. rtw_free_recvframe i pfree_recv_queue) (queue_of pframequeue s) s"

lemma list_del_init_queues:
  "rp_free_recv_queue (list_del_init i s) = removeAll i (rp_free_recv_queue s)"
  "rp_uc_swdec_pending_queue (list_del_init i s) = removeAll i (rp_uc_swdec_pending_queue s)"
  "rp_stas (list_del_init i s) = map (\<lambda>t. t\<lparr>rs_defrag_q := removeAll i (rs_defrag_q t)\<rparr>) (rp_stas s)"
  "rp_frames (list_del_init i s) = rp_frames s"
  "rp_free_recvframe_cnt (list_del_init i s) = rp_free_recvframe_cnt s"
  by (simp_all add: list_del_init_def)

lemma swdec_queue_shrinks:
  assumes "rtw_alloc_recvframe SwdecQ s = (Some i, s')"
  shows "length (rp_uc_swdec_pending_queue (rtw_free_recvframe i FreeQ s')) < length (rp_uc_swdec_pending_queue s)"
proof -
  from assms obtain js where q: "rp_uc_swdec_pending_queue s = i # js" and s': "s' = list_del_init i s"
    by (auto simp: rtw_alloc_recvframe_def split: list.splits)
  have "length (removeAll i (removeAll i (i # js))) < length (i # js)"
    by (simp add: less_Suc_eq_le)
  then show ?thesis
    by (simp add: q s' rtw_free_recvframe_def Let_def list_del_init_queues upd_frame_def)
qed

text \<open>
  The loop that empties \<open>uc_swdec_pending_queue\<close> ends because every turn takes a frame out of the queue.
\<close>

function rtw_free_uc_swdec_pending_queue :: "recv_priv \<Rightarrow> u32 \<Rightarrow> u32 \<times> recv_priv" where
  "rtw_free_uc_swdec_pending_queue s cnt =
     (case rtw_alloc_recvframe SwdecQ s of
        (None, s) \<Rightarrow> (cnt, s)
      | (Some i, s) \<Rightarrow> rtw_free_uc_swdec_pending_queue (rtw_free_recvframe i FreeQ s) (cnt + 1))"
  by pat_completeness auto
termination
  by (relation "measure (\<lambda>(s, cnt). length (rp_uc_swdec_pending_queue s))")
    (auto intro: swdec_queue_shrinks simp del: list_add_tail.simps)

section \<open>Duplicate detection\<close>

definition recv_decache :: "rx_attrib \<Rightarrow> u16 list \<Rightarrow> status \<times> u16 list" where
  "recv_decache a tid_rxseq =
     (let tid = unat (rx_priority a);
          seq_ctrl = push_bit 4 (rx_seq_num a AND 0xffff) OR ucast (rx_frag_num a AND 0xf)
      in if tid > 15 then (FAIL, tid_rxseq)
         else if seq_ctrl = tid_rxseq ! tid then (FAIL, tid_rxseq)
         else (SUCCESS, tid_rxseq[tid := seq_ctrl]))"

section \<open>The pointers of a frame\<close>

definition frame_ok :: "rx_frame \<Rightarrow> bool" where
  "frame_ok f \<longleftrightarrow> 0 \<le> rxf_data f \<and> rxf_data f \<le> rxf_tail f \<and> rxf_tail f \<le> rxf_end f \<and>
     rxf_end f \<le> int (length (rxf_buf f)) \<and> int (length (rxf_buf f)) < 2 ^ 31 \<and>
     rxf_len f = word_of_int (rxf_tail f - rxf_data f)"

definition frame_bytes :: "rx_frame \<Rightarrow> byte list" where
  "frame_bytes f = take (nat (rxf_tail f - rxf_data f)) (drop (nat (rxf_data f)) (rxf_buf f))"

lemmas recvframe_defs = recvframe_push_def recvframe_pull_def recvframe_put_def recvframe_pull_tail_def

lemma frame_ok_ops:
  assumes "frame_ok f" and "0 \<le> sz"
  shows "frame_ok (snd (recvframe_push sz f))" "frame_ok (snd (recvframe_pull sz f))"
    "frame_ok (snd (recvframe_put sz f))" "frame_ok (snd (recvframe_pull_tail sz f))"
  using assms by (auto simp: frame_ok_def recvframe_defs Let_def algebra_simps
      wi_hom_sub [symmetric] wi_hom_add [symmetric])

lemma length_frame_bytes: "frame_ok f \<Longrightarrow> length (frame_bytes f) = nat (rxf_tail f - rxf_data f)"
  by (auto simp: frame_ok_def frame_bytes_def)

lemma int_length_frame_bytes: "frame_ok f \<Longrightarrow> int (length (frame_bytes f)) = rxf_tail f - rxf_data f"
  by (simp add: length_frame_bytes) (simp add: frame_ok_def)

lemma uint_rxf_len:
  assumes f: "frame_ok f"
  shows "uint (rxf_len f) = rxf_tail f - rxf_data f"
proof -
  have "uint (word_of_int (rxf_tail f - rxf_data f) :: u32) = (rxf_tail f - rxf_data f) mod 2 ^ 32"
    unfolding uint_word_of_int by simp
  also have "\<dots> = rxf_tail f - rxf_data f"
    using f by (intro mod_pos_pos_trivial) (auto simp: frame_ok_def)
  finally show ?thesis using f by (simp add: frame_ok_def)
qed

lemma frame_bytes_pull:
  assumes "frame_ok f" and "0 \<le> sz" and "sz \<le> rxf_tail f - rxf_data f"
  shows "frame_bytes (snd (recvframe_pull sz f)) = drop (nat sz) (frame_bytes f)"
proof -
  have "nat (rxf_data f + sz) = nat (rxf_data f) + nat sz"
    "nat (rxf_tail f - (rxf_data f + sz)) = nat (rxf_tail f - rxf_data f) - nat sz"
    using assms by (auto simp: frame_ok_def)
  then show ?thesis using assms by (simp add: frame_bytes_def recvframe_pull_def Let_def drop_take add.commute)
qed

lemma frame_bytes_pull_tail:
  assumes "frame_ok f" and "0 \<le> sz" and "sz \<le> rxf_tail f - rxf_data f"
  shows "frame_bytes (snd (recvframe_pull_tail sz f)) = take (length (frame_bytes f) - nat sz) (frame_bytes f)"
proof -
  have "nat (rxf_tail f - sz - rxf_data f) = nat (rxf_tail f - rxf_data f) - nat sz"
    using assms by auto
  then show ?thesis
    using assms by (simp add: length_frame_bytes) (simp add: frame_bytes_def recvframe_pull_tail_def Let_def min_def)
qed

text \<open>The payload of a frame with its integrity value, and without it.\<close>

definition hdr_size :: "rx_frame \<Rightarrow> nat" where
  "hdr_size f = unat (rx_hdrlen (rxf_attrib f)) + unat (rx_iv_len (rxf_attrib f))"

definition frag_body :: "rx_frame \<Rightarrow> byte list" where
  "frag_body f = drop (hdr_size f) (frame_bytes f)"

definition strip_icv :: "nat \<Rightarrow> byte list \<Rightarrow> byte list" where
  "strip_icv c b = take (length b - c) b"

definition icv_size :: "rx_frame \<Rightarrow> nat" where
  "icv_size f = unat (rx_icv_len (rxf_attrib f))"

definition frag_payload :: "rx_frame \<Rightarrow> byte list" where
  "frag_payload f = strip_icv (icv_size f) (frag_body f)"

definition frag_ok :: "rx_frame \<Rightarrow> bool" where
  "frag_ok f \<longleftrightarrow> frame_ok f \<and> hdr_size f < 256 \<and> hdr_size f + icv_size f \<le> length (frame_bytes f)"

lemma frame_bytes_buf:
  "frame_ok f \<Longrightarrow> rd_bytes (rxf_buf f) (rxf_data f) (uint (rxf_len f)) = Some (frame_bytes f)"
  by (simp add: uint_rxf_len rd_bytes_def in_buf_def frame_bytes_def) (simp add: frame_ok_def)

lemma recvframe_pull_ok:
  assumes "frame_ok f" and "int sz \<le> rxf_tail f - rxf_data f"
  shows "snd (recvframe_pull (int sz) f) = f\<lparr>rxf_data := rxf_data f + int sz, rxf_len := rxf_len f - word_of_int (int sz)\<rparr>"
    "snd (recvframe_pull_tail (int sz) f) = f\<lparr>rxf_tail := rxf_tail f - int sz, rxf_len := rxf_len f - word_of_int (int sz)\<rparr>"
  using assms by (auto simp: recvframe_pull_def recvframe_pull_tail_def Let_def)

section \<open>The invariant of the pool\<close>

definition queues :: "recv_priv \<Rightarrow> nat list" where
  "queues s = rp_free_recv_queue s @ rp_uc_swdec_pending_queue s @ concat (map rs_defrag_q (rp_stas s))"

definition pool_inv :: "recv_priv \<Rightarrow> bool" where
  "pool_inv s \<longleftrightarrow> distinct (queues s) \<and> set (queues s) \<subseteq> {..<length (rp_frames s)} \<and>
     rp_free_recvframe_cnt s = of_nat (length (rp_free_recv_queue s))"

definition held :: "recv_priv \<Rightarrow> nat set" where
  "held s = {..<length (rp_frames s)} - set (queues s)"

lemma list_del_init_idle:
  assumes "i \<notin> set (queues s)"
  shows "list_del_init i s = s"
proof -
  have "map (\<lambda>t. t\<lparr>rs_defrag_q := removeAll i (rs_defrag_q t)\<rparr>) (rp_stas s) = rp_stas s"
    using assms by (intro map_idI) (auto simp: queues_def)
  then show ?thesis using assms by (simp add: list_del_init_def queues_def)
qed

lemma queues_list_del_init: "queues (list_del_init i s) = removeAll i (queues s)"
  by (simp add: queues_def list_del_init_queues comp_def removeAll_filter_not_eq filter_concat)

text \<open>Frames freed one after the other to the free queue, none of which is there already.\<close>

lemma free_recvframe_eq:
  assumes "i \<notin> set (rp_free_recv_queue s)"
  shows "rtw_free_recvframe i FreeQ s =
    s\<lparr>rp_frames := (rp_frames s)[i := (rtw_os_free_recvframe (rp_frames s ! i))\<lparr>rxf_len := 0\<rparr>],
      rp_free_recv_queue := rp_free_recv_queue s @ [i],
      rp_uc_swdec_pending_queue := removeAll i (rp_uc_swdec_pending_queue s),
      rp_stas := map (\<lambda>t. t\<lparr>rs_defrag_q := removeAll i (rs_defrag_q t)\<rparr>) (rp_stas s),
      rp_free_recvframe_cnt := rp_free_recvframe_cnt s + 1\<rparr>"
  using assms
  by (cases "i < length (rp_frames s)") (simp_all add: rtw_free_recvframe_def Let_def list_del_init_def upd_frame_def list_update_beyond)

lemma fold_free_recvframe:
  assumes "distinct xs" and "set xs \<inter> set (rp_free_recv_queue s) = {}"
  defines "s' \<equiv> fold (\<lambda>i. rtw_free_recvframe i FreeQ) xs s"
  shows "rp_free_recv_queue s' = rp_free_recv_queue s @ xs"
    "rp_uc_swdec_pending_queue s' = filter (\<lambda>i. i \<notin> set xs) (rp_uc_swdec_pending_queue s)"
    "rp_stas s' = map (\<lambda>t. t\<lparr>rs_defrag_q := filter (\<lambda>i. i \<notin> set xs) (rs_defrag_q t)\<rparr>) (rp_stas s)"
    "rp_free_recvframe_cnt s' = rp_free_recvframe_cnt s + of_nat (length xs)"
    "length (rp_frames s') = length (rp_frames s)"
    "\<forall>j. j \<notin> set xs \<longrightarrow> rp_frames s' ! j = rp_frames s ! j"
proof -
  have "rp_free_recv_queue s' = rp_free_recv_queue s @ xs \<and>
    rp_uc_swdec_pending_queue s' = filter (\<lambda>i. i \<notin> set xs) (rp_uc_swdec_pending_queue s) \<and>
    rp_stas s' = map (\<lambda>t. t\<lparr>rs_defrag_q := filter (\<lambda>i. i \<notin> set xs) (rs_defrag_q t)\<rparr>) (rp_stas s) \<and>
    rp_free_recvframe_cnt s' = rp_free_recvframe_cnt s + of_nat (length xs) \<and>
    length (rp_frames s') = length (rp_frames s) \<and>
    (\<forall>j. j \<notin> set xs \<longrightarrow> rp_frames s' ! j = rp_frames s ! j)"
    using assms(1,2) unfolding s'_def
  proof (induction xs arbitrary: s)
    case (Cons x xs)
    then have "x \<notin> set (rp_free_recv_queue s)" by auto
    note eq = free_recvframe_eq [OF this]
    have "set xs \<inter> set (rp_free_recv_queue (rtw_free_recvframe x FreeQ s)) = {}"
      using Cons.prems by (auto simp: eq)
    with Cons show ?case
      by (simp add: eq removeAll_filter_not_eq comp_def conj_commute neq_commute [of _ x])
  qed simp
  then show "rp_free_recv_queue s' = rp_free_recv_queue s @ xs"
    "rp_uc_swdec_pending_queue s' = filter (\<lambda>i. i \<notin> set xs) (rp_uc_swdec_pending_queue s)"
    "rp_stas s' = map (\<lambda>t. t\<lparr>rs_defrag_q := filter (\<lambda>i. i \<notin> set xs) (rs_defrag_q t)\<rparr>) (rp_stas s)"
    "rp_free_recvframe_cnt s' = rp_free_recvframe_cnt s + of_nat (length xs)"
    "length (rp_frames s') = length (rp_frames s)"
    "\<forall>j. j \<notin> set xs \<longrightarrow> rp_frames s' ! j = rp_frames s ! j" by blast+
qed

lemma queues_fold_free:
  assumes "distinct xs" and "set xs \<inter> set (rp_free_recv_queue s) = {}"
  shows "queues (fold (\<lambda>i. rtw_free_recvframe i FreeQ) xs s) =
    rp_free_recv_queue s @ xs @ filter (\<lambda>i. i \<notin> set xs) (rp_uc_swdec_pending_queue s @ concat (map rs_defrag_q (rp_stas s)))"
  by (simp add: queues_def fold_free_recvframe [OF assms] comp_def filter_concat)

lemma pool_inv_fold_free:
  assumes "pool_inv s" and "distinct xs" and "set xs \<inter> set (rp_free_recv_queue s) = {}"
    and "set xs \<subseteq> {..<length (rp_frames s)}"
  shows "pool_inv (fold (\<lambda>i. rtw_free_recvframe i FreeQ) xs s)"
    "set (queues (fold (\<lambda>i. rtw_free_recvframe i FreeQ) xs s)) = set (queues s) \<union> set xs"
  using assms unfolding pool_inv_def queues_fold_free [OF assms(2,3)] fold_free_recvframe [OF assms(2,3)]
  by (auto simp: queues_def)

lemma length_free_recvframe [len_simps]:
  "length (rp_stas (rtw_free_recvframe i q s)) = length (rp_stas s)"
  "length (rp_frames (rtw_free_recvframe i q s)) = length (rp_frames s)"
  by (cases q; simp add: rtw_free_recvframe_def Let_def upd_frame_def list_del_init_queues)+

lemma length_fold_free [len_simps]:
  "length (rp_stas (fold (\<lambda>i. rtw_free_recvframe i q) xs s)) = length (rp_stas s)"
  "length (rp_frames (fold (\<lambda>i. rtw_free_recvframe i q) xs s)) = length (rp_frames s)"
  by (induction xs arbitrary: s) (simp_all add: length_free_recvframe)

lemma length_free_queue [len_simps]:
  "length (rp_stas (rtw_free_recvframe_queue q q' s)) = length (rp_stas s)"
  "length (rp_frames (rtw_free_recvframe_queue q q' s)) = length (rp_frames s)"
  by (simp_all add: rtw_free_recvframe_queue_def length_fold_free)

lemma defrag_queue_disjoint:
  assumes "pool_inv s" and "k < length (rp_stas s)"
  shows "distinct (queue_of (DefragQ k) s)" "set (queue_of (DefragQ k) s) \<inter> set (rp_free_recv_queue s) = {}"
    "set (queue_of (DefragQ k) s) \<subseteq> set (queues s)" "set (queue_of (DefragQ k) s) \<subseteq> {..<length (rp_frames s)}"
proof -
  have k: "rs_defrag_q (rp_stas s ! k) \<in> set (map rs_defrag_q (rp_stas s))" using assms(2) by simp
  have d: "distinct (concat (map rs_defrag_q (rp_stas s)))"
    and f: "set (rp_free_recv_queue s) \<inter> set (concat (map rs_defrag_q (rp_stas s))) = {}"
    using assms(1) by (auto simp: pool_inv_def queues_def)
  have q: "set (rs_defrag_q (rp_stas s ! k)) \<subseteq> set (concat (map rs_defrag_q (rp_stas s)))" using k by auto
  show "distinct (queue_of (DefragQ k) s)" using d k by (simp add: distinct_concat_iff)
  show "set (queue_of (DefragQ k) s) \<inter> set (rp_free_recv_queue s) = {}" using f q by auto
  show "set (queue_of (DefragQ k) s) \<subseteq> set (queues s)" using q by (auto simp: queues_def)
  then show "set (queue_of (DefragQ k) s) \<subseteq> {..<length (rp_frames s)}" using assms(1) by (auto simp: pool_inv_def)
qed

lemma free_defrag_queue:
  assumes "pool_inv s" and "k < length (rp_stas s)"
  defines "s' \<equiv> rtw_free_recvframe_queue (DefragQ k) FreeQ s"
  shows "pool_inv s'" "set (queues s') = set (queues s)" "held s' = held s" "queue_of (DefragQ k) s' = []"
    "length (rp_stas s') = length (rp_stas s)" "length (rp_frames s') = length (rp_frames s)"
    "\<forall>j. j \<notin> set (queue_of (DefragQ k) s) \<longrightarrow> rp_frames s' ! j = rp_frames s ! j"
proof -
  note q = defrag_queue_disjoint [OF assms(1,2)]
  note e = fold_free_recvframe [OF q(1,2)]
  note p = pool_inv_fold_free [OF assms(1) q(1,2,4)]
  show "pool_inv s'" and sq: "set (queues s') = set (queues s)"
    using p q(3) by (auto simp: s'_def rtw_free_recvframe_queue_def)
  show l: "length (rp_frames s') = length (rp_frames s)"
    "\<forall>j. j \<notin> set (queue_of (DefragQ k) s) \<longrightarrow> rp_frames s' ! j = rp_frames s ! j"
    "length (rp_stas s') = length (rp_stas s)"
    using e(3,5,6) by (simp_all add: s'_def rtw_free_recvframe_queue_def)
  then show "held s' = held s" using sq by (simp add: held_def)
  show "queue_of (DefragQ k) s' = []"
    using e(3) assms(2) by (auto simp: s'_def rtw_free_recvframe_queue_def filter_empty_conv)
qed

lemma free_held_frame:
  assumes "pool_inv s" and "i \<in> held s"
  defines "s' \<equiv> rtw_free_recvframe i FreeQ s"
  shows "pool_inv s'" "set (queues s') = insert i (set (queues s))" "held s' = held s - {i}" "rp_stas s' = rp_stas s"
    "length (rp_frames s') = length (rp_frames s)" "\<forall>j. j \<noteq> i \<longrightarrow> rp_frames s' ! j = rp_frames s ! j"
proof -
  have i: "distinct [i]" "set [i] \<inter> set (rp_free_recv_queue s) = {}" "set [i] \<subseteq> {..<length (rp_frames s)}"
    using assms(2) by (auto simp: held_def queues_def)
  note e = fold_free_recvframe [OF i(1,2), simplified] and p = pool_inv_fold_free [OF assms(1) i, simplified]
  show "pool_inv s'" and sq: "set (queues s') = insert i (set (queues s))" using p by (auto simp: s'_def)
  show l: "length (rp_frames s') = length (rp_frames s)" "\<forall>j. j \<noteq> i \<longrightarrow> rp_frames s' ! j = rp_frames s ! j"
    using e(5,6) by (simp_all add: s'_def)
  then show "held s' = held s - {i}" using sq by (auto simp: held_def)
  show "rp_stas s' = rp_stas s"
    unfolding s'_def e(3) using assms(2)
    by (intro map_idI) (auto simp: held_def queues_def filter_id_conv intro!: rx_sta.equality)
qed

lemma take_from_defrag_queue:
  assumes "pool_inv s" and "k < length (rp_stas s)" and "p \<in> set (queue_of (DefragQ k) s)"
  defines "s' \<equiv> list_del_init p s"
  shows "pool_inv s'" "held s' = insert p (held s)" "queue_of (DefragQ k) s' = removeAll p (queue_of (DefragQ k) s)"
    "rp_frames s' = rp_frames s" "length (rp_stas s') = length (rp_stas s)"
proof -
  note q = defrag_queue_disjoint [OF assms(1,2)]
  have "p \<notin> set (rp_free_recv_queue s)" "p < length (rp_frames s)" using q assms(3) by auto
  then show "pool_inv s'" "held s' = insert p (held s)"
    using assms(1) by (auto simp: s'_def pool_inv_def held_def queues_list_del_init list_del_init_queues distinct_removeAll)
  show "queue_of (DefragQ k) s' = removeAll p (queue_of (DefragQ k) s)" "rp_frames s' = rp_frames s" "length (rp_stas s') = length (rp_stas s)"
    using assms(2) by (simp_all add: s'_def list_del_init_queues)
qed

lemma add_to_defrag_queue:
  assumes "pool_inv s" and "k < length (rp_stas s)" and "i \<in> held s"
  defines "s' \<equiv> list_add_tail i (DefragQ k) s"
  shows "pool_inv s'" "held s' = held s - {i}" "queue_of (DefragQ k) s' = queue_of (DefragQ k) s @ [i]"
    "rp_frames s' = rp_frames s" "length (rp_stas s') = length (rp_stas s)"
proof -
  let ?q = "\<lambda>j. rs_defrag_q (rp_stas s ! j)"
  obtain a b where s: "rp_stas s = a @ rp_stas s ! k # b" and a: "length a = k" using assms(2) by (metis id_take_nth_drop length_take min.absorb4)
  have "queues s' = rp_free_recv_queue s @ rp_uc_swdec_pending_queue s @ concat (map rs_defrag_q a) @ ?q k @ [i] @ concat (map rs_defrag_q b)"
    "queues s = rp_free_recv_queue s @ rp_uc_swdec_pending_queue s @ concat (map rs_defrag_q a) @ ?q k @ concat (map rs_defrag_q b)"
    using a by (simp add: s'_def queues_def, subst s, simp add: list_update_append)
      (simp add: queues_def, subst s, simp)
  note qs = this
  have fr: "rp_frames s' = rp_frames s" "rp_free_recvframe_cnt s' = rp_free_recvframe_cnt s" "rp_free_recv_queue s' = rp_free_recv_queue s"
    by (simp_all add: s'_def)
  show "pool_inv s'" "held s' = held s - {i}"
    using assms(1,3) unfolding pool_inv_def held_def qs fr by auto
  show "queue_of (DefragQ k) s' = queue_of (DefragQ k) s @ [i]" "rp_frames s' = rp_frames s" "length (rp_stas s') = length (rp_stas s)"
    using assms(2) by (simp_all add: s'_def)
qed

lemma alloc_recvframe_held:
  assumes "pool_inv s"
  shows "case rtw_alloc_recvframe FreeQ s of
      (None, s') \<Rightarrow> s' = s \<and> rp_free_recv_queue s = []
    | (Some i, s') \<Rightarrow> pool_inv s' \<and> i \<notin> held s \<and> held s' = insert i (held s) \<and> rp_frames s' = rp_frames s \<and>
        length (rp_stas s') = length (rp_stas s)"
proof (cases "rp_free_recv_queue s")
  case (Cons i q)
  have d: "i \<notin> set q" "distinct (queues s)" "i < length (rp_frames s)" "i \<in> set (queues s)"
    using assms Cons by (auto simp: pool_inv_def queues_def)
  have cnt: "rp_free_recvframe_cnt s - 1 = of_nat (length (removeAll i (rp_free_recv_queue s)))"
    using assms Cons d(1) by (simp add: pool_inv_def)
  let ?s = "(list_del_init i s)\<lparr>rp_free_recvframe_cnt := rp_free_recvframe_cnt s - 1\<rparr>"
  have q: "queues ?s = removeAll i (queues s)"
    using queues_list_del_init [of i s] by (simp add: queues_def)
  have "pool_inv ?s" "held ?s = insert i (held s)"
    using assms d cnt unfolding pool_inv_def held_def q by (auto simp: list_del_init_queues distinct_removeAll)
  then show ?thesis
    using Cons d(4) by (simp add: rtw_alloc_recvframe_def Let_def list_del_init_queues held_def)
qed (simp add: rtw_alloc_recvframe_def)

section \<open>The interface of the pool\<close>

text \<open>
  A pool of frames as its clients see it.  A frame is allocated, filled and given to a
  handler, which keeps it in a queue, gives it back to the pool or returns a frame; the
  caller frees a returned frame.  \<open>held\<close> are the frames that are in no queue.
\<close>

definition pool_receive ::
  "('s \<Rightarrow> 'i option \<times> 's) \<Rightarrow> ('c \<Rightarrow> 'i \<Rightarrow> 's \<Rightarrow> 's) \<Rightarrow> ('i \<Rightarrow> 's \<Rightarrow> 's) \<Rightarrow> ('i \<Rightarrow> 's \<Rightarrow> ('i option \<times> 's) option)
     \<Rightarrow> 'c \<Rightarrow> 's \<Rightarrow> 's option" where
  "pool_receive alloc fill free handle c s =
     (case alloc s of
        (None, s) \<Rightarrow> Some s
      | (Some i, s) \<Rightarrow>
          (case handle i (fill c i s) of
             None \<Rightarrow> None
           | Some (None, s) \<Rightarrow> Some s
           | Some (Some j, s) \<Rightarrow> Some (free j s)))"

fun run_all :: "('c \<Rightarrow> 's \<Rightarrow> 's option) \<Rightarrow> 'c list \<Rightarrow> 's \<Rightarrow> 's option" where
  "run_all step [] s = Some s"
| "run_all step (c # cs) s = (case step c s of None \<Rightarrow> None | Some s \<Rightarrow> run_all step cs s)"

locale frame_pool =
  fixes inv :: "'s \<Rightarrow> bool"
    and held :: "'s \<Rightarrow> 'i set"
    and alloc :: "'s \<Rightarrow> 'i option \<times> 's"
    and fill :: "'c \<Rightarrow> 'i \<Rightarrow> 's \<Rightarrow> 's"
    and free :: "'i \<Rightarrow> 's \<Rightarrow> 's"
    and handle :: "'i \<Rightarrow> 's \<Rightarrow> ('i option \<times> 's) option"
    and ok :: "'c \<Rightarrow> bool"
  assumes alloc_none: "inv s \<Longrightarrow> alloc s = (None, s') \<Longrightarrow> s' = s"
    and alloc_some: "inv s \<Longrightarrow> alloc s = (Some i, s') \<Longrightarrow> inv s' \<and> i \<notin> held s \<and> held s' = insert i (held s)"
    and fill_handle: "inv s \<Longrightarrow> i \<in> held s \<Longrightarrow> ok c \<Longrightarrow> handle i (fill c i s) = Some (r, s') \<Longrightarrow>
      inv s' \<and> held s' = held s - {i} \<union> set_option r"
    and free_held: "inv s \<Longrightarrow> i \<in> held s \<Longrightarrow> inv (free i s) \<and> held (free i s) = held s - {i}"
    and handle_new: "inv s \<Longrightarrow> i \<in> held s \<Longrightarrow> ok c \<Longrightarrow> handle i (fill c i s) = Some (Some j, s') \<Longrightarrow> j \<notin> held s - {i}"
begin

lemma receive_held:
  assumes "inv s" and "ok c" and "pool_receive alloc fill free handle c s = Some s'"
  shows "inv s' \<and> held s' = held s"
proof (cases "alloc s")
  case (Pair a t)
  show ?thesis
  proof (cases a)
    case None
    then show ?thesis using assms Pair alloc_none [of s t] by (simp add: pool_receive_def)
  next
    case (Some i)
    have t: "inv t" "i \<notin> held s" "held t = insert i (held s)"
      using alloc_some [of s i t] assms(1) Pair Some by auto
    obtain r u where u: "handle i (fill c i t) = Some (r, u)"
      using assms(3) Pair Some by (auto simp: pool_receive_def split: option.splits)
    have h: "inv u" "held u = held s \<union> set_option r"
      using fill_handle [OF t(1) _ assms(2) u] t by auto
    show ?thesis
    proof (cases r)
      case (Some j)
      then have "j \<notin> held s" using handle_new [OF t(1) _ assms(2), of i j u] u t by auto
      then show ?thesis
        using assms(3) Pair \<open>a = Some i\<close> u h free_held [of u j] Some by (auto simp: pool_receive_def)
    qed (use assms(3) Pair Some u h in \<open>simp add: pool_receive_def\<close>)
  qed
qed

lemma receive_all_held:
  "inv s \<Longrightarrow> list_all ok cs \<Longrightarrow> run_all (pool_receive alloc fill free handle) cs s = Some s' \<Longrightarrow>
   inv s' \<and> held s' = held s"
  by (induction cs arbitrary: s) (auto dest: receive_held split: option.splits)

end

end
