(* ===== verification/Michael.thy ===== *)
theory Michael
  imports Prelude "HOL-Library.Monad_Syntax"
begin

text \<open>
  The Michael message integrity code of TKIP (\<open>struct mic_data\<close>, \<open>secmic*\<close>,
  \<open>rtw_secmic*\<close>, \<open>rtw_secgetmic\<close> and \<open>rtw_seccalctkipmic\<close> of
  src/core/rtw_security.c).

  The driver feeds the code byte by byte and keeps a partly filled word; shown:
  the result is that of the textbook definition \<open>michael_ref\<close>, which pads the whole
  message and iterates the standard's block function over its 32-bit words, the padding
  loop ends, and splitting a message over several calls makes no difference.  The reference
  has its own block function (library rotations and an exchange of bytes instead of the
  driver's shifts and masks) and is checked on the standard's first test vector.
\<close>

section \<open>Definitions\<close>

record mic_data =
  K0 :: u32
  K1 :: u32
  L :: u32
  R :: u32
  M :: u32
  nBytesInM :: u32

definition ROL32 :: "u32 \<Rightarrow> nat \<Rightarrow> u32" where
  "ROL32 a n = push_bit n a OR (drop_bit (32 - n) a AND (push_bit n 1 - 1))"

definition ROR32 :: "u32 \<Rightarrow> nat \<Rightarrow> u32" where
  "ROR32 a n = ROL32 a (32 - n)"

text \<open>Four bytes read from \<open>p\<close>, least significant first.\<close>

definition secmicgetuint32 :: "byte list \<Rightarrow> u32" where
  "secmicgetuint32 p =
     fold (\<lambda>i res. res OR push_bit (8 * i) (ucast (p ! i))) [0..<4] 0"

fun secmicputuint32_loop :: "nat \<Rightarrow> u32 \<Rightarrow> byte list" where
  "secmicputuint32_loop 0 val = []"
| "secmicputuint32_loop (Suc n) val = ucast (val AND 0xff) # secmicputuint32_loop n (drop_bit 8 val)"

definition secmicputuint32 :: "u32 \<Rightarrow> byte list" where
  "secmicputuint32 val = secmicputuint32_loop 4 val"

definition secmicclear :: "mic_data \<Rightarrow> mic_data" where
  "secmicclear md = md\<lparr>L := K0 md, R := K1 md, nBytesInM := 0, M := 0\<rparr>"

definition rtw_secmicsetkey :: "mic_data \<Rightarrow> byte list \<Rightarrow> mic_data" where
  "rtw_secmicsetkey md key =
     secmicclear (md\<lparr>K0 := secmicgetuint32 key, K1 := secmicgetuint32 (drop 4 key)\<rparr>)"

text \<open>The nine assignments that mix a full word into \<open>(L, R)\<close>.\<close>

definition mic_block :: "u32 \<Rightarrow> u32 \<times> u32 \<Rightarrow> u32 \<times> u32" where
  "mic_block m lr =
     (let (l, r) = lr;
          l = l XOR m;
          r = r XOR ROL32 l 17;
          l = l + r;
          r = r XOR (drop_bit 8 (l AND 0xff00ff00) OR push_bit 8 (l AND 0x00ff00ff));
          l = l + r;
          r = r XOR ROL32 l 3;
          l = l + r;
          r = r XOR ROR32 l 2;
          l = l + r
      in (l, r))"

definition rtw_secmicappendbyte :: "mic_data \<Rightarrow> byte \<Rightarrow> mic_data" where
  "rtw_secmicappendbyte md b =
     (let m = M md OR ucast (push_bit (8 * unat (nBytesInM md)) (ucast b :: u64));
          n = nBytesInM md + 1
      in if n \<ge> 4
         then let (l, r) = mic_block m (L md, R md)
              in md\<lparr>L := l, R := r, M := 0, nBytesInM := 0\<rparr>
         else md\<lparr>M := m, nBytesInM := n\<rparr>)"

fun rtw_secmicappend :: "mic_data \<Rightarrow> byte list \<Rightarrow> mic_data" where
  "rtw_secmicappend md [] = md"
| "rtw_secmicappend md (b # bs) = rtw_secmicappend (rtw_secmicappendbyte md b) bs"

text \<open>The loop \<open>while (nBytesInM != 0)\<close> that appends zeroes.\<close>

function secmic_pad :: "mic_data \<Rightarrow> mic_data" where
  "secmic_pad md =
     (if nBytesInM md \<noteq> 0 then secmic_pad (rtw_secmicappendbyte md 0) else md)"
  by pat_completeness auto

lemma nBytesInM_step:
  "nBytesInM (rtw_secmicappendbyte md b) =
     (if nBytesInM md + 1 \<ge> 4 then 0 else nBytesInM md + 1)"
  by (simp add: rtw_secmicappendbyte_def Let_def split: prod.splits)

definition secmic_pad_measure :: "mic_data \<Rightarrow> nat" where
  "secmic_pad_measure md =
     (let n = unat (nBytesInM md) in if n = 0 then 0 else if n \<ge> 4 then 1 else 5 - n)"

termination secmic_pad
proof (relation "measure secmic_pad_measure", goal_cases)
  case (2 md)
  then have n0: "unat (nBytesInM md) \<noteq> 0" by (simp add: unat_eq_zero)
  show ?case
  proof (cases "nBytesInM md + 1 \<ge> 4 \<or> nBytesInM md + 1 = 0")
    case True
    then show ?thesis using n0 by (auto simp: secmic_pad_measure_def nBytesInM_step Let_def)
  next
    case False
    then have "unat (nBytesInM md + 1) = unat (nBytesInM md) + 1"
      by (metis add.commute unatSuc Suc_eq_plus1_left add.right_neutral)
    with False n0 show ?thesis
      by (auto simp: secmic_pad_measure_def nBytesInM_step Let_def word_le_nat_alt)
  qed
qed simp

declare secmic_pad.simps [simp del]

definition rtw_secgetmic :: "mic_data \<Rightarrow> byte list \<times> mic_data" where
  "rtw_secgetmic md =
     (let md = secmic_pad (rtw_secmicappend md [0x5a, 0, 0, 0, 0])
      in (secmicputuint32 (L md) @ secmicputuint32 (R md), secmicclear md))"

text \<open>
  \<open>rtw_seccalctkipmic\<close> starts from an uninitialised \<open>micdata\<close>, which
  \<open>rtw_secmicsetkey\<close> overwrites; it is an argument here.  The addresses are
  taken from the header by the ToDS and FromDS bits.
\<close>

definition rtw_seccalctkipmic ::
  "mic_data \<Rightarrow> byte list \<Rightarrow> byte list \<Rightarrow> byte list \<Rightarrow> u32 \<Rightarrow> byte \<Rightarrow> byte list option" where
  "rtw_seccalctkipmic junk key header data data_len pri = do {
     _ \<leftarrow> rd_bytes key 0 8;
     let md = rtw_secmicsetkey junk key;
     h1 \<leftarrow> rd header 1;
     (da, sa) \<leftarrow>
       (if h1 AND 1 \<noteq> 0 then do {
          da \<leftarrow> rd_bytes header 16 6;
          sa \<leftarrow> (if h1 AND 2 \<noteq> 0 then rd_bytes header 24 6 else rd_bytes header 10 6);
          Some (da, sa)
        } else do {
          da \<leftarrow> rd_bytes header 4 6;
          sa \<leftarrow> (if h1 AND 2 \<noteq> 0 then rd_bytes header 16 6 else rd_bytes header 10 6);
          Some (da, sa)
        });
     let md = rtw_secmicappend md da;
     let md = rtw_secmicappend md sa;
     let md = rtw_secmicappend md [pri, 0, 0, 0];
     d \<leftarrow> rd_bytes data 0 (uint data_len);
     let md = rtw_secmicappend md d;
     Some (fst (rtw_secgetmic md))
   }"

section \<open>The textbook definition\<close>

text \<open>
  The message is followed by the byte 0x5a and by four to seven zeroes, up to a
  multiple of four bytes, and the key is stirred once per 32-bit word.
\<close>

definition michael_pad :: "byte list \<Rightarrow> byte list" where
  "michael_pad msg =
     msg @ 0x5a # replicate (4 + (3 - (length msg) mod 4)) 0"

fun michael_words :: "byte list \<Rightarrow> u32 list" where
  "michael_words (a # b # c # d # bs) = le32_of a b c d # michael_words bs"
| "michael_words _ = []"

text \<open>
  The block function of the standard: rotations by 17, 3 and 2 bits and the exchange of the bytes in
  each half of a word.
\<close>

definition michael_xswap :: "u32 \<Rightarrow> u32" where
  "michael_xswap w = (let b = le32_bytes w in le32_of (b ! 1) (b ! 0) (b ! 3) (b ! 2))"

definition michael_block :: "u32 \<times> u32 \<Rightarrow> u32 \<times> u32" where
  "michael_block lr =
     (let (l, r) = lr;
          r1 = r XOR word_rotl 17 l; l1 = l + r1;
          r2 = r1 XOR michael_xswap l1; l2 = l1 + r2;
          r3 = r2 XOR word_rotl 3 l2; l3 = l2 + r3;
          r4 = r3 XOR word_rotr 2 l3
      in (l3 + r4, r4))"

definition michael_ref :: "byte list \<Rightarrow> byte list \<Rightarrow> byte list" where
  "michael_ref key msg =
     (let k = michael_words key;
          (l, r) = fold (\<lambda>m (l, r). michael_block (l XOR m, r)) (michael_words (michael_pad msg)) (k ! 0, k ! 1)
      in le32_bytes l @ le32_bytes r)"

section \<open>The byte-wise computation is the textbook one\<close>

lemma ROL32_rotl:
  assumes "n < 32" and "0 < n"
  shows "ROL32 a n = word_rotl n a"
proof (rule bit_word_eqI)
  fix i
  assume i: "i < LENGTH(32)"
  have "push_bit n 1 - 1 = (mask n :: u32)" by (simp add: mask_eq_exp_minus_1 push_bit_of_1)
  then have l: "bit (ROL32 a n) i \<longleftrightarrow> n \<le> i \<and> bit a (i - n) \<or> i < n \<and> bit a (32 - n + i)"
    using i assms by (auto simp: ROL32_def bit_simps dest: bit_imp_le_length)
  have r: "bit (word_rotl n a) i \<longleftrightarrow> bit a ((i + (32 - n)) mod 32)"
    using i assms by (simp add: bit_word_rotl_iff)
  show "bit (ROL32 a n) i = bit (word_rotl n a) i"
  proof (cases "n \<le> i")
    case True
    then have "i + (32 - n) = (i - n) + 32" using assms by simp
    then have "(i + (32 - n)) mod 32 = i - n" using i by (simp only: mod_add_self2) simp
    with l r True show ?thesis by simp
  next
    case False
    then have "(i + (32 - n)) mod 32 = 32 - n + i" using assms by simp
    with l r False show ?thesis by simp
  qed
qed

lemma ROR32_rotr: "n < 32 \<Longrightarrow> 0 < n \<Longrightarrow> ROR32 a n = word_rotr n a"
  by (rule bit_word_eqI) (simp add: ROR32_def ROL32_rotl bit_word_rotl_iff bit_word_rotr_iff)

lemma bit_ff00ff00: "bit (0xff00ff00 :: u32) n \<longleftrightarrow> 8 \<le> n \<and> n < 16 \<or> 24 \<le> n \<and> n < 32"
  and bit_00ff00ff: "bit (0x00ff00ff :: u32) n \<longleftrightarrow> n < 8 \<or> 16 \<le> n \<and> n < 24"
proof -
  have "0xff00ff00 = push_bit 8 (mask 8) OR push_bit 24 (mask 8 :: u32)"
    by (simp add: mask_eq_exp_minus_1)
  then show "bit (0xff00ff00 :: u32) n \<longleftrightarrow> 8 \<le> n \<and> n < 16 \<or> 24 \<le> n \<and> n < 32"
    by (simp only: bit_simps) auto
  have "0x00ff00ff = mask 8 OR push_bit 16 (mask 8 :: u32)"
    by (simp add: mask_eq_exp_minus_1)
  then show "bit (0x00ff00ff :: u32) n \<longleftrightarrow> n < 8 \<or> 16 \<le> n \<and> n < 24"
    by (simp only: bit_simps) auto
qed

lemma bit_michael_xswap:
  "bit (michael_xswap l) n \<longleftrightarrow>
     n < 8 \<and> bit l (n + 8) \<or> 8 \<le> n \<and> n < 16 \<and> bit l (n - 8) \<or>
     16 \<le> n \<and> n < 24 \<and> bit l (n + 8) \<or> 24 \<le> n \<and> n < 32 \<and> bit l (n - 8)"
proof -
  have "bit (le32_of a b c d) n \<longleftrightarrow>
      n < 8 \<and> bit a n \<or> 8 \<le> n \<and> n < 16 \<and> bit b (n - 8) \<or>
      16 \<le> n \<and> n < 24 \<and> bit c (n - 16) \<or> 24 \<le> n \<and> n < 32 \<and> bit d (n - 24)" for a b c d
    by (auto simp: le32_of_or bit_simps dest: bit_byte_less)
  then have "bit (michael_xswap l) n \<longleftrightarrow>
      n < 8 \<and> bit (ucast (drop_bit 8 l) :: byte) n \<or>
      8 \<le> n \<and> n < 16 \<and> bit (ucast l :: byte) (n - 8) \<or>
      16 \<le> n \<and> n < 24 \<and> bit (ucast (drop_bit 24 l) :: byte) (n - 16) \<or>
      24 \<le> n \<and> n < 32 \<and> bit (ucast (drop_bit 16 l) :: byte) (n - 24)"
    by (simp add: michael_xswap_def le32_bytes_def)
  moreover have "bit (ucast (drop_bit k l) :: byte) i \<longleftrightarrow> bit l (k + i)" if "i < 8" for k i
    using that by (auto simp: bit_simps)
  moreover have "bit (ucast l :: byte) i \<longleftrightarrow> bit l i" if "i < 8" for i
    using that by (auto simp: bit_simps)
  ultimately show ?thesis
    by (cases "n < 8"; cases "n < 16"; cases "n < 24"; cases "n < 32") (simp_all add: add.commute)
qed

lemma xswap_masks: "drop_bit 8 (l AND 0xff00ff00) OR push_bit 8 (l AND 0x00ff00ff) = michael_xswap l"
proof (rule bit_word_eqI)
  fix n
  assume n: "n < LENGTH(32)"
  have "bit (drop_bit 8 (l AND 0xff00ff00)) n \<longleftrightarrow>
      bit l (n + 8) \<and> (n < 8 \<or> 16 \<le> n \<and> n < 24)"
    unfolding bit_drop_bit_eq bit_and_iff bit_ff00ff00 comp_def by (auto simp: add.commute)
  moreover have "bit (push_bit 8 (l AND 0x00ff00ff)) n \<longleftrightarrow>
      bit l (n - 8) \<and> (8 \<le> n \<and> n < 16 \<or> 24 \<le> n \<and> n < 32)"
    unfolding bit_push_bit_iff_nat bit_push_bit_iff bit_and_iff bit_00ff00ff using n by auto
  ultimately show "bit (drop_bit 8 (l AND 0xff00ff00) OR push_bit 8 (l AND 0x00ff00ff)) n =
      bit (michael_xswap l) n"
    unfolding bit_or_iff bit_michael_xswap using n by auto
qed

lemma mic_block_michael: "mic_block m (l, r) = michael_block (l XOR m, r)"
  unfolding mic_block_def xswap_masks
  by (simp add: michael_block_def Let_def ROL32_rotl ROR32_rotr)

lemma michael_ref_mic_block:
  "michael_ref key msg =
     (let lr = fold mic_block (michael_words (michael_pad msg))
                 (michael_words key ! 0, michael_words key ! 1)
      in le32_bytes (fst lr) @ le32_bytes (snd lr))"
proof -
  have "mic_block = (\<lambda>m (l, r). michael_block (l XOR m, r))"
    by (intro ext) (simp add: mic_block_michael split_paired_all)
  then show ?thesis by (simp add: michael_ref_def Let_def split_beta)
qed

text \<open>The first of the standard's test vectors: the zero key and the empty message.\<close>

lemma michael_test_vector:
  "michael_ref (replicate 8 0) [] = [0x82, 0x92, 0x5c, 0x1c, 0xa1, 0xd1, 0x30, 0xb8]"
  by code_simp

lemma secmicappend_append:
  "rtw_secmicappend md (xs @ ys) = rtw_secmicappend (rtw_secmicappend md xs) ys"
  by (induction md xs rule: rtw_secmicappend.induct) simp_all

text \<open>The number of buffered bytes.\<close>

lemma nBytesInM_append:
  "unat (nBytesInM md) < 4 \<Longrightarrow>
   unat (nBytesInM (rtw_secmicappend md xs)) = (unat (nBytesInM md) + length xs) mod 4"
proof (induction md xs rule: rtw_secmicappend.induct)
  case (1 md)
  then show ?case by simp
next
  case (2 md b bs)
  have u: "unat (nBytesInM md + 1) = unat (nBytesInM md) + 1"
    using 2(2) by (simp add: unat_word_ariths)
  show ?case
  proof (cases "unat (nBytesInM md) = 3")
    case True
    then show ?thesis using 2 u by (simp add: nBytesInM_step word_le_nat_alt)
  next
    case False
    then show ?thesis using 2 u by (simp add: nBytesInM_step word_le_nat_alt)
  qed
qed

lemma secmic_pad_append:
  assumes "unat (nBytesInM md) < 4"
  shows "secmic_pad md = rtw_secmicappend md (replicate ((4 - unat (nBytesInM md)) mod 4) 0)"
  using assms
proof (induction md rule: secmic_pad.induct)
  case (1 md)
  let ?n = "unat (nBytesInM md)" and ?md = "rtw_secmicappendbyte md 0"
  have step: "unat (nBytesInM ?md) = (?n + 1) mod 4"
    using nBytesInM_append [OF 1(2), of "[0]"] by simp
  show ?case
  proof (cases "nBytesInM md = 0")
    case True
    then show ?thesis by (simp add: secmic_pad.simps)
  next
    case False
    then have "?n \<noteq> 0" by (simp add: unat_eq_zero)
    with 1(2) have n: "?n = 1 \<or> ?n = 2 \<or> ?n = 3" by linarith
    have "secmic_pad md = secmic_pad ?md" using False by (simp add: secmic_pad.simps [of md])
    also have "\<dots> = rtw_secmicappend ?md (replicate ((4 - (?n + 1) mod 4) mod 4) 0)"
      using 1(1) [OF False] step by simp
    also have "\<dots> = rtw_secmicappend md (0 # replicate ((4 - (?n + 1) mod 4) mod 4) 0)" by simp
    also have "0 # replicate ((4 - (?n + 1) mod 4) mod 4) 0 = replicate ((4 - ?n) mod 4) (0 :: byte)"
    proof -
      have "(4 - ?n) mod 4 = Suc ((4 - (?n + 1) mod 4) mod 4)"
        using n by (elim disjE) simp_all
      then show ?thesis by (simp only: replicate_Suc)
    qed
    finally show ?thesis .
  qed
qed

text \<open>A whole word, and a message of whole words.\<close>

lemma mic_word:
  "((ucast (push_bit 0 (ucast a :: u64)) OR ucast (push_bit 8 (ucast b :: u64))) OR
     ucast (push_bit 16 (ucast c :: u64))) OR ucast (push_bit 24 (ucast d :: u64)) =
   le32_of a b c d"
proof -
  have "ucast (push_bit k (ucast x :: u64)) = push_bit k (ucast x :: u32)" if "k \<le> 24"
    for k and x :: byte
    using that by (intro bit_word_eqI) (auto simp: bit_simps dest: bit_byte_less)
  from this [of 0] this show ?thesis by (simp add: le32_of_or)
qed

lemma secmicappend_word:
  assumes "nBytesInM md = 0" and "M md = 0"
  shows "rtw_secmicappend md (a # b # c # d # bs) =
    rtw_secmicappend (md\<lparr>L := fst (mic_block (le32_of a b c d) (L md, R md)),
                         R := snd (mic_block (le32_of a b c d) (L md, R md))\<rparr>) bs"
proof -
  let ?u = "\<lambda>k x :: byte. ucast (push_bit k (ucast x :: u64)) :: u32"
  have "rtw_secmicappendbyte md a = md\<lparr>M := ?u 0 a, nBytesInM := 1\<rparr>"
    using assms by (simp add: rtw_secmicappendbyte_def word_le_nat_alt Let_def)
  moreover have "rtw_secmicappendbyte (md\<lparr>M := m, nBytesInM := 1\<rparr>) b =
      md\<lparr>M := m OR ?u 8 b, nBytesInM := 2\<rparr>" for m
    by (simp add: rtw_secmicappendbyte_def)
  moreover have "rtw_secmicappendbyte (md\<lparr>M := m, nBytesInM := 2\<rparr>) c =
      md\<lparr>M := m OR ?u 16 c, nBytesInM := 3\<rparr>" for m
    by (simp add: rtw_secmicappendbyte_def)
  moreover have "rtw_secmicappendbyte (md\<lparr>M := m, nBytesInM := 3\<rparr>) d =
      md\<lparr>L := fst (mic_block (m OR ?u 24 d) (L md, R md)),
         R := snd (mic_block (m OR ?u 24 d) (L md, R md))\<rparr>" for m
    using assms by (cases md) (simp add: rtw_secmicappendbyte_def Let_def split: prod.splits)
  ultimately show ?thesis
    by (simp only: rtw_secmicappend.simps mic_word)
qed

lemma secmicappend_words:
  assumes "nBytesInM md = 0" and "M md = 0" and "length xs mod 4 = 0"
  shows "rtw_secmicappend md xs =
    md\<lparr>L := fst (fold mic_block (michael_words xs) (L md, R md)),
       R := snd (fold mic_block (michael_words xs) (L md, R md))\<rparr>"
  using assms
proof (induction xs arbitrary: md rule: michael_words.induct)
  case (1 a b c d bs)
  then show ?case by (simp add: secmicappend_word del: rtw_secmicappend.simps)
qed (auto)

lemma length_michael_pad: "length (michael_pad msg) mod 4 = 0"
proof -
  have "length (michael_pad msg) = length msg + 8 - length msg mod 4"
    by (simp add: michael_pad_def)
  also have "\<dots> = 4 * (length msg div 4) + 8" by (simp add: minus_mod_eq_mult_div [symmetric])
  finally show ?thesis by simp
qed

lemma secmicput_le32: "secmicputuint32 v = le32_bytes v"
proof -
  have "ucast (w AND 0xff) = (ucast w :: byte)" for w :: u32
    by (rule bit_word_eqI) (auto simp: bit_simps)
  then show ?thesis
    by (simp add: secmicputuint32_def le32_bytes_def numeral_eq_Suc drop_bit_drop_bit)
qed

lemma secmicget_le32:
  "secmicgetuint32 (a # b # c # d # bs) = le32_of a b c d"
  by (simp add: secmicgetuint32_def le32_of_or upt_rec)

lemma secgetmic_words:
  assumes "nBytesInM md = 0" and "M md = 0"
  shows "fst (rtw_secgetmic (rtw_secmicappend md msg)) =
    (let lr = fold mic_block (michael_words (michael_pad msg)) (L md, R md)
     in le32_bytes (fst lr) @ le32_bytes (snd lr))"
proof -
  let ?md = "rtw_secmicappend md (msg @ [0x5a, 0, 0, 0, 0])"
  have n: "unat (nBytesInM ?md) = (length msg + 5) mod 4"
    using nBytesInM_append [of md "msg @ [0x5a, 0, 0, 0, 0]"] assms(1) by (simp add: add.commute)
  then have "secmic_pad ?md =
      rtw_secmicappend ?md (replicate ((4 - (length msg + 5) mod 4) mod 4) 0)"
    by (subst secmic_pad_append) simp_all
  also have "(4 - (length msg + 5) mod 4) mod 4 = 3 - length msg mod 4"
  proof -
    have "(length msg + 5) mod 4 = (length msg mod 4 + 1) mod 4"
      using mod_add_eq [of "length msg" 4 5] by (simp add: mod_simps)
    moreover have "r = 0 \<or> r = 1 \<or> r = 2 \<or> r = 3" if "r < 4" for r :: nat using that by linarith
    then have "(4 - (r + 1) mod 4) mod 4 = 3 - r" if "r < 4" for r :: nat
      using that by fastforce
    ultimately show ?thesis by simp
  qed
  also have "rtw_secmicappend ?md (replicate (3 - length msg mod 4) 0) =
      rtw_secmicappend md (michael_pad msg)"
  proof -
    have "replicate 4 (0 :: byte) = [0, 0, 0, 0]" by (simp add: numeral_eq_Suc)
    then have "michael_pad msg = (msg @ [0x5a, 0, 0, 0, 0]) @ replicate (3 - length msg mod 4) 0"
      unfolding michael_pad_def replicate_add by simp
    then show ?thesis by (simp only: secmicappend_append)
  qed
  finally have "secmic_pad ?md = rtw_secmicappend md (michael_pad msg)" .
  then show ?thesis
    using secmicappend_words [OF assms length_michael_pad, of msg]
    by (simp add: rtw_secgetmic_def secmicappend_append [symmetric] secmicput_le32 Let_def
        del: rtw_secmicappend.simps)
qed

section \<open>Properties\<close>

text \<open>The addresses of the pseudo header.\<close>

definition mic_pseudo_header :: "byte list \<Rightarrow> byte \<Rightarrow> byte list" where
  "mic_pseudo_header header pri =
     (let to_ds = header ! 1 AND 1 \<noteq> 0; from_ds = header ! 1 AND 2 \<noteq> 0;
          da = (if to_ds then 16 else 4);
          sa = (if from_ds then (if to_ds then 24 else 16) else 10)
      in take 6 (drop da header) @ take 6 (drop sa header) @ [pri, 0, 0, 0])"

lemma seccalctkipmic_ref:
  assumes "length key = 8" and "uint data_len \<le> int (length data)"
    and "24 \<le> length header" and "header ! 1 AND 1 \<noteq> 0 \<Longrightarrow> header ! 1 AND 2 \<noteq> 0 \<Longrightarrow> 30 \<le> length header"
  shows "rtw_seccalctkipmic junk key header data data_len pri =
    Some (michael_ref key (mic_pseudo_header header pri @ take (unat data_len) data))"
proof -
  obtain a b c d e f g h where key: "key = [a, b, c, d, e, f, g, h]"
    using assms(1) by (auto simp: numeral_eq_Suc length_Suc_conv)
  let ?md = "rtw_secmicsetkey junk key"
  have md: "nBytesInM ?md = 0" "M ?md = 0" "L ?md = michael_words key ! 0" "R ?md = michael_words key ! 1"
    by (simp_all add: rtw_secmicsetkey_def secmicclear_def key secmicget_le32)
  have hdr: "rd header 1 = Some (header ! 1)"
      "rd_bytes header (numeral k) 6 = Some (take 6 (drop (numeral k) header))"
    if "numeral k + 6 \<le> length header" for k
    using that assms(3) by (auto simp: rd_def rd_bytes_def in_buf_def)
  have data: "rd_bytes data 0 (uint data_len) = Some (take (unat data_len) data)"
    using assms(2) by (auto simp: rd_bytes_def in_buf_def)
  have "rd_bytes key 0 8 = Some key" by (simp add: key rd_bytes_def in_buf_def)
  then have "rtw_seccalctkipmic junk key header data data_len pri =
    Some (fst (rtw_secgetmic (rtw_secmicappend ?md
      (mic_pseudo_header header pri @ take (unat data_len) data))))"
    using assms(3,4) hdr(1) [of "num.Bit0 num.One"]
    by (auto simp: rtw_seccalctkipmic_def mic_pseudo_header_def secmicappend_append data hdr(2)
        Let_def)
  then show ?thesis
    using secgetmic_words [OF md(1,2)] md(3,4) by (simp add: michael_ref_mic_block)
qed

text \<open>
  C2 (Michael is the textbook Michael).  For a key of 8 bytes, a header long
  enough to hold the addresses its ToDS and FromDS bits select (24 bytes, or 30
  when both are set) and a data buffer of at least \<open>data_len\<close> bytes,
  \<open>rtw_seccalctkipmic\<close> returns, whatever its stack contained before, the eight
  bytes of the textbook definition over DA, SA, priority and data.  The textbook definition
  shares no definition with the driver: its block function is \<open>michael_block\<close>.
\<close>

theorem seccalctkipmic_michael:
  assumes "length key = 8" and "uint data_len \<le> int (length data)"
    and "24 \<le> length header" and "header ! 1 AND 1 \<noteq> 0 \<Longrightarrow> header ! 1 AND 2 \<noteq> 0 \<Longrightarrow> 30 \<le> length header"
  shows "rtw_seccalctkipmic junk key header data data_len pri =
    Some (michael_ref key (mic_pseudo_header header pri @ take (unat data_len) data))"
  by (rule seccalctkipmic_ref [OF assms])

theorem seccalctkipmic_michael_witness:
  "rtw_seccalctkipmic \<lparr>K0 = 1, K1 = 2, L = 3, R = 4, M = 5, nBytesInM = 6\<rparr> [1, 2, 3, 4, 5, 6, 7, 8]
     (replicate 24 0) [7, 8, 9] 3 6 =
   Some (michael_ref [1, 2, 3, 4, 5, 6, 7, 8] (mic_pseudo_header (replicate 24 0) 6 @ take 3 [7, 8, 9]))"
  using seccalctkipmic_michael [of "[1, 2, 3, 4, 5, 6, 7, 8]" 3 "[7, 8, 9]" "replicate 24 0"
      "\<lparr>K0 = 1, K1 = 2, L = 3, R = 4, M = 5, nBytesInM = 6\<rparr>" 6]
  by simp

end
