(* ===== verification/Reorder.thy ===== *)
theory Reorder
  imports Frame "HOL-Library.Multiset"
begin

text \<open>
  The A-MPDU receive reordering buffer of src/core/rtw_recv.c
  (\<open>check_indicate_seq\<close>, \<open>enqueue_reorder_recvframe\<close>,
  \<open>recv_indicatepkts_in_order\<close>, \<open>recv_indicatepkt_reorder\<close>,
  \<open>rtw_reordering_ctrl_timeout_handler\<close>).  Sequence numbers have 12 bits and are
  compared modulo 4096; the queue is the list of the pending frames.

  Shown: while the driver runs, and for the frames that take part in the reordering
  (\<open>rx_ready\<close>: A-MSDUs, and QoS frames with normal acknowledgement that carry no ARP
  packet), the code refines a window over unbounded sequence numbers, so these frames
  are handed up in strictly increasing order, none twice, and the queue never
  holds more frames than the window.
\<close>

section \<open>State\<close>

text \<open>The fields of a received frame the reordering reads, and an identity.\<close>

record rframe =
  rf_id :: nat
  seq_num :: u16
  amsdu :: byte
  rf_qos :: byte
  eth_type :: u16
  ack_policy :: byte

record recv_reorder_ctrl =
  ro_enable :: bool
  indicate_seq :: u16
  wsize_b :: byte
  pending_recvframe_queue :: "rframe list"
  reordering_ctrl_timer :: bool

text \<open>
  What happens to frames: \<open>rtw_recv_indicatepkt\<close>, \<open>amsdu_to_msdu\<close> and
  \<open>rtw_free_recvframe\<close>.
\<close>

datatype rx_act = RecvIndicate rframe | AmsduToMsdu rframe | FreeRecvframe rframe

text \<open>
  The environment of the handlers: \<open>bDriverStopped || bSurpriseRemoved\<close>, the
  result of \<open>amsdu_to_msdu\<close> and the header conversion, which sets \<open>eth_type\<close>.
\<close>

record rx_env =
  stopped :: bool
  amsdu_to_msdu :: "rframe \<Rightarrow> status"
  wlanhdr_to_ethhdr :: "rframe \<Rightarrow> rframe"

section \<open>Operations\<close>

definition SN_LESS :: "u16 \<Rightarrow> u16 \<Rightarrow> bool" where
  "SN_LESS a b \<longleftrightarrow> (a - b) AND 0x800 \<noteq> 0"

definition SN_EQUAL :: "u16 \<Rightarrow> u16 \<Rightarrow> bool" where
  "SN_EQUAL a b \<longleftrightarrow> a = b"

definition check_indicate_seq :: "recv_reorder_ctrl \<Rightarrow> u16 \<Rightarrow> bool \<times> recv_reorder_ctrl" where
  "check_indicate_seq c seq =
     (let wsize = ucast (wsize_b c) :: u16;
          wend = (indicate_seq c + wsize - 1) AND 0xFFF;
          ind = (if indicate_seq c = 0xFFFF then seq else indicate_seq c);
          c = c\<lparr>indicate_seq := ind\<rparr>
      in if SN_LESS seq ind then (False, c)
         else if SN_EQUAL seq ind then (True, c\<lparr>indicate_seq := (ind + 1) AND 0xFFF\<rparr>)
         else if SN_LESS wend seq then
           (if uint seq \<ge> uint (wsize_b c) - 1
            then (True, c\<lparr>indicate_seq := seq + 1 - wsize\<rparr>)
            else (True, c\<lparr>indicate_seq := 0xFFF - (wsize - (seq + 1)) + 1\<rparr>))
         else (True, c))"

text \<open>
  The search for the place of a frame in the queue: \<open>None\<close> when a frame with the
  same number is found.
\<close>

fun reorder_insert :: "rframe \<Rightarrow> rframe list \<Rightarrow> rframe list option" where
  "reorder_insert f [] = Some [f]"
| "reorder_insert f (g # q) =
     (if SN_LESS (seq_num g) (seq_num f) then map_option (\<lambda>q. g # q) (reorder_insert f q)
      else if SN_EQUAL (seq_num g) (seq_num f) then None
      else Some (f # g # q))"

definition enqueue_reorder_recvframe ::
  "recv_reorder_ctrl \<Rightarrow> rframe \<Rightarrow> bool \<times> recv_reorder_ctrl" where
  "enqueue_reorder_recvframe c f =
     (case reorder_insert f (pending_recvframe_queue c) of
        None \<Rightarrow> (False, c)
      | Some q \<Rightarrow> (True, c\<lparr>pending_recvframe_queue := q\<rparr>))"

definition indicate_one :: "rx_env \<Rightarrow> rframe \<Rightarrow> rx_act list" where
  "indicate_one env f =
     (if amsdu f = 0 then (if \<not> stopped env then [RecvIndicate f] else [])
      else if amsdu f = 1 then
        AmsduToMsdu f # (if amsdu_to_msdu env f \<noteq> SUCCESS then [FreeRecvframe f] else [])
      else [])"

text \<open>The loop \<open>while (!list_empty(phead))\<close>; the boolean is \<open>bPktInBuf\<close>.\<close>

fun indicate_loop :: "rx_env \<Rightarrow> u16 \<Rightarrow> rframe list \<Rightarrow> rx_act list \<times> u16 \<times> rframe list \<times> bool" where
  "indicate_loop env ind [] = ([], ind, [], False)"
| "indicate_loop env ind (f # q) =
     (if \<not> SN_LESS ind (seq_num f) then
        let ind = (if SN_EQUAL ind (seq_num f) then (ind + 1) AND 0xFFF else ind);
            (acts, ind, q, b) = indicate_loop env ind q
        in (indicate_one env f @ acts, ind, q, b)
      else ([], ind, f # q, True))"

definition recv_indicatepkts_in_order ::
  "rx_env \<Rightarrow> recv_reorder_ctrl \<Rightarrow> bool \<Rightarrow> bool \<times> rx_act list \<times> recv_reorder_ctrl" where
  "recv_indicatepkts_in_order env c bforced =
     (let q = pending_recvframe_queue c in
      if bforced \<and> q = [] then (True, [], c)
      else
        let ind = (if bforced then seq_num (hd q) else indicate_seq c);
            (acts, ind, q, b) = indicate_loop env ind q
        in (b, acts, c\<lparr>indicate_seq := ind, pending_recvframe_queue := q\<rparr>))"

definition recv_indicatepkt_reorder ::
  "rx_env \<Rightarrow> recv_reorder_ctrl \<Rightarrow> rframe \<Rightarrow> status \<times> rx_act list \<times> recv_reorder_ctrl" where
  "recv_indicatepkt_reorder env c f0 =
     (let f = (if amsdu f0 = 0 then wlanhdr_to_ethhdr env f0 else f0) in
      if amsdu f0 = 0 \<and> (rf_qos f \<noteq> 1 \<or> eth_type f = 0x0806 \<or> ack_policy f \<noteq> 0) then
        (if \<not> stopped env then (SUCCESS, [RecvIndicate f], c) else (FAIL, [], c))
      else if amsdu f0 = 0 \<and> \<not> ro_enable c then
        (SUCCESS, [RecvIndicate f], c\<lparr>indicate_seq := (seq_num f + 1) mod 4096\<rparr>)
      else if amsdu f0 = 1 \<and> \<not> ro_enable c then
        (amsdu_to_msdu env f, [AmsduToMsdu f], c\<lparr>indicate_seq := (seq_num f + 1) mod 4096\<rparr>)
      else
        let (ok, c) = check_indicate_seq c (seq_num f) in
        if \<not> ok then (FAIL, [], c)
        else
          let (ok, c) = enqueue_reorder_recvframe c f in
          if \<not> ok then (FAIL, [], c)
          else
            let (in_buf, acts, c) = recv_indicatepkts_in_order env c False
            in (SUCCESS, acts, c\<lparr>reordering_ctrl_timer := in_buf\<rparr>))"

definition rtw_reordering_ctrl_timeout_handler ::
  "rx_env \<Rightarrow> recv_reorder_ctrl \<Rightarrow> rx_act list \<times> recv_reorder_ctrl" where
  "rtw_reordering_ctrl_timeout_handler env c =
     (if stopped env then ([], c\<lparr>reordering_ctrl_timer := False\<rparr>)
      else
        let (b, acts, c) = recv_indicatepkts_in_order env c True
        in (acts, c\<lparr>reordering_ctrl_timer := b\<rparr>))"

section \<open>Sequence numbers modulo 4096\<close>

definition sn :: "int \<Rightarrow> u16" where
  "sn m = word_of_int (m mod 4096)"

lemma SN_refl [simp]: "SN_EQUAL a a" "\<not> SN_LESS a a"
  by (simp_all add: SN_EQUAL_def SN_LESS_def)

lemma uint_sn: "uint (sn m) = m mod 4096"
proof -
  have "0 \<le> m mod 4096" "m mod 4096 < 65536" by (auto intro: less_trans [OF pos_mod_bound])
  then show ?thesis by (simp add: sn_def uint_word_of_int_eq take_bit_int_eq_self)
qed

lemma sn_eq_iff: "sn m = sn n \<longleftrightarrow> (m - n) mod 4096 = 0"
proof -
  have "sn m = sn n \<longleftrightarrow> m mod 4096 = n mod 4096"
    by (metis uint_sn sn_def)
  then show ?thesis by (simp add: mod_eq_dvd_iff dvd_eq_mod_eq_0)
qed

lemma and_800_iff: "(w :: u16) AND 0x800 \<noteq> 0 \<longleftrightarrow> bit w 11"
proof -
  have e: "(0x800 :: u16) = push_bit 11 1" by simp
  have "bit (w AND 0x800) n \<longleftrightarrow> n = 11 \<and> bit w 11" for n
    unfolding e by (simp only: bit_and_iff bit_push_bit_iff bit_1_iff) (auto dest: bit_imp_le_length)
  then show ?thesis by (metis bit_0_eq bot_apply bot_bool_def bit_eq_iff)
qed

lemma SN_LESS_sn: "SN_LESS (sn m) (sn n) \<longleftrightarrow> 2048 \<le> (m - n) mod 4096"
proof -
  have "uint (sn m - sn n) = (m mod 4096 - n mod 4096) mod 65536"
    by (simp add: uint_word_ariths uint_sn)
  then have u: "uint (sn m - sn n) mod 4096 = (m - n) mod 4096"
    by (simp add: mod_mod_cancel mod_diff_eq)
  have "bit (sn m - sn n) 11 \<longleftrightarrow> bit (uint (sn m - sn n)) 11"
    by (simp add: bit_uint_iff)
  also have "\<dots> \<longleftrightarrow> odd (uint (sn m - sn n) div 2048)"
    using bit_iff_odd [of "uint (sn m - sn n)" 11] by simp
  also have "\<dots> \<longleftrightarrow> 2048 \<le> uint (sn m - sn n) mod 4096"
  proof -
    have "x mod 4096 = 2048 * (x div 2048 mod 2) + x mod 2048" for x :: int
      using zmod_zmult2_eq [of 2 x 2048] by simp
    moreover have "x mod 2048 < 2048" "0 \<le> x mod 2048" for x :: int by simp_all
    ultimately show ?thesis
      by (cases "odd (uint (sn m - sn n) div 2048)") (simp_all add: odd_iff_mod_2_eq_one even_iff_mod_2_eq_zero)
  qed
  finally show ?thesis by (simp add: SN_LESS_def and_800_iff u)
qed

text \<open>Numbers less than half the space apart are compared as integers.\<close>

lemma SN_LESS_near:
  assumes "-2048 \<le> m - n" and "m - n < 2048"
  shows "SN_LESS (sn m) (sn n) \<longleftrightarrow> m < n"
proof (cases "m < n")
  case True
  have "(m - n) mod 4096 = (m - n + 4096) mod 4096" by simp
  also have "\<dots> = m - n + 4096" using assms(1) True by (intro mod_pos_pos_trivial) simp_all
  finally show ?thesis unfolding SN_LESS_sn using assms(1) True by linarith
next
  case False
  then have "(m - n) mod 4096 = m - n" using assms(2) by (intro mod_pos_pos_trivial) simp_all
  with False assms(2) show ?thesis unfolding SN_LESS_sn by simp
qed

lemma sn_eq_near:
  assumes "-4096 < m - n" and "m - n < 4096"
  shows "sn m = sn n \<longleftrightarrow> m = n"
proof
  assume "sn m = sn n"
  then have "4096 dvd m - n" by (simp add: sn_eq_iff dvd_eq_mod_eq_0)
  then have "4096 dvd \<bar>m - n\<bar>" by simp
  with assms show "m = n" using zdvd_imp_le [of 4096 "\<bar>m - n\<bar>"] by (cases "m = n") auto
qed simp

lemma word_of_int_and_FFF: "(word_of_int x :: u16) AND 0xFFF = sn x"
proof -
  have e: "(0xFFF :: u16) = mask 12" by (simp add: mask_eq_exp_minus_1)
  have "uint ((word_of_int x :: u16) AND 0xFFF) = x mod 65536 mod 4096"
    unfolding e take_bit_eq_mask [symmetric] unsigned_take_bit_eq
    by (simp add: take_bit_eq_mod uint_word_of_int)
  then have "uint ((word_of_int x :: u16) AND 0xFFF) = uint (sn x)"
    by (simp add: uint_sn mod_mod_cancel)
  then show ?thesis by (simp only: word_uint_eq_iff)
qed

lemma sn_add_and: "(sn m + word_of_int k) AND 0xFFF = sn (m + k)"
proof -
  have "sn m + word_of_int k = word_of_int (m mod 4096 + k)" by (simp add: sn_def)
  then have "(sn m + word_of_int k) AND 0xFFF = sn (m mod 4096 + k)"
    by (simp only: word_of_int_and_FFF)
  then show ?thesis by (simp add: sn_def mod_add_left_eq)
qed

lemma sn_succ: "(sn m + 1) AND 0xFFF = sn (m + 1)"
  using sn_add_and [of m 1] by simp

section \<open>The window over unbounded sequence numbers\<close>

text \<open>
  The specification.  Frames carry integers; the window starts at \<open>ws\<close> and has
  width \<open>w\<close>; \<open>buf\<close> holds the early frames.
\<close>

type_synonym wbuf = "(int \<times> rframe) list"

fun spec_insert :: "int \<times> rframe \<Rightarrow> wbuf \<Rightarrow> wbuf" where
  "spec_insert mf [] = [mf]"
| "spec_insert mf (g # q) = (if fst g < fst mf then g # spec_insert mf q else mf # g # q)"

text \<open>Frames before the window go up, and so do the frames that continue it.\<close>

fun spec_deliver :: "int \<Rightarrow> wbuf \<Rightarrow> wbuf \<times> int \<times> wbuf" where
  "spec_deliver ws [] = ([], ws, [])"
| "spec_deliver ws (g # q) =
     (if fst g \<le> ws then
        let (d, ws', r) = spec_deliver (if fst g = ws then ws + 1 else ws) q in (g # d, ws', r)
      else ([], ws, g # q))"

definition spec_start :: "int \<Rightarrow> int \<Rightarrow> int \<Rightarrow> int" where
  "spec_start w ws m = (if m = ws then ws + 1 else if ws + w - 1 < m then m + 1 - w else ws)"

definition spec_recv :: "int \<Rightarrow> int \<Rightarrow> wbuf \<Rightarrow> int \<Rightarrow> rframe \<Rightarrow> bool \<times> wbuf \<times> int \<times> wbuf" where
  "spec_recv w ws buf m f =
     (if m < ws \<or> m \<in> fst ` set buf then (False, [], ws, buf)
      else (True, spec_deliver (spec_start w ws m) (spec_insert (m, f) buf)))"

definition spec_timeout :: "int \<Rightarrow> wbuf \<Rightarrow> wbuf \<times> int \<times> wbuf" where
  "spec_timeout ws buf = (if buf = [] then ([], ws, buf) else spec_deliver (fst (hd buf)) buf)"

text \<open>The number a receiver attributes to a 12-bit number: the one nearest to the window start.\<close>

definition unwrap :: "int \<Rightarrow> u16 \<Rightarrow> int" where
  "unwrap ws s = ws + (uint s - ws + 2048) mod 4096 - 2048"

lemma unwrap_range: "-2048 \<le> unwrap ws s - ws" "unwrap ws s - ws < 2048"
  by (simp_all add: unwrap_def)

lemma sn_unwrap: "uint s < 4096 \<Longrightarrow> sn (unwrap ws s) = s"
proof -
  assume s: "uint s < 4096"
  have "uint (sn (unwrap ws s)) = (ws + (uint s - ws + 2048) mod 4096 - 2048) mod 4096"
    by (simp add: uint_sn unwrap_def)
  also have "\<dots> = (ws + (uint s - ws + 2048) - 2048) mod 4096"
    by (metis mod_add_right_eq mod_diff_left_eq)
  also have "\<dots> = uint s" using s by (simp add: mod_pos_pos_trivial)
  finally show ?thesis by (simp only: word_uint_eq_iff)
qed

text \<open>The invariant: strictly increasing numbers inside the window.\<close>

definition win_ok :: "int \<Rightarrow> int \<Rightarrow> wbuf \<Rightarrow> bool" where
  "win_ok w ws buf \<longleftrightarrow> sorted_wrt (<) (map fst buf) \<and> (\<forall>g \<in> set buf. ws < fst g \<and> fst g < ws + w)"

section \<open>Facts about the specification\<close>

lemma set_spec_insert: "set (spec_insert mf q) = insert mf (set q)"
  by (induction q) auto

lemma sorted_spec_insert:
  "sorted_wrt (<) (map fst q) \<Longrightarrow> fst mf \<notin> fst ` set q \<Longrightarrow> sorted_wrt (<) (map fst (spec_insert mf q))"
  by (induction q) (auto simp: set_spec_insert)

lemma spec_insert_not_Nil [simp]: "spec_insert mf q \<noteq> []"
  by (cases q) auto

lemma spec_deliver_split:
  assumes "sorted_wrt (<) (map fst b)" and "spec_deliver ws b = (d, ws', r)"
  shows "d @ r = b" and "ws \<le> ws'" and "\<forall>g \<in> set d. fst g < ws'" and "\<forall>g \<in> set r. ws' < fst g"
proof -
  have "d @ r = b \<and> ws \<le> ws' \<and> (\<forall>g \<in> set d. fst g < ws') \<and> (\<forall>g \<in> set r. ws' < fst g)"
    using assms
  proof (induction b arbitrary: ws d ws' r)
    case (Cons g q)
    show ?case
    proof (cases "fst g \<le> ws")
      case True
      let ?ws = "if fst g = ws then ws + 1 else ws"
      obtain d' where d': "spec_deliver ?ws q = (d', ws', r)" "d = g # d'"
        using Cons.prems(2) True by (auto simp: Let_def split: prod.splits)
      from Cons.IH [OF _ d'(1)] Cons.prems(1) have "d' @ r = q" "?ws \<le> ws'"
          "\<forall>g \<in> set d'. fst g < ws'" "\<forall>g \<in> set r. ws' < fst g" by auto
      with d'(2) True show ?thesis by (auto split: if_splits)
    next
      case False
      with Cons.prems show ?thesis by fastforce
    qed
  qed simp
  then show "d @ r = b" "ws \<le> ws'" "\<forall>g \<in> set d. fst g < ws'" "\<forall>g \<in> set r. ws' < fst g" by auto
qed

lemma spec_deliver_all:
  assumes "sorted_wrt (<) (map fst b)" and "b \<noteq> []" and "ws - 1 \<le> fst (last b)"
    and "spec_deliver ws b = (d, ws', [])"
  shows "ws' = fst (last b) + 1"
  using assms
proof (induction b arbitrary: ws d)
  case (Cons g q)
  show ?case
  proof (cases "q = []")
    case True
    with Cons.prems(3,4) show ?thesis by (auto split: if_splits)
  next
    case False
    have g: "fst g \<le> ws" using Cons.prems(4) by (auto split: if_splits)
    let ?ws = "if fst g = ws then ws + 1 else ws"
    obtain d' where d': "spec_deliver ?ws q = (d', ws', [])"
      using Cons.prems(4) g by (auto simp: Let_def split: prod.splits)
    have "fst g < fst (last q)" using Cons.prems(1) False by simp
    then have "?ws - 1 \<le> fst (last q)" using Cons.prems(3) False by auto
    with Cons.IH [OF _ False _ d'] Cons.prems(1) False show ?thesis by simp
  qed
qed simp

text \<open>
  The chain of the delivered numbers: each is later than the one before, by at most
  half the number space.
\<close>

definition step_ok :: "int \<Rightarrow> int \<Rightarrow> bool" where
  "step_ok a b \<longleftrightarrow> a < b \<and> b - a \<le> 2048"

definition chain_ok :: "int \<Rightarrow> int \<Rightarrow> wbuf \<Rightarrow> bool" where
  "chain_ok lst ws buf \<longleftrightarrow>
     lst < ws \<and> (if buf = [] then lst = ws - 1 else fst (hd buf) - lst \<le> 2048)"

lemma sorted_span_chain:
  assumes "sorted_wrt (<) (map fst b)" and "\<forall>g \<in> set b. lo \<le> fst g \<and> fst g < lo + 2048"
  shows "successively step_ok (map fst b)"
  using assms
proof (induction b)
  case (Cons g q)
  then show ?case by (cases q) (auto simp: step_ok_def)
qed simp

lemma deliver_chain:
  assumes "sorted_wrt (<) (map fst b)" and "b \<noteq> []" and "ws - 1 \<le> fst (last b)"
    and "successively step_ok (lst # map fst b)" and "lst < ws"
    and "spec_deliver ws b = (d, ws', r)"
  shows "successively step_ok (lst # map fst d)" and "chain_ok (last (lst # map fst d)) ws' r"
proof -
  note sp = spec_deliver_split [OF assms(1,6)]
  have ch: "successively step_ok ((lst # map fst d) @ map fst r)"
    using assms(4) sp(1) by (metis append_Cons map_append)
  then show "successively step_ok (lst # map fst d)"
    by (metis successively_append_iff)
  have lt: "last (lst # map fst d) < ws'" using assms(5) sp(2,3) by (auto simp: last_map)
  show "chain_ok (last (lst # map fst d)) ws' r"
  proof (cases "r = []")
    case True
    then have "d = b" "ws' = fst (last b) + 1"
      using sp(1) spec_deliver_all [OF assms(1-3)] assms(6) by auto
    with True assms(2) show ?thesis by (simp add: chain_ok_def last_map)
  next
    case False
    then have "step_ok (last (lst # map fst d)) (fst (hd r))"
      using ch unfolding successively_append_iff by (simp add: hd_map)
    with False lt show ?thesis by (simp add: chain_ok_def step_ok_def)
  qed
qed

lemma spec_start_ge: "0 < w \<Longrightarrow> ws \<le> spec_start w ws m"
  by (simp add: spec_start_def)

text \<open>One received frame, seen from the specification.\<close>

lemma spec_recv_ok:
  assumes "win_ok w ws buf" and "0 < w" and "w \<le> 255" and "chain_ok lst ws buf"
    and "ws \<le> m" and "m - ws < 2048" and "m \<notin> fst ` set buf"
    and "spec_deliver (spec_start w ws m) (spec_insert (m, f) buf) = (d, ws', r)"
  shows "win_ok w ws' r" and "successively step_ok (lst # map fst d)"
    and "chain_ok (last (lst # map fst d)) ws' r"
proof -
  let ?b = "spec_insert (m, f) buf" and ?st = "spec_start w ws m"
  have srt: "sorted_wrt (<) (map fst ?b)"
    using sorted_spec_insert [of buf "(m, f)"] assms(1,7) by (simp add: win_ok_def)
  have mem: "m \<le> fst (last ?b)"
  proof (cases "last ?b = (m, f)")
    case False
    obtain b' where b': "?b = b' @ [last ?b]" by (metis append_butlast_last_id spec_insert_not_Nil)
    have "(m, f) \<in> set b'" using False set_spec_insert [of "(m, f)" buf]
      by (metis Un_iff b' insertI1 set_ConsD set_append empty_iff list.set(1))
    moreover have "\<forall>x \<in> set b'. fst x < fst (last ?b)"
      using srt by (subst (asm) b') (simp add: sorted_wrt_append)
    ultimately show ?thesis by fastforce
  qed simp
  have st: "?st - 1 \<le> fst (last ?b)"
    using mem assms(2,5) by (auto simp: spec_start_def split: if_splits)
  have span: "\<forall>g \<in> set ?b. ws \<le> fst g \<and> fst g < ws + 2048"
    using assms(1,3,5,6) by (fastforce simp: set_spec_insert win_ok_def)
  have hd: "step_ok lst (fst (hd ?b))"
  proof -
    have "lst < fst (hd ?b)"
      using span assms(4) by (metis chain_ok_def less_le_trans list.set_sel(1) spec_insert_not_Nil)
    moreover have "fst (hd ?b) - lst \<le> 2048"
      using assms(4,6) by (cases buf) (auto simp: chain_ok_def)
    ultimately show ?thesis by (simp add: step_ok_def)
  qed
  then have ch: "successively step_ok (lst # map fst ?b)"
    using sorted_span_chain [OF srt span] by (cases ?b) auto
  have lst: "lst < ?st" using assms(4) spec_start_ge [OF assms(2), of ws m] by (simp add: chain_ok_def)
  note dc = deliver_chain [OF srt _ st ch lst assms(8)]
  then show "successively step_ok (lst # map fst d)" "chain_ok (last (lst # map fst d)) ws' r" by simp_all
  note sp = spec_deliver_split [OF srt assms(8)]
  have "fst g < ws' + w" if "g \<in> set r" for g
  proof -
    have "g \<in> insert (m, f) (set buf)" using that sp(1) set_spec_insert by (metis Un_iff set_append)
    then have "fst g < ?st + w"
      using assms(1,2) spec_start_ge [OF assms(2), of ws m]
      by (auto simp: win_ok_def spec_start_def split: if_splits)
    then show ?thesis using sp(2) by simp
  qed
  moreover have "sorted_wrt (<) (map fst r)" using srt sp(1) by (metis map_append sorted_wrt_append)
  ultimately show "win_ok w ws' r" using sp(4) by (simp add: win_ok_def)
qed

lemma spec_timeout_ok:
  assumes "win_ok w ws buf" and "w \<le> 255" and "chain_ok lst ws buf"
    and "spec_timeout ws buf = (d, ws', r)"
  shows "win_ok w ws' r" and "successively step_ok (lst # map fst d)"
    and "chain_ok (last (lst # map fst d)) ws' r"
proof -
  have "win_ok w ws' r \<and> successively step_ok (lst # map fst d) \<and> chain_ok (last (lst # map fst d)) ws' r"
  proof (cases "buf = []")
    case True
    with assms show ?thesis by (auto simp: spec_timeout_def)
  next
    case False
    then have del: "spec_deliver (fst (hd buf)) buf = (d, ws', r)" using assms(4) by (simp add: spec_timeout_def)
    have srt: "sorted_wrt (<) (map fst buf)" using assms(1) by (simp add: win_ok_def)
    have span: "\<forall>g \<in> set buf. ws \<le> fst g \<and> fst g < ws + 2048"
      using assms(1,2) by (fastforce simp: win_ok_def)
    have last: "fst (hd buf) - 1 \<le> fst (last buf)"
      using srt False by (cases buf) (auto dest!: last_in_set)
    have hdb: "ws < fst (hd buf)" using assms(1) False by (simp add: win_ok_def)
    have ch: "successively step_ok (lst # map fst buf)"
      using sorted_span_chain [OF srt span] assms(3) False hdb
      by (cases buf) (auto simp: chain_ok_def step_ok_def)
    have lst: "lst < fst (hd buf)" using assms(3) hdb by (simp add: chain_ok_def)
    note sp = spec_deliver_split [OF srt del]
    have "win_ok w ws' r"
    proof -
      have "fst g < ws' + w" if "g \<in> set r" for g
      proof -
        have "g \<in> set buf" using that sp(1) by auto
        then have "fst g < ws + w" using assms(1) by (simp add: win_ok_def)
        then show ?thesis using sp(2) hdb by simp
      qed
      moreover have "sorted_wrt (<) (map fst r)" using srt sp(1) by (metis map_append sorted_wrt_append)
      ultimately show ?thesis using sp(4) by (simp add: win_ok_def)
    qed
    then show ?thesis using deliver_chain [OF srt False last ch lst del] by simp
  qed
  then show "win_ok w ws' r" "successively step_ok (lst # map fst d)"
    "chain_ok (last (lst # map fst d)) ws' r" by auto
qed

section \<open>The code refines the specification\<close>

lemma word_of_int_eq_sn:
  assumes "0 \<le> x" and "x < 4096" and "x mod 4096 = n mod 4096"
  shows "word_of_int x = sn n"
  using assms by (simp add: sn_def)

lemma sn_not_FFFF [simp]: "sn m \<noteq> 0xFFFF"
proof
  assume "sn m = 0xFFFF"
  then have "uint (sn m) = uint (0xFFFF :: u16)" by simp
  then have "m mod 4096 = 0xFFFF" by (simp add: uint_sn)
  then show False using pos_mod_bound [of 4096 m] by simp
qed

lemma check_indicate_seq_refines:
  assumes ind: "indicate_seq c = sn ws" and lo: "-2048 \<le> m - ws" and hi: "m - ws < 2048"
    and w: "0 < uint (wsize_b c)"
  shows "check_indicate_seq c (sn m) =
    (if m < ws then (False, c)
     else (True, c\<lparr>indicate_seq := sn (spec_start (uint (wsize_b c)) ws m)\<rparr>))"
proof -
  let ?w = "uint (wsize_b c)"
  have w255: "?w \<le> 255" using uint_lt2p [of "wsize_b c"] by simp
  have wz: "(ucast (wsize_b c) :: u16) = word_of_int ?w" by (rule ucast_eq)
  have wend: "(indicate_seq c + ucast (wsize_b c) - 1) AND 0xFFF = sn (ws + ?w - 1)"
    using sn_add_and [of ws "?w - 1"] by (simp only: ind wz add_diff_eq wi_hom_sub [symmetric] of_int_1)
  have less: "SN_LESS (sn m) (sn ws) \<longleftrightarrow> m < ws" using SN_LESS_near [OF lo hi] .
  have eq: "SN_EQUAL (sn m) (sn ws) \<longleftrightarrow> m = ws"
    unfolding SN_EQUAL_def using lo hi by (intro sn_eq_near) simp_all
  have past: "SN_LESS (sn (ws + ?w - 1)) (sn m) \<longleftrightarrow> ws + ?w - 1 < m" if "ws \<le> m"
    using that hi w w255 by (intro SN_LESS_near) simp_all
  have md: "(m mod 4096 + 1 - ?w) mod 4096 = (m + 1 - ?w) mod 4096"
    by (metis mod_add_left_eq mod_diff_left_eq)
  then have md2: "(m mod 4096 + 1 - ?w + 4096) mod 4096 = (m + 1 - ?w) mod 4096" by (simp only: mod_add_self2)
  have sh1: "sn m + 1 - ucast (wsize_b c) = sn (m + 1 - ?w)" if "?w - 1 \<le> uint (sn m)"
  proof -
    have "sn m + 1 - ucast (wsize_b c) = word_of_int (m mod 4096 + 1 - ?w)"
      by (simp only: sn_def wz of_int_diff of_int_add of_int_1)
    also have "\<dots> = sn (m + 1 - ?w)"
      using that w pos_mod_bound [of 4096 m] by (intro word_of_int_eq_sn md) (simp_all add: uint_sn)
    finally show ?thesis .
  qed
  have sh2: "0xFFF - (ucast (wsize_b c) - (sn m + 1)) + 1 = sn (m + 1 - ?w)" if "\<not> ?w - 1 \<le> uint (sn m)"
  proof -
    have "0xFFF - (ucast (wsize_b c) - (sn m + 1)) + 1 = word_of_int (0xFFF - (?w - (m mod 4096 + 1)) + 1)"
      by (simp only: sn_def wz of_int_diff of_int_add of_int_1 of_int_numeral)
    also have "\<dots> = word_of_int (m mod 4096 + 1 - ?w + 4096)"
      by (rule arg_cong [where f = word_of_int]) simp
    also have "\<dots> = sn (m + 1 - ?w)"
      using that w255 pos_mod_sign [of 4096 m] by (intro word_of_int_eq_sn md2) (simp_all add: uint_sn)
    finally show ?thesis .
  qed
  show ?thesis
    unfolding check_indicate_seq_def Let_def wend
    using sh2 by (auto simp: ind less eq past sh1 spec_start_def sn_succ not_less)
qed

lemma reorder_insert_refines:
  assumes "\<forall>g \<in> set buf. seq_num (snd g) = sn (fst g) \<and> -2048 \<le> fst g - m \<and> fst g - m < 2048"
    and "seq_num f = sn m" and "sorted_wrt (<) (map fst buf)"
  shows "reorder_insert f (map snd buf) =
    (if m \<in> fst ` set buf then None else Some (map snd (spec_insert (m, f) buf)))"
  using assms
proof (induction buf)
  case (Cons g q)
  have less: "SN_LESS (sn (fst g)) (sn m) \<longleftrightarrow> fst g < m"
    using Cons.prems(1) by (intro SN_LESS_near) simp_all
  have eq: "SN_EQUAL (sn (fst g)) (sn m) \<longleftrightarrow> m = fst g"
    unfolding SN_EQUAL_def using Cons.prems(1) by (subst sn_eq_near) auto
  have "m \<notin> fst ` set q" if "m \<le> fst g" using Cons.prems(3) that by fastforce
  with Cons show ?case by (auto simp: less eq)
qed simp

lemma indicate_loop_refines:
  assumes "\<forall>g \<in> set buf. seq_num (snd g) = sn (fst g) \<and> -2048 \<le> ws - fst g \<and> ws - fst g < 2048"
    and "sorted_wrt (<) (map fst buf)" and "spec_deliver ws buf = (d, ws', r)"
  shows "indicate_loop env (sn ws) (map snd buf) =
    (concat (map (indicate_one env \<circ> snd) d), sn ws', map snd r, r \<noteq> [])"
  using assms
proof (induction buf arbitrary: ws d)
  case (Cons g q)
  have less: "SN_LESS (sn ws) (sn (fst g)) \<longleftrightarrow> ws < fst g"
    using Cons.prems(1) by (intro SN_LESS_near) simp_all
  have eq: "SN_EQUAL (sn ws) (sn (fst g)) \<longleftrightarrow> fst g = ws"
    unfolding SN_EQUAL_def using Cons.prems(1) by (subst sn_eq_near) auto
  have sg: "seq_num (snd g) = sn (fst g)" using Cons.prems(1) by simp
  show ?case
  proof (cases "fst g \<le> ws")
    case True
    let ?ws = "if fst g = ws then ws + 1 else ws"
    obtain d' where d': "spec_deliver ?ws q = (d', ws', r)" "d = g # d'"
      using Cons.prems(3) True by (auto simp: Let_def split: prod.splits)
    have "\<forall>h \<in> set q. seq_num (snd h) = sn (fst h) \<and> -2048 \<le> ?ws - fst h \<and> ?ws - fst h < 2048"
      using Cons.prems(1,2) by fastforce
    from Cons.IH [OF this _ d'(1)] Cons.prems(2) True d'(2) show ?thesis
      by (cases "fst g = ws") (simp_all add: sg less eq sn_succ)
  next
    case False
    then have "SN_LESS (sn ws) (sn (fst g))" by (simp add: less)
    with Cons.prems(3) False show ?thesis by (auto simp: sg)
  qed
qed simp

section \<open>Runs\<close>

text \<open>
  A frame goes through the window when reordering is enabled and it is an A-MSDU, or
  a QoS frame with normal acknowledgement that carries no ARP packet.
\<close>

definition eth_frame :: "rx_env \<Rightarrow> rframe \<Rightarrow> rframe" where
  "eth_frame env f = (if amsdu f = 0 then wlanhdr_to_ethhdr env f else f)"

definition rx_ready :: "rx_env \<Rightarrow> rframe \<Rightarrow> bool" where
  "rx_ready env f0 \<longleftrightarrow>
     (let f = eth_frame env f0 in
      uint (seq_num f) < 4096 \<and> amsdu f = amsdu f0 \<and> (amsdu f = 0 \<or> amsdu f = 1) \<and>
      (amsdu f = 0 \<longrightarrow> rf_qos f = 1 \<and> eth_type f \<noteq> 0x0806 \<and> ack_policy f = 0))"

definition ro_rel :: "recv_reorder_ctrl \<Rightarrow> int \<Rightarrow> wbuf \<Rightarrow> bool" where
  "ro_rel c ws buf \<longleftrightarrow>
     ro_enable c \<and> indicate_seq c = sn ws \<and> pending_recvframe_queue c = map snd buf \<and>
     0 < uint (wsize_b c) \<and> win_ok (uint (wsize_b c)) ws buf \<and>
     (\<forall>g \<in> set buf. seq_num (snd g) = sn (fst g) \<and> (amsdu (snd g) = 0 \<or> amsdu (snd g) = 1))"

text \<open>The frames handed to the network stack.\<close>

definition handed :: "rx_act list \<Rightarrow> rframe list" where
  "handed acts = concat (map (\<lambda>a. case a of RecvIndicate f \<Rightarrow> [f] | AmsduToMsdu f \<Rightarrow> [f] | FreeRecvframe f \<Rightarrow> []) acts)"

datatype rx_event = Rx rframe | Timeout

text \<open>A run: the actions, the frames for which \<open>_SUCCESS\<close> was returned, the final state.\<close>

fun ro_run :: "rx_env \<Rightarrow> recv_reorder_ctrl \<Rightarrow> rx_event list \<Rightarrow> rx_act list \<times> rframe list \<times> recv_reorder_ctrl" where
  "ro_run env c [] = ([], [], c)"
| "ro_run env c (Rx f # es) =
     (let (st, acts, c) = recv_indicatepkt_reorder env c f;
          (acts', acc, c) = ro_run env c es
      in (acts @ acts', (if st = SUCCESS then [eth_frame env f] else []) @ acc, c))"
| "ro_run env c (Timeout # es) =
     (let (acts, c) = rtw_reordering_ctrl_timeout_handler env c;
          (acts', acc, c) = ro_run env c es
      in (acts @ acts', acc, c))"

lemma handed_append [simp]: "handed (a @ b) = handed a @ handed b"
  by (simp add: handed_def)

lemma handed_indicate:
  assumes "\<not> stopped env" and "\<forall>g \<in> set d. amsdu (snd g) = 0 \<or> amsdu (snd g) = 1"
  shows "handed (concat (map (indicate_one env \<circ> snd) d)) = map snd d"
  using assms by (induction d) (auto simp: handed_def indicate_one_def)

lemma win_ok_length:
  assumes "win_ok w ws buf" and "0 < w"
  shows "int (length buf) < w"
proof -
  have "distinct (map fst buf)"
    using assms(1) by (auto simp: win_ok_def strict_sorted_iff)
  then have "length buf = card (fst ` set buf)" by (metis distinct_card length_map set_map)
  also have "fst ` set buf \<subseteq> {ws<..<ws + w}" using assms(1) by (auto simp: win_ok_def)
  then have "card (fst ` set buf) \<le> card {ws<..<ws + w}" by (intro card_mono) simp_all
  finally show ?thesis using assms(2) by simp
qed

lemma ro_rel_chain: "ro_rel c ws buf \<Longrightarrow> chain_ok (ws - 1) ws buf"
  using uint_lt2p [of "wsize_b c"] by (cases buf) (auto simp: ro_rel_def win_ok_def chain_ok_def)

text \<open>Draining the queue from a window start that is at most the window away.\<close>

lemma drain_refines:
  assumes "pending_recvframe_queue c = map snd b" and "sorted_wrt (<) (map fst b)"
    and "\<forall>g \<in> set b. seq_num (snd g) = sn (fst g) \<and> -2048 \<le> st - fst g \<and> st - fst g < 2048"
    and "spec_deliver st b = (d, ws', r)"
    and "if bforced then b \<noteq> [] \<and> st = fst (hd b) else indicate_seq c = sn st"
  shows "recv_indicatepkts_in_order env c bforced =
    (r \<noteq> [], concat (map (indicate_one env \<circ> snd) d),
     c\<lparr>indicate_seq := sn ws', pending_recvframe_queue := map snd r\<rparr>)"
proof -
  have "bforced \<Longrightarrow> seq_num (hd (map snd b)) = sn st"
    using assms(3,5) by (cases b) auto
  then show ?thesis
    using indicate_loop_refines [OF assms(3,2,4), of env] assms(1,5)
    by (cases bforced) (simp_all add: recv_indicatepkts_in_order_def)
qed

text \<open>One received frame.\<close>

lemma recv_refines:
  assumes rel: "ro_rel c ws buf" and rdy: "rx_ready env f0" and f: "f = eth_frame env f0"
    and m: "m = unwrap ws (seq_num f)"
    and spec: "spec_recv (uint (wsize_b c)) ws buf m f = (ok, d, ws', r)"
  obtains c' where
    "recv_indicatepkt_reorder env c f0 =
       (if ok then SUCCESS else FAIL, concat (map (indicate_one env \<circ> snd) d), c')"
    and "ro_rel c' ws' r" and "ok \<longrightarrow> reordering_ctrl_timer c' = (r \<noteq> [])"
    and "wsize_b c' = wsize_b c"
proof -
  let ?w = "uint (wsize_b c)"
  have w: "0 < ?w" "?w \<le> 255" using rel uint_lt2p [of "wsize_b c"] by (simp_all add: ro_rel_def)
  have rng: "-2048 \<le> m - ws" "m - ws < 2048" unfolding m by (rule unwrap_range)+
  have sf: "seq_num f = sn m" using rdy unfolding m f rx_ready_def Let_def by (simp add: sn_unwrap)
  have ind: "indicate_seq c = sn ws" and q: "pending_recvframe_queue c = map snd buf"
    and wok: "win_ok ?w ws buf" and sq: "\<forall>g \<in> set buf. seq_num (snd g) = sn (fst g)"
    using rel by (simp_all add: ro_rel_def)
  have bufr: "\<forall>g \<in> set buf. ws < fst g \<and> fst g < ws + ?w" using wok by (simp add: win_ok_def)
  have path: "recv_indicatepkt_reorder env c f0 =
     (let (ok, c) = check_indicate_seq c (sn m) in
        if \<not> ok then (FAIL, [], c)
        else let (ok, c) = enqueue_reorder_recvframe c f in
          if \<not> ok then (FAIL, [], c)
          else let (in_buf, acts, c) = recv_indicatepkts_in_order env c False
            in (SUCCESS, acts, c\<lparr>reordering_ctrl_timer := in_buf\<rparr>))"
    using rdy rel sf unfolding recv_indicatepkt_reorder_def Let_def rx_ready_def f eth_frame_def ro_rel_def
    by (auto split: if_splits)
  note chk = check_indicate_seq_refines [OF ind rng w(1)]
  show ?thesis
  proof (cases "m < ws")
    case True
    then have "recv_indicatepkt_reorder env c f0 = (FAIL, [], c)" by (simp add: path chk)
    with True spec rel that [of c] show ?thesis by (auto simp: spec_recv_def)
  next
    case False
    let ?st = "spec_start ?w ws m"
    have nb: "\<forall>g \<in> set buf. seq_num (snd g) = sn (fst g) \<and> -2048 \<le> fst g - m \<and> fst g - m < 2048"
      using bufr sq False rng w by fastforce
    have "sorted_wrt (<) (map fst buf)" using wok by (simp add: win_ok_def)
    note ins = reorder_insert_refines [OF nb sf this]
    show ?thesis
    proof (cases "m \<in> fst ` set buf")
      case True
      then have "?st = ws" using bufr by (auto simp: spec_start_def)
      then have "recv_indicatepkt_reorder env c f0 = (FAIL, [], c)"
        using True False ind by (simp add: path chk enqueue_reorder_recvframe_def q ins)
      with True spec rel that [of c] show ?thesis by (auto simp: spec_recv_def)
    next
      case fresh: False
      let ?b = "spec_insert (m, f) buf"
      have del: "spec_deliver ?st ?b = (d, ws', r)" "ok" using spec False fresh by (auto simp: spec_recv_def)
      have srt: "sorted_wrt (<) (map fst ?b)"
        using sorted_spec_insert [of buf "(m, f)"] wok fresh by (simp add: win_ok_def)
      have st: "ws \<le> ?st" "?st < ws + 2048" using False rng w by (auto simp: spec_start_def)
      have sb: "\<forall>g \<in> set ?b. seq_num (snd g) = sn (fst g) \<and> -2048 \<le> ?st - fst g \<and> ?st - fst g < 2048"
        using bufr sq False rng w st sf by (fastforce simp: set_spec_insert)
      let ?c1 = "c\<lparr>indicate_seq := sn ?st, pending_recvframe_queue := map snd ?b\<rparr>"
      let ?c' = "c\<lparr>indicate_seq := sn ws', pending_recvframe_queue := map snd r, reordering_ctrl_timer := r \<noteq> []\<rparr>"
      have dr: "recv_indicatepkts_in_order env ?c1 False = (r \<noteq> [], concat (map (indicate_one env \<circ> snd) d),
          ?c1\<lparr>indicate_seq := sn ws', pending_recvframe_queue := map snd r\<rparr>)"
        by (rule drain_refines [OF _ srt sb del(1)]) simp_all
      then have run: "recv_indicatepkt_reorder env c f0 =
          (SUCCESS, concat (map (indicate_one env \<circ> snd) d), ?c')"
        using fresh False by (simp add: path chk enqueue_reorder_recvframe_def q ins)
      have wok': "win_ok ?w ws' r"
        using spec_recv_ok [OF wok w ro_rel_chain [OF rel] _ rng(2) fresh del(1)] False by simp
      have "set r \<subseteq> insert (m, f) (set buf)"
        using spec_deliver_split(1) [OF srt del(1)] set_spec_insert [of "(m, f)" buf] by (metis Un_upper2 set_append)
      then have "ro_rel ?c' ws' r"
        using rel wok' sf rdy by (auto simp: ro_rel_def rx_ready_def f Let_def)
      with run del(2) that [of ?c'] show ?thesis by simp
    qed
  qed
qed

text \<open>The timer: the first pending frame becomes the start of the window.\<close>

lemma timeout_refines:
  assumes rel: "ro_rel c ws buf" and ns: "\<not> stopped env" and spec: "spec_timeout ws buf = (d, ws', r)"
  obtains c' where
    "rtw_reordering_ctrl_timeout_handler env c = (concat (map (indicate_one env \<circ> snd) d), c')"
    and "ro_rel c' ws' r" and "wsize_b c' = wsize_b c"
proof (cases "buf = []")
  case True
  then have "rtw_reordering_ctrl_timeout_handler env c = ([], c\<lparr>reordering_ctrl_timer := True\<rparr>)"
    using rel ns by (simp add: rtw_reordering_ctrl_timeout_handler_def recv_indicatepkts_in_order_def ro_rel_def)
  with True spec rel that [of "c\<lparr>reordering_ctrl_timer := True\<rparr>"] show ?thesis
    by (auto simp: spec_timeout_def ro_rel_def)
next
  case False
  let ?c' = "c\<lparr>indicate_seq := sn ws', pending_recvframe_queue := map snd r, reordering_ctrl_timer := r \<noteq> []\<rparr>"
  have del: "spec_deliver (fst (hd buf)) buf = (d, ws', r)" using spec False by (simp add: spec_timeout_def)
  have wok: "win_ok (uint (wsize_b c)) ws buf" and srt: "sorted_wrt (<) (map fst buf)"
    using rel by (simp_all add: ro_rel_def win_ok_def)
  have w: "uint (wsize_b c) \<le> 255" using uint_lt2p [of "wsize_b c"] by simp
  have sb: "\<forall>g \<in> set buf. seq_num (snd g) = sn (fst g) \<and> -2048 \<le> fst (hd buf) - fst g \<and> fst (hd buf) - fst g < 2048"
  proof
    fix g assume g: "g \<in> set buf"
    with hd_in_set [OF False] wok have "ws < fst g" "fst g < ws + uint (wsize_b c)"
        "ws < fst (hd buf)" "fst (hd buf) < ws + uint (wsize_b c)" by (simp_all add: win_ok_def)
    with g rel w show "seq_num (snd g) = sn (fst g) \<and> -2048 \<le> fst (hd buf) - fst g \<and> fst (hd buf) - fst g < 2048"
      by (simp add: ro_rel_def)
  qed
  have "recv_indicatepkts_in_order env c True = (r \<noteq> [], concat (map (indicate_one env \<circ> snd) d),
      c\<lparr>indicate_seq := sn ws', pending_recvframe_queue := map snd r\<rparr>)"
    using rel False by (intro drain_refines [OF _ srt sb del]) (simp_all add: ro_rel_def)
  then have "rtw_reordering_ctrl_timeout_handler env c = (concat (map (indicate_one env \<circ> snd) d), ?c')"
    using ns by (simp add: rtw_reordering_ctrl_timeout_handler_def)
  moreover have "win_ok (uint (wsize_b c)) ws' r"
    using spec_timeout_ok(1) [OF wok w ro_rel_chain [OF rel] spec] .
  then have "ro_rel ?c' ws' r"
    using rel spec_deliver_split(1) [OF srt del] by (auto simp: ro_rel_def)
  ultimately show ?thesis using that [of ?c'] by simp
qed

text \<open>Nothing is lost or duplicated by one step of the specification.\<close>

lemma spec_insert_mset: "mset (spec_insert g q) = add_mset g (mset q)"
  by (induction q) auto

lemma spec_deliver_mset:
  "spec_deliver ws b = (d, ws', r) \<Longrightarrow> mset d + mset r = mset b"
proof (induction b arbitrary: ws d)
  case (Cons g q)
  then show ?case by (auto simp: Let_def split: if_splits prod.splits)
qed simp

lemma spec_recv_mset:
  assumes "spec_recv w ws buf m f = (ok, d, ws', r)"
  shows "mset (map snd d) + mset (map snd r) = mset (map snd buf) + (if ok then {#f#} else {#})"
proof (cases ok)
  case True
  then have "mset d + mset r = add_mset (m, f) (mset buf)"
    using assms spec_deliver_mset [of "spec_start w ws m" "spec_insert (m, f) buf" d ws' r]
    by (auto simp: spec_recv_def spec_insert_mset split: if_splits)
  with True show ?thesis by (simp flip: image_mset_union)
next
  case False
  with assms show ?thesis by (auto simp: spec_recv_def split: if_splits)
qed

lemma spec_timeout_mset:
  assumes "spec_timeout ws buf = (d, ws', r)"
  shows "mset (map snd d) + mset (map snd r) = mset (map snd buf)"
proof -
  have "mset d + mset r = mset buf"
    using assms spec_deliver_mset [of "fst (hd buf)" buf d ws' r]
    by (auto simp: spec_timeout_def split: if_splits)
  then show ?thesis by (simp flip: image_mset_union)
qed

text \<open>
  The invariant of a run: \<open>d\<close> lists what was handed up, with unbounded numbers;
  \<open>lst\<close> is the number handed up before.
\<close>

definition run_ok :: "int \<Rightarrow> wbuf \<Rightarrow> wbuf \<Rightarrow> int \<Rightarrow> wbuf \<Rightarrow> rframe list \<Rightarrow> bool" where
  "run_ok lst buf d ws' r acc \<longleftrightarrow>
     successively step_ok (lst # map fst d) \<and> chain_ok (last (lst # map fst d)) ws' r \<and>
     (\<forall>g \<in> set d. seq_num (snd g) = sn (fst g)) \<and>
     mset (map snd buf) + mset acc = mset (map snd d) + mset (map snd r)"

lemma successively_glue:
  "xs \<noteq> [] \<Longrightarrow> successively P xs \<Longrightarrow> successively P (last xs # ys) \<Longrightarrow> successively P (xs @ ys)"
  by (cases ys) (auto simp: successively_append_iff)

lemma run_ok_trans:
  assumes "run_ok lst buf d ws1 b1 acc" and "run_ok (last (lst # map fst d)) b1 d' ws' r acc'"
  shows "run_ok lst buf (d @ d') ws' r (acc @ acc')"
proof -
  have "successively step_ok (lst # map fst d)"
      "successively step_ok (last (lst # map fst d) # map fst d')"
    using assms by (simp_all add: run_ok_def)
  then have "successively step_ok (lst # map fst (d @ d'))"
    using successively_glue [of "lst # map fst d" step_ok "map fst d'"] by simp
  moreover have "last (lst # map fst (d @ d')) = last (last (lst # map fst d) # map fst d')"
    by (cases "d' = []") (simp_all add: last_map)
  moreover have "mset (map snd buf) + mset (acc @ acc') = mset (map snd (d @ d')) + mset (map snd r)"
  proof -
    have "mset (map snd buf) + mset (acc @ acc') = (mset (map snd buf) + mset acc) + mset acc'" by simp
    also have "\<dots> = mset (map snd d) + (mset (map snd b1) + mset acc')"
      using assms(1) by (simp only: run_ok_def add.assoc)
    also have "\<dots> = mset (map snd (d @ d')) + mset (map snd r)"
      using assms(2) by (simp only: run_ok_def map_append mset_append add.assoc)
    finally show ?thesis .
  qed
  ultimately show ?thesis using assms unfolding run_ok_def set_append ball_Un by metis
qed

lemma set_of_mset_sum: "mset d + mset r = mset b \<Longrightarrow> set d \<subseteq> set b"
  by (metis set_mset_mset set_mset_union Un_upper1)

lemma spec_recv_chain:
  assumes "spec_recv w ws buf m f = (ok, d, ws', r)" and "win_ok w ws buf" and "0 < w" and "w \<le> 255"
    and "chain_ok lst ws buf" and "m - ws < 2048"
  shows "successively step_ok (lst # map fst d) \<and> chain_ok (last (lst # map fst d)) ws' r"
    and "set d \<subseteq> insert (m, f) (set buf)"
proof -
  have "(successively step_ok (lst # map fst d) \<and> chain_ok (last (lst # map fst d)) ws' r)
      \<and> set d \<subseteq> insert (m, f) (set buf)"
  proof (cases "m < ws \<or> m \<in> fst ` set buf")
    case True
    with assms(1,5) show ?thesis by (auto simp: spec_recv_def)
  next
    case False
    then have del: "spec_deliver (spec_start w ws m) (spec_insert (m, f) buf) = (d, ws', r)"
      using assms(1) by (auto simp: spec_recv_def)
    show ?thesis
      using spec_recv_ok(2,3) [OF assms(2-5) _ assms(6) _ del] False
        set_of_mset_sum [OF spec_deliver_mset [OF del]] by (simp add: set_spec_insert)
  qed
  then show "successively step_ok (lst # map fst d) \<and> chain_ok (last (lst # map fst d)) ws' r"
    "set d \<subseteq> insert (m, f) (set buf)" by blast+
qed

lemma recv_run_ok:
  assumes rel: "ro_rel c ws buf" and rdy: "rx_ready env f0" and ns: "\<not> stopped env"
    and ch: "chain_ok lst ws buf" and step: "recv_indicatepkt_reorder env c f0 = (st, acts, c')"
  obtains d ws' r where "ro_rel c' ws' r" and "handed acts = map snd d" and "wsize_b c' = wsize_b c"
    and "run_ok lst buf d ws' r (if st = SUCCESS then [eth_frame env f0] else [])"
proof -
  let ?f = "eth_frame env f0" and ?w = "uint (wsize_b c)"
  let ?m = "unwrap ws (seq_num ?f)"
  obtain ok d ws' r where spec: "spec_recv ?w ws buf ?m ?f = (ok, d, ws', r)" by (metis prod_cases4)
  obtain c'' where c'': "recv_indicatepkt_reorder env c f0 =
       (if ok then SUCCESS else FAIL, concat (map (indicate_one env \<circ> snd) d), c'')"
    "ro_rel c'' ws' r" "wsize_b c'' = wsize_b c" by (rule recv_refines [OF rel rdy refl refl spec])
  have w: "0 < ?w" "?w \<le> 255" and wok: "win_ok ?w ws buf"
    using rel uint_lt2p [of "wsize_b c"] by (simp_all add: ro_rel_def)
  note sc = spec_recv_chain [OF spec wok w ch unwrap_range(2)]
  have allg: "\<forall>g \<in> insert (?m, ?f) (set buf). seq_num (snd g) = sn (fst g) \<and> (amsdu (snd g) = 0 \<or> amsdu (snd g) = 1)"
    using rel rdy by (auto simp: ro_rel_def rx_ready_def Let_def sn_unwrap)
  then have dd: "\<forall>g \<in> set d. seq_num (snd g) = sn (fst g) \<and> (amsdu (snd g) = 0 \<or> amsdu (snd g) = 1)"
    using sc(2) by blast
  have "handed acts = map snd d" using handed_indicate [OF ns, of d] dd c''(1) step by simp
  moreover have "run_ok lst buf d ws' r (if st = SUCCESS then [?f] else [])"
    using sc(1) dd spec_recv_mset [OF spec] c''(1) step by (auto simp: run_ok_def)
  ultimately show ?thesis using that [of ws' r d] c'' step by simp
qed

lemma timeout_run_ok:
  assumes rel: "ro_rel c ws buf" and ns: "\<not> stopped env" and ch: "chain_ok lst ws buf"
    and step: "rtw_reordering_ctrl_timeout_handler env c = (acts, c')"
  obtains d ws' r where "ro_rel c' ws' r" and "handed acts = map snd d" and "wsize_b c' = wsize_b c"
    and "run_ok lst buf d ws' r []"
proof -
  obtain d ws' r where spec: "spec_timeout ws buf = (d, ws', r)" by (metis prod_cases3)
  obtain c'' where c'': "rtw_reordering_ctrl_timeout_handler env c = (concat (map (indicate_one env \<circ> snd) d), c'')"
    "ro_rel c'' ws' r" "wsize_b c'' = wsize_b c" by (rule timeout_refines [OF rel ns spec])
  have w: "uint (wsize_b c) \<le> 255" and wok: "win_ok (uint (wsize_b c)) ws buf"
    using rel uint_lt2p [of "wsize_b c"] by (simp_all add: ro_rel_def)
  note sc = spec_timeout_ok(2,3) [OF wok w ch spec]
  have "mset d + mset r = mset buf"
    using spec spec_deliver_mset [of "fst (hd buf)" buf d ws' r] by (auto simp: spec_timeout_def split: if_splits)
  then have dd: "\<forall>g \<in> set d. seq_num (snd g) = sn (fst g) \<and> (amsdu (snd g) = 0 \<or> amsdu (snd g) = 1)"
    using rel set_of_mset_sum by (fastforce simp: ro_rel_def)
  have "handed acts = map snd d" using handed_indicate [OF ns, of d] dd c''(1) step by simp
  moreover have "run_ok lst buf d ws' r []"
    using sc dd spec_timeout_mset [OF spec] by (auto simp: run_ok_def)
  ultimately show ?thesis using that [of ws' r d] c'' step by simp
qed

definition all_ready :: "rx_env \<Rightarrow> rx_event list \<Rightarrow> bool" where
  "all_ready env es = list_all (\<lambda>e. case e of Rx f \<Rightarrow> rx_ready env f | Timeout \<Rightarrow> True) es"

lemma ro_run_ok:
  assumes "ro_rel c ws buf" and "all_ready env es" and "\<not> stopped env" and "chain_ok lst ws buf"
    and "ro_run env c es = (acts, acc, c')"
  shows "\<exists>d ws' r. ro_rel c' ws' r \<and> handed acts = map snd d \<and> wsize_b c' = wsize_b c \<and> run_ok lst buf d ws' r acc"
  using assms
proof (induction es arbitrary: c ws buf lst acts acc)
  case Nil
  then show ?case by (intro exI [of _ "[]"] exI [of _ ws] exI [of _ buf]) (auto simp: run_ok_def handed_def)
next
  case (Cons e es)
  have rdy: "all_ready env es" using Cons.prems(2) by (simp add: all_ready_def)
  obtain acts1 acc1 c1 acts2 acc2 where split: "ro_run env c1 es = (acts2, acc2, c')" "acts = acts1 @ acts2"
      "acc = acc1 @ acc2"
    and step: "\<exists>d ws' r. ro_rel c1 ws' r \<and> handed acts1 = map snd d \<and> wsize_b c1 = wsize_b c \<and> run_ok lst buf d ws' r acc1"
  proof (cases e)
    case (Rx f)
    obtain st acts1 c1 where s: "recv_indicatepkt_reorder env c f = (st, acts1, c1)" by (metis prod_cases3)
    obtain acts2 acc2 c2 where r: "ro_run env c1 es = (acts2, acc2, c2)" by (metis prod_cases3)
    have "rx_ready env f" using Cons.prems(2) Rx by (simp add: all_ready_def)
    from recv_run_ok [OF Cons.prems(1) this Cons.prems(3,4) s]
    have "\<exists>d ws' r. ro_rel c1 ws' r \<and> handed acts1 = map snd d \<and> wsize_b c1 = wsize_b c \<and>
        run_ok lst buf d ws' r (if st = SUCCESS then [eth_frame env f] else [])" by metis
    with that [OF _ _ _ this] Cons.prems(5) s r Rx show ?thesis by auto
  next
    case Timeout
    obtain acts1 c1 where s: "rtw_reordering_ctrl_timeout_handler env c = (acts1, c1)" by fastforce
    obtain acts2 acc2 c2 where r: "ro_run env c1 es = (acts2, acc2, c2)" by (metis prod_cases3)
    from timeout_run_ok [OF Cons.prems(1,3,4) s]
    have "\<exists>d ws' r. ro_rel c1 ws' r \<and> handed acts1 = map snd d \<and> wsize_b c1 = wsize_b c \<and> run_ok lst buf d ws' r []" by metis
    with that [OF _ _ _ this] Cons.prems(5) s r Timeout show ?thesis by auto
  qed
  then obtain d ws1 b1 where d: "ro_rel c1 ws1 b1" "handed acts1 = map snd d" "wsize_b c1 = wsize_b c"
    "run_ok lst buf d ws1 b1 acc1" by metis
  have "chain_ok (last (lst # map fst d)) ws1 b1" using d(4) by (simp add: run_ok_def)
  from Cons.IH [OF d(1) rdy Cons.prems(3) this split(1)] obtain d' ws' r where
    "ro_rel c' ws' r" "handed acts2 = map snd d'" "wsize_b c' = wsize_b c1"
    "run_ok (last (lst # map fst d)) b1 d' ws' r acc2" by metis
  with d split(2,3) run_ok_trans [OF d(4)] show ?case
    by (intro exI [of _ "d @ d'"] exI [of _ ws'] exI [of _ r]) simp
qed

text \<open>
  Before the first frame \<open>indicate_seq\<close> is 0xFFFF: the first frame opens the window
  at its own number.
\<close>

definition ro_init :: "recv_reorder_ctrl \<Rightarrow> bool" where
  "ro_init c \<longleftrightarrow> ro_enable c \<and> indicate_seq c = 0xFFFF \<and> pending_recvframe_queue c = [] \<and> wsize_b c \<noteq> 0"

lemma recv_first_frame:
  assumes "ro_init c" and "rx_ready env f0"
  shows "recv_indicatepkt_reorder env c f0 =
    recv_indicatepkt_reorder env (c\<lparr>indicate_seq := seq_num (eth_frame env f0)\<rparr>) f0"
proof -
  let ?s = "seq_num (eth_frame env f0)"
  have "check_indicate_seq c ?s = check_indicate_seq (c\<lparr>indicate_seq := ?s\<rparr>) ?s"
    using assms(1) by (simp add: check_indicate_seq_def ro_init_def Let_def)
  then show ?thesis
    using assms unfolding recv_indicatepkt_reorder_def rx_ready_def eth_frame_def ro_init_def Let_def
    by (auto split: if_splits)
qed

lemma ro_rel_first:
  assumes "ro_init c" and "uint s < 4096"
  shows "ro_rel (c\<lparr>indicate_seq := s\<rparr>) (uint s) []"
  using assms sn_unwrap [OF assms(2), of "uint s"] 
  by (auto simp: ro_rel_def ro_init_def win_ok_def unwrap_def uint_0_iff less_le)

text \<open>A run from the initial state behaves like a run from an open window.\<close>

lemma ro_run_init:
  assumes "ro_init c" and "all_ready env es" and "\<not> stopped env" and "ro_run env c es = (acts, acc, c')"
  shows "\<exists>lst d ws' r. (pending_recvframe_queue c' = map snd r) \<and> win_ok (uint (wsize_b c)) ws' r \<and>
    handed acts = map snd d \<and> successively step_ok (lst # map fst d) \<and>
    (\<forall>g \<in> set d. seq_num (snd g) = sn (fst g)) \<and>
    mset acc = mset (map snd d) + mset (map snd r)"
  using assms
proof (induction es arbitrary: c acts)
  case Nil
  then show ?case
    by (intro exI [of _ 0] exI [of _ "[]"]) (auto simp: ro_init_def win_ok_def handed_def)
next
  case (Cons e es)
  show ?case
  proof (cases e)
    case (Rx f)
    let ?s = "seq_num (eth_frame env f)"
    let ?c = "c\<lparr>indicate_seq := ?s\<rparr>"
    have rdy: "rx_ready env f" using Cons.prems(2) Rx by (simp add: all_ready_def)
    then have rel: "ro_rel ?c (uint ?s) []"
      by (intro ro_rel_first [OF Cons.prems(1)]) (simp add: rx_ready_def Let_def)
    have "ro_run env ?c (e # es) = (acts, acc, c')"
      using Cons.prems(4) Rx recv_first_frame [OF Cons.prems(1) rdy] by simp
    from ro_run_ok [OF rel Cons.prems(2,3) ro_rel_chain [OF rel] this]
    show ?thesis by (fastforce simp: run_ok_def ro_rel_def)
  next
    case Timeout
    let ?c = "c\<lparr>reordering_ctrl_timer := True\<rparr>"
    have "rtw_reordering_ctrl_timeout_handler env c = ([], ?c)"
      using Cons.prems(1,3)
      by (simp add: rtw_reordering_ctrl_timeout_handler_def recv_indicatepkts_in_order_def ro_init_def)
    then have "ro_run env ?c es = (acts, acc, c')" using Cons.prems(4) Timeout by (auto split: prod.splits)
    then show ?thesis
      using Cons.IH [of ?c acts] Cons.prems(1-3) by (simp add: ro_init_def all_ready_def)
  qed
qed

lemma SN_LESS_step: "step_ok a b \<Longrightarrow> SN_LESS (sn a) (sn b)"
  by (simp add: step_ok_def SN_LESS_near)

lemma SN_chain:
  assumes "successively step_ok (map fst d)" and "\<forall>g \<in> set d. seq_num (snd g) = sn (fst g)"
  shows "successively (\<lambda>f g. SN_LESS (seq_num f) (seq_num g)) (map snd d)"
proof -
  have "successively (\<lambda>x y. step_ok (fst x) (fst y)) d" using assms(1) by (simp add: successively_map)
  then have "successively (\<lambda>x y. SN_LESS (seq_num (snd x)) (seq_num (snd y))) d"
    using assms(2) by (induction d rule: induct_list012) (auto intro: SN_LESS_step)
  then show ?thesis by (simp add: successively_map)
qed

text \<open>Every expiration of the timer hands up the first pending frame at least.\<close>

lemma indicate_loop_pending:
  "indicate_loop env ind q = (acts, ind', q', b) \<Longrightarrow> b = (q' \<noteq> []) \<and> length q' \<le> length q"
  by (induction env ind q arbitrary: acts rule: indicate_loop.induct)
     (fastforce simp: Let_def split: prod.splits if_splits)+

lemma timeout_progress:
  assumes "rtw_reordering_ctrl_timeout_handler env c = (acts, c')" and "\<not> stopped env"
  shows "length (pending_recvframe_queue c') \<le> length (pending_recvframe_queue c) - 1"
    and "pending_recvframe_queue c' \<noteq> [] \<Longrightarrow> reordering_ctrl_timer c'"
proof -
  have "length (pending_recvframe_queue c') \<le> length (pending_recvframe_queue c) - 1 \<and>
      (pending_recvframe_queue c' \<noteq> [] \<longrightarrow> reordering_ctrl_timer c')"
  proof (cases "pending_recvframe_queue c")
    case Nil
    with assms show ?thesis
      by (auto simp: rtw_reordering_ctrl_timeout_handler_def recv_indicatepkts_in_order_def)
  next
    case (Cons f q)
    obtain as i q' b where l: "indicate_loop env ((seq_num f + 1) AND 0xFFF) q = (as, i, q', b)"
      by (metis prod_cases4)
    from Cons l assms have "pending_recvframe_queue c' = q'" "reordering_ctrl_timer c' = b"
      by (auto simp: rtw_reordering_ctrl_timeout_handler_def recv_indicatepkts_in_order_def Let_def)
    with Cons indicate_loop_pending [OF l] show ?thesis by simp
  qed
  then show "length (pending_recvframe_queue c') \<le> length (pending_recvframe_queue c) - 1"
    "pending_recvframe_queue c' \<noteq> [] \<Longrightarrow> reordering_ctrl_timer c'" by blast+
qed

definition armed :: "recv_reorder_ctrl \<Rightarrow> bool" where
  "armed c \<longleftrightarrow> (pending_recvframe_queue c \<noteq> [] \<longrightarrow> reordering_ctrl_timer c)"

lemma check_armed: "armed c \<Longrightarrow> armed (snd (check_indicate_seq c s))"
  by (simp add: armed_def check_indicate_seq_def Let_def)

lemma enqueue_fail: "enqueue_reorder_recvframe c f = (False, c') \<Longrightarrow> c' = c"
  by (auto simp: enqueue_reorder_recvframe_def split: option.splits)

lemma drain_armed:
  "recv_indicatepkts_in_order env c False = (b, as, c') \<Longrightarrow> armed (c'\<lparr>reordering_ctrl_timer := b\<rparr>)"
  by (auto simp: recv_indicatepkts_in_order_def armed_def Let_def split: prod.splits
      dest: indicate_loop_pending)

lemma recv_timer_armed:
  assumes "recv_indicatepkt_reorder env c f0 = (st, acts, c')" and "armed c"
  shows "armed c'"
proof -
  let ?f = "if amsdu f0 = 0 then wlanhdr_to_ethhdr env f0 else f0"
  obtain ok c1 where chk: "check_indicate_seq c (seq_num ?f) = (ok, c1)" by fastforce
  obtain ok' c2 where enq: "enqueue_reorder_recvframe c1 ?f = (ok', c2)" by fastforce
  obtain b as c3 where dr: "recv_indicatepkts_in_order env c2 False = (b, as, c3)" by (metis prod_cases3)
  have c1: "armed c1" using check_armed [OF assms(2), of "seq_num ?f"] chk by simp
  have c2: "\<not> ok' \<Longrightarrow> c2 = c1" using enqueue_fail [of c1 ?f c2] enq by simp
  have ind: "armed (c\<lparr>indicate_seq := i\<rparr>)" for i using assms(2) by (simp add: armed_def)
  have "c' \<in> {c, c\<lparr>indicate_seq := (seq_num ?f + 1) mod 4096\<rparr>, c1, c2, c3\<lparr>reordering_ctrl_timer := b\<rparr>} \<and>
      (c' = c2 \<longrightarrow> c2 = c1 \<or> c' \<in> {c, c\<lparr>indicate_seq := (seq_num ?f + 1) mod 4096\<rparr>, c3\<lparr>reordering_ctrl_timer := b\<rparr>})"
    using assms(1) chk enq dr c2 unfolding recv_indicatepkt_reorder_def Let_def
    by (simp split: if_splits)
  then show ?thesis using assms(2) c1 ind drain_armed [OF dr] by auto
qed

section \<open>Properties\<close>

text \<open>Concrete environment and frames for the witnesses.\<close>

definition ex_env :: rx_env where
  "ex_env = \<lparr>stopped = False, amsdu_to_msdu = (\<lambda>f. SUCCESS), wlanhdr_to_ethhdr = (\<lambda>f. f)\<rparr>"

definition ex_frame :: "nat \<Rightarrow> u16 \<Rightarrow> rframe" where
  "ex_frame i s = \<lparr>rf_id = i, seq_num = s, amsdu = 0, rf_qos = 1, eth_type = 0x0800, ack_policy = 0\<rparr>"

definition ex_ctrl :: recv_reorder_ctrl where
  "ex_ctrl = \<lparr>ro_enable = True, indicate_seq = 0xFFFF, wsize_b = 64, pending_recvframe_queue = [],
     reordering_ctrl_timer = False\<rparr>"

text \<open>
  C10 (invariant).  While the driver is not stopped, and when every received frame is an A-MSDU or a
  QoS data frame with the normal acknowledgement policy that carries no ARP packet: in every run
  of such frames and of timer expirations from the initial state of a block-ack agreement, the
  frames handed to the network stack have successively later sequence numbers modulo 4096, across
  the wrap-around, and fewer frames than the window size are pending.  (Other frames, ARP packets
  among them, are handed up at once by the code and stay outside the window.)
\<close>

theorem reorder_in_order:
  assumes "ro_init c" and "all_ready env es" and "\<not> stopped env" and "ro_run env c es = (acts, acc, c')"
  shows "successively (\<lambda>f g. SN_LESS (seq_num f) (seq_num g)) (handed acts) \<and>
    int (length (pending_recvframe_queue c')) < uint (wsize_b c)"
proof -
  obtain lst d ws' r where r: "pending_recvframe_queue c' = map snd r" "win_ok (uint (wsize_b c)) ws' r"
      "handed acts = map snd d" "successively step_ok (lst # map fst d)"
      "\<forall>g \<in> set d. seq_num (snd g) = sn (fst g)"
    using ro_run_init [OF assms] by metis
  have "0 < uint (wsize_b c)" using assms(1) by (simp add: ro_init_def uint_0_iff less_le)
  with r show ?thesis
    using SN_chain [OF _ r(5)] win_ok_length [OF r(2)] by (auto simp: successively_Cons)
qed

lemma reorder_in_order_witness:
  "let (acts, acc, c') = ro_run ex_env ex_ctrl
     [Rx (ex_frame 0 4094), Rx (ex_frame 1 0), Rx (ex_frame 2 4095), Rx (ex_frame 3 2), Timeout]
   in map rf_id (handed acts) = [0, 2, 1, 3] \<and>
      successively (\<lambda>f g. SN_LESS (seq_num f) (seq_num g)) (handed acts) \<and>
      int (length (pending_recvframe_queue c')) < 64"
proof -
  let ?es = "[Rx (ex_frame 0 4094), Rx (ex_frame 1 0), Rx (ex_frame 2 4095), Rx (ex_frame 3 2), Timeout]"
  obtain acts acc c' where run: "ro_run ex_env ex_ctrl ?es = (acts, acc, c')" by (metis prod_cases3)
  have "map rf_id (handed (fst (ro_run ex_env ex_ctrl ?es))) = [0, 2, 1, 3]" by code_simp
  then have ids: "map rf_id (handed acts) = [0, 2, 1, 3]" by (simp only: run fst_conv)
  have "ro_init ex_ctrl" "all_ready ex_env ?es" "\<not> stopped ex_env" by code_simp+
  from reorder_in_order [OF this run] ids show ?thesis
    unfolding run Let_def prod.case by (simp add: ex_ctrl_def)
qed

text \<open>
  C12 (functional).  While the driver is not stopped, and when every received frame is an A-MSDU or a
  QoS data frame with the normal acknowledgement policy that carries no ARP packet: in every run
  of such frames and of timer expirations from the initial state the frames for which
  \<open>recv_indicatepkt_reorder\<close> returned \<open>_SUCCESS\<close> are, with their multiplicities, those
  handed to the stack and those still pending.
\<close>

theorem reorder_conserves_frames:
  assumes "ro_init c" and "all_ready env es" and "\<not> stopped env" and "ro_run env c es = (acts, acc, c')"
  shows "mset acc = mset (handed acts) + mset (pending_recvframe_queue c')"
  using ro_run_init [OF assms] by auto

lemma reorder_conserves_frames_witness:
  "let (acts, acc, c') = ro_run ex_env ex_ctrl [Rx (ex_frame 0 7), Rx (ex_frame 1 9), Rx (ex_frame 2 9)]
   in length acc = 2 \<and> mset acc = mset (handed acts) + mset (pending_recvframe_queue c')"
proof -
  let ?es = "[Rx (ex_frame 0 7), Rx (ex_frame 1 9), Rx (ex_frame 2 9)]"
  obtain acts acc c' where run: "ro_run ex_env ex_ctrl ?es = (acts, acc, c')" by (metis prod_cases3)
  have "length (fst (snd (ro_run ex_env ex_ctrl ?es))) = 2" by code_simp
  then have len: "length acc = 2" by (simp only: run fst_conv snd_conv)
  have "ro_init ex_ctrl" "all_ready ex_env ?es" "\<not> stopped ex_env" by code_simp+
  from reorder_conserves_frames [OF this run] len show ?thesis unfolding run Let_def prod.case by simp
qed

text \<open>
  C11 (refinement).  One call of \<open>recv_indicatepkt_reorder\<close> is one step of the window over unbounded
  sequence numbers: same verdict, the frames of the specification handed up in its order, the related
  state afterwards, and the timer armed exactly when frames stay pending.
\<close>

theorem reorder_refines_window:
  assumes "ro_rel c ws buf" and "rx_ready env f0" and "f = eth_frame env f0"
    and "spec_recv (uint (wsize_b c)) ws buf (unwrap ws (seq_num f)) f = (ok, d, ws', r)"
  shows "\<exists>c'. recv_indicatepkt_reorder env c f0 =
      (if ok then SUCCESS else FAIL, concat (map (indicate_one env \<circ> snd) d), c') \<and>
    ro_rel c' ws' r \<and> (ok \<longrightarrow> reordering_ctrl_timer c' = (r \<noteq> []))"
  using recv_refines [OF assms(1-3) refl assms(4)] by metis

lemma reorder_refines_window_witness:
  "\<exists>c'. recv_indicatepkt_reorder ex_env (ex_ctrl\<lparr>indicate_seq := 5\<rparr>) (ex_frame 0 6) = (SUCCESS, [], c') \<and>
     ro_rel c' 5 [(6, ex_frame 0 6)] \<and> reordering_ctrl_timer c'"
proof -
  have "ro_rel (ex_ctrl\<lparr>indicate_seq := 5\<rparr>) 5 []"
    by (simp add: ro_rel_def ex_ctrl_def sn_def win_ok_def)
  moreover have "rx_ready ex_env (ex_frame 0 6)" "ex_frame 0 6 = eth_frame ex_env (ex_frame 0 6)"
    by (simp_all add: rx_ready_def eth_frame_def ex_env_def ex_frame_def)
  moreover have "spec_recv (uint (wsize_b (ex_ctrl\<lparr>indicate_seq := 5\<rparr>))) 5 [] (unwrap 5 (seq_num (ex_frame 0 6))) (ex_frame 0 6)
      = (True, [], 5, [(6, ex_frame 0 6)])"
    by (simp add: spec_recv_def spec_start_def unwrap_def ex_frame_def ex_ctrl_def)
  ultimately show ?thesis using reorder_refines_window by fastforce
qed

text \<open>
  C13 (liveness).  After any run, pending frames imply an armed timer, and as many expirations of the
  timer as there are pending frames empty the queue: no frame waits forever for a missing one.
\<close>

theorem reorder_timer_empties_queue:
  assumes "ro_init c" and "\<not> stopped env" and "ro_run env c es = (acts, acc, c')"
    and "ro_run env c' (replicate (length (pending_recvframe_queue c')) Timeout) = (acts2, acc2, c2)"
  shows "(pending_recvframe_queue c' \<noteq> [] \<longrightarrow> reordering_ctrl_timer c') \<and> pending_recvframe_queue c2 = []"
proof
  have "armed c" using assms(1) by (simp add: armed_def ro_init_def)
  then have "armed c'" using assms(3)
  proof (induction es arbitrary: c acts acc)
    case (Cons e es)
    show ?case
    proof (cases e)
      case (Rx f)
      with Cons show ?thesis
        by (auto simp: Let_def split: prod.splits dest!: recv_timer_armed [OF _ Cons.prems(1)])
    next
      case Timeout
      with Cons show ?thesis
        using timeout_progress(2) [OF _ assms(2)] by (fastforce simp: armed_def Let_def split: prod.splits)
    qed
  qed simp
  then show "pending_recvframe_queue c' \<noteq> [] \<longrightarrow> reordering_ctrl_timer c'" by (simp add: armed_def)
  have drain: "length (pending_recvframe_queue c) \<le> n \<Longrightarrow> ro_run env c (replicate n Timeout) = (a, b, c2)
      \<Longrightarrow> pending_recvframe_queue c2 = []" for n c a b
  proof (induction n arbitrary: c a b)
    case (Suc n)
    obtain a1 c1 where h: "rtw_reordering_ctrl_timeout_handler env c = (a1, c1)" by fastforce
    obtain a2 b2 where r: "ro_run env c1 (replicate n Timeout) = (a2, b2, c2)"
      using Suc.prems(2) h by (auto simp: Let_def split: prod.splits)
    show ?case using Suc.IH [OF _ r] timeout_progress(1) [OF h assms(2)] Suc.prems(1) by simp
  qed simp
  show "pending_recvframe_queue c2 = []" by (rule drain [OF order_refl assms(4)])
qed

lemma reorder_timer_empties_queue_witness:
  "let (acts, acc, c') = ro_run ex_env ex_ctrl [Rx (ex_frame 0 7), Rx (ex_frame 1 9), Rx (ex_frame 2 12)];
       (acts2, acc2, c2) = ro_run ex_env c' (replicate (length (pending_recvframe_queue c')) Timeout)
   in length (pending_recvframe_queue c') = 2 \<and> reordering_ctrl_timer c' \<and> pending_recvframe_queue c2 = []"
proof -
  let ?es = "[Rx (ex_frame 0 7), Rx (ex_frame 1 9), Rx (ex_frame 2 12)]"
  obtain acts acc c' where run: "ro_run ex_env ex_ctrl ?es = (acts, acc, c')" by (metis prod_cases3)
  obtain acts2 acc2 c2 where run2: "ro_run ex_env c' (replicate (length (pending_recvframe_queue c')) Timeout) = (acts2, acc2, c2)"
    by (metis prod_cases3)
  have "length (pending_recvframe_queue (snd (snd (ro_run ex_env ex_ctrl ?es)))) = 2" by code_simp
  then have len: "length (pending_recvframe_queue c') = 2" by (simp only: run snd_conv)
  then have ne: "pending_recvframe_queue c' \<noteq> []" by auto
  have "ro_init ex_ctrl" "\<not> stopped ex_env" by code_simp+
  from reorder_timer_empties_queue [OF this run run2] len ne show ?thesis
    unfolding run run2 Let_def prod.case by simp
qed

text \<open>
  Error: While the driver is stopped a frame that is in order leaves the queue but is neither
  handed up nor freed, and the call still reports \<open>_SUCCESS\<close>, so the caller does not free it either.
\<close>

theorem reorder_stopped_leaks:
  assumes "stopped env" and "rx_ready env f0" and "amsdu f0 = 0" and "ro_enable c"
    and "indicate_seq c = seq_num (eth_frame env f0)" and "pending_recvframe_queue c = []"
  shows "\<exists>c'. recv_indicatepkt_reorder env c f0 = (SUCCESS, [], c') \<and> pending_recvframe_queue c' = []"
proof -
  let ?f = "eth_frame env f0"
  have f: "?f = wlanhdr_to_ethhdr env f0" using assms(3) by (simp add: eth_frame_def)
  have s: "uint (seq_num ?f) < 4096" "amsdu ?f = 0" "rf_qos ?f = 1" "eth_type ?f \<noteq> 0x0806" "ack_policy ?f = 0"
    using assms(2,3) by (auto simp: rx_ready_def Let_def)
  have sm: "seq_num ?f = sn (uint (seq_num ?f))" using s(1) by (simp add: sn_def)
  have nff: "seq_num ?f \<noteq> 0xFFFF" by (subst sm) simp
  have "\<not> SN_LESS ((seq_num ?f + 1) AND 0xFFF) (seq_num ?f)"
    by (subst (1 2) sm) (simp add: sn_succ SN_LESS_near)
  then show ?thesis
    using assms s nff
    by (simp add: recv_indicatepkt_reorder_def check_indicate_seq_def enqueue_reorder_recvframe_def
        recv_indicatepkts_in_order_def indicate_one_def Let_def flip: f)
qed

lemma reorder_stopped_leaks_witness:
  "\<exists>c'. recv_indicatepkt_reorder (ex_env\<lparr>stopped := True\<rparr>) (ex_ctrl\<lparr>indicate_seq := 7\<rparr>) (ex_frame 0 7)
     = (SUCCESS, [], c') \<and> pending_recvframe_queue c' = []"
  by (rule reorder_stopped_leaks)
     (simp_all add: ex_env_def ex_ctrl_def ex_frame_def rx_ready_def eth_frame_def)

end
