(* ===== verification/Sta_Mgt.thy ===== *)
theory Sta_Mgt
  imports Reorder
begin

text \<open>
  The station table of src/core/rtw_sta_mgt.c and the MAC id table of
  src/core/rtw_wlan_util.c (\<open>rtw_alloc_macid\<close>, \<open>rtw_release_macid\<close>).

  The 32 \<open>struct sta_info\<close> of the buffer are numbered; a pointer to one is its
  number, and the linked lists are lists of numbers.  A lock is a flag, and
  taking a held lock or releasing a free one is an error.

  Shown: the free queue and the hash buckets always partition the stations; the
  table behaves as a finite map from addresses to stations; allocation from
  an empty free queue releases the lock twice.
\<close>

section \<open>State\<close>

definition NUM_STA :: nat where "NUM_STA = 32"

record sta_info =
  si_state :: u32
  si_aid :: u32
  si_mac_id :: u32
  si_hwaddr :: "byte list"
  si_sleep_q :: "nat list"
  si_sleepq_len :: u32
  si_vo_q :: "nat list"
  si_vi_q :: "nat list"
  si_be_q :: "nat list"
  si_bk_q :: "nat list"
  si_tid_rxseq :: "u16 list"
  si_recvreorder_ctrl :: "recv_reorder_ctrl list"
  si_PWDB :: int
  si_CCK :: int
  si_RxMgmtFrameSeqNum :: u16
  si_expire_to :: u32
  si_qos_info :: byte

record sta_priv =
  sp_stainfo :: "sta_info list"
  sp_free_sta_queue :: "nat list"
  sp_sta_hash_lock :: bool
  sp_sta_hash :: "nat list list"
  sp_asoc_sta_count :: int
  sp_auth_list :: "nat list"
  sp_auth_list_cnt :: byte
  sp_sta_aid :: "nat option list"
  sp_sta_dz_bitmap :: u16
  sp_tim_bitmap :: u16
  sp_macid :: "bool list"
  sp_mac_addr :: "byte list"
  sp_free_xmit_queue :: "nat list"
  sp_free_recv_queue :: "rframe list"

datatype sta_error = DOUBLE_UNLOCK | SELF_DEADLOCK | OUT_OF_BOUNDS

definition spin_lock_bh :: "sta_priv \<Rightarrow> sta_error + sta_priv" where
  "spin_lock_bh sp = (if sp_sta_hash_lock sp then Inl SELF_DEADLOCK else Inr (sp\<lparr>sp_sta_hash_lock := True\<rparr>))"

definition spin_unlock_bh :: "sta_priv \<Rightarrow> sta_error + sta_priv" where
  "spin_unlock_bh sp = (if sp_sta_hash_lock sp then Inr (sp\<lparr>sp_sta_hash_lock := False\<rparr>) else Inl DOUBLE_UNLOCK)"

definition upd_sta :: "nat \<Rightarrow> (sta_info \<Rightarrow> sta_info) \<Rightarrow> sta_priv \<Rightarrow> sta_priv" where
  "upd_sta i f sp = sp\<lparr>sp_stainfo := (sp_stainfo sp)[i := f (sp_stainfo sp ! i)]\<rparr>"

section \<open>Initialization\<close>

definition init_stainfo :: sta_info where
  "init_stainfo =
     \<lparr>si_state = 0, si_aid = 0, si_mac_id = 0, si_hwaddr = replicate 6 0, si_sleep_q = [], si_sleepq_len = 0,
      si_vo_q = [], si_vi_q = [], si_be_q = [], si_bk_q = [], si_tid_rxseq = replicate 16 0,
      si_recvreorder_ctrl =
        replicate 16 \<lparr>ro_enable = False, indicate_seq = 0, wsize_b = 0, pending_recvframe_queue = [], reordering_ctrl_timer = False\<rparr>,
      si_PWDB = 0, si_CCK = 0, si_RxMgmtFrameSeqNum = 0, si_expire_to = 0, si_qos_info = 0\<rparr>"

text \<open>
  \<open>mem\<close> tells whether \<open>rtw_zvmalloc\<close> returns memory.  The MAC id table has the entry of the
  broadcast station set (src/usb.c).
\<close>

definition rtw_init_sta_priv :: "bool \<Rightarrow> byte list \<Rightarrow> status \<times> sta_priv option" where
  "rtw_init_sta_priv mem mac_addr =
     (if \<not> mem then (FAIL, None)
      else (SUCCESS, Some
        \<lparr>sp_stainfo = replicate NUM_STA init_stainfo, sp_free_sta_queue = [0..<NUM_STA], sp_sta_hash_lock = False,
         sp_sta_hash = replicate NUM_STA [], sp_asoc_sta_count = 0, sp_auth_list = [], sp_auth_list_cnt = 0,
         sp_sta_aid = replicate NUM_STA None, sp_sta_dz_bitmap = 0, sp_tim_bitmap = 0,
         sp_macid = (replicate NUM_STA False)[1 := True], sp_mac_addr = mac_addr,
         sp_free_xmit_queue = [], sp_free_recv_queue = []\<rparr>))"

section \<open>Hash and lookup\<close>

definition wifi_mac_hash :: "byte list \<Rightarrow> u32" where
  "wifi_mac_hash mac =
     (let x = ucast (mac ! 0);
          x = push_bit 2 x XOR ucast (mac ! 1);
          x = push_bit 2 x XOR ucast (mac ! 2);
          x = push_bit 2 x XOR ucast (mac ! 3);
          x = push_bit 2 x XOR ucast (mac ! 4);
          x = push_bit 2 x XOR ucast (mac ! 5);
          x = x XOR drop_bit 8 x
      in x AND (32 - 1))"

definition bc_addr :: "byte list" where "bc_addr = replicate 6 0xff"

definition is_multicast_ether_addr :: "byte list \<Rightarrow> bool" where
  "is_multicast_ether_addr a \<longleftrightarrow> a ! 0 AND 0x01 \<noteq> 0"

definition sta_key :: "byte list \<Rightarrow> byte list" where
  "sta_key hwaddr = (if is_multicast_ether_addr hwaddr then bc_addr else hwaddr)"

fun stainfo_search :: "sta_priv \<Rightarrow> byte list \<Rightarrow> nat list \<Rightarrow> nat option" where
  "stainfo_search sp addr [] = None"
| "stainfo_search sp addr (i # is) =
     (if si_hwaddr (sp_stainfo sp ! i) = addr then Some i else stainfo_search sp addr is)"

definition rtw_get_stainfo :: "sta_priv \<Rightarrow> byte list option \<Rightarrow> sta_error + nat option" where
  "rtw_get_stainfo sp hwaddr =
     (case hwaddr of
        None \<Rightarrow> Inr None
      | Some a \<Rightarrow>
          (case spin_lock_bh sp of
             Inl e \<Rightarrow> Inl e
           | Inr sp \<Rightarrow>
               let r = stainfo_search sp (sta_key a) (sp_sta_hash sp ! unat (wifi_mac_hash (sta_key a)))
               in (case spin_unlock_bh sp of Inl e \<Rightarrow> Inl e | Inr _ \<Rightarrow> Inr r)))"

definition rtw_get_bcmc_stainfo :: "sta_priv \<Rightarrow> sta_error + nat option" where
  "rtw_get_bcmc_stainfo sp = rtw_get_stainfo sp (Some bc_addr)"

section \<open>MAC ids\<close>

fun macid_loop :: "bool list \<Rightarrow> nat \<Rightarrow> nat" where
  "macid_loop [] i = i"
| "macid_loop (b # bs) i = (if \<not> b then i else macid_loop bs (i + 1))"

definition rtw_alloc_macid :: "nat \<Rightarrow> sta_priv \<Rightarrow> sta_priv" where
  "rtw_alloc_macid psta sp =
     (let hwaddr = si_hwaddr (sp_stainfo sp ! psta) in
      if hwaddr = bc_addr then sp
      else if hwaddr = sp_mac_addr sp then upd_sta psta (\<lambda>s. s\<lparr>si_mac_id := of_nat NUM_STA\<rparr>) sp
      else
        let i = macid_loop (sp_macid sp) 0;
            sp = (if i < NUM_STA then sp\<lparr>sp_macid := (sp_macid sp)[i := True]\<rparr> else sp)
        in if i > NUM_STA - 1 then upd_sta psta (\<lambda>s. s\<lparr>si_mac_id := of_nat NUM_STA\<rparr>) sp
           else upd_sta psta (\<lambda>s. s\<lparr>si_mac_id := of_nat i\<rparr>) sp)"

definition rtw_release_macid :: "nat \<Rightarrow> sta_priv \<Rightarrow> sta_priv" where
  "rtw_release_macid psta sp =
     (let hwaddr = si_hwaddr (sp_stainfo sp ! psta); mac_id = si_mac_id (sp_stainfo sp ! psta) in
      if hwaddr = bc_addr \<or> hwaddr = sp_mac_addr sp then sp
      else if unat mac_id < NUM_STA \<and> mac_id \<noteq> 1 \<and> sp_macid sp ! unat mac_id then
        upd_sta psta (\<lambda>s. s\<lparr>si_mac_id := of_nat NUM_STA\<rparr>) (sp\<lparr>sp_macid := (sp_macid sp)[unat mac_id := False]\<rparr>)
      else sp)"

section \<open>Allocation\<close>

definition alloc_reorder_ctrl :: recv_reorder_ctrl where
  "alloc_reorder_ctrl =
     \<lparr>ro_enable = False, indicate_seq = 0xffff, wsize_b = 64, pending_recvframe_queue = [], reordering_ctrl_timer = False\<rparr>"

definition alloc_init :: "sta_info \<Rightarrow> sta_info" where
  "alloc_init s =
     s\<lparr>si_tid_rxseq := replicate 16 0xffff, si_recvreorder_ctrl := replicate 16 alloc_reorder_ctrl,
       si_PWDB := - 1, si_CCK := - 1, si_RxMgmtFrameSeqNum := 0xffff\<rparr>"

text \<open>With an empty free queue the lock is released in the branch and again at the exit label.\<close>

definition rtw_alloc_stainfo :: "sta_priv \<Rightarrow> byte list \<Rightarrow> sta_error + (nat option \<times> sta_priv)" where
  "rtw_alloc_stainfo sp hwaddr =
     (case spin_lock_bh sp of
        Inl e \<Rightarrow> Inl e
      | Inr sp \<Rightarrow>
          (case (case sp_free_sta_queue sp of
                   [] \<Rightarrow> (case spin_unlock_bh sp of Inl e \<Rightarrow> Inl e | Inr sp \<Rightarrow> Inr (None, sp))
                 | psta # q \<Rightarrow>
                     let sp = sp\<lparr>sp_free_sta_queue := q\<rparr>;
                         sp = upd_sta psta (\<lambda>_. init_stainfo\<lparr>si_hwaddr := take 6 hwaddr\<rparr>) sp;
                         index = unat (wifi_mac_hash hwaddr)
                     in if index \<ge> NUM_STA then Inr (None, sp)
                        else
                          let sp = sp\<lparr>sp_sta_hash := (sp_sta_hash sp)[index := sp_sta_hash sp ! index @ [psta]],
                                      sp_asoc_sta_count := sp_asoc_sta_count sp + 1\<rparr>;
                              sp = upd_sta psta alloc_init sp
                          in Inr (Some psta, rtw_alloc_macid psta sp)) of
             Inl e \<Rightarrow> Inl e
           | Inr (psta, sp) \<Rightarrow> (case spin_unlock_bh sp of Inl e \<Rightarrow> Inl e | Inr sp \<Rightarrow> Inr (psta, sp))))"

text \<open>The return value of \<open>rtw_init_bcmc_stainfo\<close> is \<open>_SUCCESS\<close> also without a station.\<close>

definition rtw_init_bcmc_stainfo :: "sta_priv \<Rightarrow> sta_error + (status \<times> sta_priv)" where
  "rtw_init_bcmc_stainfo sp =
     (case rtw_alloc_stainfo sp bc_addr of
        Inl e \<Rightarrow> Inl e
      | Inr (None, sp) \<Rightarrow> Inr (SUCCESS, sp)
      | Inr (Some psta, sp) \<Rightarrow> Inr (SUCCESS, upd_sta psta (\<lambda>s. s\<lparr>si_mac_id := 1\<rparr>) sp))"

section \<open>Release\<close>

text \<open>
  \<open>rtw_free_xmitframe_queue\<close> and \<open>rtw_free_recvframe\<close> move the frames to the free queues.
  \<open>rtw_set_sta_info\<close>, which tells the firmware, does not change this state.
\<close>

definition free_sta_frames :: "nat \<Rightarrow> sta_priv \<Rightarrow> sta_priv" where
  "free_sta_frames psta sp =
     (let s = sp_stainfo sp ! psta;
          sp = sp\<lparr>sp_free_xmit_queue := sp_free_xmit_queue sp @ si_sleep_q s @ si_vo_q s @ si_vi_q s @ si_be_q s @ si_bk_q s,
                  sp_free_recv_queue := sp_free_recv_queue sp @ concat (map pending_recvframe_queue (si_recvreorder_ctrl s))\<rparr>
      in upd_sta psta (\<lambda>s. s\<lparr>si_state := si_state s AND NOT 1, si_sleep_q := [], si_sleepq_len := 0, si_vo_q := [],
            si_vi_q := [], si_be_q := [], si_bk_q := [],
            si_recvreorder_ctrl := map (\<lambda>c. c\<lparr>pending_recvframe_queue := [], reordering_ctrl_timer := False\<rparr>) (si_recvreorder_ctrl s)\<rparr>) sp)"

definition free_sta_ap :: "nat \<Rightarrow> sta_priv \<Rightarrow> sta_error + sta_priv" where
  "free_sta_ap psta sp =
     (let sp = (if psta \<in> set (sp_auth_list sp)
                then sp\<lparr>sp_auth_list := removeAll psta (sp_auth_list sp), sp_auth_list_cnt := sp_auth_list_cnt sp - 1\<rparr> else sp);
          sp = upd_sta psta (\<lambda>s. s\<lparr>si_expire_to := 0, si_qos_info := 0\<rparr>) sp;
          aid = unat (si_aid (sp_stainfo sp ! psta));
          sp = sp\<lparr>sp_sta_dz_bitmap := sp_sta_dz_bitmap sp AND NOT (push_bit aid 1),
                  sp_tim_bitmap := sp_tim_bitmap sp AND NOT (push_bit aid 1)\<rparr>
      in if aid > 0 then
           if aid - 1 < length (sp_sta_aid sp) then
             Inr (if sp_sta_aid sp ! (aid - 1) = Some psta
                  then upd_sta psta (\<lambda>s. s\<lparr>si_aid := 0\<rparr>) (sp\<lparr>sp_sta_aid := (sp_sta_aid sp)[aid - 1 := None]\<rparr>) else sp)
           else Inl OUT_OF_BOUNDS
         else Inr sp)"

definition rtw_free_stainfo :: "sta_priv \<Rightarrow> nat option \<Rightarrow> sta_error + sta_priv" where
  "rtw_free_stainfo sp psta =
     (case psta of
        None \<Rightarrow> Inr sp
      | Some psta \<Rightarrow>
          let sp = free_sta_frames psta sp;
              sp = sp\<lparr>sp_sta_hash := map (removeAll psta) (sp_sta_hash sp), sp_asoc_sta_count := sp_asoc_sta_count sp - 1\<rparr>;
              sp = rtw_release_macid psta sp
          in (case free_sta_ap psta sp of
                Inl e \<Rightarrow> Inl e
              | Inr sp \<Rightarrow> Inr (sp\<lparr>sp_free_sta_queue := sp_free_sta_queue sp @ [psta]\<rparr>)))"

text \<open>The bucket is read before its stations are freed: the next pointer is taken first.\<close>

fun free_list_loop :: "nat option \<Rightarrow> nat list \<Rightarrow> sta_priv \<Rightarrow> sta_error + sta_priv" where
  "free_list_loop bcmc [] sp = Inr sp"
| "free_list_loop bcmc (i # is) sp =
     (if bcmc \<noteq> Some i then
        (case rtw_free_stainfo sp (Some i) of Inl e \<Rightarrow> Inl e | Inr sp \<Rightarrow> free_list_loop bcmc is sp)
      else free_list_loop bcmc is sp)"

fun free_all_loop :: "nat option \<Rightarrow> nat list \<Rightarrow> sta_priv \<Rightarrow> sta_error + sta_priv" where
  "free_all_loop bcmc [] sp = Inr sp"
| "free_all_loop bcmc (b # bs) sp =
     (case free_list_loop bcmc (sp_sta_hash sp ! b) sp of Inl e \<Rightarrow> Inl e | Inr sp \<Rightarrow> free_all_loop bcmc bs sp)"

definition rtw_free_all_stainfo :: "sta_priv \<Rightarrow> sta_error + sta_priv" where
  "rtw_free_all_stainfo sp =
     (case rtw_get_bcmc_stainfo sp of
        Inl e \<Rightarrow> Inl e
      | Inr bcmc \<Rightarrow>
          if sp_asoc_sta_count sp = 1 then Inr sp
          else
            (case spin_lock_bh sp of
               Inl e \<Rightarrow> Inl e
             | Inr sp \<Rightarrow>
                 (case free_all_loop bcmc [0..<NUM_STA] sp of Inl e \<Rightarrow> Inl e | Inr sp \<Rightarrow> spin_unlock_bh sp)))"

section \<open>Access control\<close>

record rtw_wlan_acl_node =
  acl_addr :: "byte list"
  acl_valid :: bool

fun acl_match :: "rtw_wlan_acl_node list \<Rightarrow> byte list \<Rightarrow> bool" where
  "acl_match [] mac_addr = False"
| "acl_match (n # ns) mac_addr =
     (if acl_addr n = mac_addr then (if acl_valid n then True else acl_match ns mac_addr) else acl_match ns mac_addr)"

definition rtw_access_ctrl :: "int \<Rightarrow> rtw_wlan_acl_node list \<Rightarrow> byte list \<Rightarrow> bool" where
  "rtw_access_ctrl mode nodes mac_addr =
     (let match = acl_match nodes mac_addr in
      if mode = 1 then (if match then False else True)
      else if mode = 2 then (if match then True else False)
      else True)"

section \<open>The invariant\<close>

definition sta_addr :: "sta_priv \<Rightarrow> nat \<Rightarrow> byte list" where
  "sta_addr sp i = si_hwaddr (sp_stainfo sp ! i)"

definition stations :: "sta_priv \<Rightarrow> nat list" where
  "stations sp = concat (sp_sta_hash sp)"

text \<open>
  Every station is either free or in exactly one bucket, the one of its address, and the
  buckets are counted by \<open>asoc_sta_count\<close>.
\<close>

definition sta_wf :: "sta_priv \<Rightarrow> bool" where
  "sta_wf sp \<longleftrightarrow>
     length (sp_stainfo sp) = 32 \<and> length (sp_sta_hash sp) = 32 \<and> length (sp_sta_aid sp) = 32 \<and> length (sp_macid sp) = 32 \<and>
     \<not> sp_sta_hash_lock sp \<and>
     mset (sp_free_sta_queue sp @ stations sp) = mset [0..<32] \<and>
     (\<forall>b<32. \<forall>i\<in>set (sp_sta_hash sp ! b). unat (wifi_mac_hash (sta_addr sp i)) = b) \<and>
     sp_asoc_sta_count sp = int (length (stations sp)) \<and>
     (\<forall>i<32. unat (si_aid (sp_stainfo sp ! i)) \<le> 32)"

definition sta_unique :: "sta_priv \<Rightarrow> bool" where
  "sta_unique sp \<longleftrightarrow> distinct (map (sta_addr sp) (stations sp))"

definition sta_map :: "sta_priv \<Rightarrow> byte list \<Rightarrow> nat option" where
  "sta_map sp = map_of (map (\<lambda>i. (sta_addr sp i, i)) (stations sp))"

lemma wifi_mac_hash_less: "unat (wifi_mac_hash a) < 32"
proof -
  have "unat (x AND 31) < 32" for x :: u32
  proof -
    have "x AND 31 \<le> 31" by (rule word_and_le1)
    then have "unat (x AND 31) \<le> unat (31 :: u32)" by (simp only: word_le_nat_alt)
    then show ?thesis by simp
  qed
  then show ?thesis by (simp add: wifi_mac_hash_def Let_def)
qed

lemma sta_map_Some_iff: "sta_unique sp \<Longrightarrow> sta_map sp a = Some i \<longleftrightarrow> i \<in> set (stations sp) \<and> sta_addr sp i = a"
  by (auto simp: sta_map_def sta_unique_def comp_def map_of_eq_Some_iff)

lemma sta_map_None_iff: "sta_map sp a = None \<longleftrightarrow> a \<notin> sta_addr sp ` set (stations sp)"
  by (auto simp: sta_map_def map_of_eq_None_iff image_image)

lemma stainfo_search_Some: "stainfo_search sp a is = Some i \<Longrightarrow> i \<in> set is \<and> sta_addr sp i = a"
  by (induction "is") (auto simp: sta_addr_def split: if_splits)

lemma stainfo_search_None: "stainfo_search sp a is = None \<longleftrightarrow> (\<forall>i\<in>set is. sta_addr sp i \<noteq> a)"
  by (induction "is") (auto simp: sta_addr_def)

lemma mem_concat_nth: "i \<in> set (concat H) \<longleftrightarrow> (\<exists>b<length H. i \<in> set (H ! b))"
  by (metis UN_iff in_set_conv_nth set_concat)

lemma stations_bucket:
  assumes "sta_wf sp" and "i \<in> set (stations sp)"
  shows "i \<in> set (sp_sta_hash sp ! unat (wifi_mac_hash (sta_addr sp i)))"
proof -
  obtain b where "b < 32" "i \<in> set (sp_sta_hash sp ! b)"
    using assms by (auto simp: stations_def sta_wf_def mem_concat_nth simp del: set_concat)
  then show ?thesis using assms(1) by (auto simp: sta_wf_def)
qed

lemma bucket_stations: "sta_wf sp \<Longrightarrow> b < 32 \<Longrightarrow> i \<in> set (sp_sta_hash sp ! b) \<Longrightarrow> i \<in> set (stations sp)"
  by (auto simp: stations_def sta_wf_def mem_concat_nth simp del: set_concat)

lemma stainfo_search_map:
  assumes "sta_wf sp" and "sta_unique sp"
  shows "stainfo_search sp a (sp_sta_hash sp ! unat (wifi_mac_hash a)) = sta_map sp a"
proof (cases "stainfo_search sp a (sp_sta_hash sp ! unat (wifi_mac_hash a))")
  case None
  have "a \<notin> sta_addr sp ` set (stations sp)"
    using None stations_bucket [OF assms(1)] by (auto simp: stainfo_search_None)
  with None show ?thesis by (simp add: sta_map_None_iff [symmetric])
next
  case (Some i)
  from stainfo_search_Some [OF this] have "i \<in> set (stations sp)" "sta_addr sp i = a"
    using bucket_stations [OF assms(1) wifi_mac_hash_less] by auto
  with Some show ?thesis using sta_map_Some_iff [OF assms(2)] by metis
qed

lemma get_stainfo_map:
  assumes "sta_wf sp" and "sta_unique sp"
  shows "rtw_get_stainfo sp (Some a) = Inr (sta_map sp (sta_key a))"
proof -
  have search: "stainfo_search (sp\<lparr>sp_sta_hash_lock := l\<rparr>) a' is = stainfo_search sp a' is" for l a' "is"
    by (induction "is") auto
  show ?thesis
    using assms(1) stainfo_search_map [OF assms, of "sta_key a"]
    by (simp add: rtw_get_stainfo_def spin_lock_bh_def spin_unlock_bh_def sta_wf_def search Let_def)
qed

lemma sta_wf_indices:
  assumes "sta_wf sp"
  shows "set (sp_free_sta_queue sp) \<union> set (stations sp) = {0..<32}" and "distinct (sp_free_sta_queue sp @ stations sp)"
proof -
  have m: "mset (sp_free_sta_queue sp @ stations sp) = mset [0..<32]" using assms by (simp add: sta_wf_def)
  then show "distinct (sp_free_sta_queue sp @ stations sp)"
    by (metis distinct_upt mset_eq_imp_distinct_iff)
  show "set (sp_free_sta_queue sp) \<union> set (stations sp) = {0..<32}"
    using mset_eq_setD [OF m] by simp
qed

lemma stations_less: "sta_wf sp \<Longrightarrow> i \<in> set (stations sp) \<Longrightarrow> i < 32"
  using sta_wf_indices(1) [of sp] by auto

section \<open>The effect of the operations\<close>

lemma upd_sta_simps [simp]:
  "sp_free_sta_queue (upd_sta i f sp) = sp_free_sta_queue sp"
  "sp_sta_hash (upd_sta i f sp) = sp_sta_hash sp"
  "sp_sta_hash_lock (upd_sta i f sp) = sp_sta_hash_lock sp"
  "sp_asoc_sta_count (upd_sta i f sp) = sp_asoc_sta_count sp"
  "sp_sta_aid (upd_sta i f sp) = sp_sta_aid sp"
  "sp_macid (upd_sta i f sp) = sp_macid sp"
  "sp_auth_list (upd_sta i f sp) = sp_auth_list sp"
  "sp_mac_addr (upd_sta i f sp) = sp_mac_addr sp"
  "length (sp_stainfo (upd_sta i f sp)) = length (sp_stainfo sp)"
  by (simp_all add: upd_sta_def)

lemma stainfo_upd_sta:
  "j < length (sp_stainfo sp) \<Longrightarrow>
   sp_stainfo (upd_sta i f sp) ! j = (if i = j then f (sp_stainfo sp ! j) else sp_stainfo sp ! j)"
  by (simp add: upd_sta_def nth_list_update)

text \<open>What the invariant and the map depend on.\<close>

definition same_table :: "sta_priv \<Rightarrow> sta_priv \<Rightarrow> bool" where
  "same_table sp sp' \<longleftrightarrow>
     sp_free_sta_queue sp' = sp_free_sta_queue sp \<and> sp_sta_hash sp' = sp_sta_hash sp \<and>
     sp_sta_hash_lock sp' = sp_sta_hash_lock sp \<and> sp_asoc_sta_count sp' = sp_asoc_sta_count sp \<and>
     length (sp_sta_aid sp') = length (sp_sta_aid sp) \<and> length (sp_macid sp') = length (sp_macid sp) \<and>
     length (sp_stainfo sp') = length (sp_stainfo sp) \<and>
     (\<forall>j<length (sp_stainfo sp). si_hwaddr (sp_stainfo sp' ! j) = si_hwaddr (sp_stainfo sp ! j) \<and>
        unat (si_aid (sp_stainfo sp' ! j)) \<le> unat (si_aid (sp_stainfo sp ! j)))"

lemma same_table_refl [simp, intro]: "same_table sp sp"
  by (simp add: same_table_def)

lemma same_table_trans: "same_table a b \<Longrightarrow> same_table b c \<Longrightarrow> same_table a c"
  unfolding same_table_def by (auto intro: le_trans)

lemma same_table_upd_sta:
  "(\<And>s. si_hwaddr (f s) = si_hwaddr s) \<Longrightarrow> (\<And>s. unat (si_aid (f s)) \<le> unat (si_aid s)) \<Longrightarrow> same_table sp (upd_sta i f sp)"
  by (auto simp: same_table_def stainfo_upd_sta)

lemma same_table_alloc_macid: "same_table sp (rtw_alloc_macid i sp)"
  unfolding rtw_alloc_macid_def Let_def
  by (auto intro!: same_table_trans [OF _ same_table_upd_sta]) (simp add: same_table_def)

lemma same_table_release_macid: "same_table sp (rtw_release_macid i sp)"
  unfolding rtw_release_macid_def Let_def
  by (auto intro!: same_table_trans [OF _ same_table_upd_sta]) (simp add: same_table_def)

lemma same_table_free_frames: "same_table sp (free_sta_frames i sp)"
  unfolding free_sta_frames_def Let_def
  by (rule same_table_trans [OF _ same_table_upd_sta]) (simp_all add: same_table_def)

lemma same_table_free_ap:
  assumes "unat (si_aid (sp_stainfo sp ! i)) \<le> length (sp_sta_aid sp)" and "i < length (sp_stainfo sp)"
  shows "\<exists>sp'. free_sta_ap i sp = Inr sp' \<and> same_table sp sp'"
proof -
  let ?sp1 = "if i \<in> set (sp_auth_list sp)
    then sp\<lparr>sp_auth_list := removeAll i (sp_auth_list sp), sp_auth_list_cnt := sp_auth_list_cnt sp - 1\<rparr> else sp"
  let ?sp2 = "upd_sta i (\<lambda>s. s\<lparr>si_expire_to := 0, si_qos_info := 0\<rparr>) ?sp1"
  let ?aid = "unat (si_aid (sp_stainfo ?sp2 ! i))"
  let ?sp3 = "?sp2\<lparr>sp_sta_dz_bitmap := sp_sta_dz_bitmap ?sp2 AND NOT (push_bit ?aid 1),
    sp_tim_bitmap := sp_tim_bitmap ?sp2 AND NOT (push_bit ?aid 1)\<rparr>"
  let ?sp4 = "upd_sta i (\<lambda>s. s\<lparr>si_aid := 0\<rparr>) (?sp3\<lparr>sp_sta_aid := (sp_sta_aid ?sp3)[?aid - 1 := None]\<rparr>)"
  have s1: "same_table sp ?sp1" by (simp add: same_table_def)
  have s2: "same_table sp ?sp2" by (rule same_table_trans [OF s1 same_table_upd_sta]) simp_all
  have s3: "same_table sp ?sp3" by (rule same_table_trans [OF s2]) (simp add: same_table_def)
  have "same_table sp (?sp3\<lparr>sp_sta_aid := (sp_sta_aid ?sp3)[?aid - 1 := None]\<rparr>)"
    by (rule same_table_trans [OF s3]) (simp add: same_table_def)
  then have s4: "same_table sp ?sp4" by (rule same_table_trans [OF _ same_table_upd_sta]) simp_all
  have aid: "?aid \<le> length (sp_sta_aid ?sp3)"
    using s2 assms by (auto simp: same_table_def stainfo_upd_sta)
  show ?thesis
    unfolding free_sta_ap_def Let_def using aid s3 s4 by auto
qed

text \<open>The table after an operation: queue, buckets, and one address that may have changed.\<close>

definition table_is :: "nat list \<Rightarrow> nat list list \<Rightarrow> (nat \<Rightarrow> byte list) \<Rightarrow> sta_priv \<Rightarrow> bool" where
  "table_is q H addr sp \<longleftrightarrow>
     length (sp_stainfo sp) = 32 \<and> length (sp_sta_aid sp) = 32 \<and> length (sp_macid sp) = 32 \<and> \<not> sp_sta_hash_lock sp \<and>
     sp_free_sta_queue sp = q \<and> sp_sta_hash sp = H \<and> sp_asoc_sta_count sp = int (length (concat H)) \<and>
     (\<forall>j<32. sta_addr sp j = addr j \<and> unat (si_aid (sp_stainfo sp ! j)) \<le> 32)"

lemma table_is_self: "sta_wf sp \<Longrightarrow> table_is (sp_free_sta_queue sp) (sp_sta_hash sp) (sta_addr sp) sp"
  by (simp add: table_is_def sta_wf_def stations_def)

lemma table_is_same: "table_is q H addr sp \<Longrightarrow> same_table sp sp' \<Longrightarrow> table_is q H addr sp'"
  by (auto simp: table_is_def same_table_def sta_addr_def intro: le_trans)

lemma table_is_wf:
  assumes "table_is q H addr sp" and "length H = 32" and "mset (q @ concat H) = mset [0..<32]"
    and "\<And>b i. b < 32 \<Longrightarrow> i \<in> set (H ! b) \<Longrightarrow> unat (wifi_mac_hash (addr i)) = b"
  shows "sta_wf sp"
proof -
  have "i < 32" if "b < 32" "i \<in> set (H ! b)" for b i
  proof -
    have "i \<in> set (concat H)" using that assms(2) by (auto simp: mem_concat_nth simp del: set_concat)
    then have "i \<in> set (q @ concat H)" by simp
    then show ?thesis using mset_eq_setD [OF assms(3)] by auto
  qed
  then show ?thesis using assms by (auto simp: sta_wf_def table_is_def stations_def)
qed

lemma mset_concat_update:
  "b < length H \<Longrightarrow> mset (concat (H[b := H ! b @ [i]])) = mset (concat H) + {#i#}"
  by (induction H arbitrary: b) (auto split: nat.split)

lemma alloc_table:
  assumes "sta_wf sp" and "length hw = 6" and "sp_free_sta_queue sp = i # q"
  shows "\<exists>sp'. rtw_alloc_stainfo sp hw = Inr (Some i, sp') \<and>
    table_is q ((sp_sta_hash sp)[unat (wifi_mac_hash hw) := sp_sta_hash sp ! unat (wifi_mac_hash hw) @ [i]])
      ((sta_addr sp)(i := hw)) sp'"
proof -
  let ?b = "unat (wifi_mac_hash hw)"
  let ?sp0 = "upd_sta i (\<lambda>_. init_stainfo\<lparr>si_hwaddr := take 6 hw\<rparr>) (sp\<lparr>sp_sta_hash_lock := True, sp_free_sta_queue := q\<rparr>)"
  let ?sp1 = "upd_sta i alloc_init (?sp0\<lparr>sp_sta_hash := (sp_sta_hash ?sp0)[?b := sp_sta_hash ?sp0 ! ?b @ [i]],
    sp_asoc_sta_count := sp_asoc_sta_count ?sp0 + 1\<rparr>)"
  have i: "i < 32" using sta_wf_indices(1) [OF assms(1)] assms(3) by auto
  have len: "length (concat ((sp_sta_hash sp)[?b := sp_sta_hash sp ! ?b @ [i]])) = length (stations sp) + 1"
    using mset_concat_update [of ?b "sp_sta_hash sp" i] wifi_mac_hash_less [of hw] assms(1)
    by (metis add_mset_add_single size_add_mset size_mset stations_def sta_wf_def Suc_eq_plus1)
  have same: "same_table ?sp1 (rtw_alloc_macid i ?sp1)" by (rule same_table_alloc_macid)
  have "table_is q ((sp_sta_hash sp)[?b := sp_sta_hash sp ! ?b @ [i]]) ((sta_addr sp)(i := hw))
      ((?sp1)\<lparr>sp_sta_hash_lock := False\<rparr>)"
    using assms i len
    by (auto simp: table_is_def sta_wf_def sta_addr_def upd_sta_def nth_list_update alloc_init_def init_stainfo_def)
  then have tab: "table_is q ((sp_sta_hash sp)[?b := sp_sta_hash sp ! ?b @ [i]]) ((sta_addr sp)(i := hw))
      ((rtw_alloc_macid i ?sp1)\<lparr>sp_sta_hash_lock := False\<rparr>)"
    by (rule table_is_same) (use same in \<open>simp add: same_table_def\<close>)
  have "sp_sta_hash_lock (rtw_alloc_macid i ?sp1)" using same by (simp add: same_table_def)
  then have "rtw_alloc_stainfo sp hw = Inr (Some i, (rtw_alloc_macid i ?sp1)\<lparr>sp_sta_hash_lock := False\<rparr>)"
    using assms(1,3) wifi_mac_hash_less [of hw]
    by (simp add: rtw_alloc_stainfo_def spin_lock_bh_def spin_unlock_bh_def sta_wf_def Let_def NUM_STA_def)
  with tab show ?thesis by blast
qed

lemma free_table:
  assumes "sta_wf sp" and "i \<in> set (stations sp)"
  shows "\<exists>sp'. rtw_free_stainfo sp (Some i) = Inr sp' \<and>
    table_is (sp_free_sta_queue sp @ [i]) (map (removeAll i) (sp_sta_hash sp)) (sta_addr sp) sp'"
proof -
  let ?sp1 = "free_sta_frames i sp"
  let ?sp2 = "?sp1\<lparr>sp_sta_hash := map (removeAll i) (sp_sta_hash ?sp1), sp_asoc_sta_count := sp_asoc_sta_count ?sp1 - 1\<rparr>"
  let ?sp3 = "rtw_release_macid i ?sp2"
  have i: "i < 32" using sta_wf_indices(1) [OF assms(1)] assms(2) by auto
  have d: "distinct (stations sp)" using sta_wf_indices(2) [OF assms(1)] by simp
  have c: "concat (map (removeAll i) (sp_sta_hash sp)) = removeAll i (stations sp)"
    by (simp add: stations_def removeAll_filter_not_eq filter_concat comp_def)
  have len: "int (length (removeAll i (stations sp))) = int (length (stations sp)) - 1"
  proof -
    obtain n where "length (stations sp) = Suc n" using length_pos_if_in_set [OF assms(2)] by (auto simp: gr0_conv_Suc)
    then show ?thesis using d assms(2) by (simp add: distinct_remove1_removeAll [symmetric] length_remove1)
  qed
  have t1: "table_is (sp_free_sta_queue sp) (sp_sta_hash sp) (sta_addr sp) ?sp1"
    by (rule table_is_same [OF table_is_self [OF assms(1)] same_table_free_frames])
  have "table_is (sp_free_sta_queue sp) (map (removeAll i) (sp_sta_hash sp)) (sta_addr sp) ?sp2"
    using t1 len by (auto simp: table_is_def c sta_addr_def stations_def [symmetric])
  then have t3: "table_is (sp_free_sta_queue sp) (map (removeAll i) (sp_sta_hash sp)) (sta_addr sp) ?sp3"
    by (rule table_is_same [OF _ same_table_release_macid])
  then obtain sp4 where sp4: "free_sta_ap i ?sp3 = Inr sp4" "same_table ?sp3 sp4"
    using same_table_free_ap [of ?sp3 i] i by (auto simp: table_is_def)
  have "table_is (sp_free_sta_queue sp) (map (removeAll i) (sp_sta_hash sp)) (sta_addr sp) sp4"
    using table_is_same [OF t3 sp4(2)] .
  then have "table_is (sp_free_sta_queue sp @ [i]) (map (removeAll i) (sp_sta_hash sp)) (sta_addr sp)
      (sp4\<lparr>sp_free_sta_queue := sp_free_sta_queue sp4 @ [i]\<rparr>)"
    by (simp add: table_is_def sta_addr_def)
  with sp4(1) show ?thesis by (simp add: rtw_free_stainfo_def Let_def)
qed

lemma alloc_spec:
  assumes "sta_wf sp" and "sta_unique sp" and "length hw = 6" and "sta_map sp hw = None" and "sp_free_sta_queue sp = i # q"
  shows "\<exists>sp'. rtw_alloc_stainfo sp hw = Inr (Some i, sp') \<and> sta_wf sp' \<and> sta_unique sp' \<and> sta_map sp' = (sta_map sp)(hw \<mapsto> i) \<and>
    sp_free_sta_queue sp' = q"
proof -
  let ?b = "unat (wifi_mac_hash hw)" and ?A = "(sta_addr sp)(i := hw)"
  let ?H = "(sp_sta_hash sp)[?b := sp_sta_hash sp ! ?b @ [i]]"
  obtain sp' where sp': "rtw_alloc_stainfo sp hw = Inr (Some i, sp')" "table_is q ?H ?A sp'"
    using alloc_table [OF assms(1,3,5)] by blast
  have H: "length (sp_sta_hash sp) = 32" using assms(1) by (simp add: sta_wf_def)
  have m: "mset (concat ?H) = mset (stations sp) + {#i#}"
    using mset_concat_update [of ?b "sp_sta_hash sp" i] H wifi_mac_hash_less [of hw] by (simp add: stations_def)
  have fresh: "i \<notin> set (stations sp)" "i < 32" using sta_wf_indices [OF assms(1)] assms(5) by auto
  have "unat (wifi_mac_hash (?A j)) = b" if "b < 32" "j \<in> set (?H ! b)" for b j
    using that assms(1) H fresh bucket_stations [OF assms(1), of b j] wifi_mac_hash_less [of hw]
    by (auto simp: sta_wf_def nth_list_update split: if_splits)
  then have wf: "sta_wf sp'"
    using sp'(2) assms(1,5) m H by (intro table_is_wf [OF sp'(2)]) (simp_all add: sta_wf_def)
  have st: "set (stations sp') = insert i (set (stations sp))"
  proof -
    have "mset (stations sp') = mset (i # stations sp)" using sp'(2) m by (simp add: table_is_def stations_def)
    then show ?thesis by (metis list.simps(15) mset_eq_setD)
  qed
  have addr: "sta_addr sp' j = ?A j" if "j \<in> set (stations sp')" for j
    using stations_less [OF wf that] sp'(2) by (simp add: table_is_def)
  have inj: "inj_on (sta_addr sp) (set (stations sp))" "hw \<notin> sta_addr sp ` set (stations sp)"
    using assms(2,4) by (auto simp: sta_unique_def distinct_map sta_map_None_iff)
  have "inj_on (sta_addr sp') (set (stations sp'))"
    using inj fresh addr unfolding st inj_on_def by (auto split: if_splits)
  moreover have "distinct (stations sp')" using sta_wf_indices(2) [OF wf] by simp
  ultimately have un: "sta_unique sp'" by (simp add: sta_unique_def distinct_map)
  have "sta_map sp' a = ((sta_map sp)(hw \<mapsto> i)) a" for a
  proof -
    have "sta_map sp' a = Some j \<longleftrightarrow> ((sta_map sp)(hw \<mapsto> i)) a = Some j" for j
    proof (cases "j = i")
      case True
      have "sta_addr sp' i = hw" using addr [of i] st by simp
      then show ?thesis using True fresh(1) by (auto simp: sta_map_Some_iff [OF un] sta_map_Some_iff [OF assms(2)] st)
    next
      case False
      then have "j \<in> set (stations sp) \<Longrightarrow> sta_addr sp' j = sta_addr sp j" using addr [of j] st by simp
      then show ?thesis using False inj(2) by (auto simp: sta_map_Some_iff [OF un] sta_map_Some_iff [OF assms(2)] st)
    qed
    then show ?thesis by (metis not_Some_eq)
  qed
  then have "sta_map sp' = (sta_map sp)(hw \<mapsto> i)" by blast
  then show ?thesis using sp' wf un by (simp add: table_is_def)
qed

lemma free_spec:
  assumes "sta_wf sp" and "sta_unique sp" and "i \<in> set (stations sp)"
  shows "\<exists>sp'. rtw_free_stainfo sp (Some i) = Inr sp' \<and> sta_wf sp' \<and> sta_unique sp' \<and>
    sta_map sp' = (sta_map sp)(sta_addr sp i := None) \<and> sp_free_sta_queue sp' = sp_free_sta_queue sp @ [i]"
proof -
  let ?H = "map (removeAll i) (sp_sta_hash sp)"
  obtain sp' where sp': "rtw_free_stainfo sp (Some i) = Inr sp'" "table_is (sp_free_sta_queue sp @ [i]) ?H (sta_addr sp) sp'"
    using free_table [OF assms(1,3)] by blast
  have H: "length (sp_sta_hash sp) = 32" using assms(1) by (simp add: sta_wf_def)
  have d: "distinct (stations sp)" using sta_wf_indices(2) [OF assms(1)] by simp
  have c: "concat ?H = removeAll i (stations sp)"
    by (simp add: stations_def removeAll_filter_not_eq filter_concat comp_def)
  have "mset (stations sp) = {#i#} + mset (removeAll i (stations sp))"
    using d assms(3) by (simp add: distinct_remove1_removeAll [symmetric])
  then have wf: "sta_wf sp'"
    using sp'(2) assms(1) H c by (intro table_is_wf [OF sp'(2)]) (auto simp: sta_wf_def)
  have st: "stations sp' = removeAll i (stations sp)" using sp'(2) c by (simp add: table_is_def stations_def)
  have addr: "sta_addr sp' j = sta_addr sp j" if "j \<in> set (stations sp')" for j
    using stations_less [OF wf that] sp'(2) by (simp add: table_is_def)
  have inj: "inj_on (sta_addr sp) (set (stations sp))" using assms(2) by (simp add: sta_unique_def distinct_map)
  then have un: "sta_unique sp'"
    using d addr unfolding sta_unique_def distinct_map st by (auto simp: inj_on_def distinct_removeAll)
  have "sta_map sp' a = ((sta_map sp)(sta_addr sp i := None)) a" for a
  proof -
    have "sta_map sp' a = Some j \<longleftrightarrow> ((sta_map sp)(sta_addr sp i := None)) a = Some j" for j
      using addr inj_onD [OF inj, of i j] assms(3)
      by (auto simp: sta_map_Some_iff [OF un] sta_map_Some_iff [OF assms(2)] st)
    then show ?thesis by (metis not_Some_eq)
  qed
  then have "sta_map sp' = (sta_map sp)(sta_addr sp i := None)" by blast
  then show ?thesis using sp' wf un by (simp add: table_is_def)
qed

section \<open>The table as a finite map\<close>

datatype sta_op = Join "byte list" | Leave "byte list"

fun members :: "sta_op list \<Rightarrow> byte list set \<Rightarrow> byte list set" where
  "members [] M = M"
| "members (Join a # ops) M = members ops (insert a M)"
| "members (Leave a # ops) M = members ops (M - {a})"

text \<open>No more than \<open>cap\<close> stations at a time, and addresses that satisfy \<open>ok\<close>.\<close>

fun ops_fit :: "(byte list \<Rightarrow> bool) \<Rightarrow> nat \<Rightarrow> sta_op list \<Rightarrow> byte list set \<Rightarrow> bool" where
  "ops_fit ok cap [] M = True"
| "ops_fit ok cap (Join a # ops) M = (ok a \<and> (a \<in> M \<or> card M < cap) \<and> ops_fit ok cap ops (insert a M))"
| "ops_fit ok cap (Leave a # ops) M = (ok a \<and> ops_fit ok cap ops (M - {a}))"

fun op_step :: "(byte list \<Rightarrow> 's \<Rightarrow> 's) \<Rightarrow> (byte list \<Rightarrow> 's \<Rightarrow> 's) \<Rightarrow> sta_op \<Rightarrow> 's \<Rightarrow> 's" where
  "op_step join leave (Join a) s = join a s"
| "op_step join leave (Leave a) s = leave a s"

locale station_table =
  fixes inv :: "'s \<Rightarrow> bool"
    and ok :: "byte list \<Rightarrow> bool"
    and lookup :: "'s \<Rightarrow> byte list \<Rightarrow> nat option"
    and room :: "'s \<Rightarrow> nat"
    and join :: "byte list \<Rightarrow> 's \<Rightarrow> 's"
    and leave :: "byte list \<Rightarrow> 's \<Rightarrow> 's"
  assumes join_new: "inv s \<Longrightarrow> ok a \<Longrightarrow> lookup s a = None \<Longrightarrow> 0 < room s \<Longrightarrow>
      \<exists>i. i \<notin> ran (lookup s) \<and> lookup (join a s) = (lookup s)(a \<mapsto> i) \<and> room (join a s) = room s - 1 \<and> inv (join a s)"
    and join_known: "inv s \<Longrightarrow> ok a \<Longrightarrow> lookup s a \<noteq> None \<Longrightarrow> join a s = s"
    and leave_known: "inv s \<Longrightarrow> ok a \<Longrightarrow> lookup s a \<noteq> None \<Longrightarrow>
      lookup (leave a s) = (lookup s)(a := None) \<and> room (leave a s) = room s + 1 \<and> inv (leave a s)"
    and leave_unknown: "inv s \<Longrightarrow> ok a \<Longrightarrow> lookup s a = None \<Longrightarrow> leave a s = s"
begin

lemma run_members:
  assumes "inv s" and "finite (dom (lookup s))" and "room s + card (dom (lookup s)) = cap"
    and "inj_on (lookup s) (dom (lookup s))" and "ops_fit ok cap ops (dom (lookup s))"
  shows "inv (fold (op_step join leave) ops s) \<and> dom (lookup (fold (op_step join leave) ops s)) = members ops (dom (lookup s)) \<and>
    inj_on (lookup (fold (op_step join leave) ops s)) (dom (lookup (fold (op_step join leave) ops s)))"
  using assms
proof (induction ops arbitrary: s)
  case (Cons op ops)
  have via: ?case
    if "op_step join leave op s = s'" "members (op # ops) (dom (lookup s)) = members ops (dom (lookup s'))" "inv s'"
      "finite (dom (lookup s'))" "room s' + card (dom (lookup s')) = cap" "inj_on (lookup s') (dom (lookup s'))"
      "ops_fit ok cap ops (dom (lookup s'))" for s'
    unfolding fold_simps that(1,2) by (rule Cons.IH [OF that(3-7)])
  show ?case
  proof (cases op)
    case (Join a)
    show ?thesis
    proof (cases "lookup s a")
      case None
      then have fit: "ok a" "0 < room s" "ops_fit ok cap ops (insert a (dom (lookup s)))"
        using Cons.prems(3,5) Join by auto
      obtain i where i: "i \<notin> ran (lookup s)" "lookup (join a s) = (lookup s)(a \<mapsto> i)" "room (join a s) = room s - 1" "inv (join a s)"
        using join_new [OF Cons.prems(1) fit(1) None fit(2)] by blast
      have d: "dom (lookup (join a s)) = insert a (dom (lookup s))" by (simp add: i(2))
      have "inj_on (lookup (join a s)) (dom (lookup (join a s)))"
        using Cons.prems(4) i(1) None unfolding d i(2) inj_on_def by (auto simp: ran_def dom_def)
      moreover have "room (join a s) + card (dom (lookup (join a s))) = cap"
        using Cons.prems(2,3) fit(2) i(3) None unfolding d by (auto simp: card_insert_if)
      ultimately show ?thesis using i(4) d fit(3) Cons.prems(2) Join by (intro via [of "join a s"]) simp_all
    next
      case (Some i)
      then show ?thesis
        using Cons.prems Join join_known [of s a] by (intro via [of s]) (simp_all add: insert_absorb domI)
    qed
  next
    case (Leave a)
    have fit: "ok a" "ops_fit ok cap ops (dom (lookup s) - {a})" using Cons.prems(5) Leave by auto
    show ?thesis
    proof (cases "lookup s a")
      case None
      then have "dom (lookup s) - {a} = dom (lookup s)" by auto
      then show ?thesis
        using Cons.prems fit Leave leave_unknown [OF Cons.prems(1) fit(1) None] by (intro via [of s]) simp_all
    next
      case (Some i)
      then have l: "lookup (leave a s) = (lookup s)(a := None)" "room (leave a s) = room s + 1" "inv (leave a s)"
        using leave_known [OF Cons.prems(1) fit(1)] by auto
      have d: "dom (lookup (leave a s)) = dom (lookup s) - {a}" by (simp add: l(1))
      have "inj_on (lookup (leave a s)) (dom (lookup (leave a s)))"
        using Cons.prems(4) unfolding d l(1) inj_on_def by auto
      moreover have "card (dom (lookup s)) = Suc (card (dom (lookup s) - {a}))"
        using Some Cons.prems(2) by (intro card.remove) auto
      then have "room (leave a s) + card (dom (lookup (leave a s))) = cap"
        using Cons.prems(3) l(2) unfolding d by simp
      ultimately show ?thesis using l(3) d fit(2) Cons.prems(2) Leave by (intro via [of "leave a s"]) simp_all
    qed
  qed
qed simp

end

text \<open>A client looks a station up and allocates it when it is not there, or frees the one it finds.\<close>

definition sta_join :: "byte list \<Rightarrow> sta_priv \<Rightarrow> sta_priv" where
  "sta_join a sp =
     (case rtw_get_stainfo sp (Some a) of
        Inr None \<Rightarrow> (case rtw_alloc_stainfo sp a of Inr (_, sp') \<Rightarrow> sp' | Inl _ \<Rightarrow> sp)
      | _ \<Rightarrow> sp)"

definition sta_leave :: "byte list \<Rightarrow> sta_priv \<Rightarrow> sta_priv" where
  "sta_leave a sp =
     (case rtw_get_stainfo sp (Some a) of
        Inr (Some i) \<Rightarrow> (case rtw_free_stainfo sp (Some i) of Inr sp' \<Rightarrow> sp' | Inl _ \<Rightarrow> sp)
      | _ \<Rightarrow> sp)"

definition sta_ok :: "byte list \<Rightarrow> bool" where
  "sta_ok a \<longleftrightarrow> length a = 6 \<and> sta_key a = a"

interpretation sta_tab: station_table
  "\<lambda>sp. sta_wf sp \<and> sta_unique sp" sta_ok sta_map "\<lambda>sp. length (sp_free_sta_queue sp)" sta_join sta_leave
proof unfold_locales
  fix sp a
  assume sp: "sta_wf sp \<and> sta_unique sp" and ok: "sta_ok a"
  have get: "rtw_get_stainfo sp (Some a) = Inr (sta_map sp a)" using get_stainfo_map [of sp a] sp ok by (simp add: sta_ok_def)
  show "sta_map sp a \<noteq> None \<Longrightarrow> sta_join a sp = sp" "sta_map sp a = None \<Longrightarrow> sta_leave a sp = sp"
    using get by (auto simp: sta_join_def sta_leave_def)
  show "\<exists>i. i \<notin> ran (sta_map sp) \<and> sta_map (sta_join a sp) = (sta_map sp)(a \<mapsto> i) \<and>
      length (sp_free_sta_queue (sta_join a sp)) = length (sp_free_sta_queue sp) - 1 \<and>
      sta_wf (sta_join a sp) \<and> sta_unique (sta_join a sp)"
    if none: "sta_map sp a = None" and room: "0 < length (sp_free_sta_queue sp)"
  proof -
    obtain i q where q: "sp_free_sta_queue sp = i # q" using room by (cases "sp_free_sta_queue sp") auto
    obtain sp' where sp': "rtw_alloc_stainfo sp a = Inr (Some i, sp')" "sta_wf sp'" "sta_unique sp'"
        "sta_map sp' = (sta_map sp)(a \<mapsto> i)" "sp_free_sta_queue sp' = q"
      using alloc_spec [of sp a i q] sp ok none q by (auto simp: sta_ok_def)
    have "i \<notin> ran (sta_map sp)"
      using sta_wf_indices(2) [of sp] sp q by (auto simp: ran_def sta_map_Some_iff)
    then show ?thesis using sp' get none q by (auto simp: sta_join_def)
  qed
  show "sta_map (sta_leave a sp) = (sta_map sp)(a := None) \<and>
      length (sp_free_sta_queue (sta_leave a sp)) = length (sp_free_sta_queue sp) + 1 \<and>
      sta_wf (sta_leave a sp) \<and> sta_unique (sta_leave a sp)"
    if some: "sta_map sp a \<noteq> None"
  proof -
    obtain i where i: "sta_map sp a = Some i" using some by blast
    then have "i \<in> set (stations sp)" "sta_addr sp i = a" using sp by (simp_all add: sta_map_Some_iff)
    then show ?thesis using free_spec [of sp i] sp get i by (auto simp: sta_leave_def)
  qed
qed

section \<open>Properties\<close>

lemma init_table:
  assumes "rtw_init_sta_priv True mac = (SUCCESS, Some sp)"
  shows "sta_wf sp" and "sta_unique sp" and "sta_map sp = Map.empty" and "length (sp_free_sta_queue sp) = 32"
proof -
  have sp: "sp_sta_hash sp = replicate 32 []" "sp_free_sta_queue sp = [0..<32]" "sp_stainfo sp = replicate 32 init_stainfo"
    "sp_sta_aid sp = replicate 32 None" "length (sp_macid sp) = 32" "\<not> sp_sta_hash_lock sp" "sp_asoc_sta_count sp = 0"
    using assms by (auto simp: rtw_init_sta_priv_def NUM_STA_def)
  then have st: "stations sp = []" by (simp add: stations_def)
  have aid: "si_aid init_stainfo = 0" by (simp add: init_stainfo_def)
  show "sta_wf sp" using sp by (simp add: sta_wf_def st aid)
  show "sta_unique sp" "sta_map sp = Map.empty" by (simp_all add: sta_unique_def sta_map_def st)
  show "length (sp_free_sta_queue sp) = 32" using sp by simp
qed

text \<open>
  C23 (refinement): from the initialized table, after any sequence of joins and departures
  with at most 32 stations at a time, the invariant holds, exactly the
  members are found, and different members are different stations.
\<close>

theorem sta_table_is_map:
  assumes "rtw_init_sta_priv True mac = (SUCCESS, Some sp)" and "ops_fit sta_ok 32 ops {}"
  defines "sp' \<equiv> fold (op_step sta_join sta_leave) ops sp"
  shows "sta_wf sp' \<and>
    (\<forall>a. sta_ok a \<longrightarrow> ((\<exists>i. rtw_get_stainfo sp' (Some a) = Inr (Some i)) \<longleftrightarrow> a \<in> members ops {}) \<and>
       (a \<notin> members ops {} \<longrightarrow> rtw_get_stainfo sp' (Some a) = Inr None)) \<and>
    (\<forall>a b i. sta_ok a \<and> sta_ok b \<and> rtw_get_stainfo sp' (Some a) = Inr (Some i) \<and> rtw_get_stainfo sp' (Some b) = Inr (Some i) \<longrightarrow> a = b)"
proof -
  note init = init_table [OF assms(1)]
  have run: "(sta_wf sp' \<and> sta_unique sp') \<and> dom (sta_map sp') = members ops {} \<and> inj_on (sta_map sp') (dom (sta_map sp'))"
  proof -
    have "dom (sta_map sp) = {}" using init(3) by simp
    then show ?thesis
      unfolding sp'_def using sta_tab.run_members [of sp 32 ops] init(1,2,4) assms(2)
      by (metis add.right_neutral card.empty finite.emptyI inj_on_empty)
  qed
  have get: "rtw_get_stainfo sp' (Some a) = Inr (sta_map sp' a)" if "sta_ok a" for a
    using get_stainfo_map [of sp' a] run that by (simp add: sta_ok_def)
  have eq: "a = b" if "sta_map sp' a = Some i" "sta_map sp' b = Some i" for a b i
    using run that by (metis domI inj_onD)
  have mem: "a \<in> members ops {} \<longleftrightarrow> (\<exists>i. sta_map sp' a = Some i)" for a using run by blast
  show ?thesis using run get eq mem by (metis not_Some_eq sum.inject(2))
qed

theorem sta_table_is_map_witness:
  "let sp' = fold (op_step sta_join sta_leave) [Join [0, 1, 2, 3, 4, 5], Join [0, 1, 2, 3, 4, 6], Leave [0, 1, 2, 3, 4, 5]]
       (the (snd (rtw_init_sta_priv True [0, 0, 0, 0, 0, 9])))
   in (\<exists>i. rtw_get_stainfo sp' (Some [0, 1, 2, 3, 4, 6]) = Inr (Some i)) \<and> rtw_get_stainfo sp' (Some [0, 1, 2, 3, 4, 5]) = Inr None"
proof -
  let ?ops = "[Join [0, 1, 2, 3, 4, 5], Join [0, 1, 2, 3, 4, 6], Leave [0, 1, 2, 3, 4, 5]]"
  have ok: "sta_ok [0, 1, 2, 3, 4, 5]" "sta_ok [0, 1, 2, 3, 4, 6]"
    by (simp_all add: sta_ok_def sta_key_def is_multicast_ether_addr_def)
  have mem: "members ?ops {} = {[0, 1, 2, 3, 4, 6]}" by auto
  have fit: "ops_fit sta_ok 32 ?ops {}" using ok by simp
  have init: "rtw_init_sta_priv True [0, 0, 0, 0, 0, 9] =
      (SUCCESS, Some (the (snd (rtw_init_sta_priv True [0, 0, 0, 0, 0, 9]))))" by (simp add: rtw_init_sta_priv_def)
  have "(0 :: byte) \<noteq> 1" "(5 :: byte) \<noteq> 6" by simp_all
  then show ?thesis using sta_table_is_map [OF init fit] ok unfolding mem Let_def by blast
qed

text \<open>
  Error: when every station is in use \<open>rtw_alloc_stainfo\<close> releases
  \<open>sta_hash_lock\<close> twice.
\<close>

theorem alloc_stainfo_double_unlock:
  assumes "sp_free_sta_queue sp = []" and "\<not> sp_sta_hash_lock sp"
  shows "rtw_alloc_stainfo sp hwaddr = Inl DOUBLE_UNLOCK"
  using assms by (simp add: rtw_alloc_stainfo_def spin_lock_bh_def spin_unlock_bh_def)

theorem alloc_stainfo_double_unlock_witness:
  "rtw_alloc_stainfo ((the (snd (rtw_init_sta_priv True [0, 0, 0, 0, 0, 9])))\<lparr>sp_free_sta_queue := []\<rparr>) [0, 1, 2, 3, 4, 5] = Inl DOUBLE_UNLOCK"
  by (rule alloc_stainfo_double_unlock) (simp_all add: rtw_init_sta_priv_def)

end
