(* ===== verification/Defrag.thy ===== *)
theory Defrag
  imports Recvframe Michael Sta_Mgt
begin

text \<open>
  Defragmentation of received frames: \<open>recvframe_chk_defrag\<close>, \<open>recvframe_defrag\<close> and the
  check of the Michael code after it, \<open>recvframe_chkmic\<close> (src/core/rtw_recv.c), with the
  TKIP countermeasures \<open>rtw_handle_tkip_mic_err\<close> (src/os_dep/recv_linux.c).

  Shown: the fragments of a frame that arrive in order are put together to the
  concatenation of their payloads; any other numbering is dropped and its frames go back to
  the pool; every frame is always in one queue or with the caller; a unicast TKIP frame is
  accepted exactly when its last eight bytes are the Michael code; a multicast one
  is checked with an uninitialised key.
\<close>

section \<open>State\<close>

text \<open>
  The fields of \<open>struct security_priv\<close> besides those of the ciphers, and what the receive
  path reads from outside: the station table, the key index of \<open>mlme_ext_info\<close>, the clock
  and its rate.
\<close>

record rx_security = security_priv +
  bcheck_grpkey :: bool
  last_mic_err_time :: u32
  btkip_countermeasure :: bool
  btkip_countermeasure_time :: u32

record defrag_env =
  en_stapriv :: sta_priv
  en_key_index :: byte
  en_jiffies :: u32
  en_HZ :: u32

record defrag_state =
  ds_pool :: recv_priv
  ds_sec :: rx_security
  ds_mic_events :: "bool list"

definition upd_pool :: "(recv_priv \<Rightarrow> recv_priv) \<Rightarrow> defrag_state \<Rightarrow> defrag_state" where
  "upd_pool g st = st\<lparr>ds_pool := g (ds_pool st)\<rparr>"

section \<open>The check of the Michael code\<close>

text \<open>The event sent to user space is recorded with its group flag.\<close>

definition rtw_handle_tkip_mic_err :: "defrag_env \<Rightarrow> bool \<Rightarrow> defrag_state \<Rightarrow> defrag_state" where
  "rtw_handle_tkip_mic_err en bgroup st =
     (let sec = ds_sec st;
          sec = (if last_mic_err_time sec = 0 then sec\<lparr>last_mic_err_time := en_jiffies en\<rparr>
                 else if en_jiffies en - last_mic_err_time sec < 60 * en_HZ en
                 then sec\<lparr>btkip_countermeasure := True, last_mic_err_time := 0, btkip_countermeasure_time := en_jiffies en\<rparr>
                 else sec\<lparr>last_mic_err_time := en_jiffies en\<rparr>)
      in st\<lparr>ds_sec := sec, ds_mic_events := ds_mic_events st @ [bgroup]\<rparr>)"

text \<open>
  \<open>mickey\<close> is not initialised for a multicast frame; using it is undefined behaviour.
  \<open>junk\<close> is the uninitialised \<open>micdata\<close> of \<open>rtw_seccalctkipmic\<close>.
\<close>

definition recvframe_chkmic :: "defrag_env \<Rightarrow> mic_data \<Rightarrow> nat \<Rightarrow> defrag_state \<Rightarrow> (status \<times> defrag_state) option" where
  "recvframe_chkmic en junk i st =
     (let f = rp_frames (ds_pool st) ! i;
          a = rxf_attrib f;
          mc = is_multicast_ether_addr (rx_ra a);
          pulled = upd_pool (upd_frame i (\<lambda>f. snd (recvframe_pull_tail 8 f)))
      in case rtw_get_stainfo (en_stapriv en) (Some (rx_ta a)) of
           Inl _ \<Rightarrow> None
         | Inr stainfo \<Rightarrow>
             if rx_encrypt a = TKIP_ENCRYPTION then
               (case stainfo of
                  None \<Rightarrow> Some (SUCCESS, pulled st)
                | Some k \<Rightarrow>
                    if mc \<and> \<not> binstallGrpkey (ds_sec st) then Some (FAIL, st)
                    else do {
                      mickey \<leftarrow> (if mc then None else Some (rs_tkiprxmickey (rp_stas (ds_pool st) ! k)));
                      let datalen = rxf_len f - ucast (rx_hdrlen a) - ucast (rx_iv_len a) - ucast (rx_icv_len a) - 8;
                      let payload = rxf_data f + uint (rx_hdrlen a) + uint (rx_iv_len a);
                      miccode \<leftarrow> rtw_seccalctkipmic junk mickey (drop (nat (rxf_data f)) (rxf_buf f))
                        (drop (nat payload) (rxf_buf f)) datalen (rx_priority a);
                      framemic \<leftarrow> rd_bytes (rxf_buf f) (payload + uint datalen) 8;
                      Some (if miccode \<noteq> framemic
                        then (FAIL, pulled
                               (if rx_bdecrypted a = 1 \<and> \<not> (mc \<and> rx_key_index a \<noteq> en_key_index en)
                                then rtw_handle_tkip_mic_err en mc st else st))
                        else (SUCCESS, pulled
                               (if \<not> bcheck_grpkey (ds_sec st) \<and> mc
                                then st\<lparr>ds_sec := (ds_sec st)\<lparr>bcheck_grpkey := True\<rparr>\<rparr> else st)))
                    })
             else Some (SUCCESS, st))"

section \<open>Defragmentation\<close>

text \<open>One turn of the loop of \<open>recvframe_defrag\<close>: the payload of \<open>n\<close> is appended to \<open>p\<close>.\<close>

definition defrag_append :: "rx_frame \<Rightarrow> rx_frame \<Rightarrow> (rx_frame \<times> rx_frame) option" where
  "defrag_append p n = do {
     let wlanhdr_offset = rx_hdrlen (rxf_attrib n) + rx_iv_len (rxf_attrib n);
     let n = snd (recvframe_pull (uint wlanhdr_offset) n);
     let p = snd (recvframe_pull_tail (uint (rx_icv_len (rxf_attrib p))) p);
     s \<leftarrow> rd_bytes (rxf_buf n) (rxf_data n) (uint (rxf_len n));
     m \<leftarrow> wr_bytes (rxf_buf p) (rxf_tail p) s;
     let p = snd (recvframe_put (sint (rxf_len n)) (p\<lparr>rxf_buf := m\<rparr>));
     Some (p\<lparr>rxf_attrib := (rxf_attrib p)\<lparr>rx_icv_len := rx_icv_len (rxf_attrib n)\<rparr>\<rparr>, n)
   }"

fun defrag_loop :: "nat \<Rightarrow> nat list \<Rightarrow> byte \<Rightarrow> recv_priv \<Rightarrow> (bool \<times> recv_priv) option" where
  "defrag_loop p [] curfragnum s = Some (True, s)"
| "defrag_loop p (n # ns) curfragnum s =
     (if curfragnum \<noteq> rx_frag_num (rxf_attrib (rp_frames s ! n)) then Some (False, s)
      else do {
        (fp, fn) \<leftarrow> defrag_append (rp_frames s ! p) (rp_frames s ! n);
        defrag_loop p ns (curfragnum + 1) (upd_frame p (\<lambda>_. fp) (upd_frame n (\<lambda>_. fn) s))
      })"

definition recvframe_defrag :: "nat \<Rightarrow> recv_priv \<Rightarrow> (nat option \<times> recv_priv) option" where
  "recvframe_defrag k s =
     (case queue_of (DefragQ k) s of
        [] \<Rightarrow> None
      | p # ns \<Rightarrow>
          let s = list_del_init p s
          in if 0 \<noteq> rx_frag_num (rxf_attrib (rp_frames s ! p))
             then Some (None, rtw_free_recvframe_queue (DefragQ k) FreeQ (rtw_free_recvframe p FreeQ s))
             else do {
               (complete, s) \<leftarrow> defrag_loop p ns 1 s;
               Some (if complete then (Some p, rtw_free_recvframe_queue (DefragQ k) FreeQ s)
                     else (None, rtw_free_recvframe_queue (DefragQ k) FreeQ (rtw_free_recvframe p FreeQ s)))
             })"

definition WIFI_DATA_TYPE :: u16 where "WIFI_DATA_TYPE = 8"

definition rx_frame_type :: "byte list \<Rightarrow> int \<Rightarrow> u16 option" where
  "rx_frame_type buf off = do {
     b \<leftarrow> rd_bytes buf off 2;
     Some (le16_of (b ! 0) (b ! 1) AND 0xC)
   }"

text \<open>
  The queue of the transmitter: the inner option is the NULL of \<open>pdefrag_q\<close>.  Without a
  broadcast station the address of its queue is computed from NULL.
\<close>

definition pdefrag_q :: "defrag_env \<Rightarrow> rx_frame \<Rightarrow> nat option option" where
  "pdefrag_q en f =
     (case rtw_get_stainfo (en_stapriv en) (Some (rx_ta (rxf_attrib f))) of
        Inl _ \<Rightarrow> None
      | Inr (Some k) \<Rightarrow> Some (Some k)
      | Inr None \<Rightarrow> do {
          type \<leftarrow> rx_frame_type (rxf_buf f) (rxf_data f);
          if type \<noteq> WIFI_DATA_TYPE
          then (case rtw_get_bcmc_stainfo (en_stapriv en) of Inr (Some k) \<Rightarrow> Some (Some k) | _ \<Rightarrow> None)
          else Some None
        })"

definition enqueue_frag :: "nat option \<Rightarrow> nat \<Rightarrow> byte \<Rightarrow> byte \<Rightarrow> recv_priv \<Rightarrow> (nat option \<times> recv_priv) option" where
  "enqueue_frag q i ismfrag fragnum s =
     (if ismfrag = 1 then
        (case q of
           Some k \<Rightarrow>
             let s = (if fragnum = 0 \<and> queue_of (DefragQ k) s \<noteq> [] then rtw_free_recvframe_queue (DefragQ k) FreeQ s else s)
             in Some (None, list_add_tail i (DefragQ k) s)
         | None \<Rightarrow> Some (None, rtw_free_recvframe i FreeQ s))
      else if ismfrag = 0 \<and> fragnum \<noteq> 0 then
        (case q of
           Some k \<Rightarrow> recvframe_defrag k (list_add_tail i (DefragQ k) s)
         | None \<Rightarrow> Some (None, rtw_free_recvframe i FreeQ s))
      else Some (if ismfrag = 0 then Some i else None, s))"

definition recvframe_chk_defrag :: "defrag_env \<Rightarrow> mic_data \<Rightarrow> nat \<Rightarrow> defrag_state \<Rightarrow> (nat option \<times> defrag_state) option" where
  "recvframe_chk_defrag en junk i st = do {
     let f = rp_frames (ds_pool st) ! i;
     q \<leftarrow> pdefrag_q en f;
     (r, s) \<leftarrow> enqueue_frag q i (rx_mfrag (rxf_attrib f)) (rx_frag_num (rxf_attrib f)) (ds_pool st);
     let st = st\<lparr>ds_pool := s\<rparr>;
     (case r of
        None \<Rightarrow> Some (None, st)
      | Some j \<Rightarrow>
          if rx_privacy (rxf_attrib (rp_frames s ! j)) \<noteq> 0 then do {
            (res, st) \<leftarrow> recvframe_chkmic en junk j st;
            Some (if res = FAIL then (None, upd_pool (rtw_free_recvframe j FreeQ) st) else (Some j, st))
          } else Some (Some j, st))
   }"

section \<open>Appending a fragment\<close>

lemma recvframe_put_bytes:
  assumes "frame_ok p" and "rxf_tail p + int (length xs) \<le> rxf_end p"
  defines "q \<equiv> snd (recvframe_put (int (length xs)) (p\<lparr>rxf_buf := overlay (rxf_buf p) (nat (rxf_tail p)) xs\<rparr>))"
  shows "frame_ok q" "frame_bytes q = frame_bytes p @ xs" "rxf_attrib q = rxf_attrib p" "rxf_end q = rxf_end p"
    "rxf_tail q = rxf_tail p + int (length xs)" "rxf_data q = rxf_data p" "rxf_skb q = rxf_skb p"
proof -
  let ?t = "nat (rxf_tail p)" and ?d = "nat (rxf_data p)"
  have t: "?d \<le> ?t" "?t + length xs \<le> length (rxf_buf p)" "nat (rxf_tail p + int (length xs)) = ?t + length xs"
    using assms(1,2) by (auto simp: frame_ok_def nat_add_distrib)
  have q: "q = p\<lparr>rxf_buf := overlay (rxf_buf p) ?t xs, rxf_tail := rxf_tail p + int (length xs),
      rxf_len := rxf_len p + word_of_int (int (length xs))\<rparr>"
    using assms(2) by (simp add: q_def recvframe_put_def Let_def)
  show "frame_ok q" "rxf_attrib q = rxf_attrib p" "rxf_end q = rxf_end p"
    "rxf_tail q = rxf_tail p + int (length xs)" "rxf_data q = rxf_data p" "rxf_skb q = rxf_skb p"
    using assms(1,2) t by (auto simp: q frame_ok_def length_overlay algebra_simps)
  have "frame_bytes q = drop ?d (take (?t + length xs) (overlay (rxf_buf p) ?t xs))"
    using assms(1,2) t by (simp add: q frame_bytes_def drop_take frame_ok_def nat_diff_distrib)
  also have "\<dots> = drop ?d (take ?t (rxf_buf p) @ xs)" using t(2) by (simp only: take_overlay_end)
  also have "\<dots> = frame_bytes p @ xs"
    using assms(1) t by (simp add: frame_bytes_def drop_take frame_ok_def nat_diff_distrib)
  finally show "frame_bytes q = frame_bytes p @ xs" .
qed

lemma defrag_append_ok:
  assumes p: "frame_ok p" "icv_size p \<le> length (frame_bytes p)" and n: "frag_ok n"
    and fit: "rxf_tail p + int (length (frag_body n)) \<le> rxf_end p + int (icv_size p)"
  shows "\<exists>p' n'. defrag_append p n = Some (p', n') \<and> frame_ok p' \<and>
    frame_bytes p' = strip_icv (icv_size p) (frame_bytes p) @ frag_body n \<and>
    rxf_attrib p' = (rxf_attrib p)\<lparr>rx_icv_len := rx_icv_len (rxf_attrib n)\<rparr> \<and> rxf_end p' = rxf_end p \<and>
    rxf_tail p' = rxf_tail p - int (icv_size p) + int (length (frag_body n)) \<and> rxf_skb p' = rxf_skb p"
proof -
  let ?n = "snd (recvframe_pull (int (hdr_size n)) n)" and ?p = "snd (recvframe_pull_tail (int (icv_size p)) p)"
  have "frame_ok n" "int (hdr_size n) \<le> rxf_tail n - rxf_data n"
    using n int_length_frame_bytes [of n] by (auto simp: frag_ok_def)
  then have n': "frame_ok ?n" "frame_bytes ?n = frag_body n"
    by (simp_all add: frame_ok_ops frame_bytes_pull frag_body_def)
  have ip: "int (icv_size p) \<le> rxf_tail p - rxf_data p" using p int_length_frame_bytes [of p] by linarith
  then have p': "frame_ok ?p" "frame_bytes ?p = strip_icv (icv_size p) (frame_bytes p)"
    "rxf_tail ?p = rxf_tail p - int (icv_size p)" "rxf_attrib ?p = rxf_attrib p" "rxf_end ?p = rxf_end p" "rxf_skb ?p = rxf_skb p"
    using p frame_bytes_pull_tail [of p "int (icv_size p)"] frame_ok_ops(4) [of p "int (icv_size p)"]
    by (simp_all add: recvframe_pull_ok strip_icv_def)
  have off: "uint (rx_hdrlen (rxf_attrib n) + rx_iv_len (rxf_attrib n)) = int (hdr_size n)"
    using n unat_add_lem [of "rx_hdrlen (rxf_attrib n)" "rx_iv_len (rxf_attrib n)"]
    by (simp only: frag_ok_def hdr_size_def uint_nat) simp
  have fit': "rxf_tail ?p + int (length (frag_body n)) \<le> rxf_end ?p" using fit p' by simp
  then have wr: "wr_bytes (rxf_buf ?p) (rxf_tail ?p) (frag_body n) = Some (overlay (rxf_buf ?p) (nat (rxf_tail ?p)) (frag_body n))"
    using p'(1) by (simp add: wr_bytes_def in_buf_def frame_ok_def)
  have "uint (rxf_len ?n) = int (length (frag_body n))"
    using uint_rxf_len [OF n'(1)] length_frame_bytes [OF n'(1)] n' by (simp add: frame_ok_def)
  moreover from this have "sint (rxf_len ?n) = int (length (frag_body n))"
    using p'(1) fit' by (simp add: sint_uint signed_take_bit_int_eq_self frame_ok_def)
  moreover note recvframe_put_bytes [OF p'(1) fit']
  moreover have "rxf_attrib ?n = rxf_attrib n" by (simp add: recvframe_pull_def Let_def)
  moreover have "frame_ok (q\<lparr>rxf_attrib := a\<rparr>) = frame_ok q" "frame_bytes (q\<lparr>rxf_attrib := a\<rparr>) = frame_bytes q" for q a
    by (simp_all add: frame_ok_def frame_bytes_def)
  moreover have "uint (rx_icv_len (rxf_attrib p)) = int (icv_size p)" by (simp add: icv_size_def)
  ultimately show ?thesis
    using frame_bytes_buf [OF n'(1)] wr p' n' off unfolding defrag_append_def Let_def by simp
qed

section \<open>The loop over the fragments\<close>

fun numbered :: "byte \<Rightarrow> rx_frame list \<Rightarrow> bool" where
  "numbered c [] \<longleftrightarrow> True"
| "numbered c (f # fs) \<longleftrightarrow> c = rx_frag_num (rxf_attrib f) \<and> numbered (c + 1) fs"

abbreviation frames_of :: "recv_priv \<Rightarrow> nat list \<Rightarrow> rx_frame list" where
  "frames_of s js \<equiv> map (\<lambda>j. rp_frames s ! j) js"

text \<open>Nothing but the frames \<open>xs\<close> differs.\<close>

definition only_frames :: "nat set \<Rightarrow> recv_priv \<Rightarrow> recv_priv \<Rightarrow> bool" where
  "only_frames X s s' \<longleftrightarrow> s' = s\<lparr>rp_frames := rp_frames s'\<rparr> \<and> length (rp_frames s') = length (rp_frames s) \<and>
     (\<forall>j. j \<notin> X \<longrightarrow> rp_frames s' ! j = rp_frames s ! j)"

lemma only_frames_refl [simp]: "only_frames X s s"
  by (simp add: only_frames_def)

lemma only_frames_queues:
  assumes "only_frames X s s'"
  shows "rp_free_recv_queue s' = rp_free_recv_queue s" "rp_uc_swdec_pending_queue s' = rp_uc_swdec_pending_queue s"
    "rp_stas s' = rp_stas s" "rp_free_recvframe_cnt s' = rp_free_recvframe_cnt s" "queues s' = queues s" "queue_of q s' = queue_of q s"
    "pool_inv s' = pool_inv s" "held s' = held s"
proof -
  from assms have e: "s' = s\<lparr>rp_frames := rp_frames s'\<rparr>" and l: "length (rp_frames s') = length (rp_frames s)"
    by (simp_all add: only_frames_def)
  show f: "rp_free_recv_queue s' = rp_free_recv_queue s" "rp_uc_swdec_pending_queue s' = rp_uc_swdec_pending_queue s"
    "rp_stas s' = rp_stas s" "rp_free_recvframe_cnt s' = rp_free_recvframe_cnt s"
    by (subst e, simp)+
  then show q: "queues s' = queues s" by (simp add: queues_def)
  show "queue_of q s' = queue_of q s" by (cases q) (simp_all add: f)
  show "pool_inv s' = pool_inv s" "held s' = held s" by (simp_all add: pool_inv_def held_def q l f)
qed

lemma only_frames_trans:
  assumes "only_frames X s t" and "only_frames Y t u" and "X \<subseteq> Z" and "Y \<subseteq> Z"
  shows "only_frames Z s u"
proof -
  have "u = t\<lparr>rp_frames := rp_frames u\<rparr>" "t = s\<lparr>rp_frames := rp_frames t\<rparr>" using assms by (simp_all add: only_frames_def)
  then have "u = s\<lparr>rp_frames := rp_frames u\<rparr>" by (metis recv_priv.surjective recv_priv.update_convs(1))
  moreover have "rp_frames u ! j = rp_frames s ! j" if "j \<notin> Z" for j
    using that assms unfolding only_frames_def by (metis subsetD)
  ultimately show ?thesis using assms by (simp add: only_frames_def)
qed

lemma strip_icv_append: "c \<le> length b \<Longrightarrow> strip_icv c (a @ b) = a @ strip_icv c b"
  by (simp add: strip_icv_def)

lemma defrag_loop_spec:
  assumes "p \<notin> set ns" and "distinct ns" and "p < length (rp_frames s)" and "set ns \<subseteq> {..<length (rp_frames s)}"
    and "frame_ok (rp_frames s ! p)" and "icv_size (rp_frames s ! p) \<le> length (frame_bytes (rp_frames s ! p))"
    and "\<forall>n\<in>set ns. frag_ok (rp_frames s ! n)"
    and "rxf_tail (rp_frames s ! p) + int (length (concat (map frag_body (frames_of s ns)))) \<le> rxf_end (rp_frames s ! p)"
  shows "\<exists>s'. defrag_loop p ns c s = Some (numbered c (frames_of s ns), s') \<and> only_frames (insert p (set ns)) s s' \<and>
    (numbered c (frames_of s ns) \<longrightarrow>
      frame_ok (rp_frames s' ! p) \<and> icv_size (rp_frames s' ! p) \<le> length (frame_bytes (rp_frames s' ! p)) \<and>
      strip_icv (icv_size (rp_frames s' ! p)) (frame_bytes (rp_frames s' ! p)) =
        strip_icv (icv_size (rp_frames s ! p)) (frame_bytes (rp_frames s ! p)) @ concat (map frag_payload (frames_of s ns)) \<and>
      rxf_attrib (rp_frames s' ! p) =
        (rxf_attrib (rp_frames s ! p))\<lparr>rx_icv_len := rx_icv_len (rxf_attrib (last (rp_frames s ! p # frames_of s ns)))\<rparr>)"
  using assms
proof (induction ns arbitrary: c s)
  case (Cons n ns)
  let ?P = "rp_frames s ! p" and ?N = "rp_frames s ! n"
  show ?case
  proof (cases "c = rx_frag_num (rxf_attrib ?N)")
    case c: True
    have n: "frag_ok ?N" using Cons.prems by simp
    have "rxf_tail ?P + int (length (frag_body ?N)) \<le> rxf_end ?P + int (icv_size ?P)"
      using Cons.prems(8) by simp
    from defrag_append_ok [OF Cons.prems(5,6) n this] obtain p' n' where
      app: "defrag_append ?P ?N = Some (p', n')" and p': "frame_ok p'"
      "frame_bytes p' = strip_icv (icv_size ?P) (frame_bytes ?P) @ frag_body ?N"
      "rxf_attrib p' = (rxf_attrib ?P)\<lparr>rx_icv_len := rx_icv_len (rxf_attrib ?N)\<rparr>" "rxf_end p' = rxf_end ?P"
      "rxf_tail p' = rxf_tail ?P - int (icv_size ?P) + int (length (frag_body ?N))" by blast
    define t where "t = upd_frame p (\<lambda>_. p') (upd_frame n (\<lambda>_. n') s)"
    have pn: "p \<noteq> n" using Cons.prems(1) by auto
    have t: "only_frames {p, n} s t" "rp_frames t ! p = p'"
      using Cons.prems(1,3) pn by (auto simp: t_def upd_frame_def only_frames_def nth_list_update)
    have same: "rp_frames t ! j = rp_frames s ! j" if "j \<in> set ns" for j
      using t(1) that Cons.prems(1,2) by (auto simp: only_frames_def)
    then have fr: "frames_of t ns = frames_of s ns" by simp
    have icv: "icv_size p' = icv_size ?N" "icv_size ?N \<le> length (frag_body ?N)"
      using n by (auto simp: icv_size_def p' frag_ok_def frag_body_def)
    have len: "length (rp_frames t) = length (rp_frames s)" using t(1) by (simp add: only_frames_def)
    have "\<exists>s'. defrag_loop p ns (c + 1) t = Some (numbered (c + 1) (frames_of t ns), s') \<and>
      only_frames (insert p (set ns)) t s' \<and>
      (numbered (c + 1) (frames_of t ns) \<longrightarrow>
        frame_ok (rp_frames s' ! p) \<and> icv_size (rp_frames s' ! p) \<le> length (frame_bytes (rp_frames s' ! p)) \<and>
        strip_icv (icv_size (rp_frames s' ! p)) (frame_bytes (rp_frames s' ! p)) =
          strip_icv (icv_size (rp_frames t ! p)) (frame_bytes (rp_frames t ! p)) @ concat (map frag_payload (frames_of t ns)) \<and>
        rxf_attrib (rp_frames s' ! p) =
          (rxf_attrib (rp_frames t ! p))\<lparr>rx_icv_len := rx_icv_len (rxf_attrib (last (rp_frames t ! p # frames_of t ns)))\<rparr>)"
    proof (rule Cons.IH)
      show "icv_size (rp_frames t ! p) \<le> length (frame_bytes (rp_frames t ! p))" using icv by (simp add: t(2) p'(2))
      show "rxf_tail (rp_frames t ! p) + int (length (concat (map frag_body (frames_of t ns)))) \<le> rxf_end (rp_frames t ! p)"
        unfolding t(2) p' fr using Cons.prems(8) by simp
    qed (use Cons.prems p' t(2) same len in auto)
    moreover have "strip_icv (icv_size p') (frame_bytes p') =
        strip_icv (icv_size ?P) (frame_bytes ?P) @ frag_payload ?N"
      using icv by (simp add: p'(2) strip_icv_append frag_payload_def)
    moreover have "only_frames (insert p (set (n # ns))) s s'" if "only_frames (insert p (set ns)) t s'" for s'
      using only_frames_trans [OF t(1) that, of "insert p (set (n # ns))"] by auto
    ultimately show ?thesis
      using app unfolding t(2) fr by (auto simp: c t_def [symmetric] p'(3) split: if_splits)
  qed simp
qed simp

section \<open>Ownership of the frames\<close>

lemma defrag_loop_frames: "defrag_loop p ns c s = Some (b, s') \<Longrightarrow> only_frames (insert p (set ns)) s s'"
proof (induction ns arbitrary: c s)
  case (Cons n ns)
  show ?case
  proof (cases "c = rx_frag_num (rxf_attrib (rp_frames s ! n))")
    case True
    with Cons.prems obtain fp fn where
      l: "defrag_loop p ns (c + 1) (upd_frame p (\<lambda>_. fp) (upd_frame n (\<lambda>_. fn) s)) = Some (b, s')"
      by (auto simp: bind_eq_Some_conv)
    have "only_frames {p, n} s (upd_frame p (\<lambda>_. fp) (upd_frame n (\<lambda>_. fn) s))"
      by (simp add: only_frames_def upd_frame_def)
    from only_frames_trans [OF this Cons.IH [OF l], of "insert p (set (n # ns))"] show ?thesis by auto
  qed (use Cons.prems in simp)
qed (simp add: only_frames_def)

text \<open>The two ways in which \<open>recvframe_defrag\<close> ends, with the frame \<open>p\<close> taken out of the queue before.\<close>

lemma defrag_ends:
  assumes "pool_inv s" and "k < length (rp_stas s)" and "p \<in> held s"
  shows "pool_inv (rtw_free_recvframe_queue (DefragQ k) FreeQ s)"
    "held (rtw_free_recvframe_queue (DefragQ k) FreeQ s) = held s"
    "pool_inv (rtw_free_recvframe_queue (DefragQ k) FreeQ (rtw_free_recvframe p FreeQ s))"
    "held (rtw_free_recvframe_queue (DefragQ k) FreeQ (rtw_free_recvframe p FreeQ s)) = held s - {p}"
proof -
  note f = free_held_frame [OF assms(1,3)]
  have "k < length (rp_stas (rtw_free_recvframe p FreeQ s))" using assms(2) f(4) by simp
  note g = free_defrag_queue [OF f(1) this] and h = free_defrag_queue [OF assms(1,2)]
  show "pool_inv (rtw_free_recvframe_queue (DefragQ k) FreeQ s)" "held (rtw_free_recvframe_queue (DefragQ k) FreeQ s) = held s"
    using h by simp_all
  show "pool_inv (rtw_free_recvframe_queue (DefragQ k) FreeQ (rtw_free_recvframe p FreeQ s))"
    "held (rtw_free_recvframe_queue (DefragQ k) FreeQ (rtw_free_recvframe p FreeQ s)) = held s - {p}"
    using g f(3) by simp_all
qed

lemma recvframe_defrag_held:
  assumes "recvframe_defrag k s = Some (r, s')" and "pool_inv s" and "k < length (rp_stas s)"
  shows "pool_inv s' \<and> held s' = held s \<union> set_option r \<and> length (rp_stas s') = length (rp_stas s) \<and>
    length (rp_frames s') = length (rp_frames s)"
proof -
  obtain p ns where q: "queue_of (DefragQ k) s = p # ns"
    using assms(1) by (auto simp: recvframe_defrag_def split: list.splits)
  define s1 where "s1 = list_del_init p s"
  have pq: "p \<in> set (queue_of (DefragQ k) s)" using q by simp
  note t = take_from_defrag_queue [OF assms(2,3) this, folded s1_def]
  have p: "p \<notin> held s" "held s1 - {p} = held s"
    using defrag_queue_disjoint(3) [OF assms(2,3)] pq t(2) by (auto simp: held_def)
  show ?thesis
  proof (cases "0 = rx_frag_num (rxf_attrib (rp_frames s1 ! p))")
    case True
    then obtain b s2 where l: "defrag_loop p ns 1 s1 = Some (b, s2)"
      and r: "(r, s') = (if b then (Some p, rtw_free_recvframe_queue (DefragQ k) FreeQ s2)
                     else (None, rtw_free_recvframe_queue (DefragQ k) FreeQ (rtw_free_recvframe p FreeQ s2)))"
      using assms(1) q by (auto simp: recvframe_defrag_def s1_def Let_def bind_eq_Some_conv split: prod.splits)
    note o = defrag_loop_frames [OF l]
    have s2: "pool_inv s2" "held s2 = held s1" "k < length (rp_stas s2)" "p \<in> held s2"
      using only_frames_queues [OF o] t assms(3) by auto
    have "length (rp_frames s2) = length (rp_frames s)" "length (rp_stas s2) = length (rp_stas s)"
      using o only_frames_queues(3) [OF o] t by (simp_all add: only_frames_def)
    then show ?thesis using defrag_ends [OF s2(1,3,4)] r p s2(2) t(2) by (auto simp: len_simps split: if_splits)
  next
    case False
    then have "r = None" "s' = rtw_free_recvframe_queue (DefragQ k) FreeQ (rtw_free_recvframe p FreeQ s1)"
      using assms(1) q by (auto simp: recvframe_defrag_def s1_def Let_def)
    then show ?thesis using defrag_ends [of s1 k p] t assms(3) p by (auto simp: len_simps)
  qed
qed

lemma enqueue_frag_held:
  assumes "enqueue_frag q i m n s = Some (r, s')" and "pool_inv s" and "i \<in> held s"
    and "\<forall>k. q = Some k \<longrightarrow> k < length (rp_stas s)" and "m = 0 \<or> m = 1"
  shows "pool_inv s' \<and> held s' = held s - {i} \<union> set_option r \<and> length (rp_stas s') = length (rp_stas s) \<and> set_option r \<inter> (held s - {i}) = {}"
proof (cases q)
  case None
  then show ?thesis
    using assms free_held_frame [OF assms(2,3)] by (auto simp: enqueue_frag_def len_simps split: if_splits)
next
  case (Some k)
  then have k: "k < length (rp_stas s)" using assms(4) by simp
  consider "m = 1" | "m = 0" "n \<noteq> 0" | "m = 0" "n = 0" using assms(5) by blast
  then show ?thesis
  proof cases
    case 1
    define t where "t = (if n = 0 \<and> queue_of (DefragQ k) s \<noteq> [] then rtw_free_recvframe_queue (DefragQ k) FreeQ s else s)"
    have t: "pool_inv t" "held t = held s" "length (rp_stas t) = length (rp_stas s)"
      using free_defrag_queue [OF assms(2) k] assms(2) by (auto simp: t_def)
    then show ?thesis
      using add_to_defrag_queue [of t k i] assms(1,3) k 1 Some by (auto simp: enqueue_frag_def t_def Let_def)
  next
    case 2
    note a = add_to_defrag_queue [OF assms(2) k assms(3)]
    have d: "recvframe_defrag k (list_add_tail i (DefragQ k) s) = Some (r, s')"
      using assms(1) 2 Some by (simp add: enqueue_frag_def del: list_add_tail.simps)
    have "k < length (rp_stas (list_add_tail i (DefragQ k) s))" using a(5) k by simp
    from recvframe_defrag_held [OF d a(1) this] have h: "pool_inv s'" "held s' = held s - {i} \<union> set_option r"
      "length (rp_stas s') = length (rp_stas s)" using a by auto
    have "j \<notin> held s - {i}" if "r = Some j" for j
    proof -
      have "j \<in> set (queue_of (DefragQ k) (list_add_tail i (DefragQ k) s))"
        using d that by (auto simp: recvframe_defrag_def Let_def bind_eq_Some_conv
            simp del: list_add_tail.simps queue_of.simps split: list.splits if_splits prod.splits)
      then have "j \<notin> held (list_add_tail i (DefragQ k) s)"
        using defrag_queue_disjoint(3) [OF a(1), of k] a(5) k by (auto simp: held_def simp del: list_add_tail.simps queue_of.simps)
      then show ?thesis using a(2) by simp
    qed
    with h show ?thesis by auto
  next
    case 3
    then show ?thesis using assms by (auto simp: enqueue_frag_def)
  qed
qed

lemma chkmic_frames:
  assumes "recvframe_chkmic en junk i st = Some (res, st')"
  shows "only_frames {i} (ds_pool st) (ds_pool st')"
proof -
  have "only_frames {i} s (upd_frame i g s)" for g s by (simp add: only_frames_def upd_frame_def)
  then show ?thesis
    using assms
    by (auto simp: recvframe_chkmic_def Let_def bind_eq_Some_conv upd_pool_def rtw_handle_tkip_mic_err_def
        split: sum.splits option.splits if_splits)
qed

definition tables_ok :: "defrag_env \<Rightarrow> recv_priv \<Rightarrow> bool" where
  "tables_ok en s \<longleftrightarrow> sta_wf (en_stapriv en) \<and> sta_unique (en_stapriv en) \<and> length (rp_stas s) = 32"

lemma pdefrag_q_less:
  assumes "pdefrag_q en f = Some (Some k)" and "tables_ok en s"
  shows "k < length (rp_stas s)"
proof -
  let ?sp = "en_stapriv en"
  have get: "rtw_get_stainfo ?sp (Some a) = Inr (sta_map ?sp (sta_key a))" for a
    using assms(2) get_stainfo_map by (simp add: tables_ok_def)
  have "\<exists>a. sta_map ?sp a = Some k"
    using assms(1) by (auto simp: pdefrag_q_def get rtw_get_bcmc_stainfo_def bind_eq_Some_conv split: option.splits if_splits)
  then show ?thesis using assms(2) stations_less [of ?sp k] sta_map_Some_iff [of ?sp] by (auto simp: tables_ok_def)
qed

lemma chk_defrag_held:
  assumes "recvframe_chk_defrag en junk i st = Some (r, st')" and "pool_inv (ds_pool st)" and "i \<in> held (ds_pool st)"
    and "tables_ok en (ds_pool st)" and "rx_mfrag (rxf_attrib (rp_frames (ds_pool st) ! i)) \<in> {0, 1}"
  shows "pool_inv (ds_pool st') \<and> held (ds_pool st') = held (ds_pool st) - {i} \<union> set_option r \<and> tables_ok en (ds_pool st') \<and>
    set_option r \<inter> (held (ds_pool st) - {i}) = {}"
proof -
  let ?f = "rp_frames (ds_pool st) ! i"
  obtain q r1 s1 where q: "pdefrag_q en ?f = Some q"
    and e: "enqueue_frag q i (rx_mfrag (rxf_attrib ?f)) (rx_frag_num (rxf_attrib ?f)) (ds_pool st) = Some (r1, s1)"
    and rest: "(case r1 of
        None \<Rightarrow> Some (None, st\<lparr>ds_pool := s1\<rparr>)
      | Some j \<Rightarrow>
          if rx_privacy (rxf_attrib (rp_frames s1 ! j)) \<noteq> 0 then do {
            (res, st) \<leftarrow> recvframe_chkmic en junk j (st\<lparr>ds_pool := s1\<rparr>);
            Some (if res = FAIL then (None, upd_pool (rtw_free_recvframe j FreeQ) st) else (Some j, st))
          } else Some (Some j, st\<lparr>ds_pool := s1\<rparr>)) = Some (r, st')"
    using assms(1) by (auto simp: recvframe_chk_defrag_def Let_def bind_eq_Some_conv split: prod.splits)
  have k: "\<forall>k. q = Some k \<longrightarrow> k < length (rp_stas (ds_pool st))" using pdefrag_q_less assms(4) q by blast
  have "rx_mfrag (rxf_attrib ?f) = 0 \<or> rx_mfrag (rxf_attrib ?f) = 1" using assms(5) by simp
  note h = enqueue_frag_held [OF e assms(2,3) k this]
  then have s1: "tables_ok en s1" using assms(4) by (simp add: tables_ok_def)
  show ?thesis
  proof (cases r1)
    case None
    then have "r = None" "ds_pool st' = s1" using rest by auto
    then show ?thesis using None h s1 by simp
  next
    case (Some j)
    show ?thesis
    proof (cases "rx_privacy (rxf_attrib (rp_frames s1 ! j)) = 0")
      case True
      then have "r = Some j" "ds_pool st' = s1" using rest Some by auto
      then show ?thesis using Some h s1 by simp
    next
      case False
      with rest Some obtain res st2 where m: "recvframe_chkmic en junk j (st\<lparr>ds_pool := s1\<rparr>) = Some (res, st2)"
        and r: "(r, st') = (if res = FAIL then (None, upd_pool (rtw_free_recvframe j FreeQ) st2) else (Some j, st2))"
        by (auto simp: bind_eq_Some_conv)
      have o: "only_frames {j} s1 (ds_pool st2)" using chkmic_frames [OF m] by simp
      note p = only_frames_queues [OF o]
      have j: "j \<in> held (ds_pool st2)" "pool_inv (ds_pool st2)" "tables_ok en (ds_pool st2)"
        using h Some p s1 by (auto simp: tables_ok_def)
      have h2: "held (ds_pool st2) = held (ds_pool st) - {i} \<union> {j}" "j \<notin> held (ds_pool st) - {i}"
        using h Some p(8) by simp_all
      note f = free_held_frame [OF j(2,1)]
      have "tables_ok en (rtw_free_recvframe j FreeQ (ds_pool st2))" using j(3) f(4) by (simp add: tables_ok_def)
      then show ?thesis using r f(1,3) h2 j by (cases res) (simp_all add: upd_pool_def)
    qed
  qed
qed

interpretation rx: frame_pool
  "\<lambda>st. pool_inv (ds_pool st) \<and> tables_ok en (ds_pool st)"
  "\<lambda>st. held (ds_pool st)"
  "\<lambda>st. case rtw_alloc_recvframe FreeQ (ds_pool st) of (i, s) \<Rightarrow> (i, st\<lparr>ds_pool := s\<rparr>)"
  "\<lambda>c i. upd_pool (upd_frame i (\<lambda>_. c))"
  "\<lambda>i. upd_pool (rtw_free_recvframe i FreeQ)"
  "recvframe_chk_defrag en junk"
  "\<lambda>c. rx_mfrag (rxf_attrib c) \<in> {0, 1}"
  for en junk
proof unfold_locales
  fix st st' :: defrag_state and c :: rx_frame and i j r
  assume inv: "pool_inv (ds_pool st) \<and> tables_ok en (ds_pool st)"
  obtain a s where e: "rtw_alloc_recvframe FreeQ (ds_pool st) = (a, s)" by fastforce
  note a = alloc_recvframe_held [of "ds_pool st", unfolded e]
  show "st' = st" if "(case rtw_alloc_recvframe FreeQ (ds_pool st) of (i, s) \<Rightarrow> (i, st\<lparr>ds_pool := s\<rparr>)) = (None, st')"
    using that a inv by (simp add: e)
  show "(pool_inv (ds_pool st') \<and> tables_ok en (ds_pool st')) \<and> i \<notin> held (ds_pool st) \<and> held (ds_pool st') = insert i (held (ds_pool st))"
    if "(case rtw_alloc_recvframe FreeQ (ds_pool st) of (i, s) \<Rightarrow> (i, st\<lparr>ds_pool := s\<rparr>)) = (Some i, st')"
  proof -
    have "a = Some i" "st' = st\<lparr>ds_pool := s\<rparr>" using that by (simp_all add: e)
    then show ?thesis using a inv by (simp add: tables_ok_def)
  qed
  show "(pool_inv (ds_pool (upd_pool (rtw_free_recvframe i FreeQ) st)) \<and> tables_ok en (ds_pool (upd_pool (rtw_free_recvframe i FreeQ) st))) \<and>
      held (ds_pool (upd_pool (rtw_free_recvframe i FreeQ) st)) = held (ds_pool st) - {i}"
    if "i \<in> held (ds_pool st)"
    using that inv free_held_frame [of "ds_pool st" i] by (simp add: upd_pool_def tables_ok_def)
  assume i: "i \<in> held (ds_pool st)" and c: "rx_mfrag (rxf_attrib c) \<in> {0, 1}"
  let ?st = "upd_pool (upd_frame i (\<lambda>_. c)) st"
  have o: "only_frames {i} (ds_pool st) (ds_pool ?st)" by (simp add: only_frames_def upd_pool_def upd_frame_def)
  have f: "rp_frames (ds_pool ?st) ! i = c" using i by (simp add: upd_pool_def upd_frame_def held_def)
  note p = only_frames_queues [OF o]
  have h: "pool_inv (ds_pool st') \<and> held (ds_pool st') = held (ds_pool st) - {i} \<union> set_option r \<and> tables_ok en (ds_pool st') \<and>
      set_option r \<inter> (held (ds_pool st) - {i}) = {}"
    if "recvframe_chk_defrag en junk i ?st = Some (r, st')" for r
  proof -
    have "tables_ok en (ds_pool ?st)" using inv p(3) by (simp add: tables_ok_def)
    then show ?thesis using chk_defrag_held [OF that] inv i c unfolding p f by simp
  qed
  then show "(pool_inv (ds_pool st') \<and> tables_ok en (ds_pool st')) \<and> held (ds_pool st') = held (ds_pool st) - {i} \<union> set_option r"
    if "recvframe_chk_defrag en junk i ?st = Some (r, st')" using that by blast
  show "j \<notin> held (ds_pool st) - {i}" if "recvframe_chk_defrag en junk i ?st = Some (Some j, st')" using h [OF that] by auto
qed

section \<open>Reassembly\<close>

lemma recvframe_defrag_spec:
  assumes inv: "pool_inv s" "k < length (rp_stas s)" and q: "queue_of (DefragQ k) s = p # ns"
    and ok: "\<forall>j\<in>set (p # ns). frag_ok (rp_frames s ! j)" and "0 = rx_frag_num (rxf_attrib (rp_frames s ! p))"
    and fit: "rxf_tail (rp_frames s ! p) + int (length (concat (map frag_body (frames_of s ns)))) \<le> rxf_end (rp_frames s ! p)"
  shows "\<exists>s'. recvframe_defrag k s = Some (if numbered 1 (frames_of s ns) then Some p else None, s') \<and>
    (numbered 1 (frames_of s ns) \<longrightarrow>
      frame_ok (rp_frames s' ! p) \<and>
      strip_icv (icv_size (rp_frames s' ! p)) (frame_bytes (rp_frames s' ! p)) =
        strip_icv (icv_size (rp_frames s ! p)) (frame_bytes (rp_frames s ! p)) @ concat (map frag_payload (frames_of s ns)) \<and>
      rxf_attrib (rp_frames s' ! p) =
        (rxf_attrib (rp_frames s ! p))\<lparr>rx_icv_len := rx_icv_len (rxf_attrib (last (rp_frames s ! p # frames_of s ns)))\<rparr>)"
proof -
  define t where "t = list_del_init p s"
  have pq: "p \<in> set (queue_of (DefragQ k) s)" using q by simp
  note t = take_from_defrag_queue [OF inv pq, folded t_def] and d = defrag_queue_disjoint [OF inv, unfolded q]
  have pn: "p \<notin> set ns" "distinct ns" using d(1) by simp_all
  have lt: "p < length (rp_frames t)" "set ns \<subseteq> {..<length (rp_frames t)}" using d(4) t(4) by auto
  have p: "frame_ok (rp_frames t ! p)" "icv_size (rp_frames t ! p) \<le> length (frame_bytes (rp_frames t ! p))"
    and n: "\<forall>n\<in>set ns. frag_ok (rp_frames t ! n)" using ok by (simp_all add: t(4) frag_ok_def)
  from defrag_loop_spec [OF pn lt p n fit [folded t(4)], of 1] obtain u where
    l: "defrag_loop p ns 1 t = Some (numbered 1 (frames_of t ns), u)" and o: "only_frames (insert p (set ns)) t u" and
    res: "numbered 1 (frames_of t ns) \<longrightarrow>
      frame_ok (rp_frames u ! p) \<and> icv_size (rp_frames u ! p) \<le> length (frame_bytes (rp_frames u ! p)) \<and>
      strip_icv (icv_size (rp_frames u ! p)) (frame_bytes (rp_frames u ! p)) =
        strip_icv (icv_size (rp_frames t ! p)) (frame_bytes (rp_frames t ! p)) @ concat (map frag_payload (frames_of t ns)) \<and>
      rxf_attrib (rp_frames u ! p) =
        (rxf_attrib (rp_frames t ! p))\<lparr>rx_icv_len := rx_icv_len (rxf_attrib (last (rp_frames t ! p # frames_of t ns)))\<rparr>"
    by blast
  let ?c = "numbered 1 (frames_of s ns)"
  let ?s = "if ?c then rtw_free_recvframe_queue (DefragQ k) FreeQ u
            else rtw_free_recvframe_queue (DefragQ k) FreeQ (rtw_free_recvframe p FreeQ u)"
  have "recvframe_defrag k s = Some (if ?c then Some p else None, ?s)"
    using q assms(5) l t(4) by (simp add: recvframe_defrag_def t_def [symmetric] Let_def del: queue_of.simps)
  moreover have "rp_frames ?s ! p = rp_frames u ! p" if ?c
  proof -
    have u: "pool_inv u" "k < length (rp_stas u)" "queue_of (DefragQ k) u = ns"
      using only_frames_queues [OF o] t inv(2) q pn by simp_all
    show ?thesis using free_defrag_queue(7) [OF u(1,2)] u(3) pn that by auto
  qed
  ultimately show ?thesis using res t(4) by auto
qed

text \<open>Frames given to \<open>recvframe_chk_defrag\<close> one after the other.\<close>

fun chk_defrag_run :: "defrag_env \<Rightarrow> mic_data \<Rightarrow> nat list \<Rightarrow> defrag_state \<Rightarrow> (nat option list \<times> defrag_state) option" where
  "chk_defrag_run en junk [] st = Some ([], st)"
| "chk_defrag_run en junk (i # js) st = do {
     (r, st) \<leftarrow> recvframe_chk_defrag en junk i st;
     (rs, st) \<leftarrow> chk_defrag_run en junk js st;
     Some (r # rs, st)
   }"

lemma chk_defrag_run_append:
  "chk_defrag_run en junk (xs @ ys) st =
     (case chk_defrag_run en junk xs st of
        None \<Rightarrow> None
      | Some (rs, st) \<Rightarrow>
          (case chk_defrag_run en junk ys st of None \<Rightarrow> None | Some (rs', st) \<Rightarrow> Some (rs @ rs', st)))"
  by (induction xs arbitrary: st) (auto split: Option.bind_splits option.splits)

definition of_sta :: "defrag_env \<Rightarrow> nat \<Rightarrow> rx_frame \<Rightarrow> bool" where
  "of_sta en k f \<longleftrightarrow> rtw_get_stainfo (en_stapriv en) (Some (rx_ta (rxf_attrib f))) = Inr (Some k)"

lemma pdefrag_q_of_sta: "of_sta en k f \<Longrightarrow> pdefrag_q en f = Some (Some k)"
  by (simp add: of_sta_def pdefrag_q_def)

text \<open>Fragments before the last one are queued; the first one replaces what was in the queue.\<close>

lemma chk_defrag_first:
  assumes "pool_inv (ds_pool st)" and "k < length (rp_stas (ds_pool st))" and "i \<in> held (ds_pool st)"
    and "of_sta en k (rp_frames (ds_pool st) ! i)" and "rx_mfrag (rxf_attrib (rp_frames (ds_pool st) ! i)) = 1"
    and "rx_frag_num (rxf_attrib (rp_frames (ds_pool st) ! i)) = 0"
  shows "\<exists>s. recvframe_chk_defrag en junk i st = Some (None, st\<lparr>ds_pool := s\<rparr>) \<and> pool_inv s \<and> length (rp_stas s) = length (rp_stas (ds_pool st)) \<and>
    queue_of (DefragQ k) s = [i] \<and> held s = held (ds_pool st) - {i} \<and>
    (\<forall>j. j \<in> held (ds_pool st) \<longrightarrow> rp_frames s ! j = rp_frames (ds_pool st) ! j)"
proof -
  let ?s = "ds_pool st"
  define t where "t = (if queue_of (DefragQ k) ?s \<noteq> [] then rtw_free_recvframe_queue (DefragQ k) FreeQ ?s else ?s)"
  have t: "pool_inv t" "held t = held ?s" "length (rp_stas t) = length (rp_stas ?s)" "queue_of (DefragQ k) t = []"
    "\<forall>j. j \<in> held ?s \<longrightarrow> rp_frames t ! j = rp_frames ?s ! j"
    using free_defrag_queue [OF assms(1,2)] defrag_queue_disjoint(3) [OF assms(1,2)] assms(1) by (auto simp: t_def held_def)
  have "recvframe_chk_defrag en junk i st = Some (None, st\<lparr>ds_pool := list_add_tail i (DefragQ k) t\<rparr>)"
    using assms(5,6) by (simp add: recvframe_chk_defrag_def pdefrag_q_of_sta [OF assms(4)] enqueue_frag_def t_def Let_def)
  then show ?thesis using add_to_defrag_queue [of t k i] t assms(2,3) by (intro exI [of _ "list_add_tail i (DefragQ k) t"]) simp
qed

lemma chk_defrag_middle:
  assumes "pool_inv (ds_pool st)" and "k < length (rp_stas (ds_pool st))" and "distinct ms" and "set ms \<subseteq> held (ds_pool st)"
    and "\<forall>i\<in>set ms. of_sta en k (rp_frames (ds_pool st) ! i) \<and> rx_mfrag (rxf_attrib (rp_frames (ds_pool st) ! i)) = 1 \<and>
      rx_frag_num (rxf_attrib (rp_frames (ds_pool st) ! i)) \<noteq> 0"
  shows "\<exists>s. chk_defrag_run en junk ms st = Some (map (\<lambda>_. None) ms, st\<lparr>ds_pool := s\<rparr>) \<and> pool_inv s \<and>
    length (rp_stas s) = length (rp_stas (ds_pool st)) \<and> queue_of (DefragQ k) s = queue_of (DefragQ k) (ds_pool st) @ ms \<and>
    held s = held (ds_pool st) - set ms \<and> rp_frames s = rp_frames (ds_pool st)"
  using assms
proof (induction ms arbitrary: st)
  case Nil
  then show ?case by (intro exI [of _ "ds_pool st"]) simp
next
  case (Cons i ms)
  let ?s = "list_add_tail i (DefragQ k) (ds_pool st)"
  have i: "i \<in> held (ds_pool st)" using Cons.prems(4) by simp
  note a = add_to_defrag_queue [OF Cons.prems(1,2) i]
  have c: "recvframe_chk_defrag en junk i st = Some (None, st\<lparr>ds_pool := ?s\<rparr>)"
    using Cons.prems(5) by (simp add: recvframe_chk_defrag_def pdefrag_q_of_sta [of en k] enqueue_frag_def Let_def)
  have "\<exists>s. chk_defrag_run en junk ms (st\<lparr>ds_pool := ?s\<rparr>) = Some (map (\<lambda>_. None) ms, (st\<lparr>ds_pool := ?s\<rparr>)\<lparr>ds_pool := s\<rparr>) \<and> pool_inv s \<and>
    length (rp_stas s) = length (rp_stas (ds_pool (st\<lparr>ds_pool := ?s\<rparr>))) \<and>
    queue_of (DefragQ k) s = queue_of (DefragQ k) (ds_pool (st\<lparr>ds_pool := ?s\<rparr>)) @ ms \<and>
    held s = held (ds_pool (st\<lparr>ds_pool := ?s\<rparr>)) - set ms \<and> rp_frames s = rp_frames (ds_pool (st\<lparr>ds_pool := ?s\<rparr>))"
    by (rule Cons.IH) (use Cons.prems a in \<open>auto simp del: list_add_tail.simps queue_of.simps\<close>)
  then obtain s where s: "chk_defrag_run en junk ms (st\<lparr>ds_pool := ?s\<rparr>) = Some (map (\<lambda>_. None) ms, st\<lparr>ds_pool := s\<rparr>)" "pool_inv s"
    "length (rp_stas s) = length (rp_stas ?s)" "queue_of (DefragQ k) s = queue_of (DefragQ k) ?s @ ms" "held s = held ?s - set ms"
    "rp_frames s = rp_frames ?s" by auto
  show ?case using s a c by (intro exI [of _ s]) (auto simp del: list_add_tail.simps queue_of.simps)
qed

lemma chk_defrag_last:
  fixes st :: defrag_state
  defines "s \<equiv> ds_pool st"
  assumes inv: "pool_inv s" "k < length (rp_stas s)" "i \<in> held s" and q: "queue_of (DefragQ k) s = p # ms"
    and sta: "of_sta en k (rp_frames s ! i)" "of_sta en k (rp_frames s ! p)"
    and i: "rx_mfrag (rxf_attrib (rp_frames s ! i)) = 0" "rx_frag_num (rxf_attrib (rp_frames s ! i)) \<noteq> 0"
    and p: "rx_frag_num (rxf_attrib (rp_frames s ! p)) = 0"
    and mic: "rx_privacy (rxf_attrib (rp_frames s ! p)) = 0 \<or> rx_encrypt (rxf_attrib (rp_frames s ! p)) \<noteq> TKIP_ENCRYPTION"
    and ok: "\<forall>j\<in>set (p # ms @ [i]). frag_ok (rp_frames s ! j)"
    and fit: "rxf_tail (rp_frames s ! p) + int (length (concat (map frag_body (frames_of s (ms @ [i]))))) \<le> rxf_end (rp_frames s ! p)"
  shows "\<exists>s'. recvframe_chk_defrag en junk i st = Some (if numbered 1 (frames_of s (ms @ [i])) then Some p else None, st\<lparr>ds_pool := s'\<rparr>) \<and>
    (numbered 1 (frames_of s (ms @ [i])) \<longrightarrow>
      frame_ok (rp_frames s' ! p) \<and>
      strip_icv (icv_size (rp_frames s' ! p)) (frame_bytes (rp_frames s' ! p)) =
        strip_icv (icv_size (rp_frames s ! p)) (frame_bytes (rp_frames s ! p)) @ concat (map frag_payload (frames_of s (ms @ [i]))))"
proof -
  let ?t = "list_add_tail i (DefragQ k) s"
  note a = add_to_defrag_queue [OF inv]
  have q': "queue_of (DefragQ k) ?t = p # (ms @ [i])" using a(3) q by simp
  have k: "k < length (rp_stas ?t)" using a(5) inv(2) by simp
  have "\<forall>j\<in>set (p # ms @ [i]). frag_ok (rp_frames ?t ! j)" "0 = rx_frag_num (rxf_attrib (rp_frames ?t ! p))"
    "rxf_tail (rp_frames ?t ! p) + int (length (concat (map frag_body (frames_of ?t (ms @ [i]))))) \<le> rxf_end (rp_frames ?t ! p)"
    unfolding a(4) using ok p fit by simp_all
  from recvframe_defrag_spec [OF a(1) k q' this] obtain s' where
    d: "recvframe_defrag k ?t = Some (if numbered 1 (frames_of s (ms @ [i])) then Some p else None, s')" and
    r: "numbered 1 (frames_of s (ms @ [i])) \<longrightarrow>
      frame_ok (rp_frames s' ! p) \<and>
      strip_icv (icv_size (rp_frames s' ! p)) (frame_bytes (rp_frames s' ! p)) =
        strip_icv (icv_size (rp_frames s ! p)) (frame_bytes (rp_frames s ! p)) @ concat (map frag_payload (frames_of s (ms @ [i]))) \<and>
      rxf_attrib (rp_frames s' ! p) =
        (rxf_attrib (rp_frames s ! p))\<lparr>rx_icv_len := rx_icv_len (rxf_attrib (last (rp_frames s ! p # frames_of s (ms @ [i]))))\<rparr>"
    unfolding a(4) by blast
  have e: "enqueue_frag (Some k) i (rx_mfrag (rxf_attrib (rp_frames s ! i))) (rx_frag_num (rxf_attrib (rp_frames s ! i))) s =
      Some (if numbered 1 (frames_of s (ms @ [i])) then Some p else None, s')"
    using i d by (simp add: enqueue_frag_def del: list_add_tail.simps)
  have "recvframe_chkmic en junk p (st\<lparr>ds_pool := s'\<rparr>) = Some (SUCCESS, st\<lparr>ds_pool := s'\<rparr>)"
    if "numbered 1 (frames_of s (ms @ [i]))" "rx_encrypt (rxf_attrib (rp_frames s ! p)) \<noteq> TKIP_ENCRYPTION"
    using r that sta(2) by (simp add: recvframe_chkmic_def of_sta_def Let_def)
  then have "recvframe_chk_defrag en junk i st = Some (if numbered 1 (frames_of s (ms @ [i])) then Some p else None, st\<lparr>ds_pool := s'\<rparr>)"
    using e r mic by (auto simp: recvframe_chk_defrag_def pdefrag_q_of_sta [OF sta(1)] s_def [symmetric] Let_def)
  with r show ?thesis by blast
qed

text \<open>A small instance: frames of the station 00:01:02:03:04:05 with two header bytes.\<close>

definition dx_frame :: "byte \<Rightarrow> byte \<Rightarrow> u16 \<Rightarrow> byte list \<Rightarrow> rx_frame" where
  "dx_frame mfrag frag seq b = zero_frame
     \<lparr>rxf_attrib := (rxf_attrib zero_frame)\<lparr>rx_hdrlen := 2, rx_ta := [0, 1, 2, 3, 4, 5], rx_mfrag := mfrag, rx_frag_num := frag, rx_seq_num := seq\<rparr>,
      rxf_len := of_nat (length b), rxf_buf := b @ [0, 0, 0, 0], rxf_tail := int (length b), rxf_end := int (length b) + 4\<rparr>"

definition dx_env :: defrag_env where
  "dx_env = \<lparr>en_stapriv = (the (snd (rtw_init_sta_priv True (replicate 6 0))))
       \<lparr>sp_stainfo := [init_stainfo\<lparr>si_hwaddr := [0, 1, 2, 3, 4, 5]\<rparr>], sp_sta_hash := replicate 32 [0]\<rparr>,
     en_key_index = 0, en_jiffies = 100, en_HZ = 100\<rparr>"

definition dx_sec :: rx_security where
  "dx_sec = \<lparr>dot11PrivacyKeyIndex = 0, dot11DefKey = [], dot11DefKeylen = [], dot118021XGrpKeyid = 0, dot118021XGrpKey = [],
     binstallGrpkey = True, bcheck_grpkey = False, last_mic_err_time = 0, btkip_countermeasure = False, btkip_countermeasure_time = 0\<rparr>"

definition dx_state :: "rx_frame list \<Rightarrow> nat list \<Rightarrow> nat list \<Rightarrow> nat \<Rightarrow> defrag_state" where
  "dx_state fs free q n =
     \<lparr>ds_pool = \<lparr>rp_frames = fs, rp_free_recv_queue = free, rp_uc_swdec_pending_queue = [], rp_free_recvframe_cnt = of_nat (length free),
        rp_stas = \<lparr>rs_defrag_q = q, rs_UncstKey = [], rs_tkiprxmickey = [1, 2, 3, 4, 5, 6, 7, 8], rs_ieee8021x_blocked = False\<rparr> #
          replicate n \<lparr>rs_defrag_q = [], rs_UncstKey = [], rs_tkiprxmickey = [], rs_ieee8021x_blocked = False\<rparr>\<rparr>,
      ds_sec = dx_sec, ds_mic_events = []\<rparr>"

definition dx_junk :: mic_data where "dx_junk = \<lparr>K0 = 0, K1 = 0, L = 0, R = 0, M = 0, nBytesInM = 0\<rparr>"

lemma of_sta_ex: "rx_ta (rxf_attrib f) = [0, 1, 2, 3, 4, 5] \<Longrightarrow> of_sta dx_env 0 f"
  using wifi_mac_hash_less [of "[0, 1, 2, 3, 4, 5]"]
  by (simp add: of_sta_def dx_env_def rtw_get_stainfo_def spin_lock_bh_def spin_unlock_bh_def rtw_init_sta_priv_def
      sta_key_def is_multicast_ether_addr_def)

lemmas dx_defs = dx_frame_def dx_state_def zero_frame_def pool_inv_def held_def queues_def frag_ok_def frame_ok_def hdr_size_def
  icv_size_def frame_bytes_def frag_body_def frag_payload_def strip_icv_def

section \<open>Properties\<close>

lemma concat_payload_split:
  assumes "frag_ok f"
  shows "strip_icv (icv_size f) (frame_bytes f) = take (hdr_size f) (frame_bytes f) @ frag_payload f"
proof -
  have "strip_icv (icv_size f) (take (hdr_size f) (frame_bytes f) @ frag_body f) =
      take (hdr_size f) (frame_bytes f) @ strip_icv (icv_size f) (frag_body f)"
    using assms by (intro strip_icv_append) (auto simp: frag_ok_def frag_body_def)
  then show ?thesis by (simp add: frag_body_def frag_payload_def)
qed

text \<open>
  C26 (functional): fragments of one transmitter, the first with number 0 and
  all but the last with the more-fragments bit, are given one after the other to
  \<open>recvframe_chk_defrag\<close>.  When their numbers are 0, 1, 2, ... the last call returns
  the first frame, which then holds its own header, the payloads of all fragments and the
  last integrity value; otherwise nothing is returned.  The sequence
  numbers of the fragments are not compared: fragments of different frames are put together.
\<close>

theorem defrag_reassembles:
  fixes st :: defrag_state
  defines "s \<equiv> ds_pool st"
  assumes inv: "pool_inv s" "k < length (rp_stas s)" and dist: "distinct (p # ms @ [i])" and held: "set (p # ms @ [i]) \<subseteq> held s"
    and sta: "\<forall>j\<in>set (p # ms @ [i]). of_sta en k (rp_frames s ! j) \<and> frag_ok (rp_frames s ! j)"
    and more: "\<forall>j\<in>set (p # ms). rx_mfrag (rxf_attrib (rp_frames s ! j)) = 1" "rx_mfrag (rxf_attrib (rp_frames s ! i)) = 0"
    and num: "rx_frag_num (rxf_attrib (rp_frames s ! p)) = 0" "\<forall>j\<in>set (ms @ [i]). rx_frag_num (rxf_attrib (rp_frames s ! j)) \<noteq> 0"
    and mic: "rx_privacy (rxf_attrib (rp_frames s ! p)) = 0 \<or> rx_encrypt (rxf_attrib (rp_frames s ! p)) \<noteq> TKIP_ENCRYPTION"
    and fit: "rxf_tail (rp_frames s ! p) + int (length (concat (map frag_body (frames_of s (ms @ [i]))))) \<le> rxf_end (rp_frames s ! p)"
  shows "\<exists>st'. chk_defrag_run en junk (p # ms @ [i]) st =
      Some (map (\<lambda>_. None) (p # ms) @ [if numbered 1 (frames_of s (ms @ [i])) then Some p else None], st') \<and>
    (numbered 1 (frames_of s (ms @ [i])) \<longrightarrow>
      strip_icv (icv_size (rp_frames (ds_pool st') ! p)) (frame_bytes (rp_frames (ds_pool st') ! p)) =
        take (hdr_size (rp_frames s ! p)) (frame_bytes (rp_frames s ! p)) @ concat (map frag_payload (frames_of s (p # ms @ [i]))))"
proof -
  have "p \<in> held s" "of_sta en k (rp_frames s ! p)" "rx_mfrag (rxf_attrib (rp_frames s ! p)) = 1" using held sta more by simp_all
  from chk_defrag_first [of st k p en junk, folded s_def, OF inv this num(1)] obtain s1 where
    c1: "recvframe_chk_defrag en junk p st = Some (None, st\<lparr>ds_pool := s1\<rparr>)" and
    s1: "pool_inv s1" "length (rp_stas s1) = length (rp_stas s)" "queue_of (DefragQ k) s1 = [p]" "held s1 = held s - {p}" and
    f1: "\<forall>j. j \<in> held s \<longrightarrow> rp_frames s1 ! j = rp_frames s ! j"
    by blast
  have same: "rp_frames s1 ! j = rp_frames s ! j" if "j \<in> set (p # ms @ [i])" for j using f1 held that by blast
  let ?st1 = "st\<lparr>ds_pool := s1\<rparr>"
  have "pool_inv (ds_pool ?st1)" "k < length (rp_stas (ds_pool ?st1))" "distinct ms" "set ms \<subseteq> held (ds_pool ?st1)"
    "\<forall>j\<in>set ms. of_sta en k (rp_frames (ds_pool ?st1) ! j) \<and> rx_mfrag (rxf_attrib (rp_frames (ds_pool ?st1) ! j)) = 1 \<and>
      rx_frag_num (rxf_attrib (rp_frames (ds_pool ?st1) ! j)) \<noteq> 0"
    using s1 inv dist held sta more num same by auto
  from chk_defrag_middle [OF this, of junk] obtain s2 where
    c2: "chk_defrag_run en junk ms ?st1 = Some (map (\<lambda>_. None) ms, st\<lparr>ds_pool := s2\<rparr>)" and
    s2: "pool_inv s2" "length (rp_stas s2) = length (rp_stas s1)" "queue_of (DefragQ k) s2 = p # ms" "held s2 = held s1 - set ms" and
    f2: "rp_frames s2 = rp_frames s1" using s1(3) by (auto simp del: queue_of.simps)
  have fr: "frames_of s2 (ms @ [i]) = frames_of s (ms @ [i])" using same f2 by simp
  let ?st2 = "st\<lparr>ds_pool := s2\<rparr>"
  have "ds_pool ?st2 = s2" "rp_frames s2 ! p = rp_frames s ! p" "?st2\<lparr>ds_pool := s'\<rparr> = st\<lparr>ds_pool := s'\<rparr>" for s'
    using f2 same [of p] by simp_all
  note eqs = this fr
  have "\<exists>s'. recvframe_chk_defrag en junk i ?st2 =
      Some (if numbered 1 (frames_of (ds_pool ?st2) (ms @ [i])) then Some p else None, ?st2\<lparr>ds_pool := s'\<rparr>) \<and>
    (numbered 1 (frames_of (ds_pool ?st2) (ms @ [i])) \<longrightarrow>
      frame_ok (rp_frames s' ! p) \<and>
      strip_icv (icv_size (rp_frames s' ! p)) (frame_bytes (rp_frames s' ! p)) =
        strip_icv (icv_size (rp_frames (ds_pool ?st2) ! p)) (frame_bytes (rp_frames (ds_pool ?st2) ! p)) @
          concat (map frag_payload (frames_of (ds_pool ?st2) (ms @ [i]))))"
  proof (rule chk_defrag_last [where k = k])
    show "rxf_tail (rp_frames (ds_pool ?st2) ! p) + int (length (concat (map frag_body (frames_of (ds_pool ?st2) (ms @ [i]))))) \<le>
        rxf_end (rp_frames (ds_pool ?st2) ! p)"
      unfolding eqs by (rule fit)
  qed (use s1 s2 inv dist held sta more num mic f2 same in \<open>auto simp del: queue_of.simps\<close>)
  from this [unfolded eqs] obtain s3 where c3: "recvframe_chk_defrag en junk i ?st2 =
      Some (if numbered 1 (frames_of s (ms @ [i])) then Some p else None, st\<lparr>ds_pool := s3\<rparr>)" and
    r: "numbered 1 (frames_of s (ms @ [i])) \<longrightarrow>
      strip_icv (icv_size (rp_frames s3 ! p)) (frame_bytes (rp_frames s3 ! p)) =
        strip_icv (icv_size (rp_frames s ! p)) (frame_bytes (rp_frames s ! p)) @ concat (map frag_payload (frames_of s (ms @ [i])))"
    by blast
  have "frag_ok (rp_frames s ! p)" using sta by simp
  note concat_payload_split [OF this]
  with c1 c2 c3 r show ?thesis
    by (intro exI [of _ "st\<lparr>ds_pool := s3\<rparr>"]) (simp add: chk_defrag_run_append)
qed

text \<open>Two fragments of the frames with the sequence numbers 7 and 9.\<close>

theorem defrag_reassembles_witness:
  "\<exists>st'. chk_defrag_run dx_env dx_junk [0, 1] (dx_state [dx_frame 1 0 7 [8, 0, 11, 12], dx_frame 0 1 9 [8, 0, 13]] [] [] 0) =
      Some ([None, Some 0], st') \<and>
    strip_icv (icv_size (rp_frames (ds_pool st') ! 0)) (frame_bytes (rp_frames (ds_pool st') ! 0)) = [8, 0, 11, 12, 13]"
proof -
  let ?st = "dx_state [dx_frame 1 0 7 [8, 0, 11, 12], dx_frame 0 1 9 [8, 0, 13]] [] [] 0"
  have sta: "of_sta dx_env 0 (dx_frame m n q b)" for m n q b by (rule of_sta_ex) (simp add: dx_frame_def)
  have "\<exists>st'. chk_defrag_run dx_env dx_junk (0 # [] @ [1]) ?st =
      Some (map (\<lambda>_. None) [0 :: nat] @ [if numbered 1 (frames_of (ds_pool ?st) ([] @ [1])) then Some 0 else None], st') \<and>
    (numbered 1 (frames_of (ds_pool ?st) ([] @ [1])) \<longrightarrow>
      strip_icv (icv_size (rp_frames (ds_pool st') ! 0)) (frame_bytes (rp_frames (ds_pool st') ! 0)) =
        take (hdr_size (rp_frames (ds_pool ?st) ! 0)) (frame_bytes (rp_frames (ds_pool ?st) ! 0)) @
          concat (map frag_payload (frames_of (ds_pool ?st) (0 # [] @ [1]))))"
    by (rule defrag_reassembles [where k = 0]) (simp_all add: dx_state_def sta, auto simp: dx_defs)
  then show ?thesis by (simp add: dx_defs)
qed

lemma mic_pseudo_header_append:
  assumes "30 \<le> length B \<or> (24 \<le> length B \<and> \<not> (B ! 1 AND 1 \<noteq> 0 \<and> B ! 1 AND 2 \<noteq> 0))"
  shows "mic_pseudo_header (B @ xs) pri = mic_pseudo_header B pri"
proof -
  have b: "(B @ xs) ! 1 = B ! 1" using assms by (auto simp: nth_append)
  have t: "take 6 (drop m (B @ xs)) = take 6 (drop m B)" if "m + 6 \<le> length B" for m using that by simp
  have t': "take 6 (drop 4 (B @ xs)) = take 6 (drop 4 B)" "take 6 (drop 10 (B @ xs)) = take 6 (drop 10 B)"
    "take 6 (drop 16 (B @ xs)) = take 6 (drop 16 B)" using assms by (intro t; linarith)+
  have t24: "take 6 (drop 24 (B @ xs)) = take 6 (drop 24 B)" if "B ! 1 AND 1 \<noteq> 0" "B ! 1 AND 2 \<noteq> 0"
    using assms that by (intro t) linarith
  show ?thesis
    by (cases "B ! 1 AND 1 = 0"; cases "B ! 1 AND 2 = 0")
      (simp_all only: mic_pseudo_header_def Let_def b t' t24 if_True if_False not_True_eq_False not_False_eq_True simp_thms)
qed

lemma chkmic_datalen:
  assumes "frame_ok f" and "hdr_size f + icv_size f + 8 \<le> length (frame_bytes f)"
  defines "a \<equiv> rxf_attrib f"
  shows "unat (rxf_len f - ucast (rx_hdrlen a) - ucast (rx_iv_len a) - ucast (rx_icv_len a) - 8) =
    length (frame_bytes f) - hdr_size f - icv_size f - 8"
proof -
  have len: "unat (rxf_len f) = length (frame_bytes f)"
    using uint_rxf_len [OF assms(1)] int_length_frame_bytes [OF assms(1)] by (metis of_nat_eq_iff uint_nat)
  have sub: "unat (x - ucast b) = unat x - unat b" if "unat b \<le> unat x" for x :: u32 and b :: byte
  proof -
    have b: "unat (ucast b :: u32) = unat b" by (rule unat_ucast_up) simp
    then show ?thesis using that by (subst unat_sub) (simp_all add: word_le_nat_alt)
  qed
  have "unat (rx_hdrlen a) + unat (rx_iv_len a) + unat (rx_icv_len a) + 8 \<le> unat (rxf_len f)"
    using assms(2) by (simp add: len hdr_size_def icv_size_def a_def)
  moreover from this have "unat (rxf_len f - ucast (rx_hdrlen a)) = unat (rxf_len f) - unat (rx_hdrlen a)" by (intro sub) simp
  moreover from calculation have "unat (rxf_len f - ucast (rx_hdrlen a) - ucast (rx_iv_len a)) =
      unat (rxf_len f) - unat (rx_hdrlen a) - unat (rx_iv_len a)" by (subst sub) simp_all
  moreover from calculation have "unat (rxf_len f - ucast (rx_hdrlen a) - ucast (rx_iv_len a) - ucast (rx_icv_len a)) =
      unat (rxf_len f) - unat (rx_hdrlen a) - unat (rx_iv_len a) - unat (rx_icv_len a)" by (subst sub) simp_all
  ultimately show ?thesis
    by (subst unat_sub) (simp_all add: word_le_nat_alt len hdr_size_def icv_size_def a_def)
qed

text \<open>
  C28 (functional): a unicast TKIP frame of a known station is accepted exactly when the eight
  bytes before its integrity value are the Michael code of its addresses, priority and
  payload; in both cases eight bytes are cut from its end, and a frame that fails after
  decryption is reported.
\<close>

theorem chkmic_accepts_iff:
  fixes st :: defrag_state and i :: nat
  defines "f \<equiv> rp_frames (ds_pool st) ! i"
  defines "n \<equiv> length (frame_bytes f) - hdr_size f - icv_size f - 8"
  assumes "of_sta en k f" and "rx_encrypt (rxf_attrib f) = TKIP_ENCRYPTION" and "\<not> is_multicast_ether_addr (rx_ra (rxf_attrib f))"
    and "length (rs_tkiprxmickey (rp_stas (ds_pool st) ! k)) = 8" and ok: "frame_ok f" and fit: "hdr_size f + icv_size f + 8 \<le> length (frame_bytes f)"
    and hdr: "24 \<le> hdr_size f" "frame_bytes f ! 1 AND 1 \<noteq> 0 \<Longrightarrow> frame_bytes f ! 1 AND 2 \<noteq> 0 \<Longrightarrow> 30 \<le> hdr_size f"
  shows "recvframe_chkmic en junk i st =
    (let accept = (take 8 (drop n (frag_body f)) =
           michael_ref (rs_tkiprxmickey (rp_stas (ds_pool st) ! k))
             (mic_pseudo_header (frame_bytes f) (rx_priority (rxf_attrib f)) @ take n (frag_body f)))
     in Some (if accept then SUCCESS else FAIL,
          upd_pool (upd_frame i (\<lambda>f. snd (recvframe_pull_tail 8 f)))
            (if \<not> accept \<and> rx_bdecrypted (rxf_attrib f) = 1 then rtw_handle_tkip_mic_err en False st else st)))"
proof -
  let ?a = "rxf_attrib f" and ?B = "frame_bytes f" and ?d = "nat (rxf_data f)" and ?key = "rs_tkiprxmickey (rp_stas (ds_pool st) ! k)"
  define dl where "dl = rxf_len f - ucast (rx_hdrlen ?a) - ucast (rx_iv_len ?a) - ucast (rx_icv_len ?a) - 8"
  have dl1: "unat dl = n" using chkmic_datalen [OF ok fit] by (simp add: dl_def n_def)
  then have dl: "unat dl = n" "uint dl = int n" by (simp_all only: uint_nat)
  obtain xs where buf: "drop ?d (rxf_buf f) = ?B @ xs" by (metis append_take_drop_id frame_bytes_def)
  have off0: "rxf_data f + uint (rx_hdrlen ?a) + uint (rx_iv_len ?a) = int (?d + hdr_size f)"
    using ok by (simp add: frame_ok_def hdr_size_def)
  then have off: "nat (rxf_data f + uint (rx_hdrlen ?a) + uint (rx_iv_len ?a)) = ?d + hdr_size f" by (simp only: nat_int)
  have body: "drop (?d + hdr_size f) (rxf_buf f) = frag_body f @ xs"
  proof -
    have "drop (?d + hdr_size f) (rxf_buf f) = drop (hdr_size f) (?B @ xs)" by (metis buf add.commute drop_drop)
    then show ?thesis using fit by (simp add: frag_body_def)
  qed
  have lb: "length (frag_body f) = n + icv_size f + 8" using fit by (simp add: frag_body_def n_def)
  have lB: "30 \<le> length ?B \<or> (24 \<le> length ?B \<and> \<not> (?B ! 1 AND 1 \<noteq> 0 \<and> ?B ! 1 AND 2 \<noteq> 0))" using hdr fit by linarith
  note pre = mic_pseudo_header_append [OF this]
  have mic: "rtw_seccalctkipmic junk ?key (drop ?d (rxf_buf f)) (drop (?d + hdr_size f) (rxf_buf f)) dl (rx_priority ?a) =
      Some (michael_ref ?key (mic_pseudo_header ?B (rx_priority ?a) @ take n (frag_body f)))"
    unfolding buf body using lB assms(6)
    by (subst seccalctkipmic_ref) (auto simp: dl lb pre nth_append)
  have "length (rxf_buf f) = ?d + hdr_size f + length (frag_body f @ xs)"
    using body buf fit ok by (metis (no_types, lifting) length_append length_drop le_add_diff_inverse drop_eq_Nil append_is_Nil_conv frame_ok_def add.commute nat_le_linear diff_is_0_eq length_0_conv lb add_is_0 zero_neq_numeral)
  then have "rd_bytes (rxf_buf f) (int (?d + hdr_size f + n)) (int 8) = Some (take 8 (drop (?d + hdr_size f + n) (rxf_buf f)))"
    by (intro rd_bytes_nat) (simp add: lb)
  moreover have "drop (?d + hdr_size f + n) (rxf_buf f) = drop n (frag_body f @ xs)"
    by (metis body add.commute drop_drop)
  moreover have "rxf_data f + uint (rx_hdrlen ?a) + uint (rx_iv_len ?a) + int n = int (?d + hdr_size f + n)"
    using off0 by simp
  ultimately have rd: "rd_bytes (rxf_buf f) (rxf_data f + uint (rx_hdrlen ?a) + uint (rx_iv_len ?a) + int n) 8 = Some (take 8 (drop n (frag_body f)))"
    using lb by simp
  show ?thesis
    using assms(3-5) mic rd
    by (auto simp: recvframe_chkmic_def Let_def f_def [symmetric] of_sta_def dl_def [symmetric] dl off)
qed

definition dx_tkip :: "byte list \<Rightarrow> rx_frame" where
  "dx_tkip ra = (let b = replicate 24 0 @ [9, 1, 2, 3, 4, 5, 6, 7, 8] in zero_frame
     \<lparr>rxf_attrib := (rxf_attrib zero_frame)\<lparr>rx_hdrlen := 24, rx_ta := [0, 1, 2, 3, 4, 5], rx_ra := ra, rx_encrypt := TKIP_ENCRYPTION\<rparr>,
      rxf_len := of_nat (length b), rxf_buf := b, rxf_tail := int (length b), rxf_end := int (length b)\<rparr>)"

theorem chkmic_accepts_iff_witness:
  "fst (the (recvframe_chkmic dx_env dx_junk 0 (dx_state [dx_tkip (replicate 6 0)] [] [] 0))) =
    (if [1, 2, 3, 4, 5, 6, 7, 8] = michael_ref [1, 2, 3, 4, 5, 6, 7, 8] (mic_pseudo_header (frame_bytes (dx_tkip (replicate 6 0))) 0 @ [9])
     then SUCCESS else FAIL)"
proof -
  let ?f = "dx_tkip (replicate 6 0)" and ?st = "dx_state [dx_tkip (replicate 6 0)] [] [] 0"
  have b: "frame_bytes ?f = replicate 24 0 @ [9, 1, 2, 3, 4, 5, 6, 7, 8]" by (simp add: dx_tkip_def frame_bytes_def zero_frame_def Let_def)
  have a: "hdr_size ?f = 24" "icv_size ?f = 0" "frag_body ?f = [9, 1, 2, 3, 4, 5, 6, 7, 8]"
    by (simp_all add: frag_body_def b) (simp_all add: dx_tkip_def hdr_size_def icv_size_def zero_frame_def Let_def)
  have p: "rx_priority (rxf_attrib ?f) = 0" "rp_stas (ds_pool ?st) ! 0 = \<lparr>rs_defrag_q = [], rs_UncstKey = [], rs_tkiprxmickey = [1, 2, 3, 4, 5, 6, 7, 8], rs_ieee8021x_blocked = False\<rparr>"
    "rp_frames (ds_pool ?st) ! 0 = ?f"
    by (simp_all add: dx_tkip_def dx_state_def zero_frame_def Let_def)
  have "of_sta dx_env 0 (rp_frames (ds_pool ?st) ! 0)" unfolding p by (rule of_sta_ex) (simp add: dx_tkip_def Let_def)
  moreover have "rx_encrypt (rxf_attrib (rp_frames (ds_pool ?st) ! 0)) = TKIP_ENCRYPTION"
    "\<not> is_multicast_ether_addr (rx_ra (rxf_attrib (rp_frames (ds_pool ?st) ! 0)))"
    "length (rs_tkiprxmickey (rp_stas (ds_pool ?st) ! 0)) = 8" "frame_ok (rp_frames (ds_pool ?st) ! 0)"
    unfolding p by (simp_all add: dx_tkip_def Let_def is_multicast_ether_addr_def frame_ok_def zero_frame_def)
  moreover have "hdr_size (rp_frames (ds_pool ?st) ! 0) + icv_size (rp_frames (ds_pool ?st) ! 0) + 8 \<le> length (frame_bytes (rp_frames (ds_pool ?st) ! 0))"
    "24 \<le> hdr_size (rp_frames (ds_pool ?st) ! 0)" "frame_bytes (rp_frames (ds_pool ?st) ! 0) ! 1 AND 1 = 0"
    unfolding p a b by (simp_all add: nth_append)
  ultimately show ?thesis
    using chkmic_accepts_iff [of dx_env 0 ?st 0 dx_junk] unfolding p a b Let_def by simp
qed

text \<open>
  Error: for a multicast TKIP frame of a known station with an installed group key
  \<open>recvframe_chkmic\<close> computes the code with a key pointer that was never set.
\<close>

theorem chkmic_group_key_unset:
  assumes "of_sta en k (rp_frames (ds_pool st) ! i)" and "rx_encrypt (rxf_attrib (rp_frames (ds_pool st) ! i)) = TKIP_ENCRYPTION"
    and "is_multicast_ether_addr (rx_ra (rxf_attrib (rp_frames (ds_pool st) ! i)))" and "binstallGrpkey (ds_sec st)"
  shows "recvframe_chkmic en junk i st = None"
  using assms by (simp add: recvframe_chkmic_def of_sta_def Let_def)

theorem chkmic_group_key_unset_witness:
  "recvframe_chkmic dx_env dx_junk 0 (dx_state [dx_tkip [1, 0, 0, 0, 0, 0]] [] [] 0) = None"
proof (rule chkmic_group_key_unset)
  show "of_sta dx_env 0 (rp_frames (ds_pool (dx_state [dx_tkip [1, 0, 0, 0, 0, 0]] [] [] 0)) ! 0)"
    by (rule of_sta_ex) (simp add: dx_tkip_def dx_state_def Let_def)
qed (simp_all add: dx_tkip_def dx_state_def dx_sec_def is_multicast_ether_addr_def Let_def)

text \<open>
  C29 (error): the second fragment is copied behind the first one before \<open>recvframe_put\<close> compares
  with the end of the buffer.  A first fragment of the usual buffer size and a second one that
  does not fit behind it make \<open>recvframe_chk_defrag\<close> write outside of the buffer.
\<close>

theorem defrag_overflows:
  fixes st :: defrag_state and p i :: nat
  defines "P \<equiv> rp_frames (ds_pool st) ! p" and "N \<equiv> rp_frames (ds_pool st) ! i"
  assumes inv: "pool_inv (ds_pool st)" "k < length (rp_stas (ds_pool st))" "i \<in> held (ds_pool st)" and q: "queue_of (DefragQ k) (ds_pool st) = [p]"
    and i: "of_sta en k N" "rx_mfrag (rxf_attrib N) = 0" "rx_frag_num (rxf_attrib N) = 1" "frag_ok N"
    and p: "rx_frag_num (rxf_attrib P) = 0" "frag_ok P"
    and big: "int (length (rxf_buf P)) < rxf_tail P - int (icv_size P) + int (length (frag_body N))"
  shows "recvframe_chk_defrag en junk i st = None"
proof -
  let ?t = "list_add_tail i (DefragQ k) (ds_pool st)"
  note a = add_to_defrag_queue [OF inv]
  have q': "queue_of (DefragQ k) ?t = [p, i]" using a(3) q by simp
  have k: "k < length (rp_stas ?t)" using a(5) inv(2) by simp
  have n: "frame_ok (snd (recvframe_pull (int (hdr_size N)) N))" "frame_bytes (snd (recvframe_pull (int (hdr_size N)) N)) = frag_body N"
    using i(4) int_length_frame_bytes [of N] by (simp_all add: frag_ok_def frame_ok_ops frame_bytes_pull frag_body_def)
  have off: "uint (rx_hdrlen (rxf_attrib N) + rx_iv_len (rxf_attrib N)) = int (hdr_size N)"
    using i(4) unat_add_lem [of "rx_hdrlen (rxf_attrib N)" "rx_iv_len (rxf_attrib N)"]
    by (simp only: frag_ok_def hdr_size_def uint_nat) simp
  have "int (icv_size P) \<le> rxf_tail P - rxf_data P" using p(2) int_length_frame_bytes [of P] by (simp add: frag_ok_def)
  then have tail: "rxf_tail (snd (recvframe_pull_tail (int (icv_size P)) P)) = rxf_tail P - int (icv_size P)"
    "rxf_buf (snd (recvframe_pull_tail (int (icv_size P)) P)) = rxf_buf P"
    using p(2) by (simp_all add: frag_ok_def recvframe_pull_ok)
  have "uint (rx_icv_len (rxf_attrib P)) = int (icv_size P)" by (simp add: icv_size_def)
  then have "defrag_append P N = None"
    using frame_bytes_buf [OF n(1)] n(2) off tail big by (simp add: defrag_append_def Let_def wr_bytes_def in_buf_def)
  then have "recvframe_defrag k ?t = None"
    using q' a(4) p(1) i(3) by (simp add: recvframe_defrag_def list_del_init_queues Let_def P_def N_def del: list_add_tail.simps queue_of.simps)
  then show ?thesis
    using i(2,3) by (simp add: recvframe_chk_defrag_def N_def [symmetric] pdefrag_q_of_sta [OF i(1)] enqueue_frag_def Let_def
        del: list_add_tail.simps)
qed

theorem defrag_overflows_witness:
  "recvframe_chk_defrag dx_env dx_junk 1
     (dx_state [dx_frame 1 0 7 [8, 0, 11, 12], dx_frame 0 1 7 [8, 0, 1, 2, 3, 4, 5]] [] [0] 0) = None"
proof -
  let ?st = "dx_state [dx_frame 1 0 7 [8, 0, 11, 12], dx_frame 0 1 7 [8, 0, 1, 2, 3, 4, 5]] [] [0] 0"
  have "of_sta dx_env 0 (rp_frames (ds_pool ?st) ! 1)" by (rule of_sta_ex) (simp add: dx_state_def dx_frame_def)
  then show ?thesis by (intro defrag_overflows [where k = 0 and p = 0]) (auto simp: dx_defs)
qed

definition rx_packet :: "defrag_env \<Rightarrow> mic_data \<Rightarrow> rx_frame \<Rightarrow> defrag_state \<Rightarrow> defrag_state option" where
  "rx_packet en junk = pool_receive
     (\<lambda>st. case rtw_alloc_recvframe FreeQ (ds_pool st) of (i, s) \<Rightarrow> (i, st\<lparr>ds_pool := s\<rparr>))
     (\<lambda>c i. upd_pool (upd_frame i (\<lambda>_. c))) (\<lambda>i. upd_pool (rtw_free_recvframe i FreeQ)) (recvframe_chk_defrag en junk)"

lemma init_pool:
  assumes "\<forall>t\<in>set (rp_stas s). rs_defrag_q t = []"
  shows "pool_inv (snd (rtw_init_recv_priv True res s))" "held (snd (rtw_init_recv_priv True res s)) = {}"
proof -
  have c: "concat (map rs_defrag_q (rp_stas s)) = []" using assms by simp
  show "pool_inv (snd (rtw_init_recv_priv True res s))" "held (snd (rtw_init_recv_priv True res s)) = {}"
    by (simp_all add: rtw_init_recv_priv_def Let_def pool_inv_def held_def queues_def c NR_RECVFRAME_def atLeast0LessThan del: upt_rec_numeral)
qed

text \<open>
  C27 (invariant): the initialization leaves a pool whose queues share no frame and hold all of
  them, with the counter of free frames right, and every packet that is received
  into a frame of the pool, given to \<open>recvframe_chk_defrag\<close> and freed when it is returned keeps
  it so: no frame is lost and none is in two places.
\<close>

theorem pool_never_leaks:
  shows "(\<forall>res s. (\<forall>t\<in>set (rp_stas s). rs_defrag_q t = []) \<longrightarrow>
      pool_inv (snd (rtw_init_recv_priv True res s)) \<and> held (snd (rtw_init_recv_priv True res s)) = {}) \<and>
    (\<forall>st st' cs. pool_inv (ds_pool st) \<and> held (ds_pool st) = {} \<and> tables_ok en (ds_pool st) \<and>
       list_all (\<lambda>c. rx_mfrag (rxf_attrib c) \<in> {0, 1}) cs \<and> run_all (rx_packet en junk) cs st = Some st' \<longrightarrow>
       pool_inv (ds_pool st') \<and> held (ds_pool st') = {})"
  using init_pool rx.receive_all_held [of _ en] unfolding rx_packet_def by blast

theorem pool_never_leaks_witness:
  "pool_inv (snd (rtw_init_recv_priv True SUCCESS (ds_pool (dx_state [] [] [] 31)))) \<and>
   (let en = dx_env\<lparr>en_stapriv := the (snd (rtw_init_sta_priv True (replicate 6 0)))\<rparr>;
        st' = the (run_all (rx_packet en dx_junk) [dx_frame 0 0 7 [8, 0, 1], dx_frame 1 0 8 [8, 0, 2]] (dx_state [zero_frame, zero_frame] [0, 1] [] 31))
    in pool_inv (ds_pool st') \<and> held (ds_pool st') = {})"
proof -
  let ?sp = "the (snd (rtw_init_sta_priv True (replicate 6 0)))"
  let ?en = "dx_env\<lparr>en_stapriv := ?sp\<rparr>" and ?st = "dx_state [zero_frame, zero_frame] [0, 1] [] 31"
  let ?cs = "[dx_frame 0 0 7 [8, 0, 1], dx_frame 1 0 8 [8, 0, 2]]"
  have sp: "rtw_init_sta_priv True (replicate 6 0) = (SUCCESS, Some ?sp)" by (simp add: rtw_init_sta_priv_def)
  note init = init_table [OF sp]
  have get: "rtw_get_stainfo ?sp (Some a) = Inr None" for a using get_stainfo_map [OF init(1,2), of a] init(3) by simp
  have q: "pdefrag_q ?en (dx_frame m n k [8, 0, b]) = Some None" for m n k b
    by (simp add: pdefrag_q_def get rx_frame_type_def dx_frame_def zero_frame_def rd_bytes_def in_buf_def le16_of_def WIFI_DATA_TYPE_def)
  have "tables_ok ?en (ds_pool ?st)" using init(1,2) by (simp add: tables_ok_def dx_state_def)
  moreover have "pool_inv (ds_pool ?st)" "held (ds_pool ?st) = {}" by (auto simp: dx_state_def pool_inv_def held_def queues_def)
  moreover have "list_all (\<lambda>c. rx_mfrag (rxf_attrib c) \<in> {0, 1}) ?cs" by (simp add: dx_frame_def)
  moreover have "\<exists>st'. run_all (rx_packet ?en dx_junk) ?cs ?st = Some st'"
    by (simp add: rx_packet_def pool_receive_def rtw_alloc_recvframe_def dx_state_def upd_pool_def upd_frame_def list_del_init_def
        recvframe_chk_defrag_def q enqueue_frag_def rtw_free_recvframe_def Let_def)
      (simp add: dx_frame_def zero_frame_def)
  then obtain st' where st': "run_all (rx_packet ?en dx_junk) ?cs ?st = Some st'" by blast
  ultimately have "pool_inv (ds_pool st') \<and> held (ds_pool st') = {}"
    using conjunct2 [OF pool_never_leaks [of ?en dx_junk]] by blast
  moreover have "\<forall>t\<in>set (rp_stas (ds_pool (dx_state [] [] [] 31))). rs_defrag_q t = []" by (simp add: dx_state_def)
  then have "pool_inv (snd (rtw_init_recv_priv True SUCCESS (ds_pool (dx_state [] [] [] 31))))"
    using conjunct1 [OF pool_never_leaks [of ?en dx_junk]] by blast
  ultimately show ?thesis by (simp only: Let_def st' option.sel)
qed

end
