(* ===== verification/Wlan_Hdr.thy ===== *)
theory Wlan_Hdr
  imports Prelude "HOL-Library.Monad_Syntax"
begin

text \<open>
  The accessors of the 802.11 header of src/include/wifi.h, and the states of
  src/include/rtw_mlme.h the data path asks for.  A header lies at a position of a buffer;
  the macros read and write 16-bit words there, least significant byte first.

  Shown: the accessors return what a header was built from.
\<close>

section \<open>Words in buffers\<close>

definition put16 :: "u16 \<Rightarrow> byte list" where
  "put16 v = [ucast v, ucast (drop_bit 8 v)]"

definition get16 :: "byte list \<Rightarrow> int \<Rightarrow> u16 option" where
  "get16 mem p = map_option (\<lambda>b. le16_of (b ! 0) (b ! 1)) (rd_bytes mem p 2)"

definition upd16 :: "(u16 \<Rightarrow> u16) \<Rightarrow> byte list \<Rightarrow> int \<Rightarrow> byte list option" where
  "upd16 g mem p = do { v \<leftarrow> get16 mem p; wr_bytes mem p (put16 (g v)) }"

section \<open>Frame control\<close>

definition TO_DS :: u16 where "TO_DS = push_bit 8 1"
definition FROM_DS :: u16 where "FROM_DS = push_bit 9 1"
definition MORE_FRAG :: u16 where "MORE_FRAG = push_bit 10 1"
definition RETRY :: u16 where "RETRY = push_bit 11 1"
definition PWRMGT :: u16 where "PWRMGT = push_bit 12 1"
definition MORE_DATA :: u16 where "MORE_DATA = push_bit 13 1"
definition PRIVACY :: u16 where "PRIVACY = push_bit 14 1"
definition ORDER :: u16 where "ORDER = push_bit 15 1"

definition SetToDs :: "byte list \<Rightarrow> int \<Rightarrow> byte list option" where "SetToDs = upd16 (\<lambda>v. v OR TO_DS)"
definition SetFrDs :: "byte list \<Rightarrow> int \<Rightarrow> byte list option" where "SetFrDs = upd16 (\<lambda>v. v OR FROM_DS)"
definition SetMFrag :: "byte list \<Rightarrow> int \<Rightarrow> byte list option" where "SetMFrag = upd16 (\<lambda>v. v OR MORE_FRAG)"
definition ClearMFrag :: "byte list \<Rightarrow> int \<Rightarrow> byte list option" where "ClearMFrag = upd16 (\<lambda>v. v AND NOT MORE_FRAG)"
definition SetMData :: "byte list \<Rightarrow> int \<Rightarrow> byte list option" where "SetMData = upd16 (\<lambda>v. v OR MORE_DATA)"
definition SetPrivacy :: "byte list \<Rightarrow> int \<Rightarrow> byte list option" where "SetPrivacy = upd16 (\<lambda>v. v OR PRIVACY)"

definition SetFrameSubType :: "u16 \<Rightarrow> byte list \<Rightarrow> int \<Rightarrow> byte list option" where
  "SetFrameSubType type = upd16 (\<lambda>v. (v AND NOT 0x00fc) OR type)"

definition hdr_flag :: "u16 \<Rightarrow> byte list \<Rightarrow> int \<Rightarrow> bool option" where
  "hdr_flag m mem p = map_option (\<lambda>v. v AND m \<noteq> 0) (get16 mem p)"

definition GetToDs :: "byte list \<Rightarrow> int \<Rightarrow> bool option" where "GetToDs = hdr_flag TO_DS"
definition GetFrDs :: "byte list \<Rightarrow> int \<Rightarrow> bool option" where "GetFrDs = hdr_flag FROM_DS"
definition GetMFrag :: "byte list \<Rightarrow> int \<Rightarrow> bool option" where "GetMFrag = hdr_flag MORE_FRAG"
definition GetPwrMgt :: "byte list \<Rightarrow> int \<Rightarrow> bool option" where "GetPwrMgt = hdr_flag PWRMGT"
definition GetMData :: "byte list \<Rightarrow> int \<Rightarrow> bool option" where "GetMData = hdr_flag MORE_DATA"
definition GetPrivacy :: "byte list \<Rightarrow> int \<Rightarrow> bool option" where "GetPrivacy = hdr_flag PRIVACY"
definition GetOrder :: "byte list \<Rightarrow> int \<Rightarrow> bool option" where "GetOrder = hdr_flag ORDER"
definition GetRetry :: "byte list \<Rightarrow> int \<Rightarrow> bool option" where "GetRetry = hdr_flag RETRY"

definition GetType :: "byte list \<Rightarrow> int \<Rightarrow> u16 option" where
  "GetType mem p = map_option (\<lambda>v. v AND 0x000c) (get16 mem p)"

definition GetSubType :: "byte list \<Rightarrow> int \<Rightarrow> u16 option" where
  "GetSubType mem p = map_option (\<lambda>v. v AND 0x00fc) (get16 mem p)"

definition get_tofr_ds :: "byte list \<Rightarrow> int \<Rightarrow> nat option" where
  "get_tofr_ds mem p = do {
     t \<leftarrow> GetToDs mem p;
     f \<leftarrow> GetFrDs mem p;
     Some (2 * of_bool t + of_bool f)
   }"

section \<open>Sequence control, QoS control and addresses\<close>

definition GetSequence :: "byte list \<Rightarrow> int \<Rightarrow> u16 option" where
  "GetSequence mem p = map_option (drop_bit 4) (get16 mem (p + 22))"

definition GetFragNum :: "byte list \<Rightarrow> int \<Rightarrow> u16 option" where
  "GetFragNum mem p = map_option (\<lambda>v. v AND 0x000f) (get16 mem (p + 22))"

definition SetSeqNum :: "u16 \<Rightarrow> byte list \<Rightarrow> int \<Rightarrow> byte list option" where
  "SetSeqNum num mem p = upd16 (\<lambda>v. (v AND 0x000f) OR (0xfff0 AND push_bit 4 num)) mem (p + 22)"

definition SetPriority :: "byte \<Rightarrow> byte list \<Rightarrow> int \<Rightarrow> byte list option" where
  "SetPriority tid = upd16 (\<lambda>v. v OR (ucast tid AND 0x000f))"

definition SetEOSP :: "byte \<Rightarrow> byte list \<Rightarrow> int \<Rightarrow> byte list option" where
  "SetEOSP eosp = upd16 (\<lambda>v. v OR push_bit 4 (ucast eosp AND 1))"

definition SetAckpolicy :: "byte \<Rightarrow> byte list \<Rightarrow> int \<Rightarrow> byte list option" where
  "SetAckpolicy ack = upd16 (\<lambda>v. v OR push_bit 5 (ucast ack AND 3))"

definition GetPriority :: "byte list \<Rightarrow> int \<Rightarrow> u16 option" where
  "GetPriority mem p = map_option (\<lambda>v. v AND 0x000f) (get16 mem p)"

definition GetAckpolicy :: "byte list \<Rightarrow> int \<Rightarrow> u16 option" where
  "GetAckpolicy mem p = map_option (\<lambda>v. drop_bit 5 v AND 3) (get16 mem p)"

definition GetAMsdu :: "byte list \<Rightarrow> int \<Rightarrow> u16 option" where
  "GetAMsdu mem p = map_option (\<lambda>v. drop_bit 7 v AND 1) (get16 mem p)"

definition GetAddr1Ptr :: "int \<Rightarrow> int" where "GetAddr1Ptr p = p + 4"
definition GetAddr2Ptr :: "int \<Rightarrow> int" where "GetAddr2Ptr p = p + 10"
definition GetAddr3Ptr :: "int \<Rightarrow> int" where "GetAddr3Ptr p = p + 16"
definition GetAddr4Ptr :: "int \<Rightarrow> int" where "GetAddr4Ptr p = p + 24"

definition get_da :: "byte list \<Rightarrow> int \<Rightarrow> int option" where
  "get_da mem p = map_option (\<lambda>t. if t < 2 then GetAddr1Ptr p else GetAddr3Ptr p) (get_tofr_ds mem p)"

definition get_sa :: "byte list \<Rightarrow> int \<Rightarrow> int option" where
  "get_sa mem p =
     map_option (\<lambda>t. if t = 0 \<or> t = 2 then GetAddr2Ptr p else if t = 1 then GetAddr3Ptr p else GetAddr4Ptr p) (get_tofr_ds mem p)"

definition get_hdr_bssid :: "byte list \<Rightarrow> int \<Rightarrow> int option" where
  "get_hdr_bssid mem p =
     map_option (\<lambda>t. if t = 0 then GetAddr3Ptr p else if t = 1 then GetAddr2Ptr p else GetAddr1Ptr p) (get_tofr_ds mem p)"

section \<open>States of the interface\<close>

definition WIFI_ASOC_STATE :: u32 where "WIFI_ASOC_STATE = 0x00000001"
definition WIFI_SLEEP_STATE :: u32 where "WIFI_SLEEP_STATE = 0x00000004"
definition WIFI_STATION_STATE :: u32 where "WIFI_STATION_STATE = 0x00000008"
definition WIFI_AP_STATE :: u32 where "WIFI_AP_STATE = 0x00000010"
definition WIFI_ADHOC_STATE :: u32 where "WIFI_ADHOC_STATE = 0x00000020"
definition WIFI_ADHOC_MASTER_STATE :: u32 where "WIFI_ADHOC_MASTER_STATE = 0x00000040"
definition WIFI_UNDER_LINKING :: u32 where "WIFI_UNDER_LINKING = 0x00000080"
definition WIFI_MP_STATE :: u32 where "WIFI_MP_STATE = 0x00010000"

definition check_fwstate :: "u32 \<Rightarrow> u32 \<Rightarrow> bool" where
  "check_fwstate fw_state state \<longleftrightarrow> fw_state AND state \<noteq> 0"

text \<open>
  \<open>enum dot11AuthAlgrthmNum\<close> of src/include/rtw_mlme.h and the cipher of a frame:
  \<open>GET_ENCRY_ALGO\<close> of the algorithm, the ciphers of the network, of its groups and of
  the station leaves \<open>encrypt\<close> as it was for an unknown algorithm.
\<close>

definition dot11AuthAlgrthm_Open :: u32 where "dot11AuthAlgrthm_Open = 0"
definition dot11AuthAlgrthm_Shared :: u32 where "dot11AuthAlgrthm_Shared = 1"
definition dot11AuthAlgrthm_8021X :: u32 where "dot11AuthAlgrthm_8021X = 2"
definition dot11AuthAlgrthm_Auto :: u32 where "dot11AuthAlgrthm_Auto = 3"
definition dot11AuthAlgrthm_WAPI :: u32 where "dot11AuthAlgrthm_WAPI = 4"

definition GET_ENCRY_ALGO :: "u32 \<Rightarrow> u32 \<Rightarrow> u32 \<Rightarrow> u32 \<Rightarrow> byte \<Rightarrow> bool \<Rightarrow> byte" where
  "GET_ENCRY_ALGO auth privacy grp_privacy sta_privacy encry_algo bmcst =
     (if auth = dot11AuthAlgrthm_Open \<or> auth = dot11AuthAlgrthm_Shared \<or> auth = dot11AuthAlgrthm_Auto then ucast privacy
      else if auth = dot11AuthAlgrthm_8021X then (if bmcst then ucast grp_privacy else ucast sta_privacy)
      else if auth = dot11AuthAlgrthm_WAPI then ucast privacy
      else encry_algo)"

section \<open>Lemmas\<close>

lemma length_put16 [simp, len_simps]: "length (put16 v) = 2"
  by (simp add: put16_def)

lemma le16_put16 [simp]: "le16_of (put16 v ! 0) (put16 v ! Suc 0) = v"
  by (rule bit_word_eqI) (auto simp: le16_of_def put16_def bit_simps)

lemma wr_bytes_at:
  "n = int (length pre) \<Longrightarrow> length old = length new \<Longrightarrow> wr_bytes (pre @ old @ post) n new = Some (pre @ new @ post)"
  by (simp add: wr_bytes_nat overlay_def)

lemma rd_bytes_at: "n = int (length pre) \<Longrightarrow> l = int (length xs) \<Longrightarrow> rd_bytes (pre @ xs @ post) n l = Some xs"
  by (simp add: rd_bytes_nat)

lemma get16_at: "n = int (length pre) \<Longrightarrow> get16 (pre @ put16 v @ post) n = Some v"
  by (simp add: get16_def rd_bytes_at)

lemma upd16_at: "n = int (length pre) \<Longrightarrow> upd16 g (pre @ put16 v @ post) n = Some (pre @ put16 (g v) @ post)"
  by (simp add: upd16_def get16_at wr_bytes_at)

text \<open>A header with three addresses; the bytes behind the sequence control are left open.\<close>

definition hdr3 :: "u16 \<Rightarrow> byte list \<Rightarrow> byte list \<Rightarrow> byte list \<Rightarrow> byte list \<Rightarrow> u16 \<Rightarrow> byte list" where
  "hdr3 fc dur a1 a2 a3 sc = put16 fc @ dur @ a1 @ a2 @ a3 @ put16 sc"

definition hdr3_ok :: "byte list \<Rightarrow> byte list \<Rightarrow> byte list \<Rightarrow> byte list \<Rightarrow> bool" where
  "hdr3_ok dur a1 a2 a3 \<longleftrightarrow> length dur = 2 \<and> length a1 = 6 \<and> length a2 = 6 \<and> length a3 = 6"

lemma length_hdr3: "hdr3_ok dur a1 a2 a3 \<Longrightarrow> length (hdr3 fc dur a1 a2 a3 sc) = 24"
  by (simp add: hdr3_def hdr3_ok_def)

lemma hdr3_get:
  assumes "hdr3_ok dur a1 a2 a3" and p: "p = int (length pre)"
  shows "get16 (pre @ hdr3 fc dur a1 a2 a3 sc @ post) p = Some fc"
    "get16 (pre @ hdr3 fc dur a1 a2 a3 sc @ post) (p + 22) = Some sc"
    "rd_bytes (pre @ hdr3 fc dur a1 a2 a3 sc @ post) (p + 4) 6 = Some a1"
    "rd_bytes (pre @ hdr3 fc dur a1 a2 a3 sc @ post) (p + 10) 6 = Some a2"
    "rd_bytes (pre @ hdr3 fc dur a1 a2 a3 sc @ post) (p + 16) 6 = Some a3"
proof -
  note l = assms(1) [unfolded hdr3_ok_def] and h = hdr3_def [of fc dur a1 a2 a3 sc]
  show "get16 (pre @ hdr3 fc dur a1 a2 a3 sc @ post) p = Some fc"
    using get16_at [of p pre fc "dur @ a1 @ a2 @ a3 @ put16 sc @ post"] p by (simp add: h)
  show "get16 (pre @ hdr3 fc dur a1 a2 a3 sc @ post) (p + 22) = Some sc"
    using get16_at [of "p + 22" "pre @ put16 fc @ dur @ a1 @ a2 @ a3" sc post] l p by (simp add: h)
  show "rd_bytes (pre @ hdr3 fc dur a1 a2 a3 sc @ post) (p + 4) 6 = Some a1"
    using rd_bytes_at [of "p + 4" "pre @ put16 fc @ dur" 6 a1 "a2 @ a3 @ put16 sc @ post"] l p by (simp add: h)
  show "rd_bytes (pre @ hdr3 fc dur a1 a2 a3 sc @ post) (p + 10) 6 = Some a2"
    using rd_bytes_at [of "p + 10" "pre @ put16 fc @ dur @ a1" 6 a2 "a3 @ put16 sc @ post"] l p by (simp add: h)
  show "rd_bytes (pre @ hdr3 fc dur a1 a2 a3 sc @ post) (p + 16) 6 = Some a3"
    using rd_bytes_at [of "p + 16" "pre @ put16 fc @ dur @ a1 @ a2" 6 a3 "put16 sc @ post"] l p by (simp add: h)
qed

lemma hdr3_upd:
  assumes "hdr3_ok dur a1 a2 a3" and p: "p = int (length pre)"
  shows "upd16 g (pre @ hdr3 fc dur a1 a2 a3 sc @ post) p = Some (pre @ hdr3 (g fc) dur a1 a2 a3 sc @ post)"
    "upd16 g (pre @ hdr3 fc dur a1 a2 a3 sc @ post) (p + 22) = Some (pre @ hdr3 fc dur a1 a2 a3 (g sc) @ post)"
proof -
  note l = assms(1) [unfolded hdr3_ok_def]
  show "upd16 g (pre @ hdr3 fc dur a1 a2 a3 sc @ post) p = Some (pre @ hdr3 (g fc) dur a1 a2 a3 sc @ post)"
    using upd16_at [of p pre g fc "dur @ a1 @ a2 @ a3 @ put16 sc @ post"] p by (simp add: hdr3_def)
  show "upd16 g (pre @ hdr3 fc dur a1 a2 a3 sc @ post) (p + 22) = Some (pre @ hdr3 fc dur a1 a2 a3 (g sc) @ post)"
    using upd16_at [of "p + 22" "pre @ put16 fc @ dur @ a1 @ a2 @ a3" g sc post] l p by (simp add: hdr3_def)
qed

lemma hdr3_wr:
  assumes "hdr3_ok dur a1 a2 a3" and p: "p = int (length pre)" and "length b = 6"
  shows "wr_bytes (pre @ hdr3 fc dur a1 a2 a3 sc @ post) (p + 4) b = Some (pre @ hdr3 fc dur b a2 a3 sc @ post)"
    "wr_bytes (pre @ hdr3 fc dur a1 a2 a3 sc @ post) (p + 10) b = Some (pre @ hdr3 fc dur a1 b a3 sc @ post)"
    "wr_bytes (pre @ hdr3 fc dur a1 a2 a3 sc @ post) (p + 16) b = Some (pre @ hdr3 fc dur a1 a2 b sc @ post)"
proof -
  note l = assms(1) [unfolded hdr3_ok_def]
  show "wr_bytes (pre @ hdr3 fc dur a1 a2 a3 sc @ post) (p + 4) b = Some (pre @ hdr3 fc dur b a2 a3 sc @ post)"
    using wr_bytes_at [of "p + 4" "pre @ put16 fc @ dur" a1 b "a2 @ a3 @ put16 sc @ post"] l p assms(3) by (simp add: hdr3_def)
  show "wr_bytes (pre @ hdr3 fc dur a1 a2 a3 sc @ post) (p + 10) b = Some (pre @ hdr3 fc dur a1 b a3 sc @ post)"
    using wr_bytes_at [of "p + 10" "pre @ put16 fc @ dur @ a1" a2 b "a3 @ put16 sc @ post"] l p assms(3) by (simp add: hdr3_def)
  show "wr_bytes (pre @ hdr3 fc dur a1 a2 a3 sc @ post) (p + 16) b = Some (pre @ hdr3 fc dur a1 a2 b sc @ post)"
    using wr_bytes_at [of "p + 16" "pre @ put16 fc @ dur @ a1 @ a2" a3 b "put16 sc @ post"] l p assms(3) by (simp add: hdr3_def)
qed

lemma replicate_zero_hdr3: "replicate 24 0 = hdr3 0 [0, 0] (replicate 6 0) (replicate 6 0) (replicate 6 0) 0"
  by (simp add: hdr3_def put16_def numeral_eq_Suc)

end
