(* ===== verification/Arc4.thy ===== *)
theory Arc4
  imports Prelude "HOL-Library.Multiset"
begin

text \<open>
  The ARC4 stream cipher of src/core/rtw_security.c (\<open>struct arc4context\<close>,
  \<open>arcfour_init\<close>, \<open>arcfour_byte\<close>, \<open>arcfour_encrypt\<close>).  The loops over the
  256-byte state are folds over the counter; \<open>arcfour_encrypt\<close> reads \<open>src[i]\<close>
  before it writes \<open>dest[i]\<close>, so the in-place calls of the driver are the
  list function below.

  Shown: the state array is a permutation of 0..255 at every moment, and
  encrypting twice from the same context is the identity, which is what the
  receive path relies on.
\<close>

section \<open>Definitions\<close>

record arc4context =
  arc_x :: u32
  arc_y :: u32
  arc_state :: "byte list"

text \<open>
  One turn of the key-scheduling loop.  The triple is
  \<open>(state, stateindex, keyindex)\<close>.
\<close>

definition arcfour_init_step ::
  "byte list \<Rightarrow> nat \<Rightarrow> nat \<Rightarrow> byte list \<times> u32 \<times> nat \<Rightarrow> byte list \<times> u32 \<times> nat" where
  "arcfour_init_step key key_len counter s =
     (let (state, stateindex, keyindex) = s;
          t = ucast (state ! counter) :: u32;
          stateindex' = (stateindex + ucast (key ! keyindex) + t) AND 0xff;
          u = ucast (state ! unat stateindex') :: u32;
          state1 = state[unat stateindex' := ucast t];
          state2 = state1[counter := ucast u];
          keyindex' = (if keyindex + 1 \<ge> key_len then 0 else keyindex + 1)
      in (state2, stateindex', keyindex'))"

definition arcfour_init :: "byte list \<Rightarrow> nat \<Rightarrow> arc4context" where
  "arcfour_init key key_len =
     (let state0 = map of_nat [0..<256];
          (state, _, _) = fold (arcfour_init_step key key_len) [0..<256] (state0, 0, 0)
      in \<lparr>arc_x = 0, arc_y = 0, arc_state = state\<rparr>)"

definition arcfour_byte :: "arc4context \<Rightarrow> u32 \<times> arc4context" where
  "arcfour_byte ctx =
     (let x = (arc_x ctx + 1) AND 0xff;
          sx = ucast (arc_state ctx ! unat x) :: u32;
          y = (sx + arc_y ctx) AND 0xff;
          sy = ucast (arc_state ctx ! unat y) :: u32;
          state1 = (arc_state ctx)[unat y := ucast sx];
          state2 = state1[unat x := ucast sy]
      in (ucast (state2 ! unat ((sx + sy) AND 0xff)),
          \<lparr>arc_x = x, arc_y = y, arc_state = state2\<rparr>))"

fun arcfour_encrypt :: "arc4context \<Rightarrow> byte list \<Rightarrow> byte list \<times> arc4context" where
  "arcfour_encrypt ctx [] = ([], ctx)"
| "arcfour_encrypt ctx (b # bs) =
     (let (k, ctx') = arcfour_byte ctx;
          (ds, ctx'') = arcfour_encrypt ctx' bs
      in ((b XOR ucast k) # ds, ctx''))"

section \<open>The state is a permutation\<close>

definition arc4_perm :: "byte list \<Rightarrow> bool" where
  "arc4_perm st \<longleftrightarrow> mset st = mset (map of_nat [0..<256])"

definition arc4_wf :: "arc4context \<Rightarrow> bool" where
  "arc4_wf ctx \<longleftrightarrow> arc4_perm (arc_state ctx)"

lemma mset_swap_byte:
  assumes "i < length xs" and "j < length xs"
  shows "mset (xs[j := xs ! i, i := xs ! j]) = mset (xs :: byte list)"
proof (cases "i = j")
  case True
  then show ?thesis by simp
next
  case False
  with assms show ?thesis by (metis mset_swap list_update_swap)
qed

lemma arc4_perm_length: "arc4_perm st \<Longrightarrow> length st = 256"
  unfolding arc4_perm_def by (drule mset_eq_length) simp

lemma arc4_perm_swap:
  "arc4_perm st \<Longrightarrow> i < 256 \<Longrightarrow> j < 256 \<Longrightarrow> arc4_perm (st[j := st ! i, i := st ! j])"
  by (frule arc4_perm_length) (simp add: arc4_perm_def mset_swap_byte)

lemma ucast_byte_u32_byte [simp]: "ucast (ucast (b :: byte) :: u32) = b"
  by (simp add: unsigned_ucast_eq take_bit_word_eq_self)

lemma arcfour_init_step_perm:
  "arc4_perm (fst s) \<Longrightarrow> c < 256 \<Longrightarrow> arc4_perm (fst (arcfour_init_step key n c s))"
  by (cases s) (simp add: arcfour_init_step_def Let_def arc4_perm_swap unat_and_255_less)

lemma fold_init_step_perm:
  "arc4_perm (fst s) \<Longrightarrow> \<forall>c \<in> set cs. c < 256 \<Longrightarrow>
   arc4_perm (fst (fold (arcfour_init_step key n) cs s))"
  by (induction cs arbitrary: s) (auto simp: arcfour_init_step_perm)

lemma arcfour_init_wf: "arc4_wf (arcfour_init key n)"
  using fold_init_step_perm [of "(map of_nat [0..<256], 0, 0)" "[0..<256]" key n]
  by (auto simp: arc4_wf_def arc4_perm_def arcfour_init_def Let_def split: prod.splits)

lemma arcfour_byte_wf: "arc4_wf ctx \<Longrightarrow> arc4_wf (snd (arcfour_byte ctx))"
  by (simp add: arc4_wf_def arcfour_byte_def Let_def arc4_perm_swap unat_and_255_less)

lemma arcfour_encrypt_wf: "arc4_wf ctx \<Longrightarrow> arc4_wf (snd (arcfour_encrypt ctx bs))"
  by (induction ctx bs rule: arcfour_encrypt.induct)
     (auto simp: Let_def split: prod.splits dest: arcfour_byte_wf)

section \<open>A cipher that xors a key stream\<close>

text \<open>
  What the WEP and TKIP code relies on: encryption keeps lengths, encrypting in
  several calls is the same as encrypting in one, and a second pass from the
  same context undoes the first.
\<close>

locale stream_cipher =
  fixes crypt :: "'ctx \<Rightarrow> byte list \<Rightarrow> byte list \<times> 'ctx"
  assumes crypt_append:
    "crypt c (xs @ ys) =
       (let (a, c1) = crypt c xs; (b, c2) = crypt c1 ys in (a @ b, c2))"
    and crypt_length: "length (fst (crypt c xs)) = length xs"
    and crypt_involution: "fst (crypt c (fst (crypt c xs))) = xs"
    and crypt_oblivious: "length xs = length ys \<Longrightarrow> snd (crypt c xs) = snd (crypt c ys)"
begin

lemma crypt_inj: "fst (crypt c xs) = fst (crypt c ys) \<Longrightarrow> xs = ys"
  using crypt_involution by metis

text \<open>A change of the input in a window changes the output in that window only.\<close>

lemma crypt_window:
  assumes "length xs = length ys" and "xs \<noteq> ys"
  shows "\<exists>u' xs' ys' v'. fst (crypt c (u @ xs @ v)) = u' @ xs' @ v' \<and>
    fst (crypt c (u @ ys @ v)) = u' @ ys' @ v' \<and>
    length u' = length u \<and> length xs' = length xs \<and> length ys' = length ys \<and>
    length v' = length v \<and> xs' \<noteq> ys'"
proof -
  obtain u' c1 where u: "crypt c u = (u', c1)" by force
  obtain xs' c2 where x: "crypt c1 xs = (xs', c2)" by force
  obtain ys' where y: "crypt c1 ys = (ys', c2)"
    using crypt_oblivious [OF assms(1), of c1] x by (metis prod.collapse snd_conv)
  obtain v' c3 where v: "crypt c2 v = (v', c3)" by force
  have "xs' \<noteq> ys'" using crypt_inj [of c1 xs ys] assms(2) x y by auto
  moreover note crypt_length [of c u] crypt_length [of c1 xs] crypt_length [of c1 ys] crypt_length [of c2 v]
  ultimately show ?thesis using u x y v by (auto simp: crypt_append)
qed

lemma crypt_two_calls:
  assumes "crypt c xs = (a, c1)" and "crypt c1 ys = (b, c2)"
  shows "fst (crypt c (a @ b)) = xs @ ys"
  using crypt_involution [of c "xs @ ys"] assms by (simp add: crypt_append)

end

lemma arcfour_encrypt_append:
  "arcfour_encrypt c (xs @ ys) =
     (let (a, c1) = arcfour_encrypt c xs; (b, c2) = arcfour_encrypt c1 ys in (a @ b, c2))"
  by (induction c xs rule: arcfour_encrypt.induct) (auto simp: Let_def split: prod.splits)

lemma length_arcfour_encrypt [len_simps, simp]:
  "length (fst (arcfour_encrypt c xs)) = length xs"
  by (induction c xs rule: arcfour_encrypt.induct) (auto simp: Let_def split: prod.splits)

lemma arcfour_encrypt_twice: "fst (arcfour_encrypt c (fst (arcfour_encrypt c xs))) = xs"
  by (induction c xs rule: arcfour_encrypt.induct) (auto simp: Let_def split: prod.splits)

lemma arcfour_encrypt_oblivious:
  "length xs = length ys \<Longrightarrow> snd (arcfour_encrypt c xs) = snd (arcfour_encrypt c ys)"
proof (induction xs ys arbitrary: c rule: list_induct2)
  case (Cons x xs y ys)
  then show ?case by (simp add: Let_def split_beta)
qed simp

interpretation arc4: stream_cipher arcfour_encrypt
  by unfold_locales
    (fact arcfour_encrypt_append length_arcfour_encrypt arcfour_encrypt_twice
      arcfour_encrypt_oblivious)+

section \<open>Properties\<close>

text \<open>
  The ARC4 state is a permutation: After \<open>arcfour_init\<close> with any key and
  any sequence of calls of \<open>arcfour_encrypt\<close>, the 256-byte state array holds
  each byte value exactly once; in particular the two index computations stay in
  range.
\<close>

theorem arc4_state_permutation:
  "arc4_perm (arc_state (fold (\<lambda>bs ctx. snd (arcfour_encrypt ctx bs)) calls (arcfour_init key n)))"
proof -
  have "arc4_wf ctx \<Longrightarrow> arc4_wf (fold (\<lambda>bs ctx. snd (arcfour_encrypt ctx bs)) calls ctx)" for ctx
    by (induction calls arbitrary: ctx) (simp_all add: arcfour_encrypt_wf)
  then show ?thesis using arcfour_init_wf by (simp add: arc4_wf_def)
qed

end
