(* ===== verification/Crc32.thy ===== *)
theory Crc32
  imports Prelude
begin

text \<open>
  The CRC-32 of src/core/rtw_security.c, used as the integrity check value of
  WEP and TKIP: the table builder \<open>crc32_init\<close> with its bit reversals, and the
  table-driven \<open>getcrc32\<close>.  The reference is the bit-serial CRC with the
  reflected polynomial; the table-driven routine is proved equal to it, and
  every error confined to four consecutive bytes is shown to change the
  checksum.
\<close>

section \<open>Definitions\<close>

definition CRC32_POLY :: u32 where "CRC32_POLY = 0x04c11db7"

definition crc32_reverseBit :: "byte \<Rightarrow> byte" where
  "crc32_reverseBit data =
     (push_bit 7 data AND 0x80) OR (push_bit 5 data AND 0x40) OR
     (push_bit 3 data AND 0x20) OR (push_bit 1 data AND 0x10) OR
     (drop_bit 1 data AND 0x08) OR (drop_bit 3 data AND 0x04) OR
     (drop_bit 5 data AND 0x02) OR (drop_bit 7 data AND 0x01)"

fun crc32_shift :: "nat \<Rightarrow> u32 \<Rightarrow> u32" where
  "crc32_shift 0 c = c"
| "crc32_shift (Suc j) c =
     crc32_shift j (if c AND 0x80000000 \<noteq> 0 then push_bit 1 c XOR CRC32_POLY else push_bit 1 c)"

text \<open>
  One entry of the table.  \<open>p[n]\<close> is byte \<open>n\<close> of the little-endian word \<open>c\<close>,
  and the four stores to \<open>p1\<close> build the entry from its reversed bytes.
\<close>

definition crc32_entry :: "byte \<Rightarrow> u32" where
  "crc32_entry i =
     (let k = crc32_reverseBit i;
          c = crc32_shift 8 (push_bit 24 (ucast k));
          p = le32_bytes c
      in ucast (crc32_reverseBit (p ! 3)) OR
         push_bit 8 (ucast (crc32_reverseBit (p ! 2))) OR
         push_bit 16 (ucast (crc32_reverseBit (p ! 1))) OR
         push_bit 24 (ucast (crc32_reverseBit (p ! 0))))"

definition crc32_table :: "u32 list" where
  "crc32_table = map (\<lambda>i. crc32_entry (of_nat i)) [0..<256]"

text \<open>
  The file-scope variables \<open>bcrc32initialized\<close> and \<open>crc32_table\<close>; static
  storage starts as zero.
\<close>

record crc32_statics =
  bcrc32initialized :: bool
  crc32_tab :: "u32 list"

definition crc32_boot :: crc32_statics where
  "crc32_boot = \<lparr>bcrc32initialized = False, crc32_tab = replicate 256 0\<rparr>"

definition crc32_init :: "crc32_statics \<Rightarrow> crc32_statics" where
  "crc32_init st =
     (if bcrc32initialized st then st
      else st\<lparr>crc32_tab := crc32_table, bcrc32initialized := True\<rparr>)"

definition getcrc32_step :: "u32 list \<Rightarrow> u32 \<Rightarrow> byte \<Rightarrow> u32" where
  "getcrc32_step tab crc p = tab ! unat ((crc XOR ucast p) AND 0xff) XOR drop_bit 8 crc"

definition getcrc32_static :: "crc32_statics \<Rightarrow> byte list \<Rightarrow> u32 \<times> crc32_statics" where
  "getcrc32_static st buf =
     (let st' = (if \<not> bcrc32initialized st then crc32_init st else st)
      in (NOT (foldl (getcrc32_step (crc32_tab st')) 0xffffffff buf), st'))"

text \<open>
  The value \<open>getcrc32\<close> returns once the table is built.  The static variables
  play no other role (lemma \<open>getcrc32_static_ok\<close> below), so the callers of
  the other theories use this function.
\<close>

definition getcrc32 :: "byte list \<Rightarrow> u32" where
  "getcrc32 buf = NOT (foldl (getcrc32_step crc32_table) 0xffffffff buf)"

section \<open>Reference: the bit-serial CRC\<close>

definition crc32_bit :: "u32 \<Rightarrow> u32" where
  "crc32_bit c = (if c AND 1 \<noteq> 0 then drop_bit 1 c XOR 0xedb88320 else drop_bit 1 c)"

definition crc32_byte :: "u32 \<Rightarrow> byte \<Rightarrow> u32" where
  "crc32_byte crc p = (crc32_bit ^^ 8) (crc XOR ucast p)"

definition crc32_ref :: "byte list \<Rightarrow> u32" where
  "crc32_ref buf = NOT (foldl crc32_byte 0xffffffff buf)"

section \<open>The lazily initialised table\<close>

definition crc32_statics_ok :: "crc32_statics \<Rightarrow> bool" where
  "crc32_statics_ok st \<longleftrightarrow> (bcrc32initialized st \<longrightarrow> crc32_tab st = crc32_table)"

lemma crc32_boot_ok: "crc32_statics_ok crc32_boot"
  by (simp add: crc32_statics_ok_def crc32_boot_def)

lemma getcrc32_static_ok:
  "crc32_statics_ok st \<Longrightarrow>
   getcrc32_static st buf = (getcrc32 buf, snd (getcrc32_static st buf)) \<and>
   crc32_statics_ok (snd (getcrc32_static st buf))"
  by (auto simp: crc32_statics_ok_def getcrc32_static_def getcrc32_def crc32_init_def Let_def)


section \<open>The table holds eight bit steps\<close>

lemma less_8E:
  assumes "(n::nat) < 8"
  obtains "n = 0" | "n = 1" | "n = 2" | "n = 3" | "n = 4" | "n = 5" | "n = 6" | "n = 7"
  using assms by linarith

lemma bit_crc32_reverseBit: "bit (crc32_reverseBit b) n \<longleftrightarrow> n < 8 \<and> bit b (7 - n)"
proof (cases "n < 8")
  case True
  have "bit (b * 2) 4 = bit b 3"
    using bit_double_iff [of b 4] by (simp add: mult.commute)
  with True show ?thesis
    by (elim less_8E) (simp_all add: crc32_reverseBit_def bit_simps)
next
  case False
  then show ?thesis by (auto dest: bit_imp_le_length)
qed

lemma crc32_reverseBit_twice: "crc32_reverseBit (crc32_reverseBit b) = b"
  by (rule bit_word_eqI) (auto simp: bit_crc32_reverseBit)

lemma bit_rev32: "bit (word_reverse (c :: u32)) n \<longleftrightarrow> n < 32 \<and> bit c (31 - n)"
  by (simp add: bit_word_reverse_iff)

lemma crc32_entry_rev:
  "crc32_entry i = word_reverse (crc32_shift 8 (push_bit 24 (ucast (crc32_reverseBit i))))"
    (is "_ = word_reverse ?c")
proof (rule bit_word_eqI)
  fix n assume "n < LENGTH(32)"
  then consider "n < 8" | "8 \<le> n" "n < 16" | "16 \<le> n" "n < 24" | "24 \<le> n" "n < 32" by force
  then show "bit (crc32_entry i) n \<longleftrightarrow> bit (word_reverse ?c) n"
    by cases (auto simp: crc32_entry_def Let_def le32_bytes_def bit_rev32 bit_simps
        bit_crc32_reverseBit)
qed

lemma crc32_poly_rev: "word_reverse CRC32_POLY = 0xedb88320"
  by code_simp

lemma word_reverse_xor: "word_reverse (a XOR b :: u32) = word_reverse a XOR word_reverse b"
  by (rule bit_word_eqI) (simp add: bit_rev32 bit_simps)

lemma word_reverse_shift: "word_reverse (push_bit 1 c :: u32) = drop_bit 1 (word_reverse c)"
  by (rule bit_word_eqI) (auto simp: bit_rev32 bit_simps simp del: push_bit_Suc drop_bit_Suc)

lemma msb_mask_reverse: "(c :: u32) AND 0x80000000 \<noteq> 0 \<longleftrightarrow> word_reverse c AND 1 \<noteq> 0"
proof -
  have "(0x80000000 :: u32) = push_bit 31 1" by simp
  then have "c AND 0x80000000 \<noteq> 0 \<longleftrightarrow> bit c 31"
    by (metis bit_iff_and_push_bit_not_eq_0)
  also have "\<dots> \<longleftrightarrow> bit (word_reverse c) 0" by (simp add: bit_rev32)
  also have "\<dots> \<longleftrightarrow> word_reverse c AND 1 \<noteq> 0" by (simp add: bit_0 and_one_eq odd_iff_mod_2_eq_one)
  finally show ?thesis .
qed

lemma crc32_shift_rev: "word_reverse (crc32_shift n c) = (crc32_bit ^^ n) (word_reverse c)"
proof (induction n arbitrary: c)
  case (Suc n)
  have "word_reverse (if c AND 0x80000000 \<noteq> 0 then push_bit 1 c XOR CRC32_POLY else push_bit 1 c)
      = crc32_bit (word_reverse c)"
    by (simp add: crc32_bit_def word_reverse_xor word_reverse_shift crc32_poly_rev msb_mask_reverse
        del: push_bit_Suc drop_bit_Suc One_nat_def)
  then show ?case
    by (simp only: crc32_shift.simps Suc.IH funpow_Suc_right comp_def)
qed simp

lemma crc32_entry_bits: "crc32_entry i = (crc32_bit ^^ 8) (ucast i)"
proof -
  have "word_reverse (push_bit 24 (ucast (crc32_reverseBit i)) :: u32) = ucast i"
  proof (rule bit_word_eqI)
    fix n assume "n < LENGTH(32)"
    then show "bit (word_reverse (push_bit 24 (ucast (crc32_reverseBit i))) :: u32) n = bit (ucast i :: u32) n"
      by (cases "n < 8")
         (auto simp: bit_rev32 bit_simps bit_crc32_reverseBit dest: bit_byte_less)
  qed
  then show ?thesis by (simp add: crc32_entry_rev crc32_shift_rev)
qed

section \<open>The table-driven routine is the bit-serial CRC\<close>

lemma crc32_bit_xor: "crc32_bit (a XOR b) = crc32_bit a XOR crc32_bit b"
proof -
  have "(a XOR b) AND 1 \<noteq> 0 \<longleftrightarrow> (a AND 1 \<noteq> 0) \<noteq> (b AND 1 \<noteq> 0)"
    by (simp add: and_one_eq odd_xor_word flip: odd_iff_mod_2_eq_one)
  then show ?thesis
    by (auto simp: crc32_bit_def drop_bit_xor ac_simps simp del: drop_bit_Suc)
qed

lemma crc32_bits_xor: "(crc32_bit ^^ n) (a XOR b) = (crc32_bit ^^ n) a XOR (crc32_bit ^^ n) b"
  by (induction n) (simp_all add: crc32_bit_xor)

text \<open>Bits shifted out of a register whose low bits are clear never meet the polynomial.\<close>

lemma crc32_bits_clear:
  "(\<forall>i<n. \<not> bit c i) \<Longrightarrow> (crc32_bit ^^ n) c = drop_bit n c"
proof (induction n arbitrary: c)
  case (Suc n)
  from Suc.prems have "c AND 1 = 0" by (auto simp: and_one_eq bit_0 odd_iff_mod_2_eq_one)
  moreover have "\<forall>i<n. \<not> bit (drop_bit 1 c) i" using Suc.prems by (simp add: bit_simps)
  ultimately show ?case
    using Suc.IH [of "drop_bit 1 c"]
    by (simp add: funpow_Suc_right crc32_bit_def drop_bit_drop_bit del: funpow.simps drop_bit_Suc)
qed simp

lemma split_low_byte: "(c :: u32) = (c AND 0xff) XOR (c AND NOT 0xff)"
  by (rule bit_word_eqI) (auto simp: bit_simps)

lemma crc32_eight_bits:
  "(crc32_bit ^^ 8) c = (crc32_bit ^^ 8) (c AND 0xff) XOR drop_bit 8 c"
proof -
  have "(crc32_bit ^^ 8) (c AND NOT 0xff) = drop_bit 8 (c AND NOT 0xff)"
    by (rule crc32_bits_clear) (simp add: bit_simps)
  also have "\<dots> = drop_bit 8 c"
    by (rule bit_word_eqI) (simp only: bit_drop_bit_eq comp_def bit_and_iff bit_not_iff bit_255_u32,
        auto dest: bit_imp_le_length)
  finally show ?thesis
    by (subst split_low_byte) (simp only: crc32_bits_xor)
qed

lemma ucast_low_byte: "ucast (ucast (w AND 0xff :: u32) :: byte) = (w AND 0xff :: u32)"
  by (rule bit_word_eqI) (auto simp: bit_simps)

lemma getcrc32_step_eq: "getcrc32_step crc32_table crc p = crc32_byte crc p"
proof -
  let ?w = "crc XOR ucast p"
  have "crc32_table ! unat (?w AND 0xff) = (crc32_bit ^^ 8) (?w AND 0xff)"
    by (simp add: crc32_table_def unat_and_255_less crc32_entry_bits ucast_low_byte)
  moreover have "drop_bit 8 ?w = drop_bit 8 crc"
    by (rule bit_word_eqI) (auto simp: bit_simps dest: bit_byte_less)
  ultimately show ?thesis
    by (simp add: getcrc32_step_def crc32_byte_def crc32_eight_bits [of ?w])
qed

lemma getcrc32_ref: "getcrc32 buf = crc32_ref buf"
  by (simp add: getcrc32_def crc32_ref_def getcrc32_step_eq [abs_def])

section \<open>Bursts of up to four bytes are detected\<close>

lemma crc32_bit_inj: "crc32_bit a = crc32_bit b \<Longrightarrow> a = b"
proof -
  have z: "c = 0" if "crc32_bit c = 0" for c
  proof (cases "c AND 1 = 0")
    case True
    then have "\<not> bit c 0" by (simp add: and_one_eq bit_0 odd_iff_mod_2_eq_one)
    moreover from that True have "drop_bit 1 c = 0" by (simp add: crc32_bit_def)
    then have "\<not> bit c (Suc n)" for n
      using bit_drop_bit_eq [of 1 c] by (metis add.commute bit_0_eq bot_apply bot_bool_def comp_apply plus_1_eq_Suc)
    ultimately have "\<not> bit c n" for n by (cases n) auto
    then show ?thesis by (simp add: bit_eq_iff)
  next
    case False
    with that have "drop_bit 1 c = 0xedb88320"
      by (simp add: crc32_bit_def) (metis xor_cancel_left xor.right_neutral xor.commute)
    moreover have "\<not> bit (drop_bit 1 c) 31" by (auto simp: bit_simps dest: bit_imp_le_length)
    ultimately show ?thesis by simp
  qed
  assume "crc32_bit a = crc32_bit b"
  then have "crc32_bit (a XOR b) = 0" by (simp add: crc32_bit_xor)
  from z [OF this] show "a = b" by (metis xor_cancel_left xor.right_neutral)
qed

lemma crc32_bits_inj: "(crc32_bit ^^ n) a = (crc32_bit ^^ n) b \<Longrightarrow> a = b"
  by (induction n) (auto dest: crc32_bit_inj)

lemma crc32_fold_inj: "foldl crc32_byte a xs = foldl crc32_byte b xs \<Longrightarrow> a = b"
  by (induction xs arbitrary: a b) (force simp: crc32_byte_def dest: crc32_bits_inj)+

text \<open>Four bytes enter the register as one 32-bit word.\<close>

lemma ucast_via_bits: "k \<le> 24 \<Longrightarrow> (crc32_bit ^^ k) (push_bit k (ucast (b :: byte))) = ucast b"
proof -
  assume k: "k \<le> 24"
  have "(crc32_bit ^^ k) (push_bit k (ucast b)) = drop_bit k (push_bit k (ucast b))"
    by (rule crc32_bits_clear) (simp add: bit_simps)
  also have "\<dots> = ucast b"
    using k by (intro bit_word_eqI) (auto simp: bit_simps, drule bit_byte_less, simp)
  finally show ?thesis .
qed

lemma crc32_four_bytes:
  "foldl crc32_byte c [b0, b1, b2, b3] = (crc32_bit ^^ 32) (c XOR le32_of b0 b1 b2 b3)"
proof -
  let ?F = "crc32_bit ^^ 8"
  have p0: "(crc32_bit ^^ 32) x = ?F (?F (?F (?F x)))" for x
    by (simp only: funpow_add [symmetric, THEN fun_cong, unfolded comp_apply]) simp
  have p8: "(crc32_bit ^^ 32) (push_bit 8 (ucast b1)) = ?F (?F (?F (ucast b1)))"
    using ucast_via_bits [of 8 b1] by (simp only: p0)
  have p16: "(crc32_bit ^^ 32) (push_bit 16 (ucast b2)) = ?F (?F (ucast b2))"
    using ucast_via_bits [of 16 b2] funpow_add [of 16 16 crc32_bit] funpow_add [of 8 8 crc32_bit] by simp
  have p24: "(crc32_bit ^^ 32) (push_bit 24 (ucast b3)) = ?F (ucast b3)"
    using ucast_via_bits [of 24 b3] funpow_add [of 8 24 crc32_bit] by simp
  show ?thesis
    by (simp only: le32_of_def crc32_bits_xor p8 p16 p24,
        simp only: crc32_bits_xor p0 foldl.simps crc32_byte_def ac_simps)
qed

lemma crc32_burst:
  assumes "length xs = 4" and "length ys = 4"
    and "crc32_ref (pre @ xs @ post) = crc32_ref (pre @ ys @ post)"
  shows "xs = ys"
proof -
  obtain a0 a1 a2 a3 where xs: "xs = [a0, a1, a2, a3]"
    using assms(1) by (auto simp: length_Suc_conv numeral_eq_Suc)
  obtain b0 b1 b2 b3 where ys: "ys = [b0, b1, b2, b3]"
    using assms(2) by (auto simp: length_Suc_conv numeral_eq_Suc)
  let ?c = "foldl crc32_byte 0xffffffff pre"
  have "foldl crc32_byte ?c xs = foldl crc32_byte ?c ys"
    using assms(3) by (auto simp: crc32_ref_def dest: crc32_fold_inj)
  then have "le32_of a0 a1 a2 a3 = le32_of b0 b1 b2 b3"
    unfolding xs ys crc32_four_bytes by (auto dest: crc32_bits_inj)
  then show ?thesis unfolding xs ys by (rule le32_of_inj)
qed

section \<open>Properties\<close>

text \<open>A sequence of calls, the static table and its flag threaded through them.\<close>

fun getcrc32_calls :: "crc32_statics \<Rightarrow> byte list list \<Rightarrow> u32 list" where
  "getcrc32_calls st [] = []"
| "getcrc32_calls st (b # bs) =
     (let (c, st') = getcrc32_static st b in c # getcrc32_calls st' bs)"

lemma getcrc32_calls_ok: "crc32_statics_ok st \<Longrightarrow> getcrc32_calls st bs = map getcrc32 bs"
proof (induction bs arbitrary: st)
  case (Cons b bs)
  from getcrc32_static_ok [OF Cons.prems, of b] obtain st' where
    "getcrc32_static st b = (getcrc32 b, st')" "crc32_statics_ok st'" by (metis prod.collapse)
  with Cons.IH show ?case by simp
qed simp

text \<open>
  C5 (the table-driven checksum is CRC-32).  Whatever calls came before, the
  first of which fills the static table by bit reversal and eight polynomial
  steps per entry, \<open>getcrc32\<close> returns the bit-serial CRC-32 of IEEE 802.3
  (reflected polynomial 0xEDB88320, preset and complement all ones).
\<close>

theorem getcrc32_is_crc32: "getcrc32_calls crc32_boot bufs = map crc32_ref bufs"
  using getcrc32_calls_ok [OF crc32_boot_ok, of bufs] by (simp add: getcrc32_ref)

end
