(* ===== verification/Wep.thy ===== *)
theory Wep
  imports Arc4 Crc32 Frame
begin

text \<open>
  WEP (\<open>rtw_wep_encrypt\<close>, \<open>rtw_wep_decrypt\<close> of src/core/rtw_security.c) and
  the ARC4 sealing of a fragment that WEP and TKIP have in common.

  Shown: the ARC4 sealing is undone by the receiver with a matching ICV, for
  any key; the fragment loop of WEP leaves fragments which a receiver with the
  same default key recovers; what the receiver does with a frame it cannot use.
\<close>

section \<open>ARC4 sealing of a fragment\<close>

text \<open>
  The four statements of the sender after the key is set up: the ICV is taken
  over the \<open>len\<close> bytes at \<open>payload\<close>, these are encrypted in place and the ICV
  is encrypted behind them from the same context.
\<close>

definition rc4_seal ::
  "byte list \<Rightarrow> nat \<Rightarrow> int \<Rightarrow> int \<Rightarrow> byte list \<Rightarrow> byte list option" where
  "rc4_seal key key_len payload len mem = do {
     p \<leftarrow> rd_bytes mem payload len;
     let crc = le32_bytes (getcrc32 p);
     let (c, ctx) = arcfour_encrypt (arcfour_init key key_len) p;
     mem1 \<leftarrow> wr_bytes mem payload c;
     wr_bytes mem1 (payload + len) (fst (arcfour_encrypt ctx crc))
   }"

text \<open>
  The ICV comparison of the receiver, with the short-circuit evaluation of
  \<open>||\<close>: a byte is read only when the bytes before it matched.
\<close>

fun icv_match :: "(byte \<times> int) list \<Rightarrow> byte list \<Rightarrow> bool option" where
  "icv_match [] mem = Some True"
| "icv_match ((c, i) # cs) mem = do {
     b \<leftarrow> rd mem i;
     if c \<noteq> b then Some False else icv_match cs mem
   }"

text \<open>\<open>getcrc32\<close> called with a signed length runs no turn for a negative one.\<close>

definition crc_of_prefix :: "byte list \<Rightarrow> int \<Rightarrow> byte list" where
  "crc_of_prefix p n = le32_bytes (getcrc32 (take (nat n) p))"

definition rc4_unseal ::
  "byte list \<Rightarrow> nat \<Rightarrow> int \<Rightarrow> int \<Rightarrow> byte list \<Rightarrow> (byte list \<times> bool) option" where
  "rc4_unseal key key_len payload len mem = do {
     c \<leftarrow> rd_bytes mem payload len;
     let p = fst (arcfour_encrypt (arcfour_init key key_len) c);
     mem1 \<leftarrow> wr_bytes mem payload p;
     let crc = crc_of_prefix p (len - 4);
     ok \<leftarrow> icv_match [(crc ! 3, payload + len - 1), (crc ! 2, payload + len - 2),
                      (crc ! 1, payload + len - 3), (crc ! 0, payload + len - 4)] mem1;
     Some (mem1, ok)
   }"

section \<open>WEP\<close>

text \<open>
  \<open>wepkey\<close>: the three IV bytes followed by the default key.  The array has 16
  bytes, so a key longer than 13 bytes would be written outside it.
\<close>

definition wep_key :: "security_priv \<Rightarrow> int \<Rightarrow> byte list \<Rightarrow> (byte list \<times> nat) option" where
  "wep_key sec idx iv = do {
     keylength \<leftarrow> rd (dot11DefKeylen sec) idx;
     k \<leftarrow> rd (dot11DefKey sec) idx;
     skey \<leftarrow> rd_bytes k 0 (int (unat keylength));
     if 3 + unat keylength \<le> 16 then Some (iv @ skey, 3 + unat keylength) else None
   }"

definition wep_encrypt_frag ::
  "security_priv \<Rightarrow> tx_pkt_attrib \<Rightarrow> int \<Rightarrow> byte list \<Rightarrow> byte list option" where
  "wep_encrypt_frag sec a len mem = do {
     iv \<leftarrow> rd_bytes mem (uint (tx_hdrlen a)) 3;
     (wepkey, n) \<leftarrow> wep_key sec (uint (dot11PrivacyKeyIndex sec)) iv;
     rc4_seal wepkey n (uint (tx_iv_len a) + uint (tx_hdrlen a)) len mem
   }"

definition is_wep :: "byte \<Rightarrow> bool" where
  "is_wep e \<longleftrightarrow> e = WEP40_ENCRYPTION \<or> e = WEP104_ENCRYPTION"

definition rtw_wep_encrypt :: "security_priv \<Rightarrow> u32 \<Rightarrow> xmit_frame \<Rightarrow> xmit_frame option" where
  "rtw_wep_encrypt sec frag_len xf =
     (case buf_addr xf of
        None \<Rightarrow> Some xf
      | Some addr \<Rightarrow>
          let a = tx_attrib xf; off = hw_hdr_offset xf in
          if is_wep (tx_encrypt a) then do {
            _ \<leftarrow> rd (dot11DefKeylen sec) (uint (dot11PrivacyKeyIndex sec));
            mem \<leftarrow> xmit_frag_loop (wep_encrypt_frag sec a) a frag_len (unat (nr_frags a))
                     (addr + off) (drop off (xf_buf xf));
            Some (xf\<lparr>xf_buf := take off (xf_buf xf) @ mem\<rparr>)
          } else Some xf)"

definition rtw_wep_decrypt :: "security_priv \<Rightarrow> recv_frame \<Rightarrow> recv_frame option" where
  "rtw_wep_decrypt sec rf =
     (let a = rf_attrib rf in
      if is_wep (rx_encrypt a) then do {
        iv \<leftarrow> rd_bytes (rx_data rf) (uint (rx_hdrlen a)) 3;
        (wepkey, n) \<leftarrow> wep_key sec (uint (rx_key_index a)) iv;
        (mem, icv_ok) \<leftarrow> rc4_unseal wepkey n (uint (rx_iv_len a) + uint (rx_hdrlen a))
                           (rx_payload_len rf) (rx_data rf);
        Some (rf\<lparr>rx_data := mem\<rparr>)
      } else Some rf)"

section \<open>The receiver undoes the sender\<close>

lemma rc4_seal_eq:
  assumes "b + l + 4 \<le> length mem"
  defines "p \<equiv> take l (drop b mem)"
  shows "rc4_seal key n (int b) (int l) mem =
    Some (overlay mem b (fst (arcfour_encrypt (arcfour_init key n) (p @ le32_bytes (getcrc32 p)))))"
proof -
  obtain c ctx where c: "arcfour_encrypt (arcfour_init key n) p = (c, ctx)" by force
  obtain d ctx' where d: "arcfour_encrypt ctx (le32_bytes (getcrc32 p)) = (d, ctx')" by force
  have len: "length c = l" "length d = 4" "length p = l"
    using length_arcfour_encrypt [of "arcfour_init key n" p, unfolded c fst_conv]
      length_arcfour_encrypt [of ctx "le32_bytes (getcrc32 p)", unfolded d fst_conv] assms(1)
    by (auto simp: p_def)
  have "rd_bytes mem (int b) (int l) = Some p"
    unfolding p_def using assms(1) by (intro rd_bytes_nat) simp
  moreover have "wr_bytes mem (int b) c = Some (overlay mem b c)"
    using assms(1) len by (intro wr_bytes_nat) simp
  moreover have "wr_bytes (overlay mem b c) (int b + int l) d = Some (overlay mem b (c @ d))"
    using assms(1) len wr_bytes_nat [of "b + l" d "overlay mem b c"] overlay_append [of b c d mem]
    by (simp add: length_overlay)
  moreover have "fst (arcfour_encrypt (arcfour_init key n) (p @ le32_bytes (getcrc32 p))) = c @ d"
    by (simp add: arcfour_encrypt_append c d)
  ultimately show ?thesis by (simp add: rc4_seal_def c d)
qed

lemma icv_match_list:
  "\<forall>(c, i) \<in> set cs. \<exists>j < length mem. i = int j \<Longrightarrow>
   icv_match cs mem = Some (\<forall>(c, i) \<in> set cs. c = mem ! nat i)"
  by (induction cs) (auto simp: rd_nat)

lemma le32_bytes_nth:
  "le32_bytes v = [le32_bytes v ! 0, le32_bytes v ! 1, le32_bytes v ! 2, le32_bytes v ! 3]"
  by (simp add: le32_bytes_def)

lemma rc4_unseal_eq:
  assumes "length pre = b" and "length c = l + 4"
    and p_def: "p = fst (arcfour_encrypt (arcfour_init key n) c)"
  shows "rc4_unseal key n (int b) (int (l + 4)) (pre @ c) =
    Some (pre @ p, drop l p = le32_bytes (getcrc32 (take l p)))"
proof -
  have len: "length p = l + 4" by (simp add: p_def assms(2))
  define v where "v = getcrc32 (take l p)"
  have crc: "crc_of_prefix p (int (l + 4) - 4) = le32_bytes v"
    by (simp add: crc_of_prefix_def v_def)
  have rd: "rd_bytes (pre @ c) (int b) (int (l + 4)) = Some c"
    using assms(1,2) rd_bytes_nat [of b "l + 4" "pre @ c"] by simp
  have wr: "wr_bytes (pre @ c) (int b) p = Some (pre @ p)"
    using assms(1,2) len wr_bytes_nat [of b p "pre @ c"] by (simp add: overlay_end)
  define cs where "cs = [(le32_bytes v ! 3, int (b + l + 3)), (le32_bytes v ! 2, int (b + l + 2)),
      (le32_bytes v ! 1, int (b + l + 1)), (le32_bytes v ! 0, int (b + l))]"
  have "icv_match cs (pre @ p) =
      Some (\<forall>(c, i) \<in> set cs. c = (pre @ p) ! nat i)"
    by (rule icv_match_list) (auto simp: cs_def assms(1) len intro: exI [of _ "b + l"]
        exI [of _ "b + l + 1"] exI [of _ "b + l + 2"] exI [of _ "b + l + 3"])
  also have "(\<forall>(c, i) \<in> set cs. c = (pre @ p) ! nat i) \<longleftrightarrow>
      drop l p = [le32_bytes v ! 0, le32_bytes v ! 1, le32_bytes v ! 2, le32_bytes v ! 3]"
  proof -
    have "drop l p = [p ! l, p ! (l + 1), p ! (l + 2), p ! (l + 3)]"
      by (rule nth_equalityI) (auto simp: len less_Suc_eq numeral_eq_Suc)
    then show ?thesis
      by (auto simp: cs_def assms(1) nth_append nat_add_distrib simp flip: of_nat_add)
  qed
  also have "\<dots> \<longleftrightarrow> drop l p = le32_bytes v" by (simp only: le32_bytes_nth [symmetric])
  finally have "icv_match cs (pre @ p) = Some (drop l p = le32_bytes v)" .
  moreover have "cs = [(le32_bytes v ! 3, int b + int (l + 4) - 1),
      (le32_bytes v ! 2, int b + int (l + 4) - 2), (le32_bytes v ! 1, int b + int (l + 4) - 3),
      (le32_bytes v ! 0, int b + int (l + 4) - 4)]"
    by (simp add: cs_def)
  ultimately show ?thesis
    unfolding rc4_unseal_def v_def [symmetric]
    by (simp only: rd wr crc p_def [symmetric] Let_def bind.bind_lunit)
qed

lemma take_drop_split: "take b m @ take l (drop b m) = take (b + l) m"
  by (simp add: take_add)

lemma rc4_roundtrip:
  assumes "b + l + 4 \<le> length mem" and "rc4_seal key n (int b) (int l) mem = Some mem'"
  shows "rc4_unseal key n (int b) (int (l + 4)) (take (b + l + 4) mem') =
    Some (take (b + l) mem @ le32_bytes (getcrc32 (take l (drop b mem))), True)"
    and "length mem' = length mem" and "drop (b + l + 4) mem' = drop (b + l + 4) mem"
    and "take b mem' = take b mem"
proof -
  define p where "p = take l (drop b mem)"
  define q where "q = p @ le32_bytes (getcrc32 p)"
  define c where "c = fst (arcfour_encrypt (arcfour_init key n) q)"
  have len: "length p = l" "length q = l + 4" "length c = l + 4"
    using assms(1) by (auto simp: p_def q_def c_def)
  have mem': "mem' = overlay mem b c"
    using assms(2) rc4_seal_eq [OF assms(1), of key n] by (simp add: p_def q_def c_def)
  have t: "take (b + l + 4) mem' = take b mem @ c"
    using assms(1) len take_overlay_end [of b c mem] by (simp add: mem' add.assoc)
  have "fst (arcfour_encrypt (arcfour_init key n) c) = q"
    by (simp add: c_def arcfour_encrypt_twice)
  moreover have "take l q = p" "drop l q = le32_bytes (getcrc32 p)"
    using len by (simp_all add: q_def)
  moreover have "take b mem @ q = take (b + l) mem @ le32_bytes (getcrc32 p)"
    by (simp add: q_def p_def take_drop_split)
  ultimately show "rc4_unseal key n (int b) (int (l + 4)) (take (b + l + 4) mem') =
    Some (take (b + l) mem @ le32_bytes (getcrc32 (take l (drop b mem))), True)"
    using assms(1) len by (subst t, subst rc4_unseal_eq [OF _ _ refl]) (simp_all add: p_def)
  show "length mem' = length mem" "drop (b + l + 4) mem' = drop (b + l + 4) mem"
      "take b mem' = take b mem"
    using assms(1) len by (simp_all add: mem' length_overlay drop_overlay_ge take_overlay_le)
qed

text \<open>
  A frame that differs from an accepted one in a window of four bytes of the
  payload has a wrong ICV.
\<close>

lemma rc4_unseal_burst:
  assumes "rc4_unseal key n (int b) (int (l + 4)) (pre @ u @ xs @ v) = Some (m, True)"
    and "length pre = b" and "length (u @ xs @ v) = l + 4" and "4 \<le> length v"
    and "length xs = 4" and "length ys = 4" and "xs \<noteq> ys"
  shows "\<exists>m'. rc4_unseal key n (int b) (int (l + 4)) (pre @ u @ ys @ v) = Some (m', False)"
proof -
  let ?e = "\<lambda>c. fst (arcfour_encrypt (arcfour_init key n) c)"
  obtain u' xs' ys' v' where w: "?e (u @ xs @ v) = u' @ xs' @ v'" "?e (u @ ys @ v) = u' @ ys' @ v'"
      and len: "length u' = length u" "length xs' = 4" "length ys' = 4" "length v' = length v" "xs' \<noteq> ys'"
    using arc4.crypt_window [of xs ys "arcfour_init key n" u v] assms(5,6,7) by auto
  have l: "length (u' @ xs' @ v') = l + 4" "length (u' @ ys' @ v') = l + 4"
    using assms(3,5) len by simp_all
  have tails: "take l (u' @ z @ v') = u' @ z @ take (length v' - 4) v'"
      "drop l (u' @ z @ v') = drop (length v' - 4) v'" if "length z = 4" for z
    using l(1) len assms(4) that by (auto simp: take_append drop_append)
  have "drop (length v' - 4) v' = le32_bytes (getcrc32 (u' @ xs' @ take (length v' - 4) v'))"
    using rc4_unseal_eq [OF assms(2,3) refl, of key n] assms(1) w(1) tails [OF len(2)] by simp
  moreover have "getcrc32 (u' @ xs' @ q) \<noteq> getcrc32 (u' @ ys' @ q)" for q
    using crc32_burst [OF len(2,3), of u' q] len(5) by (auto simp: getcrc32_ref)
  moreover have "le32_bytes x = le32_bytes y \<longleftrightarrow> x = y" for x y
    by (metis le32_of_bytes)
  ultimately have "drop l (u' @ ys' @ v') \<noteq> le32_bytes (getcrc32 (take l (u' @ ys' @ v')))"
    using tails [OF len(3)] by metis
  moreover have "length (u @ ys @ v) = l + 4" using assms(3,5,6) by simp
  from rc4_unseal_eq [OF assms(2) this refl, of key n] w(2)
  have "rc4_unseal key n (int b) (int (l + 4)) (pre @ u @ ys @ v) =
    Some (pre @ u' @ ys' @ v', drop l (u' @ ys' @ v') = le32_bytes (getcrc32 (take l (u' @ ys' @ v'))))"
    by simp
  ultimately show ?thesis by simp
qed

lemma rc4_seal_total: "b + l + 4 \<le> length mem \<Longrightarrow> \<exists>mem'. rc4_seal key n (int b) (int l) mem = Some mem'"
  by (simp add: rc4_seal_eq)

text \<open>
  What WEP and TKIP need: a sender \<open>enc\<close> that seals with some ARC4 key, and a
  receiver \<open>dec\<close> that derives the same key from the untouched \<open>b\<close> bytes before
  the payload.
\<close>

lemma rc4_contract:
  assumes "enc (int k) mem = rc4_seal key m (int b) (int k) mem"
    and "\<And>c. length c = k + 4 \<Longrightarrow> length (take b mem @ c) < 2 ^ 31 \<Longrightarrow>
      dec (take b mem @ c) = f (rc4_unseal key m (int b) (int (k + 4)) (take b mem @ c))"
    and "n = b + k + 4" and "n \<le> length mem"
  shows "\<exists>mem'. enc (int k) mem = Some mem' \<and>
      length mem' = length mem \<and> drop n mem' = drop n mem \<and>
      (n < 2 ^ 31 \<longrightarrow> dec (take n mem') =
         f (Some (take (b + k) mem @ le32_bytes (getcrc32 (take k (drop b mem))), True)))"
proof -
  have fit: "b + k + 4 \<le> length mem" using assms by simp
  obtain mem' where s: "rc4_seal key m (int b) (int k) mem = Some mem'"
    using rc4_seal_total [OF fit] by blast
  note rt = rc4_roundtrip [OF fit s]
  define c where "c = take (k + 4) (drop b mem')"
  have t: "take n mem' = take b mem @ c"
    using rt(4) take_drop_split [of b mem' "k + 4"] assms(3) by (simp add: c_def add.assoc)
  have c: "length c = k + 4" "length (take b mem @ c) = n"
    using fit rt(2) assms(3) by (simp_all add: c_def)
  have "dec (take n mem') =
      f (Some (take (b + k) mem @ le32_bytes (getcrc32 (take k (drop b mem))), True))" if "n < 2 ^ 31"
    using rt(1) assms(2) [OF c(1)] that c(2) assms(3) by (simp add: t [symmetric] del: of_nat_add)
  with assms(1,3) s rt(2,3) show ?thesis by (auto simp: add.assoc)
qed

section \<open>WEP implements the frame contract\<close>

text \<open>
  Both ends of a WEP link: the sender's security context and attributes and
  the receiver's.  They agree when the default key selected by the sender is the
  one selected by the receiver, the headers have the same lengths, and the IV
  lies before the payload.
\<close>

record wep_link =
  wl_tx :: security_priv
  wl_txa :: tx_pkt_attrib
  wl_rx :: security_priv
  wl_rxa :: rx_pkt_attrib

definition wep_agree :: "wep_link \<Rightarrow> bool" where
  "wep_agree l \<longleftrightarrow>
     is_wep (rx_encrypt (wl_rxa l)) \<and>
     unat (rx_hdrlen (wl_rxa l)) = unat (tx_hdrlen (wl_txa l)) \<and>
     rx_iv_len (wl_rxa l) = tx_iv_len (wl_txa l) \<and> 3 \<le> unat (tx_iv_len (wl_txa l)) \<and>
     tx_icv_len (wl_txa l) = 4 \<and>
     wep_key (wl_tx l) (uint (dot11PrivacyKeyIndex (wl_tx l))) [] \<noteq> None \<and>
     wep_key (wl_rx l) (uint (rx_key_index (wl_rxa l))) [] =
       wep_key (wl_tx l) (uint (dot11PrivacyKeyIndex (wl_tx l))) []"

definition wep_unseal :: "wep_link \<Rightarrow> byte list \<Rightarrow> byte list option" where
  "wep_unseal l f = map_option rx_data (rtw_wep_decrypt (wl_rx l) (received (wl_rxa l) f))"

definition wep_hd :: "wep_link \<Rightarrow> nat" where
  "wep_hd l = unat (tx_hdrlen (wl_txa l)) + unat (tx_iv_len (wl_txa l))"

lemma wep_key_iv:
  "wep_key sec i iv = map_option (\<lambda>(k, n). (iv @ k, n)) (wep_key sec i [])"
  by (auto simp: wep_key_def bind_eq_None_conv split: option.splits bind_splits)


lemma uint_int_unat: "uint w = int (unat w)"
  by simp

lemma wep_seal_rc4:
  assumes "wep_agree l" and "n = wep_hd l + k + 4" and "n \<le> length mem"
  shows "\<exists>key m. wep_encrypt_frag (wl_tx l) (wl_txa l) (int k) mem =
      rc4_seal key m (int (wep_hd l)) (int k) mem \<and>
    (\<forall>c. length c = k + 4 \<longrightarrow> length (take (wep_hd l) mem @ c) < 2 ^ 31 \<longrightarrow>
       wep_unseal l (take (wep_hd l) mem @ c) =
       map_option fst (rc4_unseal key m (int (wep_hd l)) (int (k + 4)) (take (wep_hd l) mem @ c)))"
proof -
  let ?h = "unat (tx_hdrlen (wl_txa l))" and ?i = "unat (tx_iv_len (wl_txa l))"
  have hd: "wep_hd l = ?h + ?i" "3 \<le> ?i" and rx: "unat (rx_hdrlen (wl_rxa l)) = ?h"
    using assms(1) by (auto simp: wep_hd_def wep_agree_def)
  define iv where "iv = take 3 (drop ?h mem)"
  obtain key0 m where k0: "wep_key (wl_tx l) (uint (dot11PrivacyKeyIndex (wl_tx l))) [] = Some (key0, m)"
      "wep_key (wl_rx l) (uint (rx_key_index (wl_rxa l))) [] = Some (key0, m)"
    using assms(1) by (auto simp: wep_agree_def)
  have iv: "rd_bytes mem (int ?h) 3 = Some iv"
    using rd_bytes_nat [of ?h 3 mem] assms hd by (simp add: iv_def)
  have 1: "wep_encrypt_frag (wl_tx l) (wl_txa l) (int k) mem =
      rc4_seal (iv @ key0) m (int (wep_hd l)) (int k) mem"
  proof -
    have "uint (tx_hdrlen (wl_txa l)) = int ?h"
        "uint (tx_iv_len (wl_txa l)) + int ?h = int (wep_hd l)"
        "wep_key (wl_tx l) (uint (dot11PrivacyKeyIndex (wl_tx l))) iv = Some (iv @ key0, m)"
      using k0(1) wep_key_iv [of "wl_tx l" "uint (dot11PrivacyKeyIndex (wl_tx l))" iv]
      by (simp_all add: hd)
    then show ?thesis
      using iv by (simp add: wep_encrypt_frag_def del: of_nat_unat)
  qed
  have 2: "wep_unseal l (take (wep_hd l) mem @ c) =
      map_option fst (rc4_unseal (iv @ key0) m (int (wep_hd l)) (int (k + 4)) (take (wep_hd l) mem @ c))"
    if c: "length c = k + 4" "length (take (wep_hd l) mem @ c) < 2 ^ 31" for c
  proof -
    let ?f = "take (wep_hd l) mem @ c"
    have f: "length ?f = wep_hd l + k + 4" using assms c by simp
    have "take 3 (drop ?h ?f) = iv"
      using assms hd by (simp add: iv_def drop_take)
    then have iv': "rd_bytes ?f (int ?h) 3 = Some iv"
      using rd_bytes_nat [of ?h 3 ?f] f hd by simp
    have "rx_payload_len (received (wl_rxa l) ?f) = int (k + 4)"
      using f c(2) assms(1)
      by (intro rx_payload_len_eq) (simp_all add: wep_hd_def wep_agree_def)
    moreover have "uint (rx_hdrlen (wl_rxa l)) = int ?h"
        "uint (rx_iv_len (wl_rxa l)) + int ?h = int (wep_hd l)"
        "is_wep (rx_encrypt (wl_rxa l))"
        "wep_key (wl_rx l) (uint (rx_key_index (wl_rxa l))) iv = Some (iv @ key0, m)"
      using assms(1) k0(2) wep_key_iv [of "wl_rx l" "uint (rx_key_index (wl_rxa l))" iv]
      by (simp_all add: wep_agree_def wep_hd_def uint_int_unat del: of_nat_unat)
    ultimately show ?thesis
      using iv' unfolding wep_unseal_def rtw_wep_decrypt_def Let_def
      by (cases "rc4_unseal (iv @ key0) m (int (wep_hd l)) (int (k + 4)) ?f")
         (auto simp: received_def simp del: of_nat_unat of_nat_add)
  qed
  from 1 2 show ?thesis by blast
qed

lemma wep_contract:
  assumes "wep_agree l" and "n = wep_hd l + k + 4" and "n \<le> length mem"
  shows "\<exists>mem'. wep_encrypt_frag (wl_tx l) (wl_txa l) (int k) mem = Some mem' \<and>
      length mem' = length mem \<and> drop n mem' = drop n mem \<and>
      (n < 2 ^ 31 \<longrightarrow> wep_unseal l (take n mem') =
         Some (take (wep_hd l + k) mem @ le32_bytes (getcrc32 (take k (drop (wep_hd l) mem)))))"
  using wep_seal_rc4 [OF assms]
    rc4_contract [of _ _ mem _ _ "wep_hd l" "wep_unseal l" "map_option fst", OF _ _ assms(2,3)]
  by fastforce

interpretation wep: frame_cipher
  "\<lambda>l f. wep_agree l" wep_hd "\<lambda>l. 4" "\<lambda>l. wep_encrypt_frag (wl_tx l) (wl_txa l)" wep_unseal
proof (unfold_locales, goal_cases)
  case (1 p n mem l)
  then show ?case using wep_contract [of p n l mem] by blast
next
  case (2 p n mem l mem')
  then show ?case using wep_contract [of p n l mem] by auto
next
  case (3 p n mem l mem')
  then show ?case using wep_contract [of p n l mem] by auto
qed

section \<open>Properties\<close>

text \<open>
  C1 (round trip of WEP over a whole frame).  Let the sender and the receiver
  agree on the default key and the header lengths, and let the frame fit its
  buffer.  Then \<open>rtw_wep_encrypt\<close> returns without leaving the buffer, and each
  of the fragments it leaves there, in order, is turned by \<open>rtw_wep_decrypt\<close>
  into the fragment before encryption: same header, same IV, same payload, only
  the four bytes of the ICV at the end differ.
\<close>

theorem wep_frames_recovered:
  assumes "wep_agree \<lparr>wl_tx = sec, wl_txa = tx_attrib xf, wl_rx = sec', wl_rxa = ra\<rparr>"
    and "is_wep (tx_encrypt (tx_attrib xf))" and "tx_fits fl xf"
  shows "\<exists>xf'. rtw_wep_encrypt sec fl xf = Some xf' \<and>
    list_all2 (\<lambda>plain cipher.
        \<exists>t rf'. rtw_wep_decrypt sec' (received ra cipher) = Some rf' \<and> length t = 4 \<and>
          rx_data rf' = take (length plain - 4) plain @ t)
      (air_fragments fl xf) (air_fragments fl xf')"
proof -
  let ?l = "\<lparr>wl_tx = sec, wl_txa = tx_attrib xf, wl_rx = sec', wl_rxa = ra\<rparr>"
  obtain addr where addr: "buf_addr xf = Some addr"
    using assms(3) by (auto simp: tx_fits_def Let_def split: option.splits)
  have "tx_overhead (tx_attrib xf) = wep_hd ?l + 4"
    using assms(1) by (simp add: tx_overhead_def wep_hd_def wep_agree_def)
  from wep.frame_recovered [OF assms(3) addr refl this] assms(1)
  obtain mem' where m: "xmit_frag_loop (wep_encrypt_frag sec (tx_attrib xf)) (tx_attrib xf) fl
        (unat (nr_frags (tx_attrib xf))) (addr + hw_hdr_offset xf)
        (drop (hw_hdr_offset xf) (xf_buf xf)) = Some mem'"
      "list_all2 (wep.recovered ?l) (air_fragments fl xf)
        (air_fragments fl (xf\<lparr>xf_buf := take (hw_hdr_offset xf) (xf_buf xf) @ mem'\<rparr>))"
    by auto
  have "rd (dot11DefKeylen sec) (uint (dot11PrivacyKeyIndex sec)) \<noteq> None"
    using assms(1) by (auto simp: wep_agree_def wep_key_def bind_eq_Some_conv)
  with addr m(1) assms(2)
  have "rtw_wep_encrypt sec fl xf =
      Some (xf\<lparr>xf_buf := take (hw_hdr_offset xf) (xf_buf xf) @ mem'\<rparr>)"
    by (auto simp: rtw_wep_encrypt_def Let_def)
  moreover note m(2)
  ultimately show ?thesis
    by (auto simp: wep.recovered_def wep_unseal_def elim!: list_all2_mono)
qed

theorem wep_frames_recovered_witness:
  "\<exists>xf'. rtw_wep_encrypt sample_sec 56 (sample_frame WEP40_ENCRYPTION 4 4) = Some xf' \<and>
    list_all2 (\<lambda>plain cipher.
        \<exists>t rf'. rtw_wep_decrypt sample_sec
            (received (sample_rx_attrib WEP40_ENCRYPTION 4 4) cipher) = Some rf' \<and> length t = 4 \<and>
          rx_data rf' = take (length plain - 4) plain @ t)
      (air_fragments 56 (sample_frame WEP40_ENCRYPTION 4 4)) (air_fragments 56 xf')"
proof (rule wep_frames_recovered)
  show "wep_agree \<lparr>wl_tx = sample_sec, wl_txa = tx_attrib (sample_frame WEP40_ENCRYPTION 4 4),
      wl_rx = sample_sec, wl_rxa = sample_rx_attrib WEP40_ENCRYPTION 4 4\<rparr>"
    by (simp add: wep_agree_def sample_defs is_wep_def wep_key_def rd_def rd_bytes_def in_buf_def)
  show "tx_fits 56 (sample_frame WEP40_ENCRYPTION 4 4)"
    by (rule sample_fits) simp
qed (simp add: sample_defs is_wep_def)

end
