(* ===== verification/Tkip.thy ===== *)
theory Tkip
  imports Wep Michael
begin

text \<open>
  TKIP (\<open>phase1\<close>, \<open>phase2\<close>, \<open>rtw_tkip_encrypt\<close>, \<open>rtw_tkip_decrypt\<close> of
  src/core/rtw_security.c): the mixing of the temporal key, the transmitter
  address and the packet number into an ARC4 key, and the sealing of fragments
  with that key.

  Shown: for a temporal key the per-packet ARC4 key determines the transmitter
  address and the packet number, as the comments of \<open>phase2\<close> promise; what is
  encrypted is decrypted with status \<open>SUCCESS\<close>; the error paths of the
  receiver leave the frame untouched.
\<close>

section \<open>Key mixing\<close>

definition RotR1 :: "u16 \<Rightarrow> u16" where
  "RotR1 v16 = (drop_bit 1 v16 AND 0x7FFF) XOR push_bit 15 (v16 AND 1)"

definition Lo8 :: "u16 \<Rightarrow> byte" where "Lo8 v16 = ucast (v16 AND 0x00FF)"
definition Hi8 :: "u16 \<Rightarrow> byte" where "Hi8 v16 = ucast (drop_bit 8 v16 AND 0x00FF)"
definition Lo16 :: "u32 \<Rightarrow> u16" where "Lo16 v32 = ucast (v32 AND 0xFFFF)"
definition Hi16 :: "u32 \<Rightarrow> u16" where "Hi16 v32 = ucast (drop_bit 16 v32 AND 0xFFFF)"
definition Mk16 :: "byte \<Rightarrow> byte \<Rightarrow> u16" where "Mk16 hi lo = ucast lo XOR push_bit 8 (ucast hi)"

definition TK16 :: "byte list \<Rightarrow> nat \<Rightarrow> u16" where
  "TK16 tk n = Mk16 (tk ! (2 * n + 1)) (tk ! (2 * n))"

definition Sbox1_0 :: "u16 list" where
  "Sbox1_0 =
     [0xc6a5, 0xf884, 0xee99, 0xf68d, 0xff0d, 0xd6bd, 0xdeb1, 0x9154, 0x6050, 0x0203,
       0xcea9, 0x567d, 0xe719, 0xb562, 0x4de6, 0xec9a, 0x8f45, 0x1f9d, 0x8940, 0xfa87,
       0xef15, 0xb2eb, 0x8ec9, 0xfb0b, 0x41ec, 0xb367, 0x5ffd, 0x45ea, 0x23bf, 0x53f7,
       0xe496, 0x9b5b, 0x75c2, 0xe11c, 0x3dae, 0x4c6a, 0x6c5a, 0x7e41, 0xf502, 0x834f,
       0x685c, 0x51f4, 0xd134, 0xf908, 0xe293, 0xab73, 0x6253, 0x2a3f, 0x080c, 0x9552,
       0x4665, 0x9d5e, 0x3028, 0x37a1, 0x0a0f, 0x2fb5, 0x0e09, 0x2436, 0x1b9b, 0xdf3d,
       0xcd26, 0x4e69, 0x7fcd, 0xea9f, 0x121b, 0x1d9e, 0x5874, 0x342e, 0x362d, 0xdcb2,
       0xb4ee, 0x5bfb, 0xa4f6, 0x764d, 0xb761, 0x7dce, 0x527b, 0xdd3e, 0x5e71, 0x1397,
       0xa6f5, 0xb968, 0x0000, 0xc12c, 0x4060, 0xe31f, 0x79c8, 0xb6ed, 0xd4be, 0x8d46,
       0x67d9, 0x724b, 0x94de, 0x98d4, 0xb0e8, 0x854a, 0xbb6b, 0xc52a, 0x4fe5, 0xed16,
       0x86c5, 0x9ad7, 0x6655, 0x1194, 0x8acf, 0xe910, 0x0406, 0xfe81, 0xa0f0, 0x7844,
       0x25ba, 0x4be3, 0xa2f3, 0x5dfe, 0x80c0, 0x058a, 0x3fad, 0x21bc, 0x7048, 0xf104,
       0x63df, 0x77c1, 0xaf75, 0x4263, 0x2030, 0xe51a, 0xfd0e, 0xbf6d, 0x814c, 0x1814,
       0x2635, 0xc32f, 0xbee1, 0x35a2, 0x88cc, 0x2e39, 0x9357, 0x55f2, 0xfc82, 0x7a47,
       0xc8ac, 0xbae7, 0x322b, 0xe695, 0xc0a0, 0x1998, 0x9ed1, 0xa37f, 0x4466, 0x547e,
       0x3bab, 0x0b83, 0x8cca, 0xc729, 0x6bd3, 0x283c, 0xa779, 0xbce2, 0x161d, 0xad76,
       0xdb3b, 0x6456, 0x744e, 0x141e, 0x92db, 0x0c0a, 0x486c, 0xb8e4, 0x9f5d, 0xbd6e,
       0x43ef, 0xc4a6, 0x39a8, 0x31a4, 0xd337, 0xf28b, 0xd532, 0x8b43, 0x6e59, 0xdab7,
       0x018c, 0xb164, 0x9cd2, 0x49e0, 0xd8b4, 0xacfa, 0xf307, 0xcf25, 0xcaaf, 0xf48e,
       0x47e9, 0x1018, 0x6fd5, 0xf088, 0x4a6f, 0x5c72, 0x3824, 0x57f1, 0x73c7, 0x9751,
       0xcb23, 0xa17c, 0xe89c, 0x3e21, 0x96dd, 0x61dc, 0x0d86, 0x0f85, 0xe090, 0x7c42,
       0x71c4, 0xccaa, 0x90d8, 0x0605, 0xf701, 0x1c12, 0xc2a3, 0x6a5f, 0xaef9, 0x69d0,
       0x1791, 0x9958, 0x3a27, 0x27b9, 0xd938, 0xeb13, 0x2bb3, 0x2233, 0xd2bb, 0xa970,
       0x0789, 0x33a7, 0x2db6, 0x3c22, 0x1592, 0xc920, 0x8749, 0xaaff, 0x5078, 0xa57a,
       0x038f, 0x59f8, 0x0980, 0x1a17, 0x65da, 0xd731, 0x84c6, 0xd0b8, 0x82c3, 0x29b0,
       0x5a77, 0x1e11, 0x7bcb, 0xa8fc, 0x6dd6, 0x2c3a]"

definition Sbox1_1 :: "u16 list" where
  "Sbox1_1 =
     [0xa5c6, 0x84f8, 0x99ee, 0x8df6, 0x0dff, 0xbdd6, 0xb1de, 0x5491, 0x5060, 0x0302,
       0xa9ce, 0x7d56, 0x19e7, 0x62b5, 0xe64d, 0x9aec, 0x458f, 0x9d1f, 0x4089, 0x87fa,
       0x15ef, 0xebb2, 0xc98e, 0x0bfb, 0xec41, 0x67b3, 0xfd5f, 0xea45, 0xbf23, 0xf753,
       0x96e4, 0x5b9b, 0xc275, 0x1ce1, 0xae3d, 0x6a4c, 0x5a6c, 0x417e, 0x02f5, 0x4f83,
       0x5c68, 0xf451, 0x34d1, 0x08f9, 0x93e2, 0x73ab, 0x5362, 0x3f2a, 0x0c08, 0x5295,
       0x6546, 0x5e9d, 0x2830, 0xa137, 0x0f0a, 0xb52f, 0x090e, 0x3624, 0x9b1b, 0x3ddf,
       0x26cd, 0x694e, 0xcd7f, 0x9fea, 0x1b12, 0x9e1d, 0x7458, 0x2e34, 0x2d36, 0xb2dc,
       0xeeb4, 0xfb5b, 0xf6a4, 0x4d76, 0x61b7, 0xce7d, 0x7b52, 0x3edd, 0x715e, 0x9713,
       0xf5a6, 0x68b9, 0x0000, 0x2cc1, 0x6040, 0x1fe3, 0xc879, 0xedb6, 0xbed4, 0x468d,
       0xd967, 0x4b72, 0xde94, 0xd498, 0xe8b0, 0x4a85, 0x6bbb, 0x2ac5, 0xe54f, 0x16ed,
       0xc586, 0xd79a, 0x5566, 0x9411, 0xcf8a, 0x10e9, 0x0604, 0x81fe, 0xf0a0, 0x4478,
       0xba25, 0xe34b, 0xf3a2, 0xfe5d, 0xc080, 0x8a05, 0xad3f, 0xbc21, 0x4870, 0x04f1,
       0xdf63, 0xc177, 0x75af, 0x6342, 0x3020, 0x1ae5, 0x0efd, 0x6dbf, 0x4c81, 0x1418,
       0x3526, 0x2fc3, 0xe1be, 0xa235, 0xcc88, 0x392e, 0x5793, 0xf255, 0x82fc, 0x477a,
       0xacc8, 0xe7ba, 0x2b32, 0x95e6, 0xa0c0, 0x9819, 0xd19e, 0x7fa3, 0x6644, 0x7e54,
       0xab3b, 0x830b, 0xca8c, 0x29c7, 0xd36b, 0x3c28, 0x79a7, 0xe2bc, 0x1d16, 0x76ad,
       0x3bdb, 0x5664, 0x4e74, 0x1e14, 0xdb92, 0x0a0c, 0x6c48, 0xe4b8, 0x5d9f, 0x6ebd,
       0xef43, 0xa6c4, 0xa839, 0xa431, 0x37d3, 0x8bf2, 0x32d5, 0x438b, 0x596e, 0xb7da,
       0x8c01, 0x64b1, 0xd29c, 0xe049, 0xb4d8, 0xfaac, 0x07f3, 0x25cf, 0xafca, 0x8ef4,
       0xe947, 0x1810, 0xd56f, 0x88f0, 0x6f4a, 0x725c, 0x2438, 0xf157, 0xc773, 0x5197,
       0x23cb, 0x7ca1, 0x9ce8, 0x213e, 0xdd96, 0xdc61, 0x860d, 0x850f, 0x90e0, 0x427c,
       0xc471, 0xaacc, 0xd890, 0x0506, 0x01f7, 0x121c, 0xa3c2, 0x5f6a, 0xf9ae, 0xd069,
       0x9117, 0x5899, 0x273a, 0xb927, 0x38d9, 0x13eb, 0xb32b, 0x3322, 0xbbd2, 0x70a9,
       0x8907, 0xa733, 0xb62d, 0x223c, 0x9215, 0x20c9, 0x4987, 0xffaa, 0x7850, 0x7aa5,
       0x8f03, 0xf859, 0x8009, 0x171a, 0xda65, 0x31d7, 0xc684, 0xb8d0, 0xc382, 0xb029,
       0x775a, 0x111e, 0xcb7b, 0xfca8, 0xd66d, 0x3a2c]"

text \<open>The S-box macro \<open>_S_\<close>.\<close>

definition tkip_S :: "u16 \<Rightarrow> u16" where
  "tkip_S v16 = Sbox1_0 ! unat (Lo8 v16) XOR Sbox1_1 ! unat (Hi8 v16)"

definition PHASE1_LOOP_CNT :: nat where "PHASE1_LOOP_CNT = 8"

text \<open>The array \<open>p1k[5]\<close> as a tuple; one turn of the loop of \<open>phase1\<close>.\<close>

type_synonym p1k = "u16 \<times> u16 \<times> u16 \<times> u16 \<times> u16"

definition phase1_step :: "byte list \<Rightarrow> nat \<Rightarrow> p1k \<Rightarrow> p1k" where
  "phase1_step tk i p =
     (let (p0, p1, p2, p3, p4) = p; odd_i = i mod 2;
          p0 = p0 + tkip_S (p4 XOR TK16 tk (odd_i + 0));
          p1 = p1 + tkip_S (p0 XOR TK16 tk (odd_i + 2));
          p2 = p2 + tkip_S (p1 XOR TK16 tk (odd_i + 4));
          p3 = p3 + tkip_S (p2 XOR TK16 tk (odd_i + 6));
          p4 = p4 + tkip_S (p3 XOR TK16 tk (odd_i + 0));
          p4 = p4 + of_nat i
      in (p0, p1, p2, p3, p4))"

definition phase1_load :: "byte list \<Rightarrow> u32 \<Rightarrow> p1k" where
  "phase1_load ta iv32 =
     (Lo16 iv32, Hi16 iv32, Mk16 (ta ! 1) (ta ! 0), Mk16 (ta ! 3) (ta ! 2), Mk16 (ta ! 5) (ta ! 4))"

definition phase1 :: "byte list \<Rightarrow> byte list \<Rightarrow> u32 \<Rightarrow> p1k" where
  "phase1 tk ta iv32 = fold (phase1_step tk) [0..<PHASE1_LOOP_CNT] (phase1_load ta iv32)"

definition phase2_mix ::
  "byte list \<Rightarrow> p1k \<Rightarrow> u16 \<Rightarrow> u16 \<times> u16 \<times> u16 \<times> u16 \<times> u16 \<times> u16" where
  "phase2_mix tk p iv16 =
     (let (q0, q1, q2, q3, q4) = p;
          q5 = q4 + iv16;
          q0 = q0 + tkip_S (q5 XOR TK16 tk 0);
          q1 = q1 + tkip_S (q0 XOR TK16 tk 1);
          q2 = q2 + tkip_S (q1 XOR TK16 tk 2);
          q3 = q3 + tkip_S (q2 XOR TK16 tk 3);
          q4 = q4 + tkip_S (q3 XOR TK16 tk 4);
          q5 = q5 + tkip_S (q4 XOR TK16 tk 5);
          q0 = q0 + RotR1 (q5 XOR TK16 tk 6);
          q1 = q1 + RotR1 (q0 XOR TK16 tk 7);
          q2 = q2 + RotR1 q1;
          q3 = q3 + RotR1 q2;
          q4 = q4 + RotR1 q3;
          q5 = q5 + RotR1 q4
      in (q0, q1, q2, q3, q4, q5))"

definition phase2 :: "byte list \<Rightarrow> p1k \<Rightarrow> u16 \<Rightarrow> byte list" where
  "phase2 tk p iv16 =
     (let (q0, q1, q2, q3, q4, q5) = phase2_mix tk p iv16
      in [Hi8 iv16, (Hi8 iv16 OR 0x20) AND 0x7F, Lo8 iv16,
          Lo8 (drop_bit 1 (q5 XOR TK16 tk 0)),
          Lo8 q0, Hi8 q0, Lo8 q1, Hi8 q1, Lo8 q2, Hi8 q2,
          Lo8 q3, Hi8 q3, Lo8 q4, Hi8 q4, Lo8 q5, Hi8 q5])"

text \<open>
  \<open>GET_TKIP_PN\<close> and the split of the 48-bit packet number: \<open>TSC0 = iv[2]\<close>,
  \<open>TSC1 = iv[0]\<close>, \<open>TSC2..TSC5 = iv[4..7]\<close>.  The two top bytes of
  the union stay uninitialised; neither \<open>pnl\<close> nor \<open>pnh\<close> depends on them.
\<close>

definition GET_TKIP_PN :: "byte list \<Rightarrow> u16 \<Rightarrow> u64" where
  "GET_TKIP_PN iv junk =
     ucast (iv ! 2) OR push_bit 8 (ucast (iv ! 0)) OR push_bit 16 (ucast (iv ! 4)) OR
     push_bit 24 (ucast (iv ! 5)) OR push_bit 32 (ucast (iv ! 6)) OR push_bit 40 (ucast (iv ! 7)) OR
     push_bit 48 (ucast junk)"

definition pnl_of :: "u64 \<Rightarrow> u16" where "pnl_of val = ucast val"
definition pnh_of :: "u64 \<Rightarrow> u32" where "pnh_of val = ucast (drop_bit 16 val)"

definition tkip_rc4key :: "byte list \<Rightarrow> byte list \<Rightarrow> byte list \<Rightarrow> byte list" where
  "tkip_rc4key tk ta iv =
     (let pn = GET_TKIP_PN iv 0 in phase2 tk (phase1 tk ta (pnh_of pn)) (pnl_of pn))"

section \<open>Encryption and decryption of frames\<close>

definition is_multicast_ether_addr :: "byte list \<Rightarrow> bool option" where
  "is_multicast_ether_addr addr = map_option (\<lambda>b. b AND 1 \<noteq> 0) (rd addr 0)"

definition tkip_encrypt_frag ::
  "byte list \<Rightarrow> tx_pkt_attrib \<Rightarrow> int \<Rightarrow> byte list \<Rightarrow> byte list option" where
  "tkip_encrypt_frag prwskey a len mem = do {
     iv \<leftarrow> rd_bytes mem (uint (tx_hdrlen a)) 8;
     tk \<leftarrow> rd_bytes prwskey 0 16;
     ta \<leftarrow> rd_bytes (tx_ta a) 0 6;
     rc4_seal (tkip_rc4key tk ta iv) 16 (uint (tx_iv_len a) + uint (tx_hdrlen a)) len mem
   }"

text \<open>The key of the sender: the group key for a multicast receiver address.\<close>

definition tx_prwskey :: "security_priv \<Rightarrow> tx_pkt_attrib \<Rightarrow> byte list option" where
  "tx_prwskey sec a = do {
     mc \<leftarrow> is_multicast_ether_addr (tx_ra a);
     if mc then rd (dot118021XGrpKey sec) (uint (dot118021XGrpKeyid sec))
     else Some (tx_UncstKey a)
   }"

definition rtw_tkip_encrypt ::
  "security_priv \<Rightarrow> u32 \<Rightarrow> xmit_frame \<Rightarrow> (status \<times> xmit_frame) option" where
  "rtw_tkip_encrypt sec frag_len xf =
     (case buf_addr xf of
        None \<Rightarrow> Some (FAIL, xf)
      | Some addr \<Rightarrow>
          let a = tx_attrib xf; off = hw_hdr_offset xf in
          if tx_encrypt a = TKIP_ENCRYPTION then do {
            prwskey \<leftarrow> tx_prwskey sec a;
            mem \<leftarrow> xmit_frag_loop (tkip_encrypt_frag prwskey a) a frag_len (unat (nr_frags a))
                     (addr + off) (drop off (xf_buf xf));
            Some (SUCCESS, xf\<lparr>xf_buf := take off (xf_buf xf) @ mem\<rparr>)
          } else Some (SUCCESS, xf))"

text \<open>
  \<open>rtw_get_stainfo\<close> is an argument: the pairwise key of the station with a given
  address, \<open>None\<close> when there is no such station.
\<close>

definition rtw_tkip_decrypt ::
  "security_priv \<Rightarrow> (byte list \<Rightarrow> byte list option) \<Rightarrow> recv_frame \<Rightarrow> (status \<times> recv_frame) option" where
  "rtw_tkip_decrypt sec get_stainfo rf =
     (let a = rf_attrib rf in
      if rx_encrypt a = TKIP_ENCRYPTION then
        case get_stainfo (rx_ta a) of
          None \<Rightarrow> Some (FAIL, rf)
        | Some uncst \<Rightarrow> do {
            mc \<leftarrow> is_multicast_ether_addr (rx_ra a);
            if mc \<and> \<not> binstallGrpkey sec then Some (FAIL, rf)
            else do {
              prwskey \<leftarrow> (if mc then rd (dot118021XGrpKey sec) (uint (rx_key_index a))
                          else Some uncst);
              iv \<leftarrow> rd_bytes (rx_data rf) (uint (rx_hdrlen a)) 8;
              tk \<leftarrow> rd_bytes prwskey 0 16;
              ta \<leftarrow> rd_bytes (rx_ta a) 0 6;
              (mem, icv_ok) \<leftarrow> rc4_unseal (tkip_rc4key tk ta iv) 16
                (uint (rx_iv_len a) + uint (rx_hdrlen a)) (rx_payload_len rf) (rx_data rf);
              Some (if icv_ok then SUCCESS else FAIL, rf\<lparr>rx_data := mem\<rparr>)
            }
          }
      else Some (SUCCESS, rf))"

section \<open>The per-packet key determines the packet\<close>

lemma phase1_step_inj: "phase1_step tk i p = phase1_step tk i p' \<Longrightarrow> p = p'"
  by (cases p; cases p') (auto simp: phase1_step_def Let_def)

lemma phase1_fold_inj:
  "fold (phase1_step tk) is p = fold (phase1_step tk) is p' \<Longrightarrow> p = p'"
proof (induction "is" arbitrary: p p')
  case (Cons i js)
  then have "phase1_step tk i p = phase1_step tk i p'" by simp
  then show ?case by (rule phase1_step_inj)
qed simp

lemma Mk16_inj: "Mk16 a b = Mk16 a' b' \<longleftrightarrow> a = a' \<and> b = b'"
proof -
  have "ucast (Mk16 a b) = b" "ucast (drop_bit 8 (Mk16 a b)) = a" for a b
    by (rule bit_word_eqI; auto simp: Mk16_def bit_simps dest: bit_byte_less)+
  then show ?thesis by metis
qed

lemma bit_65535_int: "bit (65535 :: int) n \<longleftrightarrow> n < 16"
proof -
  have "(65535 :: int) = mask 16" by (simp add: mask_eq_exp_minus_1)
  then show ?thesis by (simp only: bit_mask_iff) simp
qed

lemma LoHi16_inj:
  assumes "Lo16 v = Lo16 w" and "Hi16 v = Hi16 w"
  shows "v = w"
proof -
  have "v = ucast (Lo16 v) OR push_bit 16 (ucast (Hi16 v))" for v
    by (rule bit_word_eqI) (auto simp: Lo16_def Hi16_def bit_simps bit_65535_int)
  then show ?thesis using assms by metis
qed

lemma LoHi8_inj:
  assumes "Lo8 v = Lo8 w" and "Hi8 v = Hi8 w"
  shows "v = w"
proof -
  have "v = ucast (Lo8 v) OR push_bit 8 (ucast (Hi8 v))" for v
    by (rule bit_word_eqI) (auto simp: Lo8_def Hi8_def bit_simps)
  then show ?thesis using assms by metis
qed

lemma phase1_inj:
  assumes "phase1 tk ta v = phase1 tk ta' v'" and "length ta = 6" and "length ta' = 6"
  shows "ta = ta' \<and> v = v'"
proof -
  have e: "phase1_load ta v = phase1_load ta' v'"
    using assms(1) unfolding phase1_def by (rule phase1_fold_inj)
  then have "v = v'" by (auto simp: phase1_load_def intro: LoHi16_inj)
  moreover have "ta = ta'"
    using e assms(2,3) by (auto simp: phase1_load_def Mk16_inj numeral_eq_Suc length_Suc_conv)
  ultimately show ?thesis by simp
qed

lemma phase2_mix_inj: "phase2_mix tk p v = phase2_mix tk p' v' \<Longrightarrow> p = p' \<and> v = v'"
  by (cases p; cases p') (auto simp: phase2_mix_def Let_def)

lemma phase2_inj: "phase2 tk p v = phase2 tk p' v' \<Longrightarrow> p = p' \<and> v = v'"
  by (rule phase2_mix_inj [of tk])
     (auto simp: phase2_def split: prod.splits dest: LoHi8_inj)

lemma pnl_of_PN: "pnl_of (GET_TKIP_PN iv junk) = Mk16 (iv ! 0) (iv ! 2)"
  unfolding pnl_of_def GET_TKIP_PN_def Mk16_def
  by (rule bit_word_eqI) (auto simp: bit_simps dest: bit_byte_less)

lemma pnh_of_PN: "pnh_of (GET_TKIP_PN iv junk) = le32_of (iv ! 4) (iv ! 5) (iv ! 6) (iv ! 7)"
  unfolding pnh_of_def GET_TKIP_PN_def le32_of_or
  by (rule bit_word_eqI) (auto simp: bit_simps dest: bit_byte_less)

text \<open>
  C3 (uniqueness of the TKIP packet key).  For a given temporal key the 16-byte
  ARC4 key built by \<open>phase1\<close> and \<open>phase2\<close> determines the transmitter address
  and all 48 bits of the packet number: two packets that differ in either are
  encrypted under different keys.  This is what the comments of \<open>phase2\<close>
  announce.
\<close>

theorem tkip_key_unique:
  assumes "(ta, iv32, iv16) \<noteq> (ta', iv32', iv16')" and "length ta = 6" and "length ta' = 6"
  shows "phase2 tk (phase1 tk ta iv32) iv16 \<noteq> phase2 tk (phase1 tk ta' iv32') iv16'"
  using phase2_inj [of tk "phase1 tk ta iv32" iv16] phase1_inj [OF _ assms(2,3)] assms(1) by blast

theorem tkip_key_unique_witness:
  "phase2 (replicate 16 1) (phase1 (replicate 16 1) [2, 0, 0, 0, 0, 1] 5) 6 \<noteq>
   phase2 (replicate 16 1) (phase1 (replicate 16 1) [2, 0, 0, 0, 0, 1] 5) 7"
  by (rule tkip_key_unique) simp_all

text \<open>The same for the IV field of a frame.\<close>

lemma tkip_rc4key_inj:
  assumes "tkip_rc4key tk ta iv = tkip_rc4key tk ta' iv'"
    and "length ta = 6" and "length ta' = 6"
  shows "ta = ta'" and "[iv ! 0, iv ! 2, iv ! 4, iv ! 5, iv ! 6, iv ! 7] =
    [iv' ! 0, iv' ! 2, iv' ! 4, iv' ! 5, iv' ! 6, iv' ! 7]"
proof -
  from phase2_inj [OF assms(1) [unfolded tkip_rc4key_def Let_def]]
  have p1: "phase1 tk ta (pnh_of (GET_TKIP_PN iv 0)) = phase1 tk ta' (pnh_of (GET_TKIP_PN iv' 0))"
    and l: "pnl_of (GET_TKIP_PN iv 0) = pnl_of (GET_TKIP_PN iv' 0)" by auto
  note p = phase1_inj [OF p1 assms(2,3)]
  then show "ta = ta'" by simp
  have "le32_of (iv ! 4) (iv ! 5) (iv ! 6) (iv ! 7) = le32_of (iv' ! 4) (iv' ! 5) (iv' ! 6) (iv' ! 7)"
    using p by (simp add: pnh_of_PN)
  with l show "[iv ! 0, iv ! 2, iv ! 4, iv ! 5, iv ! 6, iv ! 7] =
    [iv' ! 0, iv' ! 2, iv' ! 4, iv' ! 5, iv' ! 6, iv' ! 7]"
    by (auto simp: pnl_of_PN Mk16_inj dest: le32_of_inj)
qed

section \<open>TKIP implements the frame contract\<close>

text \<open>
  Both ends of a TKIP link.  \<open>tk_key\<close> is the key pointer the sender selected.
\<close>

record tkip_link =
  tk_key :: "byte list"
  tk_txa :: tx_pkt_attrib
  tk_rx :: security_priv
  tk_sta :: "byte list \<Rightarrow> byte list option"
  tk_rxa :: rx_pkt_attrib

text \<open>
  They agree when the receiver knows the transmitter, has installed the group
  key for multicast frames, selects a key with the same first 16 bytes, reads the
  same transmitter address, and the 8 bytes of IV lie before the payload.
\<close>

definition rx_prwskey ::
  "security_priv \<Rightarrow> (byte list \<Rightarrow> byte list option) \<Rightarrow> rx_pkt_attrib \<Rightarrow> byte list option" where
  "rx_prwskey sec get_stainfo a =
     (case get_stainfo (rx_ta a) of
        None \<Rightarrow> None
      | Some uncst \<Rightarrow>
          case is_multicast_ether_addr (rx_ra a) of
            None \<Rightarrow> None
          | Some mc \<Rightarrow>
              if mc then (if binstallGrpkey sec
                          then rd (dot118021XGrpKey sec) (uint (rx_key_index a)) else None)
              else Some uncst)"

definition tkip_agree :: "tkip_link \<Rightarrow> bool" where
  "tkip_agree l \<longleftrightarrow>
     rx_encrypt (tk_rxa l) = TKIP_ENCRYPTION \<and>
     unat (rx_hdrlen (tk_rxa l)) = unat (tx_hdrlen (tk_txa l)) \<and>
     rx_iv_len (tk_rxa l) = tx_iv_len (tk_txa l) \<and> 8 \<le> unat (tx_iv_len (tk_txa l)) \<and>
     tx_icv_len (tk_txa l) = 4 \<and>
     6 \<le> length (tx_ta (tk_txa l)) \<and> 6 \<le> length (rx_ta (tk_rxa l)) \<and>
     take 6 (tx_ta (tk_txa l)) = take 6 (rx_ta (tk_rxa l)) \<and> 16 \<le> length (tk_key l) \<and>
     (case rx_prwskey (tk_rx l) (tk_sta l) (tk_rxa l) of
        None \<Rightarrow> False
      | Some k \<Rightarrow> 16 \<le> length k \<and> take 16 k = take 16 (tk_key l))"

definition tkip_hd :: "tkip_link \<Rightarrow> nat" where
  "tkip_hd l = unat (tx_hdrlen (tk_txa l)) + unat (tx_iv_len (tk_txa l))"

definition accepted :: "(status \<times> recv_frame) option \<Rightarrow> byte list option" where
  "accepted r = (case r of Some (SUCCESS, rf) \<Rightarrow> Some (rx_data rf) | _ \<Rightarrow> None)"

definition tkip_unseal :: "tkip_link \<Rightarrow> byte list \<Rightarrow> byte list option" where
  "tkip_unseal l f = accepted (rtw_tkip_decrypt (tk_rx l) (tk_sta l) (received (tk_rxa l) f))"

lemma rd_bytes_prefix: "numeral n \<le> length b \<Longrightarrow> rd_bytes b 0 (numeral n) = Some (take (numeral n) b)"
  by (simp add: rd_bytes_def in_buf_def)

lemma rtw_tkip_decrypt_key:
  assumes "rx_encrypt (rf_attrib rf) = TKIP_ENCRYPTION"
    and "rx_prwskey sec sta (rf_attrib rf) = Some prwskey"
  shows "rtw_tkip_decrypt sec sta rf =
    (let a = rf_attrib rf in do {
       iv \<leftarrow> rd_bytes (rx_data rf) (uint (rx_hdrlen a)) 8;
       tk \<leftarrow> rd_bytes prwskey 0 16;
       ta \<leftarrow> rd_bytes (rx_ta a) 0 6;
       (mem, icv_ok) \<leftarrow> rc4_unseal (tkip_rc4key tk ta iv) 16
         (uint (rx_iv_len a) + uint (rx_hdrlen a)) (rx_payload_len rf) (rx_data rf);
       Some (if icv_ok then SUCCESS else FAIL, rf\<lparr>rx_data := mem\<rparr>)
     })"
  using assms
  by (auto simp: rtw_tkip_decrypt_def rx_prwskey_def Let_def split: option.splits if_splits)

lemma rtw_tkip_decrypt_SUCCESS_key:
  assumes "rtw_tkip_decrypt sec sta rf = Some (SUCCESS, rf')"
    and "rx_encrypt (rf_attrib rf) = TKIP_ENCRYPTION"
  shows "\<exists>k. rx_prwskey sec sta (rf_attrib rf) = Some k"
  using assms
  by (auto simp: rtw_tkip_decrypt_def rx_prwskey_def Let_def bind_eq_Some_conv
      split: option.splits if_splits)

lemma tkip_seal_rc4:
  assumes "tkip_agree l" and "n = tkip_hd l + k + 4" and "n \<le> length mem"
  shows "\<exists>key. tkip_encrypt_frag (tk_key l) (tk_txa l) (int k) mem =
      rc4_seal key 16 (int (tkip_hd l)) (int k) mem \<and>
    (\<forall>c. length c = k + 4 \<longrightarrow> length (take (tkip_hd l) mem @ c) < 2 ^ 31 \<longrightarrow>
       tkip_unseal l (take (tkip_hd l) mem @ c) =
       (case rc4_unseal key 16 (int (tkip_hd l)) (int (k + 4)) (take (tkip_hd l) mem @ c) of
          Some (m, True) \<Rightarrow> Some m | _ \<Rightarrow> None))"
proof -
  let ?h = "unat (tx_hdrlen (tk_txa l))" and ?i = "unat (tx_iv_len (tk_txa l))"
  have hd: "tkip_hd l = ?h + ?i" "8 \<le> ?i"
    using assms(1) by (auto simp: tkip_hd_def tkip_agree_def)
  define iv where "iv = take 8 (drop ?h mem)"
  define tk where "tk = take 16 (tk_key l)"
  define ta where "ta = take 6 (tx_ta (tk_txa l))"
  obtain k' where k': "rx_prwskey (tk_rx l) (tk_sta l) (tk_rxa l) = Some k'" "rd_bytes k' 0 16 = Some tk"
    using assms(1) by (auto simp: tkip_agree_def tk_def rd_bytes_prefix split: option.splits)
  have a: "rd_bytes (tk_key l) 0 16 = Some tk" "rd_bytes (tx_ta (tk_txa l)) 0 6 = Some ta"
      "rd_bytes (rx_ta (tk_rxa l)) 0 6 = Some ta"
    using assms(1) by (auto simp: tkip_agree_def tk_def ta_def rd_bytes_prefix)
  have iv: "rd_bytes mem (int ?h) 8 = Some iv"
    using rd_bytes_nat [of ?h 8 mem] assms hd by (simp add: iv_def)
  have 1: "tkip_encrypt_frag (tk_key l) (tk_txa l) (int k) mem =
      rc4_seal (tkip_rc4key tk ta iv) 16 (int (tkip_hd l)) (int k) mem"
  proof -
    have "uint (tx_hdrlen (tk_txa l)) = int ?h"
        "uint (tx_iv_len (tk_txa l)) + int ?h = int (tkip_hd l)"
      by (simp_all add: hd)
    then show ?thesis using iv a by (simp add: tkip_encrypt_frag_def del: of_nat_unat)
  qed
  have 2: "tkip_unseal l (take (tkip_hd l) mem @ c) =
      (case rc4_unseal (tkip_rc4key tk ta iv) 16 (int (tkip_hd l)) (int (k + 4))
              (take (tkip_hd l) mem @ c) of
         Some (m, True) \<Rightarrow> Some m | _ \<Rightarrow> None)"
    if c: "length c = k + 4" "length (take (tkip_hd l) mem @ c) < 2 ^ 31" for c
  proof -
    let ?f = "take (tkip_hd l) mem @ c"
    have f: "length ?f = tkip_hd l + k + 4" using assms c by simp
    have "take 8 (drop ?h ?f) = iv"
      using assms hd by (simp add: iv_def drop_take)
    then have iv': "rd_bytes ?f (int ?h) 8 = Some iv"
      using rd_bytes_nat [of ?h 8 ?f] f hd by simp
    have "rx_payload_len (received (tk_rxa l) ?f) = int (k + 4)"
      using f c(2) assms(1)
      by (intro rx_payload_len_eq) (simp_all add: tkip_hd_def tkip_agree_def)
    moreover have "uint (rx_hdrlen (tk_rxa l)) = int ?h"
        "uint (rx_iv_len (tk_rxa l)) + int ?h = int (tkip_hd l)"
        "rx_encrypt (tk_rxa l) = TKIP_ENCRYPTION"
      using assms(1) by (simp_all add: tkip_agree_def tkip_hd_def uint_int_unat del: of_nat_unat)
    ultimately show ?thesis
      using iv' a k' rtw_tkip_decrypt_key [of "received (tk_rxa l) ?f" "tk_rx l" "tk_sta l" k']
      unfolding tkip_unseal_def Let_def accepted_def
      by (cases "rc4_unseal (tkip_rc4key tk ta iv) 16 (int (tkip_hd l)) (int (k + 4)) ?f")
         (auto simp: received_def simp del: of_nat_unat of_nat_add split: bool.splits)
  qed
  from 1 2 show ?thesis by blast
qed

lemma tkip_contract:
  assumes "tkip_agree l" and "n = tkip_hd l + k + 4" and "n \<le> length mem"
  shows "\<exists>mem'. tkip_encrypt_frag (tk_key l) (tk_txa l) (int k) mem = Some mem' \<and>
      length mem' = length mem \<and> drop n mem' = drop n mem \<and>
      (n < 2 ^ 31 \<longrightarrow> tkip_unseal l (take n mem') =
         Some (take (tkip_hd l + k) mem @ le32_bytes (getcrc32 (take k (drop (tkip_hd l) mem)))))"
  using tkip_seal_rc4 [OF assms]
    rc4_contract [of _ _ mem _ _ "tkip_hd l" "tkip_unseal l"
      "\<lambda>r. case r of Some (m, True) \<Rightarrow> Some m | _ \<Rightarrow> None", OF _ _ assms(2,3)]
  by fastforce

interpretation tkip: frame_cipher
  "\<lambda>l f. tkip_agree l" tkip_hd "\<lambda>l. 4" "\<lambda>l. tkip_encrypt_frag (tk_key l) (tk_txa l)" tkip_unseal
proof (unfold_locales, goal_cases)
  case (1 p n mem l)
  then show ?case using tkip_contract [of p n l mem] by blast
next
  case (2 p n mem l mem')
  then show ?case using tkip_contract [of p n l mem] by auto
next
  case (3 p n mem l mem')
  then show ?case using tkip_contract [of p n l mem] by auto
qed

section \<open>Properties\<close>

definition sample_tkip_link :: tkip_link where
  "sample_tkip_link =
     \<lparr>tk_key = tx_UncstKey (sample_attrib TKIP_ENCRYPTION 8 4),
      tk_txa = sample_attrib TKIP_ENCRYPTION 8 4, tk_rx = sample_sec,
      tk_sta = (\<lambda>_. Some (map of_nat [1..<17])), tk_rxa = sample_rx_attrib TKIP_ENCRYPTION 8 4\<rparr>"

lemma sample_tkip_agree: "tkip_agree sample_tkip_link"
  by (simp add: tkip_agree_def sample_tkip_link_def sample_defs rx_prwskey_def
      is_multicast_ether_addr_def rd_def)

text \<open>
  C4 (round trip of TKIP over a whole frame).  Let the receiver know the
  transmitter and select the key the sender used, and let the frame fit its
  buffer.  Then \<open>rtw_tkip_encrypt\<close> returns \<open>_SUCCESS\<close> without leaving the
  buffer, and \<open>rtw_tkip_decrypt\<close> accepts each of the fragments (its ICV check
  succeeds) and restores header, IV and payload.
\<close>

theorem tkip_frames_recovered:
  assumes "tx_prwskey sec (tx_attrib xf) = Some key"
    and "tkip_agree \<lparr>tk_key = key, tk_txa = tx_attrib xf, tk_rx = sec', tk_sta = sta, tk_rxa = ra\<rparr>"
    and "tx_encrypt (tx_attrib xf) = TKIP_ENCRYPTION" and "tx_fits fl xf"
  shows "\<exists>xf'. rtw_tkip_encrypt sec fl xf = Some (SUCCESS, xf') \<and>
    list_all2 (\<lambda>plain cipher.
        \<exists>t rf'. rtw_tkip_decrypt sec' sta (received ra cipher) = Some (SUCCESS, rf') \<and>
          length t = 4 \<and> rx_data rf' = take (length plain - 4) plain @ t)
      (air_fragments fl xf) (air_fragments fl xf')"
proof -
  let ?l = "\<lparr>tk_key = key, tk_txa = tx_attrib xf, tk_rx = sec', tk_sta = sta, tk_rxa = ra\<rparr>"
  obtain addr where addr: "buf_addr xf = Some addr"
    using assms(4) by (auto simp: tx_fits_def Let_def split: option.splits)
  have "tx_overhead (tx_attrib xf) = tkip_hd ?l + 4"
    using assms(2) by (simp add: tx_overhead_def tkip_hd_def tkip_agree_def)
  from tkip.frame_recovered [OF assms(4) addr refl this] assms(2)
  obtain mem' where m: "xmit_frag_loop (tkip_encrypt_frag key (tx_attrib xf)) (tx_attrib xf) fl
        (unat (nr_frags (tx_attrib xf))) (addr + hw_hdr_offset xf)
        (drop (hw_hdr_offset xf) (xf_buf xf)) = Some mem'"
      "list_all2 (tkip.recovered ?l) (air_fragments fl xf)
        (air_fragments fl (xf\<lparr>xf_buf := take (hw_hdr_offset xf) (xf_buf xf) @ mem'\<rparr>))"
    by auto
  have enc: "rtw_tkip_encrypt sec fl xf =
      Some (SUCCESS, xf\<lparr>xf_buf := take (hw_hdr_offset xf) (xf_buf xf) @ mem'\<rparr>)"
    using addr m(1) assms(1,3) by (simp add: rtw_tkip_encrypt_def Let_def)
  have rec: "\<exists>t rf'. rtw_tkip_decrypt sec' sta (received ra cipher) = Some (SUCCESS, rf') \<and>
      length t = 4 \<and> rx_data rf' = take (length plain - 4) plain @ t"
    if "tkip.recovered ?l plain cipher" for plain cipher
    using that by (auto simp: tkip.recovered_def tkip_unseal_def accepted_def
        split: option.splits status.splits)
  show ?thesis by (intro exI conjI, rule enc) (rule list_all2_mono [OF m(2) rec])
qed

theorem tkip_frames_recovered_witness:
  "\<exists>xf'. rtw_tkip_encrypt sample_sec 56 (sample_frame TKIP_ENCRYPTION 8 4) = Some (SUCCESS, xf') \<and>
    list_all2 (\<lambda>plain cipher.
        \<exists>t rf'. rtw_tkip_decrypt sample_sec (\<lambda>_. Some (map of_nat [1..<17]))
            (received (sample_rx_attrib TKIP_ENCRYPTION 8 4) cipher) = Some (SUCCESS, rf') \<and>
          length t = 4 \<and> rx_data rf' = take (length plain - 4) plain @ t)
      (air_fragments 56 (sample_frame TKIP_ENCRYPTION 8 4)) (air_fragments 56 xf')"
proof (rule tkip_frames_recovered)
  show "tx_prwskey sample_sec (tx_attrib (sample_frame TKIP_ENCRYPTION 8 4)) =
      Some (tx_UncstKey (sample_attrib TKIP_ENCRYPTION 8 4))"
    by (simp add: tx_prwskey_def is_multicast_ether_addr_def rd_def sample_defs)
  show "tkip_agree \<lparr>tk_key = tx_UncstKey (sample_attrib TKIP_ENCRYPTION 8 4),
      tk_txa = tx_attrib (sample_frame TKIP_ENCRYPTION 8 4), tk_rx = sample_sec,
      tk_sta = (\<lambda>_. Some (map of_nat [1..<17])), tk_rxa = sample_rx_attrib TKIP_ENCRYPTION 8 4\<rparr>"
    using sample_tkip_agree by (simp add: sample_tkip_link_def sample_frame_def)
  show "tx_fits 56 (sample_frame TKIP_ENCRYPTION 8 4)"
    by (rule sample_fits) simp
qed (simp add: sample_defs)

text \<open>
  Burst errors are rejected: If \<open>rtw_tkip_decrypt\<close> accepts a frame, then it
  rejects, with \<open>_FAIL\<close>, every frame that differs from it within a window
  of four consecutive bytes of the encrypted payload: the CRC-32 kept behind the
  payload detects every burst of up to 32 bits.
\<close>

theorem tkip_burst_rejected:
  assumes "rtw_tkip_decrypt sec sta (received a (h @ u @ xs @ v)) = Some (SUCCESS, rf)"
    and "rx_encrypt a = TKIP_ENCRYPTION"
    and "length h = unat (rx_hdrlen a) + unat (rx_iv_len a)" and "8 \<le> unat (rx_iv_len a)"
    and "length xs = 4" and "length ys = 4" and "xs \<noteq> ys" and "4 \<le> length v"
    and "length (h @ u @ xs @ v) < 2 ^ 31"
  shows "\<exists>rf'. rtw_tkip_decrypt sec sta (received a (h @ u @ ys @ v)) = Some (FAIL, rf')"
proof -
  define l where "l = length u + length v"
  obtain k where k: "rx_prwskey sec sta a = Some k"
    using rtw_tkip_decrypt_SUCCESS_key [OF assms(1)] assms(2) by (auto simp: received_def)
  have att: "rf_attrib (received a f) = a" "rx_data (received a f) = f" for f
    by (simp_all add: received_def)
  have len: "rx_payload_len (received a (h @ u @ z @ v)) = int (l + 4)" if "length z = 4" for z
    using assms(3,5,9) that by (intro rx_payload_len_eq) (simp_all add: l_def)
  have iv: "rd_bytes (h @ z) (uint (rx_hdrlen a)) 8 = Some (take 8 (drop (unat (rx_hdrlen a)) h))" for z
    using rd_bytes_nat [of "unat (rx_hdrlen a)" 8 "h @ z"] assms(3,4) by simp
  have b: "uint (rx_iv_len a) + uint (rx_hdrlen a) = int (length h)" using assms(3) by simp
  obtain tk ta where t: "rd_bytes k 0 16 = Some tk" "rd_bytes (rx_ta a) 0 6 = Some ta"
    using assms(1) rtw_tkip_decrypt_key [of "received a (h @ u @ xs @ v)" sec sta k] k assms(2)
    by (auto simp: att iv bind_eq_Some_conv Let_def)
  define key where "key = tkip_rc4key tk ta (take 8 (drop (unat (rx_hdrlen a)) h))"
  have dec: "rtw_tkip_decrypt sec sta (received a (h @ u @ z @ v)) =
      map_option (\<lambda>(mem, ok). (if ok then SUCCESS else FAIL, received a (h @ u @ z @ v)\<lparr>rx_data := mem\<rparr>))
        (rc4_unseal key 16 (int (length h)) (int (l + 4)) (h @ u @ z @ v))" if "length z = 4" for z
    using rtw_tkip_decrypt_key [of "received a (h @ u @ z @ v)" sec sta k] k assms(2) t
    by (cases "rc4_unseal key 16 (int (length h)) (int (l + 4)) (h @ u @ z @ v)")
       (auto simp: att iv len [OF that] b key_def Let_def simp del: of_nat_add)
  obtain m where "rc4_unseal key 16 (int (length h)) (int (l + 4)) (h @ u @ xs @ v) = Some (m, True)"
    using assms(1) dec [OF assms(5)] by (auto split: if_splits)
  from rc4_unseal_burst [OF this refl _ assms(8,5,6,7)] assms(5)
  obtain m' where "rc4_unseal key 16 (int (length h)) (int (l + 4)) (h @ u @ ys @ v) = Some (m', False)"
    by (auto simp: l_def)
  then show ?thesis using dec [OF assms(6)] by simp
qed

theorem tkip_burst_rejected_witness:
  "\<exists>h xs ys v rf rf'. xs \<noteq> ys \<and> length h = 32 \<and>
     rtw_tkip_decrypt sample_sec (\<lambda>_. Some (map of_nat [1..<17]))
       (received (sample_rx_attrib TKIP_ENCRYPTION 8 4) (h @ [] @ xs @ v)) = Some (SUCCESS, rf) \<and>
     rtw_tkip_decrypt sample_sec (\<lambda>_. Some (map of_nat [1..<17]))
       (received (sample_rx_attrib TKIP_ENCRYPTION 8 4) (h @ [] @ ys @ v)) = Some (FAIL, rf')"
proof -
  let ?a = "sample_rx_attrib TKIP_ENCRYPTION 8 4" and ?sta = "\<lambda>_. Some (map of_nat [1..<17])"
  have hd: "tkip_hd sample_tkip_link = 32"
    by (simp add: tkip_hd_def sample_tkip_link_def sample_defs)
  obtain mem' where m: "length mem' = 40"
      "tkip_unseal sample_tkip_link (take 40 mem') \<noteq> None"
    using tkip_contract [OF sample_tkip_agree, of 40 4 "replicate 40 0"] by (auto simp: hd)
  define h where "h = take 32 mem'"
  define xs where "xs = take 4 (drop 32 mem')"
  define v where "v = drop 36 mem'"
  have mem': "take 40 mem' = h @ [] @ xs @ v"
    using m(1) append_take_drop_id [of 32 mem'] append_take_drop_id [of 4 "drop 32 mem'"]
    by (simp add: h_def xs_def v_def)
  have len: "length h = 32" "length xs = 4" "length v = 4"
    using m(1) by (simp_all add: h_def xs_def v_def)
  obtain rf where rf: "rtw_tkip_decrypt sample_sec ?sta (received ?a (h @ [] @ xs @ v)) = Some (SUCCESS, rf)"
    using m(2) by (auto simp: mem' tkip_unseal_def accepted_def sample_tkip_link_def
        split: option.splits status.splits)
  obtain ys :: "byte list" where ys: "length ys = 4" "xs \<noteq> ys"
  proof (cases "xs = [0, 0, 0, 0]")
    case True
    then show ?thesis using that [of "[1, 0, 0, 0]"] by simp
  next
    case False
    then show ?thesis using that [of "[0, 0, 0, 0]"] by simp
  qed
  obtain rf' where "rtw_tkip_decrypt sample_sec ?sta (received ?a (h @ [] @ ys @ v)) = Some (FAIL, rf')"
    using tkip_burst_rejected [OF rf _ _ _ len(2) ys] len by (auto simp: sample_defs)
  with rf ys len(1) show ?thesis by blast
qed

end
