(* ===== verification/Ccmp.thy ===== *)
theory Ccmp
  imports Aes Tkip "HOL-Library.Signed_Division"
begin

text \<open>
  CCMP (\<open>construct_mic_iv\<close>, \<open>construct_mic_header1\<close>, \<open>construct_mic_header2\<close>,
  \<open>construct_ctr_preload\<close>, \<open>aes_cipher\<close>, \<open>aes_decipher\<close>, \<open>rtw_aes_encrypt\<close>,
  \<open>rtw_aes_decrypt\<close> of src/core/rtw_security.c).  The code is built without
  \<open>CONSISTENT_PN_ORDER\<close>.

  Shown: frames encrypted by \<open>rtw_aes_encrypt\<close> are accepted and restored by
  \<open>rtw_aes_decrypt\<close>, under conditions on header and length that are stated
  exactly; what goes wrong outside them.
\<close>

section \<open>Blocks built from the header\<close>

text \<open>
  \<open>mpdu\<close> is the frame; a read outside it is undefined.
\<close>

definition qos_tc :: "bool \<Rightarrow> bool \<Rightarrow> byte list \<Rightarrow> byte option" where
  "qos_tc qc_exists a4_exists mpdu =
     (if qc_exists then map_option (\<lambda>b. b AND 0x0f) (rd mpdu (if a4_exists then 30 else 24))
      else Some 0)"

definition construct_mic_iv ::
  "bool \<Rightarrow> bool \<Rightarrow> byte list \<Rightarrow> u32 \<Rightarrow> byte list \<Rightarrow> byte list option" where
  "construct_mic_iv qc_exists a4_exists mpdu payload_length pn_vector = do {
     tc \<leftarrow> qos_tc qc_exists a4_exists mpdu;
     a2 \<leftarrow> rd_bytes mpdu 10 6;
     Some ([0x59, tc] @ a2 @ rev pn_vector @
           [ucast (payload_length div 256), ucast (payload_length mod 256)])
   }"

definition construct_mic_header1 :: "nat \<Rightarrow> byte list \<Rightarrow> byte list option" where
  "construct_mic_header1 header_length mpdu = do {
     h \<leftarrow> rd_bytes mpdu 0 16;
     let n = (int header_length - 2);
     Some ([word_of_int (n sdiv 256), word_of_int (n smod 256), h ! 0 AND 0xcf, h ! 1 AND 0xc7] @
           drop 4 h)
   }"

definition construct_mic_header2 :: "byte list \<Rightarrow> bool \<Rightarrow> bool \<Rightarrow> byte list option" where
  "construct_mic_header2 mpdu a4_exists qc_exists = do {
     a3 \<leftarrow> rd_bytes mpdu 16 6;
     tail \<leftarrow>
       (if a4_exists then do {
          a4 \<leftarrow> rd_bytes mpdu 24 6;
          qc \<leftarrow> (if qc_exists then map_option (\<lambda>q. [q ! 0 AND 0x0f, q ! 1 AND 0x00]) (rd_bytes mpdu 30 2)
                else Some [0, 0]);
          Some (a4 @ qc)
        } else if qc_exists then
          map_option (\<lambda>q. [q ! 0 AND 0x0f, q ! 1 AND 0x00] @ replicate 6 0) (rd_bytes mpdu 24 2)
        else Some (replicate 8 0));
     Some (a3 @ [0, 0] @ tail)
   }"

definition construct_ctr_preload ::
  "bool \<Rightarrow> bool \<Rightarrow> byte list \<Rightarrow> byte list \<Rightarrow> nat \<Rightarrow> byte list option" where
  "construct_ctr_preload a4_exists qc_exists mpdu pn_vector c = do {
     tc \<leftarrow> qos_tc qc_exists a4_exists mpdu;
     a2 \<leftarrow> rd_bytes mpdu 10 6;
     Some ([0x01, tc] @ a2 @ rev pn_vector @ [of_nat (c div 256), of_nat (c mod 256)])
   }"

definition bitwise_xor :: "byte list \<Rightarrow> byte list \<Rightarrow> byte list" where
  "bitwise_xor ina inb = map (\<lambda>i. ina ! i XOR inb ! i) [0..<16]"

section \<open>Frame classification\<close>

definition frame_control :: "byte list \<Rightarrow> u16 option" where
  "frame_control pbuf = map_option (\<lambda>b. le16_of (b ! 0) (b ! 1)) (rd_bytes pbuf 0 2)"

definition GetFrameType :: "byte list \<Rightarrow> u16 option" where
  "GetFrameType pbuf = map_option (\<lambda>w. w AND 0x000c) (frame_control pbuf)"

definition GetFrameSubType :: "byte list \<Rightarrow> u16 option" where
  "GetFrameSubType pbuf = map_option (\<lambda>w. w AND 0x00fc) (frame_control pbuf)"

definition WLAN_HDR_A3_LEN :: nat where "WLAN_HDR_A3_LEN = 24"
definition WLAN_HDR_A3_QOS_LEN :: nat where "WLAN_HDR_A3_QOS_LEN = 26"
definition WIFI_DATA_CFACK :: u16 where "WIFI_DATA_CFACK = 0x18"
definition WIFI_DATA_CFPOLL :: u16 where "WIFI_DATA_CFPOLL = 0x28"
definition WIFI_DATA_CFACKPOLL :: u16 where "WIFI_DATA_CFACKPOLL = 0x38"

definition a4_exists_of :: "nat \<Rightarrow> bool" where
  "a4_exists_of hdrlen \<longleftrightarrow> \<not> (hdrlen = WLAN_HDR_A3_LEN \<or> hdrlen = WLAN_HDR_A3_QOS_LEN)"

text \<open>\<open>qc_exists\<close> and the header length, which grows by two for QoS frames.\<close>

definition qc_exists_of :: "byte list \<Rightarrow> bool option" where
  "qc_exists_of pframe = do {
     frtype \<leftarrow> GetFrameType pframe;
     frsubtype \<leftarrow> map_option (drop_bit 4) (GetFrameSubType pframe);
     Some (frtype = WIFI_DATA_CFACK \<or> frtype = WIFI_DATA_CFPOLL \<or> frtype = WIFI_DATA_CFACKPOLL \<or>
           frsubtype = 0x08 \<or> frsubtype = 0x09 \<or> frsubtype = 0x0a \<or> frsubtype = 0x0b)
   }"

definition qos_hdrlen :: "bool \<Rightarrow> nat \<Rightarrow> nat" where
  "qos_hdrlen qc hdrlen = (if qc \<and> hdrlen \<noteq> WLAN_HDR_A3_QOS_LEN then hdrlen + 2 else hdrlen)"

definition pn_vector_of :: "byte list \<Rightarrow> nat \<Rightarrow> byte list option" where
  "pn_vector_of pframe hdrlen =
     map_option (\<lambda>v. [v ! 0, v ! 1, v ! 4, v ! 5, v ! 6, v ! 7]) (rd_bytes pframe (int hdrlen) 8)"

section \<open>The loops\<close>

text \<open>CBC-MAC over \<open>n\<close> whole blocks of \<open>mem\<close> from \<open>payload_index\<close> on.\<close>

fun mic_blocks :: "byte list \<Rightarrow> nat \<Rightarrow> nat \<Rightarrow> byte list \<Rightarrow> byte list \<Rightarrow> byte list option" where
  "mic_blocks key 0 payload_index mem aes_out = Some aes_out"
| "mic_blocks key (Suc n) payload_index mem aes_out = do {
     blk \<leftarrow> rd_bytes mem (int payload_index) 16;
     mic_blocks key n (payload_index + 16) mem (aes128k128d key (bitwise_xor aes_out blk))
   }"

definition pad_block :: "byte list \<Rightarrow> byte list" where
  "pad_block b = b @ replicate (16 - length b) 0"

text \<open>The MIC: the two header blocks, the whole blocks and a padded remainder.\<close>

definition calc_mic ::
  "byte list \<Rightarrow> byte list \<Rightarrow> byte list \<Rightarrow> byte list \<Rightarrow> nat \<Rightarrow> nat \<Rightarrow> byte list \<Rightarrow> byte list option" where
  "calc_mic key mic_iv mic_header1 mic_header2 payload_index plen mem = do {
     let aes_out = aes128k128d key mic_iv;
     let aes_out = aes128k128d key (bitwise_xor aes_out mic_header1);
     let aes_out = aes128k128d key (bitwise_xor aes_out mic_header2);
     aes_out \<leftarrow> mic_blocks key (plen div 16) payload_index mem aes_out;
     aes_out \<leftarrow>
       (if plen mod 16 > 0 then do {
          r \<leftarrow> rd_bytes mem (int (payload_index + 16 * (plen div 16))) (int (plen mod 16));
          Some (aes128k128d key (bitwise_xor aes_out (pad_block r)))
        } else Some aes_out);
     Some (take 8 aes_out)
   }"

text \<open>Counter mode over \<open>n\<close> whole blocks; block \<open>i\<close> uses the counter \<open>i + 1\<close>.\<close>

fun ctr_blocks ::
  "byte list \<Rightarrow> bool \<Rightarrow> bool \<Rightarrow> byte list \<Rightarrow> nat \<Rightarrow> nat \<Rightarrow> nat \<Rightarrow> byte list \<Rightarrow> byte list option" where
  "ctr_blocks key a4 qc pn i 0 payload_index mem = Some mem"
| "ctr_blocks key a4 qc pn i (Suc n) payload_index mem = do {
     ctr \<leftarrow> construct_ctr_preload a4 qc mem pn (i + 1);
     blk \<leftarrow> rd_bytes mem (int payload_index) 16;
     mem \<leftarrow> wr_bytes mem (int payload_index) (bitwise_xor (aes128k128d key ctr) blk);
     ctr_blocks key a4 qc pn (i + 1) n (payload_index + 16) mem
   }"

definition ctr_payload ::
  "byte list \<Rightarrow> bool \<Rightarrow> bool \<Rightarrow> byte list \<Rightarrow> nat \<Rightarrow> nat \<Rightarrow> byte list \<Rightarrow> byte list option" where
  "ctr_payload key a4 qc pn payload_index plen mem = do {
     let num_blocks = plen div 16;
     mem \<leftarrow> ctr_blocks key a4 qc pn 0 num_blocks payload_index mem;
     if plen mod 16 > 0 then do {
       let idx = payload_index + 16 * num_blocks;
       ctr \<leftarrow> construct_ctr_preload a4 qc mem pn (num_blocks + 1);
       r \<leftarrow> rd_bytes mem (int idx) (int (plen mod 16));
       wr_bytes mem (int idx) (take (plen mod 16) (bitwise_xor (aes128k128d key ctr) (pad_block r)))
     } else Some mem
   }"

text \<open>The MIC behind the payload is encrypted with counter 0.\<close>

definition ctr_mic ::
  "byte list \<Rightarrow> bool \<Rightarrow> bool \<Rightarrow> byte list \<Rightarrow> nat \<Rightarrow> byte list \<Rightarrow> byte list option" where
  "ctr_mic key a4 qc pn mic_index mem = do {
     ctr \<leftarrow> construct_ctr_preload a4 qc mem pn 0;
     m \<leftarrow> rd_bytes mem (int mic_index) 8;
     wr_bytes mem (int mic_index) (take 8 (bitwise_xor (aes128k128d key ctr) (pad_block m)))
   }"

text \<open>
  The part \<open>aes_cipher\<close> and \<open>aes_decipher\<close> have in common: the MIC over the plain
  payload is written behind it and both are encrypted, in \<open>pframe\<close> by the sender
  and in the copy \<open>message\<close> by the receiver.
\<close>

definition ccm_seal ::
  "byte list \<Rightarrow> bool \<Rightarrow> bool \<Rightarrow> byte list \<Rightarrow> nat \<Rightarrow> u32 \<Rightarrow> byte list \<Rightarrow> byte list option" where
  "ccm_seal key a4 qc pn hdrlen plen mem = do {
     mic_iv \<leftarrow> construct_mic_iv qc a4 mem plen pn;
     mic_header1 \<leftarrow> construct_mic_header1 hdrlen mem;
     mic_header2 \<leftarrow> construct_mic_header2 mem a4 qc;
     mic \<leftarrow> calc_mic key mic_iv mic_header1 mic_header2 (hdrlen + 8) (unat plen) mem;
     mem \<leftarrow> wr_bytes mem (int (hdrlen + 8 + unat plen)) mic;
     mem \<leftarrow> ctr_payload key a4 qc pn (hdrlen + 8) (unat plen) mem;
     ctr_mic key a4 qc pn (hdrlen + 8 + unat plen) mem
   }"

definition aes_cipher :: "byte list \<Rightarrow> nat \<Rightarrow> byte list \<Rightarrow> u32 \<Rightarrow> byte list option" where
  "aes_cipher key hdrlen pframe plen = do {
     qc \<leftarrow> qc_exists_of pframe;
     let a4 = a4_exists_of hdrlen;
     let hdrlen = qos_hdrlen qc hdrlen;
     pn \<leftarrow> pn_vector_of pframe hdrlen;
     ccm_seal key a4 qc pn hdrlen plen pframe
   }"

definition MAX_MSG_SIZE :: nat where "MAX_MSG_SIZE = 2048"

text \<open>
  \<open>aes_decipher\<close>; \<open>message\<close> is the static buffer, which keeps its contents between
  calls.  The packet number is read once with the header length passed in and
  once with the adjusted one.
\<close>

definition aes_decipher ::
  "byte list \<Rightarrow> nat \<Rightarrow> byte list \<Rightarrow> u32 \<Rightarrow> byte list \<Rightarrow> (status \<times> byte list \<times> byte list) option" where
  "aes_decipher key hdrlen pframe plen message = do {
     qc \<leftarrow> qc_exists_of pframe;
     pn \<leftarrow> pn_vector_of pframe hdrlen;
     let a4 = a4_exists_of hdrlen;
     let hdrlen = qos_hdrlen qc hdrlen;
     pframe \<leftarrow> ctr_payload key a4 qc pn (hdrlen + 8) (unat (plen - 8)) pframe;
     message \<leftarrow>
       (if hdrlen + unat plen + 8 \<le> MAX_MSG_SIZE then do {
          f \<leftarrow> rd_bytes pframe 0 (int (hdrlen + unat plen + 8));
          wr_bytes message 0 f
        } else Some message);
     pn \<leftarrow> pn_vector_of pframe hdrlen;
     message \<leftarrow> ccm_seal key a4 qc pn hdrlen (plen - 8) message;
     f \<leftarrow> rd_bytes pframe (int (hdrlen + unat plen)) 8;
     g \<leftarrow> rd_bytes message (int (hdrlen + unat plen)) 8;
     Some (if f = g then SUCCESS else FAIL, pframe, message)
   }"

section \<open>Frames\<close>

text \<open>The length of a fragment is an \<open>int\<close> and is converted to \<open>uint\<close> in the call.\<close>

definition ccmp_encrypt_frag ::
  "byte list \<Rightarrow> tx_pkt_attrib \<Rightarrow> int \<Rightarrow> byte list \<Rightarrow> byte list option" where
  "ccmp_encrypt_frag prwskey a len mem = do {
     key \<leftarrow> rd_bytes prwskey 0 16;
     aes_cipher key (unat (tx_hdrlen a)) mem (word_of_int len)
   }"

definition rtw_aes_encrypt ::
  "security_priv \<Rightarrow> u32 \<Rightarrow> xmit_frame \<Rightarrow> (status \<times> xmit_frame) option" where
  "rtw_aes_encrypt sec frag_len xf =
     (case buf_addr xf of
        None \<Rightarrow> Some (FAIL, xf)
      | Some addr \<Rightarrow>
          let a = tx_attrib xf; off = hw_hdr_offset xf in
          if tx_encrypt a = AESCCMP_ENCRYPTION then do {
            prwskey \<leftarrow> tx_prwskey sec a;
            mem \<leftarrow> xmit_frag_loop (ccmp_encrypt_frag prwskey a) a frag_len (unat (nr_frags a))
                     (addr + off) (drop off (xf_buf xf));
            Some (SUCCESS, xf\<lparr>xf_buf := take off (xf_buf xf) @ mem\<rparr>)
          } else Some (SUCCESS, xf))"

definition rtw_aes_decrypt ::
  "security_priv \<Rightarrow> (byte list \<Rightarrow> byte list option) \<Rightarrow> byte list \<Rightarrow> recv_frame
     \<Rightarrow> (status \<times> recv_frame \<times> byte list) option" where
  "rtw_aes_decrypt sec get_stainfo message rf =
     (let a = rf_attrib rf in
      if rx_encrypt a = AESCCMP_ENCRYPTION then
        case get_stainfo (rx_ta a) of
          None \<Rightarrow> Some (FAIL, rf, message)
        | Some uncst \<Rightarrow> do {
            mc \<leftarrow> is_multicast_ether_addr (rx_ra a);
            if mc \<and> \<not> binstallGrpkey sec then Some (FAIL, rf, message)
            else do {
              prwskey \<leftarrow> (if mc then rd (dot118021XGrpKey sec) (uint (rx_key_index a))
                          else Some uncst);
              if mc \<and> dot118021XGrpKeyid sec \<noteq> ucast (rx_key_index a) then Some (FAIL, rf, message)
              else do {
                key \<leftarrow> rd_bytes prwskey 0 16;
                (res, mem, message) \<leftarrow> aes_decipher key (unat (rx_hdrlen a)) (rx_data rf)
                   (word_of_int (rx_payload_len rf)) message;
                Some (res, rf\<lparr>rx_data := mem\<rparr>, message)
              }
            }
          }
      else Some (SUCCESS, rf, message))"

section \<open>What the blocks depend on\<close>

text \<open>All header blocks depend on the first 32 bytes of the frame only.\<close>

lemma rd_bytes_append:
  "0 \<le> off \<Longrightarrow> 0 \<le> n \<Longrightarrow> off + n \<le> int (length H) \<Longrightarrow>
   rd_bytes (H @ m) off n = Some (take (nat n) (drop (nat off) H))"
  by (simp add: rd_bytes_def in_buf_def)

lemma rd_append: "0 \<le> i \<Longrightarrow> i < int (length H) \<Longrightarrow> rd (H @ m) i = Some (H ! nat i)"
  by (simp add: rd_def nth_append nat_less_iff)

lemma header_blocks_append:
  assumes "32 \<le> length H"
  shows "construct_mic_iv qc a4 (H @ m) l pn = construct_mic_iv qc a4 H l pn"
    and "construct_mic_header1 n (H @ m) = construct_mic_header1 n H"
    and "construct_mic_header2 (H @ m) a4 qc = construct_mic_header2 H a4 qc"
    and "construct_ctr_preload a4 qc (H @ m) pn c = construct_ctr_preload a4 qc H pn c"
    and "qc_exists_of (H @ m) = qc_exists_of H"
  using assms rd_append [of _ H m] rd_append [of _ H "[]"]
    rd_bytes_append [of _ _ H m] rd_bytes_append [of _ _ H "[]"]
  by (simp_all add: construct_mic_iv_def construct_mic_header1_def construct_mic_header2_def
      construct_ctr_preload_def qos_tc_def qc_exists_of_def GetFrameType_def GetFrameSubType_def
      frame_control_def)

lemma header_blocks_total:
  assumes "32 \<le> length H"
  shows "\<exists>b. construct_mic_iv qc a4 H l pn = Some b"
    and "\<exists>b. construct_mic_header1 n H = Some b"
    and "\<exists>b. construct_mic_header2 H a4 qc = Some b"
    and "\<exists>b. construct_ctr_preload a4 qc H pn c = Some b"
    and "\<exists>q. qc_exists_of H = Some q"
  using assms rd_append [of _ H "[]"] rd_bytes_append [of _ _ H "[]"]
  by (simp_all add: construct_mic_iv_def construct_mic_header1_def construct_mic_header2_def
      construct_ctr_preload_def qos_tc_def qc_exists_of_def GetFrameType_def GetFrameSubType_def
      frame_control_def Let_def)

section \<open>Counter mode\<close>

definition ks :: "byte list \<Rightarrow> bool \<Rightarrow> bool \<Rightarrow> byte list \<Rightarrow> byte list \<Rightarrow> nat \<Rightarrow> byte list" where
  "ks key a4 qc pn H c = aes128k128d key (the (construct_ctr_preload a4 qc H pn c))"

text \<open>The payload from block \<open>i\<close> on, xored with the key stream \<open>k\<close>.\<close>

definition ctr_xor :: "(nat \<Rightarrow> byte list) \<Rightarrow> nat \<Rightarrow> byte list \<Rightarrow> byte list" where
  "ctr_xor k i P = map (\<lambda>j. P ! j XOR k (i + j div 16 + 1) ! (j mod 16)) [0..<length P]"

lemma length_ctr_xor [len_simps, simp]: "length (ctr_xor k i P) = length P"
  by (simp add: ctr_xor_def)

lemma ctr_xor_twice: "ctr_xor k i (ctr_xor k i P) = P"
  by (rule nth_equalityI) (simp_all add: ctr_xor_def)

lemma ctr_xor_append:
  "length xs = 16 * n \<Longrightarrow> ctr_xor k i (xs @ ys) = ctr_xor k i xs @ ctr_xor k (i + n) ys"
  by (rule nth_equalityI) (auto simp: ctr_xor_def nth_append not_less add.assoc dest!: le_Suc_ex)

lemma ctr_xor_block: "length xs = 16 \<Longrightarrow> bitwise_xor (k (Suc i)) xs = ctr_xor k i xs"
  by (simp add: bitwise_xor_def ctr_xor_def xor.commute)

lemma ctr_xor_partial:
  "length xs < 16 \<Longrightarrow> take (length xs) (bitwise_xor (k (i + 1)) (pad_block xs)) = ctr_xor k i xs"
  by (rule nth_equalityI) (auto simp: bitwise_xor_def ctr_xor_def pad_block_def nth_append xor.commute)

lemma ctr_blocks_eq:
  assumes "32 \<le> length H"
  shows "length P = 16 * n \<Longrightarrow> length D = 16 * i \<Longrightarrow>
    ctr_blocks key a4 qc pn i n (length H + 16 * i) (H @ D @ P @ post) =
      Some (H @ D @ ctr_xor (ks key a4 qc pn H) i P @ post)"
proof (induction n arbitrary: i D P)
  case 0
  then show ?case by (simp add: ctr_xor_def)
next
  case (Suc n)
  define blk where "blk = take 16 P"
  define rest where "rest = drop 16 P"
  have P: "P = blk @ rest" and len: "length blk = 16" "length rest = 16 * n"
    using Suc.prems(1) by (simp_all add: blk_def rest_def)
  obtain ctr where ctr: "construct_ctr_preload a4 qc H pn (i + 1) = Some ctr"
    using header_blocks_total(4) [OF assms] by blast
  let ?k = "ks key a4 qc pn H"
  have k: "aes128k128d key ctr = ?k (i + 1)" using ctr by (simp add: ks_def)
  let ?i = "length H + 16 * i"
  have "rd_bytes (H @ D @ P @ post) (int ?i) 16 = Some blk"
    using rd_bytes_nat [of ?i 16 "H @ D @ P @ post"] Suc.prems len by (simp add: P)
  moreover have "wr_bytes (H @ D @ P @ post) (int ?i) (bitwise_xor (?k (i + 1)) blk) =
      Some (H @ D @ ctr_xor ?k i blk @ rest @ post)"
    using wr_bytes_nat [of ?i "ctr_xor ?k i blk" "H @ D @ P @ post"] Suc.prems len
    by (simp add: P ctr_xor_block overlay_def)
  moreover have "ctr_blocks key a4 qc pn (i + 1) n (length H + 16 * (i + 1))
      (H @ (D @ ctr_xor ?k i blk) @ rest @ post) =
      Some (H @ (D @ ctr_xor ?k i blk) @ ctr_xor ?k (i + 1) rest @ post)"
    using Suc.prems len by (intro Suc.IH) simp_all
  ultimately show ?case
    using ctr k ctr_xor_append [of blk 1 ?k i rest] len
    by (simp add: header_blocks_append(4) [OF assms] P algebra_simps)
qed

lemma ctr_payload_eq:
  assumes "32 \<le> length H"
  shows "ctr_payload key a4 qc pn (length H) (length P) (H @ P @ post) =
    Some (H @ ctr_xor (ks key a4 qc pn H) 0 P @ post)"
proof -
  let ?k = "ks key a4 qc pn H"
  define n where "n = length P div 16"
  define D where "D = take (16 * n) P"
  define r where "r = drop (16 * n) P"
  have P: "P = D @ r" and len: "length D = 16 * n" "length r = length P mod 16"
    by (auto simp: D_def r_def n_def minus_mult_div_eq_mod)
  have blocks: "ctr_blocks key a4 qc pn 0 n (length H) (H @ P @ post) =
      Some (H @ ctr_xor ?k 0 D @ r @ post)"
    using ctr_blocks_eq [OF assms, of D n "[]" 0 key a4 qc pn "r @ post"] len by (simp add: P)
  show ?thesis
  proof (cases "length P mod 16 = 0")
    case True
    with blocks len show ?thesis by (simp add: ctr_payload_def n_def [symmetric] P)
  next
    case False
    obtain ctr where ctr: "construct_ctr_preload a4 qc H pn (n + 1) = Some ctr"
      using header_blocks_total(4) [OF assms] by blast
    let ?m = "H @ ctr_xor ?k 0 D @ r @ post" and ?i = "length H + 16 * n"
    have "rd_bytes ?m (int ?i) (int (length r)) = Some r"
      using rd_bytes_nat [of ?i "length r" ?m] len by simp
    moreover have "wr_bytes ?m (int ?i) (ctr_xor ?k n r) = Some (H @ ctr_xor ?k 0 D @ ctr_xor ?k n r @ post)"
      using wr_bytes_nat [of ?i "ctr_xor ?k n r" ?m] len by (simp add: overlay_def)
    moreover have "take (length r) (bitwise_xor (aes128k128d key ctr) (pad_block r)) = ctr_xor ?k n r"
      using ctr_xor_partial [of r ?k n] len ctr by (simp add: ks_def)
    moreover have "ctr_xor ?k 0 P = ctr_xor ?k 0 D @ ctr_xor ?k n r"
      using ctr_xor_append [of D n ?k 0 r] len by (simp add: P)
    ultimately show ?thesis
      using False blocks ctr len(2)
      by (simp add: ctr_payload_def n_def [symmetric] header_blocks_append(4) [OF assms] Let_def)
  qed
qed

lemma ctr_mic_eq:
  assumes "32 \<le> length H" and "length tg = 8"
  shows "ctr_mic key a4 qc pn (length H + length P) (H @ P @ tg @ post) =
    Some (H @ P @ take 8 (bitwise_xor (ks key a4 qc pn H 0) (pad_block tg)) @ post)"
proof -
  obtain ctr where ctr: "construct_ctr_preload a4 qc H pn 0 = Some ctr"
    using header_blocks_total(4) [OF assms(1)] by blast
  let ?i = "length H + length P" and ?m = "H @ P @ tg @ post"
    and ?x = "take 8 (bitwise_xor (ks key a4 qc pn H 0) (pad_block tg))"
  have "rd_bytes ?m (int ?i) 8 = Some tg"
    using rd_bytes_nat [of ?i 8 ?m] assms(2) by simp
  moreover have "wr_bytes ?m (int ?i) ?x = Some (H @ P @ ?x @ post)"
    using wr_bytes_nat [of ?i ?x ?m] assms(2) by (simp add: overlay_def bitwise_xor_def)
  ultimately show ?thesis
    using ctr by (simp add: ctr_mic_def header_blocks_append(4) [OF assms(1)] ks_def)
qed

section \<open>The MIC\<close>

lemma mic_blocks_shift:
  "i + 16 * n \<le> length P \<Longrightarrow>
   mic_blocks key n (length H + i) (H @ P @ post) acc = mic_blocks key n i P acc"
proof (induction n arbitrary: i acc)
  case (Suc n)
  have "rd_bytes (H @ P @ post) (int (length H + i)) 16 = Some (take 16 (drop i P))"
      "rd_bytes P (int i) 16 = Some (take 16 (drop i P))"
    using rd_bytes_nat [of "length H + i" 16 "H @ P @ post"] rd_bytes_nat [of i 16 P] Suc.prems by auto
  with Suc.IH [of "i + 16"] Suc.prems show ?case by (simp add: add.assoc)
qed simp

lemma mic_blocks_total: "i + 16 * n \<le> length P \<Longrightarrow> length acc = 16 \<Longrightarrow>
   \<exists>out. mic_blocks key n i P acc = Some out \<and> length out = 16"
proof (induction n arbitrary: i acc)
  case (Suc n)
  have "rd_bytes P (int i) 16 = Some (take 16 (drop i P))"
    using rd_bytes_nat [of i 16 P] Suc.prems by auto
  with Suc.IH [of "i + 16"] Suc.prems show ?case by simp
qed simp

lemma calc_mic_shift:
  "calc_mic key iv h1 h2 (length H) (length P) (H @ P @ post) = calc_mic key iv h1 h2 0 (length P) P"
proof -
  have "mic_blocks key (length P div 16) (length H) (H @ P @ post) acc =
      mic_blocks key (length P div 16) 0 P acc" for acc
    using mic_blocks_shift [of 0 "length P div 16" P key H post acc] by simp
  moreover have "rd_bytes (H @ P @ post) (int (length H + 16 * (length P div 16))) (int (length P mod 16)) =
      rd_bytes P (int (0 + 16 * (length P div 16))) (int (length P mod 16))"
  proof -
    have le: "16 * (length P div 16) + length P mod 16 \<le> length P" by simp
    show ?thesis
      using rd_bytes_nat [of "length H + 16 * (length P div 16)" "length P mod 16" "H @ P @ post"]
        rd_bytes_nat [of "16 * (length P div 16)" "length P mod 16" P] le
      by (simp del: of_nat_add)
  qed
  ultimately show ?thesis by (simp only: calc_mic_def)
qed

lemma calc_mic_total: "\<exists>m. calc_mic key iv h1 h2 0 (length P) P = Some m \<and> length m = 8"
proof -
  let ?acc = "aes128k128d key (bitwise_xor (aes128k128d key (bitwise_xor (aes128k128d key iv) h1)) h2)"
  obtain out where out: "mic_blocks key (length P div 16) 0 P ?acc = Some out" "length out = 16"
    using mic_blocks_total [of 0 "length P div 16" P ?acc key] by auto
  have "rd_bytes P (int (0 + 16 * (length P div 16))) (int (length P mod 16)) =
      Some (take (length P mod 16) (drop (16 * (length P div 16)) P))"
    using rd_bytes_nat [of "16 * (length P div 16)" "length P mod 16" P] by simp
  with out show ?thesis by (auto simp: calc_mic_def Let_def)
qed

text \<open>The MIC of header and IV \<open>H\<close> and payload \<open>P\<close>.\<close>

definition ccm_mic ::
  "byte list \<Rightarrow> bool \<Rightarrow> bool \<Rightarrow> byte list \<Rightarrow> nat \<Rightarrow> byte list \<Rightarrow> byte list \<Rightarrow> byte list" where
  "ccm_mic key a4 qc pn hdrlen H P =
     the (calc_mic key (the (construct_mic_iv qc a4 H (of_nat (length P)) pn))
            (the (construct_mic_header1 hdrlen H)) (the (construct_mic_header2 H a4 qc)) 0 (length P) P)"

lemma length_ccm_mic [simp]: "length (ccm_mic key a4 qc pn hdrlen H P) = 8"
  using calc_mic_total [of key _ _ _ P] unfolding ccm_mic_def by (metis option.sel)

text \<open>The sealed MIC.\<close>

definition ccm_tag ::
  "byte list \<Rightarrow> bool \<Rightarrow> bool \<Rightarrow> byte list \<Rightarrow> nat \<Rightarrow> byte list \<Rightarrow> byte list \<Rightarrow> byte list" where
  "ccm_tag key a4 qc pn hdrlen H P =
     take 8 (bitwise_xor (ks key a4 qc pn H 0) (pad_block (ccm_mic key a4 qc pn hdrlen H P)))"

lemma length_ccm_tag [simp]: "length (ccm_tag key a4 qc pn hdrlen H P) = 8"
  by (simp add: ccm_tag_def bitwise_xor_def)

lemma ccm_seal_eq:
  assumes "32 \<le> length H" and "length H = hdrlen + 8" and "length P < 2 ^ 32" and "length tg = 8"
  shows "ccm_seal key a4 qc pn hdrlen (of_nat (length P)) (H @ P @ tg @ post) =
    Some (H @ ctr_xor (ks key a4 qc pn H) 0 P @ ccm_tag key a4 qc pn hdrlen H P @ post)"
proof -
  let ?k = "ks key a4 qc pn H" and ?mic = "ccm_mic key a4 qc pn hdrlen H P"
  have plen: "unat (of_nat (length P) :: u32) = length P"
    using assms(3) by (simp add: unat_of_nat take_bit_nat_eq_self)
  obtain iv h1 h2 where h: "construct_mic_iv qc a4 H (of_nat (length P)) pn = Some iv"
      "construct_mic_header1 hdrlen H = Some h1" "construct_mic_header2 H a4 qc = Some h2"
    using header_blocks_total(1-3) [OF assms(1)] by metis
  have mic: "calc_mic key iv h1 h2 (hdrlen + 8) (length P) (H @ P @ tg @ post) = Some ?mic"
    using calc_mic_shift [of key iv h1 h2 H P "tg @ post"] calc_mic_total [of key iv h1 h2 P]
    by (auto simp: ccm_mic_def h assms(2))
  have wr: "wr_bytes (H @ P @ tg @ post) (int (hdrlen + 8 + length P)) ?mic = Some (H @ P @ ?mic @ post)"
    using wr_bytes_nat [of "length H + length P" ?mic "H @ P @ tg @ post"] assms(2,4)
    by (simp add: overlay_def)
  have ctr: "ctr_payload key a4 qc pn (hdrlen + 8) (length P) (H @ P @ ?mic @ post) =
      Some (H @ ctr_xor ?k 0 P @ ?mic @ post)"
    using ctr_payload_eq [OF assms(1), of key a4 qc pn P "?mic @ post"] assms(2) by simp
  have "ctr_mic key a4 qc pn (hdrlen + 8 + length P) (H @ ctr_xor ?k 0 P @ ?mic @ post) =
      Some (H @ ctr_xor ?k 0 P @ ccm_tag key a4 qc pn hdrlen H P @ post)"
    using ctr_mic_eq [OF assms(1), of ?mic key a4 qc pn "ctr_xor ?k 0 P" post] assms(2)
    by (simp add: ccm_tag_def)
  with h mic wr ctr show ?thesis
    by (simp add: ccm_seal_def header_blocks_append [OF assms(1)] plen del: of_nat_add)
qed

section \<open>Sender and receiver\<close>

text \<open>
  The headers for which both ends agree where the payload starts: at least 24
  bytes, and 26 bytes when the frame is a QoS frame.  For other QoS frames the
  code adds two to the header length.
\<close>

definition ccmp_header_ok :: "nat \<Rightarrow> byte list \<Rightarrow> bool" where
  "ccmp_header_ok hdrlen f \<longleftrightarrow>
     24 \<le> hdrlen \<and> hdrlen + 8 \<le> length f \<and>
     (qc_exists_of f = Some True \<longrightarrow> hdrlen = WLAN_HDR_A3_QOS_LEN)"

lemma pn_vector_append:
  "hdrlen + 8 \<le> length H \<Longrightarrow> pn_vector_of (H @ m) hdrlen = pn_vector_of H hdrlen"
  by (simp add: pn_vector_of_def rd_bytes_def in_buf_def)

lemma pn_vector_total: "hdrlen + 8 \<le> length H \<Longrightarrow> \<exists>pn. pn_vector_of H hdrlen = Some pn"
  by (simp add: pn_vector_of_def rd_bytes_def in_buf_def)

text \<open>The parameters both ends derive from header and IV.\<close>

lemma ccmp_header_params:
  assumes "ccmp_header_ok hdrlen H" and "length H = hdrlen + 8"
  obtains qc pn where "qc_exists_of (H @ m) = Some qc" "qos_hdrlen qc hdrlen = hdrlen"
    "pn_vector_of (H @ m) hdrlen = Some pn" "qc_exists_of H = Some qc" "pn_vector_of H hdrlen = Some pn"
proof -
  have "32 \<le> length H" using assms by (simp add: ccmp_header_ok_def)
  note hb = header_blocks_total(5) [OF this] header_blocks_append(5) [OF this]
  then obtain qc where "qc_exists_of H = Some qc" by blast
  moreover obtain pn where "pn_vector_of H hdrlen = Some pn" using pn_vector_total assms(2) by fastforce
  moreover have "qos_hdrlen qc hdrlen = hdrlen"
    using assms(1) \<open>qc_exists_of H = Some qc\<close> by (auto simp: qos_hdrlen_def ccmp_header_ok_def)
  ultimately show ?thesis using that hb(2) pn_vector_append assms(2) by simp
qed

lemma aes_cipher_eq:
  assumes "ccmp_header_ok hdrlen H" and "length H = hdrlen + 8"
    and "qc_exists_of H = Some qc" and "pn_vector_of H hdrlen = Some pn"
    and "length P < 2 ^ 32" and "length tg = 8"
  defines "a4 \<equiv> a4_exists_of hdrlen"
  shows "aes_cipher key hdrlen (H @ P @ tg @ post) (of_nat (length P)) =
    Some (H @ ctr_xor (ks key a4 qc pn H) 0 P @ ccm_tag key a4 qc pn hdrlen H P @ post)"
proof -
  have H: "32 \<le> length H" using assms(1,2) by (simp add: ccmp_header_ok_def)
  obtain qc' pn' where "qc_exists_of (H @ P @ tg @ post) = Some qc'" "qos_hdrlen qc' hdrlen = hdrlen"
      "pn_vector_of (H @ P @ tg @ post) hdrlen = Some pn'"
      "qc_exists_of H = Some qc'" "pn_vector_of H hdrlen = Some pn'"
    using ccmp_header_params [OF assms(1,2)] by blast
  then show ?thesis
    using ccm_seal_eq [OF H assms(2,5,6)] assms(3,4) by (simp add: aes_cipher_def a4_def)
qed

text \<open>
  The receiver accepts a frame exactly when its last eight bytes are the tag of
  what it decrypted.
\<close>

lemma aes_decipher_eq:
  assumes "ccmp_header_ok hdrlen H" and "length H = hdrlen + 8"
    and "qc_exists_of H = Some qc" and "pn_vector_of H hdrlen = Some pn"
    and "length X = 8" and "length (H @ C @ X) \<le> MAX_MSG_SIZE" and "length message = MAX_MSG_SIZE"
    and a4_def: "a4 = a4_exists_of hdrlen" and P_def: "P = ctr_xor (ks key a4 qc pn H) 0 C"
  shows "\<exists>message'. length message' = MAX_MSG_SIZE \<and>
    aes_decipher key hdrlen (H @ C @ X) (of_nat (length C + 8)) message =
      Some (if X = ccm_tag key a4 qc pn hdrlen H P then SUCCESS else FAIL, H @ P @ X, message')"
proof -
  have H: "32 \<le> length H" using assms(1,2) by (simp add: ccmp_header_ok_def)
  let ?F = "H @ P @ X" and ?post = "drop (length (H @ C @ X)) message"
  have lens: "length P = length C" "length C + 8 < 2 ^ 32" "length C < 2 ^ 32"
    using assms(6) by (auto simp: P_def MAX_MSG_SIZE_def)
  have plen: "unat (of_nat (length C + 8) :: u32) = length C + 8"
    using lens(2) by (rule unat_of_nat_u32)
  have minus: "of_nat (length C + 8) - 8 = (of_nat (length C) :: u32)" by simp
  have plen': "unat (of_nat (length C) :: u32) = length C"
    using lens(3) by (rule unat_of_nat_u32)
  obtain qc' pn' where hp: "qc_exists_of (H @ C @ X) = Some qc'" "qos_hdrlen qc' hdrlen = hdrlen"
      "pn_vector_of (H @ C @ X) hdrlen = Some pn'"
      "qc_exists_of H = Some qc'" "pn_vector_of H hdrlen = Some pn'"
    using ccmp_header_params [OF assms(1,2)] by blast
  have pn2: "pn_vector_of ?F hdrlen = Some pn" using pn_vector_append [of hdrlen H] assms(2,4) by simp
  have ctr: "ctr_payload key a4 qc pn (hdrlen + 8) (length C) (H @ C @ X) = Some ?F"
    using ctr_payload_eq [OF H, of key a4 qc pn C X] assms(2) by (simp add: P_def)
  have rd: "rd_bytes ?F 0 (int (hdrlen + (length C + 8) + 8)) = Some ?F"
    using rd_bytes_nat [of 0 "hdrlen + (length C + 8) + 8" ?F] assms(2,5) lens(1) by simp
  have wr: "wr_bytes message 0 ?F = Some (?F @ ?post)"
    using wr_bytes_nat [of 0 ?F message] assms(5-7) lens(1) by (simp add: overlay_def)
  have seal: "ccm_seal key a4 qc pn hdrlen (of_nat (length C)) (?F @ ?post) =
      Some (H @ C @ ccm_tag key a4 qc pn hdrlen H P @ ?post)"
    using ccm_seal_eq [OF H assms(2), of P X key a4 qc pn ?post] assms(5) lens
    by (simp add: P_def ctr_xor_twice)
  have f: "rd_bytes ?F (int (hdrlen + (length C + 8))) 8 = Some X"
    using rd_bytes_nat [of "length H + length C" 8 ?F] assms(2,5) lens(1)
    by (simp add: add.commute add.left_commute)
  have g: "rd_bytes (H @ C @ ccm_tag key a4 qc pn hdrlen H P @ ?post) (int (hdrlen + (length C + 8))) 8 =
      Some (ccm_tag key a4 qc pn hdrlen H P)"
    using rd_bytes_nat [of "length H + length C" 8 "H @ C @ ccm_tag key a4 qc pn hdrlen H P @ ?post"] assms(2)
    by (simp add: add.commute add.left_commute)
  have "hdrlen + (length C + 8) + 8 \<le> MAX_MSG_SIZE" using assms(2,5,6) by simp
  then have "aes_decipher key hdrlen (H @ C @ X) (of_nat (length C + 8)) message =
      Some (if X = ccm_tag key a4 qc pn hdrlen H P then SUCCESS else FAIL, ?F,
        H @ C @ ccm_tag key a4 qc pn hdrlen H P @ ?post)"
    unfolding aes_decipher_def Let_def minus plen plen'
    using hp assms(3,4) pn2 ctr rd wr seal f g
    by (simp add: a4_def [symmetric] del: of_nat_add)
  moreover have "length (H @ C @ ccm_tag key a4 qc pn hdrlen H P @ ?post) = MAX_MSG_SIZE"
    using assms(5-7) by simp
  ultimately show ?thesis by blast
qed

section \<open>CCMP implements the frame contract\<close>

record ccmp_link =
  cl_key :: "byte list"
  cl_txa :: tx_pkt_attrib
  cl_rx :: security_priv
  cl_sta :: "byte list \<Rightarrow> byte list option"
  cl_rxa :: rx_pkt_attrib
  cl_message :: "byte list"

text \<open>
  The key the receiver selects; for group frames the index in the frame must be
  the index of the installed key.
\<close>

definition rx_ccmp_key ::
  "security_priv \<Rightarrow> (byte list \<Rightarrow> byte list option) \<Rightarrow> rx_pkt_attrib \<Rightarrow> byte list option" where
  "rx_ccmp_key sec get_stainfo a =
     (if is_multicast_ether_addr (rx_ra a) = Some True \<and> dot118021XGrpKeyid sec \<noteq> ucast (rx_key_index a)
      then None else rx_prwskey sec get_stainfo a)"

definition ccmp_agree :: "ccmp_link \<Rightarrow> byte list \<Rightarrow> bool" where
  "ccmp_agree l f \<longleftrightarrow>
     rx_encrypt (cl_rxa l) = AESCCMP_ENCRYPTION \<and>
     unat (rx_hdrlen (cl_rxa l)) = unat (tx_hdrlen (cl_txa l)) \<and>
     rx_iv_len (cl_rxa l) = 8 \<and> tx_iv_len (cl_txa l) = 8 \<and> tx_icv_len (cl_txa l) = 8 \<and>
     16 \<le> length (cl_key l) \<and> length (cl_message l) = MAX_MSG_SIZE \<and>
     (case rx_ccmp_key (cl_rx l) (cl_sta l) (cl_rxa l) of
        None \<Rightarrow> False
      | Some k \<Rightarrow> 16 \<le> length k \<and> take 16 k = take 16 (cl_key l)) \<and>
     length f \<le> MAX_MSG_SIZE \<and> ccmp_header_ok (unat (tx_hdrlen (cl_txa l))) f"

definition ccmp_hd :: "ccmp_link \<Rightarrow> nat" where
  "ccmp_hd l = unat (tx_hdrlen (cl_txa l)) + 8"

definition ccmp_unseal :: "ccmp_link \<Rightarrow> byte list \<Rightarrow> byte list option" where
  "ccmp_unseal l f =
     accepted (map_option (\<lambda>(r, rf, _). (r, rf))
       (rtw_aes_decrypt (cl_rx l) (cl_sta l) (cl_message l) (received (cl_rxa l) f)))"

lemma rtw_aes_decrypt_key:
  assumes "rx_encrypt (rf_attrib rf) = AESCCMP_ENCRYPTION"
    and "rx_ccmp_key sec sta (rf_attrib rf) = Some prwskey"
  shows "rtw_aes_decrypt sec sta message rf = do {
    key \<leftarrow> rd_bytes prwskey 0 16;
    (res, mem, message) \<leftarrow> aes_decipher key (unat (rx_hdrlen (rf_attrib rf))) (rx_data rf)
      (word_of_int (rx_payload_len rf)) message;
    Some (res, rf\<lparr>rx_data := mem\<rparr>, message) }"
  using assms
  by (auto simp: rtw_aes_decrypt_def rx_ccmp_key_def rx_prwskey_def Let_def split: option.splits if_splits)

lemma qc_exists_take:
  assumes "32 \<le> b" and "b \<le> length f"
  shows "qc_exists_of (take b f) = qc_exists_of f"
  using header_blocks_append(5) [of "take b f" "drop b f"] assms by simp

lemma rtw_aes_decrypt_eq:
  assumes "rx_encrypt a = AESCCMP_ENCRYPTION" and "rx_ccmp_key sec sta a = Some prwskey"
    and "16 \<le> length prwskey" and "hdrlen = unat (rx_hdrlen a)" and "rx_iv_len a = 8"
    and "ccmp_header_ok hdrlen H" and "length H = hdrlen + 8"
    and "qc_exists_of H = Some qc" and "pn_vector_of H hdrlen = Some pn"
    and "length X = 8" and "length (H @ C @ X) \<le> MAX_MSG_SIZE" and "length message = MAX_MSG_SIZE"
    and "key = take 16 prwskey"
    and "a4 = a4_exists_of hdrlen" and "P = ctr_xor (ks key a4 qc pn H) 0 C"
  shows "\<exists>message'. length message' = MAX_MSG_SIZE \<and>
    rtw_aes_decrypt sec sta message (received a (H @ C @ X)) =
      Some (if X = ccm_tag key a4 qc pn hdrlen H P then SUCCESS else FAIL,
            (received a (H @ C @ X))\<lparr>rx_data := H @ P @ X\<rparr>, message')"
proof -
  let ?F = "H @ C @ X"
  have len: "rx_payload_len (received a ?F) = int (length C + 8)"
    using assms(4,5,7,10,11) by (intro rx_payload_len_eq) (auto simp: MAX_MSG_SIZE_def)
  have w: "word_of_int (int (length C + 8)) = (of_nat (length C + 8) :: u32)" by simp
  obtain message' where m: "length message' = MAX_MSG_SIZE"
      "aes_decipher key hdrlen ?F (of_nat (length C + 8)) message =
        Some (if X = ccm_tag key a4 qc pn hdrlen H P then SUCCESS else FAIL, H @ P @ X, message')"
    using aes_decipher_eq [OF assms(6-12,14,15)] by blast
  have "rd_bytes prwskey 0 16 = Some key" using assms(3,13) by (simp add: rd_bytes_prefix)
  then show ?thesis
    using rtw_aes_decrypt_key [of "received a ?F" sec sta prwskey message] assms(1,2,4) m
    unfolding len w by (simp add: received_def del: of_nat_add)
qed

lemma ccmp_contract:
  assumes "ccmp_agree l (take n mem)" and "n = ccmp_hd l + k + 8" and "n \<le> length mem"
  shows "\<exists>mem'. ccmp_encrypt_frag (cl_key l) (cl_txa l) (int k) mem = Some mem' \<and>
      length mem' = length mem \<and> drop n mem' = drop n mem \<and>
      (\<exists>t. length t = 8 \<and> ccmp_unseal l (take n mem') = Some (take (ccmp_hd l + k) mem @ t))"
proof -
  define hdrlen where "hdrlen = unat (tx_hdrlen (cl_txa l))"
  define H where "H = take (hdrlen + 8) mem"
  define P where "P = take k (drop (hdrlen + 8) mem)"
  define tg where "tg = take 8 (drop (hdrlen + 8 + k) mem)"
  define post where "post = drop n mem"
  have n: "n = hdrlen + 8 + k + 8" using assms(2) by (simp add: ccmp_hd_def hdrlen_def)
  have HP: "take (ccmp_hd l + k) mem = H @ P"
    by (simp add: H_def P_def ccmp_hd_def hdrlen_def take_add)
  have "take n mem = take (ccmp_hd l + k) mem @ tg"
    unfolding n tg_def ccmp_hd_def hdrlen_def by (rule take_add)
  then have mem: "mem = H @ P @ tg @ post"
    unfolding HP post_def by (metis append.assoc append_take_drop_id)
  have len: "length H = hdrlen + 8" "length P = k" "length tg = 8"
    using assms(3) n by (simp_all add: H_def P_def tg_def)
  have size: "n \<le> MAX_MSG_SIZE" and hok': "ccmp_header_ok hdrlen (take n mem)"
    using assms(1,3) by (auto simp: ccmp_agree_def hdrlen_def)
  have hok: "ccmp_header_ok hdrlen H"
  proof -
    have b: "32 \<le> hdrlen + 8" "hdrlen + 8 \<le> length (take n mem)"
      using hok' by (auto simp: ccmp_header_ok_def)
    have "take (hdrlen + 8) (take n mem) = H" using n by (simp add: H_def min_def)
    then show ?thesis using hok' len(1) qc_exists_take [OF b] by (simp add: ccmp_header_ok_def)
  qed
  obtain qc pn where qp: "qc_exists_of H = Some qc" "pn_vector_of H hdrlen = Some pn"
    using ccmp_header_params [OF hok len(1)] by blast
  obtain prwskey where pk: "rx_ccmp_key (cl_rx l) (cl_sta l) (cl_rxa l) = Some prwskey"
      "16 \<le> length prwskey" "take 16 prwskey = take 16 (cl_key l)"
    using assms(1) by (auto simp: ccmp_agree_def split: option.splits)
  define key where "key = take 16 (cl_key l)"
  let ?a4 = "a4_exists_of hdrlen"
  define C where "C = ctr_xor (ks key ?a4 qc pn H) 0 P"
  define X where "X = ccm_tag key ?a4 qc pn hdrlen H P"
  have lens: "length C = k" "length X = 8" "length P < 2 ^ 32"
    using len(2) n size by (auto simp: C_def X_def MAX_MSG_SIZE_def)
  have enc: "ccmp_encrypt_frag (cl_key l) (cl_txa l) (int k) mem = Some (H @ C @ X @ post)"
  proof -
    have "rd_bytes (cl_key l) 0 16 = Some key"
      using assms(1) by (simp add: rd_bytes_prefix key_def ccmp_agree_def)
    then show ?thesis
      using aes_cipher_eq [OF hok len(1) qp lens(3) len(3), of key post] len(2)
      by (simp add: ccmp_encrypt_frag_def hdrlen_def [symmetric] mem C_def X_def)
  qed
  have P: "P = ctr_xor (ks key ?a4 qc pn H) 0 C" by (simp add: C_def ctr_xor_twice)
  have "\<exists>message'. length message' = MAX_MSG_SIZE \<and>
      rtw_aes_decrypt (cl_rx l) (cl_sta l) (cl_message l) (received (cl_rxa l) (H @ C @ X)) =
      Some (if X = ccm_tag key ?a4 qc pn hdrlen H P then SUCCESS else FAIL,
            (received (cl_rxa l) (H @ C @ X))\<lparr>rx_data := H @ P @ X\<rparr>, message')"
    using assms(1) pk(3) size n len lens
    by (intro rtw_aes_decrypt_eq [OF _ pk(1,2) _ _ hok len(1) qp lens(2) _ _ _ refl P])
       (simp_all add: ccmp_agree_def hdrlen_def key_def)
  then have dec: "ccmp_unseal l (H @ C @ X) = Some (H @ P @ X)"
    by (auto simp: ccmp_unseal_def accepted_def X_def)
  have "length (H @ C @ X @ post) = length mem" using len lens by (simp add: mem)
  moreover have "drop n (H @ C @ X @ post) = drop n mem" "take n (H @ C @ X @ post) = H @ C @ X"
    using len lens n by (simp_all add: mem)
  ultimately show ?thesis using enc dec HP lens(2) by (intro exI [of _ "H @ C @ X @ post"]) auto
qed

interpretation ccmp: frame_cipher
  ccmp_agree ccmp_hd "\<lambda>l. 8" "\<lambda>l. ccmp_encrypt_frag (cl_key l) (cl_txa l)" ccmp_unseal
proof (unfold_locales, goal_cases)
  case (1 p n mem l)
  then show ?case using ccmp_contract [of p n mem l] by blast
next
  case (2 p n mem l mem')
  then show ?case using ccmp_contract [of p n mem l] by auto
next
  case (3 p n mem l mem')
  then show ?case using ccmp_contract [of p n mem l] by auto
qed

section \<open>Properties\<close>

text \<open>
  C6 (round trip of CCMP over a whole frame).  Let the receiver know the
  transmitter and select the key the sender used, let every fragment have at most
  2048 bytes and a header of at least 24 bytes, 26 for QoS frames, and let the
  frame fit its buffer.  Then \<open>rtw_aes_encrypt\<close> returns \<open>_SUCCESS\<close> without
  leaving the buffer, and \<open>rtw_aes_decrypt\<close> accepts each fragment and restores
  header, IV and payload, whatever its static buffer held before.
\<close>

theorem ccmp_frames_recovered:
  assumes "tx_prwskey sec (tx_attrib xf) = Some key"
    and "list_all (ccmp_agree \<lparr>cl_key = key, cl_txa = tx_attrib xf, cl_rx = sec', cl_sta = sta,
           cl_rxa = ra, cl_message = message\<rparr>) (air_fragments fl xf)"
    and "tx_iv_len (tx_attrib xf) = 8" and "tx_icv_len (tx_attrib xf) = 8"
    and "tx_encrypt (tx_attrib xf) = AESCCMP_ENCRYPTION" and "tx_fits fl xf"
  shows "\<exists>xf'. rtw_aes_encrypt sec fl xf = Some (SUCCESS, xf') \<and>
    list_all2 (\<lambda>plain cipher.
        \<exists>t rf' m'. rtw_aes_decrypt sec' sta message (received ra cipher) = Some (SUCCESS, rf', m') \<and>
          length t = 8 \<and> rx_data rf' = take (length plain - 8) plain @ t)
      (air_fragments fl xf) (air_fragments fl xf')"
proof -
  let ?l = "\<lparr>cl_key = key, cl_txa = tx_attrib xf, cl_rx = sec', cl_sta = sta,
           cl_rxa = ra, cl_message = message\<rparr>"
  obtain addr where addr: "buf_addr xf = Some addr"
    using assms(6) by (auto simp: tx_fits_def Let_def split: option.splits)
  have "tx_overhead (tx_attrib xf) = ccmp_hd ?l + 8"
    using assms(3,4) by (simp add: tx_overhead_def ccmp_hd_def)
  from ccmp.frame_recovered [OF assms(6) addr refl this] assms(2)
  obtain mem' where m: "xmit_frag_loop (ccmp_encrypt_frag key (tx_attrib xf)) (tx_attrib xf) fl
        (unat (nr_frags (tx_attrib xf))) (addr + hw_hdr_offset xf)
        (drop (hw_hdr_offset xf) (xf_buf xf)) = Some mem'"
      "list_all2 (ccmp.recovered ?l) (air_fragments fl xf)
        (air_fragments fl (xf\<lparr>xf_buf := take (hw_hdr_offset xf) (xf_buf xf) @ mem'\<rparr>))"
    by (auto simp: list_all_iff)
  have enc: "rtw_aes_encrypt sec fl xf =
      Some (SUCCESS, xf\<lparr>xf_buf := take (hw_hdr_offset xf) (xf_buf xf) @ mem'\<rparr>)"
    using addr m(1) assms(1,5) by (simp add: rtw_aes_encrypt_def Let_def)
  have rec: "\<exists>t rf' m'. rtw_aes_decrypt sec' sta message (received ra cipher) = Some (SUCCESS, rf', m') \<and>
      length t = 8 \<and> rx_data rf' = take (length plain - 8) plain @ t"
    if "ccmp.recovered ?l plain cipher" for plain cipher
    using that by (auto simp: ccmp.recovered_def ccmp_unseal_def accepted_def
        split: option.splits status.splits)
  show ?thesis by (intro exI conjI, rule enc) (rule list_all2_mono [OF m(2) rec])
qed

text \<open>A link for the sample frame of \<open>Frame\<close>: the zero buffer is a data frame without QoS.\<close>

definition sample_ccmp_link :: ccmp_link where
  "sample_ccmp_link =
     \<lparr>cl_key = map of_nat [1..<17], cl_txa = sample_attrib AESCCMP_ENCRYPTION 8 8, cl_rx = sample_sec,
      cl_sta = (\<lambda>_. Some (map of_nat [1..<17])), cl_rxa = sample_rx_attrib AESCCMP_ENCRYPTION 8 8,
      cl_message = replicate 2048 0\<rparr>"

lemma sample_ccmp_agree:
  assumes "f = replicate 56 0 \<or> f = replicate 48 0"
  shows "ccmp_agree sample_ccmp_link f"
proof -
  have "qc_exists_of (replicate n 0) = Some False" if "2 \<le> n" for n
    using that by (simp add: qc_exists_of_def GetFrameType_def GetFrameSubType_def frame_control_def
        rd_bytes_def in_buf_def le16_of_def WIFI_DATA_CFACK_def WIFI_DATA_CFPOLL_def
        WIFI_DATA_CFACKPOLL_def)
  with assms show ?thesis
    by (auto simp: ccmp_agree_def sample_ccmp_link_def sample_defs ccmp_header_ok_def rx_ccmp_key_def
        rx_prwskey_def is_multicast_ether_addr_def rd_def MAX_MSG_SIZE_def)
qed

theorem ccmp_frames_recovered_witness:
  "\<exists>xf'. rtw_aes_encrypt sample_sec 56 (sample_frame AESCCMP_ENCRYPTION 8 8) = Some (SUCCESS, xf') \<and>
    list_all2 (\<lambda>plain cipher.
        \<exists>t rf' m'. rtw_aes_decrypt sample_sec (\<lambda>_. Some (map of_nat [1..<17])) (replicate 2048 0)
            (received (sample_rx_attrib AESCCMP_ENCRYPTION 8 8) cipher) = Some (SUCCESS, rf', m') \<and>
          length t = 8 \<and> rx_data rf' = take (length plain - 8) plain @ t)
      (air_fragments 56 (sample_frame AESCCMP_ENCRYPTION 8 8)) (air_fragments 56 xf')"
proof (rule ccmp_frames_recovered)
  show "tx_prwskey sample_sec (tx_attrib (sample_frame AESCCMP_ENCRYPTION 8 8)) =
      Some (map of_nat [1..<17])"
    by (simp add: tx_prwskey_def is_multicast_ether_addr_def rd_def sample_defs)
  show "list_all (ccmp_agree \<lparr>cl_key = map of_nat [1..<17],
      cl_txa = tx_attrib (sample_frame AESCCMP_ENCRYPTION 8 8), cl_rx = sample_sec,
      cl_sta = (\<lambda>_. Some (map of_nat [1..<17])), cl_rxa = sample_rx_attrib AESCCMP_ENCRYPTION 8 8,
      cl_message = replicate 2048 0\<rparr>) (air_fragments 56 (sample_frame AESCCMP_ENCRYPTION 8 8))"
    unfolding sample_fragments using sample_ccmp_agree
    by (simp add: sample_ccmp_link_def sample_frame_def)
  show "tx_fits 56 (sample_frame AESCCMP_ENCRYPTION 8 8)"
    by (rule sample_fits) simp
qed (simp_all add: sample_defs)



section \<open>Frames the receiver cannot handle\<close>

lemma length_ctr_blocks: "ctr_blocks key a4 qc pn i n idx mem = Some m \<Longrightarrow> length m = length mem"
  by (induction n arbitrary: i idx mem) (auto simp: bind_eq_Some_conv dest!: length_wr_bytes)

lemma length_ctr_payload: "ctr_payload key a4 qc pn idx plen mem = Some m \<Longrightarrow> length m = length mem"
  by (auto simp: ctr_payload_def Let_def bind_eq_Some_conv split: if_splits
      dest!: length_ctr_blocks length_wr_bytes)

text \<open>
  QoS frames with four addresses: A QoS frame whose header length is not 26
  is handled with a header longer by two bytes.  With the header length 32 that
  \<open>validate_recv_data_frame\<close> stores for QoS frames with four addresses,
  and a frame that ends with its MIC, the copy into \<open>message\<close> reads two bytes
  behind the frame.
\<close>

theorem ccmp_qos_a4_reads_past_frame:
  assumes "qc_exists_of f = Some True" and "hdrlen \<noteq> 26"
    and "length f = hdrlen + 8 + unat plen" and "hdrlen + 2 + unat plen + 8 \<le> 2048"
  shows "aes_decipher key hdrlen f plen message = None"
proof -
  let ?c = "\<lambda>pn. ctr_payload key (a4_exists_of hdrlen) True pn (hdrlen + 2 + 8) (unat (plen - 8)) f"
  have "rd_bytes m 0 (int (hdrlen + 2 + unat plen + 8)) = None" if "?c pn = Some m" for pn m
    using length_ctr_payload [OF that] assms(3) by (simp add: rd_bytes_def in_buf_def)
  moreover have "qos_hdrlen True hdrlen = hdrlen + 2"
    using assms(2) by (simp add: qos_hdrlen_def WLAN_HDR_A3_QOS_LEN_def)
  ultimately show ?thesis
    using assms(1,4) unfolding aes_decipher_def Let_def MAX_MSG_SIZE_def
    by (cases "pn_vector_of f hdrlen"; cases "?c (the (pn_vector_of f hdrlen))") (simp_all del: of_nat_add)
qed

theorem ccmp_qos_a4_reads_past_frame_witness:
  "aes_decipher (replicate 16 0) 32 (0x88 # replicate 49 0) 10 (replicate 2048 0) = None"
proof (rule ccmp_qos_a4_reads_past_frame)
  show "qc_exists_of (0x88 # replicate 49 0) = Some True"
    by (simp add: qc_exists_of_def GetFrameType_def GetFrameSubType_def frame_control_def
        rd_bytes_def in_buf_def le16_of_def WIFI_DATA_CFACK_def WIFI_DATA_CFPOLL_def
        WIFI_DATA_CFACKPOLL_def)
qed simp_all

text \<open>
  Frames longer than the static buffer: When header, IV, payload and MIC
  have more than 2048 bytes, the frame is not copied into \<open>message\<close> but the MIC
  is still computed and written there, behind the end of the buffer.
\<close>

theorem ccmp_long_frame_overflows_message:
  assumes "qc_exists_of f = Some False" and "2048 < hdrlen + unat plen + 8"
    and "8 \<le> unat plen" and "length message = 2048"
  shows "aes_decipher key hdrlen f plen message = None"
proof -
  have p: "unat (plen - 8) = unat plen - 8"
    using assms(3) by (simp add: unat_sub word_le_nat_alt)
  have "wr_bytes message (int (hdrlen + 8 + unat (plen - 8))) mic = None"
    if "length mic = 8" for mic :: "byte list"
  proof -
    have "2048 < hdrlen + 8 + unat (plen - 8) + 8" using assms(2,3) by (simp add: p)
    then have "\<not> in_buf message (int (hdrlen + 8 + unat (plen - 8))) (int 8)"
      unfolding in_buf_def using assms(4) by linarith
    then show ?thesis using that by (simp add: wr_bytes_def)
  qed
  moreover have "length mic = 8"
    if "calc_mic k iv h1 h2 i n message = Some mic" for k iv h1 h2 i n mic
  proof -
    have out: "mic_blocks k n i m acc = Some out \<Longrightarrow> length acc = 16 \<Longrightarrow> length out = 16"
      for k n i m acc out by (induction n arbitrary: i acc) (auto simp: bind_eq_Some_conv)
    show ?thesis using that
      by (auto simp: calc_mic_def Let_def bind_eq_Some_conv split: if_splits dest!: out)
  qed
  ultimately have "ccm_seal key a4 qc pn hdrlen (plen - 8) message = None" for a4 qc pn
    by (auto simp: ccm_seal_def bind_eq_None_conv simp del: of_nat_add)
  then show ?thesis
    using assms(1,2)
    by (auto simp: aes_decipher_def qos_hdrlen_def MAX_MSG_SIZE_def Let_def bind_eq_None_conv
        simp del: of_nat_add)
qed

theorem ccmp_long_frame_overflows_message_witness:
  "aes_decipher (replicate 16 0) 24 (replicate 3000 0) 2968 (replicate 2048 0) = None"
proof (rule ccmp_long_frame_overflows_message)
  show "qc_exists_of (replicate 3000 0) = Some False"
    by (simp add: qc_exists_of_def GetFrameType_def GetFrameSubType_def frame_control_def
        rd_bytes_def in_buf_def le16_of_def WIFI_DATA_CFACK_def WIFI_DATA_CFPOLL_def
        WIFI_DATA_CFACKPOLL_def)
qed simp_all

end
