(* ===== verification/Rx_Eth.thy ===== *)
theory Rx_Eth
  imports Recvframe Wps
begin

text \<open>
  From received 802.11 frames to Ethernet frames: \<open>wlanhdr_to_ethhdr\<close> and \<open>amsdu_to_msdu\<close>
  (src/core/rtw_recv.c) with \<open>rtw_os_alloc_msdu_pkt\<close> (src/os_dep/recv_linux.c).  The build
  defines \<open>CONFIG_SKB_COPY\<close> (src/include/autoconf.h), so the packet of a subframe is a copy,
  and when there is no memory for it a clone: a piece of the buffer of the aggregate.

  Shown: the Ethernet frame made of a data frame; an aggregate of subframes is taken apart
  into its subframes, in order, up to 64, which all get the addresses of the aggregate.
\<close>

section \<open>The Ethernet header\<close>

definition SNAP_SIZE :: int where "SNAP_SIZE = 6"
definition ETH_HLEN :: int where "ETH_HLEN = 14"
definition rtw_rfc1042_header :: "byte list" where "rtw_rfc1042_header = [0xaa, 0xaa, 0x03, 0x00, 0x00, 0x00]"
definition rtw_bridge_tunnel_header :: "byte list" where "rtw_bridge_tunnel_header = [0xaa, 0xaa, 0x03, 0x00, 0x00, 0xf8]"
definition SNAP_ETH_TYPE_IPX :: "byte list" where "SNAP_ETH_TYPE_IPX = [0x81, 0x37]"
definition SNAP_ETH_TYPE_APPLETALK_AARP :: "byte list" where "SNAP_ETH_TYPE_APPLETALK_AARP = [0x80, 0xf3]"

definition snap_test :: "byte list \<Rightarrow> int \<Rightarrow> bool option" where
  "snap_test mem psnap = do {
     rfc \<leftarrow> rtw_memcmp mem psnap rtw_rfc1042_header SNAP_SIZE;
     a \<leftarrow> (if rfc then do {
             ipx \<leftarrow> rtw_memcmp mem (psnap + SNAP_SIZE) SNAP_ETH_TYPE_IPX 2;
             if ipx then Some False
             else map_option Not (rtw_memcmp mem (psnap + SNAP_SIZE) SNAP_ETH_TYPE_APPLETALK_AARP 2)
           } else Some False);
     if a then Some True else rtw_memcmp mem psnap rtw_bridge_tunnel_header SNAP_SIZE
   }"

text \<open>
  \<open>mp\<close> is the test of \<open>WIFI_MP_STATE\<close>.  A NULL returned by \<open>recvframe_pull\<close> is written
  through, which is undefined behaviour.
\<close>

definition wlanhdr_to_ethhdr :: "bool \<Rightarrow> rx_frame \<Rightarrow> (status \<times> rx_frame) option" where
  "wlanhdr_to_ethhdr mp f = do {
     let ptr = rxf_data f;
     let a = rxf_attrib f;
     let f = (if rx_encrypt a \<noteq> 0 then snd (recvframe_pull_tail (uint (rx_icv_len a)) f) else f);
     bsnaphdr \<leftarrow> snap_test (rxf_buf f) (ptr + uint (rx_hdrlen a) + uint (rx_iv_len a));
     let rmv_len = uint (rx_hdrlen a) + uint (rx_iv_len a) + (if bsnaphdr then SNAP_SIZE else 0);
     let len = (ucast (rxf_len f - word_of_int rmv_len) :: u16);
     et \<leftarrow> rd_bytes (rxf_buf f) (ptr + rmv_len) 2;
     let f = f\<lparr>rxf_attrib := (rxf_attrib f)\<lparr>rx_eth_type := RTW_GET_BE16 et\<rparr>\<rparr>;
     (ptr, f) \<leftarrow>
       (if mp then do {
          buf \<leftarrow> wr_bytes (rxf_buf f) (ptr + rmv_len) [0x87, 0x12];
          let (p, f) = recvframe_pull (rmv_len - ETH_HLEN + 2 - 24) (f\<lparr>rxf_buf := buf\<rparr>);
          ptr \<leftarrow> p;
          s \<leftarrow> rd_bytes (rxf_buf f) 0 24;
          buf \<leftarrow> wr_bytes (rxf_buf f) ptr s;
          Some (ptr + 24, f\<lparr>rxf_buf := buf\<rparr>)
        } else do {
          let (p, f) = recvframe_pull (rmv_len - ETH_HLEN + (if bsnaphdr then 2 else 0)) f;
          ptr \<leftarrow> p;
          Some (ptr, f)
        });
     buf \<leftarrow> wr_bytes (rxf_buf f) ptr (rx_dst a);
     buf \<leftarrow> wr_bytes buf (ptr + 6) (rx_src a);
     buf \<leftarrow> (if bsnaphdr then Some buf else wr_bytes buf (ptr + 12) [ucast (drop_bit 8 len), ucast len]);
     Some (SUCCESS, f\<lparr>rxf_buf := buf\<rparr>)
   }"

section \<open>Aggregates\<close>

definition ETH_P_AARP :: u16 where "ETH_P_AARP = 0x80F3"
definition ETH_P_IPX :: u16 where "ETH_P_IPX = 0x8137"
definition MAX_SUBFRAME_COUNT :: nat where "MAX_SUBFRAME_COUNT = 64"

text \<open>
  What the kernel answers for the subframe \<open>i\<close>: whether \<open>dev_alloc_skb\<close> and \<open>skb_clone\<close>
  succeed; \<open>NET_SKB_PAD\<close> is the headroom that \<open>dev_alloc_skb\<close> adds to what is asked for.
\<close>

record skb_env =
  dev_alloc_skb :: "nat \<Rightarrow> bool"
  skb_clone :: "nat \<Rightarrow> bool"
  NET_SKB_PAD :: nat

datatype msdu_pkt = Skb_Copy "byte list" | Skb_Clone int int

definition pkt_bytes :: "byte list \<Rightarrow> msdu_pkt \<Rightarrow> byte list option" where
  "pkt_bytes mem pkt = (case pkt of Skb_Copy b \<Rightarrow> Some b | Skb_Clone data len \<Rightarrow> rd_bytes mem data len)"

text \<open>
  The Ethernet header is pushed before the data of \<open>sub_skb\<close>, at \<open>data\<close> in its buffer; the
  result is the place and the length of the packet.  A push beyond the headroom is a panic.
\<close>

definition msdu_header :: "rx_attrib \<Rightarrow> u16 \<Rightarrow> int \<Rightarrow> byte list \<Rightarrow> ((int \<times> int) \<times> byte list) option" where
  "msdu_header a len data mem = do {
     t \<leftarrow> rd_bytes mem (data + 6) 2;
     let eth_type = RTW_GET_BE16 t;
     bsnap \<leftarrow>
       (if len \<ge> 8 then do {
          rfc \<leftarrow> rtw_memcmp mem data rtw_rfc1042_header SNAP_SIZE;
          if rfc \<and> eth_type \<noteq> ETH_P_AARP \<and> eth_type \<noteq> ETH_P_IPX then Some True
          else rtw_memcmp mem data rtw_bridge_tunnel_header SNAP_SIZE
        } else Some False);
     if bsnap then do {
       mem \<leftarrow> wr_bytes mem data (rx_src a);
       mem \<leftarrow> wr_bytes mem (data - 6) (rx_dst a);
       Some ((data - 6, uint len - SNAP_SIZE + 12), mem)
     } else do {
       mem \<leftarrow> wr_bytes mem (data - 2) [ucast (drop_bit 8 len), ucast len];
       mem \<leftarrow> wr_bytes mem (data - 8) (rx_src a);
       mem \<leftarrow> wr_bytes mem (data - 14) (rx_dst a);
       Some ((data - 14, uint len + 14), mem)
     }
   }"

text \<open>
  Behind the data of a new buffer lies \<open>skb_shared_info\<close>, so reading the bytes 6 and 7 of a
  shorter packet stays in the allocation; their value is not used then.
\<close>

definition rtw_os_alloc_msdu_pkt :: "skb_env \<Rightarrow> nat \<Rightarrow> rx_attrib \<Rightarrow> u16 \<Rightarrow> int \<Rightarrow> byte list \<Rightarrow> (msdu_pkt option \<times> byte list) option" where
  "rtw_os_alloc_msdu_pkt env nr a nSubframe_Length pdata mem =
     (if dev_alloc_skb env nr then do {
        d \<leftarrow> rd_bytes mem (pdata + ETH_HLEN) (uint nSubframe_Length);
        let head = NET_SKB_PAD env + 12;
        ((data, len), buf) \<leftarrow> msdu_header a nSubframe_Length (int head) (replicate head 0 @ d @ replicate 8 0);
        b \<leftarrow> rd_bytes buf data len;
        Some (Some (Skb_Copy b), mem)
      } else if skb_clone env nr then do {
        ((data, len), mem) \<leftarrow> msdu_header a nSubframe_Length (pdata + ETH_HLEN) mem;
        Some (Some (Skb_Clone data len), mem)
      } else Some (None, mem))"

definition msdu_padding :: "u16 \<Rightarrow> int" where
  "msdu_padding nSubframe_Length =
     (let padding_len = 4 - (uint nSubframe_Length + ETH_HLEN) mod 4
      in if padding_len = 4 then 0 else padding_len)"

lemma msdu_padding_nonneg: "0 \<le> msdu_padding n" "msdu_padding n < 4"
  using pos_mod_bound [of 4 "uint n + ETH_HLEN"] by (auto simp: msdu_padding_def Let_def)

lemma msdu_advance: "- uint n - msdu_padding n < 14" "- uint n < 14"
  using msdu_padding_nonneg(1) [of n] uint_ge_0 [of n] by linarith+

function amsdu_loop ::
  "skb_env \<Rightarrow> rx_attrib \<Rightarrow> int \<Rightarrow> int \<Rightarrow> nat \<Rightarrow> byte list \<Rightarrow> (msdu_pkt list \<times> byte list) option" where
  "amsdu_loop env a pdata a_len nr mem =
     (if a_len > ETH_HLEN then do {
        t \<leftarrow> rd_bytes mem (pdata + 12) 2;
        let nSubframe_Length = RTW_GET_BE16 t;
        if a_len < ETH_HLEN + uint nSubframe_Length then Some ([], mem)
        else do {
          (sub_pkt, mem) \<leftarrow> rtw_os_alloc_msdu_pkt env nr a nSubframe_Length pdata mem;
          case sub_pkt of None \<Rightarrow> Some ([], mem)
          | Some pkt \<Rightarrow>
            if nr + 1 \<ge> MAX_SUBFRAME_COUNT then Some ([pkt], mem)
            else do {
              let pdata = pdata + ETH_HLEN + uint nSubframe_Length;
              let a_len = a_len - ETH_HLEN - uint nSubframe_Length;
              let padding_len = (if a_len = 0 then 0 else msdu_padding nSubframe_Length);
              if a_len < padding_len then Some ([pkt], mem)
              else do {
                (pkts, mem) \<leftarrow> amsdu_loop env a (pdata + padding_len) (a_len - padding_len) (nr + 1) mem;
                Some (pkt # pkts, mem)
              }
            }
        }
      } else Some ([], mem))"
  by pat_completeness auto
termination
  by (relation "measure (\<lambda>(e, a, p, l, n, m). nat l)")
    (auto simp: ETH_HLEN_def msdu_advance)

text \<open>
  What is handed to the network stack: the packets, read when all of them are built.  The
  frame, then empty, goes back to the pool.
\<close>

definition amsdu_to_msdu :: "skb_env \<Rightarrow> rx_frame \<Rightarrow> (byte list list \<times> rx_frame) option" where
  "amsdu_to_msdu env f = do {
     let a = rxf_attrib f;
     let f = snd (recvframe_pull (uint (rx_hdrlen a)) f);
     let f = (if rx_iv_len a > 0 then snd (recvframe_pull (uint (rx_iv_len a)) f) else f);
     (pkts, mem) \<leftarrow> amsdu_loop env a (rxf_data f) (sint (rxf_len f)) 0 (rxf_buf f);
     packets \<leftarrow> those (map (pkt_bytes mem) pkts);
     Some (packets, f\<lparr>rxf_buf := mem, rxf_len := 0\<rparr>)
   }"

section \<open>Reading and writing the window of a frame\<close>

definition snap_encap :: "byte list \<Rightarrow> bool" where
  "snap_encap b \<longleftrightarrow>
     (take 6 b = rtw_rfc1042_header \<and> take 2 (drop 6 b) \<noteq> SNAP_ETH_TYPE_IPX \<and> take 2 (drop 6 b) \<noteq> SNAP_ETH_TYPE_APPLETALK_AARP) \<or>
     take 6 b = rtw_bridge_tunnel_header"

lemma rtw_memcmp_nat:
  "m + k \<le> length mem \<Longrightarrow> length src = k \<Longrightarrow> rtw_memcmp mem (int m) src (int k) = Some (take k (drop m mem) = src)"
  by (simp add: rtw_memcmp_def rd_bytes_nat) (simp add: rd_bytes_def in_buf_def)

lemma length_snap [simp]:
  "length rtw_rfc1042_header = 6" "length rtw_bridge_tunnel_header = 6" "length SNAP_ETH_TYPE_IPX = 2" "length SNAP_ETH_TYPE_APPLETALK_AARP = 2"
  by (simp_all add: rtw_rfc1042_header_def rtw_bridge_tunnel_header_def SNAP_ETH_TYPE_IPX_def SNAP_ETH_TYPE_APPLETALK_AARP_def)

lemma snap_test_nat:
  assumes "m + 8 \<le> length mem"
  shows "snap_test mem (int m) = Some (snap_encap (drop m mem))"
proof -
  have e: "SNAP_SIZE = int 6" "int m + int 6 = int (m + 6)" "(2 :: int) = int 2" by (simp_all add: SNAP_SIZE_def)
  have c: "rtw_memcmp mem (int m) rtw_rfc1042_header SNAP_SIZE = Some (take 6 (drop m mem) = rtw_rfc1042_header)"
    "rtw_memcmp mem (int m) rtw_bridge_tunnel_header SNAP_SIZE = Some (take 6 (drop m mem) = rtw_bridge_tunnel_header)"
    "rtw_memcmp mem (int m + SNAP_SIZE) SNAP_ETH_TYPE_IPX 2 = Some (take 2 (drop 6 (drop m mem)) = SNAP_ETH_TYPE_IPX)"
    "rtw_memcmp mem (int m + SNAP_SIZE) SNAP_ETH_TYPE_APPLETALK_AARP 2 = Some (take 2 (drop 6 (drop m mem)) = SNAP_ETH_TYPE_APPLETALK_AARP)"
    unfolding e drop_drop add.commute [of 6 m] using assms by (intro rtw_memcmp_nat; simp)+
  show ?thesis unfolding snap_test_def c snap_encap_def by simp
qed

lemma window_overlay:
  "off + length xs \<le> t \<Longrightarrow> t \<le> length b \<Longrightarrow>
   take (t - off) (drop off (overlay b off xs)) = xs @ take (t - off - length xs) (drop (off + length xs) b)"
  by (simp add: overlay_def)

section \<open>Data frames\<close>

text \<open>The Ethernet frame that carries a payload: a SNAP header gives way to the type behind it.\<close>

definition eth_frame :: "byte list \<Rightarrow> byte list \<Rightarrow> byte list \<Rightarrow> byte list" where
  "eth_frame dst src p = dst @ src @ (if snap_encap p then drop 6 p else be16_bytes (of_nat (length p)) @ p)"

definition eth_payload :: "rx_frame \<Rightarrow> byte list" where
  "eth_payload f = (if rx_encrypt (rxf_attrib f) \<noteq> 0 then frag_payload f else frag_body f)"

lemma snap_encap_take: "8 \<le> n \<Longrightarrow> snap_encap (take n b) = snap_encap b"
  by (simp add: snap_encap_def drop_take min_def)

lemma eth_tail:
  assumes "frag_ok f"
  defines "g \<equiv> (if rx_encrypt (rxf_attrib f) \<noteq> 0 then snd (recvframe_pull_tail (uint (rx_icv_len (rxf_attrib f))) f) else f)"
  shows "frame_ok g" "rxf_data g = rxf_data f" "rxf_buf g = rxf_buf f" "rxf_attrib g = rxf_attrib f" "rxf_end g = rxf_end f"
    "rxf_tail g = rxf_data f + int (hdr_size f) + int (length (eth_payload f))"
    "eth_payload f = take (length (eth_payload f)) (drop (nat (rxf_data f) + hdr_size f) (rxf_buf f))"
proof -
  have ok: "frame_ok f" and len: "hdr_size f + icv_size f \<le> length (frame_bytes f)" using assms(1) by (simp_all add: frag_ok_def)
  note il = int_length_frame_bytes [OF ok]
  have icv: "uint (rx_icv_len (rxf_attrib f)) = int (icv_size f)" "int (icv_size f) \<le> rxf_tail f - rxf_data f"
    using len il by (simp add: icv_size_def, linarith)
  show "frame_ok g" unfolding g_def using ok frame_ok_ops(4) [OF ok, of "uint (rx_icv_len (rxf_attrib f))"] by simp
  show "rxf_data g = rxf_data f" "rxf_buf g = rxf_buf f" "rxf_attrib g = rxf_attrib f" "rxf_end g = rxf_end f"
    by (simp_all add: g_def recvframe_pull_tail_def Let_def)
  have body: "length (frag_body f) = length (frame_bytes f) - hdr_size f" by (simp add: frag_body_def)
  show "rxf_tail g = rxf_data f + int (hdr_size f) + int (length (eth_payload f))"
  proof (cases "rx_encrypt (rxf_attrib f) = 0")
    case True
    then show ?thesis using len il body by (simp add: g_def eth_payload_def of_nat_diff)
  next
    case False
    then have "length (eth_payload f) = length (frame_bytes f) - hdr_size f - icv_size f"
      using len body by (simp add: eth_payload_def frag_payload_def strip_icv_def)
    then have "int (length (eth_payload f)) = int (length (frame_bytes f)) - int (hdr_size f) - int (icv_size f)"
      using len by linarith
    moreover have "rxf_tail g = rxf_tail f - int (icv_size f)"
      unfolding g_def icv(1) using recvframe_pull_ok(2) [OF ok icv(2)] False by simp
    ultimately show ?thesis using il by linarith
  qed
  show "eth_payload f = take (length (eth_payload f)) (drop (nat (rxf_data f) + hdr_size f) (rxf_buf f))"
  proof -
    let ?D = "drop (nat (rxf_data f) + hdr_size f) (rxf_buf f)"
    have fb: "frag_body f = take (nat (rxf_tail f - rxf_data f) - hdr_size f) ?D"
      by (simp add: frag_body_def frame_bytes_def drop_take add.commute)
    have "\<exists>q. eth_payload f = take q ?D"
      unfolding eth_payload_def frag_payload_def strip_icv_def fb take_take
      by (cases "rx_encrypt (rxf_attrib f) = 0"; simp only: if_True if_False simp_thms) blast+
    then obtain q where "eth_payload f = take q ?D" by blast
    then show ?thesis by (simp add: min_def)
  qed
qed

text \<open>
  A received data frame becomes the Ethernet frame of its payload: the addresses the header
  named, then, where the payload starts with a SNAP header other than the ones that keep it,
  what follows that header, and else the length and the payload.  The frame stays well formed
  and its type field is recorded.
\<close>

lemma wlanhdr_to_ethhdr_data:
  assumes "frag_ok f" and "14 \<le> hdr_size f" and "length (rx_dst (rxf_attrib f)) = 6" and "length (rx_src (rxf_attrib f)) = 6"
    and "8 \<le> length (eth_payload f)" and "length (eth_payload f) < 2 ^ 16"
  shows "\<exists>f'. wlanhdr_to_ethhdr False f = Some (SUCCESS, f') \<and> frame_ok f' \<and>
    frame_bytes f' = eth_frame (rx_dst (rxf_attrib f)) (rx_src (rxf_attrib f)) (eth_payload f) \<and>
    rx_eth_type (rxf_attrib f') = RTW_GET_BE16 (take 2 (if snap_encap (eth_payload f) then drop 6 (eth_payload f) else eth_payload f))"
proof -
  let ?a = "rxf_attrib f" and ?P = "eth_payload f" and ?h = "hdr_size f"
  define d where "d = nat (rxf_data f)"
  define g where "g = (if rx_encrypt ?a \<noteq> 0 then snd (recvframe_pull_tail (uint (rx_icv_len ?a)) f) else f)"
  note g = eth_tail [OF assms(1), folded g_def]
  have d: "rxf_data f = int d" using assms(1) by (simp add: frag_ok_def frame_ok_def d_def)
  have off: "rxf_data f + uint (rx_hdrlen ?a) + uint (rx_iv_len ?a) = int (d + ?h)" "uint (rx_hdrlen ?a) + uint (rx_iv_len ?a) = int ?h"
    by (simp_all add: d hdr_size_def)
  have t: "rxf_tail g = int (d + ?h + length ?P)" using g(6) d by simp
  have buf: "d + ?h + length ?P \<le> length (rxf_buf f)" using g(1,3) t by (simp add: frame_ok_def)
  have "snap_encap ?P = snap_encap (drop (d + ?h) (rxf_buf f))" using snap_encap_take [OF assms(5)] g(7) by (metis d_def)
  then have snap: "snap_test (rxf_buf g) (rxf_data f + uint (rx_hdrlen ?a) + uint (rx_iv_len ?a)) = Some (snap_encap ?P)"
    unfolding off g(3) using snap_test_nat [of "d + ?h" "rxf_buf f"] buf assms(5) by simp
  have len: "rxf_len g = of_nat (?h + length ?P)" using g(1,2) t d by (simp add: frame_ok_def)
  let ?k = "if snap_encap ?P then 6 else 0 :: nat"
  let ?o = "if snap_encap ?P then d + ?h - 6 else d + ?h - 14"
  let ?xs = "rx_dst ?a @ rx_src ?a @ (if snap_encap ?P then [] else be16_bytes (of_nat (length ?P)))"
  have drp: "drop (d + ?h + ?k) (rxf_buf f) = drop ?k ?P @ drop (d + ?h + length ?P) (rxf_buf f)"
  proof -
    have "drop (d + ?h) (rxf_buf f) = ?P @ drop (length ?P) (drop (d + ?h) (rxf_buf f))"
      using g(7) append_take_drop_id [of "length ?P" "drop (d + ?h) (rxf_buf f)"] unfolding d_def by simp
    then have "drop ?k (drop (d + ?h) (rxf_buf f)) = drop ?k (?P @ drop (length ?P) (drop (d + ?h) (rxf_buf f)))" by (rule arg_cong)
    then show ?thesis using assms(5) by (simp add: add.commute add.left_commute)
  qed
  have k: "uint (rx_hdrlen ?a) + uint (rx_iv_len ?a) + (if snap_encap ?P then SNAP_SIZE else 0) = int (?h + ?k)"
    by (simp add: SNAP_SIZE_def hdr_size_def)
  have et: "rd_bytes (rxf_buf g) (rxf_data f + int (?h + ?k)) 2 = Some (take 2 (drop ?k ?P))"
    using rd_bytes_nat [of "d + ?h + ?k" 2 "rxf_buf f"] buf assms(5) drp by (simp add: g(3) d add.assoc)
  have o: "int (?h + ?k) - ETH_HLEN + (if snap_encap ?P then 2 else 0) = int ?o - int d" "d + ?h + length ?P \<ge> ?o" "d \<le> ?o"
    using assms(2,5) by (auto simp: ETH_HLEN_def)
  have pull: "recvframe_pull (int (?h + ?k) - ETH_HLEN + (if snap_encap ?P then 2 else 0)) (g\<lparr>rxf_attrib := b\<rparr>) =
      (Some (int ?o), g\<lparr>rxf_attrib := b, rxf_data := int ?o, rxf_len := rxf_len g - word_of_int (int ?o - int d)\<rparr>)" for b
    unfolding o(1) using o(2,3) t d g(2) by (simp add: recvframe_pull_def Let_def)
  have len': "(ucast (rxf_len g - word_of_int (int (?h + ?k))) :: u16) = of_nat (length ?P)" if "\<not> snap_encap ?P"
    using that assms(6) by (simp add: len unsigned_of_nat take_bit_nat_eq_self)
  have wr1: "wr_bytes (rxf_buf g) (int ?o) (rx_dst ?a) = Some (overlay (rxf_buf f) ?o (rx_dst ?a))"
    unfolding g(3) using buf assms(2,3,5) by (intro wr_bytes_nat) auto
  have wr2: "wr_bytes (overlay (rxf_buf f) ?o (rx_dst ?a)) (int ?o + 6) (rx_src ?a) = Some (overlay (rxf_buf f) ?o (rx_dst ?a @ rx_src ?a))"
    using wr_bytes_nat [of "?o + 6" "rx_src ?a" "overlay (rxf_buf f) ?o (rx_dst ?a)"] overlay_append [of ?o "rx_dst ?a" "rx_src ?a" "rxf_buf f"]
      buf assms(2-5) by (simp add: length_overlay split del: if_split) (auto simp: length_overlay)
  have wr3: "(if snap_encap ?P then Some (overlay (rxf_buf f) ?o (rx_dst ?a @ rx_src ?a))
      else wr_bytes (overlay (rxf_buf f) ?o (rx_dst ?a @ rx_src ?a)) (int ?o + 12) (be16_bytes (of_nat (length ?P)))) =
      Some (overlay (rxf_buf f) ?o ?xs)"
    using wr_bytes_nat [of "?o + 12" "be16_bytes (of_nat (length ?P))" "overlay (rxf_buf f) ?o (rx_dst ?a @ rx_src ?a)"]
      overlay_append [of ?o "rx_dst ?a @ rx_src ?a" "be16_bytes (of_nat (length ?P))" "rxf_buf f"] buf assms(2-5)
    by (cases "snap_encap ?P") (simp_all add: length_overlay length_be16_bytes)
  define f' where "f' = g\<lparr>rxf_attrib := (rxf_attrib g)\<lparr>rx_eth_type := RTW_GET_BE16 (take 2 (drop ?k ?P))\<rparr>,
      rxf_data := int ?o, rxf_len := rxf_len g - word_of_int (int ?o - int d), rxf_buf := overlay (rxf_buf f) ?o ?xs\<rparr>"
  have lx: "?o + length ?xs = d + ?h + ?k" using assms(2-4) by (simp add: length_be16_bytes)
  have "wlanhdr_to_ethhdr False f = Some (SUCCESS, f')"
    unfolding wlanhdr_to_ethhdr_def Let_def g_def [symmetric] snap Option.bind.bind_lunit k et if_False pull prod.case rx_frame.simps wr1 wr2
    using wr1 wr2 wr3 len' by (cases "snap_encap ?P") (simp_all add: f'_def be16_bytes_def)
  moreover have "frame_ok f'"
  proof -
    have "length (overlay (rxf_buf f) ?o ?xs) = length (rxf_buf f)"
      using lx buf assms(5) by (intro length_overlay) (auto split: if_splits)
    then show ?thesis using g(1) o(2,3) t unfolding f'_def frame_ok_def
      by (simp add: g(2,3) d split del: if_split)
  qed
  moreover have "frame_bytes f' = ?xs @ drop ?k ?P"
  proof -
    have "rxf_tail f' = int (d + ?h + length ?P)" "rxf_data f' = int ?o" "rxf_buf f' = overlay (rxf_buf f) ?o ?xs"
      unfolding f'_def using t by simp_all
    then have "frame_bytes f' = take (d + ?h + length ?P - ?o) (drop ?o (overlay (rxf_buf f) ?o ?xs))"
      unfolding frame_bytes_def nat_minus_as_int by simp
    also have "\<dots> = ?xs @ take (d + ?h + length ?P - ?o - length ?xs) (drop (?o + length ?xs) (rxf_buf f))"
      using lx buf assms(5) by (intro window_overlay) (auto split: if_splits)
    also have "\<dots> = ?xs @ take (length ?P - ?k) (drop ?k ?P @ drop (d + ?h + length ?P) (rxf_buf f))"
      using lx unfolding drp [symmetric] by (metis (no_types, lifting) add_diff_cancel_left diff_diff_left)
    finally show ?thesis using assms(5) by simp
  qed
  ultimately show ?thesis by (auto simp: f'_def eth_frame_def)
qed

section \<open>Taking an aggregate apart\<close>

lemma wr_bytes_mid: "length old = length new \<Longrightarrow> wr_bytes (pre @ old @ post) (int (length pre)) new = Some (pre @ new @ post)"
  by (simp add: wr_bytes_nat overlay_def)

lemma be16_bytes_get: "be16_bytes (RTW_GET_BE16 [x, y]) = [x, y]"
  by (auto simp: be16_bytes_def RTW_GET_BE16_def intro!: bit_word_eqI) (auto simp: bit_simps dest: bit_imp_le_length)

lemma RTW_GET_BE16_eq:
  assumes "length b = 2"
  shows "RTW_GET_BE16 b = ETH_P_AARP \<longleftrightarrow> b = SNAP_ETH_TYPE_APPLETALK_AARP" "RTW_GET_BE16 b = ETH_P_IPX \<longleftrightarrow> b = SNAP_ETH_TYPE_IPX"
proof -
  obtain x y where b: "b = [x, y]" using assms by (auto simp: length_Suc_conv numeral_2_eq_2)
  have e: "RTW_GET_BE16 b = v \<longleftrightarrow> b = be16_bytes v" for v
    using be16_bytes_get [of x y] RTW_GET_BE16_bytes [of v "[]"] by (auto simp: b)
  have "be16_bytes ETH_P_AARP = SNAP_ETH_TYPE_APPLETALK_AARP" "be16_bytes ETH_P_IPX = SNAP_ETH_TYPE_IPX"
    by (simp_all add: be16_bytes_def ETH_P_AARP_def ETH_P_IPX_def SNAP_ETH_TYPE_IPX_def SNAP_ETH_TYPE_APPLETALK_AARP_def)
  then show "RTW_GET_BE16 b = ETH_P_AARP \<longleftrightarrow> b = SNAP_ETH_TYPE_APPLETALK_AARP" "RTW_GET_BE16 b = ETH_P_IPX \<longleftrightarrow> b = SNAP_ETH_TYPE_IPX"
    unfolding e by simp_all
qed

lemma msdu_header_ok:
  assumes l: "length l = 2" and "length da = 6" and "length sa = 6" and "8 \<le> length p" and "length p < 2 ^ 16"
    and "length (rx_dst a) = 6" and "length (rx_src a) = 6"
  shows "\<exists>x off n. msdu_header a (of_nat (length p)) (int (length pre) + 14) (pre @ (da @ sa @ l @ p) @ post) = Some ((off, n), pre @ x @ post) \<and>
    length x = 14 + length p \<and> (\<forall>post. rd_bytes (pre @ x @ post) off n = Some (eth_frame (rx_dst a) (rx_src a) p))"
proof -
  let ?m = "pre @ (da @ sa @ l @ p) @ post" and ?d = "length pre + 14"
  have d: "int (length pre) + 14 = int ?d" by simp
  have dr: "drop ?d ?m = p @ post" using assms(2,3) l by simp
  have len: "uint (of_nat (length p) :: u16) = int (length p)" "(8 :: u16) \<le> of_nat (length p)"
    using assms(4,5) by (simp_all add: uint_nat unat_of_nat word_le_nat_alt)
  have m: "?d + length p \<le> length ?m" using assms(2,3) l by simp
  have c: "rtw_memcmp ?m (int ?d) rtw_rfc1042_header SNAP_SIZE = Some (take 6 p = rtw_rfc1042_header)"
    "rtw_memcmp ?m (int ?d) rtw_bridge_tunnel_header SNAP_SIZE = Some (take 6 p = rtw_bridge_tunnel_header)"
    using rtw_memcmp_nat [of ?d 6 ?m] m assms(1-4) unfolding dr by (simp_all add: SNAP_SIZE_def)
  have t: "rd_bytes ?m (int ?d + 6) 2 = Some (take 2 (drop 6 p))"
    using rd_bytes_nat [of "?d + 6" 2 ?m] m assms(1-4) unfolding add.commute [of ?d 6] drop_drop [symmetric] dr by simp
  have l2: "length (take 2 (drop 6 p)) = 2" using assms(4) by simp
  show ?thesis
  proof (cases "snap_encap p")
    case True
    let ?x = "(da @ take 2 sa) @ (rx_dst a @ rx_src a @ drop 6 p)" and ?b = "pre @ da @ take 2 sa"
    have w1: "wr_bytes ?m (int ?d) (rx_src a) = Some ((pre @ da @ sa @ l) @ rx_src a @ drop 6 p @ post)"
      using wr_bytes_mid [of "take 6 p" "rx_src a" "pre @ da @ sa @ l" "drop 6 p @ post"] assms
        append_take_drop_id [of 6 p] by (simp del: append_take_drop_id flip: append_assoc [of "take 6 p"])
    have b: "(pre @ da @ sa @ l) @ q = ?b @ (drop 2 sa @ l) @ q" for q
      by (metis append.assoc append_take_drop_id)
    have w2: "wr_bytes ((pre @ da @ sa @ l) @ rx_src a @ drop 6 p @ post) (int ?d - 6) (rx_dst a) = Some (pre @ ?x @ post)"
      unfolding b using wr_bytes_mid [of "drop 2 sa @ l" "rx_dst a" ?b "rx_src a @ drop 6 p @ post"] assms
      by (simp add: add.commute)
    have "msdu_header a (of_nat (length p)) (int (length pre) + 14) ?m = Some ((int ?d - 6, int (length p) + 6), pre @ ?x @ post)"
      unfolding msdu_header_def Let_def d t c Option.bind.bind_lunit RTW_GET_BE16_eq [OF l2]
      using True len w1 w2 by (auto simp: snap_encap_def SNAP_SIZE_def)
    moreover have "rd_bytes (pre @ ?x @ post) (int ?d - 6) (int (length p) + 6) = Some (eth_frame (rx_dst a) (rx_src a) p)" for post
      using rd_bytes_mid [of ?b "rx_dst a @ rx_src a @ drop 6 p" post] True assms
      by (simp add: eth_frame_def of_nat_diff add.commute)
    ultimately show ?thesis using assms by (intro exI [of _ ?x] exI) auto
  next
    case False
    let ?e = "be16_bytes (of_nat (length p))"
    let ?x = "rx_dst a @ rx_src a @ ?e @ p"
    have w: "wr_bytes ?m (int ?d - 2) ?e = Some (pre @ da @ sa @ ?e @ p @ post)"
      "wr_bytes (pre @ da @ sa @ ?e @ p @ post) (int ?d - 8) (rx_src a) = Some (pre @ da @ rx_src a @ ?e @ p @ post)"
      "wr_bytes (pre @ da @ rx_src a @ ?e @ p @ post) (int ?d - 14) (rx_dst a) = Some (pre @ rx_dst a @ rx_src a @ ?e @ p @ post)"
      using wr_bytes_mid [of l ?e "pre @ da @ sa" "p @ post"] wr_bytes_mid [of sa "rx_src a" "pre @ da" "?e @ p @ post"]
        wr_bytes_mid [of da "rx_dst a" pre "rx_src a @ ?e @ p @ post"] assms
      by (simp_all add: add.commute)
    have "msdu_header a (of_nat (length p)) (int (length pre) + 14) ?m = Some ((int ?d - 14, int (length p) + 14), pre @ ?x @ post)"
      unfolding msdu_header_def Let_def d t c Option.bind.bind_lunit RTW_GET_BE16_eq [OF l2]
      using False len w by (auto simp: snap_encap_def be16_bytes_def)
    moreover have "rd_bytes (pre @ ?x @ post) (int ?d - 14) (int (length p) + 14) = Some (eth_frame (rx_dst a) (rx_src a) p)" for post
      using rd_bytes_mid [of pre ?x post] False assms by (simp add: eth_frame_def add.commute)
    ultimately show ?thesis using assms by (intro exI [of _ ?x] exI) auto
  qed
qed

lemma alloc_msdu_pkt:
  assumes l: "length l = 2" and "length da = 6" and "length sa = 6" and "8 \<le> length p" and "length p < 2 ^ 16"
    and "length (rx_dst a) = 6" and "length (rx_src a) = 6" and pad: "2 \<le> NET_SKB_PAD env" and c: "dev_alloc_skb env nr \<or> skb_clone env nr"
  obtains x pkt where "rtw_os_alloc_msdu_pkt env nr a (of_nat (length p)) (int (length pre)) (pre @ (da @ sa @ l @ p) @ post) = Some (Some pkt, pre @ x @ post)"
    and "length x = 14 + length p" and "\<And>post. pkt_bytes (pre @ x @ post) pkt = Some (eth_frame (rx_dst a) (rx_src a) p)"
proof (cases "dev_alloc_skb env nr")
  case True
  let ?z = "replicate (NET_SKB_PAD env - 2) 0" and ?h = "replicate 6 0 @ replicate 6 0 @ replicate 2 0 @ p"
  obtain x off n where x: "msdu_header a (of_nat (length p)) (int (length ?z) + 14) (?z @ ?h @ replicate 8 0) = Some ((off, n), ?z @ x @ replicate 8 0)"
    "rd_bytes (?z @ x @ replicate 8 0) off n = Some (eth_frame (rx_dst a) (rx_src a) p)"
    using msdu_header_ok [of "replicate 2 0" "replicate 6 0" "replicate 6 0" p a ?z "replicate 8 0"] assms by auto
  have z: "int (length ?z) + 14 = int (NET_SKB_PAD env + 12)" "?z @ ?h @ q = replicate (NET_SKB_PAD env + 12) 0 @ p @ q" for q
    using pad by (simp_all add: of_nat_diff flip: replicate_add append_assoc)
  have "rd_bytes (pre @ (da @ sa @ l @ p) @ post) (int (length pre) + ETH_HLEN) (uint (of_nat (length p) :: u16)) = Some p"
    using rd_bytes_mid [of "pre @ da @ sa @ l" p post] assms(1-5) by (simp add: ETH_HLEN_def unsigned_of_nat take_bit_nat_eq_self)
  then show thesis
    using that [of "Skb_Copy (eth_frame (rx_dst a) (rx_src a) p)" "da @ sa @ l @ p"] x True assms(1-3)
    unfolding z by (simp add: rtw_os_alloc_msdu_pkt_def pkt_bytes_def Let_def)
next
  case False
  obtain x off n where x: "msdu_header a (of_nat (length p)) (int (length pre) + 14) (pre @ (da @ sa @ l @ p) @ post) = Some ((off, n), pre @ x @ post)"
    "length x = 14 + length p" "\<And>post. rd_bytes (pre @ x @ post) off n = Some (eth_frame (rx_dst a) (rx_src a) p)"
    using msdu_header_ok [of l da sa p a pre post] assms by auto
  then show thesis using that [of "Skb_Clone off n" x] False c
    by (simp add: rtw_os_alloc_msdu_pkt_def pkt_bytes_def ETH_HLEN_def)
qed

text \<open>The body of an aggregate: subframes, all but the last padded to a multiple of four bytes.\<close>

fun amsdu_bytes :: "(byte list \<times> byte list \<times> byte list) list \<Rightarrow> byte list" where
  "amsdu_bytes [] = []"
| "amsdu_bytes ((da, sa, p) # ms) = (da @ sa @ be16_bytes (of_nat (length p)) @ p) @
     (if ms = [] then [] else replicate ((4 - (14 + length p) mod 4) mod 4) 0 @ amsdu_bytes ms)"

fun msdu_ok :: "byte list \<times> byte list \<times> byte list \<Rightarrow> bool" where
  "msdu_ok (da, sa, p) \<longleftrightarrow> length da = 6 \<and> length sa = 6 \<and> 8 \<le> length p \<and> length p < 2 ^ 16"

lemma msdu_padding_of_nat:
  assumes "n < 2 ^ 16"
  shows "msdu_padding (of_nat n) = int ((4 - (14 + n) mod 4) mod 4)"
proof -
  have "uint (of_nat n :: u16) = int n" using assms by (simp add: unsigned_of_nat take_bit_nat_eq_self)
  moreover define r where "r = (14 + n) mod 4"
  moreover have "(int n + 14) mod 4 = int r" by (simp add: r_def zmod_int add.commute)
  moreover have "r < 4" by (simp add: r_def)
  then consider "r = 0" | "r = 1" | "r = 2" | "r = 3" by linarith
  ultimately show ?thesis by cases (simp_all add: msdu_padding_def ETH_HLEN_def)
qed

declare amsdu_loop.simps [simp del]

lemma amsdu_loop_short: "a_len \<le> 14 \<Longrightarrow> amsdu_loop env a pdata a_len nr mem = Some ([], mem)"
  by (simp add: amsdu_loop.simps ETH_HLEN_def)

lemma amsdu_loop_step:
  assumes m: "msdu_ok (da, sa, p)" and a: "length (rx_dst a) = 6" "length (rx_src a) = 6" and c: "2 \<le> NET_SKB_PAD env" "dev_alloc_skb env nr \<or> skb_clone env nr"
  obtains x pkt where "length x = 14 + length p"
    and "\<And>post. pkt_bytes (pre @ x @ post) pkt = Some (eth_frame (rx_dst a) (rx_src a) p)"
    and "amsdu_loop env a (int (length pre)) (14 + int (length p) + int r) nr (pre @ (da @ sa @ be16_bytes (of_nat (length p)) @ p) @ post) =
      (let q = (if r = 0 then 0 else (4 - (14 + length p) mod 4) mod 4)
       in if 64 \<le> nr + 1 \<or> r < q then Some ([pkt], pre @ x @ post)
          else do { (pkts, mem) \<leftarrow> amsdu_loop env a (int (length (pre @ x) + q)) (int (r - q)) (nr + 1) (pre @ x @ post); Some (pkt # pkts, mem) })"
proof -
  let ?l = "be16_bytes (of_nat (length p))"
  obtain x pkt where x: "rtw_os_alloc_msdu_pkt env nr a (of_nat (length p)) (int (length pre)) (pre @ (da @ sa @ ?l @ p) @ post) = Some (Some pkt, pre @ x @ post)"
    "length x = 14 + length p" "\<And>post. pkt_bytes (pre @ x @ post) pkt = Some (eth_frame (rx_dst a) (rx_src a) p)"
    using alloc_msdu_pkt [of ?l da sa p a env nr pre post thesis] m a c by auto
  have t: "rd_bytes (pre @ (da @ sa @ ?l @ p) @ post) (int (length pre) + 12) 2 = Some ?l"
    using rd_bytes_mid [of "pre @ da @ sa" ?l "p @ post"] m by simp
  have l: "uint (of_nat (length p) :: u16) = int (length p)" using m by (simp add: unsigned_of_nat take_bit_nat_eq_self)
  note pad = msdu_padding_of_nat [of "length p"]
  show thesis
  proof (rule that [of x pkt])
    show "amsdu_loop env a (int (length pre)) (14 + int (length p) + int r) nr (pre @ (da @ sa @ be16_bytes (of_nat (length p)) @ p) @ post) =
      (let q = (if r = 0 then 0 else (4 - (14 + length p) mod 4) mod 4)
       in if 64 \<le> nr + 1 \<or> r < q then Some ([pkt], pre @ x @ post)
          else do { (pkts, mem) \<leftarrow> amsdu_loop env a (int (length (pre @ x) + q)) (int (r - q)) (nr + 1) (pre @ x @ post); Some (pkt # pkts, mem) })"
      apply (subst amsdu_loop.simps)
      unfolding t Option.bind.bind_lunit Let_def RTW_GET_BE16_bytes [of _ "[]", simplified] l x(1) prod.case option.case
      using m c pad x(2) apply (auto simp: ETH_HLEN_def MAX_SUBFRAME_COUNT_def of_nat_diff algebra_simps)
      done
  qed (use x in auto)
qed

lemma amsdu_bytes_nonempty: "\<forall>m\<in>set ms. msdu_ok m \<Longrightarrow> ms \<noteq> [] \<Longrightarrow> amsdu_bytes ms \<noteq> []"
  by (cases ms rule: amsdu_bytes.cases) auto

lemma amsdu_loop_delivers:
  assumes a: "length (rx_dst a) = 6" "length (rx_src a) = 6" and pad: "2 \<le> NET_SKB_PAD env"
    and k: "\<And>i. dev_alloc_skb env i \<or> skb_clone env i \<longleftrightarrow> i < k" and tr: "length tr \<le> 14"
    and "\<forall>m\<in>set ms. msdu_ok m" and "nr < 64"
  shows "\<exists>pkts x. amsdu_loop env a (int (length pre)) (int (length (amsdu_bytes ms @ tr))) nr (pre @ amsdu_bytes ms @ tr @ post) =
      Some (pkts, pre @ x) \<and>
    those (map (pkt_bytes (pre @ x)) pkts) =
      Some (map (\<lambda>(da, sa, p). eth_frame (rx_dst a) (rx_src a) p) (take (min 64 k - nr) ms))"
  using assms(6,7)
proof (induction ms arbitrary: pre nr)
  case Nil
  then show ?case using tr by (simp add: amsdu_loop_short)
next
  case (Cons m ms)
  obtain da sa p where m: "m = (da, sa, p)" by (cases m)
  let ?S = "da @ sa @ be16_bytes (of_nat (length p)) @ p" and ?q = "(4 - (14 + length p) mod 4) mod 4"
  let ?R = "(if ms = [] then [] else replicate ?q 0 @ amsdu_bytes ms) @ tr"
  let ?E = "\<lambda>(da, sa, p). eth_frame (rx_dst a) (rx_src a) p"
  have ok: "msdu_ok (da, sa, p)" and S: "length ?S = 14 + length p" using Cons.prems(1) by (auto simp: m)
  have B: "pre @ amsdu_bytes (m # ms) @ tr @ post = pre @ ?S @ (?R @ post)"
    "int (length (amsdu_bytes (m # ms) @ tr)) = 14 + int (length p) + int (length ?R)"
    using S by (simp_all add: m)
  show ?case
  proof (cases "nr < k")
    case False
    have "rd_bytes (pre @ ?S @ (?R @ post)) (int (length pre) + 12) 2 = Some (be16_bytes (of_nat (length p)))"
      using rd_bytes_mid [of "pre @ da @ sa" "be16_bytes (of_nat (length p))" "p @ ?R @ post"] ok by simp
    then have "amsdu_loop env a (int (length pre)) (14 + int (length p) + int (length ?R)) nr (pre @ ?S @ (?R @ post)) =
        Some ([], pre @ ?S @ (?R @ post))"
      using False ok k [of nr] by (subst amsdu_loop.simps) (auto simp: Let_def ETH_HLEN_def rtw_os_alloc_msdu_pkt_def)
    then show ?thesis unfolding B using False by (intro exI [of _ "[]"] exI [of _ "?S @ (?R @ post)"]) simp
  next
    case True
    obtain x pkt where x: "length x = 14 + length p" "\<And>post. pkt_bytes (pre @ x @ post) pkt = Some (eth_frame (rx_dst a) (rx_src a) p)"
      "amsdu_loop env a (int (length pre)) (14 + int (length p) + int (length ?R)) nr (pre @ ?S @ (?R @ post)) =
        (let q = (if length ?R = 0 then 0 else ?q)
         in if 64 \<le> nr + 1 \<or> length ?R < q then Some ([pkt], pre @ x @ (?R @ post))
            else do { (pkts, mem) \<leftarrow> amsdu_loop env a (int (length (pre @ x) + q)) (int (length ?R - q)) (nr + 1) (pre @ x @ (?R @ post));
                      Some (pkt # pkts, mem) })"
      by (rule amsdu_loop_step [where nr = nr and pre = pre and r = "length ?R" and post = "?R @ post", OF ok a pad k [THEN iffD2, OF True]]) (rule that)
    have one: ?thesis if "take (min 64 k - (nr + 1)) ms = []"
      "amsdu_loop env a (int (length pre)) (14 + int (length p) + int (length ?R)) nr (pre @ ?S @ (?R @ post)) = Some ([pkt], pre @ x @ (?R @ post))"
      unfolding B using that True Cons.prems(2) x(2) [of "?R @ post"]
      by (intro exI [of _ "[pkt]"] exI [of _ "x @ (?R @ post)"]) (auto simp: m take_Cons' split: prod.splits)
    show ?thesis
    proof (cases "64 \<le> nr + 1 \<or> ms = []")
      case True
      then show ?thesis using x(3) tr by (intro one) (auto simp: Let_def amsdu_loop_short)
    next
      case False
      let ?pre = "pre @ x @ replicate ?q 0"
      have R: "?R = replicate ?q 0 @ amsdu_bytes ms @ tr" "amsdu_bytes ms \<noteq> []"
        using False Cons.prems(1) amsdu_bytes_nonempty [of ms] by simp_all
      obtain pkts y where y: "amsdu_loop env a (int (length ?pre)) (int (length (amsdu_bytes ms @ tr))) (nr + 1) (?pre @ amsdu_bytes ms @ tr @ post) =
          Some (pkts, ?pre @ y)"
        "those (map (pkt_bytes (?pre @ y)) pkts) = Some (map ?E (take (min 64 k - (nr + 1)) ms))"
        using Cons.IH [of "nr + 1" ?pre] Cons.prems(1) False by auto
      have "amsdu_loop env a (int (length pre)) (14 + int (length p) + int (length ?R)) nr (pre @ ?S @ (?R @ post)) =
          Some (pkt # pkts, pre @ x @ replicate ?q 0 @ y)"
        unfolding x(3) Let_def using y(1) False R(2) unfolding R(1) by (simp add: add.assoc)
      moreover have "take (min 64 k - nr) (m # ms) = m # take (min 64 k - (nr + 1)) ms"
        using True Cons.prems(2) by (simp add: take_Cons')
      ultimately show ?thesis
        unfolding B using y(2) x(2) [of "replicate ?q 0 @ y"]
        by (intro exI [of _ "pkt # pkts"] exI [of _ "x @ replicate ?q 0 @ y"]) (simp add: m)
    qed
  qed
qed

lemma sint_rxf_len:
  assumes "frame_ok f"
  shows "sint (rxf_len f) = rxf_tail f - rxf_data f"
proof -
  have "rxf_len f = word_of_int (rxf_tail f - rxf_data f)" "0 \<le> rxf_tail f - rxf_data f" "rxf_tail f - rxf_data f < 2 ^ 31"
    using assms by (auto simp: frame_ok_def)
  then show ?thesis by (simp only: signed_of_int) (simp add: signed_take_bit_int_eq_self_iff)
qed

lemma pull_twice:
  assumes "frame_ok f" and "int (m + n) \<le> rxf_tail f - rxf_data f"
  defines "g1 \<equiv> snd (recvframe_pull (int m) f)"
  defines "g \<equiv> snd (recvframe_pull (int n) g1)"
  shows "frame_ok g" "rxf_buf g = rxf_buf f" "rxf_data g = rxf_data f + int (m + n)" "rxf_tail g = rxf_tail f"
    "snd (recvframe_pull 0 g1) = g1" "frame_bytes g = drop (m + n) (frame_bytes f)"
proof -
  have g1: "g1 = f\<lparr>rxf_data := rxf_data f + int m, rxf_len := rxf_len f - word_of_int (int m)\<rparr>" "frame_ok g1"
    unfolding g1_def using assms(2) recvframe_pull_ok(1) [OF assms(1), of m] frame_ok_ops(2) [OF assms(1), of "int m"] by (simp, simp only:)
  show "snd (recvframe_pull 0 g1) = g1" using recvframe_pull_ok(1) [OF g1(2), of 0] g1(2) by (simp add: frame_ok_def)
  have "g = g1\<lparr>rxf_data := rxf_data g1 + int n, rxf_len := rxf_len g1 - word_of_int (int n)\<rparr>"
    unfolding g_def using assms(2) g1 by (intro recvframe_pull_ok(1)) simp_all
  then show "rxf_buf g = rxf_buf f" "rxf_data g = rxf_data f + int (m + n)" "rxf_tail g = rxf_tail f"
    by (simp_all add: g1(1))
  show "frame_ok g" unfolding g_def using frame_ok_ops(2) [OF g1(2)] by simp
  have "frame_bytes g = drop n (frame_bytes g1)"
    unfolding g_def using frame_bytes_pull [OF g1(2), of "int n"] assms(2) by (simp add: g1(1))
  also have "frame_bytes g1 = drop m (frame_bytes f)"
    unfolding g1_def using frame_bytes_pull [OF assms(1), of "int m"] assms(2) by simp
  finally show "frame_bytes g = drop (m + n) (frame_bytes f)" by (simp add: add.commute)
qed

text \<open>
  C30 (functional): an aggregate is taken apart completely: of a received A-MSDU whose subframes each carry at least an
  LLC header, every subframe up to the 64th is handed over, in order, its padding and the
  trailing ICV removed, as the Ethernet frame its payload makes; all of them carry the
  addresses of the aggregate and none of the addresses of its own subframe header.  When there
  is memory for \<open>k\<close> packets only (copies, or clones where there is none for a copy), the first
  \<open>k\<close> subframes are handed over.
\<close>

theorem amsdu_delivers:
  assumes "frame_ok f" and "hdr_size f \<le> length (frame_bytes f)"
    and "drop (hdr_size f) (frame_bytes f) = amsdu_bytes ms @ icv" and "length icv \<le> 14" and "\<forall>m\<in>set ms. msdu_ok m"
    and "length (rx_dst (rxf_attrib f)) = 6" and "length (rx_src (rxf_attrib f)) = 6"
    and "2 \<le> NET_SKB_PAD env" and "\<And>i. dev_alloc_skb env i \<or> skb_clone env i \<longleftrightarrow> i < k"
  shows "\<exists>f'. amsdu_to_msdu env f =
    Some (map (\<lambda>(da, sa, p). eth_frame (rx_dst (rxf_attrib f)) (rx_src (rxf_attrib f)) p) (take (min 64 k) ms), f')"
proof -
  let ?a = "rxf_attrib f"
  define g where "g = (let f = snd (recvframe_pull (uint (rx_hdrlen ?a)) f)
     in if rx_iv_len ?a > 0 then snd (recvframe_pull (uint (rx_iv_len ?a)) f) else f)"
  have h: "uint (rx_hdrlen ?a) = int (unat (rx_hdrlen ?a))" "uint (rx_iv_len ?a) = int (unat (rx_iv_len ?a))" by simp_all
  note ok = assms(1)
  have le: "int (hdr_size f) \<le> rxf_tail f - rxf_data f" using assms(2) int_length_frame_bytes [OF ok] by linarith
  note g = pull_twice [OF ok le [unfolded hdr_size_def], folded hdr_size_def]
  have "g = snd (recvframe_pull (int (unat (rx_iv_len ?a))) (snd (recvframe_pull (int (unat (rx_hdrlen ?a))) f)))"
    using g(5) unfolding g_def Let_def h by (auto simp: word_neq_0_conv [symmetric])
  note g = g(1-4,6) [folded this]
  define d where "d = nat (rxf_data g)"
  let ?B = "amsdu_bytes ms @ icv"
  have d: "rxf_data g = int d" "int d = rxf_data f + int (hdr_size f)" using g(1,3) by (simp_all add: frame_ok_def d_def)
  have B: "frame_bytes g = ?B" using g(5) assms(3) by simp
  have tl: "rxf_tail g - rxf_data g = int (length ?B)" using int_length_frame_bytes [OF g(1)] B by simp
  have len: "sint (rxf_len g) = int (length ?B)"
    using sint_rxf_len [OF g(1)] tl by simp
  have "take (length ?B) (drop d (rxf_buf g)) = ?B" using B unfolding frame_bytes_def tl nat_int d_def .
  then have "drop d (rxf_buf g) = ?B @ drop (length ?B) (drop d (rxf_buf g))" by (metis append_take_drop_id)
  then have "rxf_buf g = take d (rxf_buf g) @ amsdu_bytes ms @ icv @ drop (d + length ?B) (rxf_buf g)" "d \<le> length (rxf_buf g)"
    using append_take_drop_id [of d "rxf_buf g"] g(1) d(1) by (simp_all add: add.commute frame_ok_def)
  then obtain pkts x where
    "amsdu_loop env ?a (rxf_data g) (sint (rxf_len g)) 0 (rxf_buf g) = Some (pkts, take d (rxf_buf g) @ x)"
    "those (map (pkt_bytes (take d (rxf_buf g) @ x)) pkts) =
      Some (map (\<lambda>(da, sa, p). eth_frame (rx_dst ?a) (rx_src ?a) p) (take (min 64 k) ms))"
    using amsdu_loop_delivers [OF assms(6-9,4,5), of 0 "take d (rxf_buf g)" "drop (d + length ?B) (rxf_buf g)"] len d(1)
    by auto
  then show ?thesis unfolding amsdu_to_msdu_def Let_def g_def [unfolded Let_def, symmetric] by simp
qed

text \<open>A frame with a header of 24 bytes around a given body.\<close>

definition ex_frame :: "byte list \<Rightarrow> rx_frame" where
  "ex_frame b = zero_frame
     \<lparr>rxf_attrib := (rxf_attrib zero_frame)\<lparr>rx_hdrlen := 24, rx_dst := [1, 2, 3, 4, 5, 6], rx_src := [7, 8, 9, 10, 11, 12]\<rparr>,
      rxf_buf := replicate 24 0 @ b, rxf_data := 0, rxf_tail := 24 + int (length b), rxf_end := 24 + int (length b),
      rxf_len := of_nat (24 + length b)\<rparr>"

lemma ex_frame_bytes: "frame_bytes (ex_frame b) = replicate 24 0 @ b"
  by (simp add: ex_frame_def frame_bytes_def nat_add_distrib)

lemma ex_frame_ok: "length b < 2 ^ 30 \<Longrightarrow> frame_ok (ex_frame b)"
  by (simp add: ex_frame_def frame_ok_def)

lemma ex_frame_hdr [simp]:
  "hdr_size (ex_frame b) = 24" "icv_size (ex_frame b) = 0" "rx_encrypt (rxf_attrib (ex_frame b)) = 0"
  "rx_dst (rxf_attrib (ex_frame b)) = [1, 2, 3, 4, 5, 6]" "rx_src (rxf_attrib (ex_frame b)) = [7, 8, 9, 10, 11, 12]"
  by (simp_all add: ex_frame_def hdr_size_def icv_size_def zero_frame_def)

lemma ex_frame_body [simp]: "frag_body (ex_frame b) = b" "eth_payload (ex_frame b) = b"
  by (simp_all add: eth_payload_def frag_body_def ex_frame_bytes)

theorem amsdu_delivers_witness:
  "\<exists>f'. amsdu_to_msdu \<lparr>dev_alloc_skb = (\<lambda>i. i = 0), skb_clone = (\<lambda>i. i = 1), NET_SKB_PAD = 32\<rparr>
      (ex_frame (amsdu_bytes [([1, 1, 1, 1, 1, 1], [2, 2, 2, 2, 2, 2], [0xaa, 0xaa, 3, 0, 0, 0, 8, 0, 1]), ([3, 3, 3, 3, 3, 3], [4, 4, 4, 4, 4, 4], [5, 5, 5, 5, 5, 5, 5, 5])] @ [9, 9, 9, 9])) =
    Some ([[1, 2, 3, 4, 5, 6, 7, 8, 9, 10, 11, 12, 8, 0, 1], [1, 2, 3, 4, 5, 6, 7, 8, 9, 10, 11, 12, 0, 8, 5, 5, 5, 5, 5, 5, 5, 5]], f')"
proof -
  let ?ms = "[([1, 1, 1, 1, 1, 1], [2, 2, 2, 2, 2, 2], [0xaa, 0xaa, 3, 0, 0, 0, 8, 0, 1]), ([3, 3, 3, 3, 3, 3], [4, 4, 4, 4, 4, 4], [5, 5, 5, 5, 5, 5, 5, 5])] :: (byte list \<times> byte list \<times> byte list) list"
  let ?env = "\<lparr>dev_alloc_skb = (\<lambda>i. i = 0), skb_clone = (\<lambda>i. i = 1), NET_SKB_PAD = 32\<rparr>"
  let ?f = "ex_frame (amsdu_bytes ?ms @ [9, 9, 9, 9])"
  have e: "snap_encap [0xaa, 0xaa, 3, 0, 0, 0, 8, 0, 1]" "\<not> snap_encap [5, 5, 5, 5, 5, 5, 5, 5]"
    by (simp_all add: snap_encap_def rtw_rfc1042_header_def rtw_bridge_tunnel_header_def SNAP_ETH_TYPE_IPX_def SNAP_ETH_TYPE_APPLETALK_AARP_def)
  have "length (amsdu_bytes ?ms) < 100" by simp
  then have "\<exists>f'. amsdu_to_msdu ?env ?f =
      Some (map (\<lambda>(da, sa, p). eth_frame (rx_dst (rxf_attrib ?f)) (rx_src (rxf_attrib ?f)) p) (take (min 64 2) ?ms), f')"
    by (intro amsdu_delivers [where icv = "[9, 9, 9, 9]"]) (auto simp: ex_frame_ok ex_frame_bytes simp del: amsdu_bytes.simps)
  moreover have "eth_frame d s [0xaa, 0xaa, 3, 0, 0, 0, 8, 0, 1] = d @ s @ [8, 0, 1]"
    "eth_frame d s [5, 5, 5, 5, 5, 5, 5, 5] = d @ s @ [0, 8, 5, 5, 5, 5, 5, 5, 5, 5]" for d s
    using e by (simp_all add: eth_frame_def be16_bytes_def)
  ultimately show ?thesis by (simp del: amsdu_bytes.simps)
qed

end
