(* ===== verification/Xmit.thy ===== *)
theory Xmit
  imports Wlan_Hdr Ccmp Sta_Mgt Rx_Eth Rates
begin

text \<open>
  From an Ethernet frame to the frames on the air: \<open>rtw_xmitframe_coalesce\<close> of
  src/core/rtw_xmit.c with everything it calls, namely the 802.11 header
  (\<open>rtw_make_wlanhdr\<close>), the LLC header (\<open>rtw_put_snap\<close>), the reading of the packet
  (\<open>_rtw_pktfile_read\<close>), the Michael code (\<open>xmitframe_addmic\<close>), the software ciphers
  (\<open>xmitframe_swencrypt\<close>) and the protection mode (\<open>update_attrib_vcs_info\<close>).

  The attributes extend those the ciphers read.  A NULL pointer or an access outside a buffer
  is undefined behaviour, and so is a loop that does not end: both are \<open>None\<close>.
\<close>

section \<open>Attributes, stations and the environment\<close>

record tx_attr = tx_pkt_attrib +
  tx_subtype :: byte
  tx_bswenc :: byte
  tx_ether_type :: u16
  tx_seqnum :: u16
  tx_pkt_hdrlen :: u16
  tx_pktlen :: u32
  tx_iv :: "byte list"
  tx_icv :: "byte list"
  tx_priority :: byte
  tx_ack_policy :: byte
  tx_vcs_mode :: byte
  tx_dst :: "byte list"
  tx_src :: "byte list"
  tx_qos_en :: byte
  tx_ht_en :: byte
  tx_ampdu_en :: byte
  tx_mdata :: byte
  tx_eosp :: byte
  tx_psta :: "nat option"
  tx_rtsen :: byte
  tx_cts2self :: byte
  tx_tkiptxmickey :: "byte list"

record tx_frame =
  tf_attr :: tx_attr
  tf_buf_addr :: "nat option"
  tf_buf :: "byte list"
  tf_pkt_offset :: byte

text \<open>What the transmit path keeps per station.\<close>

record tx_sta =
  ts_state :: u32
  txseq_tid :: "u16 list"
  BA_starting_seqctrl :: "u16 list"
  ts_ampdu_enable :: u32
  ts_agg_enable_bitmap :: byte

text \<open>What it reads: the interface, the station table, thresholds, keys and the network.\<close>

record tx_env =
  te_fw_state :: u32
  te_bssid :: "byte list"
  te_qos_option :: u32
  te_stapriv :: sta_priv
  te_frag_len :: u32
  te_sec :: security_priv
  te_grptxmickey :: "byte list list"
  te_dot11PrivacyAlgrthm :: u32
  te_wireless_mode :: byte
  te_bwmode :: byte
  te_HT_protection :: byte
  te_assoc_AP_vendor :: byte
  te_rts_thresh :: u16

text \<open>The frame as the ciphers see it.\<close>

definition cipher_frame :: "tx_frame \<Rightarrow> xmit_frame" where
  "cipher_frame f = \<lparr>buf_addr = tf_buf_addr f, xf_buf = tf_buf f, pkt_offset = tf_pkt_offset f,
     tx_attrib = tx_pkt_attrib.truncate (tf_attr f)\<rparr>"

section \<open>The packet file\<close>

record pkt_file =
  pf_skb :: "byte list"
  pf_cur :: nat
  pf_pkt_len :: nat

definition rtw_open_pktfile :: "byte list \<Rightarrow> pkt_file" where
  "rtw_open_pktfile skb = \<lparr>pf_skb = skb, pf_cur = 0, pf_pkt_len = length skb\<rparr>"

definition rtw_remainder_len :: "pkt_file \<Rightarrow> u32" where
  "rtw_remainder_len pf = word_of_int (int (length (pf_skb pf)) - int (pf_cur pf))"

text \<open>
  The bytes read and the file behind them.  \<open>skb_copy_bits\<close> copies nothing when the range is
  not inside the packet, which the positions rule out (\<open>pktfile_ok\<close> below).
\<close>

definition rtw_pktfile_read :: "pkt_file \<Rightarrow> u32 \<Rightarrow> byte list \<times> pkt_file" where
  "rtw_pktfile_read pf rlen =
     (let len = rtw_remainder_len pf;
          len = (if rlen > len then len else rlen)
      in (take (unat len) (drop (length (pf_skb pf) - pf_pkt_len pf) (pf_skb pf)),
          pf\<lparr>pf_cur := pf_cur pf + unat len, pf_pkt_len := pf_pkt_len pf - unat len\<rparr>))"

definition rtw_endofpktfile :: "pkt_file \<Rightarrow> bool" where
  "rtw_endofpktfile pf \<longleftrightarrow> pf_pkt_len pf = 0"

section \<open>The LLC header\<close>

definition P802_1H_OUI :: "byte list" where "P802_1H_OUI = [0x00, 0x00, 0xf8]"
definition RFC1042_OUI :: "byte list" where "RFC1042_OUI = [0x00, 0x00, 0x00]"

definition rtw_put_snap :: "u16 \<Rightarrow> byte list" where
  "rtw_put_snap h_proto =
     [0xaa, 0xaa, 0x03] @ (if h_proto = 0x8137 \<or> h_proto = 0x80f3 then P802_1H_OUI else RFC1042_OUI) @
     be16_bytes h_proto"

section \<open>The 802.11 header\<close>

definition WLANHDR_OFFSET :: nat where "WLANHDR_OFFSET = 64"

text \<open>
  The sequence number of the station's queue, and whether the frame may be aggregated: not
  before the start of the block ack agreement, which follows the numbers used.  A priority
  outside of the 16 counters is an access behind the array.
\<close>

definition tx_recheck_ampdu :: "tx_attr \<Rightarrow> tx_sta \<Rightarrow> (tx_attr \<times> tx_sta) option" where
  "tx_recheck_ampdu a s =
     (if tx_ampdu_en a = 1 then do {
        let seq = tx_seqnum a;
        let ba = unat (tx_priority a AND 0x0f);
        tx_seq \<leftarrow> rd (BA_starting_seqctrl s) (int ba);
        if SN_LESS seq tx_seq then Some (a\<lparr>tx_ampdu_en := 0\<rparr>, s)
        else if SN_EQUAL seq tx_seq
        then Some (a\<lparr>tx_ampdu_en := 1\<rparr>, s\<lparr>BA_starting_seqctrl := (BA_starting_seqctrl s)[ba := (tx_seq + 1) AND 0xfff]\<rparr>)
        else Some (a\<lparr>tx_ampdu_en := 1\<rparr>, s\<lparr>BA_starting_seqctrl := (BA_starting_seqctrl s)[ba := (seq + 1) AND 0xfff]\<rparr>)
      } else Some (a, s))"

definition tx_next_seq :: "tx_attr \<Rightarrow> tx_sta \<Rightarrow> (tx_attr \<times> tx_sta) option" where
  "tx_next_seq a s = do {
     let tid = unat (tx_priority a);
     n \<leftarrow> rd (txseq_tid s) (int tid);
     let seq = (n + 1) AND 0xFFF;
     let s = s\<lparr>txseq_tid := (txseq_tid s)[tid := seq]\<rparr>;
     let a = a\<lparr>tx_seqnum := seq\<rparr>;
     let a = (if tx_ht_en a \<noteq> 0 \<and> ts_ampdu_enable s \<noteq> 0 \<and> (ucast (ts_agg_enable_bitmap s) :: u32) AND push_bit tid 1 \<noteq> 0
              then a\<lparr>tx_ampdu_en := 1\<rparr> else a);
     tx_recheck_ampdu a s
   }"

text \<open>The addresses by the state of the interface, and whether there is a QoS field.\<close>

definition wlanhdr_addrs :: "tx_env \<Rightarrow> tx_attr \<Rightarrow> ((byte list \<Rightarrow> int \<Rightarrow> byte list option) \<times> byte list \<times> byte list \<times> byte list \<times> bool) option" where
  "wlanhdr_addrs en a =
     (if check_fwstate (te_fw_state en) WIFI_STATION_STATE
      then Some (SetToDs, te_bssid en, tx_src a, tx_dst a, te_qos_option en \<noteq> 0)
      else if check_fwstate (te_fw_state en) WIFI_AP_STATE
      then Some (SetFrDs, tx_dst a, te_bssid en, tx_src a, tx_qos_en a \<noteq> 0)
      else if check_fwstate (te_fw_state en) WIFI_ADHOC_STATE \<or> check_fwstate (te_fw_state en) WIFI_ADHOC_MASTER_STATE
      then Some ((\<lambda>mem p. Some mem), tx_dst a, tx_src a, te_bssid en, tx_qos_en a \<noteq> 0)
      else None)"

definition set_if :: "bool \<Rightarrow> (byte list \<Rightarrow> int \<Rightarrow> byte list option) \<Rightarrow> byte list \<Rightarrow> int \<Rightarrow> byte list option" where
  "set_if c g mem p = (if c then g mem p else Some mem)"

definition WIFI_DATA_BIT :: byte where "WIFI_DATA_BIT = 8"

definition rtw_make_wlanhdr ::
  "tx_env \<Rightarrow> byte list \<Rightarrow> int \<Rightarrow> tx_attr \<Rightarrow> tx_sta list \<Rightarrow> (status \<times> byte list \<times> tx_attr \<times> tx_sta list) option" where
  "rtw_make_wlanhdr en mem hdr a stas = do {
     mem \<leftarrow> wr_bytes mem hdr (replicate WLANHDR_OFFSET 0);
     mem \<leftarrow> SetFrameSubType (ucast (tx_subtype a)) mem hdr;
     if tx_subtype a AND WIFI_DATA_BIT \<noteq> 0 then
       (case wlanhdr_addrs en a of
          None \<Rightarrow> Some (FAIL, mem, a, stas)
        | Some (setds, a1, a2, a3, qos_option) \<Rightarrow> do {
            mem \<leftarrow> setds mem hdr;
            mem \<leftarrow> wr_bytes mem (hdr + 4) a1;
            mem \<leftarrow> wr_bytes mem (hdr + 10) a2;
            mem \<leftarrow> wr_bytes mem (hdr + 16) a3;
            mem \<leftarrow> set_if (tx_mdata a \<noteq> 0) SetMData mem hdr;
            mem \<leftarrow> set_if (tx_encrypt a \<noteq> 0) SetPrivacy mem hdr;
            mem \<leftarrow> (if qos_option then do {
                      let qc = hdr + uint (tx_hdrlen a) - 2;
                      mem \<leftarrow> set_if (tx_priority a \<noteq> 0) (SetPriority (tx_priority a)) mem qc;
                      mem \<leftarrow> SetEOSP (tx_eosp a) mem qc;
                      SetAckpolicy (tx_ack_policy a) mem qc
                    } else Some mem);
            (case rtw_get_stainfo (te_stapriv en) (Some (tx_ra a)) of
               Inl _ \<Rightarrow> None
             | Inr psta \<Rightarrow>
                 if tx_psta a \<noteq> psta then Some (FAIL, mem, a, stas)
                 else (case psta of
                   None \<Rightarrow> Some (FAIL, mem, a, stas)
                 | Some k \<Rightarrow> do {
                     s \<leftarrow> rd stas (int k);
                     if ts_state s AND WIFI_ASOC_STATE = 0 then Some (FAIL, mem, a, stas)
                     else do {
                       (a, s) \<leftarrow> tx_next_seq a s;
                       mem \<leftarrow> SetSeqNum (tx_seqnum a) mem hdr;
                       Some (SUCCESS, mem, a, stas[k := s])
                     }
                   }))
          })
     else Some (SUCCESS, mem, a, stas)
   }"

section \<open>Fragments\<close>

text \<open>
  One round of \<open>while (1)\<close> starts at \<open>mem_start\<close>, an offset in the buffer at the address
  \<open>base\<close>; \<open>hw\<close> is \<open>hw_hdr_offset\<close>.  A negative \<open>mpdu_len\<close> is converted to \<open>uint\<close>.
\<close>

definition coalesce_iv :: "tx_attr \<Rightarrow> int \<Rightarrow> int \<Rightarrow> byte list \<Rightarrow> (int \<times> int \<times> byte list) option" where
  "coalesce_iv a pframe mpdu_len mem =
     (if tx_iv_len a \<noteq> 0 then do {
        iv \<leftarrow> rd_bytes (tx_iv a) 0 (uint (tx_iv_len a));
        mem \<leftarrow> wr_bytes mem pframe iv;
        Some (pframe + uint (tx_iv_len a), mpdu_len - uint (tx_iv_len a), mem)
      } else Some (pframe, mpdu_len, mem))"

definition coalesce_llc :: "tx_attr \<Rightarrow> int \<Rightarrow> int \<Rightarrow> int \<Rightarrow> byte list \<Rightarrow> (int \<times> int \<times> int \<times> byte list) option" where
  "coalesce_llc a frg_inx pframe mpdu_len mem =
     (if frg_inx = 0 then do {
        mem \<leftarrow> wr_bytes mem pframe (rtw_put_snap (tx_ether_type a));
        Some (8, pframe + 8, mpdu_len - 8, mem)
      } else Some (0, pframe, mpdu_len, mem))"

definition sw_icv :: "tx_attr \<Rightarrow> bool" where
  "sw_icv a \<longleftrightarrow> tx_icv_len a > 0 \<and> tx_bswenc a \<noteq> 0"

definition last_txcmdsz_of :: "tx_attr \<Rightarrow> int \<Rightarrow> int \<Rightarrow> u32" where
  "last_txcmdsz_of a llc_sz mem_sz =
     ucast (tx_hdrlen a) + ucast (tx_iv_len a) + (if nr_frags a = 1 then word_of_int llc_sz else 0) +
     (if tx_bswenc a \<noteq> 0 then ucast (tx_icv_len a) else 0) + word_of_int mem_sz"

partial_function (option) coalesce_loop ::
  "tx_attr \<Rightarrow> nat \<Rightarrow> int \<Rightarrow> int \<Rightarrow> int \<Rightarrow> int \<Rightarrow> pkt_file \<Rightarrow> byte list \<Rightarrow> (tx_attr \<times> byte list) option" where
  "coalesce_loop a base hw frg_len mem_start frg_inx pf mem = do {
     mem \<leftarrow> SetMFrag mem mem_start;
     (pframe, mpdu_len, mem) \<leftarrow> coalesce_iv a (mem_start + uint (tx_hdrlen a)) (frg_len - uint (tx_hdrlen a)) mem;
     (llc_sz, pframe, mpdu_len, mem) \<leftarrow> coalesce_llc a frg_inx pframe mpdu_len mem;
     let mpdu_len = (if sw_icv a then mpdu_len - uint (tx_icv_len a) else mpdu_len);
     let bmcst = Sta_Mgt.is_multicast_ether_addr (tx_ra a);
     let (d, pf) = rtw_pktfile_read pf (if bmcst then tx_pktlen a else word_of_int mpdu_len);
     mem \<leftarrow> wr_bytes mem pframe d;
     let pframe = pframe + int (length d);
     (pframe, mem) \<leftarrow>
       (if sw_icv a then do {
          icv \<leftarrow> rd_bytes (tx_icv a) 0 (uint (tx_icv_len a));
          mem \<leftarrow> wr_bytes mem pframe icv;
          Some (pframe + uint (tx_icv_len a), mem)
        } else Some (pframe, mem));
     let frg_inx = frg_inx + 1;
     if bmcst \<or> rtw_endofpktfile pf then do {
       let a = a\<lparr>nr_frags := word_of_int frg_inx\<rparr>;
       let a = a\<lparr>last_txcmdsz := last_txcmdsz_of a llc_sz (int (length d))\<rparr>;
       mem \<leftarrow> ClearMFrag mem mem_start;
       Some (a, mem)
     } else do {
       let mem_start = int (RND4 (base + nat pframe)) - int base + hw;
       h \<leftarrow> rd_bytes mem hw (uint (tx_hdrlen a));
       mem \<leftarrow> wr_bytes mem mem_start h;
       coalesce_loop a base hw frg_len mem_start frg_inx pf mem
     }
   }"

section \<open>The Michael code\<close>

definition addmic_key :: "tx_env \<Rightarrow> tx_attr \<Rightarrow> byte list option" where
  "addmic_key en a =
     (if Sta_Mgt.is_multicast_ether_addr (tx_ra a) then rd (te_grptxmickey en) (uint (dot118021XGrpKeyid (te_sec en)))
      else Some (tx_tkiptxmickey a))"

definition addmic_header :: "byte list \<Rightarrow> int \<Rightarrow> tx_attr \<Rightarrow> byte list option" where
  "addmic_header mem p a = do {
     fc \<leftarrow> rd mem (p + 1);
     da \<leftarrow> rd_bytes mem (if fc AND 1 \<noteq> 0 then p + 16 else p + 4) 6;
     sa \<leftarrow> rd_bytes mem
       (if fc AND 1 \<noteq> 0 then (if fc AND 2 \<noteq> 0 then p + 24 else p + 10)
        else (if fc AND 2 \<noteq> 0 then p + 16 else p + 10)) 6;
     Some (da @ sa @ [if tx_qos_en a \<noteq> 0 then tx_priority a else 0, 0, 0, 0])
   }"

definition addmic_len :: "u32 \<Rightarrow> tx_attr \<Rightarrow> u32" where
  "addmic_len sz a =
     sz - ucast (tx_hdrlen a) - ucast (tx_iv_len a) - (if tx_bswenc a \<noteq> 0 then ucast (tx_icv_len a) else 0)"

text \<open>The pieces of payload of the \<open>k\<close> fragments left and the position behind the last one.\<close>

fun addmic_loop :: "u32 \<Rightarrow> tx_attr \<Rightarrow> nat \<Rightarrow> nat \<Rightarrow> int \<Rightarrow> byte list \<Rightarrow> (byte list \<times> int) option" where
  "addmic_loop frag_len a base 0 payload mem = Some ([], payload)"
| "addmic_loop frag_len a base (Suc k) payload mem = do {
     let payload = int (RND4 (base + nat payload)) - int base;
     let payload = payload + uint (tx_hdrlen a) + uint (tx_iv_len a);
     let len = uint (addmic_len (if k = 0 then last_txcmdsz a else frag_len) a);
     d \<leftarrow> rd_bytes mem payload len;
     (ds, p) \<leftarrow> addmic_loop frag_len a base k (payload + len + (if k = 0 then 0 else uint (tx_icv_len a))) mem;
     Some (d @ ds, p)
   }"

text \<open>
  \<open>junk\<close> is the uninitialised \<open>micdata\<close>.  The loop with an empty body at the end of the C
  function has no effect and is left out.
\<close>

definition xmitframe_addmic :: "tx_env \<Rightarrow> mic_data \<Rightarrow> tx_frame \<Rightarrow> (status \<times> tx_frame) option" where
  "xmitframe_addmic en junk f =
     (let a = tf_attr f in
      if tx_encrypt a = TKIP_ENCRYPTION then
        (case tf_buf_addr f of
           None \<Rightarrow> None
         | Some base \<Rightarrow> do {
             let pframe = int (hw_hdr_offset (cipher_frame f));
             key \<leftarrow> addmic_key en a;
             k \<leftarrow> rd_bytes key 0 16;
             if k = replicate 16 0 then Some (FAIL, f)
             else do {
               h \<leftarrow> addmic_header (tf_buf f) pframe a;
               (d, payload) \<leftarrow> addmic_loop (te_frag_len en) a base (unat (nr_frags a)) pframe (tf_buf f);
               let (mic, _) = rtw_secgetmic (rtw_secmicappend (rtw_secmicsetkey junk k) (h @ d));
               mem \<leftarrow> wr_bytes (tf_buf f) payload mic;
               Some (SUCCESS, f\<lparr>tf_buf := mem, tf_attr := a\<lparr>last_txcmdsz := last_txcmdsz a + 8\<rparr>\<rparr>)
             }
           })
      else Some (SUCCESS, f))"

section \<open>Software ciphers and protection\<close>

definition xmitframe_swencrypt :: "tx_env \<Rightarrow> tx_frame \<Rightarrow> tx_frame option" where
  "xmitframe_swencrypt en f =
     (let e = tx_encrypt (tf_attr f); xf = cipher_frame f in
      if tx_bswenc (tf_attr f) \<noteq> 0 then
        map_option (\<lambda>xf. f\<lparr>tf_buf := xf_buf xf\<rparr>)
          (if is_wep e then rtw_wep_encrypt (te_sec en) (te_frag_len en) xf
           else if e = TKIP_ENCRYPTION then map_option snd (rtw_tkip_encrypt (te_sec en) (te_frag_len en) xf)
           else if e = AESCCMP_ENCRYPTION then map_option snd (rtw_aes_encrypt (te_sec en) (te_frag_len en) xf)
           else Some xf)
      else Some f)"

definition NONE_VCS :: byte where "NONE_VCS = 0"
definition RTS_CTS :: byte where "RTS_CTS = 1"
definition CTS_TO_SELF :: byte where "CTS_TO_SELF = 2"
definition HT_IOT_PEER_ATHEROS :: byte where "HT_IOT_PEER_ATHEROS = 5"

definition update_attrib_vcs_info :: "tx_env \<Rightarrow> tx_attr \<Rightarrow> tx_attr" where
  "update_attrib_vcs_info en a =
     (let sz = (if nr_frags a \<noteq> 1 then te_frag_len en else last_txcmdsz a);
          big = (sz > ucast (te_rts_thresh en));
          erp = (if tx_rtsen a \<noteq> 0 then RTS_CTS else CTS_TO_SELF);
          op = te_HT_protection en
      in a\<lparr>tx_vcs_mode :=
        (if uint (te_wireless_mode en) < WIRELESS_11_24N then
           (if big then RTS_CTS else if tx_rtsen a \<noteq> 0 \<or> tx_cts2self a \<noteq> 0 then erp else NONE_VCS)
         else if te_assoc_AP_vendor en = HT_IOT_PEER_ATHEROS \<and> tx_ampdu_en a = 1 \<and> te_dot11PrivacyAlgrthm en = ucast AESCCMP_ENCRYPTION
         then CTS_TO_SELF
         else if tx_rtsen a \<noteq> 0 \<or> tx_cts2self a \<noteq> 0 then erp
         else if tx_ht_en a \<noteq> 0 \<and> (te_bwmode en \<noteq> 0 \<and> (op = 2 \<or> op = 3) \<or> te_bwmode en = 0 \<and> op = 3) then RTS_CTS
         else if big then RTS_CTS
         else NONE_VCS)\<rparr>)"

section \<open>\<open>rtw_xmitframe_coalesce\<close>\<close>

definition rtw_xmitframe_coalesce ::
  "tx_env \<Rightarrow> mic_data \<Rightarrow> byte list \<Rightarrow> tx_frame \<Rightarrow> tx_sta list \<Rightarrow> (status \<times> tx_frame \<times> tx_sta list) option" where
  "rtw_xmitframe_coalesce en junk skb f stas =
     (case tf_buf_addr f of
        None \<Rightarrow> Some (FAIL, f, stas)
      | Some base \<Rightarrow> do {
          let hw = int (hw_hdr_offset (cipher_frame f));
          (r, mem, a, stas) \<leftarrow> rtw_make_wlanhdr en (tf_buf f) hw (tf_attr f) stas;
          let f = f\<lparr>tf_buf := mem, tf_attr := a\<rparr>;
          if r = FAIL then Some (FAIL, f, stas)
          else do {
            let (_, pf) = rtw_pktfile_read (rtw_open_pktfile skb) (ucast (tx_pkt_hdrlen a));
            (a, mem) \<leftarrow> coalesce_loop a base hw (sint (te_frag_len en - 4)) hw 0 pf mem;
            let f = f\<lparr>tf_buf := mem, tf_attr := a\<rparr>;
            (r, f) \<leftarrow> xmitframe_addmic en junk f;
            if r = FAIL then Some (FAIL, f, stas)
            else do {
              f \<leftarrow> xmitframe_swencrypt en f;
              let a = tf_attr f;
              let a = (if Sta_Mgt.is_multicast_ether_addr (tx_ra a) then a\<lparr>tx_vcs_mode := NONE_VCS\<rparr> else update_attrib_vcs_info en a);
              Some (SUCCESS, f\<lparr>tf_attr := a\<rparr>, stas)
            }
          }
        })"

section \<open>The header that is built\<close>

definition tx_ds :: "tx_env \<Rightarrow> u16" where
  "tx_ds en = (if check_fwstate (te_fw_state en) WIFI_STATION_STATE then TO_DS
     else if check_fwstate (te_fw_state en) WIFI_AP_STATE then FROM_DS else 0)"

definition tx_fc :: "tx_env \<Rightarrow> tx_attr \<Rightarrow> u16" where
  "tx_fc en a = ucast (tx_subtype a) OR tx_ds en OR (if tx_mdata a \<noteq> 0 then MORE_DATA else 0) OR (if tx_encrypt a \<noteq> 0 then PRIVACY else 0)"

definition tx_qc :: "tx_attr \<Rightarrow> u16" where
  "tx_qc a = (ucast (tx_priority a) AND 0x000f) OR push_bit 4 (ucast (tx_eosp a) AND 1) OR push_bit 5 (ucast (tx_ack_policy a) AND 3)"

lemma wlanhdr_addrs_ds:
  assumes "wlanhdr_addrs en a = Some (sd, a1, a2, a3, q)" and "hdr3_ok dur b1 b2 b3" and "p = int (length pre)"
  shows "sd (pre @ hdr3 fc dur b1 b2 b3 sc @ post) p = Some (pre @ hdr3 (fc OR tx_ds en) dur b1 b2 b3 sc @ post)"
  using assms by (auto simp: wlanhdr_addrs_def tx_ds_def SetToDs_def SetFrDs_def hdr3_upd(1) split: if_splits)

lemma set_if_at:
  "hdr3_ok dur b1 b2 b3 \<Longrightarrow> p = int (length pre) \<Longrightarrow>
   set_if c (upd16 (\<lambda>v. v OR m)) (pre @ hdr3 fc dur b1 b2 b3 sc @ post) p =
     Some (pre @ hdr3 (fc OR (if c then m else 0)) dur b1 b2 b3 sc @ post)"
  by (simp add: set_if_def hdr3_upd(1))

lemma set_qos_at:
  assumes "hdr3_ok dur b1 b2 b3" and "p = int (length pre)" and h: "h = pre @ hdr3 fc dur b1 b2 b3 sc"
  shows "do { mem \<leftarrow> set_if (tx_priority a \<noteq> 0) (SetPriority (tx_priority a)) (h @ put16 0 @ post) (p + 24);
              mem \<leftarrow> SetEOSP (tx_eosp a) mem (p + 24);
              SetAckpolicy (tx_ack_policy a) mem (p + 24) } = Some (h @ put16 (tx_qc a) @ post)"
proof -
  have n: "p + 24 = int (length h)" using assms(1,2) by (simp add: h length_hdr3)
  note u = upd16_at [OF n, of _ _ post]
  show ?thesis
    by (simp add: set_if_def SetPriority_def SetEOSP_def SetAckpolicy_def u tx_qc_def or.assoc)
qed

lemma seqnum_bits: "0xfff0 AND push_bit 4 n = (push_bit 4 n :: u16)"
proof -
  have m: "(0xfff0 :: u16) = NOT (mask 4)" by (simp add: mask_eq_exp_minus_1)
  show ?thesis unfolding m by (rule bit_word_eqI) (auto simp: bit_simps)
qed

lemma make_wlanhdr_ok:
  assumes addrs: "wlanhdr_addrs en a = Some (sd, a1, a2, a3, q)" and l: "length a1 = 6" "length a2 = 6" "length a3 = 6"
    and "tx_subtype a AND WIFI_DATA_BIT \<noteq> 0" and q: "q \<Longrightarrow> tx_hdrlen a = 26"
    and sta: "rtw_get_stainfo (te_stapriv en) (Some (tx_ra a)) = Inr (Some k)" "tx_psta a = Some k" "k < length stas"
    and "ts_state (stas ! k) AND WIFI_ASOC_STATE \<noteq> 0" and seq: "tx_next_seq a (stas ! k) = Some (a', s')"
    and "length old = 64"
  shows "rtw_make_wlanhdr en (pre @ old @ post) (int (length pre)) a stas =
    Some (SUCCESS, pre @ hdr3 (tx_fc en a) [0, 0] a1 a2 a3 (push_bit 4 (tx_seqnum a')) @ put16 (if q then tx_qc a else 0) @ replicate 38 0 @ post,
      a', stas[k := s'])"
proof -
  let ?p = "int (length pre)" and ?z = "replicate 6 0 :: byte list" and ?R = "replicate 38 0 @ post"
  let ?t = "ucast (tx_subtype a) :: u16"
  have z: "replicate WLANHDR_OFFSET 0 = hdr3 0 [0, 0] ?z ?z ?z 0 @ put16 0 @ replicate 38 0"
    unfolding replicate_zero_hdr3 [symmetric] by (simp add: WLANHDR_OFFSET_def put16_def numeral_eq_Suc)
  have w0: "wr_bytes (pre @ old @ post) ?p (replicate WLANHDR_OFFSET 0) = Some (pre @ hdr3 0 [0, 0] ?z ?z ?z 0 @ put16 0 @ ?R)"
    using wr_bytes_at [of ?p pre old "replicate WLANHDR_OFFSET 0" post] assms(12) unfolding z
    by (simp add: length_hdr3 hdr3_ok_def)
  have ok: "hdr3_ok [0, 0] x y w" if "length x = 6" "length y = 6" "length w = 6" for x y w using that by (simp add: hdr3_ok_def)
  have ok0: "hdr3_ok [0, 0] ?z ?z ?z" "hdr3_ok [0, 0] a1 ?z ?z" "hdr3_ok [0, 0] a1 a2 ?z" "hdr3_ok [0, 0] a1 a2 a3"
    using l by (simp_all add: ok)
  note steps = wlanhdr_addrs_ds [OF addrs ok0(1) refl] hdr3_wr(1) [OF ok0(1) refl l(1)] hdr3_wr(2) [OF ok0(2) refl l(2)]
    hdr3_wr(3) [OF ok0(3) refl l(3)] set_if_at [OF ok0(4) refl] hdr3_upd [OF ok0(4) refl] hdr3_upd(1) [OF ok0(1) refl]
  have fc: "?t OR tx_ds en OR (if tx_mdata a \<noteq> 0 then MORE_DATA else 0) OR (if tx_encrypt a \<noteq> 0 then PRIVACY else 0) = tx_fc en a"
    by (simp add: tx_fc_def)
  let ?h = "hdr3 (tx_fc en a) [0, 0] a1 a2 a3 0"
  have q26: "q \<Longrightarrow> ?p + uint (tx_hdrlen a) - 2 = ?p + 24" using q by simp
  have qos: "(if q then do { let qc = ?p + uint (tx_hdrlen a) - 2;
          mem \<leftarrow> set_if (tx_priority a \<noteq> 0) (SetPriority (tx_priority a)) (pre @ ?h @ put16 0 @ ?R) qc;
          mem \<leftarrow> SetEOSP (tx_eosp a) mem qc; SetAckpolicy (tx_ack_policy a) mem qc } else Some (pre @ ?h @ put16 0 @ ?R)) =
      Some (pre @ ?h @ put16 (if q then tx_qc a else 0) @ ?R)"
    using set_qos_at [OF ok0(4) refl refl, where a = a and fc = "tx_fc en a" and sc = 0 and post = ?R] q26 by (cases q) (simp_all add: Let_def add.commute)
  show ?thesis
    unfolding rtw_make_wlanhdr_def w0 SetFrameSubType_def SetMData_def SetPrivacy_def SetSeqNum_def
    using assms(5,10) addrs sta seq qos
    by (simp add: steps fc seqnum_bits rd_nat or.assoc split del: if_split)
qed

lemma rd_uint: "unat w < length xs \<Longrightarrow> rd xs (uint w) = Some (xs ! unat w)"
  using rd_nat [of "unat w" xs] by simp

lemma tx_recheck_ampdu_ok:
  assumes "length (BA_starting_seqctrl s) = 16"
  shows "\<exists>e s'. tx_recheck_ampdu a s = Some (a\<lparr>tx_ampdu_en := e\<rparr>, s') \<and> txseq_tid s' = txseq_tid s \<and> length (BA_starting_seqctrl s') = 16"
proof (cases "tx_ampdu_en a = 1")
  case True
  have "unat (tx_priority a AND 15) < 16" using word_and_le1 [of "tx_priority a" 15] by (simp add: word_le_nat_alt)
  then have "rd (BA_starting_seqctrl s) (uint (tx_priority a AND 15)) = Some (BA_starting_seqctrl s ! unat (tx_priority a AND 15))"
    using assms by (simp add: rd_uint)
  then show ?thesis using True assms by (auto simp: tx_recheck_ampdu_def Let_def)
next
  case False
  then have "tx_recheck_ampdu a s = Some (a\<lparr>tx_ampdu_en := tx_ampdu_en a\<rparr>, s)" by (simp add: tx_recheck_ampdu_def)
  then show ?thesis using assms by blast
qed

lemma tx_next_seq_ok:
  assumes "length (txseq_tid s) = 16" and "length (BA_starting_seqctrl s) = 16" and "tx_priority a < 16"
  defines "n \<equiv> (txseq_tid s ! unat (tx_priority a) + 1) AND 0xFFF"
  shows "\<exists>e s'. tx_next_seq a s = Some (a\<lparr>tx_seqnum := n, tx_ampdu_en := e\<rparr>, s') \<and>
    txseq_tid s' = (txseq_tid s)[unat (tx_priority a) := n] \<and> length (BA_starting_seqctrl s') = 16"
proof -
  have r: "rd (txseq_tid s) (uint (tx_priority a)) = Some (txseq_tid s ! unat (tx_priority a))"
    using assms(1,3) by (intro rd_uint) (simp add: word_less_nat_alt)
  define s1 where "s1 = s\<lparr>txseq_tid := (txseq_tid s)[unat (tx_priority a) := n]\<rparr>"
  obtain c where c: "tx_next_seq a s = tx_recheck_ampdu c s1" "\<And>e. c\<lparr>tx_ampdu_en := e\<rparr> = a\<lparr>tx_seqnum := n, tx_ampdu_en := e\<rparr>"
    unfolding tx_next_seq_def Let_def of_nat_unat r Option.bind.bind_lunit n_def [symmetric] s1_def [symmetric] by fastforce
  show ?thesis unfolding c(1) using tx_recheck_ampdu_ok [of s1 c] assms(2) c(2) by (simp add: s1_def)
qed

section \<open>One fragment\<close>

lemma length_append_split: "length xs = m + n \<Longrightarrow> \<exists>ys zs. xs = ys @ zs \<and> length ys = m \<and> length zs = n"
  by (intro exI [of _ "take m xs"] exI [of _ "drop m xs"]) simp

definition pktfile_ok :: "pkt_file \<Rightarrow> bool" where
  "pktfile_ok pf \<longleftrightarrow> pf_cur pf + pf_pkt_len pf = length (pf_skb pf) \<and> length (pf_skb pf) < 2 ^ 31"

definition pf_rest :: "pkt_file \<Rightarrow> byte list" where
  "pf_rest pf = drop (pf_cur pf) (pf_skb pf)"

lemma pktfile_read:
  assumes "pktfile_ok pf"
  obtains pf' where "rtw_pktfile_read pf n = (take (unat n) (pf_rest pf), pf')" and "pktfile_ok pf'"
    and "pf_rest pf' = drop (unat n) (pf_rest pf)" and "rtw_endofpktfile pf' \<longleftrightarrow> length (pf_rest pf) \<le> unat n"
proof -
  let ?r = "rtw_remainder_len pf"
  have "int (length (pf_skb pf)) - int (pf_cur pf) = int (pf_pkt_len pf)" using assms by (simp add: pktfile_ok_def)
  then have r: "unat ?r = pf_pkt_len pf"
    using assms by (simp add: rtw_remainder_len_def pktfile_ok_def unat_of_nat take_bit_nat_eq_self)
  define l where "l = min (unat n) (pf_pkt_len pf)"
  have l: "unat (if n > ?r then ?r else n) = l" using r by (simp add: l_def word_less_nat_alt)
  have c: "length (pf_skb pf) - pf_pkt_len pf = pf_cur pf" "length (pf_rest pf) = pf_pkt_len pf"
    using assms by (auto simp: pktfile_ok_def pf_rest_def)
  have t: "take l (pf_rest pf) = take (unat n) (pf_rest pf)" "drop l (pf_rest pf) = drop (unat n) (pf_rest pf)"
    using c(2) by (simp_all add: l_def min_def)
  show thesis
  proof (rule that)
    show "rtw_pktfile_read pf n = (take (unat n) (pf_rest pf), pf\<lparr>pf_cur := pf_cur pf + l, pf_pkt_len := pf_pkt_len pf - l\<rparr>)"
      unfolding rtw_pktfile_read_def Let_def l c(1) using t(1) by (simp add: pf_rest_def)
    show "pktfile_ok (pf\<lparr>pf_cur := pf_cur pf + l, pf_pkt_len := pf_pkt_len pf - l\<rparr>)"
      using assms by (simp add: pktfile_ok_def l_def)
    show "pf_rest (pf\<lparr>pf_cur := pf_cur pf + l, pf_pkt_len := pf_pkt_len pf - l\<rparr>) = drop (unat n) (pf_rest pf)"
      using t(2) by (simp add: pf_rest_def add.commute)
    show "rtw_endofpktfile (pf\<lparr>pf_cur := pf_cur pf + l, pf_pkt_len := pf_pkt_len pf - l\<rparr>) \<longleftrightarrow> length (pf_rest pf) \<le> unat n"
      using c(2) by (auto simp: rtw_endofpktfile_def l_def)
  qed
qed

lemma mfrag_clear: "fc AND MORE_FRAG = 0 \<Longrightarrow> (fc OR MORE_FRAG) AND NOT MORE_FRAG = (fc :: u16)"
proof (rule bit_word_eqI)
  fix n assume "fc AND MORE_FRAG = 0" "n < LENGTH(16)"
  moreover have "bit (fc AND MORE_FRAG) n \<longleftrightarrow> bit fc n \<and> bit MORE_FRAG n" by (simp add: bit_simps)
  ultimately show "bit ((fc OR MORE_FRAG) AND NOT MORE_FRAG) n = bit fc n" by (auto simp: bit_simps)
qed

lemma length_snap_hdr [simp]: "length (rtw_put_snap t) = 8"
  by (simp add: rtw_put_snap_def P802_1H_OUI_def RFC1042_OUI_def)

lemma coalesce_iv_at:
  assumes "p = int (length pre)" and "length old = unat (tx_iv_len a)" and "unat (tx_iv_len a) \<le> length (tx_iv a)"
  shows "coalesce_iv a p m (pre @ old @ post) =
    Some (p + uint (tx_iv_len a), m - uint (tx_iv_len a), pre @ take (unat (tx_iv_len a)) (tx_iv a) @ post)"
proof -
  have "rd_bytes (tx_iv a) 0 (uint (tx_iv_len a)) = Some (take (unat (tx_iv_len a)) (tx_iv a))"
    using rd_bytes_nat [of 0 "unat (tx_iv_len a)" "tx_iv a"] assms(3) by simp
  then show ?thesis using assms wr_bytes_at [of p pre old "take (unat (tx_iv_len a)) (tx_iv a)" post]
    by (auto simp: coalesce_iv_def)
qed

lemma coalesce_llc_at:
  "p = int (length pre) \<Longrightarrow> length old = 8 \<Longrightarrow>
   coalesce_llc a 0 p m (pre @ old @ post) = Some (8, p + 8, m - 8, pre @ rtw_put_snap (tx_ether_type a) @ post)"
  by (simp add: coalesce_llc_def wr_bytes_at)

definition tx_trailer :: "tx_attr \<Rightarrow> byte list" where
  "tx_trailer a = (if sw_icv a then take (unat (tx_icv_len a)) (tx_icv a) else [])"

lemma coalesce_icv_at:
  assumes "p = int (length pre)" and "length old = (if sw_icv a then unat (tx_icv_len a) else 0)" and "unat (tx_icv_len a) \<le> length (tx_icv a)"
  shows "(if sw_icv a then do { icv \<leftarrow> rd_bytes (tx_icv a) 0 (uint (tx_icv_len a)); mem \<leftarrow> wr_bytes (pre @ old @ post) p icv; Some (p + uint (tx_icv_len a), mem) }
     else Some (p, pre @ old @ post)) = Some (p + int (length old), pre @ tx_trailer a @ post)"
proof -
  have "rd_bytes (tx_icv a) 0 (uint (tx_icv_len a)) = Some (take (unat (tx_icv_len a)) (tx_icv a))"
    using rd_bytes_nat [of 0 "unat (tx_icv_len a)" "tx_icv a"] assms(3) by simp
  then show ?thesis using assms wr_bytes_at [of p pre old "tx_trailer a" post]
    by (auto simp: tx_trailer_def)
qed

text \<open>
  A packet that fits into one fragment, or goes to a group: behind the header come the IV, the
  LLC header, the packet and room for the ICV.
\<close>

definition tx_payload :: "tx_attr \<Rightarrow> byte list \<Rightarrow> byte list" where
  "tx_payload a d = take (unat (tx_iv_len a)) (tx_iv a) @ rtw_put_snap (tx_ether_type a) @ d @ tx_trailer a"

definition fits_one :: "tx_attr \<Rightarrow> int \<Rightarrow> nat \<Rightarrow> bool" where
  "fits_one a frg_len n \<longleftrightarrow>
     (if Sta_Mgt.is_multicast_ether_addr (tx_ra a) then unat (tx_pktlen a) = n
      else uint (tx_hdrlen a) + uint (tx_iv_len a) + 8 + int n + (if sw_icv a then uint (tx_icv_len a) else 0) \<le> frg_len \<and> frg_len < 2 ^ 31)"

lemma coalesce_one:
  assumes H: "uint (tx_hdrlen a) = int (length (put16 fc @ H))" and fc: "fc AND MORE_FRAG = 0"
    and iv: "unat (tx_iv_len a) \<le> length (tx_iv a)" and icv: "unat (tx_icv_len a) \<le> length (tx_icv a)"
    and pf: "pktfile_ok pf" and n: "fits_one a frg_len (length (pf_rest pf))"
    and room: "length room = length (tx_payload a (pf_rest pf))"
  shows "coalesce_loop a base (int (length pre)) frg_len (int (length pre)) 0 pf (pre @ (put16 fc @ H) @ room @ post) =
    Some (a\<lparr>nr_frags := 1, last_txcmdsz := last_txcmdsz_of (a\<lparr>nr_frags := 1\<rparr>) 8 (int (length (pf_rest pf)))\<rparr>,
      pre @ (put16 fc @ H) @ tx_payload a (pf_rest pf) @ post)"
proof -
  let ?p = "int (length pre)" and ?D = "pf_rest pf" and ?mc = "Sta_Mgt.is_multicast_ether_addr (tx_ra a)"
  let ?I = "take (unat (tx_iv_len a)) (tx_iv a)" and ?S = "rtw_put_snap (tx_ether_type a)"
  let ?ic = "if sw_icv a then unat (tx_icv_len a) else 0"
  have lr: "length room = unat (tx_iv_len a) + (8 + (length ?D + ?ic))"
    using room iv icv by (simp add: tx_payload_def tx_trailer_def)
  obtain o1 r1 where o1: "room = o1 @ r1" "length o1 = unat (tx_iv_len a)" "length r1 = 8 + (length ?D + ?ic)"
    using length_append_split [OF lr] by blast
  obtain o2 r2 where o2: "r1 = o2 @ r2" "length o2 = 8" "length r2 = length ?D + ?ic" using length_append_split [OF o1(3)] by blast
  obtain o3 o4 where o3: "r2 = o3 @ o4" "length o3 = length ?D" "length o4 = ?ic" using length_append_split [OF o2(3)] by blast
  define m where "m = frg_len - uint (tx_hdrlen a) - uint (tx_iv_len a) - 8 - int ?ic"
  have big: "length ?D \<le> unat (if ?mc then tx_pktlen a else word_of_int m)"
  proof (cases ?mc)
    case True
    then show ?thesis using n by (simp add: fits_one_def)
  next
    case False
    have u: "int ?ic = (if sw_icv a then uint (tx_icv_len a) else 0)" by simp
    note ge = uint_ge_0 [of "tx_hdrlen a"] uint_ge_0 [of "tx_iv_len a"] uint_ge_0 [of "tx_icv_len a"]
    have "int (length ?D) \<le> m" using n False unfolding fits_one_def m_def u by simp
    moreover have "m < 2 ^ 31" using n False ge unfolding fits_one_def m_def u by (simp, linarith)
    ultimately show ?thesis using False by (simp add: unsigned_of_int take_bit_int_eq_self)
  qed
  obtain pf' where rdp: "rtw_pktfile_read pf (if ?mc then tx_pktlen a else word_of_int m) = (?D, pf')" "rtw_endofpktfile pf'"
    using pktfile_read [OF pf, of "if ?mc then tx_pktlen a else word_of_int m"] big by (metis take_all)
  let ?h = "put16 (fc OR MORE_FRAG) @ H"
  have s1: "SetMFrag (pre @ (put16 fc @ H) @ room @ post) ?p = Some (pre @ ?h @ room @ post)"
    using upd16_at [of ?p pre _ fc "H @ room @ post"] by (simp add: SetMFrag_def)
  have s2: "coalesce_iv a (?p + uint (tx_hdrlen a)) (frg_len - uint (tx_hdrlen a)) (pre @ ?h @ room @ post) =
      Some (?p + uint (tx_hdrlen a) + uint (tx_iv_len a), frg_len - uint (tx_hdrlen a) - uint (tx_iv_len a), (pre @ ?h @ ?I) @ o2 @ o3 @ o4 @ post)"
    using coalesce_iv_at [of "?p + uint (tx_hdrlen a)" "pre @ ?h" o1 a "frg_len - uint (tx_hdrlen a)" "o2 @ o3 @ o4 @ post"] H iv o1 o2(1) o3(1)
    by simp
  have s3: "coalesce_llc a 0 (?p + uint (tx_hdrlen a) + uint (tx_iv_len a)) (frg_len - uint (tx_hdrlen a) - uint (tx_iv_len a)) ((pre @ ?h @ ?I) @ o2 @ o3 @ o4 @ post) =
      Some (8, ?p + uint (tx_hdrlen a) + uint (tx_iv_len a) + 8, frg_len - uint (tx_hdrlen a) - uint (tx_iv_len a) - 8, (pre @ ?h @ ?I @ ?S) @ o3 @ o4 @ post)"
    using coalesce_llc_at [of "?p + uint (tx_hdrlen a) + uint (tx_iv_len a)" "pre @ ?h @ ?I" o2] H iv o2(2) by simp
  have s4: "wr_bytes ((pre @ ?h @ ?I @ ?S) @ o3 @ o4 @ post) (?p + uint (tx_hdrlen a) + uint (tx_iv_len a) + 8) ?D =
      Some ((pre @ ?h @ ?I @ ?S @ ?D) @ o4 @ post)"
    using wr_bytes_at [of "?p + uint (tx_hdrlen a) + uint (tx_iv_len a) + 8" "pre @ ?h @ ?I @ ?S" o3 ?D "o4 @ post"] H iv o3(2) by simp
  have s5: "(if sw_icv a then do { icv \<leftarrow> rd_bytes (tx_icv a) 0 (uint (tx_icv_len a));
        mem \<leftarrow> wr_bytes ((pre @ ?h @ ?I @ ?S @ ?D) @ o4 @ post) (?p + uint (tx_hdrlen a) + uint (tx_iv_len a) + 8 + int (length ?D)) icv;
        Some (?p + uint (tx_hdrlen a) + uint (tx_iv_len a) + 8 + int (length ?D) + uint (tx_icv_len a), mem) }
      else Some (?p + uint (tx_hdrlen a) + uint (tx_iv_len a) + 8 + int (length ?D), (pre @ ?h @ ?I @ ?S @ ?D) @ o4 @ post)) =
      Some (?p + uint (tx_hdrlen a) + uint (tx_iv_len a) + 8 + int (length ?D) + int (length o4), (pre @ ?h @ ?I @ ?S @ ?D) @ tx_trailer a @ post)"
    using o3(3) icv iv H by (intro coalesce_icv_at) simp_all
  have s6: "ClearMFrag ((pre @ ?h @ ?I @ ?S @ ?D) @ tx_trailer a @ post) ?p = Some (pre @ (put16 fc @ H) @ tx_payload a ?D @ post)"
    using upd16_at [of ?p pre "\<lambda>v. v AND NOT MORE_FRAG" "fc OR MORE_FRAG" "H @ ?I @ ?S @ ?D @ tx_trailer a @ post"]
    by (simp add: ClearMFrag_def mfrag_clear [OF fc] tx_payload_def)
  have m: "(if sw_icv a then frg_len - uint (tx_hdrlen a) - uint (tx_iv_len a) - 8 - uint (tx_icv_len a)
      else frg_len - uint (tx_hdrlen a) - uint (tx_iv_len a) - 8) = m" by (simp add: m_def)
  show ?thesis
    apply (subst coalesce_loop.simps)
    unfolding s1 Option.bind.bind_lunit s2 prod.case s3 Let_def m rdp s4 s5 s6
    using rdp(2) s6 by simp
qed

section \<open>The frame on the air\<close>

text \<open>
  A data frame to a linked station of the table: \<open>tx_ready\<close> is what \<open>update_attrib\<close> leaves behind.
\<close>

definition tx_ready :: "tx_env \<Rightarrow> tx_attr \<Rightarrow> tx_sta list \<Rightarrow> nat \<Rightarrow> bool" where
  "tx_ready en a stas k \<longleftrightarrow>
     length (te_bssid en) = 6 \<and> length (tx_dst a) = 6 \<and> length (tx_src a) = 6 \<and>
     (case wlanhdr_addrs en a of None \<Rightarrow> False | Some (_, _, _, _, q) \<Rightarrow> tx_hdrlen a = (if q then 26 else 24) \<and> tx_subtype a = (if q then 0x88 else 0x08)) \<and>
     rtw_get_stainfo (te_stapriv en) (Some (tx_ra a)) = Inr (Some k) \<and> tx_psta a = Some k \<and> k < length stas \<and>
     ts_state (stas ! k) AND WIFI_ASOC_STATE \<noteq> 0 \<and> length (txseq_tid (stas ! k)) = 16 \<and>
     length (BA_starting_seqctrl (stas ! k)) = 16 \<and> tx_priority a < 16"

definition next_seq :: "tx_attr \<Rightarrow> tx_sta \<Rightarrow> u16" where
  "next_seq a s = (txseq_tid s ! unat (tx_priority a) + 1) AND 0xFFF"

definition tx_header :: "tx_env \<Rightarrow> tx_attr \<Rightarrow> u16 \<Rightarrow> byte list" where
  "tx_header en a n =
     (case wlanhdr_addrs en a of
        None \<Rightarrow> []
      | Some (_, a1, a2, a3, q) \<Rightarrow> hdr3 (tx_fc en a) [0, 0] a1 a2 a3 (push_bit 4 n) @ (if q then put16 (tx_qc a) else []))"

lemma tx_fc_no_mfrag: "tx_subtype a = 0x08 \<or> tx_subtype a = 0x88 \<Longrightarrow> tx_fc en a AND MORE_FRAG = 0"
  by (auto simp: tx_fc_def tx_ds_def MORE_FRAG_def TO_DS_def FROM_DS_def MORE_DATA_def PRIVACY_def bit.conj_disj_distrib2)

lemma coalesce_header:
  assumes "tx_ready en a stas k" and "length old = 64"
  obtains e s' H where
    "rtw_make_wlanhdr en (pre @ old @ post) (int (length pre)) a stas =
       Some (SUCCESS, pre @ tx_header en a (next_seq a (stas ! k)) @ drop (unat (tx_hdrlen a)) (replicate 64 0) @ post,
         a\<lparr>tx_seqnum := next_seq a (stas ! k), tx_ampdu_en := e\<rparr>, stas[k := s'])"
    and "tx_header en a (next_seq a (stas ! k)) = put16 (tx_fc en a) @ H"
    and "length (tx_header en a (next_seq a (stas ! k))) = unat (tx_hdrlen a)"
    and "txseq_tid s' = (txseq_tid (stas ! k))[unat (tx_priority a) := next_seq a (stas ! k)]"
proof -
  let ?n = "next_seq a (stas ! k)"
  obtain sd a1 a2 a3 q where ad: "wlanhdr_addrs en a = Some (sd, a1, a2, a3, q)" and hl: "tx_hdrlen a = (if q then 26 else 24)"
      and st: "tx_subtype a = (if q then 0x88 else 0x08)"
    using assms(1) by (auto simp: tx_ready_def split: option.splits)
  have l: "length a1 = 6" "length a2 = 6" "length a3 = 6"
    using ad assms(1) by (auto simp: wlanhdr_addrs_def tx_ready_def split: if_splits)
  obtain e s' where ns: "tx_next_seq a (stas ! k) = Some (a\<lparr>tx_seqnum := ?n, tx_ampdu_en := e\<rparr>, s')"
      "txseq_tid s' = (txseq_tid (stas ! k))[unat (tx_priority a) := ?n]"
    using tx_next_seq_ok [of "stas ! k" a] assms(1) by (auto simp: tx_ready_def next_seq_def)
  have h: "tx_header en a ?n = hdr3 (tx_fc en a) [0, 0] a1 a2 a3 (push_bit 4 ?n) @ (if q then put16 (tx_qc a) else [])"
    by (simp add: tx_header_def ad)
  have z0: "put16 0 @ replicate 38 0 = replicate 40 (0 :: byte)" by (simp add: put16_def numeral_eq_Suc)
  have z: "put16 (if q then tx_qc a else 0) @ replicate 38 0 = (if q then put16 (tx_qc a) else []) @ drop (unat (tx_hdrlen a)) (replicate 64 0)"
    using z0 by (cases q) (simp_all add: hl)
  have mk: "rtw_make_wlanhdr en (pre @ old @ post) (int (length pre)) a stas =
      Some (SUCCESS, pre @ hdr3 (tx_fc en a) [0, 0] a1 a2 a3 (push_bit 4 ?n) @ put16 (if q then tx_qc a else 0) @ replicate 38 0 @ post,
        a\<lparr>tx_seqnum := ?n, tx_ampdu_en := e\<rparr>, stas[k := s'])"
    using make_wlanhdr_ok [OF ad l, of k stas _ s' old pre post] ns(1) assms hl st
    by (auto simp: tx_ready_def WIFI_DATA_BIT_def)
  show thesis
  proof (rule that [OF _ _ _ ns(2)])
    show "rtw_make_wlanhdr en (pre @ old @ post) (int (length pre)) a stas =
       Some (SUCCESS, pre @ tx_header en a ?n @ drop (unat (tx_hdrlen a)) (replicate 64 0) @ post,
         a\<lparr>tx_seqnum := ?n, tx_ampdu_en := e\<rparr>, stas[k := s'])"
      using mk z unfolding h by (metis append.assoc)
    show "tx_header en a ?n = put16 (tx_fc en a) @ ([0, 0] @ a1 @ a2 @ a3 @ put16 (push_bit 4 ?n) @ (if q then put16 (tx_qc a) else []))"
      by (simp add: h hdr3_def)
    show "length (tx_header en a ?n) = unat (tx_hdrlen a)"
      using hl l by (simp add: h length_hdr3 hdr3_ok_def)
  qed
qed

lemma sw_icv_off: "tx_bswenc a = 0 \<Longrightarrow> \<not> sw_icv a"
  by (simp add: sw_icv_def)

lemma last_txcmdsz_one:
  assumes "tx_bswenc a = 0" and "nr_frags a = 1" and "n < 2 ^ 31"
  shows "unat (last_txcmdsz_of a 8 (int n)) = unat (tx_hdrlen a) + unat (tx_iv_len a) + 8 + n"
proof -
  let ?m = "unat (tx_hdrlen a) + unat (tx_iv_len a) + 8 + n"
  have e: "last_txcmdsz_of a 8 (int n) = of_nat ?m"
    using assms(1,2) by (simp add: last_txcmdsz_of_def)
  have "?m < 2 ^ LENGTH(32)"
    using assms(3) unsigned_less [of "tx_hdrlen a", where ?'a = nat] unsigned_less [of "tx_iv_len a", where ?'a = nat] by simp
  then show ?thesis unfolding e unat_of_nat by (rule mod_less)
qed

text \<open>
  An Ethernet frame whose payload fits into one fragment is turned into one 802.11 frame: the
  header with the addresses and flags of the interface's state and the next sequence number of
  the queue, the IV, the LLC header for the Ethernet type, and the payload.
\<close>

lemma coalesce_frame:
  assumes "tx_ready en (tf_attr f) stas k" and "tf_buf_addr f = Some base"
    and "tx_bswenc (tf_attr f) = 0" and "tx_encrypt (tf_attr f) \<noteq> TKIP_ENCRYPTION"
    and "unat (tx_iv_len (tf_attr f)) \<le> length (tx_iv (tf_attr f))" and "unat (tx_icv_len (tf_attr f)) \<le> length (tx_icv (tf_attr f))"
    and "length eth_hdr = 14" and "tx_pkt_hdrlen (tf_attr f) = 14" and "length eth_hdr + length payload < 2 ^ 31"
    and "fits_one (tf_attr f) (sint (te_frag_len en - 4)) (length payload)"
    and "hw_hdr_offset (cipher_frame f) + max 64 (unat (tx_hdrlen (tf_attr f)) + unat (tx_iv_len (tf_attr f)) + 8 + length payload) \<le> length (tf_buf f)"
  shows "\<exists>f' stas'. rtw_xmitframe_coalesce en junk (eth_hdr @ payload) f stas = Some (SUCCESS, f', stas') \<and>
    air_fragments (te_frag_len en) (cipher_frame f') =
      [tx_header en (tf_attr f) (next_seq (tf_attr f) (stas ! k)) @ take (unat (tx_iv_len (tf_attr f))) (tx_iv (tf_attr f)) @
       rtw_put_snap (tx_ether_type (tf_attr f)) @ payload] \<and>
    txseq_tid (stas' ! k) = (txseq_tid (stas ! k))[unat (tx_priority (tf_attr f)) := next_seq (tf_attr f) (stas ! k)]"
proof -
  let ?a = "tf_attr f" and ?n = "next_seq (tf_attr f) (stas ! k)"
  define hw where "hw = hw_hdr_offset (cipher_frame f)"
  define pre where "pre = take hw (tf_buf f)"
  define old where "old = take 64 (drop hw (tf_buf f))"
  define post where "post = drop (hw + 64) (tf_buf f)"
  let ?hl = "unat (tx_hdrlen ?a)"
  have room: "hw + 64 \<le> length (tf_buf f)" "hw + (?hl + unat (tx_iv_len ?a) + 8 + length payload) \<le> length (tf_buf f)"
    using assms(11) by (simp_all add: hw_def)
  have buf: "tf_buf f = pre @ old @ post" "length pre = hw" "length old = 64"
    using room(1) by (simp_all add: pre_def old_def post_def flip: append_assoc) (metis append_take_drop_id add.commute drop_drop take_add)
  obtain e s' H where mk: "rtw_make_wlanhdr en (pre @ old @ post) (int (length pre)) ?a stas =
       Some (SUCCESS, pre @ tx_header en ?a ?n @ drop ?hl (replicate 64 0) @ post, ?a\<lparr>tx_seqnum := ?n, tx_ampdu_en := e\<rparr>, stas[k := s'])"
    and H: "tx_header en ?a ?n = put16 (tx_fc en ?a) @ H" "length (tx_header en ?a ?n) = ?hl"
    and s': "txseq_tid s' = (txseq_tid (stas ! k))[unat (tx_priority ?a) := ?n]"
    using coalesce_header [OF assms(1) buf(3)] by blast
  define a1 where "a1 = ?a\<lparr>tx_seqnum := ?n, tx_ampdu_en := e\<rparr>"
  have off: "\<not> sw_icv a1" "\<not> sw_icv ?a" using assms(3) by (simp_all add: a1_def sw_icv_def)
  let ?P = "tx_payload a1 payload"
  have P: "?P = take (unat (tx_iv_len ?a)) (tx_iv ?a) @ rtw_put_snap (tx_ether_type ?a) @ payload" "length ?P = unat (tx_iv_len ?a) + 8 + length payload"
    using off assms(5) by (simp_all add: tx_payload_def tx_trailer_def a1_def)
  obtain pf where pf: "rtw_pktfile_read (rtw_open_pktfile (eth_hdr @ payload)) (ucast (tx_pkt_hdrlen a1)) = (eth_hdr, pf)"
      "pktfile_ok pf" "pf_rest pf = payload"
  proof -
    have "pktfile_ok (rtw_open_pktfile (eth_hdr @ payload))" "pf_rest (rtw_open_pktfile (eth_hdr @ payload)) = eth_hdr @ payload"
      using assms(9) by (simp_all add: pktfile_ok_def rtw_open_pktfile_def pf_rest_def)
    moreover have "unat (ucast (tx_pkt_hdrlen a1) :: u32) = length eth_hdr" using assms(7,8) by (simp add: a1_def)
    ultimately show ?thesis using that by (metis pktfile_read append_eq_conv_conj)
  qed
  obtain rm rest where rm: "drop ?hl (replicate 64 0) @ post = rm @ rest" "length rm = length ?P"
  proof -
    have "length (drop ?hl (replicate 64 0) @ post) = length ?P + (length (tf_buf f) - hw - ?hl - length ?P)"
      using room P(2) buf assms(1) by (auto simp: tx_ready_def split: option.splits if_splits)
    from length_append_split [OF this] show ?thesis using that by blast
  qed
  define a2 where "a2 = a1\<lparr>nr_frags := 1, last_txcmdsz := last_txcmdsz_of (a1\<lparr>nr_frags := 1\<rparr>) 8 (int (length payload))\<rparr>"
  have loop: "coalesce_loop a1 base (int hw) (sint (te_frag_len en - 4)) (int hw) 0 pf (pre @ (put16 (tx_fc en ?a) @ H) @ rm @ rest) =
      Some (a2, pre @ (put16 (tx_fc en ?a) @ H) @ ?P @ rest)"
  proof -
    have "uint (tx_hdrlen a1) = int (length (put16 (tx_fc en ?a) @ H))"
      using H by (simp add: a1_def uint_int_unat del: of_nat_unat)
    moreover have "tx_fc en ?a AND MORE_FRAG = 0" using assms(1) by (intro tx_fc_no_mfrag) (auto simp: tx_ready_def split: option.splits if_splits)
    moreover have "fits_one a1 (sint (te_frag_len en - 4)) (length (pf_rest pf))"
      using assms(10) off unfolding pf(3) by (auto simp: fits_one_def a1_def split: if_splits)
    moreover have "unat (tx_iv_len a1) \<le> length (tx_iv a1)" "unat (tx_icv_len a1) \<le> length (tx_icv a1)"
      using assms(5,6) by (simp_all add: a1_def)
    moreover have "length rm = length (tx_payload a1 (pf_rest pf))" using rm(2) pf(3) by simp
    ultimately show ?thesis
      using coalesce_one [of a1 "tx_fc en ?a" H pf "sint (te_frag_len en - 4)" rm base pre rest] pf(2,3) buf(2) unfolding a2_def by simp
  qed
  define f2 where "f2 = f\<lparr>tf_buf := pre @ put16 (tx_fc en ?a) @ H @ ?P @ rest, tf_attr := a2\<rparr>"
  define a3 where "a3 = (if Sta_Mgt.is_multicast_ether_addr (tx_ra a2) then a2\<lparr>tx_vcs_mode := NONE_VCS\<rparr> else update_attrib_vcs_info en a2)"
  have a2: "tx_encrypt a2 \<noteq> TKIP_ENCRYPTION" "tx_bswenc a2 = 0" using assms(3,4) by (simp_all add: a2_def a1_def)
  have "rtw_xmitframe_coalesce en junk (eth_hdr @ payload) f stas = Some (SUCCESS, f2\<lparr>tf_attr := a3\<rparr>, stas[k := s'])"
  proof -
    have "xmitframe_addmic en junk f2 = Some (SUCCESS, f2)" "xmitframe_swencrypt en f2 = Some f2"
      using a2 by (simp_all add: xmitframe_addmic_def xmitframe_swencrypt_def f2_def)
    moreover have "tf_attr f2 = a2" by (simp add: f2_def)
    ultimately show ?thesis
      unfolding rtw_xmitframe_coalesce_def assms(2) option.case Let_def hw_def [symmetric] buf(1) buf(2) [symmetric] mk [folded a1_def]
        Option.bind.bind_lunit prod.case pf(1)
      using loop H(1) rm(1) buf(2) by (simp add: f2_def [symmetric] a3_def)
  qed
  moreover have "air_fragments (te_frag_len en) (cipher_frame (f2\<lparr>tf_attr := a3\<rparr>)) = [tx_header en ?a ?n @ ?P]"
  proof -
    have a3: "nr_frags a3 = 1" "last_txcmdsz a3 = last_txcmdsz a2" by (simp_all add: a3_def a2_def update_attrib_vcs_info_def Let_def)
    have "unat (last_txcmdsz a2) = length (tx_header en ?a ?n @ ?P)"
      using last_txcmdsz_one [of "a1\<lparr>nr_frags := 1\<rparr>" "length payload"] assms(3,7,9) H(2) P(2) by (simp add: a2_def a1_def)
    moreover have "hw_hdr_offset (cipher_frame (f2\<lparr>tf_attr := a3\<rparr>)) = hw"
      by (simp add: hw_def hw_hdr_offset_def cipher_frame_def f2_def)
    moreover have "drop hw (xf_buf (cipher_frame (f2\<lparr>tf_attr := a3\<rparr>))) = tx_header en ?a ?n @ ?P @ rest"
      using buf(2) H(1) by (simp add: cipher_frame_def f2_def)
    ultimately show ?thesis using a3 assms(2) unfolding air_fragments_def
      by (simp add: cipher_frame_def f2_def tx_pkt_attrib.truncate_def)
  qed
  ultimately show ?thesis using s' assms(1) unfolding P(1) by (auto simp: tx_ready_def)
qed

end
