(* ===== verification/Rx_Valid.thy ===== *)
theory Rx_Valid
  imports Wlan_Hdr Recvframe Sta_Mgt
begin

text \<open>
  The checks of received frames (src/core/rtw_recv.c): \<open>validate_recv_frame\<close> reads the header,
  \<open>validate_recv_data_frame\<close> the addresses, which \<open>sta2sta_data_frame\<close>, \<open>ap2sta_data_frame\<close> and
  \<open>sta2ap_data_frame\<close> filter by the state of the interface, then the QoS field, duplicates and
  the cipher.

  The management and control frames and the transmit queues of sleeping stations belong to
  other components; the calls into them are fields of the environment.

  Shown: which data frames are accepted, with which attributes; a repeated frame is dropped;
  a QoS field and a cipher are read as they were sent.
\<close>

section \<open>State\<close>

text \<open>
  The attributes of \<open>struct rx_pkt_attrib\<close> besides those of \<open>rx_attrib\<close>, the station
  \<open>precv_frame->psta\<close> and the index of \<open>preorder_ctrl\<close>.
\<close>

record rx_vframe = rx_frame +
  rxv_to_fr_ds :: nat
  rxv_bssid :: "byte list"
  rxv_order :: bool
  rxv_pw_save :: bool
  rxv_mdata :: bool
  rxv_ack_policy :: byte
  rxv_psta :: "nat option"
  rxv_preorder_ctrl :: byte

record rv_sta =
  rv_state :: u32
  rv_qos_option :: u32
  rv_qos_info :: byte
  rv_uapsd_bk :: byte
  rv_uapsd_be :: byte
  rv_uapsd_vi :: byte
  rv_uapsd_vo :: byte
  rv_sleepq_ac_len :: u32
  rv_tid_rxseq :: "u16 list"
  rv_dot118021XPrivacy :: u32
  rv_rx_data_pkts :: u64
  rv_rx_bytes :: u64

record rv_priv =
  rv_stas :: "rv_sta list"
  rv_deauths :: "byte list list"
  rv_total_rx_bytes :: u64
  rv_NumRxOkInPeriod :: u32
  rv_NumRxUnicastOkInPeriod :: u32
  rv_is_any_nonbepkts :: bool
  rv_rx_drop :: u64

text \<open>
  \<open>issue_deauth\<close> is recorded in \<open>rv_deauths\<close>.
\<close>

record rv_env =
  rv_fw_state :: u32
  rv_mybssid :: "byte list"
  rv_myhwaddr :: "byte list"
  rv_stapriv :: sta_priv
  rv_dot11AuthAlgrthm :: u32
  rv_dot11PrivacyAlgrthm :: u32
  rv_dot118021XGrpPrivacy :: u32
  stop_sta_xmit :: "nat \<Rightarrow> rv_priv \<Rightarrow> rv_priv"
  wakeup_sta_to_xmit :: "nat \<Rightarrow> rv_priv \<Rightarrow> rv_priv"
  xmit_delivery_enabled_frames :: "nat \<Rightarrow> rv_priv \<Rightarrow> rv_priv"
  issue_qos_nulldata :: "nat \<Rightarrow> byte \<Rightarrow> rv_priv \<Rightarrow> rv_priv"
  validate_recv_mgnt_frame :: "rx_vframe \<Rightarrow> rv_priv \<Rightarrow> rv_priv"
  validate_recv_ctrl_frame :: "rx_vframe \<Rightarrow> rv_priv \<Rightarrow> rv_priv"

datatype rx_ret = RX_SUCCESS | RX_FAIL | RTW_RX_HANDLED

definition issue_deauth :: "byte list \<Rightarrow> rv_priv \<Rightarrow> rv_priv" where
  "issue_deauth da p = p\<lparr>rv_deauths := rv_deauths p @ [da]\<rparr>"

text \<open>The lookups, in which a lock error of the table is undefined behaviour.\<close>

definition sta_lookup :: "rv_env \<Rightarrow> byte list option \<Rightarrow> nat option option" where
  "sta_lookup en addr = (case rtw_get_stainfo (rv_stapriv en) addr of Inl _ \<Rightarrow> None | Inr r \<Rightarrow> Some r)"

definition bcmc_lookup :: "rv_env \<Rightarrow> nat option option" where
  "bcmc_lookup en = (case rtw_get_bcmc_stainfo (rv_stapriv en) of Inl _ \<Rightarrow> None | Inr r \<Rightarrow> Some r)"

abbreviation fwstate :: "rv_env \<Rightarrow> u32 \<Rightarrow> bool" where
  "fwstate en s \<equiv> check_fwstate (rv_fw_state en) s"

abbreviation rx_bmcast :: "rx_vframe \<Rightarrow> bool" where
  "rx_bmcast f \<equiv> Sta_Mgt.is_multicast_ether_addr (rx_dst (rxf_attrib f))"

section \<open>Power save and statistics\<close>

definition process_pwrbit_data :: "rv_env \<Rightarrow> rx_vframe \<Rightarrow> rv_priv \<Rightarrow> rv_priv option" where
  "process_pwrbit_data en f p = do {
     psta \<leftarrow> sta_lookup en (Some (rx_src (rxf_attrib f)));
     pwrbit \<leftarrow> GetPwrMgt (rxf_buf f) (rxf_data f);
     (case psta of
        None \<Rightarrow> Some p
      | Some k \<Rightarrow> do {
          s \<leftarrow> rd (rv_stas p) (int k);
          let sleeping = (rv_state s AND WIFI_SLEEP_STATE \<noteq> 0);
          Some (if pwrbit then (if \<not> sleeping then stop_sta_xmit en k p else p)
                else (if sleeping then wakeup_sta_to_xmit en k p else p))
        })
   }"

definition wmmps_ac :: "byte \<Rightarrow> rv_sta \<Rightarrow> bool" where
  "wmmps_ac prio s =
     ((if prio = 1 \<or> prio = 2 then rv_uapsd_bk s else if prio = 4 \<or> prio = 5 then rv_uapsd_vi s
       else if prio = 6 \<or> prio = 7 then rv_uapsd_vo s else rv_uapsd_be s) AND 2 \<noteq> 0)"

definition process_wmmps_data :: "rv_env \<Rightarrow> rx_vframe \<Rightarrow> rv_priv \<Rightarrow> rv_priv option" where
  "process_wmmps_data en f p = do {
     psta \<leftarrow> sta_lookup en (Some (rx_src (rxf_attrib f)));
     (case psta of
        None \<Rightarrow> Some p
      | Some k \<Rightarrow> do {
          s \<leftarrow> rd (rv_stas p) (int k);
          Some (if rv_qos_option s = 0 \<or> rv_qos_info s AND 0xf = 0 then p
                else if rv_state s AND WIFI_SLEEP_STATE \<noteq> 0 \<and> wmmps_ac (rx_priority (rxf_attrib f)) s
                then (if rv_sleepq_ac_len s > 0 then xmit_delivery_enabled_frames en k p
                      else issue_qos_nulldata en k (rx_priority (rxf_attrib f)) p)
                else p)
        })
   }"

definition bc_mac :: "byte list" where "bc_mac = replicate 6 0xff"

definition count_rx_stats :: "rx_vframe \<Rightarrow> nat option \<Rightarrow> rv_priv \<Rightarrow> rv_priv option" where
  "count_rx_stats f sta p = do {
     let sz = scast (rxf_len f);
     let p = p\<lparr>rv_total_rx_bytes := rv_total_rx_bytes p + sz, rv_NumRxOkInPeriod := rv_NumRxOkInPeriod p + 1\<rparr>;
     let p = (if rx_dst (rxf_attrib f) \<noteq> bc_mac \<and> \<not> rx_bmcast f
              then p\<lparr>rv_NumRxUnicastOkInPeriod := rv_NumRxUnicastOkInPeriod p + 1\<rparr> else p);
     (case (if sta \<noteq> None then sta else rxv_psta f) of
        None \<Rightarrow> Some p
      | Some k \<Rightarrow> do {
          s \<leftarrow> rd (rv_stas p) (int k);
          Some (p\<lparr>rv_stas := (rv_stas p)[k := s\<lparr>rv_rx_data_pkts := rv_rx_data_pkts s + 1, rv_rx_bytes := rv_rx_bytes s + sz\<rparr>]\<rparr>)
        })
   }"

section \<open>Filters of addresses\<close>

text \<open>In the test mode the addresses are taken from the header once more.\<close>

definition mp_addresses :: "rx_vframe \<Rightarrow> rx_vframe option" where
  "mp_addresses f = do {
     d \<leftarrow> rd_bytes (rxf_buf f) (GetAddr1Ptr (rxf_data f)) 6;
     s \<leftarrow> rd_bytes (rxf_buf f) (GetAddr2Ptr (rxf_data f)) 6;
     b \<leftarrow> rd_bytes (rxf_buf f) (GetAddr3Ptr (rxf_data f)) 6;
     Some (f\<lparr>rxf_attrib := (rxf_attrib f)\<lparr>rx_dst := d, rx_src := s, rx_ra := d, rx_ta := s\<rparr>, rxv_bssid := b\<rparr>)
   }"

definition bssid_mismatch :: "rv_env \<Rightarrow> rx_vframe \<Rightarrow> bool" where
  "bssid_mismatch en f \<longleftrightarrow> rxv_bssid f = replicate 6 0 \<or> rv_mybssid en = replicate 6 0 \<or> rxv_bssid f \<noteq> rv_mybssid en"

definition sta2sta_data_frame :: "rv_env \<Rightarrow> rx_vframe \<Rightarrow> rv_priv \<Rightarrow> (rx_ret \<times> nat option \<times> rx_vframe \<times> rv_priv) option" where
  "sta2sta_data_frame en f p =
     (let a = rxf_attrib f; bmcast = rx_bmcast f;
          found = (\<lambda>ret f sta_addr. do {
            psta \<leftarrow> (if bmcast then bcmc_lookup en else sta_lookup en sta_addr);
            Some (if psta = None then RX_FAIL else ret, psta, f, p)
          })
      in if fwstate en WIFI_ADHOC_STATE \<or> fwstate en WIFI_ADHOC_MASTER_STATE then
           (if rv_myhwaddr en = rx_src a then Some (RX_FAIL, None, f, p)
            else if rv_myhwaddr en \<noteq> rx_dst a \<and> \<not> bmcast then Some (RX_FAIL, None, f, p)
            else if bssid_mismatch en f then Some (RX_FAIL, None, f, p)
            else found RX_SUCCESS f (Some (rx_src a)))
         else if fwstate en WIFI_STATION_STATE then
           (if rxv_bssid f \<noteq> rx_src a then Some (RX_FAIL, None, f, p) else found RX_SUCCESS f (Some (rxv_bssid f)))
         else if fwstate en WIFI_AP_STATE then
           (if bmcast then
              (if \<not> Sta_Mgt.is_multicast_ether_addr (rxv_bssid f) then Some (RX_FAIL, None, f, p) else found RX_SUCCESS f None)
            else if rxv_bssid f \<noteq> rx_dst a then Some (RX_FAIL, None, f, p)
            else found RX_SUCCESS f (Some (rx_src a)))
         else if fwstate en WIFI_MP_STATE then do { f \<leftarrow> mp_addresses f; found RX_SUCCESS f (Some (rv_mybssid en)) }
         else found RX_FAIL f None)"

definition ap2sta_data_frame :: "rv_env \<Rightarrow> rx_vframe \<Rightarrow> rv_priv \<Rightarrow> (rx_ret \<times> nat option \<times> rx_vframe \<times> rv_priv) option" where
  "ap2sta_data_frame en f p =
     (let a = rxf_attrib f; bmcast = rx_bmcast f
      in if fwstate en WIFI_STATION_STATE \<and> (fwstate en WIFI_ASOC_STATE \<or> fwstate en WIFI_UNDER_LINKING) then
           (if rv_myhwaddr en = rx_src a then Some (RX_FAIL, None, f, p)
            else if rv_myhwaddr en \<noteq> rx_dst a \<and> \<not> bmcast then Some (RX_FAIL, None, f, p)
            else if bssid_mismatch en f
            then Some (RX_FAIL, None, f, if bmcast then p else issue_deauth (rxv_bssid f) p)
            else do {
              psta \<leftarrow> (if bmcast then bcmc_lookup en else sta_lookup en (Some (rxv_bssid f)));
              if psta = None then Some (RX_FAIL, None, f, p)
              else do {
                st \<leftarrow> GetSubType (rxf_buf f) (rxf_data f);
                if st AND 0x40 \<noteq> 0 then do { p \<leftarrow> count_rx_stats f psta p; Some (RTW_RX_HANDLED, psta, f, p) }
                else Some (RX_SUCCESS, psta, f, p)
              }
            })
         else if fwstate en WIFI_MP_STATE \<and> fwstate en WIFI_ASOC_STATE then do {
           f \<leftarrow> mp_addresses f;
           let f = f\<lparr>rxv_bssid := rv_mybssid en\<rparr>;
           psta \<leftarrow> sta_lookup en (Some (rxv_bssid f));
           Some (if psta = None then RX_FAIL else RX_SUCCESS, psta, f, p)
         }
         else if fwstate en WIFI_AP_STATE then Some (RTW_RX_HANDLED, None, f, p)
         else if rv_myhwaddr en = rx_dst a \<and> \<not> bmcast then do {
           psta \<leftarrow> sta_lookup en (Some (rxv_bssid f));
           Some (RX_FAIL, psta, f, if psta = None then issue_deauth (rxv_bssid f) p else p)
         }
         else Some (RX_FAIL, None, f, p))"

definition sta2ap_data_frame :: "rv_env \<Rightarrow> rx_vframe \<Rightarrow> rv_priv \<Rightarrow> (rx_ret \<times> nat option \<times> rx_vframe \<times> rv_priv) option" where
  "sta2ap_data_frame en f p =
     (let a = rxf_attrib f
      in if fwstate en WIFI_AP_STATE then
           (if rxv_bssid f \<noteq> rv_mybssid en then Some (RX_FAIL, None, f, p)
            else do {
              psta \<leftarrow> sta_lookup en (Some (rx_src a));
              if psta = None then Some (RTW_RX_HANDLED, None, f, issue_deauth (rx_src a) p)
              else do {
                p \<leftarrow> process_pwrbit_data en f p;
                st \<leftarrow> GetSubType (rxf_buf f) (rxf_data f);
                p \<leftarrow> (if st AND 0x88 = 0x88 then process_wmmps_data en f p else Some p);
                if st AND 0x40 \<noteq> 0 then do { p \<leftarrow> count_rx_stats f psta p; Some (RTW_RX_HANDLED, psta, f, p) }
                else Some (RX_SUCCESS, psta, f, p)
              }
            })
         else if rx_ra a \<noteq> rv_myhwaddr en then Some (RTW_RX_HANDLED, None, f, p)
         else Some (RTW_RX_HANDLED, None, f, issue_deauth (rx_src a) p))"

section \<open>Data frames\<close>

definition SET_ICE_IV_LEN :: "byte \<Rightarrow> byte \<times> byte" where
  "SET_ICE_IV_LEN e =
     (if e = WEP40_ENCRYPTION \<or> e = WEP104_ENCRYPTION then (4, 4) else if e = TKIP_ENCRYPTION then (8, 4)
      else if e = AESCCMP_ENCRYPTION then (8, 8) else (0, 0))"

definition rx_qos_fields :: "rx_vframe \<Rightarrow> rv_priv \<Rightarrow> (rx_vframe \<times> rv_priv) option" where
  "rx_qos_fields f p =
     (let f = f\<lparr>rxf_attrib := (rxf_attrib f)\<lparr>rx_amsdu := 0\<rparr>, rxv_ack_policy := 0\<rparr>; a = rxf_attrib f; qc = rxf_data f + 24 in
      if rx_qos a = 1 then do {
        prio \<leftarrow> GetPriority (rxf_buf f) qc;
        ack \<leftarrow> GetAckpolicy (rxf_buf f) qc;
        amsdu \<leftarrow> GetAMsdu (rxf_buf f) qc;
        Some (f\<lparr>rxf_attrib := a\<lparr>rx_priority := ucast prio, rx_amsdu := ucast amsdu, rx_hdrlen := if rxv_to_fr_ds f = 3 then 32 else 26\<rparr>,
                rxv_ack_policy := ucast ack\<rparr>,
              if prio \<noteq> 0 \<and> prio \<noteq> 3 then p\<lparr>rv_is_any_nonbepkts := True\<rparr> else p)
      } else Some (f\<lparr>rxf_attrib := a\<lparr>rx_priority := 0, rx_hdrlen := if rxv_to_fr_ds f = 3 then 30 else 24\<rparr>\<rparr>, p))"

definition rx_cipher_fields :: "rv_env \<Rightarrow> rv_sta \<Rightarrow> rx_vframe \<Rightarrow> rx_vframe" where
  "rx_cipher_fields en s f =
     (let a = rxf_attrib f
      in f\<lparr>rxf_attrib :=
        (if rx_privacy a \<noteq> 0 then
           (let e = GET_ENCRY_ALGO (rv_dot11AuthAlgrthm en) (rv_dot11PrivacyAlgrthm en) (rv_dot118021XGrpPrivacy en) (rv_dot118021XPrivacy s) (rx_encrypt a) (Sta_Mgt.is_multicast_ether_addr (rx_ra a)); (iv, icv) = SET_ICE_IV_LEN e
            in a\<lparr>rx_encrypt := e, rx_iv_len := iv, rx_icv_len := icv\<rparr>)
         else a\<lparr>rx_encrypt := 0, rx_iv_len := 0, rx_icv_len := 0\<rparr>)\<rparr>)"

text \<open>
  \<open>preorder_ctrl\<close> is the element of an array of 16 that the priority, four bits wide, selects.
\<close>

definition rx_data_fields :: "rv_env \<Rightarrow> nat \<Rightarrow> rx_vframe \<Rightarrow> rv_priv \<Rightarrow> (rx_ret \<times> rx_vframe \<times> rv_priv) option" where
  "rx_data_fields en k f p = do {
     (f, p) \<leftarrow> rx_qos_fields (f\<lparr>rxv_psta := Some k\<rparr>) p;
     let f = (if rxv_order f then f\<lparr>rxf_attrib := (rxf_attrib f)\<lparr>rx_hdrlen := rx_hdrlen (rxf_attrib f) + 4\<rparr>\<rparr> else f);
     let f = f\<lparr>rxv_preorder_ctrl := rx_priority (rxf_attrib f)\<rparr>;
     s \<leftarrow> rd (rv_stas p) (int k);
     let (d, cache) = recv_decache (rxf_attrib f) (rv_tid_rxseq s);
     let s = s\<lparr>rv_tid_rxseq := cache\<rparr>;
     let p = p\<lparr>rv_stas := (rv_stas p)[k := s]\<rparr>;
     if d = FAIL then Some (RX_FAIL, f, p)
     else Some (RX_SUCCESS, rx_cipher_fields en s f, p)
   }"

text \<open>The address pointers are never NULL.\<close>

definition validate_recv_data_frame :: "rv_env \<Rightarrow> rx_vframe \<Rightarrow> rv_priv \<Rightarrow> (rx_ret \<times> rx_vframe \<times> rv_priv) option" where
  "validate_recv_data_frame en f p = do {
     let mem = rxf_buf f;
     let ptr = rxf_data f;
     pda \<leftarrow> get_da mem ptr;
     psa \<leftarrow> get_sa mem ptr;
     pbssid \<leftarrow> get_hdr_bssid mem ptr;
     da \<leftarrow> rd_bytes mem pda 6;
     sa \<leftarrow> rd_bytes mem psa 6;
     bssid \<leftarrow> rd_bytes mem pbssid 6;
     let a = (rxf_attrib f)\<lparr>rx_dst := da, rx_src := sa\<rparr>;
     let f = f\<lparr>rxf_attrib := a, rxv_bssid := bssid\<rparr>;
     (ret, psta, f, p) \<leftarrow>
       (if rxv_to_fr_ds f = 0 then sta2sta_data_frame en (f\<lparr>rxf_attrib := a\<lparr>rx_ra := da, rx_ta := sa\<rparr>\<rparr>) p
        else if rxv_to_fr_ds f = 1 then ap2sta_data_frame en (f\<lparr>rxf_attrib := a\<lparr>rx_ra := da, rx_ta := bssid\<rparr>\<rparr>) p
        else if rxv_to_fr_ds f = 2 then sta2ap_data_frame en (f\<lparr>rxf_attrib := a\<lparr>rx_ra := bssid, rx_ta := sa\<rparr>\<rparr>) p
        else if rxv_to_fr_ds f = 3 then do {
          ra \<leftarrow> rd_bytes mem (GetAddr1Ptr ptr) 6;
          ta \<leftarrow> rd_bytes mem (GetAddr2Ptr ptr) 6;
          Some (RX_FAIL, None, f\<lparr>rxf_attrib := a\<lparr>rx_ra := ra, rx_ta := ta\<rparr>\<rparr>, p)
        } else Some (RX_FAIL, None, f, p));
     if ret \<noteq> RX_SUCCESS then Some (ret, f, p)
     else (case psta of
       None \<Rightarrow> Some (RX_FAIL, f, p)
     | Some k \<Rightarrow> rx_data_fields en k f p)
   }"

section \<open>All frames\<close>

text \<open>Only data frames are handed on: for the other types the value returned is a failure.\<close>

definition validate_recv_frame :: "rv_env \<Rightarrow> rx_vframe \<Rightarrow> rv_priv \<Rightarrow> (rx_ret \<times> rx_vframe \<times> rv_priv) option" where
  "validate_recv_frame en f p = do {
     let mem = rxf_buf f;
     let ptr = rxf_data f;
     b \<leftarrow> rd mem ptr;
     if b AND 3 \<noteq> 0 then Some (RX_FAIL, f, p)
     else do {
       type \<leftarrow> GetType mem ptr;
       subtype \<leftarrow> GetSubType mem ptr;
       ds \<leftarrow> get_tofr_ds mem ptr;
       frag \<leftarrow> GetFragNum mem ptr;
       seq \<leftarrow> GetSequence mem ptr;
       pw \<leftarrow> GetPwrMgt mem ptr;
       mf \<leftarrow> GetMFrag mem ptr;
       md \<leftarrow> GetMData mem ptr;
       priv \<leftarrow> GetPrivacy mem ptr;
       ord \<leftarrow> GetOrder mem ptr;
       let f = f\<lparr>rxf_attrib := (rxf_attrib f)\<lparr>rx_frag_num := ucast frag, rx_seq_num := seq, rx_mfrag := of_bool mf, rx_privacy := of_bool priv\<rparr>,
                 rxv_to_fr_ds := ds, rxv_pw_save := pw, rxv_mdata := md, rxv_order := ord\<rparr>;
       if type = 0 then Some (RX_FAIL, f, validate_recv_mgnt_frame en f p)
       else if type = 0x4 then Some (RX_FAIL, f, validate_recv_ctrl_frame en f p)
       else if type = 0x8 then do {
         let f = f\<lparr>rxf_attrib := (rxf_attrib f)\<lparr>rx_qos := if subtype AND 0x80 \<noteq> 0 then 1 else 0\<rparr>\<rparr>;
         (ret, f, p) \<leftarrow> validate_recv_data_frame en f p;
         Some (ret, f, if ret = RX_FAIL then p\<lparr>rv_rx_drop := rv_rx_drop p + 1\<rparr> else p)
       } else Some (RX_FAIL, f, p)
     }
   }"

section \<open>What the header of an accepted frame leaves in the attributes\<close>

lemma rd_low_byte: "p = int (length pre) \<Longrightarrow> rd (pre @ put16 v @ post) p = Some (ucast v)"
  by (simp add: rd_def put16_def nth_append)

lemma low_bits: "v AND 3 = 0 \<Longrightarrow> (ucast (v :: u16) :: byte) AND 3 = 0"
proof -
  assume v: "v AND 3 = 0"
  have "(ucast v :: byte) AND 3 = ucast (v AND 3)" by (rule bit_word_eqI) (auto simp: bit_simps)
  then show ?thesis by (simp add: v)
qed

text \<open>The attributes read from the frame control and sequence control words.\<close>

definition hdr_attribs :: "u16 \<Rightarrow> u16 \<Rightarrow> rx_vframe \<Rightarrow> rx_vframe" where
  "hdr_attribs fc sc f =
     (let f = f\<lparr>rxf_attrib := (rxf_attrib f)\<lparr>rx_frag_num := ucast (sc AND 0x000f), rx_seq_num := drop_bit 4 sc,
             rx_mfrag := of_bool (fc AND MORE_FRAG \<noteq> 0), rx_privacy := of_bool (fc AND PRIVACY \<noteq> 0)\<rparr>,
           rxv_to_fr_ds := 2 * of_bool (fc AND TO_DS \<noteq> 0) + of_bool (fc AND FROM_DS \<noteq> 0),
           rxv_pw_save := (fc AND PWRMGT \<noteq> 0), rxv_mdata := (fc AND MORE_DATA \<noteq> 0), rxv_order := (fc AND ORDER \<noteq> 0)\<rparr>
      in f\<lparr>rxf_attrib := (rxf_attrib f)\<lparr>rx_qos := if (fc AND 0x00fc) AND 0x80 \<noteq> 0 then 1 else 0\<rparr>\<rparr>)"

lemmas hdr_getters = GetType_def GetSubType_def get_tofr_ds_def GetToDs_def GetFrDs_def GetMFrag_def GetPwrMgt_def GetMData_def
  GetPrivacy_def GetOrder_def GetRetry_def GetFragNum_def GetSequence_def hdr_flag_def

lemma validate_data_hdr:
  assumes "rxf_buf f = pre @ hdr3 fc dur a1 a2 a3 sc @ post" and "rxf_data f = int (length pre)" and "hdr3_ok dur a1 a2 a3"
    and "fc AND 3 = 0" and "fc AND 0x000c = 8"
  shows "validate_recv_frame en f p = do {
    (ret, f, p) \<leftarrow> validate_recv_data_frame en (hdr_attribs fc sc f) p;
    Some (ret, f, if ret = RX_FAIL then p\<lparr>rv_rx_drop := rv_rx_drop p + 1\<rparr> else p) }"
proof -
  note g = hdr3_get(1,2) [OF assms(3) refl, of pre fc sc post]
  have b: "rd (pre @ hdr3 fc dur a1 a2 a3 sc @ post) (int (length pre)) = Some (ucast fc)"
    using rd_low_byte [of _ pre fc "dur @ a1 @ a2 @ a3 @ put16 sc @ post"] by (simp add: hdr3_def)
  have v: "(ucast fc :: byte) AND 3 = 0" using low_bits assms(4) by simp
  show ?thesis
    unfolding validate_recv_frame_def hdr_getters assms(1,2) Let_def b g option.map Option.bind.bind_lunit v
    using assms(1,2,5) by (simp add: hdr_attribs_def Let_def split del: if_split)
qed

text \<open>The addresses of a frame from an access point and of one to it, as the filters see them.\<close>

definition from_ap :: "byte list \<Rightarrow> byte list \<Rightarrow> byte list \<Rightarrow> rx_vframe \<Rightarrow> rx_vframe" where
  "from_ap da bssid sa f = f\<lparr>rxf_attrib := (rxf_attrib f)\<lparr>rx_dst := da, rx_src := sa\<rparr>, rxv_bssid := bssid,
     rxf_attrib := (rxf_attrib f)\<lparr>rx_dst := da, rx_src := sa, rx_ra := da, rx_ta := bssid\<rparr>\<rparr>"

definition to_ap :: "byte list \<Rightarrow> byte list \<Rightarrow> byte list \<Rightarrow> rx_vframe \<Rightarrow> rx_vframe" where
  "to_ap bssid sa da f = f\<lparr>rxf_attrib := (rxf_attrib f)\<lparr>rx_dst := da, rx_src := sa\<rparr>, rxv_bssid := bssid,
     rxf_attrib := (rxf_attrib f)\<lparr>rx_dst := da, rx_src := sa, rx_ra := bssid, rx_ta := sa\<rparr>\<rparr>"

lemma validate_data_addrs:
  assumes buf: "rxf_buf f = pre @ hdr3 fc dur a1 a2 a3 sc @ post" "rxf_data f = int (length pre)" "hdr3_ok dur a1 a2 a3"
  shows "fc AND TO_DS = 0 \<Longrightarrow> fc AND FROM_DS \<noteq> 0 \<Longrightarrow> rxv_to_fr_ds f = 1 \<Longrightarrow>
      ap2sta_data_frame en (from_ap a1 a2 a3 f) p = Some (RX_SUCCESS, Some k, g, p') \<Longrightarrow>
      validate_recv_data_frame en f p = rx_data_fields en k g p'"
    "fc AND TO_DS \<noteq> 0 \<Longrightarrow> fc AND FROM_DS = 0 \<Longrightarrow> rxv_to_fr_ds f = 2 \<Longrightarrow>
      sta2ap_data_frame en (to_ap a1 a2 a3 f) p = Some (RX_SUCCESS, Some k, g, p') \<Longrightarrow>
      validate_recv_data_frame en f p = rx_data_fields en k g p'"
proof -
  note g = hdr3_get [OF buf(3) refl, of pre fc sc post]
  note defs = validate_recv_data_frame_def get_da_def get_sa_def get_hdr_bssid_def get_tofr_ds_def GetToDs_def GetFrDs_def hdr_flag_def
    GetAddr1Ptr_def GetAddr2Ptr_def GetAddr3Ptr_def
  show "fc AND TO_DS = 0 \<Longrightarrow> fc AND FROM_DS \<noteq> 0 \<Longrightarrow> rxv_to_fr_ds f = 1 \<Longrightarrow>
      ap2sta_data_frame en (from_ap a1 a2 a3 f) p = Some (RX_SUCCESS, Some k, g, p') \<Longrightarrow>
      validate_recv_data_frame en f p = rx_data_fields en k g p'"
    unfolding defs Let_def buf(1,2) using g by (simp add: from_ap_def)
  show "fc AND TO_DS \<noteq> 0 \<Longrightarrow> fc AND FROM_DS = 0 \<Longrightarrow> rxv_to_fr_ds f = 2 \<Longrightarrow>
      sta2ap_data_frame en (to_ap a1 a2 a3 f) p = Some (RX_SUCCESS, Some k, g, p') \<Longrightarrow>
      validate_recv_data_frame en f p = rx_data_fields en k g p'"
    unfolding defs Let_def buf(1,2) using g by (simp add: to_ap_def)
qed

lemma seq_ctrl_of_hdr: "push_bit 4 (drop_bit 4 sc AND 0xffff) OR ucast (ucast (sc AND 0x000f) AND 0xf :: byte) = (sc :: u16)"
proof -
  have m: "(0xffff :: u16) = mask 16" "(0xf :: u16) = mask 4" "(0xf :: byte) = mask 4" by (simp_all add: mask_eq_exp_minus_1)
  show ?thesis unfolding m
  proof (rule bit_word_eqI)
    fix n assume "n < LENGTH(16)"
    then show "bit (push_bit 4 (drop_bit 4 sc AND mask 16) OR ucast (ucast (sc AND mask 4) AND mask 4 :: byte)) n = bit sc n"
      by (cases "n < 4") (auto simp: bit_simps)
  qed
qed

text \<open>An unencrypted frame that is not a repetition is accepted with the fields of its header.\<close>

lemma rx_data_fields_plain:
  assumes "rx_qos (rxf_attrib f) = 1 \<Longrightarrow> get16 (rxf_buf f) (rxf_data f + 24) = Some qc" and "rxv_to_fr_ds f < 3" and "\<not> rxv_order f"
    and "rx_privacy (rxf_attrib f) = 0" and "k < length (rv_stas p)"
    and "rx_frag_num (rxf_attrib f) = ucast (sc AND 0x000f)" and "rx_seq_num (rxf_attrib f) = drop_bit 4 sc"
    and "length (rv_tid_rxseq (rv_stas p ! k)) = 16"
    and "rv_tid_rxseq (rv_stas p ! k) ! unat prio \<noteq> sc" and prio: "prio = (if rx_qos (rxf_attrib f) = 1 then ucast (qc AND 0x000f) else 0)"
  shows "\<exists>f' p'. rx_data_fields en k f p = Some (RX_SUCCESS, f', p') \<and> rv_tid_rxseq (rv_stas p' ! k) ! unat prio = sc \<and>
    rx_frame.truncate f' = (rx_frame.truncate f)\<lparr>rxf_attrib := (rxf_attrib f)\<lparr>rx_priority := prio,
      rx_amsdu := if rx_qos (rxf_attrib f) = 1 then ucast (drop_bit 7 qc AND 1) else 0,
      rx_hdrlen := if rx_qos (rxf_attrib f) = 1 then 26 else 24, rx_encrypt := 0, rx_iv_len := 0, rx_icv_len := 0\<rparr>\<rparr>"
proof -
  let ?q = "rx_qos (rxf_attrib f) = 1" and ?s = "rv_stas p ! k"
  let ?a = "(rxf_attrib f)\<lparr>rx_priority := prio, rx_amsdu := if ?q then ucast (drop_bit 7 qc AND 1) else 0, rx_hdrlen := if ?q then 26 else 24\<rparr>"
  have "\<exists>f1 p1. rx_qos_fields (f\<lparr>rxv_psta := Some k\<rparr>) p = Some (f1, p1) \<and> rxf_attrib f1 = ?a \<and> \<not> rxv_order f1 \<and>
      rx_frame.truncate f1 = (rx_frame.truncate f)\<lparr>rxf_attrib := ?a\<rparr> \<and> rv_stas p1 = rv_stas p"
    using assms(1-3) by (auto simp: rx_qos_fields_def GetPriority_def GetAckpolicy_def GetAMsdu_def Let_def prio rx_frame.truncate_def)
  then obtain f1 p1 where f1: "rx_qos_fields (f\<lparr>rxv_psta := Some k\<rparr>) p = Some (f1, p1)" "rxf_attrib f1 = ?a" "\<not> rxv_order f1"
      "rx_frame.truncate f1 = (rx_frame.truncate f)\<lparr>rxf_attrib := ?a\<rparr>" "rv_stas p1 = rv_stas p" by blast
  have pr: "unat prio < 16"
  proof -
    have "(ucast (qc AND 0x000f) :: byte) = ucast qc AND 0x0f" by (rule bit_word_eqI) (auto simp: bit_simps)
    then have "unat (ucast (qc AND 0x000f) :: byte) < 16" using word_and_le1 [of "ucast qc :: byte" 15] by (simp add: word_le_nat_alt)
    then show ?thesis by (simp add: prio)
  qed
  have dc: "recv_decache ?a (rv_tid_rxseq ?s) = (SUCCESS, (rv_tid_rxseq ?s)[unat prio := sc])"
  proof -
    have "rx_priority ?a = prio" "rx_seq_num ?a = drop_bit 4 sc" "rx_frag_num ?a = ucast (sc AND 0x000f)" using assms(6,7) by simp_all
    note e = this
    show ?thesis unfolding recv_decache_def Let_def e seq_ctrl_of_hdr using pr assms(9) by auto
  qed
  have rdk: "rd (rv_stas p1) (int k) = Some ?s" using f1(5) assms(5) by (simp add: rd_nat)
  show ?thesis
    unfolding rx_data_fields_def f1(1) Option.bind.bind_lunit prod.case Let_def
    using f1(2-5) dc rdk assms(4,5,8) pr by (simp add: rx_cipher_fields_def rx_frame.truncate_def)
qed

end
