(* ===== verification/Link.thy ===== *)
theory Link
  imports Xmit Rx_Valid
begin

text \<open>
  The data path from one driver to another: what \<open>rtw_xmitframe_coalesce\<close> (Xmit) makes of an
  Ethernet frame, \<open>validate_recv_frame\<close> (Rx_Valid) and \<open>wlanhdr_to_ethhdr\<close> (Rx_Eth) turn back
  into it, from an access point to a station and from a station to its access point.
\<close>

section \<open>The header on both sides\<close>

lemma tx_fc_plain:
  assumes "tx_subtype a = (if q then 0x88 else 0x08)" and "tx_encrypt a = 0"
  shows "tx_fc en a AND 3 = 0" "tx_fc en a AND 0x000c = 8" "tx_fc en a AND PRIVACY = 0" "tx_fc en a AND ORDER = 0"
    "(tx_fc en a AND 0x00fc) AND 0x80 \<noteq> 0 \<longleftrightarrow> q" "tx_fc en a AND TO_DS = tx_ds en AND TO_DS" "tx_fc en a AND FROM_DS = tx_ds en AND FROM_DS"
    "tx_fc en a AND PWRMGT = 0" "(tx_fc en a AND 0x00fc) AND 0x40 = 0"
  using assms by (auto simp: tx_fc_def tx_ds_def ORDER_def PWRMGT_def TO_DS_def FROM_DS_def MORE_DATA_def PRIVACY_def bit.conj_disj_distrib2)

lemma tx_qc_fields:
  assumes "tx_priority a < 16"
  shows "ucast (tx_qc a AND 0x000f) = tx_priority a" "drop_bit 7 (tx_qc a) AND 1 = 0"
proof -
  have m: "(0xf :: u16) = mask 4" "(3 :: u16) = mask 2" "(1 :: u16) = mask 1" by (simp_all add: mask_eq_exp_minus_1)
  have p: "bit (tx_priority a) n \<Longrightarrow> n < 4" for n
  proof -
    have "take_bit 4 (tx_priority a) = tx_priority a"
      by (rule unsigned_word_eqI [where ?'a = nat]) (use assms in \<open>simp add: unsigned_take_bit_eq take_bit_nat_eq_self word_less_nat_alt\<close>)
    then show "bit (tx_priority a) n \<Longrightarrow> n < 4" by (metis bit_take_bit_iff)
  qed
  show "ucast (tx_qc a AND 0x000f) = tx_priority a" unfolding tx_qc_def m
    by (rule bit_word_eqI) (auto simp: bit_simps dest: p)
  show "drop_bit 7 (tx_qc a) AND 1 = 0" unfolding tx_qc_def m
    by (rule bit_word_eqI) (auto simp: bit_simps)
qed

lemma eth_frame_snap: "eth_frame dst src (rtw_put_snap t @ d) = dst @ src @ be16_bytes t @ d"
proof -
  have inj: "be16_bytes t = be16_bytes v \<longleftrightarrow> t = v" for v
    using RTW_GET_BE16_bytes [of t "[]"] RTW_GET_BE16_bytes [of v "[]"] by (metis append_Nil2)
  have c: "SNAP_ETH_TYPE_IPX = be16_bytes 0x8137" "SNAP_ETH_TYPE_APPLETALK_AARP = be16_bytes 0x80f3"
    by (simp_all add: SNAP_ETH_TYPE_IPX_def SNAP_ETH_TYPE_APPLETALK_AARP_def be16_bytes_def)
  have p: "take 6 (rtw_put_snap t @ d) = (if t = 0x8137 \<or> t = 0x80f3 then rtw_bridge_tunnel_header else rtw_rfc1042_header)"
    "drop 6 (rtw_put_snap t @ d) = be16_bytes t @ d"
    by (simp_all add: rtw_put_snap_def rtw_rfc1042_header_def rtw_bridge_tunnel_header_def P802_1H_OUI_def RFC1042_OUI_def)
  have "take 2 (drop 6 (rtw_put_snap t @ d)) = be16_bytes t" unfolding p(2) by simp
  then have "snap_encap (rtw_put_snap t @ d)" unfolding snap_encap_def p(1) c by (simp only: inj) auto
  then show ?thesis unfolding eth_frame_def p(2) by simp
qed

section \<open>Accepting a frame\<close>

lemma receive_plain:
  assumes buf: "rxf_buf r = pre @ hdr3 fc [0, 0] a1 a2 a3 sc @ post" "rxf_data r = int (length pre)" "hdr3_ok [0, 0] a1 a2 a3"
    and fc: "fc AND 3 = 0" "fc AND 0x000c = 8" "fc AND PRIVACY = 0" "fc AND ORDER = 0" "(fc AND 0x00fc) AND 0x80 \<noteq> 0 \<longleftrightarrow> q"
    and qc: "q \<Longrightarrow> \<exists>rest. post = put16 qc @ rest" and p: "j < length (rv_stas p)" "length (rv_tid_rxseq (rv_stas p ! j)) = 16"
    and prio: "(prio :: byte) = (if q then ucast (qc AND 0x000f) else 0)" and dup: "rv_tid_rxseq (rv_stas p ! j) ! unat prio \<noteq> sc"
    and dir: "fc AND TO_DS = 0 \<and> fc AND FROM_DS \<noteq> 0 \<and> ap2sta_data_frame ren (from_ap a1 a2 a3 (hdr_attribs fc sc r)) p = Some (RX_SUCCESS, Some j, from_ap a1 a2 a3 (hdr_attribs fc sc r), p) \<and> da = a1 \<and> sa = a3 \<or>
      fc AND TO_DS \<noteq> 0 \<and> fc AND FROM_DS = 0 \<and> sta2ap_data_frame ren (to_ap a1 a2 a3 (hdr_attribs fc sc r)) p = Some (RX_SUCCESS, Some j, to_ap a1 a2 a3 (hdr_attribs fc sc r), p) \<and> da = a3 \<and> sa = a2"
  shows "\<exists>r' p'. validate_recv_frame ren r p = Some (RX_SUCCESS, r', p') \<and>
    rxf_buf r' = rxf_buf r \<and> rxf_data r' = rxf_data r \<and> rxf_tail r' = rxf_tail r \<and> rxf_end r' = rxf_end r \<and> rxf_len r' = rxf_len r \<and>
    rx_hdrlen (rxf_attrib r') = (if q then 26 else 24) \<and> rx_encrypt (rxf_attrib r') = 0 \<and> rx_iv_len (rxf_attrib r') = 0 \<and>
    rx_icv_len (rxf_attrib r') = 0 \<and> rx_dst (rxf_attrib r') = da \<and> rx_src (rxf_attrib r') = sa \<and> rx_mfrag (rxf_attrib r') = of_bool (fc AND MORE_FRAG \<noteq> 0)"
proof -
  define g where "g = (if fc AND TO_DS = 0 then from_ap a1 a2 a3 (hdr_attribs fc sc r) else to_ap a1 a2 a3 (hdr_attribs fc sc r))"
  have h: "rxf_buf (hdr_attribs fc sc r) = pre @ hdr3 fc [0, 0] a1 a2 a3 sc @ post" "rxf_data (hdr_attribs fc sc r) = int (length pre)"
    using buf(1,2) by (simp_all add: hdr_attribs_def Let_def)
  have v: "validate_recv_data_frame ren (hdr_attribs fc sc r) p = rx_data_fields ren j g p"
  proof -
    have "rxv_to_fr_ds (hdr_attribs fc sc r) = 2 * of_bool (fc AND TO_DS \<noteq> 0) + of_bool (fc AND FROM_DS \<noteq> 0)"
      by (simp add: hdr_attribs_def Let_def)
    then show ?thesis using validate_data_addrs [OF h buf(3), of ren p j g p] dir by (auto simp: g_def)
  qed
  have g: "rxf_buf g = rxf_buf r" "rxf_data g = rxf_data r" "rxf_tail g = rxf_tail r" "rxf_end g = rxf_end r" "rxf_len g = rxf_len r"
    "rx_qos (rxf_attrib g) = (if q then 1 else 0)" "rxv_to_fr_ds g < 3" "\<not> rxv_order g" "rx_privacy (rxf_attrib g) = 0"
    "rx_frag_num (rxf_attrib g) = ucast (sc AND 0x000f)" "rx_seq_num (rxf_attrib g) = drop_bit 4 sc"
    "rx_dst (rxf_attrib g) = da" "rx_src (rxf_attrib g) = sa" "rx_mfrag (rxf_attrib g) = of_bool (fc AND MORE_FRAG \<noteq> 0)"
    using fc dir by (auto simp: g_def from_ap_def to_ap_def hdr_attribs_def Let_def)
  have qcg: "get16 (rxf_buf g) (rxf_data g + 24) = Some qc" if "rx_qos (rxf_attrib g) = 1"
  proof -
    have q using that g(6) by (simp split: if_splits)
    then obtain rest where "post = put16 qc @ rest" using qc by blast
    then show ?thesis using get16_at [of "rxf_data g + 24" "pre @ hdr3 fc [0, 0] a1 a2 a3 sc" qc rest] buf g(1,2)
      by (simp add: length_hdr3)
  qed
  have pr: "prio = (if rx_qos (rxf_attrib g) = 1 then ucast (qc AND 0x000f) else 0)" using g(6) prio by simp
  obtain r' p' where r': "rx_data_fields ren j g p = Some (RX_SUCCESS, r', p')"
    "rx_frame.truncate r' = (rx_frame.truncate g)\<lparr>rxf_attrib := (rxf_attrib g)\<lparr>rx_priority := prio,
      rx_amsdu := if rx_qos (rxf_attrib g) = 1 then ucast (drop_bit 7 qc AND 1) else 0,
      rx_hdrlen := if rx_qos (rxf_attrib g) = 1 then 26 else 24, rx_encrypt := 0, rx_iv_len := 0, rx_icv_len := 0\<rparr>\<rparr>"
    using rx_data_fields_plain [OF qcg g(7,8,9) p(1) g(10,11) p(2) dup pr] by blast
  have "validate_recv_frame ren r p = Some (RX_SUCCESS, r', p')"
    unfolding validate_data_hdr [OF buf fc(1,2)] v r'(1) by simp
  then show ?thesis using r'(2) g by (auto simp: rx_frame.truncate_def)
qed

section \<open>Two ends of a link\<close>

text \<open>
  The access point \<open>en\<close> sends to its station \<open>ren\<close>, or to a group, and the station \<open>en\<close> to its
  access point \<open>ren\<close>; \<open>j\<close> is the entry of the sender in the receiver's station table.
\<close>

definition downlink :: "tx_env \<Rightarrow> rv_env \<Rightarrow> tx_attr \<Rightarrow> nat \<Rightarrow> bool" where
  "downlink en ren a j \<longleftrightarrow>
     \<not> check_fwstate (te_fw_state en) WIFI_STATION_STATE \<and> check_fwstate (te_fw_state en) WIFI_AP_STATE \<and>
     fwstate ren WIFI_STATION_STATE \<and> (fwstate ren WIFI_ASOC_STATE \<or> fwstate ren WIFI_UNDER_LINKING) \<and>
     rv_mybssid ren = te_bssid en \<and> te_bssid en \<noteq> replicate 6 0 \<and> tx_src a \<noteq> rv_myhwaddr ren \<and>
     (if Sta_Mgt.is_multicast_ether_addr (tx_dst a) then bcmc_lookup ren = Some (Some j)
      else tx_dst a = rv_myhwaddr ren \<and> sta_lookup ren (Some (te_bssid en)) = Some (Some j))"

definition uplink :: "tx_env \<Rightarrow> rv_env \<Rightarrow> tx_attr \<Rightarrow> nat \<Rightarrow> rv_priv \<Rightarrow> bool" where
  "uplink en ren a j p \<longleftrightarrow>
     check_fwstate (te_fw_state en) WIFI_STATION_STATE \<and> fwstate ren WIFI_AP_STATE \<and> rv_mybssid ren = te_bssid en \<and>
     sta_lookup ren (Some (tx_src a)) = Some (Some j) \<and> rv_state (rv_stas p ! j) AND WIFI_SLEEP_STATE = 0"

lemma downlink_accepted:
  assumes "downlink en ren a j" and "GetSubType (rxf_buf h) (rxf_data h) = Some st" and "st AND 0x40 = 0"
  shows "ap2sta_data_frame ren (from_ap (tx_dst a) (te_bssid en) (tx_src a) h) p =
    Some (RX_SUCCESS, Some j, from_ap (tx_dst a) (te_bssid en) (tx_src a) h, p)"
  using assms by (auto simp: ap2sta_data_frame_def downlink_def from_ap_def bssid_mismatch_def Let_def split: if_splits)

lemma uplink_accepted:
  assumes "uplink en ren a j p" and "j < length (rv_stas p)" and "GetSubType (rxf_buf h) (rxf_data h) = Some st" and "st AND 0x40 = 0"
    and "GetPwrMgt (rxf_buf h) (rxf_data h) = Some False"
  shows "sta2ap_data_frame ren (to_ap (te_bssid en) (tx_src a) (tx_dst a) h) p =
    Some (RX_SUCCESS, Some j, to_ap (te_bssid en) (tx_src a) (tx_dst a) h, p)"
  using assms by (simp add: sta2ap_data_frame_def uplink_def to_ap_def process_pwrbit_data_def process_wmmps_data_def rd_nat Let_def)

text \<open>A received frame that holds given bytes.\<close>

lemma frame_bytes_split:
  assumes "frame_ok f" and "frame_bytes f = m"
  obtains pre post where "rxf_buf f = pre @ m @ post" and "rxf_data f = int (length pre)" and "rxf_tail f = int (length pre + length m)"
proof -
  let ?d = "nat (rxf_data f)"
  have l: "int (length m) = rxf_tail f - rxf_data f" using int_length_frame_bytes [OF assms(1)] assms(2) by simp
  have d: "rxf_data f = int ?d" "?d \<le> length (rxf_buf f)" using assms(1) by (auto simp: frame_ok_def)
  have "m = take (length m) (drop ?d (rxf_buf f))" using assms(2) unfolding frame_bytes_def l [symmetric] by simp
  then have "rxf_buf f = take ?d (rxf_buf f) @ m @ drop (length m) (drop ?d (rxf_buf f))" by (metis append_take_drop_id)
  then show thesis using that d l by (metis (no_types, lifting) add.commute diff_add_cancel length_take min.absorb2 of_nat_add)
qed

definition peer :: "tx_env \<Rightarrow> rv_env \<Rightarrow> tx_attr \<Rightarrow> nat \<Rightarrow> rv_priv \<Rightarrow> u16 \<Rightarrow> bool" where
  "peer en ren a j p n \<longleftrightarrow>
     (downlink en ren a j \<or> uplink en ren a j p) \<and> j < length (rv_stas p) \<and> length (rv_tid_rxseq (rv_stas p ! j)) = 16 \<and>
     rv_tid_rxseq (rv_stas p ! j) ! (if tx_hdrlen a = 26 then unat (tx_priority a) else 0) \<noteq> push_bit 4 n"

lemma link_received:
  assumes ready: "tx_ready en a stas k" and "tx_encrypt a = 0" and "peer en ren a j p n"
    and r: "frame_ok (rx_frame.truncate r)" "frame_bytes (rx_frame.truncate r) = tx_header en a n @ rtw_put_snap t @ payload"
    and "length payload < 2 ^ 16 - 8"
  shows "\<exists>r' p' g. validate_recv_frame ren r p = Some (RX_SUCCESS, r', p') \<and>
    wlanhdr_to_ethhdr False (rx_frame.truncate r') = Some (SUCCESS, g) \<and> frame_bytes g = tx_dst a @ tx_src a @ be16_bytes t @ payload"
proof -
  obtain sd a1 a2 a3 q where ad: "wlanhdr_addrs en a = Some (sd, a1, a2, a3, q)" and hl: "tx_hdrlen a = (if q then 26 else 24)"
      and st: "tx_subtype a = (if q then 0x88 else 0x08)"
    using ready by (auto simp: tx_ready_def split: option.splits)
  let ?fc = "tx_fc en a" and ?sc = "push_bit 4 n :: u16" and ?L = "rtw_put_snap t @ payload"
  note fc = tx_fc_plain [OF st assms(2), of en]
  have ok: "hdr3_ok [0, 0] a1 a2 a3" using ad ready by (auto simp: wlanhdr_addrs_def tx_ready_def hdr3_ok_def split: if_splits)
  have hd: "tx_header en a n = hdr3 ?fc [0, 0] a1 a2 a3 ?sc @ (if q then put16 (tx_qc a) else [])" by (simp add: tx_header_def ad)
  let ?Q = "if q then put16 (tx_qc a) else []"
  obtain pre post where "rxf_buf (rx_frame.truncate r) = pre @ (tx_header en a n @ ?L) @ post" "rxf_data (rx_frame.truncate r) = int (length pre)"
    by (rule frame_bytes_split [OF r])
  then have b: "rxf_buf r = pre @ hdr3 ?fc [0, 0] a1 a2 a3 ?sc @ (?Q @ ?L @ post)" "rxf_data r = int (length pre)"
    unfolding hd by (simp_all add: rx_frame.truncate_def)
  define h where "h = hdr_attribs ?fc ?sc r"
  have h: "rxf_buf h = rxf_buf r" "rxf_data h = rxf_data r" by (simp_all add: h_def hdr_attribs_def Let_def)
  have g16: "get16 (rxf_buf r) (rxf_data r) = Some ?fc" using hdr3_get(1) [OF ok refl] b by simp
  have gs: "GetSubType (rxf_buf h) (rxf_data h) = Some (?fc AND 0x00fc)" "GetPwrMgt (rxf_buf h) (rxf_data h) = Some False"
    using g16 fc(8) by (simp_all add: h GetSubType_def GetPwrMgt_def hdr_flag_def)
  have dir: "?fc AND TO_DS = 0 \<and> ?fc AND FROM_DS \<noteq> 0 \<and> ap2sta_data_frame ren (from_ap a1 a2 a3 h) p = Some (RX_SUCCESS, Some j, from_ap a1 a2 a3 h, p) \<and> tx_dst a = a1 \<and> tx_src a = a3 \<or>
      ?fc AND TO_DS \<noteq> 0 \<and> ?fc AND FROM_DS = 0 \<and> sta2ap_data_frame ren (to_ap a1 a2 a3 h) p = Some (RX_SUCCESS, Some j, to_ap a1 a2 a3 h, p) \<and> tx_dst a = a3 \<and> tx_src a = a2"
  proof (cases "downlink en ren a j")
    case True
    then have "a1 = tx_dst a" "a2 = te_bssid en" "a3 = tx_src a" "tx_ds en = FROM_DS"
      using ad by (auto simp: downlink_def wlanhdr_addrs_def tx_ds_def)
    then show ?thesis using downlink_accepted [OF True gs(1) fc(9)] fc(6,7) by (simp add: TO_DS_def FROM_DS_def)
  next
    case False
    then have up: "uplink en ren a j p" "j < length (rv_stas p)" using assms(3) by (simp_all add: peer_def)
    then have "a1 = te_bssid en" "a2 = tx_src a" "a3 = tx_dst a" "tx_ds en = TO_DS"
      using ad by (auto simp: uplink_def wlanhdr_addrs_def tx_ds_def)
    then show ?thesis using uplink_accepted [OF up gs(1) fc(9) gs(2)] fc(6,7) by (simp add: TO_DS_def FROM_DS_def)
  qed
  have pk: "j < length (rv_stas p)" "length (rv_tid_rxseq (rv_stas p ! j)) = 16" using assms(3) by (simp_all add: peer_def)
  have prio: "tx_priority a < 16" using ready by (simp add: tx_ready_def)
  obtain r' p' where v: "validate_recv_frame ren r p = Some (RX_SUCCESS, r', p')"
    and r': "rxf_buf r' = rxf_buf r" "rxf_data r' = rxf_data r" "rxf_tail r' = rxf_tail r" "rxf_end r' = rxf_end r" "rxf_len r' = rxf_len r"
      "rx_hdrlen (rxf_attrib r') = (if q then 26 else 24)" "rx_encrypt (rxf_attrib r') = 0" "rx_iv_len (rxf_attrib r') = 0"
      "rx_icv_len (rxf_attrib r') = 0" "rx_dst (rxf_attrib r') = tx_dst a" "rx_src (rxf_attrib r') = tx_src a"
  proof -
    have "q \<Longrightarrow> \<exists>rest. ?Q @ ?L @ post = put16 (tx_qc a) @ rest" by simp
    moreover have "(if q then tx_priority a else 0) = (if q then ucast (tx_qc a AND 0x000f) else 0)"
      using tx_qc_fields(1) [OF prio] by simp
    moreover have "rv_tid_rxseq (rv_stas p ! j) ! unat (if q then tx_priority a else 0) \<noteq> ?sc"
      using assms(3) hl by (auto simp: peer_def split: if_splits)
    ultimately show thesis
      using receive_plain [OF b ok fc(1-5) _ pk _ _ dir [unfolded h_def]] that by blast
  qed
  let ?t = "rx_frame.truncate r'"
  have t: "frame_ok ?t" "frame_bytes ?t = tx_header en a n @ ?L" "hdr_size ?t = (if q then 26 else 24)" "icv_size ?t = 0"
    using r r' by (simp_all add: rx_frame.truncate_def frame_ok_def frame_bytes_def hdr_size_def icv_size_def)
  have "length (tx_header en a n) = (if q then 26 else 24)" using ok by (simp add: hd length_hdr3)
  then have ep: "eth_payload ?t = ?L" using t r'(7) by (simp add: eth_payload_def frag_body_def rx_frame.truncate_def)
  have ta: "rx_dst (rxf_attrib ?t) = tx_dst a" "rx_src (rxf_attrib ?t) = tx_src a" using r'(10,11) by (simp_all add: rx_frame.truncate_def)
  have "frag_ok ?t" "14 \<le> hdr_size ?t" using t ok by (simp_all add: frag_ok_def hd length_hdr3)
  then obtain g where "wlanhdr_to_ethhdr False ?t = Some (SUCCESS, g)" "frame_bytes g = eth_frame (tx_dst a) (tx_src a) ?L"
    using wlanhdr_to_ethhdr_data [of ?t] ready assms(6) unfolding ep ta by (auto simp: tx_ready_def)
  then show ?thesis using v unfolding eth_frame_snap by blast
qed

text \<open>
  C31 (roundtrip): what one driver sends, another one receives.  An Ethernet frame whose payload fits into one fragment
  and which is sent without encryption becomes exactly one 802.11 frame; and whenever the access
  point or the station it is meant for receives that frame, in any buffer, and it is not a
  repetition of the frame before, the checks accept it and the conversion gives back the
  Ethernet frame, byte for byte.
\<close>

theorem sent_is_received:
  assumes "tx_ready en (tf_attr f) stas k" and "tf_buf_addr f = Some base"
    and "tx_bswenc (tf_attr f) = 0" and "tx_encrypt (tf_attr f) = 0" and "tx_iv_len (tf_attr f) = 0" and "tx_icv_len (tf_attr f) = 0"
    and "eth_hdr = tx_dst (tf_attr f) @ tx_src (tf_attr f) @ be16_bytes (tx_ether_type (tf_attr f))" and "tx_pkt_hdrlen (tf_attr f) = 14"
    and "length payload < 2 ^ 16 - 8" and "fits_one (tf_attr f) (sint (te_frag_len en - 4)) (length payload)"
    and "hw_hdr_offset (cipher_frame f) + max 64 (unat (tx_hdrlen (tf_attr f)) + 8 + length payload) \<le> length (tf_buf f)"
    and "m = tx_header en (tf_attr f) (next_seq (tf_attr f) (stas ! k)) @ rtw_put_snap (tx_ether_type (tf_attr f)) @ payload"
  shows "\<exists>f' stas'. rtw_xmitframe_coalesce en junk (eth_hdr @ payload) f stas = Some (SUCCESS, f', stas') \<and>
    air_fragments (te_frag_len en) (cipher_frame f') = [m] \<and>
    (\<forall>ren r p j. peer en ren (tf_attr f) j p (next_seq (tf_attr f) (stas ! k)) \<and>
        frame_ok (rx_frame.truncate r) \<and> frame_bytes (rx_frame.truncate r) = m \<longrightarrow>
      (\<exists>r' p' g. validate_recv_frame ren r p = Some (RX_SUCCESS, r', p') \<and>
        wlanhdr_to_ethhdr False (rx_frame.truncate r') = Some (SUCCESS, g) \<and> frame_bytes g = eth_hdr @ payload))"
proof -
  let ?a = "tf_attr f" and ?n = "next_seq (tf_attr f) (stas ! k)"
  have "length eth_hdr = 14" using assms(1,7) by (simp add: tx_ready_def)
  then obtain f' stas' where c: "rtw_xmitframe_coalesce en junk (eth_hdr @ payload) f stas = Some (SUCCESS, f', stas')"
      "air_fragments (te_frag_len en) (cipher_frame f') = [m]"
    using coalesce_frame [OF assms(1-3), of eth_hdr payload junk] assms(4-6,8-12) by (auto simp: TKIP_ENCRYPTION_def)
  have "\<exists>r' p' g. validate_recv_frame ren r p = Some (RX_SUCCESS, r', p') \<and>
      wlanhdr_to_ethhdr False (rx_frame.truncate r') = Some (SUCCESS, g) \<and> frame_bytes g = eth_hdr @ payload"
    if "peer en ren ?a j p ?n" "frame_ok (rx_frame.truncate r)" "frame_bytes (rx_frame.truncate r) = m" for ren r p j
    using link_received [OF assms(1,4) that(1,2) that(3) [unfolded assms(12)] assms(9)] unfolding assms(7) by simp
  with c show ?thesis by blast
qed

text \<open>An instance: the access point 02:00:00:00:00:09 sends to its station 02:00:00:00:00:01.\<close>

definition lk_table :: "byte list \<Rightarrow> sta_priv" where
  "lk_table addr = (the (snd (rtw_init_sta_priv True (replicate 6 0))))\<lparr>sp_stainfo := [init_stainfo\<lparr>si_hwaddr := addr\<rparr>], sp_sta_hash := replicate 32 [0]\<rparr>"

lemma lk_lookup: "\<not> Sta_Mgt.is_multicast_ether_addr addr \<Longrightarrow> rtw_get_stainfo (lk_table addr) (Some addr) = Inr (Some 0)"
  using wifi_mac_hash_less [of addr]
  by (simp add: lk_table_def rtw_get_stainfo_def spin_lock_bh_def spin_unlock_bh_def rtw_init_sta_priv_def sta_key_def)

definition lk_sec :: security_priv where
  "lk_sec = \<lparr>dot11PrivacyKeyIndex = 0, dot11DefKey = [], dot11DefKeylen = [], dot118021XGrpKeyid = 0, dot118021XGrpKey = [], binstallGrpkey = False\<rparr>"

definition lk_en :: tx_env where
  "lk_en = \<lparr>te_fw_state = 0x11, te_bssid = [2, 0, 0, 0, 0, 9], te_qos_option = 0, te_stapriv = lk_table [2, 0, 0, 0, 0, 1], te_frag_len = 2346,
     te_sec = lk_sec, te_grptxmickey = [], te_dot11PrivacyAlgrthm = 0, te_wireless_mode = 3, te_bwmode = 0, te_HT_protection = 0,
     te_assoc_AP_vendor = 0, te_rts_thresh = 2347\<rparr>"

definition lk_attr :: tx_attr where
  "lk_attr = \<lparr>tx_hdrlen = 24, last_txcmdsz = 0, nr_frags = 0, tx_encrypt = 0, tx_iv_len = 0, tx_icv_len = 0, tx_ta = [2, 0, 0, 0, 0, 9],
     tx_ra = [2, 0, 0, 0, 0, 1], tx_UncstKey = [], tx_subtype = 8, tx_bswenc = 0, tx_ether_type = 0x0800, tx_seqnum = 0, tx_pkt_hdrlen = 14,
     tx_pktlen = 3, tx_iv = replicate 18 0, tx_icv = replicate 16 0, tx_priority = 0, tx_ack_policy = 0, tx_vcs_mode = 0,
     tx_dst = [2, 0, 0, 0, 0, 1], tx_src = [2, 0, 0, 0, 0, 7], tx_qos_en = 0, tx_ht_en = 0, tx_ampdu_en = 0, tx_mdata = 0, tx_eosp = 0,
     tx_psta = Some 0, tx_rtsen = 0, tx_cts2self = 0, tx_tkiptxmickey = replicate 16 0\<rparr>"

definition lk_frame :: tx_frame where
  "lk_frame = \<lparr>tf_attr = lk_attr, tf_buf_addr = Some 4096, tf_buf = replicate 200 0, tf_pkt_offset = 0\<rparr>"

definition lk_stas :: "tx_sta list" where
  "lk_stas = [\<lparr>ts_state = 1, txseq_tid = replicate 16 0, BA_starting_seqctrl = replicate 16 0, ts_ampdu_enable = 0, ts_agg_enable_bitmap = 0\<rparr>]"

definition lk_ren :: rv_env where
  "lk_ren = \<lparr>rv_fw_state = 9, rv_mybssid = [2, 0, 0, 0, 0, 9], rv_myhwaddr = [2, 0, 0, 0, 0, 1], rv_stapriv = lk_table [2, 0, 0, 0, 0, 9],
     rv_dot11AuthAlgrthm = 0, rv_dot11PrivacyAlgrthm = 0, rv_dot118021XGrpPrivacy = 0, stop_sta_xmit = (\<lambda>_ p. p), wakeup_sta_to_xmit = (\<lambda>_ p. p),
     xmit_delivery_enabled_frames = (\<lambda>_ p. p), issue_qos_nulldata = (\<lambda>_ _ p. p), validate_recv_mgnt_frame = (\<lambda>_ p. p), validate_recv_ctrl_frame = (\<lambda>_ p. p)\<rparr>"

definition lk_priv :: rv_priv where
  "lk_priv = \<lparr>rv_stas = [\<lparr>rv_state = 1, rv_qos_option = 0, rv_qos_info = 0, rv_uapsd_bk = 0, rv_uapsd_be = 0, rv_uapsd_vi = 0, rv_uapsd_vo = 0,
       rv_sleepq_ac_len = 0, rv_tid_rxseq = replicate 16 0, rv_dot118021XPrivacy = 0, rv_rx_data_pkts = 0, rv_rx_bytes = 0\<rparr>],
     rv_deauths = [], rv_total_rx_bytes = 0, rv_NumRxOkInPeriod = 0, rv_NumRxUnicastOkInPeriod = 0, rv_is_any_nonbepkts = False, rv_rx_drop = 0\<rparr>"

definition lk_rx :: "byte list \<Rightarrow> rx_vframe" where
  "lk_rx m = \<lparr>rxf_skb = True, rxf_attrib = rxf_attrib zero_frame, rxf_len = of_nat (length m), rxf_buf = m, rxf_data = 0, rxf_tail = int (length m),
     rxf_end = int (length m), rxv_to_fr_ds = 0, rxv_bssid = replicate 6 0, rxv_order = False, rxv_pw_save = False, rxv_mdata = False,
     rxv_ack_policy = 0, rxv_psta = None, rxv_preorder_ctrl = 0\<rparr>"

theorem sent_is_received_witness:
  "\<exists>f' stas' m r' p' g. rtw_xmitframe_coalesce lk_en \<lparr>K0 = 0, K1 = 0, L = 0, R = 0, M = 0, nBytesInM = 0\<rparr>
      [2, 0, 0, 0, 0, 1, 2, 0, 0, 0, 0, 7, 8, 0, 11, 12, 13] lk_frame lk_stas = Some (SUCCESS, f', stas') \<and>
    air_fragments 2346 (cipher_frame f') = [m] \<and> validate_recv_frame lk_ren (lk_rx m) lk_priv = Some (RX_SUCCESS, r', p') \<and>
    wlanhdr_to_ethhdr False (rx_frame.truncate r') = Some (SUCCESS, g) \<and>
    frame_bytes g = [2, 0, 0, 0, 0, 1, 2, 0, 0, 0, 0, 7, 8, 0, 11, 12, 13]"
proof -
  let ?h = "[2, 0, 0, 0, 0, 1, 2, 0, 0, 0, 0, 7, 8, 0] :: byte list" and ?d = "[11, 12, 13] :: byte list" and ?n = "next_seq lk_attr (lk_stas ! 0)"
  define m where "m = tx_header lk_en lk_attr ?n @ rtw_put_snap 0x0800 @ ?d"
  have a: "tf_attr lk_frame = lk_attr" "tf_buf_addr lk_frame = Some 4096" "length (tf_buf lk_frame) = 200" by (simp_all add: lk_frame_def)
  have w: "wlanhdr_addrs lk_en lk_attr = Some (SetFrDs, [2, 0, 0, 0, 0, 1], [2, 0, 0, 0, 0, 9], [2, 0, 0, 0, 0, 7], False)"
    by (simp add: wlanhdr_addrs_def lk_en_def lk_attr_def check_fwstate_def WIFI_STATION_STATE_def WIFI_AP_STATE_def)
  have uc: "\<not> Sta_Mgt.is_multicast_ether_addr [2, 0, 0, 0, 0, x]" for x by (simp add: Sta_Mgt.is_multicast_ether_addr_def)
  have ready: "tx_ready lk_en lk_attr lk_stas 0"
    using lk_lookup [OF uc, of 1] by (simp add: tx_ready_def w) (simp add: lk_en_def lk_attr_def lk_stas_def WIFI_ASOC_STATE_def)
  have n: "?n = 1" by (simp add: next_seq_def lk_attr_def lk_stas_def)
  have "[2, 0, 0, 0, 0, 9] \<noteq> (replicate 6 0 :: byte list)" by (simp add: numeral_eq_Suc)
  then have peer: "peer lk_en lk_ren lk_attr 0 lk_priv ?n"
    unfolding n using lk_lookup [OF uc, of 9] uc [of 1]
    by (simp add: peer_def downlink_def lk_en_def lk_ren_def lk_attr_def lk_priv_def check_fwstate_def sta_lookup_def
        WIFI_STATION_STATE_def WIFI_AP_STATE_def WIFI_ASOC_STATE_def)
  have "length m = 35" by (simp add: m_def tx_header_def w length_hdr3 hdr3_ok_def)
  then have rx: "frame_ok (rx_frame.truncate (lk_rx m))" "frame_bytes (rx_frame.truncate (lk_rx m)) = m"
    by (simp_all add: lk_rx_def rx_frame.truncate_def frame_ok_def frame_bytes_def)
  have "\<exists>f' stas'. rtw_xmitframe_coalesce lk_en \<lparr>K0 = 0, K1 = 0, L = 0, R = 0, M = 0, nBytesInM = 0\<rparr> (?h @ ?d) lk_frame lk_stas = Some (SUCCESS, f', stas') \<and>
    air_fragments (te_frag_len lk_en) (cipher_frame f') = [m] \<and>
    (\<forall>ren r p j. peer lk_en ren (tf_attr lk_frame) j p (next_seq (tf_attr lk_frame) (lk_stas ! 0)) \<and>
        frame_ok (rx_frame.truncate r) \<and> frame_bytes (rx_frame.truncate r) = m \<longrightarrow>
      (\<exists>r' p' g. validate_recv_frame ren r p = Some (RX_SUCCESS, r', p') \<and>
        wlanhdr_to_ethhdr False (rx_frame.truncate r') = Some (SUCCESS, g) \<and> frame_bytes g = ?h @ ?d))"
  proof (rule sent_is_received)
    show "tx_ready lk_en (tf_attr lk_frame) lk_stas 0" using ready a by simp
  qed (simp_all add: a m_def, simp_all add: lk_attr_def be16_bytes_def fits_one_def uc sw_icv_def lk_en_def hw_hdr_offset_def cipher_frame_def lk_frame_def TXDESC_SIZE_def)
  then show ?thesis using peer rx a by (auto simp: lk_en_def) blast
qed

end
