(* ===== verification/Tx_Attrib.thy ===== *)
theory Tx_Attrib
  imports Xmit
begin

text \<open>
  The attributes of a packet to be sent (src/core/rtw_xmit.c): \<open>update_attrib\<close> reads the
  Ethernet header, finds the station, chooses cipher, key and initialisation vector
  (\<open>update_attrib_sec_info\<close>), copies what is known of the station's radio
  (\<open>update_attrib_phy_info\<close>) and the priority (\<open>set_qos\<close>, \<open>qos_acm\<close>).

  The initialisation vectors come from the station's 48-bit packet number.  Shown is that
  they, and with them the keys of TKIP, do not repeat before the number wraps.
\<close>

section \<open>Attributes, stations, environment\<close>

record at_attr = tx_attr +
  tx_dhcp_pkt :: byte
  tx_mac_id :: byte
  tx_key_idx :: byte
  tx_raid :: byte
  tx_bwmode :: byte
  tx_ch_offset :: byte
  tx_sgi :: byte
  tx_pctrl :: byte
  tx_triggered :: byte
  tx_qsel :: byte
  tx_retry_ctrl :: byte
  tx_mbssid :: byte
  tx_ldpc :: byte
  tx_stbc :: byte

text \<open>The attributes after \<open>memset(&pxframe->tx_attrib, 0, ...)\<close>.\<close>

definition zero_attr :: at_attr where
  "zero_attr = \<lparr>tx_hdrlen = 0, last_txcmdsz = 0, nr_frags = 0, tx_encrypt = 0, tx_iv_len = 0, tx_icv_len = 0,
     tx_ta = replicate 6 0, tx_ra = replicate 6 0, tx_UncstKey = replicate 16 0, tx_subtype = 0, tx_bswenc = 0,
     tx_ether_type = 0, tx_seqnum = 0, tx_pkt_hdrlen = 0, tx_pktlen = 0, tx_iv = replicate 18 0, tx_icv = replicate 16 0,
     tx_priority = 0, tx_ack_policy = 0, tx_vcs_mode = 0, tx_dst = replicate 6 0, tx_src = replicate 6 0, tx_qos_en = 0,
     tx_ht_en = 0, tx_ampdu_en = 0, tx_mdata = 0, tx_eosp = 0, tx_psta = None, tx_rtsen = 0, tx_cts2self = 0,
     tx_tkiptxmickey = replicate 16 0, tx_dhcp_pkt = 0, tx_mac_id = 0, tx_key_idx = 0, tx_raid = 0, tx_bwmode = 0,
     tx_ch_offset = 0, tx_sgi = 0, tx_pctrl = 0, tx_triggered = 0, tx_qsel = 0, tx_retry_ctrl = 0, tx_mbssid = 0,
     tx_ldpc = 0, tx_stbc = 0\<rparr>"

record at_sta = tx_sta +
  as_mac_id :: u32
  as_qos_option :: u32
  as_ieee8021x_blocked :: u32
  as_dot118021XPrivacy :: u32
  as_tkiptxmickey :: "byte list"
  as_UncstKey :: "byte list"
  as_txpn :: u64
  as_cts2self :: byte
  as_rtsen :: byte
  as_raid :: byte
  as_vht_option :: byte
  as_vht_ldpc_cap :: byte
  as_vht_stbc_cap :: byte
  as_vht_bwmode :: byte
  as_vht_sgi :: byte
  as_ht_option :: u32
  as_ht_bwmode :: byte
  as_ht_ch_offset :: byte
  as_ht_sgi :: byte

record at_env = tx_env +
  ae_acm_mask :: byte
  ae_dot11AuthAlgrthm :: u32
  ae_dot118021XGrpPrivacy :: u32
  ae_busetkipkey :: byte
  ae_sw_encrypt :: bool
  ae_hw_decrypted :: bool

section \<open>Initialisation vectors\<close>

definition TSC :: "u64 \<Rightarrow> nat \<Rightarrow> byte" where
  "TSC v n = ucast (drop_bit (8 * n) v)"

text \<open>
  The macros write the first bytes of the vector and count the packet number on; it wraps
  at 24 bits for WEP and at 48 bits for TKIP and CCMP.
\<close>

definition WEP_IV :: "byte list \<Rightarrow> u64 \<Rightarrow> byte \<Rightarrow> byte list \<times> u64" where
  "WEP_IV iv pn keyidx =
     ([TSC pn 0, TSC pn 1, TSC pn 2, push_bit 6 (keyidx AND 3)] @ drop 4 iv,
      if pn = 0xffffff then 0 else pn + 1)"

definition TKIP_IV :: "byte list \<Rightarrow> u64 \<Rightarrow> byte \<Rightarrow> byte list \<times> u64" where
  "TKIP_IV iv pn keyidx =
     ([TSC pn 1, (TSC pn 1 OR 0x20) AND 0x7f, TSC pn 0, 0x20 OR push_bit 6 (keyidx AND 3),
       TSC pn 2, TSC pn 3, TSC pn 4, TSC pn 5] @ drop 8 iv,
      if pn = 0xffffffffffff then 0 else pn + 1)"

definition AES_IV :: "byte list \<Rightarrow> u64 \<Rightarrow> byte \<Rightarrow> byte list \<times> u64" where
  "AES_IV iv pn keyidx =
     ([TSC pn 0, TSC pn 1, 0, 0x20 OR push_bit 6 (keyidx AND 3),
       TSC pn 2, TSC pn 3, TSC pn 4, TSC pn 5] @ drop 8 iv,
      if pn = 0xffffffffffff then 0 else pn + 1)"

section \<open>Cipher and keys\<close>

definition NO_ENCRYPTION :: byte where "NO_ENCRYPTION = 0"

definition sec_algo :: "at_env \<Rightarrow> at_attr \<Rightarrow> 'a at_sta_scheme \<Rightarrow> bool \<Rightarrow> at_attr" where
  "sec_algo en a s bmcast =
     (let auth = ae_dot11AuthAlgrthm en;
          e = GET_ENCRY_ALGO auth (te_dot11PrivacyAlgrthm en) (ae_dot118021XGrpPrivacy en) (as_dot118021XPrivacy s) (tx_encrypt a) bmcast;
          key = (if auth = dot11AuthAlgrthm_Open \<or> auth = dot11AuthAlgrthm_Shared \<or> auth = dot11AuthAlgrthm_Auto
                 then ucast (dot11PrivacyKeyIndex (te_sec en))
                 else if auth = dot11AuthAlgrthm_8021X \<and> bmcast then ucast (dot118021XGrpKeyid (te_sec en)) else 0)
      in a\<lparr>tx_encrypt := (if is_wep e \<and> tx_ether_type a = 0x888e then NO_ENCRYPTION else e), tx_key_idx := key\<rparr>)"

definition sec_iv :: "at_env \<Rightarrow> at_attr \<Rightarrow> 'a at_sta_scheme \<Rightarrow> bool \<Rightarrow> status \<times> at_attr \<times> 'a at_sta_scheme" where
  "sec_iv en a s bmcast =
     (let e = tx_encrypt a; keyidx = (if bmcast then tx_key_idx a else 0) in
      if is_wep e then
        (let a = a\<lparr>tx_iv_len := 4, tx_icv_len := 4\<rparr>; (iv, pn) = WEP_IV (tx_iv a) (as_txpn s) (tx_key_idx a)
         in (SUCCESS, a\<lparr>tx_iv := iv, tx_UncstKey := as_UncstKey s\<rparr>, s\<lparr>as_txpn := pn\<rparr>))
      else if e = TKIP_ENCRYPTION then
        (let a = a\<lparr>tx_iv_len := 8, tx_icv_len := 4\<rparr>; (iv, pn) = TKIP_IV (tx_iv a) (as_txpn s) keyidx
         in if ae_busetkipkey en = 0 then (FAIL, a, s)
            else (SUCCESS, a\<lparr>tx_iv := iv, tx_tkiptxmickey := as_tkiptxmickey s, tx_UncstKey := as_UncstKey s\<rparr>, s\<lparr>as_txpn := pn\<rparr>))
      else if e = AESCCMP_ENCRYPTION then
        (let a = a\<lparr>tx_iv_len := 8, tx_icv_len := 8\<rparr>; (iv, pn) = AES_IV (tx_iv a) (as_txpn s) keyidx
         in (SUCCESS, a\<lparr>tx_iv := iv, tx_UncstKey := as_UncstKey s\<rparr>, s\<lparr>as_txpn := pn\<rparr>))
      else
        (let a = a\<lparr>tx_iv_len := 0, tx_icv_len := 0\<rparr>
         in (SUCCESS, if e > 0 then a\<lparr>tx_UncstKey := as_UncstKey s\<rparr> else a, s)))"

definition update_attrib_sec_info :: "at_env \<Rightarrow> at_attr \<Rightarrow> 'a at_sta_scheme \<Rightarrow> status \<times> at_attr \<times> 'a at_sta_scheme" where
  "update_attrib_sec_info en a s =
     (let bmcast = Sta_Mgt.is_multicast_ether_addr (tx_ra a);
          a = a\<lparr>tx_UncstKey := replicate 16 0, tx_tkiptxmickey := replicate 16 0\<rparr>
      in if as_ieee8021x_blocked s = 1
         then (if tx_ether_type a \<noteq> 0x888e \<and> \<not> check_fwstate (te_fw_state en) WIFI_MP_STATE
               then (FAIL, a\<lparr>tx_encrypt := 0\<rparr>, s)
               else sec_iv en (a\<lparr>tx_encrypt := 0\<rparr>) s bmcast)
         else sec_iv en (sec_algo en a s bmcast) s bmcast)"

section \<open>Radio and priority\<close>

definition update_attrib_phy_info :: "at_attr \<Rightarrow> 'a at_sta_scheme \<Rightarrow> at_attr" where
  "update_attrib_phy_info a s =
     (let a = a\<lparr>tx_rtsen := as_rtsen s, tx_cts2self := as_cts2self s, tx_mdata := 0, tx_eosp := 0, tx_triggered := 0,
                tx_qos_en := ucast (as_qos_option s), tx_raid := as_raid s\<rparr>;
          a = (if as_vht_option s \<noteq> 0
               then a\<lparr>tx_bwmode := as_vht_bwmode s, tx_sgi := as_vht_sgi s,
                      tx_ldpc := if as_vht_ldpc_cap s AND 2 \<noteq> 0 then 1 else tx_ldpc a,
                      tx_stbc := if as_vht_stbc_cap s AND 2 \<noteq> 0 then 1 else tx_stbc a\<rparr>
               else a\<lparr>tx_bwmode := as_ht_bwmode s, tx_sgi := as_ht_sgi s\<rparr>)
      in a\<lparr>tx_ht_en := ucast (as_ht_option s), tx_ch_offset := as_ht_ch_offset s, tx_ampdu_en := 0, tx_retry_ctrl := 0\<rparr>)"

definition WIFI_QOS_DATA_TYPE :: byte where "WIFI_QOS_DATA_TYPE = 0x88"

text \<open>The type of service of an IP packet is the second byte of its header.\<close>

definition set_qos :: "byte list \<Rightarrow> at_attr \<Rightarrow> at_attr option" where
  "set_qos skb a = do {
     up \<leftarrow> (if tx_ether_type a = 0x0800 then map_option (\<lambda>tos. drop_bit 5 tos) (rd skb 15)
            else if tx_ether_type a = 0x888e then Some 7 else Some 0);
     Some (a\<lparr>tx_priority := up, tx_hdrlen := of_nat WLAN_HDR_A3_QOS_LEN, tx_subtype := WIFI_QOS_DATA_TYPE\<rparr>)
   }"

definition qos_acm :: "byte \<Rightarrow> byte \<Rightarrow> byte" where
  "qos_acm acm_mask priority =
     (if priority = 0 \<or> priority = 3 then (if acm_mask AND 2 \<noteq> 0 then 1 else priority)
      else if priority = 1 \<or> priority = 2 then priority
      else if priority = 4 \<or> priority = 5 then (if acm_mask AND 4 \<noteq> 0 then 0 else priority)
      else if priority = 6 \<or> priority = 7 then (if acm_mask AND 8 \<noteq> 0 then 5 else priority)
      else priority)"

text \<open>
  The cast of \<open>skb->data\<close> to \<open>struct udphdr *\<close> comes before the addition, so the ports
  are read at 8 * (14 + 20), and they are compared in the byte order of the host.
\<close>

definition udp_at :: int where "udp_at = 8 * (14 + 20)"

definition dhcp_ports :: "byte list \<Rightarrow> bool option" where
  "dhcp_ports skb = do {
     source \<leftarrow> get16 skb udp_at;
     dest \<leftarrow> get16 skb (udp_at + 2);
     Some (source = 68 \<and> dest = 67 \<or> source = 67 \<and> dest = 68)
   }"

definition attrib_dhcp :: "byte list \<Rightarrow> at_attr \<Rightarrow> at_attr option" where
  "attrib_dhcp skb a =
     (if tx_ether_type a = 0x0800 then
        (if tx_pktlen a > 282
         then map_option (\<lambda>d. a\<lparr>tx_dhcp_pkt := (if d then 1 else 0)\<rparr>) (dhcp_ports skb)
         else Some (a\<lparr>tx_dhcp_pkt := 0\<rparr>))
      else Some a)"

section \<open>\<open>update_attrib\<close>\<close>

definition attrib_addrs :: "at_env \<Rightarrow> at_attr \<Rightarrow> at_attr" where
  "attrib_addrs en a =
     (let fw = check_fwstate (te_fw_state en) in
      if fw WIFI_ADHOC_STATE \<or> fw WIFI_ADHOC_MASTER_STATE then a\<lparr>tx_ra := tx_dst a, tx_ta := tx_src a\<rparr>
      else if fw WIFI_STATION_STATE then a\<lparr>tx_ra := te_bssid en, tx_ta := tx_src a\<rparr>
      else if fw WIFI_AP_STATE then a\<lparr>tx_ra := tx_dst a, tx_ta := te_bssid en\<rparr>
      else a)"

definition attrib_header :: "at_env \<Rightarrow> byte list \<Rightarrow> at_attr \<Rightarrow> at_attr option" where
  "attrib_header en skb a = do {
     p0 \<leftarrow> rd skb 12;
     p1 \<leftarrow> rd skb 13;
     dst \<leftarrow> rd_bytes skb 0 6;
     src \<leftarrow> rd_bytes skb 6 6;
     let a = a\<lparr>tx_ether_type := push_bit 8 (ucast p0) OR ucast p1, tx_dst := dst, tx_src := src\<rparr>;
     attrib_dhcp skb ((attrib_addrs en a)\<lparr>tx_pktlen := of_nat (length skb) - 14\<rparr>)
   }"

definition attrib_sta :: "at_env \<Rightarrow> at_attr \<Rightarrow> nat option option" where
  "attrib_sta en a =
     (case (if Sta_Mgt.is_multicast_ether_addr (tx_ra a) then rtw_get_bcmc_stainfo (te_stapriv en)
            else rtw_get_stainfo (te_stapriv en) (Some (tx_ra a))) of
        Inl _ \<Rightarrow> None | Inr psta \<Rightarrow> Some psta)"

definition attrib_qos :: "at_env \<Rightarrow> byte list \<Rightarrow> at_attr \<Rightarrow> at_attr option" where
  "attrib_qos en skb a =
     (let a = a\<lparr>tx_hdrlen := of_nat WLAN_HDR_A3_LEN, tx_subtype := 0x08, tx_priority := 0\<rparr> in
      if check_fwstate (te_fw_state en) (WIFI_AP_STATE OR WIFI_ADHOC_STATE OR WIFI_ADHOC_MASTER_STATE)
      then (if tx_qos_en a \<noteq> 0 then set_qos skb a else Some a)
      else if te_qos_option en \<noteq> 0
      then map_option (\<lambda>a. if ae_acm_mask en \<noteq> 0 then a\<lparr>tx_priority := qos_acm (ae_acm_mask en) (tx_priority a)\<rparr> else a)
             (set_qos skb a)
      else Some a)"

text \<open>
  The last component says whether the driver is told to leave power save
  (\<open>rtw_lps_ctrl_wk_cmd\<close>) for an ARP, EAPOL or DHCP packet.
\<close>

definition update_attrib ::
  "at_env \<Rightarrow> byte list \<Rightarrow> at_attr \<Rightarrow> 'a at_sta_scheme list \<Rightarrow> (status \<times> at_attr \<times> 'a at_sta_scheme list \<times> bool) option" where
  "update_attrib en skb a stas = do {
     a \<leftarrow> attrib_header en skb a;
     let lps = (tx_ether_type a = 0x0806 \<or> tx_ether_type a = 0x888e \<or> tx_dhcp_pkt a = 1);
     psta \<leftarrow> attrib_sta en a;
     (case psta of
        None \<Rightarrow> Some (FAIL, a, stas, lps)
      | Some k \<Rightarrow> do {
          s \<leftarrow> rd stas (int k);
          if ts_state s AND WIFI_ASOC_STATE = 0 then Some (FAIL, a, stas, lps)
          else do {
            let (r, a, s) = update_attrib_sec_info en a s;
            let stas = stas[k := s];
            if r = FAIL then Some (FAIL, a, stas, lps)
            else do {
              let a = (update_attrib_phy_info a s)\<lparr>tx_mac_id := ucast (as_mac_id s), tx_psta := Some k,
                        tx_pctrl := 0, tx_ack_policy := 0, tx_pkt_hdrlen := 14\<rparr>;
              a \<leftarrow> attrib_qos en skb a;
              let a = a\<lparr>tx_bswenc := if tx_encrypt a \<noteq> 0 \<and> (ae_sw_encrypt en \<or> \<not> ae_hw_decrypted en) then 1 else 0\<rparr>;
              Some (SUCCESS, a, stas, lps)
            }
          }
        })
   }"

section \<open>Packet numbers\<close>

text \<open>The packets for one station, one after the other, with the attributes they leave with.\<close>

fun sent_attrs :: "at_env \<Rightarrow> at_sta \<Rightarrow> at_attr list \<Rightarrow> at_attr list" where
  "sent_attrs en s [] = []"
| "sent_attrs en s (a # as) = (let (r, a, s) = update_attrib_sec_info en a s in a # sent_attrs en s as)"

definition pn48_next :: "u64 \<Rightarrow> u64" where
  "pn48_next pn = (if pn = 0xffffffffffff then 0 else pn + 1)"

definition pn48 :: "u64 \<Rightarrow> bool" where
  "pn48 pn \<longleftrightarrow> unat pn < 2 ^ 48"

text \<open>A station with an installed pairwise key for the cipher \<open>e\<close>.\<close>

definition pairwise :: "at_env \<Rightarrow> byte \<Rightarrow> at_sta \<Rightarrow> bool" where
  "pairwise en e s \<longleftrightarrow>
     ae_dot11AuthAlgrthm en = dot11AuthAlgrthm_8021X \<and> ae_busetkipkey en \<noteq> 0 \<and>
     as_ieee8021x_blocked s \<noteq> 1 \<and> as_dot118021XPrivacy s = ucast e \<and> pn48 (as_txpn s) \<and>
     (e = TKIP_ENCRYPTION \<or> e = AESCCMP_ENCRYPTION)"

definition pairwise_iv :: "byte \<Rightarrow> u64 \<Rightarrow> byte list" where
  "pairwise_iv e pn = take 8 (fst (if e = TKIP_ENCRYPTION then TKIP_IV [] pn 0 else AES_IV [] pn 0))"

lemma pn48_next_unat:
  assumes "pn48 pn"
  shows "unat (pn48_next pn) = (unat pn + 1) mod 2 ^ 48"
proof (cases "pn = 0xffffffffffff")
  case False
  from assms have l: "unat pn < 2 ^ 48" by (simp add: pn48_def)
  moreover have "unat pn \<noteq> 2 ^ 48 - 1" using False by (auto simp: word_unat_eq_iff)
  ultimately have "unat pn + 1 < 2 ^ 48" by simp
  then show ?thesis using False by (simp add: pn48_next_def unat_word_ariths)
qed (simp add: pn48_next_def)

lemma pn48_pn48_next: "pn48 pn \<Longrightarrow> pn48 (pn48_next pn)"
  by (simp add: pn48_def [of "pn48_next pn"] pn48_next_unat)

lemma pn48_next_iter: "pn48 pn \<Longrightarrow> unat ((pn48_next ^^ i) pn) = (unat pn + i) mod 2 ^ 48 \<and> pn48 ((pn48_next ^^ i) pn)"
proof (induction i)
  case 0 then show ?case by (simp add: pn48_def)
next
  case (Suc i)
  then have "unat ((pn48_next ^^ Suc i) pn) = ((unat pn + i) mod 2 ^ 48 + 1) mod 2 ^ 48"
    by (simp only: funpow.simps o_apply pn48_next_unat)
  with Suc show ?case by (simp only: funpow.simps o_apply pn48_pn48_next mod_add_left_eq) simp
qed

lemma pn48_next_inj:
  assumes "pn48 pn" "i < 2 ^ 48" "j < 2 ^ 48" "(pn48_next ^^ i) pn = (pn48_next ^^ j) pn"
  shows "i = j"
proof -
  have "(unat pn + i) mod 2 ^ 48 = (unat pn + j) mod 2 ^ 48"
    using pn48_next_iter [OF assms(1)] assms(4) by metis
  then have "i mod 2 ^ 48 = j mod 2 ^ 48" by (simp add: nat_mod_eq_iff)
  then show ?thesis using assms(2,3) by simp
qed

lemma pn48_bit: "pn48 v \<Longrightarrow> 48 \<le> n \<Longrightarrow> \<not> bit v n"
  by (metis bit_take_bit_iff not_le pn48_def take_bit_nat_eq_self unsigned_take_bit_eq word_unat_eq_iff)

lemma TSC_inj:
  assumes "pn48 v" "pn48 w" "\<And>n. n < 6 \<Longrightarrow> TSC v n = TSC w n"
  shows "v = w"
proof (rule bit_word_eqI)
  fix n assume "n < LENGTH(64)"
  show "bit v n = bit w n"
  proof (cases "n < 48")
    case True
    then have "bit (TSC v (n div 8)) (n mod 8) = bit (TSC w (n div 8)) (n mod 8)" using assms(3) by simp
    then show ?thesis by (simp add: TSC_def bit_simps)
  next
    case False then show ?thesis using pn48_bit assms by simp
  qed
qed

lemma pairwise_iv_nth:
  "pairwise_iv TKIP_ENCRYPTION pn ! 0 = TSC pn 1" "pairwise_iv TKIP_ENCRYPTION pn ! 2 = TSC pn 0"
  "pairwise_iv AESCCMP_ENCRYPTION pn ! 0 = TSC pn 0" "pairwise_iv AESCCMP_ENCRYPTION pn ! 1 = TSC pn 1"
  "e = TKIP_ENCRYPTION \<or> e = AESCCMP_ENCRYPTION \<Longrightarrow> 4 \<le> i \<Longrightarrow> i < 8 \<Longrightarrow> pairwise_iv e pn ! i = TSC pn (i - 2)"
  by (auto simp: pairwise_iv_def TKIP_IV_def AES_IV_def TKIP_ENCRYPTION_def AESCCMP_ENCRYPTION_def
      less_Suc_eq numeral_eq_Suc)

lemma cipher_distinct [simp]: "\<not> is_wep TKIP_ENCRYPTION" "\<not> is_wep AESCCMP_ENCRYPTION"
  "AESCCMP_ENCRYPTION \<noteq> TKIP_ENCRYPTION"
  by (simp_all add: is_wep_def WEP40_ENCRYPTION_def WEP104_ENCRYPTION_def TKIP_ENCRYPTION_def AESCCMP_ENCRYPTION_def)

lemma ucast_cipher: "ucast (ucast (e :: byte) :: u32) = e"
  by (rule bit_word_eqI) (auto simp: bit_simps)

lemma sec_algo_pairwise:
  assumes "pairwise en e s"
  shows "sec_algo en a s False = a\<lparr>tx_encrypt := e, tx_key_idx := 0\<rparr>"
  using assms
  by (auto simp: pairwise_def sec_algo_def GET_ENCRY_ALGO_def Let_def ucast_cipher
      dot11AuthAlgrthm_Open_def dot11AuthAlgrthm_Shared_def dot11AuthAlgrthm_8021X_def dot11AuthAlgrthm_Auto_def)

lemma sec_info_pairwise:
  assumes "pairwise en e s" "\<not> Sta_Mgt.is_multicast_ether_addr (tx_ra a)"
  obtains a' where "update_attrib_sec_info en a s = (SUCCESS, a', s\<lparr>as_txpn := pn48_next (as_txpn s)\<rparr>)"
    "take 8 (tx_iv a') = pairwise_iv e (as_txpn s)" "tx_UncstKey a' = as_UncstKey s"
proof -
  let ?a = "a\<lparr>tx_UncstKey := replicate 16 0, tx_tkiptxmickey := replicate 16 0\<rparr>"
  have u: "update_attrib_sec_info en a s = sec_iv en (?a\<lparr>tx_encrypt := e, tx_key_idx := 0\<rparr>) s False"
    using assms sec_algo_pairwise [OF assms(1)] by (simp add: update_attrib_sec_info_def pairwise_def Let_def)
  have "e = TKIP_ENCRYPTION \<or> e = AESCCMP_ENCRYPTION" "ae_busetkipkey en \<noteq> 0" using assms(1) by (simp_all add: pairwise_def)
  then show thesis
    by (elim disjE; intro that; simp add: u sec_iv_def TKIP_IV_def AES_IV_def pairwise_iv_def pn48_next_def Let_def)
       simp_all
qed

lemma sent_attrs_ivs:
  assumes "pairwise en e s" "\<forall>a \<in> set as. \<not> Sta_Mgt.is_multicast_ether_addr (tx_ra a)"
  shows "map (\<lambda>a. (take 8 (tx_iv a), tx_UncstKey a)) (sent_attrs en s as) =
    map (\<lambda>i. (pairwise_iv e ((pn48_next ^^ i) (as_txpn s)), as_UncstKey s)) [0..<length as]"
  using assms
proof (induction as arbitrary: s)
  case (Cons a as)
  obtain a' where a: "update_attrib_sec_info en a s = (SUCCESS, a', s\<lparr>as_txpn := pn48_next (as_txpn s)\<rparr>)"
    "take 8 (tx_iv a') = pairwise_iv e (as_txpn s)" "tx_UncstKey a' = as_UncstKey s"
    using sec_info_pairwise [OF Cons.prems(1)] Cons.prems(2) by (metis list.set_intros(1))
  have "pairwise en e (s\<lparr>as_txpn := pn48_next (as_txpn s)\<rparr>)"
    using Cons.prems(1) by (simp add: pairwise_def pn48_pn48_next)
  from Cons.IH [OF this] Cons.prems(2)
  show ?case by (simp add: a upt_conv_Cons map_Suc_upt [symmetric] funpow_swap1 o_def del: upt_Suc)
qed simp

lemma pairwise_iv_inj:
  assumes "e = TKIP_ENCRYPTION \<or> e = AESCCMP_ENCRYPTION" "pn48 v" "pn48 w"
    "\<And>i. i \<in> {0, if e = TKIP_ENCRYPTION then 2 else 1, 4, 5, 6, 7} \<Longrightarrow> pairwise_iv e v ! i = pairwise_iv e w ! i"
  shows "v = w"
proof (rule TSC_inj [OF assms(2,3)])
  fix n :: nat assume "n < 6"
  then consider "n = 0" | "n = 1" | "2 \<le> n" "n + 2 \<in> {4, 5, 6, 7}" by (cases "n = 0"; cases "n = 1") (auto simp: less_Suc_eq numeral_eq_Suc)
  then show "TSC v n = TSC w n"
  proof cases
    case 3
    with assms(4) [of "n + 2"] \<open>n < 6\<close> show ?thesis
      using pairwise_iv_nth(5) [OF assms(1), of "n + 2"] by (auto split: if_splits)
  qed (use assms(1) assms(4) [of 0] assms(4) [of 2] assms(4) [of 1] pairwise_iv_nth(1-4) in \<open>auto split: if_splits\<close>)
qed

text \<open>
  C32 (functional): the initialisation vectors of up to 2^48 packets sent one after the other to a
  station with a pairwise TKIP or CCMP key are pairwise different, and with TKIP so are
  the ARC4 keys made from them, whatever packet number the station starts with.
\<close>

theorem packet_keys_never_repeat:
  assumes "pairwise en e s" "\<forall>a \<in> set as. \<not> Sta_Mgt.is_multicast_ether_addr (tx_ra a)"
    and "length as \<le> 2 ^ 48" and "length ta = 6"
  shows "distinct (map (\<lambda>a. take 8 (tx_iv a)) (sent_attrs en s as)) \<and>
    (e = TKIP_ENCRYPTION \<longrightarrow> distinct (map (\<lambda>a. tkip_rc4key (tx_UncstKey a) ta (take 8 (tx_iv a))) (sent_attrs en s as)))"
proof -
  have e: "e = TKIP_ENCRYPTION \<or> e = AESCCMP_ENCRYPTION" and p: "pn48 (as_txpn s)" using assms(1) by (auto simp: pairwise_def)
  let ?v = "\<lambda>i. (pn48_next ^^ i) (as_txpn s)"
  have pi: "pn48 (?v i)" for i using pn48_next_iter [OF p] by simp
  have inj: "inj_on ?v {0..<length as}"
    using pn48_next_inj [OF p] assms(3) by (auto intro!: inj_onI)
  note m = sent_attrs_ivs [OF assms(1,2)]
  have "map (\<lambda>a. take 8 (tx_iv a)) (sent_attrs en s as) = map (\<lambda>i. pairwise_iv e (?v i)) [0..<length as]"
    using arg_cong [OF m, of "map fst"] by (simp add: o_def)
  moreover have "map (\<lambda>a. tkip_rc4key (tx_UncstKey a) ta (take 8 (tx_iv a))) (sent_attrs en s as) =
      map (\<lambda>i. tkip_rc4key (as_UncstKey s) ta (pairwise_iv e (?v i))) [0..<length as]"
    using arg_cong [OF m, of "map (\<lambda>(iv, k). tkip_rc4key k ta iv)"] by (simp add: o_def)
  moreover have "?v i = ?v j" if "pairwise_iv e (?v i) = pairwise_iv e (?v j)" for i j
    using pairwise_iv_inj [OF e pi pi] that by simp
  moreover have "?v i = ?v j" if "e = TKIP_ENCRYPTION"
    "tkip_rc4key (as_UncstKey s) ta (pairwise_iv e (?v i)) = tkip_rc4key (as_UncstKey s) ta (pairwise_iv e (?v j))" for i j
    using pairwise_iv_inj [OF e pi pi] tkip_rc4key_inj(2) [OF that(2) assms(4,4)] that(1) by auto
  ultimately show ?thesis
    using inj by (auto simp: distinct_map inj_on_def)
qed

text \<open>An instance: two packets with TKIP for the station 02:00:00:00:00:01.\<close>

definition pk_env :: at_env where
  "pk_env = \<lparr>te_fw_state = 0x11, te_bssid = [2, 0, 0, 0, 0, 9], te_qos_option = 0,
     te_stapriv = the (snd (rtw_init_sta_priv True (replicate 6 0))), te_frag_len = 2346,
     te_sec = \<lparr>dot11PrivacyKeyIndex = 0, dot11DefKey = [], dot11DefKeylen = [], dot118021XGrpKeyid = 0, dot118021XGrpKey = [], binstallGrpkey = False\<rparr>,
     te_grptxmickey = [], te_dot11PrivacyAlgrthm = 2, te_wireless_mode = 3, te_bwmode = 0, te_HT_protection = 0,
     te_assoc_AP_vendor = 0, te_rts_thresh = 2347, ae_acm_mask = 0, ae_dot11AuthAlgrthm = 2, ae_dot118021XGrpPrivacy = 2,
     ae_busetkipkey = 1, ae_sw_encrypt = True, ae_hw_decrypted = False\<rparr>"

definition pk_sta :: at_sta where
  "pk_sta = \<lparr>ts_state = 1, txseq_tid = replicate 16 0, BA_starting_seqctrl = replicate 16 0, ts_ampdu_enable = 0, ts_agg_enable_bitmap = 0,
     as_mac_id = 0, as_qos_option = 0, as_ieee8021x_blocked = 0, as_dot118021XPrivacy = 2, as_tkiptxmickey = replicate 16 1,
     as_UncstKey = replicate 16 1, as_txpn = 0xffffffffffff, as_cts2self = 0, as_rtsen = 0, as_raid = 0, as_vht_option = 0,
     as_vht_ldpc_cap = 0, as_vht_stbc_cap = 0, as_vht_bwmode = 0, as_vht_sgi = 0, as_ht_option = 0, as_ht_bwmode = 0,
     as_ht_ch_offset = 0, as_ht_sgi = 0\<rparr>"

theorem packet_keys_never_repeat_witness:
  "distinct (map (\<lambda>a. tkip_rc4key (tx_UncstKey a) [2, 0, 0, 0, 0, 9] (take 8 (tx_iv a)))
     (sent_attrs pk_env pk_sta [zero_attr\<lparr>tx_ra := [2, 0, 0, 0, 0, 1]\<rparr>, zero_attr\<lparr>tx_ra := [2, 0, 0, 0, 0, 1]\<rparr>]))"
  using packet_keys_never_repeat [of pk_env TKIP_ENCRYPTION pk_sta "[zero_attr\<lparr>tx_ra := [2, 0, 0, 0, 0, 1]\<rparr>, zero_attr\<lparr>tx_ra := [2, 0, 0, 0, 0, 1]\<rparr>]"
      "[2, 0, 0, 0, 0, 9]"]
  by (simp add: pairwise_def pk_env_def pk_sta_def pn48_def TKIP_ENCRYPTION_def dot11AuthAlgrthm_8021X_def Sta_Mgt.is_multicast_ether_addr_def)

end
