(* ===== verification/Tx_Queue.thy ===== *)
theory Tx_Queue
  imports Tx_Attrib
begin

text \<open>
  The queues of the transmit path (src/core/rtw_xmit.c): the pools of frames and buffers,
  the queues of a station by access category, the lists of stations with something to
  send, and the choice of the next frame.

  A frame, a buffer and a station are numbers; the state maps them to their
  structures.  A frame has one list node, so \<open>list_del_init\<close> takes it out of whichever
  queue it is in; a \<open>tx_servq\<close> has another one, \<open>tx_pending\<close>, by which it is in the list of
  its category.

  The contract is the locale \<open>scheduler\<close>: frames are taken in the order of the categories
  and within a category and a station in the order they were given.
\<close>

section \<open>State\<close>

text \<open>The access categories in the order of \<open>hwxmits\<close>.\<close>

datatype ac = VO | VI | BE | BK

record xframe =
  xq_attrib :: at_attr
  xq_skb :: "byte list option"
  xq_frame_tag :: nat
  xq_buf_addr :: "nat option"
  xq_pxmitbuf :: "nat option"
  xq_agg_num :: byte
  xq_pkt_offset :: byte
  xq_alloc_addr :: bool
  xq_ext_tag :: byte

text \<open>\<open>xs_servq\<close> are \<open>vo_q\<close>, \<open>vi_q\<close>, \<open>be_q\<close> and \<open>bk_q\<close>.\<close>

record xsta = at_sta +
  xs_aid :: u32
  xs_servq :: "ac \<Rightarrow> nat list"
  xs_sleep_q :: "nat list"
  xs_sleepq_len :: u32
  xs_uapsd :: "ac \<Rightarrow> byte"
  xs_has_legacy_ac :: byte
  xs_sleepq_ac_len :: u32
  xs_expire_to :: u32

datatype buf_tag = XMITBUF_DATA | XMITBUF_MGNT | XMITBUF_CMD

text \<open>\<open>sctx\<close> is the context of someone waiting for the buffer to be sent.\<close>

record xbuf =
  xb_tag :: buf_tag
  xb_priv_data :: "nat option"
  xb_sctx :: "nat option"

text \<open>
  \<open>xp_completed\<close> are the packets given back to the kernel, \<open>xp_sctx_done\<close> the contexts
  completed with their status, \<open>xp_released\<close> the memory of frames allocated one at a
  time, \<open>xp_beacons\<close> the number of updates of the beacon, \<open>xp_tasklet\<close> whether the tasklet
  is scheduled, \<open>xp_nulldata\<close> the stations told that nothing is left.
\<close>

record xpriv =
  xp_frames :: "nat \<Rightarrow> xframe"
  xp_bufs :: "nat \<Rightarrow> xbuf"
  xp_stas :: "xsta list"
  free_xmit_queue :: "nat list"
  free_xmitframe_cnt :: u32
  free_xframe_ext_queue :: "nat list"
  free_xframe_ext_cnt :: u32
  free_xmitbuf_queue :: "nat list"
  free_xmitbuf_cnt :: u32
  free_xmit_extbuf_queue :: "nat list"
  free_xmit_extbuf_cnt :: u32
  xp_pending :: "ac \<Rightarrow> nat list"
  sta_dz_bitmap :: u16
  tim_bitmap :: u16
  xp_expire_to :: u32
  xp_completed :: "byte list list"
  xp_sctx_done :: "(nat \<times> nat) list"
  xp_released :: "nat list"
  xp_tx_pkts :: u64
  xp_tx_drop :: u64
  xp_beacons :: nat
  xp_tasklet :: bool
  xp_nulldata :: "nat list"

definition NR_XMITFRAME :: nat where "NR_XMITFRAME = 256"
definition NR_XMIT_EXTBUFF :: nat where "NR_XMIT_EXTBUFF = 32"
definition NR_XMITBUFF :: nat where "NR_XMITBUFF = 4"

definition NULL_FRAMETAG :: nat where "NULL_FRAMETAG = 0"
definition DATA_FRAMETAG :: nat where "DATA_FRAMETAG = 1"
definition MGNT_FRAMETAG :: nat where "MGNT_FRAMETAG = 3"

definition RTW_SCTX_DONE_BUF_ALLOC :: nat where "RTW_SCTX_DONE_BUF_ALLOC = 3"
definition RTW_SCTX_DONE_BUF_FREE :: nat where "RTW_SCTX_DONE_BUF_FREE = 4"

abbreviation upd_frame :: "nat \<Rightarrow> (xframe \<Rightarrow> xframe) \<Rightarrow> xpriv \<Rightarrow> xpriv" where
  "upd_frame f g s \<equiv> s\<lparr>xp_frames := (xp_frames s)(f := g (xp_frames s f))\<rparr>"

abbreviation upd_attrib :: "nat \<Rightarrow> (at_attr \<Rightarrow> at_attr) \<Rightarrow> xpriv \<Rightarrow> xpriv" where
  "upd_attrib f g s \<equiv> upd_frame f (\<lambda>x. x\<lparr>xq_attrib := g (xq_attrib x)\<rparr>) s"

abbreviation upd_sta :: "nat \<Rightarrow> (xsta \<Rightarrow> xsta) \<Rightarrow> xpriv \<Rightarrow> xpriv" where
  "upd_sta k g s \<equiv> s\<lparr>xp_stas := (xp_stas s)[k := g (xp_stas s ! k)]\<rparr>"

text \<open>\<open>list_del_init(&pxmitframe->list)\<close>\<close>

definition unlink_sta :: "nat \<Rightarrow> xsta \<Rightarrow> xsta" where
  "unlink_sta f x = x\<lparr>xs_servq := (\<lambda>ac. removeAll f (xs_servq x ac)), xs_sleep_q := removeAll f (xs_sleep_q x)\<rparr>"

definition unlink :: "nat \<Rightarrow> xpriv \<Rightarrow> xpriv" where
  "unlink f s = s\<lparr>free_xmit_queue := removeAll f (free_xmit_queue s),
     free_xframe_ext_queue := removeAll f (free_xframe_ext_queue s), xp_stas := map (unlink_sta f) (xp_stas s)\<rparr>"

section \<open>Frames\<close>

definition rtw_init_xmitframe :: "xframe \<Rightarrow> xframe" where
  "rtw_init_xmitframe x = x\<lparr>xq_buf_addr := None, xq_pxmitbuf := None, xq_attrib := zero_attr, xq_frame_tag := DATA_FRAMETAG,
     xq_skb := None, xq_pkt_offset := 1, xq_agg_num := 1\<rparr>"

definition rtw_alloc_xmitframe :: "xpriv \<Rightarrow> nat option \<times> xpriv" where
  "rtw_alloc_xmitframe s =
     (case free_xmit_queue s of
        [] \<Rightarrow> (None, s)
      | f # q \<Rightarrow> (Some f, upd_frame f rtw_init_xmitframe (s\<lparr>free_xmit_queue := q, free_xmitframe_cnt := free_xmitframe_cnt s - 1\<rparr>)))"

definition rtw_alloc_xmitframe_ext :: "xpriv \<Rightarrow> nat option \<times> xpriv" where
  "rtw_alloc_xmitframe_ext s =
     (case free_xframe_ext_queue s of
        [] \<Rightarrow> (None, s)
      | f # q \<Rightarrow> (Some f, upd_frame f rtw_init_xmitframe (s\<lparr>free_xframe_ext_queue := q, free_xframe_ext_cnt := free_xframe_ext_cnt s - 1\<rparr>)))"

text \<open>\<open>f\<close> is the frame made of zeroed memory, \<open>None\<close> if there is none.\<close>

definition rtw_alloc_xmitframe_once :: "nat option \<Rightarrow> xpriv \<Rightarrow> nat option \<times> xpriv" where
  "rtw_alloc_xmitframe_once mem s =
     (case mem of
        None \<Rightarrow> (None, s)
      | Some f \<Rightarrow> (Some f, upd_frame f (\<lambda>x. rtw_init_xmitframe (x\<lparr>xq_alloc_addr := True, xq_ext_tag := 0\<rparr>)) s))"

definition rtw_os_pkt_complete :: "byte list option \<Rightarrow> xpriv \<Rightarrow> xpriv" where
  "rtw_os_pkt_complete skb s = (case skb of None \<Rightarrow> s | Some d \<Rightarrow> s\<lparr>xp_completed := xp_completed s @ [d]\<rparr>)"

definition rtw_os_xmit_complete :: "nat \<Rightarrow> xpriv \<Rightarrow> xpriv" where
  "rtw_os_xmit_complete f s = upd_frame f (\<lambda>x. x\<lparr>xq_skb := None\<rparr>) (rtw_os_pkt_complete (xq_skb (xp_frames s f)) s)"

text \<open>With any other \<open>ext_tag\<close> the queue is an uninitialised pointer.\<close>

definition rtw_free_xmitframe :: "nat option \<Rightarrow> xpriv \<Rightarrow> xpriv option" where
  "rtw_free_xmitframe pf s =
     (case pf of
        None \<Rightarrow> Some s
      | Some f \<Rightarrow>
          (let skb = xq_skb (xp_frames s f);
               s = upd_frame f (\<lambda>x. x\<lparr>xq_skb := None\<rparr>) s;
               x = xp_frames s f
           in map_option (rtw_os_pkt_complete skb)
                (if xq_alloc_addr x then Some (s\<lparr>xp_released := xp_released s @ [f]\<rparr>)
                 else if xq_ext_tag x = 0 then
                   (let s = unlink f s in Some (s\<lparr>free_xmit_queue := free_xmit_queue s @ [f], free_xmitframe_cnt := free_xmitframe_cnt s + 1\<rparr>))
                 else if xq_ext_tag x = 1 then
                   (let s = unlink f s in Some (s\<lparr>free_xframe_ext_queue := free_xframe_ext_queue s @ [f], free_xframe_ext_cnt := free_xframe_ext_cnt s + 1\<rparr>))
                 else None)))"

fun rtw_free_xmitframe_queue :: "nat list \<Rightarrow> xpriv \<Rightarrow> xpriv option" where
  "rtw_free_xmitframe_queue [] s = Some s"
| "rtw_free_xmitframe_queue (f # fs) s = do { s \<leftarrow> rtw_free_xmitframe (Some f) s; rtw_free_xmitframe_queue fs s }"

section \<open>Buffers\<close>

definition rtw_sctx_done_err :: "nat \<Rightarrow> nat \<Rightarrow> xpriv \<Rightarrow> xpriv" where
  "rtw_sctx_done_err b status s =
     (case xb_sctx (xp_bufs s b) of
        None \<Rightarrow> s
      | Some c \<Rightarrow> s\<lparr>xp_sctx_done := xp_sctx_done s @ [(c, status)], xp_bufs := (xp_bufs s)(b := (xp_bufs s b)\<lparr>xb_sctx := None\<rparr>)\<rparr>)"

definition taken_buf :: "nat \<Rightarrow> xpriv \<Rightarrow> xpriv" where
  "taken_buf b s = rtw_sctx_done_err b RTW_SCTX_DONE_BUF_ALLOC (s\<lparr>xp_bufs := (xp_bufs s)(b := (xp_bufs s b)\<lparr>xb_priv_data := None\<rparr>)\<rparr>)"

definition rtw_alloc_xmitbuf :: "xpriv \<Rightarrow> nat option \<times> xpriv" where
  "rtw_alloc_xmitbuf s =
     (case free_xmitbuf_queue s of
        [] \<Rightarrow> (None, s)
      | b # q \<Rightarrow> (Some b, taken_buf b (s\<lparr>free_xmitbuf_queue := q, free_xmitbuf_cnt := free_xmitbuf_cnt s - 1\<rparr>)))"

definition rtw_alloc_xmitbuf_ext :: "xpriv \<Rightarrow> nat option \<times> xpriv" where
  "rtw_alloc_xmitbuf_ext s =
     (case free_xmit_extbuf_queue s of
        [] \<Rightarrow> (None, s)
      | b # q \<Rightarrow> (Some b, taken_buf b (s\<lparr>free_xmit_extbuf_queue := q, free_xmit_extbuf_cnt := free_xmit_extbuf_cnt s - 1\<rparr>)))"

definition unlink_buf :: "nat \<Rightarrow> xpriv \<Rightarrow> xpriv" where
  "unlink_buf b s = s\<lparr>free_xmitbuf_queue := removeAll b (free_xmitbuf_queue s), free_xmit_extbuf_queue := removeAll b (free_xmit_extbuf_queue s)\<rparr>"

definition rtw_free_xmitbuf_ext :: "nat option \<Rightarrow> xpriv \<Rightarrow> status \<times> xpriv" where
  "rtw_free_xmitbuf_ext pb s =
     (case pb of
        None \<Rightarrow> (FAIL, s)
      | Some b \<Rightarrow> (let s = unlink_buf b s in
          (SUCCESS, s\<lparr>free_xmit_extbuf_queue := free_xmit_extbuf_queue s @ [b], free_xmit_extbuf_cnt := free_xmit_extbuf_cnt s + 1\<rparr>)))"

definition rtw_free_xmitbuf :: "nat option \<Rightarrow> xpriv \<Rightarrow> status \<times> xpriv" where
  "rtw_free_xmitbuf pb s =
     (case pb of
        None \<Rightarrow> (FAIL, s)
      | Some b \<Rightarrow> (let s = rtw_sctx_done_err b RTW_SCTX_DONE_BUF_FREE s in
          (case xb_tag (xp_bufs s b) of
             XMITBUF_CMD \<Rightarrow> (SUCCESS, s)
           | XMITBUF_MGNT \<Rightarrow> (SUCCESS, snd (rtw_free_xmitbuf_ext (Some b) s))
           | XMITBUF_DATA \<Rightarrow> (let s = unlink_buf b s in
               (SUCCESS, s\<lparr>free_xmitbuf_queue := free_xmitbuf_queue s @ [b], free_xmitbuf_cnt := free_xmitbuf_cnt s + 1\<rparr>)))))"

section \<open>Initialisation\<close>

text \<open>
  \<open>_rtw_init_xmit_priv\<close>: \<open>mem\<close> says which allocations succeed and \<open>res b\<close> which attempts to
  allocate the buffer \<open>b\<close> do (\<open>rtw_os_xmit_resource_alloc\<close>); data buffers have a second one.
  The buffers 0 to 3 are for data, the next 32 for management frames, then comes the
  one for commands.
\<close>

definition zero_xframe :: xframe where
  "zero_xframe = \<lparr>xq_attrib = zero_attr, xq_skb = None, xq_frame_tag = NULL_FRAMETAG, xq_buf_addr = None, xq_pxmitbuf = None,
     xq_agg_num = 0, xq_pkt_offset = 0, xq_alloc_addr = False, xq_ext_tag = 0\<rparr>"

definition new_xbuf :: "buf_tag \<Rightarrow> xbuf" where
  "new_xbuf tag = \<lparr>xb_tag = tag, xb_priv_data = None, xb_sctx = None\<rparr>"

fun init_bufs :: "(nat \<Rightarrow> bool) \<Rightarrow> nat list \<Rightarrow> xpriv \<Rightarrow> bool \<times> xpriv" where
  "init_bufs res [] s = (True, s)"
| "init_bufs res (b # bs) s =
     (let s = s\<lparr>xp_bufs := (xp_bufs s)(b := new_xbuf XMITBUF_DATA)\<rparr>
      in if res b then init_bufs res bs (s\<lparr>free_xmitbuf_queue := free_xmitbuf_queue s @ [b]\<rparr>) else (False, s))"

fun init_extbufs :: "(nat \<Rightarrow> bool) \<Rightarrow> nat list \<Rightarrow> xpriv \<Rightarrow> bool \<times> xpriv" where
  "init_extbufs res [] s = (True, s)"
| "init_extbufs res (b # bs) s =
     (let s = s\<lparr>xp_bufs := (xp_bufs s)(b := new_xbuf XMITBUF_MGNT)\<rparr>
      in if res b then init_extbufs res bs (s\<lparr>free_xmit_extbuf_queue := free_xmit_extbuf_queue s @ [b]\<rparr>) else (False, s))"

definition init_frames :: "nat \<Rightarrow> nat \<Rightarrow> byte \<Rightarrow> xpriv \<Rightarrow> xpriv" where
  "init_frames lo hi tag s = s\<lparr>xp_frames := (\<lambda>f. if lo \<le> f \<and> f < hi then zero_xframe\<lparr>xq_ext_tag := tag\<rparr> else xp_frames s f)\<rparr>"

definition rtw_init_xmit_priv :: "(nat \<Rightarrow> bool) \<Rightarrow> (nat \<Rightarrow> nat \<Rightarrow> bool) \<Rightarrow> xpriv \<Rightarrow> status \<times> xpriv" where
  "rtw_init_xmit_priv mem res s =
     (let s = s\<lparr>xp_pending := (\<lambda>_. []), free_xmit_queue := []\<rparr> in
      if \<not> mem 0 then (FAIL, s)
      else let s = (init_frames 0 NR_XMITFRAME 0 s)\<lparr>free_xmit_queue := [0..<NR_XMITFRAME], free_xmitframe_cnt := of_nat NR_XMITFRAME, free_xmitbuf_queue := []\<rparr> in
      if \<not> mem 1 then (FAIL, s)
      else let (ok, s) = init_bufs (\<lambda>b. res b 0 \<or> res b 1) [0..<NR_XMITBUFF] s in
      if \<not> ok then (FAIL, s)
      else let s = s\<lparr>free_xmitbuf_cnt := of_nat NR_XMITBUFF, free_xframe_ext_queue := []\<rparr> in
      if \<not> mem 2 then (FAIL, s)
      else let s = (init_frames NR_XMITFRAME (NR_XMITFRAME + NR_XMIT_EXTBUFF) 1 s)\<lparr>
             free_xframe_ext_queue := [NR_XMITFRAME..<NR_XMITFRAME + NR_XMIT_EXTBUFF], free_xframe_ext_cnt := of_nat NR_XMIT_EXTBUFF, free_xmit_extbuf_queue := []\<rparr> in
      if \<not> mem 3 then (FAIL, s)
      else let (ok, s) = init_extbufs (\<lambda>b. res b 0) [NR_XMITBUFF..<NR_XMITBUFF + NR_XMIT_EXTBUFF] s in
      if \<not> ok then (FAIL, s)
      else let cmd = NR_XMITBUFF + NR_XMIT_EXTBUFF; s = s\<lparr>free_xmit_extbuf_cnt := of_nat NR_XMIT_EXTBUFF, xp_bufs := (xp_bufs s)(cmd := new_xbuf XMITBUF_CMD)\<rparr> in
      (if res cmd 0 then SUCCESS else FAIL, s))"

lemma init_bufs_simps:
  "init_bufs res bs s = (ok, s') \<Longrightarrow> xp_frames s' = xp_frames s \<and> free_xmit_queue s' = free_xmit_queue s \<and> free_xmitframe_cnt s' = free_xmitframe_cnt s \<and>
     xp_stas s' = xp_stas s \<and> xp_pending s' = xp_pending s \<and> free_xframe_ext_queue s' = free_xframe_ext_queue s \<and> free_xframe_ext_cnt s' = free_xframe_ext_cnt s"
  "init_extbufs res bs s = (ok, s') \<Longrightarrow> xp_frames s' = xp_frames s \<and> free_xmit_queue s' = free_xmit_queue s \<and> free_xmitframe_cnt s' = free_xmitframe_cnt s \<and>
     xp_stas s' = xp_stas s \<and> xp_pending s' = xp_pending s \<and> free_xframe_ext_queue s' = free_xframe_ext_queue s \<and> free_xframe_ext_cnt s' = free_xframe_ext_cnt s"
  by (induction bs arbitrary: s) (auto simp: Let_def split: if_splits)

section \<open>The queues of the stations\<close>

text \<open>\<open>rtw_get_sta_pending\<close>: the category of a priority.\<close>

definition rtw_get_sta_pending :: "byte \<Rightarrow> ac" where
  "rtw_get_sta_pending up =
     (if up = 1 \<or> up = 2 then BK else if up = 4 \<or> up = 5 then VI else if up = 6 \<or> up = 7 then VO else BE)"

abbreviation servq :: "xpriv \<Rightarrow> nat \<Rightarrow> ac \<Rightarrow> nat list" where
  "servq s k ac \<equiv> xs_servq (xp_stas s ! k) ac"

text \<open>
  The station of a frame: it has to be the one found in the table, and associated.  \<open>None\<close> inside
  is the failure.
\<close>

definition frame_sta :: "tx_env \<Rightarrow> xpriv \<Rightarrow> nat \<Rightarrow> nat option option" where
  "frame_sta en s f =
     (let a = xq_attrib (xp_frames s f) in
      case rtw_get_stainfo (te_stapriv en) (Some (tx_ra a)) of
        Inl _ \<Rightarrow> None
      | Inr psta \<Rightarrow>
          if tx_psta a \<noteq> psta then Some None
          else (case psta of
            None \<Rightarrow> Some None
          | Some k \<Rightarrow> do {
              x \<leftarrow> rd (xp_stas s) (int k);
              Some (if ts_state x AND WIFI_ASOC_STATE = 0 then None else Some k)
            }))"

definition classify :: "nat \<Rightarrow> ac \<Rightarrow> nat \<Rightarrow> xpriv \<Rightarrow> xpriv" where
  "classify k ac f s =
     (let s = (if k \<in> set (xp_pending s ac) then s else s\<lparr>xp_pending := (xp_pending s)(ac := xp_pending s ac @ [k])\<rparr>)
      in upd_sta k (\<lambda>x. x\<lparr>xs_servq := (xs_servq x)(ac := xs_servq x ac @ [f])\<rparr>) s)"

definition rtw_xmit_classifier :: "tx_env \<Rightarrow> nat \<Rightarrow> xpriv \<Rightarrow> (status \<times> xpriv) option" where
  "rtw_xmit_classifier en f s =
     map_option (\<lambda>psta. case psta of
         None \<Rightarrow> (FAIL, s)
       | Some k \<Rightarrow> (SUCCESS, classify k (rtw_get_sta_pending (tx_priority (xq_attrib (xp_frames s f)))) f s))
       (frame_sta en s f)"

text \<open>\<open>rtw_xmitframe_enqueue\<close> is the classifier; \<open>rtl8812au_hal_xmitframe_enqueue\<close> frees what it refuses.\<close>

definition rtw_xmitframe_enqueue :: "tx_env \<Rightarrow> nat \<Rightarrow> xpriv \<Rightarrow> (status \<times> xpriv) option" where
  "rtw_xmitframe_enqueue en f s = rtw_xmit_classifier en f s"

definition rtl8812au_hal_xmitframe_enqueue :: "tx_env \<Rightarrow> nat \<Rightarrow> xpriv \<Rightarrow> xpriv option" where
  "rtl8812au_hal_xmitframe_enqueue en f s = do {
     (err, s) \<leftarrow> rtw_xmitframe_enqueue en f s;
     if err = FAIL
     then map_option (\<lambda>s. s\<lparr>xp_tx_pkts := xp_tx_pkts s - 1, xp_tx_drop := xp_tx_drop s + 1\<rparr>) (rtw_free_xmitframe (Some f) s)
     else Some (s\<lparr>xp_tasklet := True\<rparr>)
   }"

definition rtw_txframes_pending :: "xpriv \<Rightarrow> bool" where
  "rtw_txframes_pending s \<longleftrightarrow> xp_pending s BE \<noteq> [] \<or> xp_pending s BK \<noteq> [] \<or> xp_pending s VI \<noteq> [] \<or> xp_pending s VO \<noteq> []"

definition rtw_txframes_sta_ac_pending :: "tx_env \<Rightarrow> nat \<Rightarrow> xpriv \<Rightarrow> bool option" where
  "rtw_txframes_sta_ac_pending en f s =
     map_option (\<lambda>psta. case psta of
         None \<Rightarrow> False
       | Some k \<Rightarrow> servq s k (rtw_get_sta_pending (tx_priority (xq_attrib (xp_frames s f)))) \<noteq> [])
       (frame_sta en s f)"

section \<open>The next frame\<close>

text \<open>
  \<open>dequeue_one_xmitframe\<close> takes the first frame of the queue; the walk over the stations of a
  category goes on while their queues are empty.
\<close>

definition dequeue_one_xmitframe :: "nat \<Rightarrow> ac \<Rightarrow> xpriv \<Rightarrow> nat option \<times> xpriv" where
  "dequeue_one_xmitframe k ac s =
     (case servq s k ac of
        [] \<Rightarrow> (None, s)
      | f # q \<Rightarrow> (Some f, upd_sta k (\<lambda>x. x\<lparr>xs_servq := (xs_servq x)(ac := q)\<rparr>) s))"

fun dequeue_stas :: "ac \<Rightarrow> nat list \<Rightarrow> xpriv \<Rightarrow> nat option \<times> xpriv" where
  "dequeue_stas ac [] s = (None, s)"
| "dequeue_stas ac (k # stas) s =
     (case dequeue_one_xmitframe k ac s of
        (Some f, s) \<Rightarrow>
          (Some f, if servq s k ac = [] then s\<lparr>xp_pending := (xp_pending s)(ac := removeAll k (xp_pending s ac))\<rparr> else s)
      | (None, s) \<Rightarrow> dequeue_stas ac stas s)"

fun dequeue_acs :: "ac list \<Rightarrow> xpriv \<Rightarrow> nat option \<times> xpriv" where
  "dequeue_acs [] s = (None, s)"
| "dequeue_acs (ac # acs) s =
     (case dequeue_stas ac (xp_pending s ac) s of
        (Some f, s) \<Rightarrow> (Some f, s)
      | (None, s) \<Rightarrow> dequeue_acs acs s)"

definition rtw_dequeue_xframe :: "xpriv \<Rightarrow> nat option \<times> xpriv" where
  "rtw_dequeue_xframe s = dequeue_acs [VO, VI, BE, BK] s"

section \<open>The contract of the scheduler\<close>

text \<open>
  A flow is a station with its frames, in the order they were given, none of them empty.  A frame is
  added to the flow of its station, or to a new one behind all others; the next frame
  is the first one of the first flow of the first category that has one.
\<close>

type_synonym flow = "nat \<times> nat list"

fun flow_put :: "nat \<Rightarrow> nat \<Rightarrow> flow list \<Rightarrow> flow list" where
  "flow_put k f [] = [(k, [f])]"
| "flow_put k f ((j, q) # fl) = (if j = k then (j, q @ [f]) # fl else (j, q) # flow_put k f fl)"

fun flow_get :: "flow list \<Rightarrow> (nat \<times> nat \<times> flow list) option" where
  "flow_get ((k, f # q) # fl) = Some (k, f, if q = [] then fl else (k, q) # fl)"
| "flow_get _ = None"

fun sched_get :: "ac list \<Rightarrow> (ac \<Rightarrow> flow list) \<Rightarrow> (ac \<times> nat \<times> nat \<times> (ac \<Rightarrow> flow list)) option" where
  "sched_get [] S = None"
| "sched_get (ac # acs) S =
     (case flow_get (S ac) of
        Some (k, f, fl) \<Rightarrow> Some (ac, k, f, S(ac := fl))
      | None \<Rightarrow> sched_get acs S)"

definition flows_ok :: "flow list \<Rightarrow> bool" where
  "flows_ok fl \<longleftrightarrow> distinct (map fst fl) \<and> (\<forall>(k, q) \<in> set fl. q \<noteq> [])"

lemma set_flow_put: "fst ` set (flow_put k f fl) = insert k (fst ` set fl)"
  by (induction k f fl rule: flow_put.induct) auto

lemma flows_ok_put: "flows_ok fl \<Longrightarrow> flows_ok (flow_put k f fl)"
  unfolding flows_ok_def
  by (induction k f fl rule: flow_put.induct) (auto simp: set_flow_put)

lemma flow_get_Some:
  assumes "flows_ok fl" "flow_get fl = Some (k, f, fl')"
  shows "flows_ok fl'" "concat (map snd fl) = f # concat (map snd fl')"
  using assms by (cases fl rule: flow_get.cases; auto simp: flows_ok_def split: if_splits)+

lemma flow_get_None: "flows_ok fl \<Longrightarrow> flow_get fl = None \<longleftrightarrow> fl = []"
  by (cases fl rule: flow_get.cases) (auto simp: flows_ok_def)

text \<open>All frames in the order in which they are sent.\<close>

definition sched_order :: "ac list \<Rightarrow> (ac \<Rightarrow> flow list) \<Rightarrow> nat list" where
  "sched_order acs S = concat (map (\<lambda>ac. concat (map snd (S ac))) acs)"

lemma sched_get_None: "(\<And>ac. flows_ok (S ac)) \<Longrightarrow> sched_get acs S = None \<Longrightarrow> sched_order acs S = []"
  by (induction acs) (auto simp: sched_order_def flow_get_None split: option.splits)

lemma sched_get_Some:
  assumes "\<And>ac. flows_ok (S ac)" "distinct acs" "sched_get acs S = Some (ac, k, f, S')"
  shows "sched_order acs S = f # sched_order acs S'" "ac \<in> set acs" "\<And>b. flows_ok (S' b)" "\<And>b. b \<noteq> ac \<Longrightarrow> S' b = S b"
proof -
  have "sched_order acs S = f # sched_order acs S' \<and> ac \<in> set acs \<and> (\<forall>b. flows_ok (S' b)) \<and> (\<forall>b. b \<noteq> ac \<longrightarrow> S' b = S b)"
    using assms(2,3)
  proof (induction acs)
    case (Cons b acs)
    show ?case
    proof (cases "flow_get (S b)")
      case None
      with Cons.prems have "sched_get acs S = Some (ac, k, f, S')" by simp
      note ih = Cons.IH [OF _ this]
      have "S b = []" using None assms(1) flow_get_None by blast
      moreover from this have "S' b = []" using ih Cons.prems(1) by auto
      ultimately show ?thesis using ih Cons.prems(1) by (simp add: sched_order_def)
    next
      case (Some p)
      with Cons.prems flow_get_Some [OF assms(1) [of b]] assms(1) show ?thesis
        by (auto simp: sched_order_def split: prod.splits intro!: arg_cong [where f = concat] map_cong)
    qed
  qed simp
  then show "sched_order acs S = f # sched_order acs S'" "ac \<in> set acs" "\<And>b. flows_ok (S' b)" "\<And>b. b \<noteq> ac \<Longrightarrow> S' b = S b"
    by auto
qed

definition all_acs :: "ac list" where "all_acs = [VO, VI, BE, BK]"

lemma all_acs [simp]: "set all_acs = UNIV" "distinct all_acs"
  by (auto simp: all_acs_def intro: ac.exhaust)

text \<open>What asking \<open>n\<close> times answers.\<close>

fun asks :: "('s \<Rightarrow> 'r option \<times> 's) \<Rightarrow> nat \<Rightarrow> 's \<Rightarrow> 'r option list \<times> 's" where
  "asks get 0 s = ([], s)"
| "asks get (Suc n) s = (let (r, s) = get s; (rs, s) = asks get n s in (r # rs, s))"

locale scheduler =
  fixes inv :: "'s \<Rightarrow> bool" and known :: "'s \<Rightarrow> nat \<Rightarrow> bool" and flows :: "'s \<Rightarrow> ac \<Rightarrow> flow list"
    and put :: "nat \<Rightarrow> ac \<Rightarrow> nat \<Rightarrow> 's \<Rightarrow> 's" and get :: "'s \<Rightarrow> nat option \<times> 's"
  assumes flows_wf: "inv s \<Longrightarrow> flows_ok (flows s ac)"
    and put_inv: "inv s \<Longrightarrow> known s k \<Longrightarrow> inv (put k ac f s)"
    and put_flows: "inv s \<Longrightarrow> known s k \<Longrightarrow> flows (put k ac f s) = (flows s)(ac := flow_put k f (flows s ac))"
    and get_inv: "inv s \<Longrightarrow> inv (snd (get s))"
    and get_flows: "inv s \<Longrightarrow>
      (case sched_get all_acs (flows s) of
         None \<Rightarrow> fst (get s) = None \<and> flows (snd (get s)) = flows s
       | Some (ac, k, f, S) \<Rightarrow> fst (get s) = Some f \<and> flows (snd (get s)) = S)"
begin

lemma get_order:
  assumes "inv s"
  shows "sched_order all_acs (flows s) =
    (case fst (get s) of None \<Rightarrow> [] | Some f \<Rightarrow> f # sched_order all_acs (flows (snd (get s))))"
  using get_flows [OF assms] sched_get_None [OF flows_wf [OF assms]] sched_get_Some(1) [OF flows_wf [OF assms] all_acs(2)]
  by (auto split: option.splits)

lemma get_none:
  assumes "inv s" "fst (get s) = None"
  shows "flows (snd (get s)) = flows s"
  using get_flows [OF assms(1)] assms(2) by (auto split: option.splits)

text \<open>Asking as often as there are frames, and more often, gives them all in their order.\<close>

theorem asks_all:
  assumes "inv s"
  shows "fst (asks get (length (sched_order all_acs (flows s)) + n) s) = map Some (sched_order all_acs (flows s)) @ replicate n None"
  using assms
proof (induction "sched_order all_acs (flows s)" arbitrary: s)
  case Nil
  then have "fst (get s) = None" using get_order [OF Nil.prems] by (simp split: option.splits)
  have "fst (asks get n s) = replicate n None" if "inv s" "sched_order all_acs (flows s) = []" for s
    using that
  proof (induction n arbitrary: s)
    case (Suc n)
    then have g: "fst (get s) = None" using get_order [OF Suc.prems(1)] by (simp split: option.splits)
    with Suc.IH [OF get_inv [OF Suc.prems(1)]] Suc.prems get_none [OF Suc.prems(1) g] show ?case
      by (simp add: split_beta Let_def)
  qed simp
  with Nil show ?case by (metis append_Nil list.size(3) map_is_Nil_conv plus_nat.add_0)
next
  case (Cons f fs)
  then have g: "fst (get s) = Some f" and "fs = sched_order all_acs (flows (snd (get s)))"
    using get_order [OF Cons.prems] by (auto split: option.splits)
  with Cons.hyps(1) [OF this(2) get_inv [OF Cons.prems]] Cons.hyps(2) show ?case
    by (simp add: split_beta Let_def flip: Cons.hyps(2))
qed

end

section \<open>The queues keep the contract\<close>

definition tx_flows :: "xpriv \<Rightarrow> ac \<Rightarrow> flow list" where
  "tx_flows s ac = map (\<lambda>k. (k, servq s k ac)) (xp_pending s ac)"

text \<open>A station is in the list of a category exactly when it has a frame there.\<close>

definition tx_linked :: "xpriv \<Rightarrow> bool" where
  "tx_linked s \<longleftrightarrow> (\<forall>ac. distinct (xp_pending s ac) \<and> set (xp_pending s ac) = {k. k < length (xp_stas s) \<and> servq s k ac \<noteq> []})"

lemma tx_linkedD:
  assumes "tx_linked s"
  shows "distinct (xp_pending s ac)" "k \<in> set (xp_pending s ac) \<longleftrightarrow> k < length (xp_stas s) \<and> servq s k ac \<noteq> []"
  using assms by (auto simp: tx_linked_def)

lemma flow_put_map:
  "flow_put k f (map (\<lambda>k. (k, q k)) stas) =
     (if k \<in> set stas then map (\<lambda>j. (j, if j = k then q k @ [f] else q j)) stas else map (\<lambda>k. (k, q k)) stas @ [(k, [f])])"
  if "distinct stas"
  using that by (induction stas) (auto simp: map_idI intro!: map_cong)

lemma classify_flows:
  assumes "tx_linked s" "k < length (xp_stas s)"
  shows "tx_flows (classify k ac f s) = (tx_flows s)(ac := flow_put k f (tx_flows s ac))"
  using tx_linkedD [OF assms(1)] assms(2)
  by (auto simp: fun_eq_iff tx_flows_def classify_def Let_def flow_put_map nth_list_update intro!: map_cong)

lemma classify_linked:
  assumes "tx_linked s" "k < length (xp_stas s)"
  shows "tx_linked (classify k ac f s)"
  using tx_linkedD [OF assms(1)] assms(2)
  by (auto simp: tx_linked_def classify_def Let_def nth_list_update)

text \<open>What taking the first frame of the station \<open>k\<close> leaves.\<close>

definition taken :: "nat \<Rightarrow> ac \<Rightarrow> xpriv \<Rightarrow> xpriv" where
  "taken k ac s = snd (dequeue_stas ac [k] s)"

lemma servq_upd_sta: "k < length (xp_stas s) \<Longrightarrow>
    servq (upd_sta k g s) j ac = (if j = k then xs_servq (g (xp_stas s ! k)) ac else servq s j ac)"
  by (simp add: nth_list_update)

lemma dequeue_stas_first:
  assumes "servq s k ac = f # q"
  shows "dequeue_stas ac (k # stas) s = (Some f, taken k ac s)"
  using assms by (simp add: taken_def dequeue_one_xmitframe_def)

lemma taken_flows:
  assumes "tx_linked s" "xp_pending s ac = k # stas" "servq s k ac = f # q"
  shows "tx_flows (taken k ac s) = (tx_flows s)(ac := (if q = [] then map (\<lambda>k. (k, servq s k ac)) stas else (k, q) # map (\<lambda>k. (k, servq s k ac)) stas))"
    and "tx_linked (taken k ac s)"
proof -
  have k: "k < length (xp_stas s)" and d: "distinct (k # stas)"
    using tx_linkedD [OF assms(1), where ac = ac] assms(2) by (metis list.set_intros(1), metis)
  note l = tx_linkedD [OF assms(1)]
  show "tx_flows (taken k ac s) = (tx_flows s)(ac := (if q = [] then map (\<lambda>k. (k, servq s k ac)) stas else (k, q) # map (\<lambda>k. (k, servq s k ac)) stas))"
    using k d assms(2,3)
    by (auto simp: fun_eq_iff tx_flows_def taken_def dequeue_one_xmitframe_def nth_list_update intro!: map_cong)
  have "set stas = {j. j < length (xp_stas s) \<and> servq s j ac \<noteq> []} - {k}"
    using l [where ac = ac] assms(2) d by (auto simp: set_eq_iff)
  then show "tx_linked (taken k ac s)"
    using k d assms l by (auto simp: tx_linked_def taken_def dequeue_one_xmitframe_def nth_list_update)
qed

lemma dequeue_acs_flows:
  assumes "tx_linked s"
  shows "case sched_get acs (tx_flows s) of
      None \<Rightarrow> dequeue_acs acs s = (None, s)
    | Some (ac, k, f, S) \<Rightarrow> dequeue_acs acs s = (Some f, taken k ac s) \<and> tx_flows (taken k ac s) = S \<and> tx_linked (taken k ac s) \<and>
        servq s k ac \<noteq> [] \<and> f = hd (servq s k ac) \<and> k < length (xp_stas s)"
proof (induction acs)
  case (Cons ac acs)
  show ?case
  proof (cases "xp_pending s ac")
    case Nil
    then have "dequeue_acs (ac # acs) s = dequeue_acs acs s" "sched_get (ac # acs) (tx_flows s) = sched_get acs (tx_flows s)"
      by (simp_all add: tx_flows_def [of s ac])
    then show ?thesis using Cons.IH by (simp only:)
  next
    case (Cons k stas)
    then have k: "k < length (xp_stas s)" "servq s k ac \<noteq> []"
      using tx_linkedD(2) [OF assms, of k ac] by auto
    then obtain f q where "servq s k ac = f # q" by (auto simp: neq_Nil_conv)
    with k Cons taken_flows [OF assms Cons this] show ?thesis
      by (simp add: tx_flows_def [of s ac] dequeue_stas_first del: dequeue_stas.simps)
  qed
qed simp

interpretation txq: scheduler tx_linked "\<lambda>s k. k < length (xp_stas s)" tx_flows classify rtw_dequeue_xframe
proof
  fix s ac k f assume l: "tx_linked s"
  show "flows_ok (tx_flows s ac)"
    using tx_linkedD [OF l] by (auto simp: flows_ok_def tx_flows_def o_def)
  show "tx_linked (classify k ac f s)" if "k < length (xp_stas s)" using classify_linked [OF l that] .
  show "tx_flows (classify k ac f s) = (tx_flows s)(ac := flow_put k f (tx_flows s ac))" if "k < length (xp_stas s)"
    using classify_flows [OF l that] .
  show "tx_linked (snd (rtw_dequeue_xframe s))"
    using dequeue_acs_flows [OF l, of all_acs] l by (auto simp: rtw_dequeue_xframe_def all_acs_def split: option.splits)
  show "case sched_get all_acs (tx_flows s) of
      None \<Rightarrow> fst (rtw_dequeue_xframe s) = None \<and> tx_flows (snd (rtw_dequeue_xframe s)) = tx_flows s
    | Some (ac, k, f, S) \<Rightarrow> fst (rtw_dequeue_xframe s) = Some f \<and> tx_flows (snd (rtw_dequeue_xframe s)) = S"
    using dequeue_acs_flows [OF l, of all_acs] by (auto simp: rtw_dequeue_xframe_def all_acs_def split: option.splits)
qed

text \<open>
  C33 (refinement): the two levels of queues are a scheduler of flows.  A frame given for a station and a
  category is added behind the frames of that station, or as a new flow behind the other
  stations, and the frame taken next is the first of the first flow of the first category,
  in the order voice, video, best effort, background; there is none only if no frame waits.
\<close>

theorem tx_queues_refine_flows:
  assumes "tx_linked s" "k < length (xp_stas s)"
  shows "tx_linked (classify k ac f s) \<and> tx_flows (classify k ac f s) = (tx_flows s)(ac := flow_put k f (tx_flows s ac)) \<and>
    (case sched_get [VO, VI, BE, BK] (tx_flows s) of
       None \<Rightarrow> rtw_dequeue_xframe s = (None, s) \<and> (\<forall>j < length (xp_stas s). \<forall>b. servq s j b = [])
     | Some (b, j, g, S) \<Rightarrow> \<exists>s'. rtw_dequeue_xframe s = (Some g, s') \<and> tx_linked s' \<and> tx_flows s' = S)"
proof -
  have "\<forall>j < length (xp_stas s). \<forall>b. servq s j b = []" if "sched_get all_acs (tx_flows s) = None"
  proof -
    have "sched_order all_acs (tx_flows s) = []" using that sched_get_None [of "tx_flows s", OF txq.flows_wf [OF assms(1)]] by blast
    then have "concat (map snd (tx_flows s b)) = []" for b by (auto simp: sched_order_def)
    then show ?thesis using tx_linkedD [OF assms(1)] by (force simp: tx_flows_def)
  qed
  then show ?thesis
    using txq.put_inv [OF assms] txq.put_flows [OF assms] dequeue_acs_flows [OF assms(1), of all_acs]
    by (auto simp: rtw_dequeue_xframe_def all_acs_def split: option.splits)
qed

text \<open>
  C34 (liveness): asking the scheduler as often as frames wait hands out exactly the waiting frames, category by
  category, station by station in the order of the list, each station's frames in their order; asking on
  gives nothing.
\<close>

theorem tx_queues_drain:
  assumes "tx_linked s"
  shows "fst (asks rtw_dequeue_xframe (length (sched_order [VO, VI, BE, BK] (tx_flows s)) + n) s) =
      map Some (sched_order [VO, VI, BE, BK] (tx_flows s)) @ replicate n None \<and>
    set (sched_order [VO, VI, BE, BK] (tx_flows s)) = (\<Union>k < length (xp_stas s). \<Union>ac. set (servq s k ac))"
proof
  show "fst (asks rtw_dequeue_xframe (length (sched_order [VO, VI, BE, BK] (tx_flows s)) + n) s) =
      map Some (sched_order [VO, VI, BE, BK] (tx_flows s)) @ replicate n None"
    using txq.asks_all [OF assms, of n] by (simp only: all_acs_def)
  have "set (sched_order all_acs (tx_flows s)) = (\<Union>ac. \<Union>k \<in> set (xp_pending s ac). set (servq s k ac))"
    by (simp add: sched_order_def tx_flows_def)
  also have "\<dots> = (\<Union>k < length (xp_stas s). \<Union>ac. set (servq s k ac))"
    using tx_linkedD(2) [OF assms] by (auto, force)
  finally show "set (sched_order [VO, VI, BE, BK] (tx_flows s)) = (\<Union>k < length (xp_stas s). \<Union>ac. set (servq s k ac))"
    by (simp only: all_acs_def)
qed

text \<open>An instance: two stations, of which the first has two frames waiting.\<close>

definition tq_sta :: xsta where
  "tq_sta = at_sta.extend pk_sta (xsta.fields 1 (\<lambda>_. []) [] 0 (\<lambda>_. 0) 0 0 0)"

definition tq_priv :: xpriv where
  "tq_priv = \<lparr>xp_frames = (\<lambda>_. zero_xframe), xp_bufs = (\<lambda>_. new_xbuf XMITBUF_DATA), xp_stas = [tq_sta, tq_sta],
     free_xmit_queue = [], free_xmitframe_cnt = 0, free_xframe_ext_queue = [], free_xframe_ext_cnt = 0,
     free_xmitbuf_queue = [], free_xmitbuf_cnt = 0, free_xmit_extbuf_queue = [], free_xmit_extbuf_cnt = 0,
     xp_pending = (\<lambda>_. []), sta_dz_bitmap = 0, tim_bitmap = 0, xp_expire_to = 0, xp_completed = [], xp_sctx_done = [],
     xp_released = [], xp_tx_pkts = 0, xp_tx_drop = 0, xp_beacons = 0, xp_tasklet = False, xp_nulldata = []\<rparr>"

definition tq_busy :: xpriv where
  "tq_busy = tq_priv\<lparr>xp_stas := [tq_sta\<lparr>xs_servq := (\<lambda>_. [])(VO := [7, 8])\<rparr>, tq_sta], xp_pending := (\<lambda>_. [])(VO := [0])\<rparr>"

lemma tq_busy_simps:
  "xs_servq tq_sta = (\<lambda>_. [])" "xp_pending tq_busy = (\<lambda>_. [])(VO := [0])"
  "xp_stas tq_busy = [tq_sta\<lparr>xs_servq := (\<lambda>_. [])(VO := [7, 8])\<rparr>, tq_sta]"
  by (simp_all add: tq_busy_def tq_priv_def tq_sta_def at_sta.defs xsta.defs)

lemma tq_busy_linked: "tx_linked tq_busy"
proof -
  have "servq tq_busy j ac = (if j = 0 \<and> ac = VO then [7, 8] else [])" if "j < length (xp_stas tq_busy)" for j ac
    using that by (cases j) (simp_all add: tq_busy_simps)
  then show ?thesis by (auto simp: tx_linked_def split: if_splits) (auto simp: tq_busy_simps split: if_splits)
qed

lemma tq_busy_flows: "tx_flows tq_busy = (\<lambda>_. [])(VO := [(0, [7, 8])])"
  by (simp add: tx_flows_def tq_busy_simps fun_eq_iff)

theorem tx_queues_refine_flows_witness:
  "\<exists>s. rtw_dequeue_xframe tq_busy = (Some 7, s) \<and> tx_linked s \<and> tx_flows s VO = [(0, [8])] \<and>
     tx_flows (classify 1 VO 9 tq_busy) VO = [(0, [7, 8]), (1, [9])]"
proof -
  have "sched_get [VO, VI, BE, BK] (tx_flows tq_busy) = Some (VO, 0, 7, (tx_flows tq_busy)(VO := [(0, [8])]))" by (simp add: tq_busy_flows)
  then show ?thesis using tx_queues_refine_flows [OF tq_busy_linked, of 1 VO 9] by (auto simp: tq_busy_simps tq_busy_flows)
qed

theorem tx_queues_drain_witness:
  "fst (asks rtw_dequeue_xframe 3 tq_busy) = [Some 7, Some 8, None]"
  using tx_queues_drain [OF tq_busy_linked, of 1] by (simp add: tq_busy_flows sched_order_def numeral_3_eq_3)

section \<open>Every frame is somewhere\<close>

text \<open>
  The frames of the pools: each is in one queue, or in the hands of the caller (\<open>own\<close>), the
  ones of a pool only in their own free queue, and the counters are the lengths.
\<close>

definition sta_frames :: "xsta \<Rightarrow> nat list" where
  "sta_frames x = xs_servq x VO @ xs_servq x VI @ xs_servq x BE @ xs_servq x BK @ xs_sleep_q x"

definition queued :: "xpriv \<Rightarrow> nat list" where
  "queued s = free_xmit_queue s @ free_xframe_ext_queue s @ concat (map sta_frames (xp_stas s))"

definition tx_pool :: "nat list \<Rightarrow> xpriv \<Rightarrow> bool" where
  "tx_pool own s \<longleftrightarrow>
     mset (own @ queued s) = mset [0..<NR_XMITFRAME + NR_XMIT_EXTBUFF] \<and>
     (\<forall>f < NR_XMITFRAME + NR_XMIT_EXTBUFF. \<not> xq_alloc_addr (xp_frames s f) \<and>
        xq_ext_tag (xp_frames s f) = (if f < NR_XMITFRAME then 0 else 1)) \<and>
     set (free_xmit_queue s) \<subseteq> {..<NR_XMITFRAME} \<and> set (free_xframe_ext_queue s) \<subseteq> {NR_XMITFRAME..} \<and>
     free_xmitframe_cnt s = of_nat (length (free_xmit_queue s)) \<and>
     free_xframe_ext_cnt s = of_nat (length (free_xframe_ext_queue s))"

lemma mset_stas_update:
  "k < length xs \<Longrightarrow> mset (concat (map h (xs[k := x]))) + mset (h (xs ! k)) = mset (concat (map h xs)) + mset (h x)"
proof (induction xs arbitrary: k)
  case (Cons y xs) then show ?case by (cases k) (auto simp: ac_simps)
qed simp

lemma mset_queued_upd_sta:
  "k < length (xp_stas s) \<Longrightarrow> mset (queued (upd_sta k g s)) + mset (sta_frames (xp_stas s ! k)) = mset (queued s) + mset (sta_frames (g (xp_stas s ! k)))"
  using mset_stas_update [of k "xp_stas s" sta_frames "g (xp_stas s ! k)"] by (simp add: queued_def ac_simps)

lemma mset_sta_frames_servq:
  "mset (sta_frames (x\<lparr>xs_servq := (xs_servq x)(ac := q)\<rparr>)) + mset (xs_servq x ac) = mset (sta_frames x) + mset q"
  by (cases ac) (simp_all add: sta_frames_def ac_simps)

lemma queued_cong [simp]:
  "queued (s\<lparr>xp_pending := p\<rparr>) = queued s" "queued (s\<lparr>xp_frames := fr\<rparr>) = queued s" "queued (s\<lparr>xp_tasklet := b\<rparr>) = queued s"
  "queued (s\<lparr>xp_completed := d\<rparr>) = queued s" "queued (s\<lparr>xp_tx_pkts := n\<rparr>) = queued s" "queued (s\<lparr>xp_tx_drop := n\<rparr>) = queued s"
  "queued (s\<lparr>sta_dz_bitmap := w\<rparr>) = queued s" "queued (s\<lparr>tim_bitmap := w\<rparr>) = queued s" "queued (s\<lparr>xp_beacons := n'\<rparr>) = queued s"
  "queued (s\<lparr>free_xmitframe_cnt := c\<rparr>) = queued s" "queued (s\<lparr>free_xframe_ext_cnt := c\<rparr>) = queued s"
  by (simp_all add: queued_def)

lemma mset_queued_servq:
  assumes "k < length (xp_stas s)"
  shows "mset (queued (upd_sta k (\<lambda>x. x\<lparr>xs_servq := (xs_servq x)(ac := q)\<rparr>) s)) + mset (servq s k ac) = mset (queued s) + mset q"
proof -
  have cancel: "M' + Q = M + q'" if "M' + S = M + S'" "S' + Q = S + q'" for M M' Q q' S S' :: "nat multiset"
  proof -
    have "(M' + Q) + (S + S') = (M' + S) + (S' + Q)" by simp
    also have "\<dots> = (M + q') + (S + S')" unfolding that by simp
    finally show ?thesis by simp
  qed
  show ?thesis
    by (rule cancel [OF mset_queued_upd_sta [OF assms, of "\<lambda>x. x\<lparr>xs_servq := (xs_servq x)(ac := q)\<rparr>"]
          mset_sta_frames_servq [of "xp_stas s ! k" ac q]])
qed

lemma mset_queued_classify:
  assumes "k < length (xp_stas s)"
  shows "mset (queued (classify k ac f s)) = add_mset f (mset (queued s))"
  using mset_queued_servq [of k s ac "servq s k ac @ [f]"] mset_queued_servq [of k "s\<lparr>xp_pending := (xp_pending s)(ac := xp_pending s ac @ [k])\<rparr>" ac "servq s k ac @ [f]"] assms
  by (auto simp: classify_def Let_def)

lemma unlink_sta_id:
  assumes "f \<notin> set (sta_frames x)"
  shows "unlink_sta f x = x"
proof -
  have "f \<notin> set (xs_servq x ac)" for ac using assms by (cases ac) (simp_all add: sta_frames_def)
  then have "(\<lambda>ac. removeAll f (xs_servq x ac)) = xs_servq x" by (simp add: fun_eq_iff)
  then show ?thesis using assms by (simp add: unlink_sta_def sta_frames_def)
qed

lemma unlink_id:
  assumes "f \<notin> set (queued s)"
  shows "unlink f s = s"
proof -
  have "map (unlink_sta f) (xp_stas s) = xp_stas s"
    using assms by (intro map_idI unlink_sta_id) (auto simp: queued_def)
  then show ?thesis using assms by (simp add: unlink_def queued_def)
qed

lemma tx_pool_own:
  assumes "tx_pool (f # own) s"
  shows "f \<notin> set (queued s)" "f < NR_XMITFRAME + NR_XMIT_EXTBUFF" "\<not> xq_alloc_addr (xp_frames s f)"
    "xq_ext_tag (xp_frames s f) = (if f < NR_XMITFRAME then 0 else 1)"
proof -
  have "mset (f # own @ queued s) = mset [0..<NR_XMITFRAME + NR_XMIT_EXTBUFF]" using assms by (simp add: tx_pool_def)
  then have d: "distinct (f # own @ queued s)" "set (f # own @ queued s) = set [0..<NR_XMITFRAME + NR_XMIT_EXTBUFF]"
    by (metis distinct_upt mset_eq_imp_distinct_iff, metis mset_eq_setD)
  then show "f \<notin> set (queued s)" by simp
  from d(2) show "f < NR_XMITFRAME + NR_XMIT_EXTBUFF" by (metis atLeast_upt lessThan_iff list.set_intros(1))
  then show "\<not> xq_alloc_addr (xp_frames s f)" "xq_ext_tag (xp_frames s f) = (if f < NR_XMITFRAME then 0 else 1)"
    using assms by (auto simp: tx_pool_def)
qed

lemma classify_pool:
  assumes "tx_pool (f # own) s" "k < length (xp_stas s)"
  shows "tx_pool own (classify k ac f s)"
  using assms mset_queued_classify [OF assms(2)]
  by (simp add: tx_pool_def classify_def Let_def)

lemma pkt_complete_simps [simp]:
  "tx_pool own (rtw_os_pkt_complete skb s) = tx_pool own s" "xp_stas (rtw_os_pkt_complete skb s) = xp_stas s"
  "xp_pending (rtw_os_pkt_complete skb s) = xp_pending s" "xp_frames (rtw_os_pkt_complete skb s) = xp_frames s"
  by (simp_all add: rtw_os_pkt_complete_def tx_pool_def split: option.split)

lemma free_pool:
  assumes "tx_pool (f # own) s"
  obtains s' where "rtw_free_xmitframe (Some f) s = Some s'" "tx_pool own s'" "xp_stas s' = xp_stas s" "xp_pending s' = xp_pending s"
proof -
  note o = tx_pool_own [OF assms]
  let ?s = "upd_frame f (\<lambda>x. x\<lparr>xq_skb := None\<rparr>) s"
  have u: "unlink f ?s = ?s" using unlink_id [of f ?s] o(1) by simp
  let ?t = "if f < NR_XMITFRAME then ?s\<lparr>free_xmit_queue := free_xmit_queue s @ [f], free_xmitframe_cnt := free_xmitframe_cnt s + 1\<rparr>
    else ?s\<lparr>free_xframe_ext_queue := free_xframe_ext_queue s @ [f], free_xframe_ext_cnt := free_xframe_ext_cnt s + 1\<rparr>"
  have r: "rtw_free_xmitframe (Some f) s = Some (rtw_os_pkt_complete (xq_skb (xp_frames s f)) ?t)"
    using o u by (simp add: rtw_free_xmitframe_def Let_def)
  have "mset (queued ?t) = add_mset f (mset (queued s))" by (simp add: queued_def)
  then have "tx_pool own ?t"
    using assms by (simp add: tx_pool_def)
  then show thesis
    by (intro that [OF r]) simp_all
qed

lemma alloc_pool:
  assumes "tx_pool own s" "rtw_alloc_xmitframe s = (r, s')"
  shows "case r of None \<Rightarrow> s' = s | Some f \<Rightarrow> tx_pool (f # own) s' \<and> xp_stas s' = xp_stas s \<and> xp_pending s' = xp_pending s"
proof (cases "free_xmit_queue s")
  case Nil
  with assms(2) show ?thesis by (simp add: rtw_alloc_xmitframe_def)
next
  case (Cons f q)
  with assms(2) have s': "r = Some f" "s' = upd_frame f rtw_init_xmitframe (s\<lparr>free_xmit_queue := q, free_xmitframe_cnt := free_xmitframe_cnt s - 1\<rparr>)"
    by (simp_all add: rtw_alloc_xmitframe_def)
  have "mset (queued s) = add_mset f (mset (queued s'))" by (simp add: s' Cons queued_def)
  then show ?thesis using assms(1) by (simp add: tx_pool_def s' Cons rtw_init_xmitframe_def)
qed

lemma dequeue_stas_cases:
  assumes "dequeue_stas ac stas s = (r, s')"
  shows "r = None \<and> s' = s \<and> (\<forall>k \<in> set stas. servq s k ac = []) \<or>
    (\<exists>k \<in> set stas. \<exists>f q. servq s k ac = f # q \<and> r = Some f \<and> s' = taken k ac s)"
  using assms
proof (induction stas)
  case (Cons k stas)
  show ?case
  proof (cases "servq s k ac")
    case Nil
    then have "dequeue_stas ac stas s = (r, s')" using Cons.prems by (simp add: dequeue_one_xmitframe_def)
    from Cons.IH [OF this] Nil show ?thesis by auto
  next
    case (Cons f q)
    with Cons.prems dequeue_stas_first [OF this, of stas] show ?thesis by auto
  qed
qed simp

lemma dequeue_acs_cases:
  assumes "dequeue_acs acs s = (r, s')"
  shows "r = None \<and> s' = s \<and> (\<forall>ac \<in> set acs. \<forall>k \<in> set (xp_pending s ac). servq s k ac = []) \<or>
    (\<exists>ac \<in> set acs. \<exists>k \<in> set (xp_pending s ac). \<exists>f q. servq s k ac = f # q \<and> r = Some f \<and> s' = taken k ac s)"
  using assms
proof (induction acs)
  case (Cons ac acs)
  obtain r1 s1 where d: "dequeue_stas ac (xp_pending s ac) s = (r1, s1)" by force
  note c = dequeue_stas_cases [OF d]
  show ?case
  proof (cases r1)
    case None
    with c have "s1 = s" by auto
    with None d Cons.prems have "dequeue_acs acs s = (r, s')" by simp
    from Cons.IH [OF this] None c show ?thesis by auto
  next
    case (Some f)
    with d Cons.prems have "r = r1" "s' = s1" by auto
    with Some c show ?thesis by auto
  qed
qed simp

definition tx_listed :: "xpriv \<Rightarrow> bool" where
  "tx_listed s \<longleftrightarrow> (\<forall>ac. distinct (xp_pending s ac) \<and> set (xp_pending s ac) \<subseteq> {..<length (xp_stas s)})"

lemma tx_linked_listed: "tx_linked s \<Longrightarrow> tx_listed s"
  by (auto simp: tx_linked_def tx_listed_def)

lemma taken_simps:
  assumes "servq s k ac = f # q" "k < length (xp_stas s)"
  shows "mset (queued s) = add_mset f (mset (queued (taken k ac s)))" "xp_frames (taken k ac s) = xp_frames s"
    "length (xp_stas (taken k ac s)) = length (xp_stas s)" "tx_pool own s \<Longrightarrow> tx_pool (f # own) (taken k ac s)"
    "tx_listed s \<Longrightarrow> tx_listed (taken k ac s)"
    "xp_stas (taken k ac s) = (xp_stas s)[k := (xp_stas s ! k)\<lparr>xs_servq := (xs_servq (xp_stas s ! k))(ac := q)\<rparr>]"
proof -
  show m: "mset (queued s) = add_mset f (mset (queued (taken k ac s)))"
    using mset_queued_servq [OF assms(2), of ac q] assms by (auto simp: taken_def dequeue_one_xmitframe_def nth_list_update)
  show "tx_pool own s \<Longrightarrow> tx_pool (f # own) (taken k ac s)"
    using m assms by (simp add: tx_pool_def taken_def dequeue_one_xmitframe_def nth_list_update)
  show "tx_listed s \<Longrightarrow> tx_listed (taken k ac s)"
    using assms by (auto simp: tx_listed_def taken_def dequeue_one_xmitframe_def nth_list_update distinct_removeAll)
qed (use assms in \<open>simp_all add: taken_def dequeue_one_xmitframe_def nth_list_update\<close>)

lemma dequeue_taken:
  assumes "tx_listed s" "rtw_dequeue_xframe s = (r, s')"
  shows "case r of None \<Rightarrow> s' = s | Some f \<Rightarrow> \<exists>ac k q. k < length (xp_stas s) \<and> servq s k ac = f # q \<and> s' = taken k ac s"
  using dequeue_acs_cases [of "[VO, VI, BE, BK]" s r s'] assms
  by (fastforce simp: rtw_dequeue_xframe_def tx_listed_def split: option.split)

text \<open>A station without frames, as \<open>_rtw_init_stainfo\<close> leaves it.\<close>

definition idle_sta :: "xsta \<Rightarrow> bool" where
  "idle_sta x \<longleftrightarrow> sta_frames x = [] \<and> xs_sleepq_len x = 0"

lemma init_xmit_priv_pool:
  assumes "rtw_init_xmit_priv mem res s0 = (SUCCESS, s)" "\<forall>x \<in> set (xp_stas s0). idle_sta x"
  shows "tx_pool [] s" "tx_linked s" "xp_stas s = xp_stas s0"
proof -
  from assms(1) have i: "xp_stas s = xp_stas s0" "xp_pending s = (\<lambda>_. [])" "free_xmit_queue s = [0..<NR_XMITFRAME]"
    "free_xmitframe_cnt s = of_nat NR_XMITFRAME" "free_xframe_ext_queue s = [NR_XMITFRAME..<NR_XMITFRAME + NR_XMIT_EXTBUFF]"
    "free_xframe_ext_cnt s = of_nat NR_XMIT_EXTBUFF"
    "xp_frames s = (\<lambda>f. if NR_XMITFRAME \<le> f \<and> f < NR_XMITFRAME + NR_XMIT_EXTBUFF then zero_xframe\<lparr>xq_ext_tag := 1\<rparr>
        else if f < NR_XMITFRAME then zero_xframe\<lparr>xq_ext_tag := 0\<rparr> else xp_frames s0 f)"
    by (auto simp: rtw_init_xmit_priv_def Let_def init_frames_def split: if_splits prod.splits dest!: init_bufs_simps)
  have e: "concat (map sta_frames (xp_stas s)) = []" using assms(2) i(1) by (simp add: idle_sta_def)
  then have "queued s = [0..<NR_XMITFRAME] @ [NR_XMITFRAME..<NR_XMITFRAME + NR_XMIT_EXTBUFF]"
    unfolding queued_def i(3,5) by (simp only: append_Nil2)
  then have "queued s = [0..<NR_XMITFRAME + NR_XMIT_EXTBUFF]" by (simp only: upt_add_eq_append [of 0 NR_XMITFRAME] le0)
  then show "tx_pool [] s"
    by (simp add: tx_pool_def i zero_xframe_def) auto
  show "tx_linked s" using assms(2) i(1,2) by (auto simp: tx_linked_def idle_sta_def sta_frames_def dest!: nth_mem) (metis ac.exhaust)+
  show "xp_stas s = xp_stas s0" by (rule i(1))
qed

end
