(* ===== verification/Tx_Sleep.thy ===== *)
theory Tx_Sleep
  imports Tx_Queue
begin

text \<open>
  Stations in power save at an access point (src/core/rtw_xmit.c and the PS-Poll of
  src/core/rtw_recv.c): frames for a sleeping station go to its \<open>sleep_q\<close> and its bit of the
  traffic indication map is set; the frames leave when the station wakes up
  (\<open>wakeup_sta_to_xmit\<close>), asks for one (PS-Poll) or triggers the categories with automatic
  delivery (\<open>xmit_delivery_enabled_frames\<close>).

  Shown is that no operation loses or duplicates a frame, in any order of them, and
  what a station gets when it wakes up.
\<close>

section \<open>Operations\<close>

definition WIFI_STA_ALIVE_CHK_STATE :: u32 where "WIFI_STA_ALIVE_CHK_STATE = 0x00000400"

text \<open>\<open>BIT(psta->aid)\<close> in the 16-bit maps.\<close>

definition aid_bit :: "xsta \<Rightarrow> u16" where
  "aid_bit x = push_bit (unat (xs_aid x)) 1"

text \<open>The call of \<open>update_beacon\<close> (src/core/rtw_ap.c), which sends a new beacon to the chip, is recorded.\<close>

definition call_update_beacon :: "xpriv \<Rightarrow> xpriv" where
  "call_update_beacon s = s\<lparr>xp_beacons := xp_beacons s + 1\<rparr>"

text \<open>\<open>uapsd_bk\<close>, ..., of the category of a priority: bit 0 is delivery, bit 1 trigger.\<close>

definition uapsd_of :: "xsta \<Rightarrow> byte \<Rightarrow> byte" where
  "uapsd_of x priority = xs_uapsd x (rtw_get_sta_pending priority)"

definition to_sleep_q :: "nat \<Rightarrow> nat \<Rightarrow> xpriv \<Rightarrow> xpriv" where
  "to_sleep_q k f s = upd_sta k (\<lambda>x. x\<lparr>xs_sleep_q := xs_sleep_q x @ [f], xs_sleepq_len := xs_sleepq_len x + 1\<rparr>) (unlink f s)"

definition sleep_unicast :: "nat \<Rightarrow> nat \<Rightarrow> xpriv \<Rightarrow> xpriv" where
  "sleep_unicast k f s =
     (let s = to_sleep_q k f s;
          wmmps_ac = (uapsd_of (xp_stas s ! k) (tx_priority (xq_attrib (xp_frames s f))) AND 1 \<noteq> 0);
          s = (if wmmps_ac then upd_sta k (\<lambda>x. x\<lparr>xs_sleepq_ac_len := xs_sleepq_ac_len x + 1\<rparr>) s else s);
          legacy = (xs_has_legacy_ac (xp_stas s ! k) \<noteq> 0)
      in if legacy \<noteq> wmmps_ac then
           (let s = s\<lparr>tim_bitmap := tim_bitmap s OR aid_bit (xp_stas s ! k)\<rparr>
            in if xs_sleepq_len (xp_stas s ! k) = 1 then call_update_beacon s else s)
         else s)"

definition xmitframe_enqueue_for_sleeping_sta :: "tx_env \<Rightarrow> nat \<Rightarrow> xpriv \<Rightarrow> (bool \<times> xpriv) option" where
  "xmitframe_enqueue_for_sleeping_sta en f s =
     (if \<not> check_fwstate (te_fw_state en) WIFI_AP_STATE then Some (False, s)
      else do {
        psta \<leftarrow> frame_sta en s f;
        Some (case psta of
          None \<Rightarrow> (False, s)
        | Some k \<Rightarrow>
            (let a = xq_attrib (xp_frames s f); bmcst = Sta_Mgt.is_multicast_ether_addr (tx_ra a); x = xp_stas s ! k in
             if tx_triggered a = 1 then (False, if bmcst then upd_attrib f (\<lambda>a. a\<lparr>tx_qsel := 0x11\<rparr>) s else s)
             else if bmcst then
               (if sta_dz_bitmap s \<noteq> 0
                then (let s = to_sleep_q k f s in (True, call_update_beacon (s\<lparr>tim_bitmap := tim_bitmap s OR 1, sta_dz_bitmap := sta_dz_bitmap s OR 1\<rparr>)))
                else (False, s))
             else if ts_state x AND WIFI_SLEEP_STATE \<noteq> 0 \<and> sta_dz_bitmap s AND aid_bit x \<noteq> 0
             then (True, sleep_unicast k f s)
             else (False, s)))
      })"

fun dequeue_xmitframes_to_sleeping_queue :: "tx_env \<Rightarrow> nat list \<Rightarrow> xpriv \<Rightarrow> xpriv option" where
  "dequeue_xmitframes_to_sleeping_queue en [] s = Some s"
| "dequeue_xmitframes_to_sleeping_queue en (f # fs) s = do {
     (ret, s) \<leftarrow> xmitframe_enqueue_for_sleeping_sta en f s;
     dequeue_xmitframes_to_sleeping_queue en fs s
   }"

text \<open>The queue of a category is emptied into the sleeping queue and taken off the list of the category.\<close>

definition stop_ac :: "tx_env \<Rightarrow> nat \<Rightarrow> ac \<Rightarrow> xpriv \<Rightarrow> xpriv option" where
  "stop_ac en k ac s =
     map_option (\<lambda>s. s\<lparr>xp_pending := (xp_pending s)(ac := removeAll k (xp_pending s ac))\<rparr>)
       (dequeue_xmitframes_to_sleeping_queue en (servq s k ac) s)"

definition bcmc_sta :: "tx_env \<Rightarrow> nat option option" where
  "bcmc_sta en = (case rtw_get_bcmc_stainfo (te_stapriv en) of Inl _ \<Rightarrow> None | Inr r \<Rightarrow> Some r)"

definition stop_sta_xmit :: "tx_env \<Rightarrow> nat \<Rightarrow> xpriv \<Rightarrow> xpriv option" where
  "stop_sta_xmit en k s = do {
     psta_bmc \<leftarrow> bcmc_sta en;
     let s = upd_sta k (\<lambda>x. x\<lparr>ts_state := ts_state x OR WIFI_SLEEP_STATE\<rparr>) s;
     let s = s\<lparr>sta_dz_bitmap := sta_dz_bitmap s OR aid_bit (xp_stas s ! k)\<rparr>;
     s \<leftarrow> stop_ac en k VO s;
     s \<leftarrow> stop_ac en k VI s;
     s \<leftarrow> stop_ac en k BE s;
     s \<leftarrow> stop_ac en k BK s;
     kb \<leftarrow> psta_bmc;
     stop_ac en kb BE s
   }"

text \<open>One frame leaves the sleeping queue, with the more-data bit by what is left.\<close>

definition from_sleep_q :: "nat \<Rightarrow> nat \<Rightarrow> xpriv \<Rightarrow> xpriv" where
  "from_sleep_q k f s =
     (let s = upd_sta k (\<lambda>x. x\<lparr>xs_sleepq_len := xs_sleepq_len x - 1\<rparr>) (unlink f s)
      in upd_attrib f (\<lambda>a. a\<lparr>tx_mdata := (if xs_sleepq_len (xp_stas s ! k) > 0 then 1 else 0), tx_triggered := 1\<rparr>) s)"

definition deliver_ac :: "nat \<Rightarrow> nat \<Rightarrow> xpriv \<Rightarrow> xpriv" where
  "deliver_ac k f s =
     (let s = upd_sta k (\<lambda>x. x\<lparr>xs_sleepq_ac_len := xs_sleepq_ac_len x - 1\<rparr>) s; more = (xs_sleepq_ac_len (xp_stas s ! k) > 0)
      in upd_attrib f (\<lambda>a. a\<lparr>tx_mdata := (if more then 1 else 0), tx_eosp := (if more then 0 else 1)\<rparr>) s)"

definition triggers :: "nat \<Rightarrow> nat \<Rightarrow> xpriv \<Rightarrow> bool" where
  "triggers k f s \<longleftrightarrow> uapsd_of (xp_stas s ! k) (tx_priority (xq_attrib (xp_frames s f))) AND 2 \<noteq> 0"

fun wake_frames :: "tx_env \<Rightarrow> nat \<Rightarrow> nat list \<Rightarrow> xpriv \<Rightarrow> xpriv option" where
  "wake_frames en k [] s = Some s"
| "wake_frames en k (f # fs) s = do {
     let wmmps_ac = triggers k f s;
     let s = from_sleep_q k f s;
     let s = (if wmmps_ac then deliver_ac k f s else s);
     s \<leftarrow> rtl8812au_hal_xmitframe_enqueue en f s;
     wake_frames en k fs s
   }"

fun wake_bmc_frames :: "tx_env \<Rightarrow> nat \<Rightarrow> nat list \<Rightarrow> xpriv \<Rightarrow> xpriv option" where
  "wake_bmc_frames en kb [] s = Some s"
| "wake_bmc_frames en kb (f # fs) s = do {
     s \<leftarrow> rtl8812au_hal_xmitframe_enqueue en f (from_sleep_q kb f s);
     wake_bmc_frames en kb fs s
   }"

definition awake :: "nat \<Rightarrow> xpriv \<Rightarrow> xpriv" where
  "awake k s =
     (let b = aid_bit (xp_stas s ! k);
          s = s\<lparr>tim_bitmap := tim_bitmap s AND NOT b\<rparr>;
          s = upd_sta k (\<lambda>x. if ts_state x AND WIFI_SLEEP_STATE \<noteq> 0 then x\<lparr>ts_state := ts_state x XOR WIFI_SLEEP_STATE\<rparr> else x) s;
          s = upd_sta k (\<lambda>x. if ts_state x AND WIFI_STA_ALIVE_CHK_STATE \<noteq> 0
                then x\<lparr>xs_expire_to := xp_expire_to s, ts_state := ts_state x XOR WIFI_STA_ALIVE_CHK_STATE\<rparr> else x) s
      in s\<lparr>sta_dz_bitmap := sta_dz_bitmap s AND NOT b\<rparr>)"

definition wakeup_sta_to_xmit :: "tx_env \<Rightarrow> nat \<Rightarrow> xpriv \<Rightarrow> xpriv option" where
  "wakeup_sta_to_xmit en k s = do {
     psta_bmc \<leftarrow> bcmc_sta en;
     s \<leftarrow> wake_frames en k (xs_sleep_q (xp_stas s ! k)) s;
     (case psta_bmc of
        None \<Rightarrow> Some s
      | Some kb \<Rightarrow> do {
          (mask, s) \<leftarrow>
            (if sta_dz_bitmap s AND 0xfffe = 0 then do {
               s \<leftarrow> wake_bmc_frames en kb (xs_sleep_q (xp_stas s ! kb)) s;
               Some (if xs_sleepq_len (xp_stas s ! kb) = 0
                     then (True, s\<lparr>tim_bitmap := tim_bitmap s AND NOT 1, sta_dz_bitmap := sta_dz_bitmap s AND NOT 1\<rparr>)
                     else (False, s))
             } else Some (False, s));
          let (mask, s) = (if xs_sleepq_len (xp_stas s ! k) = 0 then (True, awake k s) else (mask, s));
          Some (if mask then call_update_beacon s else s)
        })
   }"

fun delivery_frames :: "tx_env \<Rightarrow> nat \<Rightarrow> nat list \<Rightarrow> xpriv \<Rightarrow> xpriv option" where
  "delivery_frames en k [] s = Some s"
| "delivery_frames en k (f # fs) s =
     (if \<not> triggers k f s then delivery_frames en k fs s
      else do {
        s \<leftarrow> rtl8812au_hal_xmitframe_enqueue en f (deliver_ac k f (from_sleep_q k f s));
        let x = xp_stas s ! k;
        let s = (if xs_sleepq_ac_len x = 0 \<and> xs_has_legacy_ac x = 0
                 then call_update_beacon (s\<lparr>tim_bitmap := tim_bitmap s AND NOT (aid_bit x)\<rparr>) else s);
        delivery_frames en k fs s
      })"

definition xmit_delivery_enabled_frames :: "tx_env \<Rightarrow> nat \<Rightarrow> xpriv \<Rightarrow> xpriv option" where
  "xmit_delivery_enabled_frames en k s = delivery_frames en k (xs_sleep_q (xp_stas s ! k)) s"

text \<open>
  \<open>validate_recv_ctrl_frame\<close>: of the control frames only the PS-Poll for this station is handled.
  The frame is at \<open>p\<close> in \<open>mem\<close>; the result is always \<open>_FAIL\<close>, so that nothing is handed up.
\<close>

definition WIFI_CTRL_TYPE :: u16 where "WIFI_CTRL_TYPE = 4"
definition WIFI_PSPOLL :: u16 where "WIFI_PSPOLL = 0xa4"

definition GetAid :: "byte list \<Rightarrow> int \<Rightarrow> u16 option" where
  "GetAid mem p = map_option (\<lambda>v. v AND 0x3fff) (get16 mem (p + 2))"

definition ps_poll_frame :: "tx_env \<Rightarrow> nat \<Rightarrow> xpriv \<Rightarrow> xpriv option" where
  "ps_poll_frame en k s =
     (case xs_sleep_q (xp_stas s ! k) of
        f # fs \<Rightarrow> do {
          s \<leftarrow> rtl8812au_hal_xmitframe_enqueue en f (from_sleep_q k f s);
          let x = xp_stas s ! k;
          Some (if xs_sleepq_len x = 0 then call_update_beacon (s\<lparr>tim_bitmap := tim_bitmap s AND NOT (aid_bit x)\<rparr>) else s)
        }
      | [] \<Rightarrow>
          (let x = xp_stas s ! k in
           if tim_bitmap s AND aid_bit x \<noteq> 0 then
             (let s = (if xs_sleepq_len x = 0 then s\<lparr>xp_nulldata := xp_nulldata s @ [k]\<rparr> else upd_sta k (\<lambda>x. x\<lparr>xs_sleepq_len := 0\<rparr>) s)
              in Some (call_update_beacon (s\<lparr>tim_bitmap := tim_bitmap s AND NOT (aid_bit x)\<rparr>)))
           else Some s))"

definition handle_pspoll :: "tx_env \<Rightarrow> nat \<Rightarrow> byte \<Rightarrow> xpriv \<Rightarrow> xpriv option" where
  "handle_pspoll en k priority s =
     (if uapsd_of (xp_stas s ! k) priority AND 1 \<noteq> 0 then Some s
      else do {
        let s = upd_sta k (\<lambda>x. if ts_state x AND WIFI_STA_ALIVE_CHK_STATE \<noteq> 0
              then x\<lparr>xs_expire_to := xp_expire_to s, ts_state := ts_state x XOR WIFI_STA_ALIVE_CHK_STATE\<rparr> else x) s;
        let x = xp_stas s ! k;
        if ts_state x AND WIFI_SLEEP_STATE \<noteq> 0 \<and> sta_dz_bitmap s AND aid_bit x \<noteq> 0 then ps_poll_frame en k s else Some s
      })"

definition validate_recv_ctrl_frame :: "tx_env \<Rightarrow> byte list \<Rightarrow> byte list \<Rightarrow> int \<Rightarrow> byte \<Rightarrow> xpriv \<Rightarrow> xpriv option" where
  "validate_recv_ctrl_frame en mac_addr mem p priority s = do {
     ty \<leftarrow> GetType mem p;
     if ty \<noteq> WIFI_CTRL_TYPE then Some s
     else do {
       ra \<leftarrow> rd_bytes mem (GetAddr1Ptr p) 6;
       sub \<leftarrow> GetSubType mem p;
       if ra \<noteq> mac_addr \<or> sub \<noteq> WIFI_PSPOLL then Some s
       else do {
         aid \<leftarrow> GetAid mem p;
         ta \<leftarrow> rd_bytes mem (GetAddr2Ptr p) 6;
         (case rtw_get_stainfo (te_stapriv en) (Some ta) of
            Inl _ \<Rightarrow> None
          | Inr None \<Rightarrow> Some s
          | Inr (Some k) \<Rightarrow> do {
              x \<leftarrow> rd (xp_stas s) (int k);
              if xs_aid x \<noteq> ucast aid then Some s else handle_pspoll en k priority s
            })
       }
     }
   }"

section \<open>No frame is lost\<close>

definition sleep_ok :: "xpriv \<Rightarrow> bool" where
  "sleep_ok s \<longleftrightarrow> (\<forall>k < length (xp_stas s). xs_sleepq_len (xp_stas s ! k) = of_nat (length (xs_sleep_q (xp_stas s ! k))))"

definition tx_inv :: "nat list \<Rightarrow> xpriv \<Rightarrow> bool" where
  "tx_inv own s \<longleftrightarrow> tx_pool own s \<and> tx_listed s \<and> sleep_ok s"

abbreviation sleep_q :: "xpriv \<Rightarrow> nat \<Rightarrow> nat list" where
  "sleep_q s k \<equiv> xs_sleep_q (xp_stas s ! k)"

lemma distinct_concat_nth:
  assumes "distinct (concat (map h xs))" "i < length xs"
  shows "distinct (h (xs ! i))" "j < length xs \<Longrightarrow> j \<noteq> i \<Longrightarrow> set (h (xs ! i)) \<inter> set (h (xs ! j)) = {}"
proof -
  have split: "xs = take i xs @ xs ! i # drop (Suc i) xs" using assms(2) by (rule id_take_nth_drop)
  have d: "distinct (concat (map h (take i xs)) @ h (xs ! i) @ concat (map h (drop (Suc i) xs)))"
    using assms(1) split by (metis concat.simps(2) concat_append list.simps(9) map_append)
  then show "distinct (h (xs ! i))" by simp
  assume j: "j < length xs" "j \<noteq> i"
  then have "xs ! j \<in> set (take i xs) \<union> set (drop (Suc i) xs)"
    by (cases "j < i") (auto simp: in_set_conv_nth intro: exI [of _ j] exI [of _ "j - Suc i"])
  with d show "set (h (xs ! i)) \<inter> set (h (xs ! j)) = {}" by auto
qed

lemma removeAll_concat: "removeAll x (concat xss) = concat (map (removeAll x) xss)"
  by (induction xss) auto

lemma queued_unlink: "queued (unlink f s) = removeAll f (queued s)"
  by (simp add: queued_def unlink_def removeAll_concat o_def sta_frames_def unlink_sta_def)

lemma tx_pool_distinct:
  assumes "tx_pool own s"
  shows "distinct (own @ queued s)" "set (own @ queued s) = {..<NR_XMITFRAME + NR_XMIT_EXTBUFF}"
proof -
  have m: "mset (own @ queued s) = mset [0..<NR_XMITFRAME + NR_XMIT_EXTBUFF]" using assms by (simp add: tx_pool_def)
  then show "distinct (own @ queued s)" by (metis distinct_upt mset_eq_imp_distinct_iff)
  show "set (own @ queued s) = {..<NR_XMITFRAME + NR_XMIT_EXTBUFF}" using mset_eq_setD [OF m] by (simp only: set_upt atLeast0LessThan)
qed

lemma tx_pool_sta:
  assumes "tx_pool own s" "k < length (xp_stas s)"
  shows "distinct (sta_frames (xp_stas s ! k))"
    and "j < length (xp_stas s) \<Longrightarrow> j \<noteq> k \<Longrightarrow> set (sta_frames (xp_stas s ! k)) \<inter> set (sta_frames (xp_stas s ! j)) = {}"
    and "f \<in> set (sta_frames (xp_stas s ! k)) \<Longrightarrow> f \<notin> set own \<and> f \<in> set (queued s) \<and> f \<notin> set (free_xmit_queue s) \<and> f \<notin> set (free_xframe_ext_queue s)"
proof -
  have d: "distinct (own @ free_xmit_queue s @ free_xframe_ext_queue s @ concat (map sta_frames (xp_stas s)))"
    using tx_pool_distinct(1) [OF assms(1)] by (simp add: queued_def)
  then show "distinct (sta_frames (xp_stas s ! k))"
    "j < length (xp_stas s) \<Longrightarrow> j \<noteq> k \<Longrightarrow> set (sta_frames (xp_stas s ! k)) \<inter> set (sta_frames (xp_stas s ! j)) = {}"
    using distinct_concat_nth [of sta_frames "xp_stas s" k] assms(2) by auto
  assume "f \<in> set (sta_frames (xp_stas s ! k))"
  then have "f \<in> set (concat (map sta_frames (xp_stas s)))" using assms(2) by auto
  with d show "f \<notin> set own \<and> f \<in> set (queued s) \<and> f \<notin> set (free_xmit_queue s) \<and> f \<notin> set (free_xframe_ext_queue s)"
    by (auto simp: queued_def)
qed

lemma mset_removeAll_distinct: "distinct xs \<Longrightarrow> x \<in> set xs \<Longrightarrow> mset xs = add_mset x (mset (removeAll x xs))"
  by (simp add: distinct_remove1_removeAll [symmetric])

lemma unlink_simps [simp]:
  "length (xp_stas (unlink f s)) = length (xp_stas s)" "xp_pending (unlink f s) = xp_pending s" "xp_frames (unlink f s) = xp_frames s"
  "k < length (xp_stas s) \<Longrightarrow> xp_stas (unlink f s) ! k = unlink_sta f (xp_stas s ! k)"
  "tx_listed (unlink f s) = tx_listed s" "unlink f (unlink f s) = unlink f s"
  by (simp_all add: unlink_def tx_listed_def unlink_sta_def o_def)

lemma unlink_pool:
  assumes "tx_pool own s" "k < length (xp_stas s)" "f \<in> set (sta_frames (xp_stas s ! k))"
  shows "tx_pool (f # own) (unlink f s)"
proof -
  note f = tx_pool_sta(3) [OF assms]
  have "distinct (queued s)" using tx_pool_distinct(1) [OF assms(1)] by simp
  then have "mset (queued s) = add_mset f (mset (queued (unlink f s)))"
    unfolding queued_unlink using f by (intro mset_removeAll_distinct) auto
  then show ?thesis using assms(1) f by (simp add: tx_pool_def) (simp add: unlink_def)
qed

lemma sta_frames_sets: "set (xs_servq x ac) \<subseteq> set (sta_frames x)" "set (xs_sleep_q x) \<subseteq> set (sta_frames x)"
  "distinct (sta_frames x) \<Longrightarrow> set (xs_servq x ac) \<inter> set (xs_sleep_q x) = {} \<and> distinct (xs_sleep_q x) \<and> distinct (xs_servq x ac)"
  by (cases ac; auto simp: sta_frames_def)+

text \<open>Changes that do not concern the queues.\<close>

definition same_queues :: "xsta \<Rightarrow> xsta \<Rightarrow> bool" where
  "same_queues x y \<longleftrightarrow> xs_servq x = xs_servq y \<and> xs_sleep_q x = xs_sleep_q y \<and> xs_sleepq_len x = xs_sleepq_len y"

lemma tx_inv_cong [simp]:
  "tx_inv own (s\<lparr>tim_bitmap := w\<rparr>) = tx_inv own s" "tx_inv own (s\<lparr>sta_dz_bitmap := w\<rparr>) = tx_inv own s"
  "tx_inv own (call_update_beacon s) = tx_inv own s" "tx_inv own (s\<lparr>xp_tasklet := b\<rparr>) = tx_inv own s"
  "tx_inv own (s\<lparr>xp_tx_pkts := n\<rparr>) = tx_inv own s" "tx_inv own (s\<lparr>xp_tx_drop := n\<rparr>) = tx_inv own s"
  "tx_inv own (s\<lparr>xp_nulldata := nd\<rparr>) = tx_inv own s" "tx_inv own (s\<lparr>xp_beacons := m\<rparr>) = tx_inv own s"
  by (simp_all add: tx_inv_def tx_pool_def tx_listed_def sleep_ok_def call_update_beacon_def queued_def)

lemma tx_inv_frame:
  assumes "\<And>g. xq_ext_tag (fr g) = xq_ext_tag (xp_frames s g)" "\<And>g. xq_alloc_addr (fr g) = xq_alloc_addr (xp_frames s g)"
  shows "tx_inv own (s\<lparr>xp_frames := fr\<rparr>) = tx_inv own s"
  by (simp add: assms tx_inv_def tx_pool_def tx_listed_def sleep_ok_def)

lemma tx_inv_sta:
  assumes "stas = xp_stas s" "k < length stas" "same_queues x (stas ! k)"
  shows "tx_inv own (s\<lparr>xp_stas := stas[k := x]\<rparr>) = tx_inv own s"
proof -
  have "sta_frames x = sta_frames (xp_stas s ! k)" using assms by (simp add: sta_frames_def same_queues_def)
  then have "mset (queued (s\<lparr>xp_stas := stas[k := x]\<rparr>)) = mset (queued s)"
    using mset_queued_upd_sta [of k s "\<lambda>_. x"] assms by simp
  then show ?thesis
    using assms by (auto simp: tx_inv_def tx_pool_def tx_listed_def sleep_ok_def same_queues_def nth_list_update)
qed

lemma xp_stas_update_beacon [simp]: "xp_stas (call_update_beacon s) = xp_stas s"
  by (simp add: call_update_beacon_def)

lemma word_pred_length: "xs \<noteq> [] \<Longrightarrow> (of_nat (length xs) :: u32) - 1 = of_nat (length xs - Suc 0)"
  by (cases xs) simp_all

lemma from_servq:
  assumes "tx_inv own s" "k < length (xp_stas s)" "f \<in> set (servq s k ac)"
  shows "tx_inv (f # own) (unlink f s)"
proof -
  have p: "tx_pool own s" using assms(1) by (simp add: tx_inv_def)
  have fk: "f \<in> set (sta_frames (xp_stas s ! k))" using assms(3) sta_frames_sets(1) by blast
  have "f \<notin> set (sleep_q s j)" if "j < length (xp_stas s)" for j
  proof (cases "j = k")
    case True
    then show ?thesis using tx_pool_sta(1) [OF p assms(2)] assms(3) sta_frames_sets(3) by blast
  next
    case False
    then show ?thesis using tx_pool_sta(2) [OF p assms(2) that] fk sta_frames_sets(2) by blast
  qed
  then have "sleep_ok (unlink f s)" using assms(1) by (simp add: tx_inv_def sleep_ok_def unlink_sta_def)
  then show ?thesis using assms(1) unlink_pool [OF p assms(2) fk] by (simp add: tx_inv_def)
qed

lemma from_sleep_q_inv:
  assumes "tx_inv own s" "k < length (xp_stas s)" "f \<in> set (sleep_q s k)"
  shows "tx_inv (f # own) (from_sleep_q k f s)" "sleep_q (from_sleep_q k f s) k = removeAll f (sleep_q s k)"
proof -
  have p: "tx_pool own s" using assms(1) by (simp add: tx_inv_def)
  have fk: "f \<in> set (sta_frames (xp_stas s ! k))" using assms(3) sta_frames_sets(2) by blast
  let ?u = "upd_sta k (\<lambda>x. x\<lparr>xs_sleepq_len := xs_sleepq_len x - 1\<rparr>) (unlink f s)"
  have "f \<notin> set (sleep_q s j)" if "j < length (xp_stas s)" "j \<noteq> k" for j
    using tx_pool_sta(2) [OF p assms(2) that] fk sta_frames_sets(2) by blast
  moreover have d: "distinct (sleep_q s k)" using tx_pool_sta(1) [OF p assms(2)] sta_frames_sets(3) by blast
  ultimately have "sleep_ok ?u"
    using assms
    by (auto simp: tx_inv_def sleep_ok_def unlink_sta_def nth_list_update distinct_remove1_removeAll [symmetric] length_remove1
        word_pred_length dest!: length_pos_if_in_set)
  moreover have "mset (queued ?u) = mset (queued (unlink f s))"
    using mset_queued_upd_sta [of k "unlink f s" "\<lambda>x. x\<lparr>xs_sleepq_len := xs_sleepq_len x - 1\<rparr>"] assms(2) by (simp add: sta_frames_def)
  ultimately have "tx_inv (f # own) ?u"
    using assms(1) unlink_pool [OF p assms(2) fk] by (simp add: tx_inv_def tx_pool_def tx_listed_def unlink_def)
  then show "tx_inv (f # own) (from_sleep_q k f s)" by (simp add: from_sleep_q_def Let_def tx_inv_frame)
  show "sleep_q (from_sleep_q k f s) k = removeAll f (sleep_q s k)"
    using assms(2) by (simp add: from_sleep_q_def Let_def unlink_sta_def)
qed

lemma to_sleep_q_own:
  assumes "tx_inv (f # own) s" "k < length (xp_stas s)"
  shows "tx_inv own (to_sleep_q k f s)"
proof -
  have "tx_pool (f # own) s" using assms(1) by (simp add: tx_inv_def)
  then have u: "unlink f s = s" by (intro unlink_id tx_pool_own(1))
  let ?g = "\<lambda>x. x\<lparr>xs_sleep_q := xs_sleep_q x @ [f], xs_sleepq_len := xs_sleepq_len x + 1\<rparr>"
  have "mset (queued (upd_sta k ?g s)) = add_mset f (mset (queued s))"
    using mset_queued_upd_sta [OF assms(2), of ?g] by (simp add: sta_frames_def)
  then show ?thesis
    using assms by (auto simp: to_sleep_q_def u tx_inv_def tx_pool_def tx_listed_def sleep_ok_def nth_list_update)
qed

lemma to_sleep_q_servq:
  assumes "tx_inv own s" "k < length (xp_stas s)" "f \<in> set (servq s j ac)" "j < length (xp_stas s)"
  shows "tx_inv own (to_sleep_q k f s)"
  using to_sleep_q_own [OF from_servq [OF assms(1,4,3)]] assms(2) by (simp add: to_sleep_q_def)

lemma frame_sta_less: "frame_sta en s f = Some (Some k) \<Longrightarrow> k < length (xp_stas s)"
  by (auto simp: frame_sta_def Let_def rd_def bind_eq_Some_conv split: sum.splits option.splits if_splits)

lemma hal_enqueue_inv:
  assumes "tx_inv (f # own) s" "rtl8812au_hal_xmitframe_enqueue en f s = Some s'"
  shows "tx_inv own s'" "length (xp_stas s') = length (xp_stas s)" "j < length (xp_stas s) \<Longrightarrow> sleep_q s' j = sleep_q s j"
proof -
  have p: "tx_pool (f # own) s" using assms(1) by (simp add: tx_inv_def)
  from assms(2) obtain r where r: "frame_sta en s f = Some r"
    by (auto simp: rtl8812au_hal_xmitframe_enqueue_def rtw_xmitframe_enqueue_def rtw_xmit_classifier_def bind_eq_Some_conv)
  have "tx_inv own s' \<and> length (xp_stas s') = length (xp_stas s) \<and> (j < length (xp_stas s) \<longrightarrow> sleep_q s' j = sleep_q s j)"
  proof (cases r)
    case None
    obtain t where t: "rtw_free_xmitframe (Some f) s = Some t" "tx_pool own t" "xp_stas t = xp_stas s" "xp_pending t = xp_pending s"
      using free_pool [OF p] .
    have "tx_inv own t" using assms(1) t by (simp add: tx_inv_def tx_listed_def sleep_ok_def)
    then show ?thesis using assms(2) r None t
      by (auto simp: rtl8812au_hal_xmitframe_enqueue_def rtw_xmitframe_enqueue_def rtw_xmit_classifier_def)
  next
    case (Some k)
    with r have k: "k < length (xp_stas s)" by (simp add: frame_sta_less)
    let ?t = "classify k (rtw_get_sta_pending (tx_priority (xq_attrib (xp_frames s f)))) f s"
    have "tx_inv own ?t"
      using assms(1) classify_pool [OF p k] k
      by (auto simp: tx_inv_def tx_listed_def sleep_ok_def classify_def Let_def nth_list_update)
    moreover have "length (xp_stas ?t) = length (xp_stas s)" "j < length (xp_stas s) \<longrightarrow> sleep_q ?t j = sleep_q s j"
      using k by (auto simp: classify_def Let_def nth_list_update)
    ultimately show ?thesis using assms(2) r Some
      by (auto simp: rtl8812au_hal_xmitframe_enqueue_def rtw_xmitframe_enqueue_def rtw_xmit_classifier_def)
  qed
  then show "tx_inv own s'" "length (xp_stas s') = length (xp_stas s)" "j < length (xp_stas s) \<Longrightarrow> sleep_q s' j = sleep_q s j" by auto
qed

lemma deliver_ac_inv:
  assumes "k < length (xp_stas s)"
  shows "tx_inv own (deliver_ac k f s) = tx_inv own s" "length (xp_stas (deliver_ac k f s)) = length (xp_stas s)"
    "j < length (xp_stas s) \<Longrightarrow> sleep_q (deliver_ac k f s) j = sleep_q s j"
proof -
  let ?u = "upd_sta k (\<lambda>x. x\<lparr>xs_sleepq_ac_len := xs_sleepq_ac_len x - 1\<rparr>) s"
  have "tx_inv own ?u = tx_inv own s" using assms by (simp add: tx_inv_sta same_queues_def)
  then show "tx_inv own (deliver_ac k f s) = tx_inv own s"
    by (simp add: deliver_ac_def Let_def tx_inv_frame)
qed (use assms in \<open>simp_all add: deliver_ac_def Let_def nth_list_update\<close>)

lemma from_sleep_q_length [simp]: "length (xp_stas (from_sleep_q k f s)) = length (xp_stas s)"
  by (simp add: from_sleep_q_def Let_def)

text \<open>One frame out of the sleeping queue and on to the transmit queues.\<close>

lemma wake_one_inv:
  assumes "tx_inv own s" "k < length (xp_stas s)" "f \<in> set (sleep_q s k)"
    and "rtl8812au_hal_xmitframe_enqueue en f (if b then deliver_ac k f (from_sleep_q k f s) else from_sleep_q k f s) = Some u"
  shows "tx_inv own u" "length (xp_stas u) = length (xp_stas s)" "sleep_q u k = removeAll f (sleep_q s k)"
proof -
  let ?t = "if b then deliver_ac k f (from_sleep_q k f s) else from_sleep_q k f s"
  have t: "tx_inv (f # own) ?t" "length (xp_stas ?t) = length (xp_stas s)" "sleep_q ?t k = removeAll f (sleep_q s k)"
    using from_sleep_q_inv [OF assms(1,2,3)] deliver_ac_inv assms(2) by auto
  then show "tx_inv own u" "length (xp_stas u) = length (xp_stas s)" "sleep_q u k = removeAll f (sleep_q s k)"
    using hal_enqueue_inv [OF t(1) assms(4)] assms(2) by auto
qed

lemma sleep_q_distinct: "tx_inv own s \<Longrightarrow> k < length (xp_stas s) \<Longrightarrow> distinct (sleep_q s k)"
  using tx_pool_sta(1) sta_frames_sets(3) by (metis tx_inv_def)

lemma wake_head_inv:
  assumes "tx_inv own s" "k < length (xp_stas s)" "sleep_q s k = f # fs"
    and "rtl8812au_hal_xmitframe_enqueue en f (if b then deliver_ac k f (from_sleep_q k f s) else from_sleep_q k f s) = Some u"
  shows "tx_inv own u" "length (xp_stas u) = length (xp_stas s)" "sleep_q u k = fs"
  using wake_one_inv [OF assms(1,2) _ assms(4)] sleep_q_distinct [OF assms(1,2)] assms(3) by (simp_all add: removeAll_id)

lemma wake_frames_inv:
  assumes "tx_inv own s" "k < length (xp_stas s)" "wake_frames en k (sleep_q s k) s = Some s'"
  shows "tx_inv own s' \<and> length (xp_stas s') = length (xp_stas s)"
  using assms
proof (induction "sleep_q s k" arbitrary: s)
  case (Cons f fs)
  obtain u where u: "rtl8812au_hal_xmitframe_enqueue en f (if triggers k f s then deliver_ac k f (from_sleep_q k f s) else from_sleep_q k f s) = Some u"
    "wake_frames en k fs u = Some s'"
    using Cons.prems(3) unfolding Cons.hyps(2) [symmetric] by (simp add: bind_eq_Some_conv Let_def) blast
  note w = wake_head_inv [OF Cons.prems(1,2) Cons.hyps(2) [symmetric] u(1)]
  with Cons.hyps(1) [of u] Cons.prems(2) u(2) show ?case by simp
qed simp

lemma wake_bmc_frames_inv:
  assumes "tx_inv own s" "k < length (xp_stas s)" "wake_bmc_frames en k (sleep_q s k) s = Some s'"
  shows "tx_inv own s' \<and> length (xp_stas s') = length (xp_stas s)"
  using assms
proof (induction "sleep_q s k" arbitrary: s)
  case (Cons f fs)
  obtain u where u: "rtl8812au_hal_xmitframe_enqueue en f (if False then deliver_ac k f (from_sleep_q k f s) else from_sleep_q k f s) = Some u"
    "wake_bmc_frames en k fs u = Some s'"
    using Cons.prems(3) unfolding Cons.hyps(2) [symmetric] by (auto simp: bind_eq_Some_conv)
  note w = wake_head_inv [OF Cons.prems(1,2) Cons.hyps(2) [symmetric] u(1)]
  with Cons.hyps(1) [of u] Cons.prems(2) u(2) show ?case by simp
qed simp

lemma delivery_frames_inv:
  assumes "tx_inv own s" "k < length (xp_stas s)" "distinct fs" "set fs \<subseteq> set (sleep_q s k)" "delivery_frames en k fs s = Some s'"
  shows "tx_inv own s' \<and> length (xp_stas s') = length (xp_stas s)"
  using assms
proof (induction fs arbitrary: s)
  case (Cons f fs)
  show ?case
  proof (cases "triggers k f s")
    case True
    then obtain u where u: "rtl8812au_hal_xmitframe_enqueue en f (if True then deliver_ac k f (from_sleep_q k f s) else from_sleep_q k f s) = Some u"
      "delivery_frames en k fs (let x = xp_stas u ! k in if xs_sleepq_ac_len x = 0 \<and> xs_has_legacy_ac x = 0
                 then call_update_beacon (u\<lparr>tim_bitmap := tim_bitmap u AND NOT (aid_bit x)\<rparr>) else u) = Some s'"
      using Cons.prems(5) by (simp add: bind_eq_Some_conv Let_def) blast
    let ?u = "let x = xp_stas u ! k in if xs_sleepq_ac_len x = 0 \<and> xs_has_legacy_ac x = 0
                 then call_update_beacon (u\<lparr>tim_bitmap := tim_bitmap u AND NOT (aid_bit x)\<rparr>) else u"
    note w = wake_one_inv [OF Cons.prems(1,2) _ u(1)]
    have "tx_inv own ?u" "xp_stas ?u = xp_stas u" using w(1) Cons.prems(4) by (simp_all add: Let_def)
    then show ?thesis using Cons.IH [of ?u] w Cons.prems u(2) by auto
  next
    case False
    with Cons.prems Cons.IH show ?thesis by simp
  qed
qed simp

lemma awake_inv: "k < length (xp_stas s) \<Longrightarrow> tx_inv own (awake k s) = tx_inv own s \<and> length (xp_stas (awake k s)) = length (xp_stas s)"
  by (simp add: awake_def Let_def tx_inv_sta same_queues_def)

lemma wakeup_inv:
  assumes "tx_inv own s" "k < length (xp_stas s)" "\<And>kb. bcmc_sta en = Some (Some kb) \<Longrightarrow> kb < length (xp_stas s)"
    and "wakeup_sta_to_xmit en k s = Some s'"
  shows "tx_inv own s' \<and> length (xp_stas s') = length (xp_stas s)"
proof -
  obtain b t where b: "bcmc_sta en = Some b" "wake_frames en k (sleep_q s k) s = Some t"
    using assms(4) by (auto simp: wakeup_sta_to_xmit_def bind_eq_Some_conv)
  note t = wake_frames_inv [OF assms(1,2) b(2)]
  show ?thesis
  proof (cases b)
    case None
    with b t assms(4) show ?thesis by (simp add: wakeup_sta_to_xmit_def)
  next
    case (Some kb)
    then have kb: "kb < length (xp_stas t)" using assms(3) b(1) t by simp
    show ?thesis
      using assms(2,4) b Some t awake_inv [of k] wake_bmc_frames_inv [OF _ kb, of own en]
      by (auto simp: wakeup_sta_to_xmit_def bind_eq_Some_conv Let_def split: if_splits prod.splits)
  qed
qed

lemma delivery_inv:
  assumes "tx_inv own s" "k < length (xp_stas s)" "xmit_delivery_enabled_frames en k s = Some s'"
  shows "tx_inv own s' \<and> length (xp_stas s') = length (xp_stas s)"
  using delivery_frames_inv [OF assms(1,2) sleep_q_distinct [OF assms(1,2)]] assms(3)
  by (simp add: xmit_delivery_enabled_frames_def)

lemma ps_poll_frame_inv:
  assumes "tx_inv own s" "k < length (xp_stas s)" "ps_poll_frame en k s = Some s'"
  shows "tx_inv own s' \<and> length (xp_stas s') = length (xp_stas s)"
proof (cases "sleep_q s k")
  case Nil
  have "tx_inv own (upd_sta k (\<lambda>x. x\<lparr>xs_sleepq_len := 0\<rparr>) s)"
  proof -
    have "xs_sleepq_len (xp_stas s ! k) = 0" using assms(1,2) Nil by (simp add: tx_inv_def sleep_ok_def)
    then show ?thesis using assms(1,2) by (simp add: tx_inv_sta same_queues_def)
  qed
  then show ?thesis using assms Nil by (auto simp: ps_poll_frame_def Let_def split: if_splits)
next
  case (Cons f fs)
  then obtain u where u: "rtl8812au_hal_xmitframe_enqueue en f (if False then deliver_ac k f (from_sleep_q k f s) else from_sleep_q k f s) = Some u"
    using assms(3) by (auto simp: ps_poll_frame_def bind_eq_Some_conv)
  note w = wake_head_inv [OF assms(1,2) Cons u]
  then show ?thesis using assms(3) u Cons by (auto simp: ps_poll_frame_def Let_def split: if_splits)
qed

lemma ctrl_frame_inv:
  assumes "tx_inv own s" "validate_recv_ctrl_frame en mac mem p priority s = Some s'"
  shows "tx_inv own s' \<and> length (xp_stas s') = length (xp_stas s)"
proof -
  have h: "tx_inv own s' \<and> length (xp_stas s') = length (xp_stas s)"
    if k: "k < length (xp_stas s)" and "handle_pspoll en k priority s = Some s'" for k
  proof -
    let ?s = "upd_sta k (\<lambda>x. if ts_state x AND WIFI_STA_ALIVE_CHK_STATE \<noteq> 0
              then x\<lparr>xs_expire_to := xp_expire_to s, ts_state := ts_state x XOR WIFI_STA_ALIVE_CHK_STATE\<rparr> else x) s"
    have "tx_inv own ?s" "length (xp_stas ?s) = length (xp_stas s)" using assms(1) k by (simp_all add: tx_inv_sta same_queues_def)
    then show ?thesis using that ps_poll_frame_inv [of own ?s k en s'] assms(1)
      by (auto simp: handle_pspoll_def Let_def split: if_splits)
  qed
  define ta where "ta = the (rd_bytes mem (GetAddr2Ptr p) 6)"
  show ?thesis
  proof (cases "rtw_get_stainfo (te_stapriv en) (Some ta)")
    case Inl
    with assms show ?thesis by (auto simp: validate_recv_ctrl_frame_def bind_eq_Some_conv ta_def split: if_splits)
  next
    case (Inr r)
    with assms h show ?thesis
      by (cases r) (auto simp: validate_recv_ctrl_frame_def bind_eq_Some_conv rd_def ta_def split: if_splits)
  qed
qed

text \<open>A frame goes to a sleeping queue from the hands of its owner or from a transmit queue.\<close>

lemma to_sleep_q_length [simp]: "length (xp_stas (to_sleep_q k f s)) = length (xp_stas s)"
  by (simp add: to_sleep_q_def)

lemma sleep_unicast_inv:
  assumes "tx_inv own (to_sleep_q k f s)" "k < length (xp_stas s)"
  shows "tx_inv own (sleep_unicast k f s)" "length (xp_stas (sleep_unicast k f s)) = length (xp_stas s)"
  using assms by (simp_all add: sleep_unicast_def Let_def tx_inv_sta same_queues_def)

lemma sleeping_cases:
  assumes "xmitframe_enqueue_for_sleeping_sta en f s = Some (ret, s')"
  obtains "\<not> ret" "\<And>own. tx_inv own s' = tx_inv own s" "xp_stas s' = xp_stas s"
  | k where "ret" "k < length (xp_stas s)" "\<And>own. tx_inv own (to_sleep_q k f s) \<Longrightarrow> tx_inv own s'"
    "length (xp_stas s') = length (xp_stas s)" "\<And>j ac. j < length (xp_stas s) \<Longrightarrow> servq s' j ac = removeAll f (servq s j ac)"
proof (cases "check_fwstate (te_fw_state en) WIFI_AP_STATE")
  case False
  with assms that(1) show thesis by (simp add: xmitframe_enqueue_for_sleeping_sta_def)
next
  case True
  then obtain psta where p: "frame_sta en s f = Some psta"
    using assms by (auto simp: xmitframe_enqueue_for_sleeping_sta_def bind_eq_Some_conv)
  show thesis
  proof (cases psta)
    case None
    with True p assms that(1) show thesis by (simp add: xmitframe_enqueue_for_sleeping_sta_def)
  next
    case (Some k)
    with p have k: "k < length (xp_stas s)" by (simp add: frame_sta_less)
    have sq: "servq (to_sleep_q k f s) j ac = removeAll f (servq s j ac)" if "j < length (xp_stas s)" for j ac
      using k that by (simp add: to_sleep_q_def nth_list_update unlink_sta_def)
    have su: "servq (sleep_unicast k f s) j ac = removeAll f (servq s j ac)" if "j < length (xp_stas s)" for j ac
      using sq [OF that] sq [OF k] k that by (cases "j = k") (simp_all add: sleep_unicast_def Let_def nth_list_update)
    note l = sleep_unicast_inv(2) [OF _ k] sleep_unicast_inv(1) [OF _ k]
    have len: "length (xp_stas (sleep_unicast k f s)) = length (xp_stas s)" "length (xp_stas (to_sleep_q k f s)) = length (xp_stas s)"
      using k by (simp_all add: sleep_unicast_def Let_def)
    show thesis
      using assms True p Some that(1) that(2) [OF _ k] sq su l len
      by (auto simp: xmitframe_enqueue_for_sleeping_sta_def Let_def tx_inv_frame split: if_splits)
  qed
qed

lemma sleeping_inv:
  assumes "xmitframe_enqueue_for_sleeping_sta en f s = Some (ret, s')" "tx_inv (f # own) s"
  shows "tx_inv (if ret then own else f # own) s'"
  using sleeping_cases [OF assms(1)] to_sleep_q_own [OF assms(2)] assms(2) by (metis (full_types))

lemma to_sleeping_queue_inv:
  assumes "tx_inv own s" "j < length (xp_stas s)" "set fs \<subseteq> set (servq s j ac)" "distinct fs"
    and "dequeue_xmitframes_to_sleeping_queue en fs s = Some s'"
  shows "tx_inv own s' \<and> length (xp_stas s') = length (xp_stas s)"
  using assms
proof (induction fs arbitrary: s)
  case (Cons f fs)
  then obtain ret u where u: "xmitframe_enqueue_for_sleeping_sta en f s = Some (ret, u)" "dequeue_xmitframes_to_sleeping_queue en fs u = Some s'"
    by (auto simp: bind_eq_Some_conv)
  from u(1) have "tx_inv own u \<and> length (xp_stas u) = length (xp_stas s) \<and> set fs \<subseteq> set (servq u j ac)"
  proof (cases rule: sleeping_cases)
    case 1
    with Cons.prems show ?thesis by simp
  next
    case (2 k)
    with to_sleep_q_servq [OF Cons.prems(1) 2(2) _ Cons.prems(2), of f ac] Cons.prems show ?thesis by auto
  qed
  with Cons.IH [of u] Cons.prems u(2) show ?case by simp
qed simp

lemma stop_ac_inv:
  assumes "tx_inv own s" "k < length (xp_stas s)" "stop_ac en k ac s = Some s'"
  shows "tx_inv own s' \<and> length (xp_stas s') = length (xp_stas s)"
proof -
  obtain u where u: "dequeue_xmitframes_to_sleeping_queue en (servq s k ac) s = Some u"
    "s' = u\<lparr>xp_pending := (xp_pending u)(ac := removeAll k (xp_pending u ac))\<rparr>"
    using assms(3) by (auto simp: stop_ac_def)
  have "distinct (servq s k ac)"
    using tx_pool_sta(1) assms(1,2) sta_frames_sets(3) by (metis tx_inv_def)
  from to_sleeping_queue_inv [OF assms(1,2) subset_refl this u(1)]
  have i: "tx_inv own u" "length (xp_stas u) = length (xp_stas s)" by simp_all
  then have "tx_listed s'" by (auto simp: u(2) tx_inv_def tx_listed_def distinct_removeAll)
  with i show ?thesis by (simp add: u(2) tx_inv_def tx_pool_def sleep_ok_def)
qed

lemma stop_inv:
  assumes "tx_inv own s" "k < length (xp_stas s)" "\<And>kb. bcmc_sta en = Some (Some kb) \<Longrightarrow> kb < length (xp_stas s)"
    and "stop_sta_xmit en k s = Some s'"
  shows "tx_inv own s' \<and> length (xp_stas s') = length (xp_stas s)"
proof -
  let ?s = "upd_sta k (\<lambda>x. x\<lparr>ts_state := ts_state x OR WIFI_SLEEP_STATE\<rparr>) s"
  let ?s1 = "?s\<lparr>sta_dz_bitmap := sta_dz_bitmap ?s OR aid_bit (xp_stas ?s ! k)\<rparr>"
  have s: "tx_inv own ?s1 \<and> length (xp_stas ?s1) = length (xp_stas s)"
    using assms(1,2) by (simp add: tx_inv_sta same_queues_def)
  obtain kb a b c d where *: "bcmc_sta en = Some (Some kb)" "stop_ac en k VO ?s1 = Some a" "stop_ac en k VI a = Some b"
    "stop_ac en k BE b = Some c" "stop_ac en k BK c = Some d" "stop_ac en kb BE d = Some s'"
    using assms(4) by (auto simp: stop_sta_xmit_def bind_eq_Some_conv Let_def)
  note i = stop_ac_inv [where own = own]
  have a: "tx_inv own a \<and> length (xp_stas a) = length (xp_stas s)" using i [OF _ _ *(2)] s assms(2) by simp
  have b: "tx_inv own b \<and> length (xp_stas b) = length (xp_stas s)" using i [OF _ _ *(3)] a assms(2) by simp
  have c: "tx_inv own c \<and> length (xp_stas c) = length (xp_stas s)" using i [OF _ _ *(4)] b assms(2) by simp
  have d: "tx_inv own d \<and> length (xp_stas d) = length (xp_stas s)" using i [OF _ _ *(5)] c assms(2) by simp
  show ?thesis using i [OF _ _ *(6)] d assms(3) [OF *(1)] by simp
qed

text \<open>
  The steps of the transmit path: a frame is taken from a pool, filled, queued for its station or put
  to sleep, taken for sending, given back; a station falls asleep, wakes up or asks for
  frames.  The first component are the frames in somebody's hands.  Each step may see
  another station table.
\<close>

inductive tx_step :: "nat list \<times> xpriv \<Rightarrow> nat list \<times> xpriv \<Rightarrow> bool" where
  alloc: "rtw_alloc_xmitframe s = (Some f, s') \<Longrightarrow> tx_step (own, s) (f # own, s')"
| alloc_ext: "rtw_alloc_xmitframe_ext s = (Some f, s') \<Longrightarrow> tx_step (own, s) (f # own, s')"
| fill: "f \<in> set own \<Longrightarrow> xq_ext_tag (g (xp_frames s f)) = xq_ext_tag (xp_frames s f) \<Longrightarrow>
    xq_alloc_addr (g (xp_frames s f)) = xq_alloc_addr (xp_frames s f) \<Longrightarrow> tx_step (own, s) (own, upd_frame f g s)"
| free: "f \<in> set own \<Longrightarrow> rtw_free_xmitframe (Some f) s = Some s' \<Longrightarrow> tx_step (own, s) (remove1 f own, s')"
| enqueue: "f \<in> set own \<Longrightarrow> rtl8812au_hal_xmitframe_enqueue en f s = Some s' \<Longrightarrow> tx_step (own, s) (remove1 f own, s')"
| sleep: "f \<in> set own \<Longrightarrow> xmitframe_enqueue_for_sleeping_sta en f s = Some (ret, s') \<Longrightarrow>
    tx_step (own, s) (if ret then remove1 f own else own, s')"
| dequeue: "rtw_dequeue_xframe s = (Some f, s') \<Longrightarrow> tx_step (own, s) (f # own, s')"
| stop: "k < length (xp_stas s) \<Longrightarrow> (\<And>kb. bcmc_sta en = Some (Some kb) \<Longrightarrow> kb < length (xp_stas s)) \<Longrightarrow>
    stop_sta_xmit en k s = Some s' \<Longrightarrow> tx_step (own, s) (own, s')"
| wakeup: "k < length (xp_stas s) \<Longrightarrow> (\<And>kb. bcmc_sta en = Some (Some kb) \<Longrightarrow> kb < length (xp_stas s)) \<Longrightarrow>
    wakeup_sta_to_xmit en k s = Some s' \<Longrightarrow> tx_step (own, s) (own, s')"
| trigger: "k < length (xp_stas s) \<Longrightarrow> xmit_delivery_enabled_frames en k s = Some s' \<Longrightarrow> tx_step (own, s) (own, s')"
| poll: "validate_recv_ctrl_frame en mac mem p priority s = Some s' \<Longrightarrow> tx_step (own, s) (own, s')"

lemma tx_inv_perm: "mset own = mset own' \<Longrightarrow> tx_inv own s = tx_inv own' s"
  by (simp add: tx_inv_def tx_pool_def)

lemma tx_inv_take: "f \<in> set own \<Longrightarrow> tx_inv own s \<Longrightarrow> tx_inv (f # remove1 f own) s"
  by (subst tx_inv_perm [of _ own]) simp_all

lemma alloc_ext_pool:
  assumes "tx_pool own s" "rtw_alloc_xmitframe_ext s = (Some f, s')"
  shows "tx_pool (f # own) s' \<and> xp_stas s' = xp_stas s \<and> xp_pending s' = xp_pending s"
proof -
  from assms(2) obtain q where q: "free_xframe_ext_queue s = f # q"
    "s' = upd_frame f rtw_init_xmitframe (s\<lparr>free_xframe_ext_queue := q, free_xframe_ext_cnt := free_xframe_ext_cnt s - 1\<rparr>)"
    by (auto simp: rtw_alloc_xmitframe_ext_def split: list.splits)
  have "mset (queued s) = add_mset f (mset (queued s'))" by (simp add: q queued_def)
  then show ?thesis using assms(1) by (simp add: tx_pool_def q rtw_init_xmitframe_def)
qed

lemma tx_step_inv:
  assumes "tx_step (own, s) (own', s')" "tx_inv own s"
  shows "tx_inv own' s'"
  using assms
proof (cases rule: tx_step.cases)
  case (alloc f)
  with alloc_pool [of own s "Some f" s'] assms(2) show ?thesis by (simp add: tx_inv_def tx_listed_def sleep_ok_def)
next
  case (alloc_ext f)
  with alloc_ext_pool [of own s f s'] assms(2) show ?thesis by (simp add: tx_inv_def tx_listed_def sleep_ok_def)
next
  case (fill f g)
  with assms(2) show ?thesis by (simp add: tx_inv_frame)
next
  case (free f)
  then have i: "tx_inv (f # remove1 f own) s" using assms(2) tx_inv_take by blast
  then obtain t where "rtw_free_xmitframe (Some f) s = Some t" "tx_pool (remove1 f own) t" "xp_stas t = xp_stas s" "xp_pending t = xp_pending s"
    using free_pool by (metis tx_inv_def)
  with i free show ?thesis by (simp add: tx_inv_def tx_listed_def sleep_ok_def)
next
  case (enqueue f en)
  with assms(2) hal_enqueue_inv(1) [of f "remove1 f own" s en s'] tx_inv_take [of f own s] show ?thesis by simp
next
  case (sleep f en ret)
  then have "tx_inv (f # remove1 f own) s" using assms(2) tx_inv_take by blast
  from sleeping_inv [OF sleep(3) this] sleep show ?thesis
    by (simp split: if_splits) (simp add: tx_inv_perm [of "f # remove1 f own" own])
next
  case (dequeue f)
  from assms(2) have l: "tx_listed s" by (simp add: tx_inv_def)
  from dequeue_taken [OF l dequeue(2)] obtain ac k q where d: "k < length (xp_stas s)" "servq s k ac = f # q" "s' = taken k ac s" by auto
  note t = taken_simps [OF d(2,1)]
  have "sleep_ok (taken k ac s)" using assms(2) d(1) by (simp add: t tx_inv_def sleep_ok_def nth_list_update)
  then show ?thesis using t(4,5) assms(2) d(3) dequeue(1) by (simp add: tx_inv_def)
next
  case (stop k en)
  with stop_inv [OF assms(2), of k en s'] show ?thesis by blast
next
  case (wakeup k en)
  with wakeup_inv [OF assms(2), of k en s'] show ?thesis by blast
next
  case (trigger k en)
  with delivery_inv [OF assms(2)] show ?thesis by blast
next
  case (poll en mac mem p priority)
  with ctrl_frame_inv [OF assms(2)] show ?thesis by blast
qed

lemma init_tx_inv:
  assumes "rtw_init_xmit_priv mem res s0 = (SUCCESS, s)" "\<forall>x \<in> set (xp_stas s0). idle_sta x"
  shows "tx_inv [] s"
  using init_xmit_priv_pool [OF assms] assms(2) tx_linked_listed
  by (auto simp: tx_inv_def sleep_ok_def idle_sta_def sta_frames_def)

text \<open>
  C35 (invariant): in every run from the initialised state, with stations falling asleep, waking up and asking
  for frames in any order, each of the 256 data frames and 32 management frames is in exactly one
  queue or in one caller's hands, the counters of the free queues are their lengths and
  \<open>sleepq_len\<close> is the length of the sleeping queue.
\<close>

theorem tx_frames_conserved:
  assumes "rtw_init_xmit_priv mem res s0 = (SUCCESS, s)" "\<forall>x \<in> set (xp_stas s0). idle_sta x"
    and "tx_step\<^sup>*\<^sup>* ([], s) (own, s')"
  shows "mset (own @ queued s') = mset [0..<NR_XMITFRAME + NR_XMIT_EXTBUFF] \<and>
    free_xmitframe_cnt s' = of_nat (length (free_xmit_queue s')) \<and>
    free_xframe_ext_cnt s' = of_nat (length (free_xframe_ext_queue s')) \<and>
    (\<forall>k < length (xp_stas s'). xs_sleepq_len (xp_stas s' ! k) = of_nat (length (xs_sleep_q (xp_stas s' ! k))))"
proof -
  have "tx_inv own s'"
    using assms(3) init_tx_inv [OF assms(1,2)]
    by (induction "(own, s')" arbitrary: own s' rule: rtranclp_induct) (auto intro: tx_step_inv)
  then show ?thesis by (simp add: tx_inv_def tx_pool_def sleep_ok_def)
qed

theorem tx_frames_conserved_witness:
  "let s = snd (rtw_init_xmit_priv (\<lambda>_. True) (\<lambda>_ _. True) tq_priv); (f, s') = rtw_alloc_xmitframe s
   in f = Some 0 \<and> mset ([0] @ queued s') = mset [0..<NR_XMITFRAME + NR_XMIT_EXTBUFF] \<and> free_xmitframe_cnt s' = of_nat (length (free_xmit_queue s'))"
proof -
  obtain st s where i: "rtw_init_xmit_priv (\<lambda>_. True) (\<lambda>_ _. True) tq_priv = (st, s)" by force
  have "fst (init_bufs (\<lambda>_. True) bs t)" "fst (init_extbufs (\<lambda>_. True) bs t)" for bs t
    by (induction bs arbitrary: t) (simp_all add: Let_def)
  then have b: "init_bufs (\<lambda>_. True) bs t = (ok, t') \<Longrightarrow> ok" "init_extbufs (\<lambda>_. True) bs t = (ok, t') \<Longrightarrow> ok" for bs t ok t'
    by (metis fst_conv)+
  with i have st: "st = SUCCESS"
    by (auto simp: rtw_init_xmit_priv_def Let_def split: prod.splits if_splits dest: b)
  have idle: "\<forall>x \<in> set (xp_stas tq_priv). idle_sta x"
    by (simp add: tq_priv_def tq_sta_def at_sta.defs xsta.defs idle_sta_def sta_frames_def)
  have "free_xmit_queue s = [0..<NR_XMITFRAME]"
    using i st by (auto simp: rtw_init_xmit_priv_def Let_def init_frames_def split: if_splits prod.splits dest!: init_bufs_simps)
  then have q: "free_xmit_queue s = 0 # [Suc 0..<NR_XMITFRAME]" using upt_conv_Cons [of 0 NR_XMITFRAME] by (simp only: NR_XMITFRAME_def)
  then obtain s' where a: "rtw_alloc_xmitframe s = (Some 0, s')" by (simp add: rtw_alloc_xmitframe_def)
  have "tx_step\<^sup>*\<^sup>* ([], s) ([0], s')" by (rule r_into_rtranclp, rule tx_step.alloc [OF a])
  from tx_frames_conserved [OF i [unfolded st] idle this] show ?thesis by (simp only: i Let_def snd_conv a prod.case)
qed

section \<open>Waking up\<close>

definition frame_ac :: "xpriv \<Rightarrow> nat \<Rightarrow> ac" where
  "frame_ac s f = rtw_get_sta_pending (tx_priority (xq_attrib (xp_frames s f)))"

text \<open>What waking up does with one frame of a station without automatic delivery.\<close>

definition woken :: "nat \<Rightarrow> nat \<Rightarrow> xpriv \<Rightarrow> xpriv" where
  "woken k f s = (classify k (frame_ac s f) f (from_sleep_q k f s))\<lparr>xp_tasklet := True\<rparr>"

lemma from_sleep_q_simps:
  assumes "k < length (xp_stas s)"
  shows "xp_pending (from_sleep_q k f s) = xp_pending s" "tim_bitmap (from_sleep_q k f s) = tim_bitmap s"
    "sta_dz_bitmap (from_sleep_q k f s) = sta_dz_bitmap s"
    "j < length (xp_stas s) \<Longrightarrow> xp_stas (from_sleep_q k f s) ! j = (if j = k
       then (unlink_sta f (xp_stas s ! k))\<lparr>xs_sleepq_len := xs_sleepq_len (xp_stas s ! k) - 1\<rparr> else unlink_sta f (xp_stas s ! j))"
    "xq_attrib (xp_frames (from_sleep_q k f s) g) = (if g = f
       then (xq_attrib (xp_frames s f))\<lparr>tx_mdata := (if xs_sleepq_len (xp_stas s ! k) - 1 > 0 then 1 else 0), tx_triggered := 1\<rparr>
       else xq_attrib (xp_frames s g))"
  using assms by (simp_all add: from_sleep_q_def Let_def nth_list_update unlink_sta_def) (simp_all add: unlink_def)

lemma woken_simps:
  assumes "tx_inv own s" "k < length (xp_stas s)" "sleep_q s k = f # fs"
  shows "tim_bitmap (woken k f s) = tim_bitmap s" "sta_dz_bitmap (woken k f s) = sta_dz_bitmap s"
    "length (xp_stas (woken k f s)) = length (xp_stas s)" "sleep_q (woken k f s) k = fs"
    "ts_state (xp_stas (woken k f s) ! k) = ts_state (xp_stas s ! k)" "xs_aid (xp_stas (woken k f s) ! k) = xs_aid (xp_stas s ! k)"
    "xs_uapsd (xp_stas (woken k f s) ! k) = xs_uapsd (xp_stas s ! k)"
    "servq (woken k f s) k ac = servq s k ac @ (if frame_ac s f = ac then [f] else [])"
    "k \<in> set (xp_pending s ac) \<or> frame_ac s f = ac \<Longrightarrow> k \<in> set (xp_pending (woken k f s) ac)"
    "g \<noteq> f \<Longrightarrow> xq_attrib (xp_frames (woken k f s) g) = xq_attrib (xp_frames s g)"
    "xq_attrib (xp_frames (woken k f s) f) = (xq_attrib (xp_frames s f))\<lparr>tx_mdata := (if fs = [] then 0 else 1), tx_triggered := 1\<rparr>"
proof -
  have "f \<notin> set (servq s k b)" for b
    using tx_pool_sta(1) [of own s k] assms sta_frames_sets(3) [of "xp_stas s ! k" b] by (auto simp: tx_inv_def)
  then have sv: "removeAll f (servq s k b) = servq s k b" for b by simp
  have d: "distinct (f # fs)" using sleep_q_distinct [OF assms(1,2)] assms(3) by simp
  have "set (f # fs) \<subseteq> set (queued s)"
    using tx_pool_sta(3) [of own s k] assms sta_frames_sets(2) [of "xp_stas s ! k"] by (auto simp: tx_inv_def)
  also have "\<dots> \<subseteq> {..<NR_XMITFRAME + NR_XMIT_EXTBUFF}" using tx_pool_distinct(2) [of own s] assms(1) by (auto simp: tx_inv_def)
  finally have "card (set (f # fs)) \<le> NR_XMITFRAME + NR_XMIT_EXTBUFF" by (metis card_lessThan card_mono finite_lessThan)
  then have "length fs < 288" using d by (simp add: distinct_card NR_XMITFRAME_def NR_XMIT_EXTBUFF_def)
  then have "(0 :: u32) < of_nat (length fs) \<longleftrightarrow> fs \<noteq> []"
    by (simp add: word_less_nat_alt unsigned_of_nat take_bit_nat_eq_self)
  moreover have "xs_sleepq_len (xp_stas s ! k) = of_nat (length fs) + 1"
    using assms by (simp add: tx_inv_def sleep_ok_def)
  ultimately have more: "xs_sleepq_len (xp_stas s ! k) - 1 > 0 \<longleftrightarrow> fs \<noteq> []" by simp
  note f = from_sleep_q_simps [OF assms(2), where f = f]
  show "tim_bitmap (woken k f s) = tim_bitmap s" "sta_dz_bitmap (woken k f s) = sta_dz_bitmap s"
    "length (xp_stas (woken k f s)) = length (xp_stas s)" "sleep_q (woken k f s) k = fs"
    "ts_state (xp_stas (woken k f s) ! k) = ts_state (xp_stas s ! k)" "xs_aid (xp_stas (woken k f s) ! k) = xs_aid (xp_stas s ! k)"
    "xs_uapsd (xp_stas (woken k f s) ! k) = xs_uapsd (xp_stas s ! k)"
    "servq (woken k f s) k ac = servq s k ac @ (if frame_ac s f = ac then [f] else [])"
    "k \<in> set (xp_pending s ac) \<or> frame_ac s f = ac \<Longrightarrow> k \<in> set (xp_pending (woken k f s) ac)"
    "g \<noteq> f \<Longrightarrow> xq_attrib (xp_frames (woken k f s) g) = xq_attrib (xp_frames s g)"
    "xq_attrib (xp_frames (woken k f s) f) = (xq_attrib (xp_frames s f))\<lparr>tx_mdata := (if fs = [] then 0 else 1), tx_triggered := 1\<rparr>"
    using assms(2,3) f d sv more by (auto simp: woken_def classify_def Let_def unlink_sta_def nth_list_update)
qed

lemma frame_sta_iff:
  "frame_sta en s f = Some (Some k) \<longleftrightarrow> rtw_get_stainfo (te_stapriv en) (Some (tx_ra (xq_attrib (xp_frames s f)))) = Inr (Some k) \<and>
     tx_psta (xq_attrib (xp_frames s f)) = Some k \<and> k < length (xp_stas s) \<and> ts_state (xp_stas s ! k) AND WIFI_ASOC_STATE \<noteq> 0"
  by (cases "rtw_get_stainfo (te_stapriv en) (Some (tx_ra (xq_attrib (xp_frames s f))))")
     (auto simp: frame_sta_def Let_def rd_def split: option.splits)

lemma hal_enqueue_woken:
  assumes "k < length (xp_stas s)" "frame_sta en s f = Some (Some k)"
  shows "rtl8812au_hal_xmitframe_enqueue en f (from_sleep_q k f s) = Some (woken k f s)"
proof -
  note f = from_sleep_q_simps [OF assms(1), where f = f]
  have "frame_sta en (from_sleep_q k f s) f = Some (Some k)"
    using assms f by (simp add: frame_sta_iff unlink_sta_def)
  then show ?thesis
    using f(5) [of f]
    by (simp add: rtl8812au_hal_xmitframe_enqueue_def rtw_xmitframe_enqueue_def rtw_xmit_classifier_def woken_def frame_ac_def)
qed

lemma woken_inv:
  assumes "tx_inv own s" "k < length (xp_stas s)" "sleep_q s k = f # fs" "frame_sta en s f = Some (Some k)"
  shows "tx_inv own (woken k f s)"
  using wake_head_inv(1) [OF assms(1-3), where b = False] hal_enqueue_woken [OF assms(2,4)] by simp

lemma wake_frames_all:
  assumes "tx_inv own s" "k < length (xp_stas s)" "sleep_q s k = fs"
    and "\<forall>f \<in> set fs. frame_sta en s f = Some (Some k) \<and> \<not> triggers k f s"
  shows "\<exists>s'. wake_frames en k fs s = Some s' \<and> tim_bitmap s' = tim_bitmap s \<and> sta_dz_bitmap s' = sta_dz_bitmap s \<and>
    length (xp_stas s') = length (xp_stas s) \<and> sleep_q s' k = [] \<and> ts_state (xp_stas s' ! k) = ts_state (xp_stas s ! k) \<and>
    xs_aid (xp_stas s' ! k) = xs_aid (xp_stas s ! k) \<and>
    (\<forall>ac. servq s' k ac = servq s k ac @ filter (\<lambda>f. frame_ac s f = ac) fs) \<and>
    (\<forall>ac. k \<in> set (xp_pending s ac) \<or> (\<exists>f \<in> set fs. frame_ac s f = ac) \<longrightarrow> k \<in> set (xp_pending s' ac)) \<and>
    (\<forall>g. g \<notin> set fs \<longrightarrow> xq_attrib (xp_frames s' g) = xq_attrib (xp_frames s g)) \<and>
    (\<forall>i < length fs. xq_attrib (xp_frames s' (fs ! i)) =
       (xq_attrib (xp_frames s (fs ! i)))\<lparr>tx_mdata := (if Suc i < length fs then 1 else 0), tx_triggered := 1\<rparr>)"
  using assms
proof (induction fs arbitrary: s)
  case (Cons f fs)
  let ?u = "woken k f s"
  note w = woken_simps [OF Cons.prems(1-3)]
  have d: "distinct (f # fs)" using sleep_q_distinct [OF Cons.prems(1,2)] Cons.prems(3) by simp
  then have g: "xq_attrib (xp_frames ?u g) = xq_attrib (xp_frames s g)" if "g \<in> set fs" for g using w(10) [of g] that by auto
  have ac: "frame_ac ?u g = frame_ac s g" if "g \<in> set fs" for g using g [OF that] by (simp add: frame_ac_def)
  have i: "tx_inv own ?u" "k < length (xp_stas ?u)" "sleep_q ?u k = fs" using woken_inv [OF Cons.prems(1-3)] Cons.prems(2,4) w by auto
  have "frame_sta en ?u h = Some (Some k) \<and> \<not> triggers k h ?u" if h: "h \<in> set fs" for h
    using Cons.prems(2,4) g [OF h] w(3,5,7) h by (simp add: frame_sta_iff triggers_def uapsd_of_def)
  with Cons.IH [OF i] obtain s' where s': "wake_frames en k fs ?u = Some s'" "tim_bitmap s' = tim_bitmap s" "sta_dz_bitmap s' = sta_dz_bitmap s"
    "length (xp_stas s') = length (xp_stas s)" "sleep_q s' k = []" "ts_state (xp_stas s' ! k) = ts_state (xp_stas s ! k)"
    "xs_aid (xp_stas s' ! k) = xs_aid (xp_stas s ! k)"
    "\<forall>ac. servq s' k ac = servq ?u k ac @ filter (\<lambda>f. frame_ac ?u f = ac) fs"
    "\<forall>ac. k \<in> set (xp_pending ?u ac) \<or> (\<exists>f \<in> set fs. frame_ac ?u f = ac) \<longrightarrow> k \<in> set (xp_pending s' ac)"
    "\<forall>g. g \<notin> set fs \<longrightarrow> xq_attrib (xp_frames s' g) = xq_attrib (xp_frames ?u g)"
    "\<forall>i < length fs. xq_attrib (xp_frames s' (fs ! i)) =
       (xq_attrib (xp_frames ?u (fs ! i)))\<lparr>tx_mdata := (if Suc i < length fs then 1 else 0), tx_triggered := 1\<rparr>"
    by (auto simp: w)
  have "wake_frames en k (f # fs) s = Some s'"
    using hal_enqueue_woken [OF Cons.prems(2), of en f] Cons.prems(4) s'(1) by (simp add: Let_def)
  moreover have "servq s' k ac = servq s k ac @ filter (\<lambda>f. frame_ac s f = ac) (f # fs)" for ac
    using s'(8) w(8) ac by (simp cong: filter_cong)
  moreover have "k \<in> set (xp_pending s' ac)" if "k \<in> set (xp_pending s ac) \<or> (\<exists>g \<in> set (f # fs). frame_ac s g = ac)" for ac
    using that s'(9) w(9) ac by (metis set_ConsD)
  moreover have "xq_attrib (xp_frames s' g) = xq_attrib (xp_frames s g)" if "g \<notin> set (f # fs)" for g
    using that s'(10) w(10) by simp
  moreover have "xq_attrib (xp_frames s' ((f # fs) ! i)) =
       (xq_attrib (xp_frames s ((f # fs) ! i)))\<lparr>tx_mdata := (if Suc i < length (f # fs) then 1 else 0), tx_triggered := 1\<rparr>"
    if "i < length (f # fs)" for i
    using that s'(10,11) w(11) d g by (cases i) auto
  ultimately show ?case using s'(2-7) by blast
qed simp

text \<open>
  C36 (functional): when a station in power save without automatic delivery wakes up, all its sleeping frames
  go to its transmit queues, in their order behind the frames already there, and each
  queue with frames is in the list of its category; the more-data bit is set in all of them but the
  last one, none goes back to sleep, and the station's bits in the maps and its sleep state are cleared.
\<close>

theorem wakeup_sends_sleeping_frames:
  assumes "tx_inv own s" "k < length (xp_stas s)" "xs_sleep_q (xp_stas s ! k) = fs"
    and "\<forall>f \<in> set fs. frame_sta en s f = Some (Some k) \<and> \<not> triggers k f s"
    and "bcmc_sta en = Some (Some kb)" "sta_dz_bitmap s AND 0xfffe \<noteq> 0" "ts_state (xp_stas s ! k) AND WIFI_SLEEP_STATE \<noteq> 0"
  shows "\<exists>s'. wakeup_sta_to_xmit en k s = Some s' \<and> xs_sleep_q (xp_stas s' ! k) = [] \<and> xs_sleepq_len (xp_stas s' ! k) = 0 \<and>
    (\<forall>ac. servq s' k ac = servq s k ac @ filter (\<lambda>f. frame_ac s f = ac) fs) \<and>
    (\<forall>f \<in> set fs. k \<in> set (xp_pending s' (frame_ac s f))) \<and>
    (\<forall>i < length fs. xq_attrib (xp_frames s' (fs ! i)) =
       (xq_attrib (xp_frames s (fs ! i)))\<lparr>tx_mdata := (if Suc i < length fs then 1 else 0), tx_triggered := 1\<rparr>) \<and>
    tim_bitmap s' = tim_bitmap s AND NOT (aid_bit (xp_stas s ! k)) \<and> sta_dz_bitmap s' = sta_dz_bitmap s AND NOT (aid_bit (xp_stas s ! k)) \<and>
    ts_state (xp_stas s' ! k) AND WIFI_SLEEP_STATE = 0"
proof -
  obtain t where t: "wake_frames en k fs s = Some t" "tim_bitmap t = tim_bitmap s" "sta_dz_bitmap t = sta_dz_bitmap s"
    "length (xp_stas t) = length (xp_stas s)" "sleep_q t k = []" "ts_state (xp_stas t ! k) = ts_state (xp_stas s ! k)"
    "xs_aid (xp_stas t ! k) = xs_aid (xp_stas s ! k)"
    "\<forall>ac. servq t k ac = servq s k ac @ filter (\<lambda>f. frame_ac s f = ac) fs"
    "\<forall>f \<in> set fs. k \<in> set (xp_pending t (frame_ac s f))"
    "\<forall>i < length fs. xq_attrib (xp_frames t (fs ! i)) =
       (xq_attrib (xp_frames s (fs ! i)))\<lparr>tx_mdata := (if Suc i < length fs then 1 else 0), tx_triggered := 1\<rparr>"
    using wake_frames_all [OF assms(1-4)] by blast
  have "tx_inv own t" using wake_frames_inv [OF assms(1,2), of en t] assms(3) t(1) by simp
  then have len: "xs_sleepq_len (xp_stas t ! k) = 0" using assms(2) t(4,5) by (simp add: tx_inv_def sleep_ok_def)
  have b: "aid_bit (xp_stas t ! k) = aid_bit (xp_stas s ! k)" by (simp add: aid_bit_def t)
  have w: "wakeup_sta_to_xmit en k s = Some (call_update_beacon (awake k t))"
    using assms(3,5,6) t(1,3) len by (simp add: wakeup_sta_to_xmit_def Let_def)
  have a: "xs_sleep_q (xp_stas (awake k t) ! k) = [] \<and> xs_sleepq_len (xp_stas (awake k t) ! k) = 0 \<and> (\<forall>ac. servq (awake k t) k ac = servq t k ac)"
    "xp_pending (awake k t) = xp_pending t" "xp_frames (awake k t) = xp_frames t"
    "tim_bitmap (awake k t) = tim_bitmap t AND NOT (aid_bit (xp_stas t ! k))" "sta_dz_bitmap (awake k t) = sta_dz_bitmap t AND NOT (aid_bit (xp_stas t ! k))"
    using assms(2) t(4,5) len by (simp_all add: awake_def Let_def)
  have "(v XOR WIFI_SLEEP_STATE) AND WIFI_SLEEP_STATE = 0 \<and> ((v XOR WIFI_SLEEP_STATE) XOR WIFI_STA_ALIVE_CHK_STATE) AND WIFI_SLEEP_STATE = 0"
    if "v AND WIFI_SLEEP_STATE \<noteq> 0" for v :: u32
  proof -
    have s: "WIFI_SLEEP_STATE = 2 ^ 2" "WIFI_STA_ALIVE_CHK_STATE = 2 ^ 10"
      by (simp_all add: WIFI_SLEEP_STATE_def WIFI_STA_ALIVE_CHK_STATE_def)
    show ?thesis using that unfolding s and_exp_eq_0_iff_not_bit by (simp only: bit_simps) simp
  qed
  then have st: "ts_state (xp_stas (awake k t) ! k) AND WIFI_SLEEP_STATE = 0"
    using assms(2,7) t(4,6) by (simp add: awake_def Let_def)
  show ?thesis
    by (intro exI conjI, rule w) (use a t b st in \<open>simp_all add: call_update_beacon_def\<close>)
qed

text \<open>An instance: a station with two sleeping frames.\<close>

definition wk_table :: sta_priv where
  "wk_table = (the (snd (rtw_init_sta_priv True (replicate 6 0))))\<lparr>
     sp_stainfo := [init_stainfo\<lparr>si_hwaddr := [2, 0, 0, 0, 0, 1]\<rparr>, init_stainfo\<lparr>si_hwaddr := bc_addr\<rparr>], sp_sta_hash := replicate 32 [0, 1]\<rparr>"

definition wk_attr :: at_attr where
  "wk_attr = zero_attr\<lparr>tx_ra := [2, 0, 0, 0, 0, 1], tx_psta := Some 0\<rparr>"

definition wk_priv :: xpriv where
  "wk_priv = tq_priv\<lparr>xp_stas := [tq_sta\<lparr>ts_state := 5, xs_sleep_q := [0, 1], xs_sleepq_len := 2\<rparr>, tq_sta], sta_dz_bitmap := 2, tim_bitmap := 2,
     xp_frames := (\<lambda>f. zero_xframe\<lparr>xq_ext_tag := (if f < NR_XMITFRAME then 0 else 1), xq_attrib := wk_attr\<rparr>)\<rparr>"

lemma wk_look:
  "rtw_get_stainfo wk_table (Some [2, 0, 0, 0, 0, 1]) = Inr (Some 0)" "rtw_get_stainfo wk_table (Some bc_addr) = Inr (Some 1)"
proof -
  have bc: "bc_addr = [255, 255, 255, 255, 255, 255]" by (simp add: bc_addr_def numeral_eq_Suc)
  show "rtw_get_stainfo wk_table (Some [2, 0, 0, 0, 0, 1]) = Inr (Some 0)" "rtw_get_stainfo wk_table (Some bc_addr) = Inr (Some 1)"
    using wifi_mac_hash_less [of "[2, 0, 0, 0, 0, 1]"] wifi_mac_hash_less [of bc_addr]
    by (simp_all add: wk_table_def rtw_get_stainfo_def spin_lock_bh_def spin_unlock_bh_def rtw_init_sta_priv_def sta_key_def
        Sta_Mgt.is_multicast_ether_addr_def bc)
qed

lemma wk_en: "te_stapriv (tx_env.truncate (pk_env\<lparr>te_stapriv := wk_table\<rparr>)) = wk_table"
  by (simp add: tx_env.truncate_def)

lemma wk_bmc: "bcmc_sta (tx_env.truncate (pk_env\<lparr>te_stapriv := wk_table\<rparr>)) = Some (Some 1)"
  by (simp add: bcmc_sta_def rtw_get_bcmc_stainfo_def wk_en wk_look)

lemma wk_sta:
  "xs_servq tq_sta = (\<lambda>_. [])" "xs_sleep_q tq_sta = []" "xs_sleepq_len tq_sta = 0" "xs_uapsd tq_sta = (\<lambda>_. 0)" "xs_aid tq_sta = 1"
  "ts_state tq_sta = 1"
  by (simp_all add: tq_sta_def at_sta.defs xsta.defs pk_sta_def)

lemma wk_pool: "NR_XMITFRAME + NR_XMIT_EXTBUFF = 288" "mset ([2..<288] @ [0, 1]) = mset [0..<288]"
proof -
  show "NR_XMITFRAME + NR_XMIT_EXTBUFF = 288" by (simp add: NR_XMITFRAME_def NR_XMIT_EXTBUFF_def)
  have "[0..<288] = 0 # 1 # [2..<288]" using upt_conv_Cons [of 0 288] upt_conv_Cons [of 1 288] by (simp only: numeral_2_eq_2 One_nat_def)
  moreover have "mset (xs @ [0, 1]) = mset (0 # 1 # xs)" for xs :: "nat list" by simp
  ultimately show "mset ([2..<288] @ [0, 1]) = mset [0..<288]" by (simp only:)
qed

theorem wakeup_sends_sleeping_frames_witness:
  "\<exists>s'. wakeup_sta_to_xmit (tx_env.truncate (pk_env\<lparr>te_stapriv := wk_table\<rparr>)) 0 wk_priv = Some s' \<and> xs_sleep_q (xp_stas s' ! 0) = [] \<and> servq s' 0 BE = [0, 1] \<and>
     tx_mdata (xq_attrib (xp_frames s' 0)) = 1 \<and> tx_mdata (xq_attrib (xp_frames s' 1)) = 0 \<and> sta_dz_bitmap s' = 0"
proof -
  let ?en = "tx_env.truncate (pk_env\<lparr>te_stapriv := wk_table\<rparr>)"
  have s: "xp_stas wk_priv = [tq_sta\<lparr>ts_state := 5, xs_sleep_q := [0, 1], xs_sleepq_len := 2\<rparr>, tq_sta]"
    "xq_attrib (xp_frames wk_priv f) = wk_attr" for f
    by (simp_all add: wk_priv_def)
  have q: "queued wk_priv = [0, 1]" by (simp add: queued_def s wk_sta sta_frames_def) (simp add: wk_priv_def tq_priv_def)
  have inv: "tx_inv [2..<NR_XMITFRAME + NR_XMIT_EXTBUFF] wk_priv"
    unfolding tx_inv_def tx_pool_def wk_pool(1)
  proof (intro conjI)
    show "mset ([2..<288] @ queued wk_priv) = mset [0..<288]" by (simp only: q wk_pool(2))
    show "sleep_ok wk_priv" by (simp add: sleep_ok_def s wk_sta less_Suc_eq_0_disj All_less_Suc2)
  qed (simp_all add: wk_priv_def tq_priv_def zero_xframe_def tx_listed_def)
  have "frame_sta ?en wk_priv f = Some (Some 0)" "\<not> triggers 0 f wk_priv" for f
    unfolding frame_sta_iff wk_en s by (simp_all add: wk_look wk_attr_def WIFI_ASOC_STATE_def triggers_def uapsd_of_def s wk_sta)
  then have fs: "\<forall>f \<in> set [0, 1]. frame_sta ?en wk_priv f = Some (Some 0) \<and> \<not> triggers 0 f wk_priv" by simp
  have st: "0 < length (xp_stas wk_priv)" "xs_sleep_q (xp_stas wk_priv ! 0) = [0, 1]" "ts_state (xp_stas wk_priv ! 0) AND WIFI_SLEEP_STATE \<noteq> 0"
    by (simp_all add: s WIFI_SLEEP_STATE_def)
  have dz: "sta_dz_bitmap wk_priv = 2" "sta_dz_bitmap wk_priv AND 0xfffe \<noteq> 0" by (simp_all add: wk_priv_def)
  have ac: "frame_ac wk_priv f = BE" for f by (simp add: frame_ac_def s wk_attr_def zero_attr_def rtw_get_sta_pending_def)
  from wakeup_sends_sleeping_frames [OF inv st(1,2) fs wk_bmc dz(2) st(3)]
  show ?thesis by (rule ex_forward) (simp add: ac dz(1) aid_bit_def All_less_Suc2 s wk_sta)
qed

section \<open>Falling asleep\<close>

text \<open>Frames marked as triggered are not put to sleep.\<close>

definition stays :: "tx_env \<Rightarrow> nat \<Rightarrow> xpriv \<Rightarrow> nat \<Rightarrow> bool" where
  "stays en k s f \<longleftrightarrow> frame_sta en s f = Some (Some k) \<and> tx_triggered (xq_attrib (xp_frames s f)) = 1 \<and>
     \<not> Sta_Mgt.is_multicast_ether_addr (tx_ra (xq_attrib (xp_frames s f)))"

lemma stop_ac_stays:
  assumes "check_fwstate (te_fw_state en) WIFI_AP_STATE" "\<forall>f \<in> set (servq s k ac). stays en k s f"
  shows "stop_ac en k ac s = Some (s\<lparr>xp_pending := (xp_pending s)(ac := removeAll k (xp_pending s ac))\<rparr>)"
proof -
  have "dequeue_xmitframes_to_sleeping_queue en fs s = Some s" if "\<forall>f \<in> set fs. stays en k s f" for fs
    using that assms(1) by (induction fs) (auto simp: stays_def xmitframe_enqueue_for_sleeping_sta_def Let_def)
  with assms(2) show ?thesis by (simp add: stop_ac_def)
qed

lemma stays_cong:
  assumes "xp_frames s' = xp_frames s" "length (xp_stas s') = length (xp_stas s)"
    and "\<And>j. j < length (xp_stas s) \<Longrightarrow> ts_state (xp_stas s' ! j) AND WIFI_ASOC_STATE = ts_state (xp_stas s ! j) AND WIFI_ASOC_STATE"
  shows "stays en k s' f = stays en k s f"
  using assms by (auto simp: stays_def frame_sta_iff)

text \<open>A station that is in no list and shares no frame with another is left alone.\<close>

definition off_lists :: "nat \<Rightarrow> xpriv \<Rightarrow> bool" where
  "off_lists k s \<longleftrightarrow> (\<forall>ac. k \<notin> set (xp_pending s ac) \<and> set (xp_pending s ac) \<subseteq> {..<length (xp_stas s)}) \<and>
     (\<forall>j < length (xp_stas s). j \<noteq> k \<longrightarrow> (\<forall>ac b. set (servq s j ac) \<inter> set (servq s k b) = {}))"

lemma off_lists_dequeue:
  assumes "off_lists k s" "rtw_dequeue_xframe s = (r, s')"
  shows "off_lists k s' \<and> servq s' k = servq s k \<and> (\<forall>f ac. r = Some f \<longrightarrow> f \<notin> set (servq s k ac))"
  using dequeue_acs_cases [OF assms(2) [unfolded rtw_dequeue_xframe_def]]
proof
  assume "\<exists>ac \<in> set [VO, VI, BE, BK]. \<exists>j \<in> set (xp_pending s ac). \<exists>f q. servq s j ac = f # q \<and> r = Some f \<and> s' = taken j ac s"
  then obtain ac j f q where j: "j \<in> set (xp_pending s ac)" "servq s j ac = f # q" "r = Some f" "s' = taken j ac s" by blast
  then have l: "j < length (xp_stas s)" "j \<noteq> k" using assms(1) by (auto simp: off_lists_def)
  note t = taken_simps(3,6) [OF j(2) l(1)]
  have p: "set (xp_pending s' b) \<subseteq> set (xp_pending s b)" for b
    by (auto simp: j(4) taken_def dequeue_one_xmitframe_def j(2))
  have dis: "set (servq s i b) \<inter> set (servq s k c) = {}" if "i < length (xp_stas s)" "i \<noteq> k" for i b c
    using assms(1) that by (simp add: off_lists_def)
  have f: "f \<notin> set (servq s k b)" for b using dis [OF l, of ac b] j(2) by auto
  have q: "set (servq s' i b) \<subseteq> set (servq s i b)" "servq s' k = servq s k" if "i < length (xp_stas s)" for i b
    using that l j(2) by (auto simp: j(4) t nth_list_update)
  have "set (servq s' i b) \<inter> set (servq s' k c) = {}" if "i < length (xp_stas s)" "i \<noteq> k" for i b c
    using q(1) [OF that(1), of b] q(2) [OF that(1)] dis [OF that, of b c] by auto
  moreover have "length (xp_stas s') = length (xp_stas s)" by (simp add: j(4) t)
  ultimately show ?thesis
    using p f q(2) [OF l(1)] assms(1) j(3) unfolding off_lists_def by (metis subset_iff option.inject)
qed (use assms(1) in simp)

lemma off_lists_asks:
  assumes "off_lists k s" "Some f \<in> set (fst (asks rtw_dequeue_xframe n s))"
  shows "f \<notin> set (servq s k ac)"
  using assms
proof (induction n arbitrary: s)
  case (Suc n)
  obtain r s' where d: "rtw_dequeue_xframe s = (r, s')" by force
  note o = off_lists_dequeue [OF Suc.prems(1) d]
  from Suc.prems(2) d have "r = Some f \<or> Some f \<in> set (fst (asks rtw_dequeue_xframe n s'))" by (auto simp: Let_def split_beta)
  with o Suc.IH [of s'] show ?case by auto
qed simp

text \<open>
  C37 (error): when a station that was woken up falls asleep again before its frames are sent, these frames
  stay in its transmit queues, for they are still marked as triggered, but the queues are taken off the lists
  of their categories: none of the frames is sent, whatever is asked.
\<close>

theorem stop_sta_strands_frames:
  assumes "tx_inv own s" "k < length (xp_stas s)" "check_fwstate (te_fw_state en) WIFI_AP_STATE"
    and "bcmc_sta en = Some (Some kb)" "kb < length (xp_stas s)" "kb \<noteq> k" "xs_servq (xp_stas s ! kb) BE = []"
    and "\<forall>ac. \<forall>f \<in> set (xs_servq (xp_stas s ! k) ac). stays en k s f"
  shows "\<exists>s'. stop_sta_xmit en k s = Some s' \<and> xs_servq (xp_stas s' ! k) = xs_servq (xp_stas s ! k) \<and>
    (\<forall>n f. Some f \<in> set (fst (asks rtw_dequeue_xframe n s')) \<longrightarrow> (\<forall>ac. f \<notin> set (xs_servq (xp_stas s' ! k) ac)))"
proof -
  define s1 where "s1 = upd_sta k (\<lambda>x. x\<lparr>ts_state := ts_state x OR WIFI_SLEEP_STATE\<rparr>) s"
  define s2 where "s2 = s1\<lparr>sta_dz_bitmap := sta_dz_bitmap s1 OR aid_bit (xp_stas s1 ! k)\<rparr>"
  have q: "servq s2 j = servq s j" if "j < length (xp_stas s)" for j using that by (cases "j = k") (simp_all add: s2_def s1_def)
  have st: "length (xp_stas s2) = length (xp_stas s)" "xp_pending s2 = xp_pending s" by (simp_all add: s2_def s1_def)
  have "(v OR WIFI_SLEEP_STATE) AND WIFI_ASOC_STATE = v AND WIFI_ASOC_STATE" for v
    by (simp add: WIFI_SLEEP_STATE_def WIFI_ASOC_STATE_def bit.conj_disj_distrib2)
  then have "stays en k s2 f = stays en k s f" for f
    by (intro stays_cong) (simp_all add: s2_def s1_def nth_list_update assms(2))
  then have k: "\<forall>f \<in> set (servq s2 k ac). stays en k s2 f" for ac using assms(2,8) q by simp
  have stop: "stop_ac en j ac (s2\<lparr>xp_pending := P\<rparr>) = Some (s2\<lparr>xp_pending := P(ac := removeAll j (P ac))\<rparr>)"
    if "j = k \<or> servq s2 j ac = []" for j ac P
  proof -
    have "\<forall>f \<in> set (servq s2 j ac). stays en j (s2\<lparr>xp_pending := P\<rparr>) f"
      using that k [of ac] stays_cong [of "s2\<lparr>xp_pending := P\<rparr>" s2 en k] by auto
    with stop_ac_stays [OF assms(3), of "s2\<lparr>xp_pending := P\<rparr>" j ac] show ?thesis by simp
  qed
  define P where "P ac = (if ac = BE then removeAll kb (removeAll k (xp_pending s ac)) else removeAll k (xp_pending s ac))" for ac
  have "s2 = s2\<lparr>xp_pending := xp_pending s\<rparr>" by (simp add: s2_def s1_def)
  then have "stop_ac en k VO s2 = Some (s2\<lparr>xp_pending := (xp_pending s)(VO := removeAll k (xp_pending s VO))\<rparr>)"
    using stop [of k VO "xp_pending s"] by simp
  moreover have "(xp_pending s)(VO := removeAll k (xp_pending s VO), VI := removeAll k (xp_pending s VI), BE := removeAll kb (removeAll k (xp_pending s BE)),
      BK := removeAll k (xp_pending s BK)) = P"
    by (rule ext, rename_tac ac, case_tac ac) (simp_all add: P_def)
  ultimately have "stop_sta_xmit en k s = Some (s2\<lparr>xp_pending := P\<rparr>)"
    using assms(4,5,7) q stop by (simp add: stop_sta_xmit_def s2_def [symmetric] s1_def [symmetric] Let_def fun_upd_twist)
  moreover have "off_lists k (s2\<lparr>xp_pending := P\<rparr>)"
  proof -
    have "set (servq s j ac) \<inter> set (servq s k b) = {}" if "j < length (xp_stas s)" "j \<noteq> k" for j ac b
      using tx_pool_sta(2) [of own s k j] assms(1,2) that sta_frames_sets(1) by (fastforce simp: tx_inv_def)
    moreover have "set (P ac) \<subseteq> set (xp_pending s ac) - {k}" for ac by (auto simp: P_def)
    ultimately show ?thesis
      using assms(1,2) q st by (fastforce simp: off_lists_def tx_inv_def tx_listed_def)
  qed
  ultimately show ?thesis using off_lists_asks [of k "s2\<lparr>xp_pending := P\<rparr>"] q [OF assms(2)] by auto
qed

text \<open>The station of the example after it was woken up.\<close>

definition st_priv :: xpriv where
  "st_priv = wk_priv\<lparr>xp_stas := [tq_sta\<lparr>xs_servq := (\<lambda>_. [])(BE := [0, 1])\<rparr>, tq_sta], xp_pending := (\<lambda>_. [])(BE := [0]),
     xp_frames := (\<lambda>f. zero_xframe\<lparr>xq_ext_tag := (if f < NR_XMITFRAME then 0 else 1), xq_attrib := wk_attr\<lparr>tx_triggered := 1\<rparr>\<rparr>)\<rparr>"

theorem stop_sta_strands_frames_witness:
  "\<exists>s'. stop_sta_xmit (tx_env.truncate (pk_env\<lparr>te_stapriv := wk_table\<rparr>)) 0 st_priv = Some s' \<and> servq s' 0 BE = [0, 1] \<and>
     Some 0 \<notin> set (fst (asks rtw_dequeue_xframe 1000 s'))"
proof -
  let ?en = "tx_env.truncate (pk_env\<lparr>te_stapriv := wk_table\<rparr>)"
  have s: "xp_stas st_priv = [tq_sta\<lparr>xs_servq := (\<lambda>_. [])(BE := [0, 1])\<rparr>, tq_sta]"
    "xq_attrib (xp_frames st_priv f) = wk_attr\<lparr>tx_triggered := 1\<rparr>" for f by (simp_all add: st_priv_def)
  have q: "queued st_priv = [0, 1]" by (simp add: queued_def s wk_sta sta_frames_def) (simp add: st_priv_def wk_priv_def tq_priv_def)
  have inv: "tx_inv [2..<NR_XMITFRAME + NR_XMIT_EXTBUFF] st_priv"
    unfolding tx_inv_def tx_pool_def wk_pool(1)
  proof (intro conjI)
    show "mset ([2..<288] @ queued st_priv) = mset [0..<288]" by (simp only: q wk_pool(2))
    show "sleep_ok st_priv" by (simp add: sleep_ok_def s wk_sta less_Suc_eq_0_disj All_less_Suc2)
  qed (simp_all add: st_priv_def wk_priv_def tq_priv_def zero_xframe_def tx_listed_def)
  have "stays ?en 0 st_priv f" for f
    by (simp add: stays_def frame_sta_iff wk_en s wk_look wk_attr_def WIFI_ASOC_STATE_def wk_sta Sta_Mgt.is_multicast_ether_addr_def)
  moreover have "check_fwstate (te_fw_state ?en) WIFI_AP_STATE" by (simp add: tx_env.truncate_def pk_env_def check_fwstate_def WIFI_AP_STATE_def)
  ultimately show ?thesis
    using stop_sta_strands_frames [OF inv, of 0 ?en 1] wk_bmc by (fastforce simp: s wk_sta)
qed

end
