(* ===== verification/Le_Bits.thy ===== *)
theory Le_Bits
  imports Prelude
begin

text \<open>
  Fields of the descriptors of the chip (src/wifi.h): a field is a byte offset in the list of
  bytes, a bit offset in the little-endian word there and a length.
\<close>

definition BIT_LEN_MASK_32 :: "nat \<Rightarrow> u32" where
  "BIT_LEN_MASK_32 bitlen = drop_bit (32 - bitlen) 0xFFFFFFFF"

definition BIT_OFFSET_LEN_MASK_32 :: "nat \<Rightarrow> nat \<Rightarrow> u32" where
  "BIT_OFFSET_LEN_MASK_32 bitoffset bitlen = push_bit bitoffset (BIT_LEN_MASK_32 bitlen)"

definition LE_P4BYTE_TO_HOST_4BYTE :: "nat \<Rightarrow> byte list \<Rightarrow> u32" where
  "LE_P4BYTE_TO_HOST_4BYTE p d = le32_of (d ! p) (d ! (p + 1)) (d ! (p + 2)) (d ! (p + 3))"

definition LE_BITS_TO_4BYTE :: "nat \<Rightarrow> nat \<Rightarrow> nat \<Rightarrow> byte list \<Rightarrow> u32" where
  "LE_BITS_TO_4BYTE p bitoffset bitlen d = drop_bit bitoffset (LE_P4BYTE_TO_HOST_4BYTE p d) AND BIT_LEN_MASK_32 bitlen"

definition LE_BITS_CLEARED_TO_4BYTE :: "nat \<Rightarrow> nat \<Rightarrow> nat \<Rightarrow> byte list \<Rightarrow> u32" where
  "LE_BITS_CLEARED_TO_4BYTE p bitoffset bitlen d = LE_P4BYTE_TO_HOST_4BYTE p d AND NOT (BIT_OFFSET_LEN_MASK_32 bitoffset bitlen)"

definition SET_BITS_TO_LE_4BYTE :: "nat \<Rightarrow> nat \<Rightarrow> nat \<Rightarrow> u32 \<Rightarrow> byte list \<Rightarrow> byte list" where
  "SET_BITS_TO_LE_4BYTE p bitoffset bitlen val d =
     overlay d p (le32_bytes (LE_BITS_CLEARED_TO_4BYTE p bitoffset bitlen d OR push_bit bitoffset (val AND BIT_LEN_MASK_32 bitlen)))"

lemma BIT_LEN_MASK_32_mask: "n \<le> 32 \<Longrightarrow> BIT_LEN_MASK_32 n = mask n"
proof -
  have m: "(0xFFFFFFFF :: u32) = mask 32" by (simp add: mask_eq_exp_minus_1)
  show "n \<le> 32 \<Longrightarrow> BIT_LEN_MASK_32 n = mask n"
    unfolding BIT_LEN_MASK_32_def m by (rule bit_word_eqI) (auto simp: bit_simps)
qed

lemma length_set_bits [simp]: "p + 4 \<le> length d \<Longrightarrow> length (SET_BITS_TO_LE_4BYTE p o' n v d) = length d"
  by (simp add: SET_BITS_TO_LE_4BYTE_def length_overlay)

text \<open>Words do not overlap: the ones of another place keep their value.\<close>

lemma le32_at_set:
  assumes "p + 4 \<le> length d" "j + 4 \<le> length d" "j = p \<or> j + 4 \<le> p \<or> p + 4 \<le> j"
  shows "LE_P4BYTE_TO_HOST_4BYTE j (SET_BITS_TO_LE_4BYTE p o' n v d) =
    (if j = p then LE_BITS_CLEARED_TO_4BYTE p o' n d OR push_bit o' (v AND BIT_LEN_MASK_32 n) else LE_P4BYTE_TO_HOST_4BYTE j d)"
  using assms le32_of_bytes [of "LE_BITS_CLEARED_TO_4BYTE p o' n d OR push_bit o' (v AND BIT_LEN_MASK_32 n)"]
  by (auto simp: SET_BITS_TO_LE_4BYTE_def LE_P4BYTE_TO_HOST_4BYTE_def nth_overlay)

lemma get_set_same:
  assumes "p + 4 \<le> length d" "o' + n \<le> 32"
  shows "LE_BITS_TO_4BYTE p o' n (SET_BITS_TO_LE_4BYTE p o' n v d) = v AND mask n"
  using assms
  by (intro bit_word_eqI) (auto simp: LE_BITS_TO_4BYTE_def le32_at_set LE_BITS_CLEARED_TO_4BYTE_def
      BIT_OFFSET_LEN_MASK_32_def BIT_LEN_MASK_32_mask bit_simps)

lemma get_set_other:
  assumes "p + 4 \<le> length d" "j + 4 \<le> length d" "o' + n \<le> 32" "i + m \<le> 32"
    and "j + 4 \<le> p \<or> p + 4 \<le> j \<or> j = p \<and> (i + m \<le> o' \<or> o' + n \<le> i)"
  shows "LE_BITS_TO_4BYTE j i m (SET_BITS_TO_LE_4BYTE p o' n v d) = LE_BITS_TO_4BYTE j i m d"
  using assms
  by (intro bit_word_eqI) (auto simp: LE_BITS_TO_4BYTE_def le32_at_set LE_BITS_CLEARED_TO_4BYTE_def
      BIT_OFFSET_LEN_MASK_32_def BIT_LEN_MASK_32_mask bit_simps)

lemma get_zero:
  assumes "p + 4 \<le> k"
  shows "LE_BITS_TO_4BYTE p o' n (replicate k 0) = 0"
  using assms by (simp add: LE_BITS_TO_4BYTE_def LE_P4BYTE_TO_HOST_4BYTE_def le32_of_def)

lemmas get_set = get_set_same get_set_other get_zero

end
