(* ===== verification/Tx_Desc.thy ===== *)
theory Tx_Desc
  imports Tx_Queue Le_Bits
begin

text \<open>
  The descriptors in front of transmitted frames (src/rtl8821au/trx.c, trx.h): their contents for
  data and management frames, the reserved frames of the firmware, and the checksum.

  A descriptor is the list of its bytes.
\<close>

section \<open>Transmit descriptors\<close>

definition SET_TX_DESC_FIRST_SEG :: "u32 \<Rightarrow> byte list \<Rightarrow> byte list" where "SET_TX_DESC_FIRST_SEG = SET_BITS_TO_LE_4BYTE 0 27 1"
definition SET_TX_DESC_LAST_SEG :: "u32 \<Rightarrow> byte list \<Rightarrow> byte list" where "SET_TX_DESC_LAST_SEG = SET_BITS_TO_LE_4BYTE 0 26 1"
definition SET_TX_DESC_OWN :: "u32 \<Rightarrow> byte list \<Rightarrow> byte list" where "SET_TX_DESC_OWN = SET_BITS_TO_LE_4BYTE 0 31 1"
definition SET_TX_DESC_PKT_SIZE :: "u32 \<Rightarrow> byte list \<Rightarrow> byte list" where "SET_TX_DESC_PKT_SIZE = SET_BITS_TO_LE_4BYTE 0 0 16"
definition SET_TX_DESC_OFFSET :: "u32 \<Rightarrow> byte list \<Rightarrow> byte list" where "SET_TX_DESC_OFFSET = SET_BITS_TO_LE_4BYTE 0 16 8"
definition SET_TX_DESC_BMC :: "u32 \<Rightarrow> byte list \<Rightarrow> byte list" where "SET_TX_DESC_BMC = SET_BITS_TO_LE_4BYTE 0 24 1"
definition SET_TX_DESC_MACID :: "u32 \<Rightarrow> byte list \<Rightarrow> byte list" where "SET_TX_DESC_MACID = SET_BITS_TO_LE_4BYTE 4 0 7"
definition SET_TX_DESC_QUEUE_SEL :: "u32 \<Rightarrow> byte list \<Rightarrow> byte list" where "SET_TX_DESC_QUEUE_SEL = SET_BITS_TO_LE_4BYTE 4 8 5"
definition SET_TX_DESC_RATE_ID :: "u32 \<Rightarrow> byte list \<Rightarrow> byte list" where "SET_TX_DESC_RATE_ID = SET_BITS_TO_LE_4BYTE 4 16 5"
definition SET_TX_DESC_SEC_TYPE :: "u32 \<Rightarrow> byte list \<Rightarrow> byte list" where "SET_TX_DESC_SEC_TYPE = SET_BITS_TO_LE_4BYTE 4 22 2"
definition SET_TX_DESC_PKT_OFFSET :: "u32 \<Rightarrow> byte list \<Rightarrow> byte list" where "SET_TX_DESC_PKT_OFFSET = SET_BITS_TO_LE_4BYTE 4 24 5"
definition SET_TX_DESC_AGG_ENABLE :: "u32 \<Rightarrow> byte list \<Rightarrow> byte list" where "SET_TX_DESC_AGG_ENABLE = SET_BITS_TO_LE_4BYTE 8 12 1"
definition SET_TX_DESC_AGG_BREAK :: "u32 \<Rightarrow> byte list \<Rightarrow> byte list" where "SET_TX_DESC_AGG_BREAK = SET_BITS_TO_LE_4BYTE 8 16 1"
definition SET_TX_DESC_AMPDU_DENSITY :: "u32 \<Rightarrow> byte list \<Rightarrow> byte list" where "SET_TX_DESC_AMPDU_DENSITY = SET_BITS_TO_LE_4BYTE 8 20 3"
definition SET_TX_DESC_BT_INT :: "u32 \<Rightarrow> byte list \<Rightarrow> byte list" where "SET_TX_DESC_BT_INT = SET_BITS_TO_LE_4BYTE 8 23 1"
definition SET_TX_DESC_USE_RATE :: "u32 \<Rightarrow> byte list \<Rightarrow> byte list" where "SET_TX_DESC_USE_RATE = SET_BITS_TO_LE_4BYTE 12 8 1"
definition SET_TX_DESC_CTS2SELF :: "u32 \<Rightarrow> byte list \<Rightarrow> byte list" where "SET_TX_DESC_CTS2SELF = SET_BITS_TO_LE_4BYTE 12 11 1"
definition SET_TX_DESC_RTS_ENABLE :: "u32 \<Rightarrow> byte list \<Rightarrow> byte list" where "SET_TX_DESC_RTS_ENABLE = SET_BITS_TO_LE_4BYTE 12 12 1"
definition SET_TX_DESC_NAV_USE_HDR :: "u32 \<Rightarrow> byte list \<Rightarrow> byte list" where "SET_TX_DESC_NAV_USE_HDR = SET_BITS_TO_LE_4BYTE 12 15 1"
definition SET_TX_DESC_MAX_AGG_NUM :: "u32 \<Rightarrow> byte list \<Rightarrow> byte list" where "SET_TX_DESC_MAX_AGG_NUM = SET_BITS_TO_LE_4BYTE 12 17 5"
definition SET_TX_DESC_TX_RATE :: "u32 \<Rightarrow> byte list \<Rightarrow> byte list" where "SET_TX_DESC_TX_RATE = SET_BITS_TO_LE_4BYTE 16 0 7"
definition SET_TX_DESC_DATA_RATE_FB_LIMIT :: "u32 \<Rightarrow> byte list \<Rightarrow> byte list" where "SET_TX_DESC_DATA_RATE_FB_LIMIT = SET_BITS_TO_LE_4BYTE 16 8 5"
definition SET_TX_DESC_RTS_RATE_FB_LIMIT :: "u32 \<Rightarrow> byte list \<Rightarrow> byte list" where "SET_TX_DESC_RTS_RATE_FB_LIMIT = SET_BITS_TO_LE_4BYTE 16 13 4"
definition SET_TX_DESC_RETRY_LIMIT_ENABLE :: "u32 \<Rightarrow> byte list \<Rightarrow> byte list" where "SET_TX_DESC_RETRY_LIMIT_ENABLE = SET_BITS_TO_LE_4BYTE 16 17 1"
definition SET_TX_DESC_DATA_RETRY_LIMIT :: "u32 \<Rightarrow> byte list \<Rightarrow> byte list" where "SET_TX_DESC_DATA_RETRY_LIMIT = SET_BITS_TO_LE_4BYTE 16 18 6"
definition SET_TX_DESC_RTS_RATE :: "u32 \<Rightarrow> byte list \<Rightarrow> byte list" where "SET_TX_DESC_RTS_RATE = SET_BITS_TO_LE_4BYTE 16 24 5"
definition SET_TX_DESC_DATA_SHORT :: "u32 \<Rightarrow> byte list \<Rightarrow> byte list" where "SET_TX_DESC_DATA_SHORT = SET_BITS_TO_LE_4BYTE 20 4 1"
definition SET_TX_DESC_DATA_BW :: "u32 \<Rightarrow> byte list \<Rightarrow> byte list" where "SET_TX_DESC_DATA_BW = SET_BITS_TO_LE_4BYTE 20 5 2"
definition SET_TX_DESC_DATA_LDPC :: "u32 \<Rightarrow> byte list \<Rightarrow> byte list" where "SET_TX_DESC_DATA_LDPC = SET_BITS_TO_LE_4BYTE 20 7 1"
definition SET_TX_DESC_DATA_STBC :: "u32 \<Rightarrow> byte list \<Rightarrow> byte list" where "SET_TX_DESC_DATA_STBC = SET_BITS_TO_LE_4BYTE 20 8 2"
definition SET_TX_DESC_RTS_SHORT :: "u32 \<Rightarrow> byte list \<Rightarrow> byte list" where "SET_TX_DESC_RTS_SHORT = SET_BITS_TO_LE_4BYTE 20 12 1"
definition SET_TX_DESC_MBSSID_8821 :: "u32 \<Rightarrow> byte list \<Rightarrow> byte list" where "SET_TX_DESC_MBSSID_8821 = SET_BITS_TO_LE_4BYTE 24 12 4"
definition SET_TX_DESC_TX_DESC_CHECKSUM :: "u32 \<Rightarrow> byte list \<Rightarrow> byte list" where "SET_TX_DESC_TX_DESC_CHECKSUM = SET_BITS_TO_LE_4BYTE 28 0 16"
definition SET_TX_DESC_USB_TXAGG_NUM :: "u32 \<Rightarrow> byte list \<Rightarrow> byte list" where "SET_TX_DESC_USB_TXAGG_NUM = SET_BITS_TO_LE_4BYTE 28 24 8"
definition SET_TX_DESC_HWSEQ_EN :: "u32 \<Rightarrow> byte list \<Rightarrow> byte list" where "SET_TX_DESC_HWSEQ_EN = SET_BITS_TO_LE_4BYTE 32 15 1"
definition SET_TX_DESC_SEQ :: "u32 \<Rightarrow> byte list \<Rightarrow> byte list" where "SET_TX_DESC_SEQ = SET_BITS_TO_LE_4BYTE 36 12 12"

lemmas SET_TX_DESC_defs = SET_TX_DESC_FIRST_SEG_def SET_TX_DESC_LAST_SEG_def SET_TX_DESC_OWN_def SET_TX_DESC_PKT_SIZE_def SET_TX_DESC_OFFSET_def SET_TX_DESC_BMC_def SET_TX_DESC_MACID_def SET_TX_DESC_QUEUE_SEL_def SET_TX_DESC_RATE_ID_def SET_TX_DESC_SEC_TYPE_def SET_TX_DESC_PKT_OFFSET_def SET_TX_DESC_AGG_ENABLE_def SET_TX_DESC_AGG_BREAK_def SET_TX_DESC_AMPDU_DENSITY_def SET_TX_DESC_BT_INT_def SET_TX_DESC_USE_RATE_def SET_TX_DESC_CTS2SELF_def SET_TX_DESC_RTS_ENABLE_def SET_TX_DESC_NAV_USE_HDR_def SET_TX_DESC_MAX_AGG_NUM_def SET_TX_DESC_TX_RATE_def SET_TX_DESC_DATA_RATE_FB_LIMIT_def SET_TX_DESC_RTS_RATE_FB_LIMIT_def SET_TX_DESC_RETRY_LIMIT_ENABLE_def SET_TX_DESC_DATA_RETRY_LIMIT_def SET_TX_DESC_RTS_RATE_def SET_TX_DESC_DATA_SHORT_def SET_TX_DESC_DATA_BW_def SET_TX_DESC_DATA_LDPC_def SET_TX_DESC_DATA_STBC_def SET_TX_DESC_RTS_SHORT_def SET_TX_DESC_MBSSID_8821_def SET_TX_DESC_TX_DESC_CHECKSUM_def SET_TX_DESC_USB_TXAGG_NUM_def SET_TX_DESC_HWSEQ_EN_def SET_TX_DESC_SEQ_def

text \<open>What the descriptors depend on besides the frame; \<open>td_usb_speed\<close> is 1, 2 or 3 for USB 1.1, 2.0 and 3.0.\<close>

record td_env =
  td_8821 :: bool
  td_usb_speed :: nat
  td_tx_rate :: byte
  td_preamble_mode :: byte
  td_wireless_mode :: byte
  td_chan_bw :: byte
  td_fw_ractrl :: byte
  td_fix_rate :: byte
  td_INIDATA_RATE :: "byte list"
  td_AMPDUDensity :: byte

definition RTL_TXQ_BK :: nat where "RTL_TXQ_BK = 0"
definition RTL_TXQ_BE :: nat where "RTL_TXQ_BE = 1"
definition RTL_TXQ_VI :: nat where "RTL_TXQ_VI = 2"
definition RTL_TXQ_VO :: nat where "RTL_TXQ_VO = 3"
definition RTL_TXQ_BCN :: nat where "RTL_TXQ_BCN = 4"
definition RTL_TXQ_MGT :: nat where "RTL_TXQ_MGT = 5"
definition RTL_TXQ_HI :: nat where "RTL_TXQ_HI = 6"

definition rtw_get_ff_hwaddr :: "at_attr \<Rightarrow> nat" where
  "rtw_get_ff_hwaddr a =
     (let q = tx_qsel a in
      if q = 0 \<or> q = 3 then RTL_TXQ_BE
      else if q = 1 \<or> q = 2 then RTL_TXQ_BK
      else if q = 4 \<or> q = 5 then RTL_TXQ_VI
      else if q = 6 \<or> q = 7 then RTL_TXQ_VO
      else if q = 0x10 then RTL_TXQ_BCN
      else if q = 0x11 then RTL_TXQ_HI
      else RTL_TXQ_MGT)"

text \<open>The checksum is over the first 16 words of 16 bits.\<close>

definition desc_word :: "byte list \<Rightarrow> nat \<Rightarrow> u16" where
  "desc_word d i = le16_of (d ! (2 * i)) (d ! (2 * i + 1))"

definition rtl8812a_cal_txdesc_chksum :: "byte list \<Rightarrow> byte list" where
  "rtl8812a_cal_txdesc_chksum d =
     (let d = SET_TX_DESC_TX_DESC_CHECKSUM 0 d;
          checksum = fold (\<lambda>i checksum. checksum XOR desc_word d i) [0..<16] 0
      in SET_TX_DESC_TX_DESC_CHECKSUM (ucast checksum) d)"

definition MRateToHwRate :: "byte \<Rightarrow> byte" where
  "MRateToHwRate rate =
     (if rate = 0x02 then 0x00 else if rate = 0x04 then 0x01 else if rate = 0x0B then 0x02 else if rate = 0x16 then 0x03
      else if rate = 0x0C then 0x04 else if rate = 0x12 then 0x05 else if rate = 0x18 then 0x06 else if rate = 0x24 then 0x07
      else if rate = 0x30 then 0x08 else if rate = 0x48 then 0x09 else if rate = 0x60 then 0x0a else if rate = 0x6C then 0x0b
      else 0x00)"

definition QSLT_MGNT :: u32 where "QSLT_MGNT = 0x12"
definition RATEID_IDX_G :: u32 where "RATEID_IDX_G = 7"
definition RATEID_IDX_B :: u32 where "RATEID_IDX_B = 8"

definition rtl8821au_fill_fake_txdesc :: "td_env \<Rightarrow> u32 \<Rightarrow> bool \<Rightarrow> bool \<Rightarrow> byte list" where
  "rtl8821au_fill_fake_txdesc en BufferLen IsPsPoll IsBTQosNull =
     (let d = replicate 40 0;
          d = SET_TX_DESC_FIRST_SEG 1 d;
          d = SET_TX_DESC_LAST_SEG 1 d;
          d = SET_TX_DESC_OFFSET 40 d;
          d = SET_TX_DESC_PKT_SIZE BufferLen d;
          d = SET_TX_DESC_QUEUE_SEL QSLT_MGNT d;
          d = SET_TX_DESC_RATE_ID (if td_wireless_mode en AND 1 \<noteq> 0 then RATEID_IDX_B else RATEID_IDX_G) d;
          d = (if IsPsPoll then SET_TX_DESC_NAV_USE_HDR 1 d else SET_TX_DESC_HWSEQ_EN 1 d);
          d = (if IsBTQosNull then SET_TX_DESC_BT_INT 1 d else d);
          d = SET_TX_DESC_USE_RATE 1 d;
          d = SET_TX_DESC_OWN 1 d;
          d = SET_TX_DESC_TX_RATE (ucast (MRateToHwRate (td_tx_rate en))) d
      in rtl8812a_cal_txdesc_chksum d)"

definition rtl8812a_fill_txdesc_sectype :: "at_attr \<Rightarrow> byte list \<Rightarrow> byte list" where
  "rtl8812a_fill_txdesc_sectype a d =
     (if tx_encrypt a > 0 \<and> tx_bswenc a = 0 then
        (if tx_encrypt a \<in> {WEP40_ENCRYPTION, WEP104_ENCRYPTION, TKIP_ENCRYPTION, 3} then SET_TX_DESC_SEC_TYPE 1 d
         else if tx_encrypt a = AESCCMP_ENCRYPTION then SET_TX_DESC_SEC_TYPE 3 d
         else SET_TX_DESC_SEC_TYPE 0 d)
      else d)"

definition CHANNEL_WIDTH_20 :: byte where "CHANNEL_WIDTH_20 = 0"
definition CHANNEL_WIDTH_40 :: byte where "CHANNEL_WIDTH_40 = 1"
definition CHANNEL_WIDTH_80 :: byte where "CHANNEL_WIDTH_80 = 2"

definition BWMapping_8812 :: "td_env \<Rightarrow> at_attr \<Rightarrow> byte" where
  "BWMapping_8812 en a =
     (if td_chan_bw en = CHANNEL_WIDTH_80 then
        (if Tx_Attrib.tx_bwmode a = CHANNEL_WIDTH_80 then 2 else if Tx_Attrib.tx_bwmode a = CHANNEL_WIDTH_40 then 1 else 0)
      else if td_chan_bw en = CHANNEL_WIDTH_40 then
        (if Tx_Attrib.tx_bwmode a = CHANNEL_WIDTH_40 \<or> Tx_Attrib.tx_bwmode a = CHANNEL_WIDTH_80 then 1 else 0)
      else 0)"

definition rtl8812a_fill_txdesc_phy :: "td_env \<Rightarrow> at_attr \<Rightarrow> byte list \<Rightarrow> byte list" where
  "rtl8812a_fill_txdesc_phy en a d = (if tx_ht_en a \<noteq> 0 then SET_TX_DESC_DATA_BW (ucast (BWMapping_8812 en a)) d else d)"

definition rtl8812a_fill_txdesc_vcs :: "td_env \<Rightarrow> at_attr \<Rightarrow> byte list \<Rightarrow> byte list" where
  "rtl8812a_fill_txdesc_vcs en a d =
     (if tx_vcs_mode a \<noteq> 0 then
        (let d = (if tx_vcs_mode a = RTS_CTS then SET_TX_DESC_RTS_ENABLE 1 d
                  else if tx_vcs_mode a = CTS_TO_SELF then SET_TX_DESC_CTS2SELF 1 d else d);
             d = (if td_preamble_mode en = PREAMBLE_SHORT then SET_TX_DESC_RTS_SHORT 1 d else d);
             d = SET_TX_DESC_RTS_RATE 0x8 d
         in SET_TX_DESC_RTS_RATE_FB_LIMIT 0xf d)
      else d)"

text \<open>Whether the length is a multiple of the block size of the bus: the result for USB 3.0 is overwritten.\<close>

definition rtw_usb_bulk_size_boundary :: "td_env \<Rightarrow> int \<Rightarrow> bool" where
  "rtw_usb_bulk_size_boundary en buf_len =
     (let rst = (if td_usb_speed en = 3 then buf_len mod 1024 = 0 else True)
      in if td_usb_speed en = 2 then buf_len mod 512 = 0 else buf_len mod 64 = 0)"

text \<open>\<open>rest\<close> are the packets that are neither EAPOL nor ARP nor WAPI nor DHCP.\<close>

definition plain_packet :: "at_attr \<Rightarrow> bool" where
  "plain_packet a \<longleftrightarrow> tx_ether_type a \<noteq> 0x888e \<and> tx_ether_type a \<noteq> 0x0806 \<and> tx_ether_type a \<noteq> 0x88b4 \<and> tx_dhcp_pkt a \<noteq> 1"

definition txdesc_rate :: "byte \<Rightarrow> byte list \<Rightarrow> byte list" where
  "txdesc_rate r d =
     (let d = SET_TX_DESC_USE_RATE 1 d;
          d = (if r AND 0x80 \<noteq> 0 then SET_TX_DESC_DATA_SHORT 1 d else d)
      in SET_TX_DESC_TX_RATE (ucast (r AND 0x7F)) d)"

definition txdesc_plain :: "td_env \<Rightarrow> at_attr \<Rightarrow> byte list \<Rightarrow> byte list option" where
  "txdesc_plain en a d =
     (let d = (if tx_ampdu_en a = 1
               then SET_TX_DESC_AMPDU_DENSITY (ucast (td_AMPDUDensity en)) (SET_TX_DESC_MAX_AGG_NUM 0x1f (SET_TX_DESC_AGG_ENABLE 1 d))
               else SET_TX_DESC_AGG_BREAK 1 d);
          d = rtl8812a_fill_txdesc_phy en a d;
          d = SET_TX_DESC_DATA_RATE_FB_LIMIT 0x1f d
      in do {
        d \<leftarrow> (if td_fw_ractrl en = 0
             then map_option (\<lambda>r. txdesc_rate r d) (rd (td_INIDATA_RATE en) (uint (tx_mac_id a)))
             else Some d);
        let d = (if td_fix_rate en \<noteq> 0xFF then txdesc_rate (td_fix_rate en) d else d);
        let d = (if tx_ldpc a \<noteq> 0 then SET_TX_DESC_DATA_LDPC 1 d else d);
        Some (if tx_stbc a \<noteq> 0 then SET_TX_DESC_DATA_STBC 1 d else d)
      })"

definition txdesc_special :: "td_env \<Rightarrow> byte list \<Rightarrow> byte list" where
  "txdesc_special en d =
     (let d = SET_TX_DESC_USE_RATE 1 d;
          d = SET_TX_DESC_AGG_BREAK 1 d;
          d = (if td_preamble_mode en = PREAMBLE_SHORT then SET_TX_DESC_DATA_SHORT 1 d else d)
      in SET_TX_DESC_TX_RATE (ucast (MRateToHwRate (td_tx_rate en))) d)"

definition txdesc_data :: "td_env \<Rightarrow> xframe \<Rightarrow> byte list \<Rightarrow> byte list option" where
  "txdesc_data en x d =
     (let a = xq_attrib x;
          d = rtl8812a_fill_txdesc_sectype a d;
          d = (if xq_agg_num x > 1 then SET_TX_DESC_USB_TXAGG_NUM (ucast (xq_agg_num x)) d else d);
          d = rtl8812a_fill_txdesc_vcs en a d
      in if plain_packet a then txdesc_plain en a d else Some (txdesc_special en d))"

definition txdesc_mgnt :: "td_env \<Rightarrow> at_attr \<Rightarrow> byte list \<Rightarrow> byte list" where
  "txdesc_mgnt en a d =
     (let d = (if td_8821 en then SET_TX_DESC_MBSSID_8821 (ucast (tx_mbssid a)) d else d);
          d = SET_TX_DESC_RETRY_LIMIT_ENABLE 1 d;
          d = SET_TX_DESC_DATA_RETRY_LIMIT (if tx_retry_ctrl a = 1 then 6 else 12) d;
          d = SET_TX_DESC_USE_RATE 1 d
      in SET_TX_DESC_TX_RATE (ucast (MRateToHwRate (td_tx_rate en))) d)"

definition txdesc_head :: "xframe \<Rightarrow> int \<Rightarrow> byte list" where
  "txdesc_head x sz =
     (let a = xq_attrib x;
          d = replicate 40 0;
          d = SET_TX_DESC_FIRST_SEG 1 d;
          d = SET_TX_DESC_LAST_SEG 1 d;
          d = SET_TX_DESC_OWN 1 d;
          d = SET_TX_DESC_PKT_SIZE (word_of_int sz) d;
          d = SET_TX_DESC_OFFSET 40 d;
          d = (if Sta_Mgt.is_multicast_ether_addr (tx_ra a) then SET_TX_DESC_BMC 1 d else d);
          d = (if sint (xq_pkt_offset x) > 0 then SET_TX_DESC_PKT_OFFSET (scast (xq_pkt_offset x)) d else d);
          d = SET_TX_DESC_MACID (ucast (tx_mac_id a)) d;
          d = SET_TX_DESC_RATE_ID (ucast (tx_raid a)) d;
          d = SET_TX_DESC_QUEUE_SEL (ucast (tx_qsel a)) d
      in if tx_qos_en a = 0 then SET_TX_DESC_HWSEQ_EN 1 d else SET_TX_DESC_SEQ (ucast (tx_seqnum a)) d)"

definition TXAGG_FRAMETAG :: nat where "TXAGG_FRAMETAG = 8"

definition txdesc_fields :: "td_env \<Rightarrow> xframe \<Rightarrow> int \<Rightarrow> byte list option" where
  "txdesc_fields en x sz =
     (let d = txdesc_head x sz; tag = xq_frame_tag x mod 16
      in if tag = DATA_FRAMETAG then txdesc_data en x d
         else if tag = MGNT_FRAMETAG then Some (txdesc_mgnt en (xq_attrib x) d)
         else if tag = TXAGG_FRAMETAG then Some d
         else Some (SET_TX_DESC_TX_RATE (ucast (MRateToHwRate (td_tx_rate en))) (SET_TX_DESC_USE_RATE 1 d)))"

text \<open>
  \<open>update_txdesc\<close> writes the descriptor at \<open>pmem\<close> in \<open>mem\<close>, or eight bytes behind when a frame that
  is not part of an aggregate would not fill whole blocks of the bus.
\<close>

definition update_txdesc :: "td_env \<Rightarrow> xframe \<Rightarrow> byte list \<Rightarrow> int \<Rightarrow> int \<Rightarrow> bool \<Rightarrow> (bool \<times> xframe \<times> byte list) option" where
  "update_txdesc en x mem pmem sz bagg_pkt =
     (let pull = (\<not> bagg_pkt \<and> \<not> rtw_usb_bulk_size_boundary en (40 + sz));
          ptxdesc = (if pull then pmem + 8 else pmem);
          x = (if pull \<and> sint (xq_pkt_offset x) > 0 then x\<lparr>xq_pkt_offset := xq_pkt_offset x - 1\<rparr> else x)
      in do {
        d \<leftarrow> txdesc_fields en x sz;
        mem \<leftarrow> wr_bytes mem ptxdesc (rtl8812a_cal_txdesc_chksum d);
        Some (pull, x, mem)
      })"

section \<open>The chip reads what was written\<close>

text \<open>The fields of every frame, and those of the cipher and of the aggregation.\<close>

definition head_view :: "byte list \<Rightarrow> u32 list" where
  "head_view d = map (\<lambda>(p, i, n). LE_BITS_TO_4BYTE p i n d)
     [(0, 0, 16), (0, 16, 8), (0, 24, 1), (0, 26, 1), (0, 27, 1), (0, 31, 1), (4, 0, 7), (4, 8, 5), (4, 16, 5), (4, 24, 5),
      (32, 15, 1), (36, 12, 12), (4, 22, 2), (28, 24, 8)]"

lemma length_setters [simp]:
  assumes "length d = 40"
  shows "length (SET_TX_DESC_RTS_ENABLE v d) = 40" "length (SET_TX_DESC_CTS2SELF v d) = 40" "length (SET_TX_DESC_RTS_SHORT v d) = 40"
    "length (SET_TX_DESC_RTS_RATE v d) = 40" "length (SET_TX_DESC_RTS_RATE_FB_LIMIT v d) = 40" "length (SET_TX_DESC_AGG_ENABLE v d) = 40"
    "length (SET_TX_DESC_MAX_AGG_NUM v d) = 40" "length (SET_TX_DESC_AMPDU_DENSITY v d) = 40" "length (SET_TX_DESC_AGG_BREAK v d) = 40"
    "length (SET_TX_DESC_DATA_BW v d) = 40" "length (SET_TX_DESC_DATA_RATE_FB_LIMIT v d) = 40" "length (SET_TX_DESC_USE_RATE v d) = 40"
    "length (SET_TX_DESC_DATA_SHORT v d) = 40" "length (SET_TX_DESC_TX_RATE v d) = 40" "length (SET_TX_DESC_DATA_LDPC v d) = 40"
    "length (SET_TX_DESC_DATA_STBC v d) = 40" "length (SET_TX_DESC_RETRY_LIMIT_ENABLE v d) = 40" "length (SET_TX_DESC_DATA_RETRY_LIMIT v d) = 40"
    "length (SET_TX_DESC_MBSSID_8821 v d) = 40" "length (SET_TX_DESC_TX_DESC_CHECKSUM v d) = 40" "length (SET_TX_DESC_SEC_TYPE v d) = 40"
    "length (SET_TX_DESC_USB_TXAGG_NUM v d) = 40" "length (SET_TX_DESC_NAV_USE_HDR v d) = 40" "length (SET_TX_DESC_BT_INT v d) = 40"
    "length (SET_TX_DESC_OWN v d) = 40" "length (SET_TX_DESC_HWSEQ_EN v d) = 40" "length (SET_TX_DESC_RATE_ID v d) = 40"
    "length (SET_TX_DESC_QUEUE_SEL v d) = 40" "length (SET_TX_DESC_PKT_SIZE v d) = 40" "length (SET_TX_DESC_OFFSET v d) = 40"
    "length (SET_TX_DESC_FIRST_SEG v d) = 40" "length (SET_TX_DESC_LAST_SEG v d) = 40" "length (SET_TX_DESC_BMC v d) = 40"
    "length (SET_TX_DESC_PKT_OFFSET v d) = 40" "length (SET_TX_DESC_MACID v d) = 40" "length (SET_TX_DESC_SEQ v d) = 40"
  using assms by (simp_all add: SET_TX_DESC_defs)

lemma head_view_setters [simp]:
  assumes "length d = 40"
  shows "head_view (SET_TX_DESC_RTS_ENABLE v d) = head_view d" "head_view (SET_TX_DESC_CTS2SELF v d) = head_view d"
    "head_view (SET_TX_DESC_RTS_SHORT v d) = head_view d" "head_view (SET_TX_DESC_RTS_RATE v d) = head_view d"
    "head_view (SET_TX_DESC_RTS_RATE_FB_LIMIT v d) = head_view d" "head_view (SET_TX_DESC_AGG_ENABLE v d) = head_view d"
    "head_view (SET_TX_DESC_MAX_AGG_NUM v d) = head_view d" "head_view (SET_TX_DESC_AMPDU_DENSITY v d) = head_view d"
    "head_view (SET_TX_DESC_AGG_BREAK v d) = head_view d" "head_view (SET_TX_DESC_DATA_BW v d) = head_view d"
    "head_view (SET_TX_DESC_DATA_RATE_FB_LIMIT v d) = head_view d" "head_view (SET_TX_DESC_USE_RATE v d) = head_view d"
    "head_view (SET_TX_DESC_DATA_SHORT v d) = head_view d" "head_view (SET_TX_DESC_TX_RATE v d) = head_view d"
    "head_view (SET_TX_DESC_DATA_LDPC v d) = head_view d" "head_view (SET_TX_DESC_DATA_STBC v d) = head_view d"
    "head_view (SET_TX_DESC_RETRY_LIMIT_ENABLE v d) = head_view d" "head_view (SET_TX_DESC_DATA_RETRY_LIMIT v d) = head_view d"
    "head_view (SET_TX_DESC_MBSSID_8821 v d) = head_view d" "head_view (SET_TX_DESC_TX_DESC_CHECKSUM v d) = head_view d"
  using assms by (simp_all add: head_view_def SET_TX_DESC_defs get_set)

text \<open>Steps that keep the length and these fields.\<close>

definition keeps :: "byte list \<Rightarrow> byte list \<Rightarrow> bool" where
  "keeps d d' \<longleftrightarrow> length d = 40 \<and> length d' = 40 \<and> head_view d' = head_view d"

lemma keeps_steps:
  assumes "length d = 40"
  shows "keeps d (rtl8812a_fill_txdesc_vcs en a d)" "keeps d (rtl8812a_fill_txdesc_phy en a d)" "keeps d (txdesc_rate r d)"
    "keeps d (txdesc_special en d)" "keeps d (txdesc_mgnt en a d)" "keeps d (rtl8812a_cal_txdesc_chksum d)"
  using assms
  by (simp_all add: keeps_def rtl8812a_fill_txdesc_vcs_def rtl8812a_fill_txdesc_phy_def txdesc_rate_def txdesc_special_def txdesc_mgnt_def
      rtl8812a_cal_txdesc_chksum_def Let_def)

lemma keeps_plain:
  assumes "length d = 40" "txdesc_plain en a d = Some d'"
  shows "keeps d d'"
  using assms keeps_steps(2) [where en = en and a = a] keeps_steps(3)
  by (auto simp: keeps_def txdesc_plain_def Let_def bind_eq_Some_conv split: if_splits)

lemma head_view_update:
  assumes "length d = 40"
  shows "head_view (SET_TX_DESC_PKT_SIZE v d) = (head_view d)[0 := v AND mask 16]" "head_view (SET_TX_DESC_OFFSET v d) = (head_view d)[1 := v AND mask 8]"
    "head_view (SET_TX_DESC_BMC v d) = (head_view d)[2 := v AND mask 1]" "head_view (SET_TX_DESC_LAST_SEG v d) = (head_view d)[3 := v AND mask 1]"
    "head_view (SET_TX_DESC_FIRST_SEG v d) = (head_view d)[4 := v AND mask 1]" "head_view (SET_TX_DESC_OWN v d) = (head_view d)[5 := v AND mask 1]"
    "head_view (SET_TX_DESC_MACID v d) = (head_view d)[6 := v AND mask 7]" "head_view (SET_TX_DESC_QUEUE_SEL v d) = (head_view d)[7 := v AND mask 5]"
    "head_view (SET_TX_DESC_RATE_ID v d) = (head_view d)[8 := v AND mask 5]" "head_view (SET_TX_DESC_PKT_OFFSET v d) = (head_view d)[9 := v AND mask 5]"
    "head_view (SET_TX_DESC_HWSEQ_EN v d) = (head_view d)[10 := v AND mask 1]" "head_view (SET_TX_DESC_SEQ v d) = (head_view d)[11 := v AND mask 12]"
    "head_view (SET_TX_DESC_SEC_TYPE v d) = (head_view d)[12 := v AND mask 2]" "head_view (SET_TX_DESC_USB_TXAGG_NUM v d) = (head_view d)[13 := v AND mask 8]"
  using assms by (simp_all add: head_view_def SET_TX_DESC_defs get_set)

lemma head_view_zero: "head_view (replicate 40 0) = [0, 0, 0, 0, 0, 0, 0, 0, 0, 0, 0, 0, 0, 0]"
  by (simp add: head_view_def get_zero)

lemma txdesc_head_fields:
  "length (txdesc_head x sz) = 40"
  "head_view (txdesc_head x sz) =
     (let a = xq_attrib x in
      [word_of_int sz AND mask 16, 40, if Sta_Mgt.is_multicast_ether_addr (tx_ra a) then 1 else 0, 1, 1, 1, ucast (tx_mac_id a) AND mask 7,
       ucast (tx_qsel a) AND mask 5, ucast (tx_raid a) AND mask 5, if sint (xq_pkt_offset x) > 0 then scast (xq_pkt_offset x) AND mask 5 else 0,
       if tx_qos_en a = 0 then 1 else 0, if tx_qos_en a = 0 then 0 else ucast (tx_seqnum a) AND mask 12, 0, 0])"
proof -
  show "length (txdesc_head x sz) = 40"
    by (simp add: txdesc_head_def Let_def)
  show "head_view (txdesc_head x sz) =
     (let a = xq_attrib x in
      [word_of_int sz AND mask 16, 40, if Sta_Mgt.is_multicast_ether_addr (tx_ra a) then 1 else 0, 1, 1, 1, ucast (tx_mac_id a) AND mask 7,
       ucast (tx_qsel a) AND mask 5, ucast (tx_raid a) AND mask 5, if sint (xq_pkt_offset x) > 0 then scast (xq_pkt_offset x) AND mask 5 else 0,
       if tx_qos_en a = 0 then 1 else 0, if tx_qos_en a = 0 then 0 else ucast (tx_seqnum a) AND mask 12, 0, 0])"
    by (simp add: txdesc_head_def Let_def head_view_update head_view_zero mask_eq_exp_minus_1)
qed

text \<open>The checksum: only its own word changes, so that the sum of all is zero.\<close>

definition chksum_of :: "byte list \<Rightarrow> u16" where
  "chksum_of d = fold (\<lambda>i c. c XOR desc_word d i) [0..<16] 0"

lemma desc_word_le32:
  "desc_word d 14 = ucast (LE_P4BYTE_TO_HOST_4BYTE 28 d)" "desc_word d 15 = ucast (drop_bit 16 (LE_P4BYTE_TO_HOST_4BYTE 28 d))"
proof -
  have "bit (ucast (le32_of b0 b1 b2 b3) :: u16) n = bit (le16_of b0 b1) n" "bit (ucast (drop_bit 16 (le32_of b0 b1 b2 b3)) :: u16) n = bit (le16_of b2 b3) n"
    if "n < 16" for n b0 b1 b2 b3
    using that by (auto simp: le32_of_def le16_of_def bit_simps dest: bit_byte_less)
  then show "desc_word d 14 = ucast (LE_P4BYTE_TO_HOST_4BYTE 28 d)" "desc_word d 15 = ucast (drop_bit 16 (LE_P4BYTE_TO_HOST_4BYTE 28 d))"
    by (auto intro!: bit_word_eqI simp: desc_word_def LE_P4BYTE_TO_HOST_4BYTE_def)
qed

lemma desc_word_checksum:
  assumes "length d = 40" "i < 16"
  shows "desc_word (SET_TX_DESC_TX_DESC_CHECKSUM v d) i = (if i = 14 then ucast v else desc_word d i)"
proof -
  let ?w = "LE_BITS_CLEARED_TO_4BYTE 28 0 16 d OR push_bit 0 (v AND BIT_LEN_MASK_32 16)"
  have "bit (ucast ?w :: u16) n = bit (ucast v :: u16) n" "bit (ucast (drop_bit 16 ?w) :: u16) n = bit (ucast (drop_bit 16 (LE_P4BYTE_TO_HOST_4BYTE 28 d)) :: u16) n"
    if "n < 16" for n
    using that by (auto simp: LE_BITS_CLEARED_TO_4BYTE_def BIT_OFFSET_LEN_MASK_32_def BIT_LEN_MASK_32_mask bit_simps)
  then have w: "ucast ?w = (ucast v :: u16)" "ucast (drop_bit 16 ?w) = (ucast (drop_bit 16 (LE_P4BYTE_TO_HOST_4BYTE 28 d)) :: u16)"
    by (auto intro!: bit_word_eqI)
  consider "i = 14" | "i = 15" | "i < 14" using assms(2) by linarith
  then show ?thesis
  proof cases
    case 3
    then show ?thesis using assms by (simp add: desc_word_def SET_TX_DESC_TX_DESC_CHECKSUM_def SET_BITS_TO_LE_4BYTE_def nth_overlay)
  qed (use assms w in \<open>simp_all add: desc_word_le32 SET_TX_DESC_TX_DESC_CHECKSUM_def le32_at_set\<close>)
qed

lemma chksum_of_split: "chksum_of d = fold (\<lambda>i c. c XOR desc_word d i) [0..<14] 0 XOR desc_word d 14 XOR desc_word d 15"
proof -
  have "[0..<16] = [0..<14] @ [14, 15]" by (simp add: upt_rec)
  then show ?thesis unfolding chksum_of_def by (simp only: fold_append comp_apply fold.simps id_apply) (simp add: xor.assoc)
qed

lemma checksum_zero:
  assumes "length d = 40"
  shows "chksum_of (rtl8812a_cal_txdesc_chksum d) = 0"
proof -
  let ?d = "SET_TX_DESC_TX_DESC_CHECKSUM 0 d"
  let ?e = "SET_TX_DESC_TX_DESC_CHECKSUM (ucast (chksum_of ?d)) ?d"
  have e: "rtl8812a_cal_txdesc_chksum d = ?e" by (simp add: rtl8812a_cal_txdesc_chksum_def chksum_of_def Let_def)
  have l: "length ?d = 40" using assms by simp
  have "fold (\<lambda>i c. c XOR desc_word ?e i) [0..<14] 0 = fold (\<lambda>i c. c XOR desc_word ?d i) [0..<14] 0"
    by (rule fold_cong) (use l in \<open>simp_all add: desc_word_checksum\<close>)
  then have "chksum_of ?e = chksum_of ?d XOR desc_word ?d 14 XOR ucast (ucast (chksum_of ?d) :: u32)"
    using l by (simp add: chksum_of_split desc_word_checksum ac_simps)
  also have "\<dots> = 0" using assms by (simp add: desc_word_checksum unsigned_ucast_eq take_bit_word_eq_self)
  finally show ?thesis by (simp add: e)
qed

lemma txdesc_fields_view:
  assumes "txdesc_fields en x sz = Some d"
  shows "length d = 40 \<and> head_view d =
     (let a = xq_attrib x; data = (xq_frame_tag x mod 16 = DATA_FRAMETAG) in
      [word_of_int sz AND mask 16, 40, if Sta_Mgt.is_multicast_ether_addr (tx_ra a) then 1 else 0, 1, 1, 1, ucast (tx_mac_id a) AND mask 7,
       ucast (tx_qsel a) AND mask 5, ucast (tx_raid a) AND mask 5, if sint (xq_pkt_offset x) > 0 then scast (xq_pkt_offset x) AND mask 5 else 0,
       if tx_qos_en a = 0 then 1 else 0, if tx_qos_en a = 0 then 0 else ucast (tx_seqnum a) AND mask 12,
       if data \<and> tx_encrypt a > 0 \<and> tx_bswenc a = 0
       then (if tx_encrypt a \<in> {WEP40_ENCRYPTION, WEP104_ENCRYPTION, TKIP_ENCRYPTION, 3} then 1 else if tx_encrypt a = AESCCMP_ENCRYPTION then 3 else 0) else 0,
       if data \<and> xq_agg_num x > 1 then ucast (xq_agg_num x) else 0])"
proof -
  let ?a = "xq_attrib x" and ?h = "txdesc_head x sz"
  let ?sec = "if tx_encrypt ?a > 0 \<and> tx_bswenc ?a = 0 then (if tx_encrypt ?a \<in> {WEP40_ENCRYPTION, WEP104_ENCRYPTION, TKIP_ENCRYPTION, 3} then 1
      else if tx_encrypt ?a = AESCCMP_ENCRYPTION then 3 else 0) else (0 :: u32)"
  let ?agg = "if xq_agg_num x > 1 then ucast (xq_agg_num x) else (0 :: u32)"
  note h = txdesc_head_fields [of x sz]
  have sec: "length (rtl8812a_fill_txdesc_sectype ?a ?h) = 40" "head_view (rtl8812a_fill_txdesc_sectype ?a ?h) = (head_view ?h)[12 := ?sec]"
    using h by (simp_all add: rtl8812a_fill_txdesc_sectype_def head_view_update mask_eq_exp_minus_1 list_update_same_conv Let_def)
  let ?d = "if xq_agg_num x > 1 then SET_TX_DESC_USB_TXAGG_NUM (ucast (xq_agg_num x)) (rtl8812a_fill_txdesc_sectype ?a ?h) else rtl8812a_fill_txdesc_sectype ?a ?h"
  have m: "ucast (v :: byte) AND mask 8 = (ucast v :: u32)" for v by (rule bit_word_eqI) (auto simp: bit_simps dest: bit_byte_less)
  have d: "length ?d = 40" "head_view ?d = (head_view ?h)[12 := ?sec, 13 := ?agg]"
    using sec h by (simp_all add: head_view_update m list_update_same_conv Let_def)
  have data: "keeps ?d d" if "xq_frame_tag x mod 16 = DATA_FRAMETAG"
    using assms that keeps_plain [of "rtl8812a_fill_txdesc_vcs en ?a ?d" en ?a d] keeps_steps(1) [OF d(1), of en ?a]
      keeps_steps(4) [of "rtl8812a_fill_txdesc_vcs en ?a ?d" en]
    by (auto simp: txdesc_fields_def txdesc_data_def Let_def keeps_def split: if_splits)
  have other: "keeps ?h d" if "xq_frame_tag x mod 16 \<noteq> DATA_FRAMETAG"
    using assms that h(1) keeps_steps(5) [OF h(1), of en ?a]
    by (auto simp: txdesc_fields_def Let_def keeps_def split: if_splits)
  show ?thesis
    using data other d h by (cases "xq_frame_tag x mod 16 = DATA_FRAMETAG") (simp_all add: keeps_def Let_def)
qed

text \<open>
  C38 (roundtrip): the chip reads from the descriptor what \<open>update_txdesc\<close> was given: length, station, queue,
  rate set, padding, sequence number, broadcast, and for data frames the cipher and the number of
  aggregated packets, each cut to the width of its field; the checksum of the first 32 bytes is zero, and no
  byte outside of the 40 bytes of the descriptor is written.
\<close>

theorem txdesc_read_back:
  assumes "update_txdesc en x mem pmem sz bagg_pkt = Some (pull, x', mem')"
  shows "let a = xq_attrib x; q = nat (if pull then pmem + 8 else pmem); d = take 40 (drop q mem'); data = (xq_frame_tag x mod 16 = DATA_FRAMETAG) in
    (pull \<longleftrightarrow> \<not> bagg_pkt \<and> \<not> rtw_usb_bulk_size_boundary en (40 + sz)) \<and>
    q + 40 \<le> length mem \<and> length mem' = length mem \<and> take q mem' = take q mem \<and> drop (q + 40) mem' = drop (q + 40) mem \<and>
    LE_BITS_TO_4BYTE 0 0 16 d = word_of_int sz AND mask 16 \<and> LE_BITS_TO_4BYTE 0 16 8 d = 40 \<and>
    LE_BITS_TO_4BYTE 0 24 1 d = (if Sta_Mgt.is_multicast_ether_addr (tx_ra a) then 1 else 0) \<and>
    LE_BITS_TO_4BYTE 4 0 7 d = ucast (tx_mac_id a) AND mask 7 \<and> LE_BITS_TO_4BYTE 4 8 5 d = ucast (tx_qsel a) AND mask 5 \<and>
    LE_BITS_TO_4BYTE 4 16 5 d = ucast (tx_raid a) AND mask 5 \<and>
    LE_BITS_TO_4BYTE 4 24 5 d = (if sint (xq_pkt_offset x') > 0 then scast (xq_pkt_offset x') AND mask 5 else 0) \<and>
    LE_BITS_TO_4BYTE 32 15 1 d = (if tx_qos_en a = 0 then 1 else 0) \<and>
    LE_BITS_TO_4BYTE 36 12 12 d = (if tx_qos_en a = 0 then 0 else ucast (tx_seqnum a) AND mask 12) \<and>
    LE_BITS_TO_4BYTE 4 22 2 d = (if data \<and> tx_encrypt a > 0 \<and> tx_bswenc a = 0
       then (if tx_encrypt a \<in> {WEP40_ENCRYPTION, WEP104_ENCRYPTION, TKIP_ENCRYPTION, 3} then 1 else if tx_encrypt a = AESCCMP_ENCRYPTION then 3 else 0) else 0) \<and>
    LE_BITS_TO_4BYTE 28 24 8 d = (if data \<and> xq_agg_num x > 1 then ucast (xq_agg_num x) else 0) \<and>
    chksum_of d = 0"
proof -
  let ?p = "if pull then pmem + 8 else pmem"
  obtain d where d: "txdesc_fields en x' sz = Some d" "wr_bytes mem ?p (rtl8812a_cal_txdesc_chksum d) = Some mem'"
    and pull: "pull \<longleftrightarrow> \<not> bagg_pkt \<and> \<not> rtw_usb_bulk_size_boundary en (40 + sz)"
    and x': "xq_attrib x' = xq_attrib x" "xq_frame_tag x' = xq_frame_tag x" "xq_agg_num x' = xq_agg_num x"
    using assms by (auto simp: update_txdesc_def Let_def bind_eq_Some_conv split: if_splits)
  let ?c = "rtl8812a_cal_txdesc_chksum d"
  note v = txdesc_fields_view [OF d(1)]
  have k: "keeps d ?c" using v by (intro keeps_steps(6)) simp
  then have l: "length ?c = 40" by (simp add: keeps_def)
  have q: "0 \<le> ?p" "nat ?p + 40 \<le> length mem" "mem' = overlay mem (nat ?p) ?c"
    using d(2) l by (auto simp: wr_bytes_def in_buf_def split: if_splits)
  have t: "take 40 (drop (nat ?p) mem') = ?c" using overlay_region [of "nat ?p" ?c mem] q l by simp
  have "length mem' = length mem \<and> take (nat ?p) mem' = take (nat ?p) mem \<and> drop (nat ?p + 40) mem' = drop (nat ?p + 40) mem"
    using q l by (simp add: length_overlay take_overlay_le drop_overlay_ge)
  moreover have "chksum_of ?c = 0" using v by (intro checksum_zero) simp
  moreover have "head_view ?c = head_view d" using k by (simp add: keeps_def)
  ultimately show ?thesis
    unfolding Let_def t using pull q v x' by (simp add: head_view_def Let_def)
qed

text \<open>An instance: an encrypted packet of 100 bytes on USB 2.0, which is moved by eight bytes.\<close>

definition td_example :: td_env where
  "td_example = \<lparr>td_8821 = True, td_usb_speed = 2, td_tx_rate = 2, td_preamble_mode = 3, td_wireless_mode = 3, td_chan_bw = 0, td_fw_ractrl = 1,
     td_fix_rate = 0xFF, td_INIDATA_RATE = replicate 32 0, td_AMPDUDensity = 0\<rparr>"

definition td_frame :: xframe where
  "td_frame = zero_xframe\<lparr>xq_frame_tag := DATA_FRAMETAG, xq_pkt_offset := 1, xq_attrib := zero_attr\<lparr>tx_encrypt := AESCCMP_ENCRYPTION, tx_mac_id := 5,
     tx_qos_en := 1, tx_seqnum := 0x123\<rparr>\<rparr>"

theorem txdesc_read_back_witness:
  "\<exists>x' mem'. update_txdesc td_example td_frame (replicate 200 0) 0 100 False = Some (True, x', mem') \<and>
     (let d = take 40 (drop 8 mem') in LE_BITS_TO_4BYTE 0 0 16 d = 100 \<and> LE_BITS_TO_4BYTE 4 0 7 d = 5 \<and> LE_BITS_TO_4BYTE 4 22 2 d = 3 \<and>
       LE_BITS_TO_4BYTE 36 12 12 d = 0x123 \<and> chksum_of d = 0)"
proof -
  have "\<exists>x' mem'. update_txdesc td_example td_frame (replicate 200 0) 0 100 False = Some (True, x', mem')"
  proof -
    obtain x' where x': "x' = td_frame\<lparr>xq_pkt_offset := 0\<rparr>" by simp
    have "\<exists>d. txdesc_fields td_example x' 100 = Some d"
      by (simp add: x' txdesc_fields_def txdesc_data_def txdesc_plain_def Let_def td_example_def td_frame_def)
    then obtain d where d: "txdesc_fields td_example x' 100 = Some d" ..
    then have "length (rtl8812a_cal_txdesc_chksum d) = 40" using txdesc_fields_view [OF d] keeps_steps(6) [of d] by (simp add: keeps_def)
    then show ?thesis
      using d by (simp add: update_txdesc_def Let_def x' td_frame_def rtw_usb_bulk_size_boundary_def td_example_def wr_bytes_def in_buf_def)
  qed
  then obtain x' mem' where u: "update_txdesc td_example td_frame (replicate 200 0) 0 100 False = Some (True, x', mem')" by blast
  have f: "xq_frame_tag td_frame mod 16 = DATA_FRAMETAG" "tx_mac_id (xq_attrib td_frame) = 5" "tx_encrypt (xq_attrib td_frame) = 4" "tx_bswenc (xq_attrib td_frame) = 0"
    "tx_qos_en (xq_attrib td_frame) = 1" "tx_seqnum (xq_attrib td_frame) = 0x123"
    by (simp_all add: td_frame_def DATA_FRAMETAG_def zero_attr_def AESCCMP_ENCRYPTION_def)
  have "let d = take 40 (drop 8 mem') in LE_BITS_TO_4BYTE 0 0 16 d = 100 \<and> LE_BITS_TO_4BYTE 4 0 7 d = 5 \<and> LE_BITS_TO_4BYTE 4 22 2 d = 3 \<and>
       LE_BITS_TO_4BYTE 36 12 12 d = 0x123 \<and> chksum_of d = 0"
    using txdesc_read_back [OF u] unfolding Let_def f
    by (simp add: mask_eq_exp_minus_1 WEP40_ENCRYPTION_def WEP104_ENCRYPTION_def TKIP_ENCRYPTION_def AESCCMP_ENCRYPTION_def)
  with u show ?thesis by blast
qed

end
