(* ===== verification/Rx_Usb.thy ===== *)
theory Rx_Usb
  imports Defrag Le_Bits Wlan_Hdr
begin

text \<open>
  Received USB transfers (src/os_dep/usb_ops_linux.c, src/rtl8821au/trx.c): a transfer holds packets, each
  behind a descriptor of 24 bytes and the information of the physical layer, and is padded to a
  multiple of eight bytes.  \<open>recvbuf2recvframe\<close> takes a frame from the pool for each packet, fills
  it and hands it to \<open>rtw_recv_entry\<close>.

  The transfer is a list of bytes, \<open>pbuf\<close> an offset in it.  The upper layers are the argument
  \<open>entry\<close>; the contract with them is the locale \<open>rx_sink\<close>, whose instance is the
  reassembly of fragments.  A turn of the loop consumes at least 24 bytes, so the loop ends.

  \<open>rtl8812_query_rx_phy_status\<close> reads the header of the frame and the information of the physical
  layer before the frame has been checked; these reads, the packet information and the station it
  finds are modelled, the signal strength computed from the information is not.

  Shown: a transfer of any bytes keeps the frames of the pool in order and, with 27 bytes behind it, is
  taken apart without an access outside of the transfer and the frames, unless a frame with information
  of the physical layer is too short for its addresses or is a beacon the code handles with an
  uninitialised pointer; well-formed packets are handed over one by one, with their bytes.
\<close>

section \<open>The receive descriptor\<close>

definition GET_RX_STATUS_DESC_PKT_LEN :: "byte list \<Rightarrow> u32" where "GET_RX_STATUS_DESC_PKT_LEN = LE_BITS_TO_4BYTE 0 0 14"
definition GET_RX_STATUS_DESC_CRC32 :: "byte list \<Rightarrow> u32" where "GET_RX_STATUS_DESC_CRC32 = LE_BITS_TO_4BYTE 0 14 1"
definition GET_RX_STATUS_DESC_ICV :: "byte list \<Rightarrow> u32" where "GET_RX_STATUS_DESC_ICV = LE_BITS_TO_4BYTE 0 15 1"
definition GET_RX_STATUS_DESC_DRVINFO_SIZE :: "byte list \<Rightarrow> u32" where "GET_RX_STATUS_DESC_DRVINFO_SIZE = LE_BITS_TO_4BYTE 0 16 4"
definition GET_RX_STATUS_DESC_SECURITY :: "byte list \<Rightarrow> u32" where "GET_RX_STATUS_DESC_SECURITY = LE_BITS_TO_4BYTE 0 20 3"
definition GET_RX_STATUS_DESC_QOS :: "byte list \<Rightarrow> u32" where "GET_RX_STATUS_DESC_QOS = LE_BITS_TO_4BYTE 0 23 1"
definition GET_RX_STATUS_DESC_SHIFT :: "byte list \<Rightarrow> u32" where "GET_RX_STATUS_DESC_SHIFT = LE_BITS_TO_4BYTE 0 24 2"
definition GET_RX_STATUS_DESC_PHY_STATUS :: "byte list \<Rightarrow> u32" where "GET_RX_STATUS_DESC_PHY_STATUS = LE_BITS_TO_4BYTE 0 26 1"
definition GET_RX_STATUS_DESC_SWDEC :: "byte list \<Rightarrow> u32" where "GET_RX_STATUS_DESC_SWDEC = LE_BITS_TO_4BYTE 0 27 1"
definition GET_RX_STATUS_DESC_TID :: "byte list \<Rightarrow> u32" where "GET_RX_STATUS_DESC_TID = LE_BITS_TO_4BYTE 4 8 4"
definition GET_RX_STATUS_DESC_MORE_DATA :: "byte list \<Rightarrow> u32" where "GET_RX_STATUS_DESC_MORE_DATA = LE_BITS_TO_4BYTE 4 26 1"
definition GET_RX_STATUS_DESC_MORE_FRAG :: "byte list \<Rightarrow> u32" where "GET_RX_STATUS_DESC_MORE_FRAG = LE_BITS_TO_4BYTE 4 27 1"
definition GET_RX_STATUS_DESC_SEQ :: "byte list \<Rightarrow> u32" where "GET_RX_STATUS_DESC_SEQ = LE_BITS_TO_4BYTE 8 0 12"
definition GET_RX_STATUS_DESC_FRAG :: "byte list \<Rightarrow> u32" where "GET_RX_STATUS_DESC_FRAG = LE_BITS_TO_4BYTE 8 12 4"
definition GET_RX_STATUS_DESC_RPT_SEL :: "byte list \<Rightarrow> u32" where "GET_RX_STATUS_DESC_RPT_SEL = LE_BITS_TO_4BYTE 8 28 1"
definition GET_RX_STATUS_DESC_RX_RATE :: "byte list \<Rightarrow> u32" where "GET_RX_STATUS_DESC_RX_RATE = LE_BITS_TO_4BYTE 12 0 7"
definition GET_RX_STATUS_DESC_USB_AGG_PKTNUM :: "byte list \<Rightarrow> u32" where "GET_RX_STATUS_DESC_USB_AGG_PKTNUM = LE_BITS_TO_4BYTE 12 16 8"

lemmas GET_RX_STATUS_DESC_defs = GET_RX_STATUS_DESC_PKT_LEN_def GET_RX_STATUS_DESC_CRC32_def GET_RX_STATUS_DESC_ICV_def GET_RX_STATUS_DESC_DRVINFO_SIZE_def GET_RX_STATUS_DESC_SECURITY_def GET_RX_STATUS_DESC_QOS_def GET_RX_STATUS_DESC_SHIFT_def GET_RX_STATUS_DESC_PHY_STATUS_def GET_RX_STATUS_DESC_SWDEC_def GET_RX_STATUS_DESC_TID_def GET_RX_STATUS_DESC_MORE_DATA_def GET_RX_STATUS_DESC_MORE_FRAG_def GET_RX_STATUS_DESC_SEQ_def GET_RX_STATUS_DESC_FRAG_def GET_RX_STATUS_DESC_RPT_SEL_def GET_RX_STATUS_DESC_RX_RATE_def GET_RX_STATUS_DESC_USB_AGG_PKTNUM_def 

definition RXDESC_SIZE :: int where "RXDESC_SIZE = 24"
definition NORMAL_RX :: nat where "NORMAL_RX = 0"
definition C2H_PACKET :: nat where "C2H_PACKET = 4"

record rx_dattrib = rx_attrib +
  rd_crc_err :: byte
  rd_icv_err :: byte
  rd_drvinfo_sz :: byte
  rd_shift_sz :: byte
  rd_physt :: byte
  rd_mdata :: byte
  rd_pkt_rpt_type :: nat
  rd_data_rate :: byte

definition zero_dattrib :: rx_dattrib where
  "zero_dattrib = rx_attrib.extend (rxf_attrib zero_frame)
     \<lparr>rd_crc_err = 0, rd_icv_err = 0, rd_drvinfo_sz = 0, rd_shift_sz = 0, rd_physt = 0, rd_mdata = 0, rd_pkt_rpt_type = NORMAL_RX, rd_data_rate = 0\<rparr>"

definition rtl8812_query_rx_desc_status :: "byte list \<Rightarrow> rx_dattrib" where
  "rtl8812_query_rx_desc_status d =
     zero_dattrib\<lparr>rx_pkt_len := ucast (GET_RX_STATUS_DESC_PKT_LEN d), rd_crc_err := ucast (GET_RX_STATUS_DESC_CRC32 d),
       rd_icv_err := ucast (GET_RX_STATUS_DESC_ICV d), rd_drvinfo_sz := ucast (GET_RX_STATUS_DESC_DRVINFO_SIZE d) * 8,
       rx_encrypt := ucast (GET_RX_STATUS_DESC_SECURITY d), rx_qos := ucast (GET_RX_STATUS_DESC_QOS d),
       rd_shift_sz := ucast (GET_RX_STATUS_DESC_SHIFT d), rd_physt := ucast (GET_RX_STATUS_DESC_PHY_STATUS d),
       rx_bdecrypted := (if GET_RX_STATUS_DESC_SWDEC d = 0 then 1 else 0), rx_priority := ucast (GET_RX_STATUS_DESC_TID d),
       rd_mdata := ucast (GET_RX_STATUS_DESC_MORE_DATA d), rx_mfrag := ucast (GET_RX_STATUS_DESC_MORE_FRAG d),
       rx_seq_num := ucast (GET_RX_STATUS_DESC_SEQ d), rx_frag_num := ucast (GET_RX_STATUS_DESC_FRAG d),
       rd_pkt_rpt_type := (if GET_RX_STATUS_DESC_RPT_SEL d \<noteq> 0 then C2H_PACKET else NORMAL_RX),
       rd_data_rate := ucast (GET_RX_STATUS_DESC_RX_RATE d)\<rparr>"

section \<open>The information of the physical layer\<close>

text \<open>
  \<open>rtl8812_query_rx_phy_status\<close> finds out whose frame it is before the signal strength is computed: it
  reads addresses in the header of the frame, which has not been checked yet, and
  \<open>query_rxphystatus\<close> reads a \<open>struct rw_fwinfo_8821au\<close> of 28 bytes, down to the antennas in its
  last byte, at \<open>pphy_status\<close>, however much information the descriptor announces.  \<open>None\<close> is a read
  behind a buffer, or the use of the source address a beacon of the own network leaves
  uninitialised outside of station mode.  The network, the mode and the stations are in
  \<open>phy_env\<close>.  The result is the packet information for \<open>query_rxphystatus\<close> and the station of the
  frame; the percentages computed from them and their statistics are not modelled.
\<close>

record phy_env =
  pe_bssid :: "byte list"
  pe_mac_addr :: "byte list"
  pe_fw_state :: u32
  pe_stapriv :: sta_priv

record odm_pkt_info =
  op_DataRate :: byte
  op_StationID :: byte
  op_bPacketMatchBSSID :: bool
  op_bPacketToSelf :: bool
  op_bPacketBeacon :: bool

definition RXDESC_OFFSET :: int where "RXDESC_OFFSET = RXDESC_SIZE"
definition SZ_RW_FWINFO :: int where "SZ_RW_FWINFO = 28"
definition WIFI_BEACON :: u16 where "WIFI_BEACON = 0x80"

definition IsFrameTypeCtrl :: "byte list \<Rightarrow> int \<Rightarrow> bool option" where
  "IsFrameTypeCtrl mem p = map_option (\<lambda>t. t = 4) (GetType mem p)"

definition addr_is :: "byte list \<Rightarrow> int option \<Rightarrow> byte list \<Rightarrow> bool option" where
  "addr_is mem p a = do { p \<leftarrow> p; b \<leftarrow> rd_bytes mem p 6; Some (b = a) }"

definition rtl8812_query_rx_phy_status ::
  "phy_env \<Rightarrow> rx_dattrib \<Rightarrow> rx_frame \<Rightarrow> byte list \<Rightarrow> int \<Rightarrow> (odm_pkt_info \<times> nat option) option" where
  "rtl8812_query_rx_phy_status pe a f mem pphy_status = do {
     let buf = rxf_buf f;
     let wlanhdr = rxf_data f;
     ctrl \<leftarrow> IsFrameTypeCtrl buf wlanhdr;
     match \<leftarrow> (if \<not> ctrl \<and> rd_icv_err a = 0 \<and> rd_crc_err a = 0
                then addr_is buf (get_hdr_bssid buf wlanhdr) (pe_bssid pe) else Some False);
     self \<leftarrow> (if match then addr_is buf (get_da buf wlanhdr) (pe_mac_addr pe) else Some False);
     beacon \<leftarrow> (if match then map_option (\<lambda>t. t = WIFI_BEACON) (GetSubType buf wlanhdr) else Some False);
     sa \<leftarrow> (if beacon
             then (if check_fwstate (pe_fw_state pe) WIFI_STATION_STATE then Some (pe_bssid pe) else None)
             else do { sa \<leftarrow> get_sa buf wlanhdr; rd_bytes buf sa 6 });
     psta \<leftarrow> (case rtw_get_stainfo (pe_stapriv pe) (Some sa) of Inl _ \<Rightarrow> None | Inr psta \<Rightarrow> Some psta);
     let info = \<lparr>op_DataRate = rd_data_rate a,
       op_StationID = (case psta of None \<Rightarrow> 0xff | Some i \<Rightarrow> ucast (si_mac_id (sp_stainfo (pe_stapriv pe) ! i))),
       op_bPacketMatchBSSID = match, op_bPacketToSelf = self, op_bPacketBeacon = beacon\<rparr>;
     _ \<leftarrow> rd_bytes mem pphy_status SZ_RW_FWINFO;
     Some (info,
       if match \<and> check_fwstate (pe_fw_state pe) WIFI_AP_STATE then psta
       else if (self \<or> beacon) \<and> check_fwstate (pe_fw_state pe) (WIFI_ADHOC_STATE OR WIFI_ADHOC_MASTER_STATE) then psta
       else None)
   }"

section \<open>Taking a transfer apart\<close>

text \<open>
  What the kernel answers for the packet at a place of the transfer: the memory of a new socket buffer with its
  alignment, and whether the received buffer can be cloned.
\<close>

record rx_os =
  os_netdev_alloc_skb :: "int \<Rightarrow> nat \<Rightarrow> byte list option"
  os_align :: "int \<Rightarrow> nat"
  os_skb_clone :: "int \<Rightarrow> bool"

definition RND8 :: "u32 \<Rightarrow> u32" where
  "RND8 sz = push_bit 3 (drop_bit 3 sz + (if sz AND 7 \<noteq> 0 then 1 else 0))"

definition rx_pkt_offset :: "rx_dattrib \<Rightarrow> int" where
  "rx_pkt_offset a = RXDESC_SIZE + uint (rd_drvinfo_sz a) + uint (rd_shift_sz a) + uint (rx_pkt_len a)"

definition rx_next_offset :: "rx_dattrib \<Rightarrow> int" where
  "rx_next_offset a = uint (ucast (RND8 (word_of_int (rx_pkt_offset a))) :: u16)"

text \<open>
  One turn of the loop for the packet at \<open>pbuf\<close> when \<open>transfer_len\<close> bytes are left: the frame given to the upper
  layers, if any; how far it is to the next packet unless the loop is left; the state.  The station
  that \<open>rtl8812_query_rx_phy_status\<close> writes into the frame has no field in the frames of this
  model; the checks of \<open>rtw_recv_entry\<close> determine the station of a data frame anew.
\<close>

definition recv_packet ::
  "phy_env \<Rightarrow> rx_os \<Rightarrow> (nat \<Rightarrow> defrag_state \<Rightarrow> defrag_state option) \<Rightarrow> byte list \<Rightarrow> int \<Rightarrow> int \<Rightarrow> defrag_state \<Rightarrow>
     (rx_frame list \<times> int option \<times> defrag_state) option" where
  "recv_packet pe os entry mem pbuf transfer_len st =
     (case rtw_alloc_recvframe FreeQ (ds_pool st) of
        (None, s) \<Rightarrow> Some ([], None, st\<lparr>ds_pool := s\<rparr>)
      | (Some i, s) \<Rightarrow> do {
          let s = upd_frame i (\<lambda>f. f\<lparr>rxf_len := 0\<rparr>) s;
          d \<leftarrow> rd_bytes mem pbuf RXDESC_SIZE;
          let a = rtl8812_query_rx_desc_status d;
          let s = upd_frame i (\<lambda>f. f\<lparr>rxf_attrib := rx_attrib.truncate a\<rparr>) s;
          let drop = ([], None, st\<lparr>ds_pool := rtw_free_recvframe i FreeQ s\<rparr>);
          if rd_crc_err a \<noteq> 0 \<or> rd_icv_err a \<noteq> 0 then Some drop
          else if rx_pkt_len a = 0 \<or> rx_pkt_offset a > transfer_len then Some drop
          else do {
            (res, f) \<leftarrow> rtw_os_alloc_recvframe (os_netdev_alloc_skb os pbuf) (os_align os pbuf) (os_skb_clone os pbuf)
              (Some (List.drop (nat (pbuf + RXDESC_SIZE + uint (rd_drvinfo_sz a) + uint (rd_shift_sz a))) mem)) True (rp_frames s ! i);
            if res = FAIL then Some ([], None, st\<lparr>ds_pool := rtw_free_recvframe i FreeQ (upd_frame i (\<lambda>_. f) s)\<rparr>)
            else do {
              let s = upd_frame i (\<lambda>_. snd (recvframe_put (uint (rx_pkt_len a)) f)) s;
              if rd_pkt_rpt_type a = NORMAL_RX then do {
                _ \<leftarrow> (if rd_physt a \<noteq> 0
                       then map_option Some (rtl8812_query_rx_phy_status pe a (rp_frames s ! i) mem (pbuf + RXDESC_OFFSET))
                       else Some None);
                map_option (\<lambda>st. ([rp_frames s ! i], Some (rx_next_offset a), st)) (entry i (st\<lparr>ds_pool := s\<rparr>))
              }
              else Some ([], Some (rx_next_offset a), st\<lparr>ds_pool := rtw_free_recvframe i FreeQ s\<rparr>)
            }
          }
        })"

text \<open>The fields are small enough that the offset of the next packet is the rounded size of this one.\<close>

lemma uint_bits: "n \<le> 32 \<Longrightarrow> uint (LE_BITS_TO_4BYTE p i n d) < 2 ^ n"
proof -
  assume "n \<le> 32"
  then have "LE_BITS_TO_4BYTE p i n d = take_bit n (drop_bit i (LE_P4BYTE_TO_HOST_4BYTE p d))"
    by (simp add: LE_BITS_TO_4BYTE_def BIT_LEN_MASK_32_mask take_bit_eq_mask)
  then show ?thesis by (simp add: unsigned_take_bit_eq)
qed

lemma query_bounds:
  "uint (rx_pkt_len (rtl8812_query_rx_desc_status d)) < 2 ^ 14" "uint (rd_drvinfo_sz (rtl8812_query_rx_desc_status d)) < 128"
  "uint (rd_shift_sz (rtl8812_query_rx_desc_status d)) < 4"
proof -
  have u: "uint (ucast w :: 'a::len word) = uint w" if "uint w < 2 ^ n" "n \<le> LENGTH('a)" for w :: u32 and n
  proof -
    have "uint w < 2 ^ LENGTH('a)" using that power_increasing [of n "LENGTH('a)" "2 :: int"] by linarith
    then show ?thesis by (simp add: unsigned_ucast_eq take_bit_int_eq_self)
  qed
  show "uint (rx_pkt_len (rtl8812_query_rx_desc_status d)) < 2 ^ 14"
    using uint_bits [of 14 0 0 d] by (simp add: rtl8812_query_rx_desc_status_def GET_RX_STATUS_DESC_defs u [of _ 14])
  show "uint (rd_shift_sz (rtl8812_query_rx_desc_status d)) < 4"
    using uint_bits [of 2 0 24 d] by (simp add: rtl8812_query_rx_desc_status_def GET_RX_STATUS_DESC_defs u [of _ 2])
  have "uint (ucast (LE_BITS_TO_4BYTE 0 16 4 d) :: byte) < 16" using uint_bits [of 4 0 16 d] by (simp add: u [of _ 4])
  then show "uint (rd_drvinfo_sz (rtl8812_query_rx_desc_status d)) < 128"
    by (simp add: rtl8812_query_rx_desc_status_def GET_RX_STATUS_DESC_defs uint_word_ariths)
qed

lemma unat_RND8:
  assumes "n < 2 ^ 15"
  shows "unat (RND8 (of_nat n)) = 8 * ((n + 7) div 8)"
proof -
  have u: "unat (of_nat m :: u32) = m" if "m < 2 ^ 16" for m using that by (simp add: unsigned_of_nat take_bit_nat_eq_self)
  have w: "unat (of_nat n :: u32) = n" using assms by (intro u) simp
  have "unat (drop_bit 3 (of_nat n :: u32)) = unat (of_nat (n div 8) :: u32)"
    using assms by (subst u) (simp_all add: drop_bit_eq_div unat_div w)
  then have d: "drop_bit 3 (of_nat n :: u32) = of_nat (n div 8)" by (rule unsigned_word_eqI)
  have "of_nat n AND (7 :: u32) = take_bit 3 (of_nat n)" by (simp add: take_bit_eq_mask mask_eq_exp_minus_1)
  moreover have "unat (take_bit 3 (of_nat n :: u32)) = n mod 8" by (simp add: take_bit_eq_mod unat_mod w)
  ultimately have m: "of_nat n AND (7 :: u32) \<noteq> 0 \<longleftrightarrow> n mod 8 \<noteq> 0" by (metis unat_eq_zero)
  have "RND8 (of_nat n) = push_bit 3 (of_nat ((n + 7) div 8))"
  proof (cases "n mod 8 = 0")
    case True
    then have "(n + 7) div 8 = n div 8" by presburger
    with True show ?thesis unfolding RND8_def m d by simp
  next
    case False
    then have "(n + 7) div 8 = Suc (n div 8)" by presburger
    with False show ?thesis unfolding RND8_def m d by (simp add: add.commute)
  qed
  also have "\<dots> = of_nat (8 * ((n + 7) div 8))" by (simp add: push_bit_eq_mult mult.commute)
  finally show ?thesis using assms u [of "8 * ((n + 7) div 8)"] by simp
qed

lemma next_offset:
  defines "a d \<equiv> rtl8812_query_rx_desc_status d"
  shows "24 \<le> rx_pkt_offset (a d)" "rx_pkt_offset (a d) < 2 ^ 15" "rx_next_offset (a d) = 8 * ((rx_pkt_offset (a d) + 7) div 8)"
    "rx_pkt_offset (a d) \<le> rx_next_offset (a d)"
proof -
  let ?o = "rx_pkt_offset (a d)"
  show o: "24 \<le> ?o" "?o < 2 ^ 15" using query_bounds [of d] by (simp_all add: rx_pkt_offset_def RXDESC_SIZE_def a_def)
  obtain n where n: "?o = int n" "n < 2 ^ 15" using o by (metis nat_int_comparison(2) nat_0_le nat_numeral order_trans zero_le_numeral of_nat_numeral of_nat_power)
  have "unat (ucast (RND8 (of_nat n)) :: u16) = 8 * ((n + 7) div 8)"
    using unat_RND8 [OF n(2)] n(2) by (simp add: unsigned_ucast_eq take_bit_nat_eq_self)
  then have "uint (ucast (RND8 (of_nat n)) :: u16) = int (8 * ((n + 7) div 8))" by (simp only: uint_nat)
  then show "rx_next_offset (a d) = 8 * ((?o + 7) div 8)" by (simp add: rx_next_offset_def n zdiv_int)
  then show "?o \<le> rx_next_offset (a d)" by linarith
qed

lemma recv_packet_next:
  assumes "recv_packet pe os entry mem pbuf transfer_len st = Some (fr, Some off, st')"
  shows "24 \<le> off"
  using assms order_trans [OF next_offset(1,4)]
  by (auto simp: recv_packet_def Let_def bind_eq_Some_conv split: option.splits prod.splits if_splits)

text \<open>
  The frames given to the upper layers, in their order, and the state.  \<open>pkt_cnt\<close> is read, and
  counted down, but nothing depends on it.
\<close>

function recv_packets ::
  "phy_env \<Rightarrow> rx_os \<Rightarrow> (nat \<Rightarrow> defrag_state \<Rightarrow> defrag_state option) \<Rightarrow> byte list \<Rightarrow> int \<Rightarrow> int \<Rightarrow> defrag_state \<Rightarrow> (rx_frame list \<times> defrag_state) option" where
  "recv_packets pe os entry mem pbuf transfer_len st =
     (case recv_packet pe os entry mem pbuf transfer_len st of
        None \<Rightarrow> None
      | Some (fr, None, st) \<Rightarrow> Some (fr, st)
      | Some (fr, Some off, st) \<Rightarrow>
          if transfer_len - off > 0
          then map_option (\<lambda>(fs, st). (fr @ fs, st)) (recv_packets pe os entry mem (pbuf + off) (transfer_len - off) st)
          else Some (fr, st))"
  by pat_completeness auto
termination
  by (relation "measure (\<lambda>(pe, os, entry, mem, pbuf, transfer_len, st). nat transfer_len)") (auto dest!: recv_packet_next)

declare recv_packets.simps [simp del]

definition recvbuf2recvframe ::
  "phy_env \<Rightarrow> rx_os \<Rightarrow> (nat \<Rightarrow> defrag_state \<Rightarrow> defrag_state option) \<Rightarrow> byte list \<Rightarrow> int \<Rightarrow> defrag_state \<Rightarrow> (rx_frame list \<times> defrag_state) option" where
  "recvbuf2recvframe pe os entry mem len st = do {
     pkt_cnt \<leftarrow> map_option GET_RX_STATUS_DESC_USB_AGG_PKTNUM (rd_bytes mem 0 16);
     recv_packets pe os entry mem 0 len st
   }"

section \<open>Frames of the pool\<close>

lemma upd_frame_pool [simp]:
  "queues (upd_frame i g s) = queues s" "held (upd_frame i g s) = held s" "pool_inv (upd_frame i g s) = pool_inv s"
  "rp_stas (upd_frame i g s) = rp_stas s" "length (rp_frames (upd_frame i g s)) = length (rp_frames s)"
  "i < length (rp_frames s) \<Longrightarrow> rp_frames (upd_frame i g s) ! i = g (rp_frames s ! i)"
  by (simp_all add: upd_frame_def queues_def held_def pool_inv_def)




lemma put_attrib: "rxf_attrib (snd (recvframe_put n f)) = rxf_attrib f"
  by (simp add: recvframe_put_def Let_def)

lemma truncate_mfrag [simp]: "rx_mfrag (rx_attrib.truncate a) = rx_mfrag a"
  by (simp add: rx_attrib.truncate_def)

lemma truncate_pkt_len [simp]: "rx_pkt_len (rx_attrib.truncate a) = rx_pkt_len a"
  by (simp add: rx_attrib.truncate_def)




text \<open>A frame that has been allocated and filled holds the bytes of the packet at \<open>rx_data\<close>.\<close>

lemma os_alloc_frame:
  assumes "rtw_os_alloc_recvframe na al cl (Some src) True f = Some (res, f')" "res \<noteq> FAIL"
    and "n = unat (rx_pkt_len (rxf_attrib f))" "n \<le> length src"
  shows "\<exists>A B. rxf_buf f' = A @ take n src @ B \<and> rxf_data f' = int (length A)"
proof -
  have r: "rd_bytes src 0 (int n) = Some (take n src)" using rd_bytes_nat [of 0 n src] assms(4) by simp
  have w: "\<exists>A B. m' = A @ take n src @ B \<and> d = length A" if "wr_bytes m (int d) (take n src) = Some m'" for m m' d
  proof -
    have "m' = take d m @ take n src @ drop (d + length (take n src)) m" "d \<le> length m"
      using that by (auto simp: wr_bytes_def in_buf_def overlay_def split: if_splits)
    then show ?thesis by (metis length_take min.absorb2)
  qed
  define first where "first \<longleftrightarrow> rx_mfrag (rxf_attrib f) = 1 \<and> rx_frag_num (rxf_attrib f) = 0"
  define sz where "sz = (if first then if n \<le> 1650 then 1664 else n + 14 else n + 14)"
  define d where "d = 8 - al mod 8 + (if rx_qos (rxf_attrib f) \<noteq> 0 then 6 else 0)"
  note def = assms(1) [unfolded rtw_os_alloc_recvframe_def Let_def option.case assms(3) [symmetric]
      first_def [symmetric] sz_def [symmetric] d_def [symmetric] r Option.bind.simps]
  show ?thesis
  proof (cases "na sz")
    case None
    then have "rxf_buf f' = [] @ take n src @ drop n src" "rxf_data f' = int (length [])"
      using def assms(2) by (auto split: if_splits)
    then show ?thesis by blast
  next
    case (Some m)
    then obtain m' where "wr_bytes m (int d) (take n src) = Some m'" "rxf_buf f' = m'" "rxf_data f' = int d"
      using def unfolding Some option.case bind_eq_Some_conv by auto
    then show ?thesis using w by blast
  qed
qed

lemma rd_bytes_inside:
  assumes "p = int (length A) + o'" "0 \<le> o'" "0 \<le> l" "o' + l \<le> int (length P)"
  shows "rd_bytes (A @ P @ B) p l = rd_bytes P o' l"
proof -
  obtain k n where "o' = int k" "l = int n" using assms(2,3) nonneg_int_cases by metis
  then show ?thesis using assms rd_bytes_nat [of "length A + k" n "A @ P @ B"] rd_bytes_nat [of k n P] by simp
qed

text \<open>
  What has to hold of a frame with the bytes \<open>P\<close> for its addresses to be read: it is not shorter than
  the header, and is no beacon of the own network outside of station mode.
\<close>

definition phy_hdr_short :: "byte list \<Rightarrow> bool" where
  "phy_hdr_short P \<longleftrightarrow> length P < 22 \<or> get_tofr_ds P 0 = Some 3 \<and> length P < 30"

definition phy_no_sa :: "phy_env \<Rightarrow> byte list \<Rightarrow> bool" where
  "phy_no_sa pe P \<longleftrightarrow> \<not> check_fwstate (pe_fw_state pe) WIFI_STATION_STATE \<and> GetSubType P 0 = Some WIFI_BEACON \<and>
     addr_is P (get_hdr_bssid P 0) (pe_bssid pe) = Some True"

definition phy_tables_ok :: "phy_env \<Rightarrow> bool" where
  "phy_tables_ok pe \<longleftrightarrow> sta_wf (pe_stapriv pe) \<and> sta_unique (pe_stapriv pe)"

lemma phy_status_total:
  assumes "phy_tables_ok pe" and buf: "rxf_buf f = A @ P @ B" "rxf_data f = int (length A)"
    and "\<not> phy_hdr_short P" "\<not> phy_no_sa pe P" and "0 \<le> q" "q + 28 \<le> int (length mem)"
  shows "rtl8812_query_rx_phy_status pe a f mem q \<noteq> None"
proof -
  let ?m = "A @ P @ B" and ?p = "int (length A)"
  have P: "22 \<le> length P" using assms(4) by (simp add: phy_hdr_short_def)
  have g: "get16 ?m ?p = get16 P 0" using rd_bytes_inside [of ?p A 0 2 P B] P by (simp add: get16_def)
  have fc: "GetType ?m ?p = GetType P 0" "GetSubType ?m ?p = GetSubType P 0" "get_tofr_ds ?m ?p = get_tofr_ds P 0"
    by (simp_all add: GetType_def GetSubType_def get_tofr_ds_def GetToDs_def GetFrDs_def hdr_flag_def g)
  obtain v where v: "get16 P 0 = Some v" using P by (auto simp: get16_def rd_bytes_def in_buf_def)
  obtain t where t: "get_tofr_ds P 0 = Some t" "t = 0 \<or> t = 1 \<or> t = 2 \<or> t = 3"
    using v by (auto simp: get_tofr_ds_def GetToDs_def GetFrDs_def hdr_flag_def)
  have rd: "rd_bytes ?m (?p + k) 6 = rd_bytes P k 6" "\<exists>b. rd_bytes P k 6 = Some b" if "0 \<le> k" "k + 6 \<le> int (length P)" for k
    using rd_bytes_inside [of "?p + k" A k 6 P B] that by (auto simp: rd_bytes_def in_buf_def)
  have a1: "\<exists>b. addr_is ?m (get_hdr_bssid ?m ?p) x = Some b \<and> addr_is P (get_hdr_bssid P 0) x = Some b" for x
    using t(2) rd [of 16] rd [of 10] rd [of 4] P
    by (elim disjE) (auto simp: addr_is_def get_hdr_bssid_def fc t(1) GetAddr1Ptr_def GetAddr2Ptr_def GetAddr3Ptr_def)
  have a2: "\<exists>b. addr_is ?m (get_da ?m ?p) x = Some b" for x
    using t(2) rd [of 16] rd [of 4] P
    by (elim disjE) (auto simp: addr_is_def get_da_def fc t(1) GetAddr1Ptr_def GetAddr3Ptr_def)
  have sa: "\<exists>b. do { sa \<leftarrow> get_sa ?m ?p; rd_bytes ?m sa 6 } = Some b"
    using t(2) rd [of 16] rd [of 10] rd [of 24] P assms(4)
    by (elim disjE) (auto simp: get_sa_def fc t(1) phy_hdr_short_def GetAddr2Ptr_def GetAddr3Ptr_def GetAddr4Ptr_def)
  have st: "rtw_get_stainfo (pe_stapriv pe) (Some x) = Inr (sta_map (pe_stapriv pe) (sta_key x))" for x
    using assms(1) get_stainfo_map by (simp add: phy_tables_ok_def)
  have r: "\<exists>b. rd_bytes mem q SZ_RW_FWINFO = Some b" using assms(6,7) by (simp add: rd_bytes_def in_buf_def SZ_RW_FWINFO_def)
  have ty: "\<exists>b. GetSubType P 0 = Some b" "\<exists>b. GetType P 0 = Some b" by (simp_all add: GetType_def GetSubType_def v)
  obtain b1 where b1: "addr_is ?m (get_hdr_bssid ?m ?p) (pe_bssid pe) = Some b1" "addr_is P (get_hdr_bssid P 0) (pe_bssid pe) = Some b1"
    using a1 by blast
  have na: "check_fwstate (pe_fw_state pe) WIFI_STATION_STATE" if "b1" "GetSubType P 0 = Some WIFI_BEACON"
    using that assms(5) b1 by (auto simp: phy_no_sa_def)
  show ?thesis
    using a2 [of "pe_mac_addr pe"] sa r ty b1 na
    unfolding rtl8812_query_rx_phy_status_def buf Let_def IsFrameTypeCtrl_def fc
    by (auto simp: st bind_eq_None_conv)
qed







section \<open>The contract with the upper layers\<close>









section \<open>Packets of a transfer\<close>

text \<open>
  A packet as the device writes it: a descriptor, the information of the physical layer and the
  shift, the frame and the padding.
\<close>

type_synonym usb_packet = "byte list \<times> byte list \<times> byte list \<times> byte list"

definition packet_bytes :: "usb_packet \<Rightarrow> byte list" where
  "packet_bytes x = (case x of (d, g, p, z) \<Rightarrow> d @ g @ p @ z)"

definition packet_ok :: "usb_packet \<Rightarrow> bool" where
  "packet_ok x = (case x of (d, g, p, z) \<Rightarrow>
     let a = rtl8812_query_rx_desc_status d
     in length d = 24 \<and> rd_crc_err a = 0 \<and> rd_icv_err a = 0 \<and> rd_pkt_rpt_type a = NORMAL_RX \<and>
        length g = unat (rd_drvinfo_sz a) + unat (rd_shift_sz a) \<and> length p = unat (rx_pkt_len a) \<and> p \<noteq> [] \<and>
        length z < 8 \<and> length (d @ g @ p @ z) mod 8 = 0)"

text \<open>
  The information of the physical layer can be read where the descriptor announces it, and the header
  of the frame too.
\<close>

definition phy_readable :: "phy_env \<Rightarrow> usb_packet \<Rightarrow> bool" where
  "phy_readable pe x = (case x of (d, g, p, z) \<Rightarrow>
     rd_physt (rtl8812_query_rx_desc_status d) \<noteq> 0 \<longrightarrow>
       phy_tables_ok pe \<and> 28 \<le> length (g @ p @ z) \<and> \<not> phy_hdr_short p \<and> \<not> phy_no_sa pe p)"

definition os_full :: "rx_os \<Rightarrow> bool" where
  "os_full os \<longleftrightarrow> (\<forall>p n. \<exists>m. os_netdev_alloc_skb os p n = Some m \<and> n \<le> length m)"

lemma os_alloc_full:
  assumes "na (if rx_mfrag (rxf_attrib f) = 1 \<and> rx_frag_num (rxf_attrib f) = 0 then if n \<le> 1650 then 1664 else n + 14 else n + 14) = Some m"
    and "(if rx_mfrag (rxf_attrib f) = 1 \<and> rx_frag_num (rxf_attrib f) = 0 then if n \<le> 1650 then 1664 else n + 14 else n + 14) \<le> length m"
    and "n = unat (rx_pkt_len (rxf_attrib f))" "n \<le> length src" "rxf_len f = 0"
  shows "\<exists>f'. rtw_os_alloc_recvframe na al cl (Some src) True f = Some (SUCCESS, f') \<and>
    rxf_attrib f' = rxf_attrib f \<and> frame_bytes (snd (recvframe_put (int n) f')) = take n src \<and>
    rxf_len (snd (recvframe_put (int n) f')) = of_nat n \<and> 0 \<le> rxf_data (snd (recvframe_put (int n) f'))"
proof -
  define z where "z = (if rx_mfrag (rxf_attrib f) = 1 \<and> rx_frag_num (rxf_attrib f) = 0 then if n \<le> 1650 then 1664 else n + 14 else n + 14)"
  define d where "d = 8 - al mod 8 + (if rx_qos (rxf_attrib f) \<noteq> 0 then 6 else 0)"
  have "d \<le> 14" by (auto simp: d_def)
  then have z: "d + n \<le> z" unfolding z_def by (auto split: if_splits)
  have m: "na z = Some m" "z \<le> length m" using assms(1,2) by (simp_all add: z_def)
  have r: "rd_bytes src 0 (int n) = Some (take n src)" using rd_bytes_nat [of 0 n src] assms(4) by simp
  have w: "wr_bytes m (int d) (take n src) = Some (overlay m d (take n src))" using m z by (simp add: wr_bytes_nat)
  let ?f = "f\<lparr>rxf_skb := True, rxf_buf := overlay m d (take n src), rxf_end := int z, rxf_data := int d, rxf_tail := int d\<rparr>"
  have "rtw_os_alloc_recvframe na al cl (Some src) True f = Some (SUCCESS, ?f)"
    unfolding rtw_os_alloc_recvframe_def Let_def option.case assms(3) [symmetric] z_def [symmetric] m(1) r d_def [symmetric]
    by (simp add: w)
  moreover have "recvframe_put (int n) ?f = (Some (int d + int n), ?f\<lparr>rxf_tail := int d + int n, rxf_len := of_nat n\<rparr>)"
    using z assms(5) by (simp add: recvframe_put_def Let_def)
  moreover have "take n (drop d (overlay m d (take n src))) = take n src"
    using overlay_region [of d "take n src" m] assms(4) m z by simp
  ultimately show ?thesis by (simp add: frame_bytes_def)
qed

lemma recv_packet_ok:
  assumes "packet_ok (d, g, p, z)" "os_full os" "rtw_alloc_recvframe FreeQ (ds_pool st) = (Some i, s)" "i < length (rp_frames s)"
    and "int (length (d @ g @ p)) \<le> transfer_len" "mem = pre @ packet_bytes (d, g, p, z) @ suf"
    and phy: "phy_readable pe (d, g, p, z)"
  shows "\<exists>f. rxf_attrib f = rx_attrib.truncate (rtl8812_query_rx_desc_status d) \<and> frame_bytes f = p \<and> rxf_len f = of_nat (length p) \<and> 0 \<le> rxf_data f \<and>
    recv_packet pe os entry mem (int (length pre)) transfer_len st =
      map_option (\<lambda>st. ([f], Some (int (length (packet_bytes (d, g, p, z)))), st)) (entry i (st\<lparr>ds_pool := upd_frame i (\<lambda>_. f) s\<rparr>))"
proof -
  define a where "a = rtl8812_query_rx_desc_status d"
  define s0 where "s0 = upd_frame i (\<lambda>f. f\<lparr>rxf_len := 0\<rparr>) s"
  define s1 where "s1 = upd_frame i (\<lambda>f. f\<lparr>rxf_attrib := rx_attrib.truncate a\<rparr>) s0"
  note ok = assms(1) [unfolded packet_ok_def Let_def prod.case, folded a_def]
  have len: "length d = 24" "int (length g) = uint (rd_drvinfo_sz a) + uint (rd_shift_sz a)" "uint (rx_pkt_len a) = int (length p)"
    using ok by simp_all
  have d: "rd_bytes mem (int (length pre)) RXDESC_SIZE = Some d"
    using rd_bytes_nat [of "length pre" 24 mem] ok assms(6) by (simp add: RXDESC_SIZE_def packet_bytes_def)
  define src where "src = drop (nat (int (length pre) + RXDESC_SIZE + uint (rd_drvinfo_sz a) + uint (rd_shift_sz a))) mem"
  have "nat (int (length pre) + RXDESC_SIZE + uint (rd_drvinfo_sz a) + uint (rd_shift_sz a)) = length (pre @ d @ g)"
    unfolding length_append RXDESC_SIZE_def using len by linarith
  then have src: "src = p @ z @ suf" by (simp add: src_def assms(6) packet_bytes_def)
  have s1: "rx_pkt_len (rxf_attrib (rp_frames s1 ! i)) = rx_pkt_len a" "rxf_len (rp_frames s1 ! i) = 0"
    "rxf_attrib (rp_frames s1 ! i) = rx_attrib.truncate a"
    using assms(4) by (simp_all add: s1_def s0_def rx_attrib.truncate_def)
  define n where "n = (if rx_mfrag (rxf_attrib (rp_frames s1 ! i)) = 1 \<and> rx_frag_num (rxf_attrib (rp_frames s1 ! i)) = 0
    then if length p \<le> 1650 then 1664 else length p + 14 else length p + 14)"
  obtain m where m: "os_netdev_alloc_skb os (int (length pre)) n = Some m" "n \<le> length m" using assms(2) unfolding os_full_def by blast
  have "length p = unat (rx_pkt_len (rxf_attrib (rp_frames s1 ! i)))" "length p \<le> length src" using ok by (simp_all add: s1 src)
  note full = os_alloc_full [where na = "os_netdev_alloc_skb os (int (length pre))" and f = "rp_frames s1 ! i" and n = "length p" and src = src
      and al = "os_align os (int (length pre))" and cl = "os_skb_clone os (int (length pre))", OF m [unfolded n_def] this s1(2)]
  obtain f where f: "rtw_os_alloc_recvframe (os_netdev_alloc_skb os (int (length pre))) (os_align os (int (length pre)))
      (os_skb_clone os (int (length pre))) (Some src) True (rp_frames s1 ! i) = Some (SUCCESS, f)"
    "rxf_attrib f = rx_attrib.truncate a" "frame_bytes (snd (recvframe_put (int (length p)) f)) = p"
    "rxf_len (snd (recvframe_put (int (length p)) f)) = of_nat (length p)" "0 \<le> rxf_data (snd (recvframe_put (int (length p)) f))"
    using full by (auto simp: src s1)
  have off: "rx_pkt_offset a = int (length (d @ g @ p))" using len by (simp add: rx_pkt_offset_def RXDESC_SIZE_def)
  have "length z < 8" "(length (d @ g @ p) + length z) mod 8 = 0" using ok unfolding length_append add.assoc by blast+
  then have "8 * ((int (length (d @ g @ p)) + 7) div 8) = int (length (d @ g @ p) + length z)" by presburger
  then have nx: "rx_next_offset a = int (length (packet_bytes (d, g, p, z)))"
    unfolding next_offset(3) [of d, folded a_def] off packet_bytes_def prod.case length_append by (simp only: add.assoc)
  have n: "rx_pkt_len a \<noteq> 0" "uint (rx_pkt_len a) = int (length p)" using ok len by auto
  define t where "t = upd_frame i (\<lambda>_. snd (recvframe_put (uint (rx_pkt_len a)) f)) s1"
  have t: "t = upd_frame i (\<lambda>_. snd (recvframe_put (int (length p)) f)) s"
    by (simp add: t_def s1_def s0_def upd_frame_def n)
  have c: "(rd_crc_err a \<noteq> 0 \<or> rd_icv_err a \<noteq> 0) = False" "(rx_pkt_len a = 0 \<or> rx_pkt_offset a > transfer_len) = False"
    "(rd_pkt_rpt_type a = NORMAL_RX) = True"
    using ok n(1) off assms(5) by simp_all
  have fr: "rp_frames t ! i = snd (recvframe_put (int (length p)) f)" using assms(4) by (simp add: t)
  have q: "\<exists>x. (if rd_physt a \<noteq> 0 then map_option Some (rtl8812_query_rx_phy_status pe a (rp_frames t ! i) mem (int (length pre) + RXDESC_OFFSET))
      else Some None) = Some x"
  proof (cases "rd_physt a = 0")
    case False
    then have r: "28 \<le> length (g @ p @ z)" "\<not> phy_hdr_short p" "\<not> phy_no_sa pe p" "phy_tables_ok pe"
      using phy by (simp_all add: phy_readable_def a_def)
    have "int (length pre) + RXDESC_OFFSET + 28 \<le> int (length mem)" "0 \<le> int (length pre) + RXDESC_OFFSET"
      using r(1) len(1) unfolding RXDESC_OFFSET_def RXDESC_SIZE_def assms(6) packet_bytes_def by simp_all
    moreover obtain A B where "rxf_buf f = A @ p @ B" "rxf_data f = int (length A)"
      using os_alloc_frame [OF f(1), of "length p"] ok by (auto simp: src s1)
    then have "rxf_buf (rp_frames t ! i) = A @ p @ B" "rxf_data (rp_frames t ! i) = int (length A)"
      by (simp_all add: fr recvframe_put_def Let_def)
    ultimately show ?thesis using phy_status_total [OF r(4) _ _ r(2,3)] False by auto
  qed simp
  then obtain x where q: "(if rd_physt a \<noteq> 0 then map_option Some (rtl8812_query_rx_phy_status pe a (rp_frames t ! i) mem (int (length pre) + RXDESC_OFFSET))
      else Some None) = Some x" by blast
  have "recv_packet pe os entry mem (int (length pre)) transfer_len st =
      map_option (\<lambda>st. ([snd (recvframe_put (int (length p)) f)], Some (rx_next_offset a), st)) (entry i (st\<lparr>ds_pool := t\<rparr>))"
    unfolding recv_packet_def assms(3) prod.case option.case Let_def d Option.bind.simps s0_def [symmetric] a_def [symmetric]
      s1_def [symmetric] src_def [symmetric] f(1) t_def [symmetric]
    by (simp only: c if_False if_True status.distinct Option.bind.simps prod.case t_def [symmetric] q, simp only: fr)
  then show ?thesis using f(2-) nx unfolding t a_def by (intro exI [of _ "snd (recvframe_put (int (length p)) f)"]) (simp add: put_attrib)
qed

lemma recv_packets_ok:
  assumes "ps \<noteq> []" "list_all packet_ok ps" "list_all (phy_readable pe) ps" "os_full os" "ready st"
    and ready: "\<And>st. ready st \<Longrightarrow> \<exists>i s. rtw_alloc_recvframe FreeQ (ds_pool st) = (Some i, s) \<and> i < length (rp_frames s) \<and>
      (\<forall>f. \<exists>st'. entry i (st\<lparr>ds_pool := upd_frame i (\<lambda>_. f) s\<rparr>) = Some st' \<and> ready st')"
  shows "\<exists>fs st'. recv_packets pe os entry (pre @ concat (map packet_bytes ps) @ slack) (int (length pre))
      (int (length (concat (map packet_bytes ps)))) st = Some (fs, st') \<and> ready st' \<and>
    map (\<lambda>f. (rxf_attrib f, frame_bytes f)) fs = map (\<lambda>(d, g, p, z). (rx_attrib.truncate (rtl8812_query_rx_desc_status d), p)) ps"
  using assms(1-3,5)
proof (induction ps arbitrary: pre st)
  case (Cons x ps)
  obtain d g p z where x: "x = (d, g, p, z)" by (cases x)
  let ?n = "int (length (packet_bytes x))" and ?r = "int (length (concat (map packet_bytes ps)))"
  let ?mem = "pre @ concat (map packet_bytes (x # ps)) @ slack"
  obtain i s where i: "rtw_alloc_recvframe FreeQ (ds_pool st) = (Some i, s)" "i < length (rp_frames s)"
    and en: "\<And>f. \<exists>st'. entry i (st\<lparr>ds_pool := upd_frame i (\<lambda>_. f) s\<rparr>) = Some st' \<and> ready st'"
    using ready [OF Cons.prems(4)] by blast
  have ok: "packet_ok (d, g, p, z)" "int (length (d @ g @ p)) \<le> ?n + ?r" "?mem = pre @ packet_bytes (d, g, p, z) @ concat (map packet_bytes ps) @ slack"
    "phy_readable pe (d, g, p, z)"
    using Cons.prems(2,3) by (simp_all add: x packet_bytes_def)
  obtain f where f: "rxf_attrib f = rx_attrib.truncate (rtl8812_query_rx_desc_status d)" "frame_bytes f = p"
    "recv_packet pe os entry ?mem (int (length pre)) (?n + ?r) st =
      map_option (\<lambda>st. ([f], Some ?n, st)) (entry i (st\<lparr>ds_pool := upd_frame i (\<lambda>_. f) s\<rparr>))"
    using recv_packet_ok [OF ok(1) assms(4) i ok(2-4)] unfolding x by blast
  obtain st1 where st1: "entry i (st\<lparr>ds_pool := upd_frame i (\<lambda>_. f) s\<rparr>) = Some st1" "ready st1" using en by blast
  have p: "recv_packet pe os entry ?mem (int (length pre)) (?n + ?r) st = Some ([f], Some ?n, st1)" using f(3) st1(1) by simp
  have r: "recv_packets pe os entry ?mem (int (length pre)) (?n + ?r) st =
      (if ?r > 0 then map_option (\<lambda>(fs, st). (f # fs, st)) (recv_packets pe os entry ?mem (int (length pre) + ?n) ?r st1) else Some ([f], st1))"
    by (subst recv_packets.simps) (simp only: p option.case prod.case add_diff_cancel_left' append_Cons append_Nil)
  have len: "int (length (concat (map packet_bytes (x # ps)))) = ?n + ?r" by simp
  show ?case
  proof (cases "ps = []")
    case True
    then show ?thesis unfolding len r using f st1 by (simp add: x)
  next
    case False
    then have "packet_ok (hd ps)" using Cons.prems(2) by (simp add: list.pred_set)
    then have pos: "?r > 0" using False by (cases ps) (auto simp: packet_ok_def packet_bytes_def Let_def)
    obtain fs st' where fs: "recv_packets pe os entry ((pre @ packet_bytes x) @ concat (map packet_bytes ps) @ slack) (int (length (pre @ packet_bytes x))) ?r st1 = Some (fs, st')"
      "ready st'" "map (\<lambda>f. (rxf_attrib f, frame_bytes f)) fs = map (\<lambda>(d, g, p, z). (rx_attrib.truncate (rtl8812_query_rx_desc_status d), p)) ps"
      using Cons.IH [OF False _ _ st1(2), of "pre @ packet_bytes x"] Cons.prems(2,3) by auto
    have "recv_packets pe os entry ?mem (int (length pre) + ?n) ?r st1 = Some (fs, st')" using fs(1) by simp
    then show ?thesis unfolding len r using pos fs f by (simp add: x)
  qed
qed simp

section \<open>Properties\<close>


definition rxu_os :: rx_os where
  "rxu_os = \<lparr>os_netdev_alloc_skb = (\<lambda>_ n. Some (replicate n 0)), os_align = (\<lambda>_. 0), os_skb_clone = (\<lambda>_. True)\<rparr>"

definition rxu_pe :: phy_env where
  "rxu_pe = \<lparr>pe_bssid = [2, 0, 0, 0, 0, 1], pe_mac_addr = [2, 0, 0, 0, 0, 2], pe_fw_state = WIFI_STATION_STATE,
     pe_stapriv = the (snd (rtw_init_sta_priv True (replicate 6 0)))\<rparr>"

definition rxu_desc :: "byte \<Rightarrow> byte \<Rightarrow> byte \<Rightarrow> byte list" where
  "rxu_desc len drv ph = [len, 0, drv, ph, 0, 0, 0, 0, 0, 0, 0, 0, 0, 0, 0, 0, 0, 0, 0, 0, 0, 0, 0, 0]"

text \<open>
  C40 (roundtrip): a transfer of packets the device has received without error, each
  padded to eight bytes, is taken apart into exactly these packets: the upper layers are given, in
  the order of the transfer, one frame for each with the attributes of its descriptor and its bytes, as
  long as they leave a free frame for the next one, and as the information of the physical layer, where
  a descriptor announces it, and the addresses of its frame can be read (\<open>phy_readable\<close>).
\<close>

theorem usb_transfer_delivers:
  assumes "ps \<noteq> []" "list_all packet_ok ps" "list_all (phy_readable pe) ps" "os_full os" "ready st"
    and "\<And>st. ready st \<Longrightarrow> \<exists>i s. rtw_alloc_recvframe FreeQ (ds_pool st) = (Some i, s) \<and> i < length (rp_frames s) \<and>
      (\<forall>f. \<exists>st'. entry i (st\<lparr>ds_pool := upd_frame i (\<lambda>_. f) s\<rparr>) = Some st' \<and> ready st')"
  shows "\<exists>fs st'. recvbuf2recvframe pe os entry (concat (map packet_bytes ps) @ slack) (int (length (concat (map packet_bytes ps)))) st = Some (fs, st') \<and>
    map (\<lambda>f. (rxf_attrib f, frame_bytes f)) fs = map (\<lambda>(d, g, p, z). (rx_attrib.truncate (rtl8812_query_rx_desc_status d), p)) ps"
proof -
  have "packet_ok (hd ps)" using assms(1,2) by (simp add: list.pred_set)
  then have "24 \<le> length (concat (map packet_bytes ps))" using assms(1) by (cases ps) (auto simp: packet_ok_def packet_bytes_def Let_def)
  then have "rd_bytes (concat (map packet_bytes ps) @ slack) 0 16 \<noteq> None" by (simp add: rd_bytes_def in_buf_def)
  then show ?thesis
    using recv_packets_ok [OF assms, of "[]" slack] by (auto simp: recvbuf2recvframe_def)
qed

lemmas rxu_simps = rxu_desc_def rtl8812_query_rx_desc_status_def GET_RX_STATUS_DESC_defs LE_BITS_TO_4BYTE_def
  LE_P4BYTE_TO_HOST_4BYTE_def BIT_LEN_MASK_32_def le32_of_def NORMAL_RX_def Let_def

definition rxu_frame :: "byte list" where
  "rxu_frame = [8, 2, 0, 0] @ [2, 0, 0, 0, 0, 2] @ [2, 0, 0, 0, 0, 1] @ [4, 0, 0, 0, 0, 9] @ [0, 0]"

text \<open>A short frame without, and a data frame with the information of the physical layer.\<close>

definition rxu_ps :: "usb_packet list" where
  "rxu_ps = [(rxu_desc 3 0 0, [], [8, 0, 1], [0, 0, 0, 0, 0]), (rxu_desc 24 4 4, replicate 32 7, rxu_frame, [])]"

lemma rxu_packets:
  "packet_ok (rxu_desc 3 0 0, [], [8, 0, 1], [0, 0, 0, 0, 0])" "packet_ok (rxu_desc 24 4 4, replicate 32 7, rxu_frame, [])"
  by (simp_all add: packet_ok_def rxu_frame_def rxu_simps)

lemma rxu_phy:
  "phy_tables_ok rxu_pe" "phy_readable pe (rxu_desc 3 0 0, [], [8, 0, 1], [0, 0, 0, 0, 0])"
  "phy_readable rxu_pe (rxu_desc 24 4 4, replicate 32 7, rxu_frame, [])"
proof -
  have "rtw_init_sta_priv True (replicate 6 0) = (SUCCESS, Some (pe_stapriv rxu_pe))"
    by (simp add: rxu_pe_def rtw_init_sta_priv_def)
  from init_table [OF this] show t: "phy_tables_ok rxu_pe" by (simp add: phy_tables_ok_def)
  show "phy_readable pe (rxu_desc 3 0 0, [], [8, 0, 1], [0, 0, 0, 0, 0])"
    by (simp add: phy_readable_def rxu_simps)
  have "get_tofr_ds rxu_frame 0 = Some 1" by code_simp
  then have "\<not> phy_hdr_short rxu_frame" by (simp add: phy_hdr_short_def rxu_frame_def)
  moreover have "\<not> phy_no_sa rxu_pe rxu_frame" by (simp add: phy_no_sa_def rxu_pe_def check_fwstate_def WIFI_STATION_STATE_def)
  ultimately show "phy_readable rxu_pe (rxu_desc 24 4 4, replicate 32 7, rxu_frame, [])"
    by (simp add: phy_readable_def t)
qed

theorem usb_transfer_delivers_witness:
  "\<exists>fs st'. recvbuf2recvframe rxu_pe rxu_os (\<lambda>i st. Some (upd_pool (rtw_free_recvframe i FreeQ) st))
      (concat (map packet_bytes rxu_ps) @ []) (int (length (concat (map packet_bytes rxu_ps)))) (dx_state [zero_frame] [0] [] 0) = Some (fs, st') \<and>
    map (\<lambda>f. (rxf_attrib f, frame_bytes f)) fs = map (\<lambda>(d, g, p, z). (rx_attrib.truncate (rtl8812_query_rx_desc_status d), p)) rxu_ps"
proof (rule usb_transfer_delivers [where ready = "\<lambda>st. rp_free_recv_queue (ds_pool st) = [0] \<and> length (rp_frames (ds_pool st)) = 1"])
  fix st :: defrag_state
  assume "rp_free_recv_queue (ds_pool st) = [0] \<and> length (rp_frames (ds_pool st)) = 1"
  then show "\<exists>i s. rtw_alloc_recvframe FreeQ (ds_pool st) = (Some i, s) \<and> i < length (rp_frames s) \<and>
      (\<forall>f. \<exists>st'. Some (upd_pool (rtw_free_recvframe i FreeQ) (st\<lparr>ds_pool := upd_frame i (\<lambda>_. f) s\<rparr>)) = Some st' \<and>
        rp_free_recv_queue (ds_pool st') = [0] \<and> length (rp_frames (ds_pool st')) = 1)"
    by (simp add: rtw_alloc_recvframe_def list_del_init_def upd_pool_def upd_frame_def rtw_free_recvframe_def Let_def)
qed (simp_all add: rxu_ps_def rxu_packets rxu_phy os_full_def rxu_os_def dx_state_def)




end
