(* ===== verification/Spec2Isabelle.thy ===== *)
theory Spec2Isabelle
  imports Omac Wpa Rates Pwr_Seq Defrag Link Tx_Sleep Tx_Desc Rx_Usb
begin

text \<open>
  A verification of the rtl8821au driver: the Linux driver of the Realtek RTL8821AU
  and RTL8812AU wireless adapters.

  \<^bold>\<open>The program.\<close>  An Ethernet packet to be sent gets its attributes (station, key, packet
  number, priority), is made into fragments with their 802.11 header, encrypted in
  software when the chip does not do it, waits in a queue of its station and category, and leaves
  behind a descriptor for the chip; frames for a sleeping station wait until it wakes
  up.  A received USB transfer is taken apart into frames of a pool; a frame is checked against
  the state of the interface, decrypted, put together from its fragments, put into
  the order of its sequence numbers and handed to the network stack as one Ethernet
  packet or, for an aggregate, several.  Which key and which station a frame belongs to is looked up
  in the station table.  Beacons and probe responses are sequences of
  information elements: the driver writes them for its own network, and searches and parses
  those of others to learn their rates and their security.  The chip is switched between
  its power states by tables of register commands which a small interpreter runs.

  \<^bold>\<open>The theories,\<close> each with the sources it translates (under src/).

  \<^item> \<open>Prelude\<close>: C integers as words, buffers with checked access (an access outside is
    \<open>None\<close>), pieces of buffers, lemmas on lists and words.
  \<^item> \<open>Arc4\<close> (core/rtw_security.c, \<open>arcfour_*\<close>): the stream cipher; its state stays a
    permutation; the locale \<open>stream_cipher\<close> gives that encrypting twice restores
    the data.
  \<^item> \<open>Crc32\<close> (\<open>crc32_init\<close>, \<open>getcrc32\<close>): the table driven checksum equals the
    bit-serial one, whichever call fills the table; it is linear and detects every
    change within four bytes.
  \<^item> \<open>Frame\<close> (include/rtw_xmit.h, include/rtw_recv.h): the attributes of a frame and the
    loop over its fragments, shared by the three encryption routines; the locale
    \<open>frame_cipher\<close> derives from a cipher that undoes one fragment that the
    receiver restores all of them.
  \<^item> \<open>Wep\<close>, \<open>Tkip\<close>, \<open>Ccmp\<close> (\<open>rtw_wep_*\<close>, \<open>rtw_tkip_*\<close>, \<open>rtw_aes_*\<close>): the three
    interpretations of \<open>frame_cipher\<close>; uniqueness of the TKIP packet keys; when a
    CCMP frame is accepted; the frames on which the code reads or writes outside
    its buffers.
  \<^item> \<open>Michael\<close> (\<open>rtw_secmic*\<close>, \<open>rtw_seccalctkipmic\<close>): equals the Michael function of the
    standard, stated independently of the driver's block function, over the whole message.
  \<^item> \<open>Aes\<close>, \<open>Rijndael\<close>, \<open>Omac\<close> (\<open>aes128k128d\<close>, \<open>rijndaelEncrypt\<close>,
    \<open>omac1_aes_128_vector\<close>): the byte-wise AES is injective, the table driven one is
    equal to it; the MAC of nonempty pieces is the CMAC of their concatenation when the entry
    behind the last piece can be read, which the driver's only caller does not provide.
  \<^item> \<open>Wlan_Hdr\<close> (include/wifi.h, include/rtw_mlme.h): the accessors of the 802.11 header and the
    states of the interface.
  \<^item> \<open>Sta_Mgt\<close> (core/rtw_sta_mgt.c, MAC ids of core/rtw_wlan_util.c): the station table
    refines a finite map from addresses to stations, an interpretation of the
    locale \<open>station_table\<close>; its free queue and hash buckets partition the stations.
  \<^item> \<open>Recvframe\<close> (include/rtw_recv.h, os_dep/recv_linux.c, core/rtw_recv.c): the pointers of a
    received frame, its buffer, the pool with its queues (the locale \<open>frame_pool\<close>) and the
    filter of duplicates.
  \<^item> \<open>Le_Bits\<close>, \<open>Rx_Usb\<close> (src/wifi.h, os_dep/usb_ops_linux.c, rtl8821au/trx.c): fields of
    descriptors, and the loop that takes a received transfer apart; its contract with the upper layers is the
    locale \<open>rx_sink\<close>.
  \<^item> \<open>Rx_Valid\<close> (core/rtw_recv.c, \<open>validate_recv_frame\<close> and what it calls): which data frames are
    accepted, and with which attributes.
  \<^item> \<open>Defrag\<close> (core/rtw_recv.c, os_dep/recv_linux.c): fragments are put together exactly when their
    numbers are consecutive, the pool loses no frame (an interpretation of \<open>frame_pool\<close>), and
    a unicast TKIP frame is accepted exactly when its Michael code is right.
  \<^item> \<open>Reorder\<close> (core/rtw_recv.c): the receive window with its queue and timer; for the frames that
    take part in it, and while the driver runs, it refines a window over unbounded sequence numbers, hands
    frames up in order, loses and duplicates none, and the timer empties it.
  \<^item> \<open>Rx_Eth\<close> (core/rtw_recv.c, os_dep/recv_linux.c): Ethernet packets made of data frames and of
    the subframes of aggregates.
  \<^item> \<open>Tx_Attrib\<close> (core/rtw_xmit.c, \<open>update_attrib\<close> and what it calls): the attributes of a
    packet; packet numbers and TKIP keys do not repeat.
  \<^item> \<open>Xmit\<close>, \<open>Link\<close> (core/rtw_xmit.c, os_dep/xmit_linux.c): \<open>rtw_xmitframe_coalesce\<close> with the
    header, the fragments, the Michael code and the ciphers; what is sent by an access point or a station is received
    by its peer as the packet it was.
  \<^item> \<open>Tx_Queue\<close>, \<open>Tx_Sleep\<close> (core/rtw_xmit.c, core/rtw_recv.c, core/rtw_sta_mgt.c): pools, queues and the
    scheduler, which serves the flows in the order of the categories (the locale
    \<open>scheduler\<close>), and stations in power save; no order of the operations loses or
    duplicates a frame, except for the frames \<open>stop_sta_xmit\<close> leaves behind.
  \<^item> \<open>Tx_Desc\<close> (rtl8821au/trx.c, trx.h): the descriptor of a frame, read back field by field.
  \<^item> \<open>Ie\<close>, \<open>Wps\<close>, \<open>Wpa\<close>, \<open>Rates\<close> (core/rtw_ieee80211.c): information elements.  What is
    written is found, what is removed is gone, the parsers stay inside the
    element whatever its bytes, what a beacon of well-formed elements is classified as; the locale
    \<open>ie_search\<close> is the contract of the two searches.
  \<^item> \<open>Pwr_Seq\<close> (hal/HalPwrSeqCmd.c, hal/Hal8812PwrSeq.c, hal/Hal8821APwrSeq.c and their
    headers): interpreter and tables; it returns for every hardware and leaves
    the registers its commands say.

  \<^bold>\<open>Conventions.\<close>  Integers have the width of their C type where it matters
  (\<open>word\<close>); lengths and offsets that the callers keep below 2^31 are \<open>int\<close>.
  A pointer is an offset into a buffer, or the bytes from there on; a pointer to a
  frame, a buffer or a station is its number in the array the driver allocates, and a
  linked list is a list of numbers.  Undefined
  behaviour (an access outside a buffer, an unlock of a free lock, the use of an uninitialised
  pointer) is a value of the result, so that its absence is a theorem and its presence can
  be shown too.  Code outside of the repository or behind a component's
  interface is an argument of the definitions: the lookup of a station in the ciphers,
  the conversion of a frame in \<open>Reorder\<close>, the upper layers and the answers of the kernel in
  \<open>Rx_Usb\<close>, the chip in \<open>Pwr_Seq\<close>.

  \<^bold>\<open>Loops.\<close>  Loops are functions with a termination proof, except for three.  Two may run
  forever and have fuel: the walk over WPS attributes (fuel for each attribute is
  enough when no attribute length wraps; no fuel is enough when one does) and
  the debug loop of \<open>rtw_get_sec_ie\<close> (32 rounds are enough for elements up to
  248 bytes; no number is enough for longer ones).  The loop over the fragments of a packet
  (\<open>coalesce_loop\<close>) does not end when the fragment length leaves no room for payload; there its value is
  \<open>None\<close>, and for packets of one fragment and packets to a group it is shown to end.  The polling loop of the power
  sequences stops by its own counter at 5000.

  \<^bold>\<open>Not modelled.\<close>  The dispatch between the receive components (\<open>recv_func\<close>, the choice of
  the decryption routine, port control), the entry of the transmit path from the net device and the
  aggregation of frames into one USB transfer; the computation of signal strengths, whose
  scale the sources do not define; the association state machine, commands and ioctls, which
  are interleaved with timers and copy between kernel structures; the
  maps of efuse and key cache, the hardware layer and the calibration, whose effect is defined by a chip
  the sources do not describe; VHT capabilities and channel tables; firmware and register
  tables, which are data; USB and operating system calls.  Within the modelled files: printing, and
  statistics counters that nothing reads.
\<close>

end
